(* ===== verification/Go_Base.thy ===== *)
theory Go_Base
  imports Main "HOL-Library.Char_ord" "HOL-Library.List_Lexorder" "HOL-Library.Sublist"
begin

text \<open>
  The prelude: the part of Go's \<open>strings\<close>, \<open>strconv\<close> and \<open>sort\<close> packages the source
  uses, and the lemmas on lists, options and results that the components share.

  A Go string is a sequence of bytes, so it is a \<open>string\<close> here, one \<open>char\<close> per byte.
  White space is Unicode white space, recognised by its UTF-8 encodings (\<open>space_encodings\<close>).
  Lower-casing is modelled on the ASCII letters; other bytes are left alone.
  Go's \<open>(value, error)\<close> results are values of a sum type, \<open>Inl\<close> the error.
\<close>

named_theorems result_cases \<open>case analysis of the result types\<close>
named_theorems go_string \<open>simplification rules for Go's string functions\<close>

type_synonym path = string

subsection \<open>Results\<close>

definition is_ok :: "'e + 'a \<Rightarrow> bool" where
  "is_ok r = (case r of Inl _ \<Rightarrow> False | Inr _ \<Rightarrow> True)"

definition ensure :: "bool \<Rightarrow> 'e \<Rightarrow> 'e + 'a \<Rightarrow> 'e + 'a" where
  "ensure c e k = (if c then k else Inl e)"

text \<open>Go's \<open>if err != nil { return err }\<close>: go on with the value, or return the error.\<close>

definition and_then :: "'e + 'a \<Rightarrow> ('a \<Rightarrow> 'e + 'b) \<Rightarrow> 'e + 'b" where
  "and_then r k = (case r of Inl e \<Rightarrow> Inl e | Inr x \<Rightarrow> k x)"

text \<open>\<open>fmt.Errorf("...: %w", err)\<close>: the error is wrapped.\<close>

definition map_err :: "('e \<Rightarrow> 'f) \<Rightarrow> 'e + 'a \<Rightarrow> 'f + 'a" where
  "map_err f r = (case r of Inl e \<Rightarrow> Inl (f e) | Inr x \<Rightarrow> Inr x)"

fun try_all :: "('a \<Rightarrow> 'e + unit) \<Rightarrow> 'a list \<Rightarrow> 'e + unit" where
  "try_all f [] = Inr ()"
| "try_all f (x # xs) = and_then (f x) (\<lambda>_. try_all f xs)"

lemma is_ok_simps [simp]: "is_ok (Inr x)" "\<not> is_ok (Inl e)"
  by (simp_all add: is_ok_def)

lemma is_ok_iff: "is_ok r \<longleftrightarrow> (\<exists>x. r = Inr x)"
  by (cases r) simp_all

lemma ensure_Inr [simp]: "ensure c e k = Inr x \<longleftrightarrow> c \<and> k = Inr x"
  by (simp add: ensure_def)

lemma ensure_simps [simp]: "ensure True e k = k" "ensure False e k = Inl e"
  by (simp_all add: ensure_def)

lemma and_then_simps [simp]: "and_then (Inl e) k = Inl e" "and_then (Inr x) k = k x"
  by (simp_all add: and_then_def)

lemma and_then_Inr [simp]: "and_then r k = Inr y \<longleftrightarrow> (\<exists>x. r = Inr x \<and> k x = Inr y)"
  by (cases r) simp_all

lemma and_then_Inl: "and_then r k = Inl e \<longleftrightarrow> r = Inl e \<or> (\<exists>x. r = Inr x \<and> k x = Inl e)"
  by (cases r) simp_all

lemma map_err_simps [simp]:
  "map_err f (Inl e) = Inl (f e)" "map_err f (Inr x) = Inr x"
  "map_err f r = Inr x \<longleftrightarrow> r = Inr x"
  by (auto simp: map_err_def split: sum.splits)

lemma try_all_Inr [simp]: "try_all f xs = Inr u \<longleftrightarrow> (\<forall>x \<in> set xs. f x = Inr ())"
  by (induction xs) auto

lemma try_all_Inl: "try_all f xs = Inl e \<Longrightarrow> \<exists>x \<in> set xs. f x = Inl e"
  by (induction xs) (auto simp: and_then_Inl)

lemmas result_splits = sum.splits option.splits if_splits prod.splits

subsection \<open>Splitting and joining\<close>

fun split_on :: "char \<Rightarrow> string \<Rightarrow> string list" where
  "split_on c [] = [[]]"
| "split_on c (x # xs) =
     (if x = c then [] # split_on c xs
      else (case split_on c xs of [] \<Rightarrow> [[x]] | y # ys \<Rightarrow> (x # y) # ys))"

fun join_with :: "string \<Rightarrow> string list \<Rightarrow> string" where
  "join_with sep [] = []"
| "join_with sep [x] = x"
| "join_with sep (x # y # ys) = x @ sep @ join_with sep (y # ys)"

lemma split_on_nonempty [simp]: "split_on c s \<noteq> []"
  by (induction s) (auto split: list.splits)

lemma split_on_no_sep: "x \<in> set (split_on c s) \<Longrightarrow> c \<notin> set x"
  by (induction s arbitrary: x) (auto split: list.splits if_splits)

lemma join_split [simp]: "join_with [c] (split_on c s) = s"
proof (induction s)
  case (Cons a s)
  then show ?case
    by (cases "split_on c s"; cases "tl (split_on c s)") (auto split: list.splits)
qed simp

lemma split_on_append_sep:
  "c \<notin> set x \<Longrightarrow> split_on c (x @ c # s) = x # split_on c s"
  by (induction x) auto

lemma split_on_id: "c \<notin> set x \<Longrightarrow> split_on c x = [x]"
  by (induction x) auto

lemma split_join:
  "\<forall>x \<in> set xs. c \<notin> set x \<Longrightarrow> xs \<noteq> [] \<Longrightarrow> split_on c (join_with [c] xs) = xs"
  by (induction "[c]" xs rule: join_with.induct) (auto simp: split_on_append_sep split_on_id)

lemma join_with_Cons: "xs \<noteq> [] \<Longrightarrow> join_with sep (x # xs) = x @ sep @ join_with sep xs"
  by (cases xs) auto

lemma join_with_append:
  "xs \<noteq> [] \<Longrightarrow> ys \<noteq> [] \<Longrightarrow> join_with sep (xs @ ys) = join_with sep xs @ sep @ join_with sep ys"
  by (induction sep xs rule: join_with.induct) (auto simp: join_with_Cons)

lemma join_with_eq_Nil:
  "\<forall>x \<in> set xs. x \<noteq> [] \<Longrightarrow> join_with sep xs = [] \<longleftrightarrow> xs = []"
  by (induction sep xs rule: join_with.induct) auto

subsection \<open>White space\<close>

text \<open>The UTF-8 encodings of the runes for which \<open>unicode.IsSpace\<close> holds.\<close>

definition space_encodings :: "string list" where
  "space_encodings =
     [[CHR 0x09], [CHR 0x0A], [CHR 0x0B], [CHR 0x0C], [CHR 0x0D], [CHR 0x20],
      [CHR 0xC2, CHR 0x85], [CHR 0xC2, CHR 0xA0], [CHR 0xE1, CHR 0x9A, CHR 0x80]]
     @ map (\<lambda>b. [CHR 0xE2, CHR 0x80, b])
         [CHR 0x80, CHR 0x81, CHR 0x82, CHR 0x83, CHR 0x84, CHR 0x85, CHR 0x86, CHR 0x87,
          CHR 0x88, CHR 0x89, CHR 0x8A, CHR 0xA8, CHR 0xA9, CHR 0xAF]
     @ [[CHR 0xE2, CHR 0x81, CHR 0x9F], [CHR 0xE3, CHR 0x80, CHR 0x80]]"

definition space_len :: "string list \<Rightarrow> string \<Rightarrow> nat" where
  "space_len encs s = (case find (\<lambda>e. prefix e s) encs of None \<Rightarrow> 0 | Some e \<Rightarrow> length e)"

function strip_spaces :: "string list \<Rightarrow> string \<Rightarrow> string" where
  "strip_spaces encs s =
     (if s = [] \<or> space_len encs s = 0 then s else strip_spaces encs (drop (space_len encs s) s))"
  by pat_completeness auto
termination
  by (relation "measure (\<lambda>(encs, s). length s)") auto

declare strip_spaces.simps [simp del]

definition trim_left :: "string \<Rightarrow> string" where
  "trim_left s = strip_spaces space_encodings s"

definition trim_right :: "string \<Rightarrow> string" where
  "trim_right s = rev (strip_spaces (map rev space_encodings) (rev s))"

definition trim_space :: "string \<Rightarrow> string" where
  "trim_space s = trim_right (trim_left s)"

definition blank :: "string \<Rightarrow> bool" where
  "blank s = (trim_space s = [])"

lemma strip_spaces_suffix: "suffix (strip_spaces encs s) s"
proof (induction encs s rule: strip_spaces.induct)
  case (1 encs s)
  then show ?case
    by (subst strip_spaces.simps) (auto intro: suffix_order.trans [OF _ suffix_drop])
qed

lemma strip_spaces_Nil [simp]: "strip_spaces encs [] = []"
  by (simp add: strip_spaces.simps)

lemma blank_Nil [simp]: "blank []"
  by (simp add: blank_def trim_space_def trim_left_def trim_right_def)

lemma not_blank_nonempty: "\<not> blank s \<Longrightarrow> s \<noteq> []"
  by auto

lemma trim_space_sublist: "sublist (trim_space s) s"
proof -
  have "suffix (trim_left s) s"
    by (simp add: trim_left_def strip_spaces_suffix)
  moreover have "prefix (trim_space s) (trim_left s)"
    using strip_spaces_suffix [of "map rev space_encodings" "rev (trim_left s)"]
    by (simp add: trim_space_def trim_right_def suffix_to_prefix)
  ultimately show ?thesis
    by (meson prefix_imp_sublist sublist_order.order.trans suffix_imp_sublist)
qed

function str_fields_from :: "string \<Rightarrow> string \<Rightarrow> string list" where
  "str_fields_from acc s =
     (case s of
        [] \<Rightarrow> (if acc = [] then [] else [rev acc])
      | c # cs \<Rightarrow>
          (if space_len space_encodings s = 0 then str_fields_from (c # acc) cs
           else if acc = [] then str_fields_from [] (drop (space_len space_encodings s) s)
           else rev acc # str_fields_from [] (drop (space_len space_encodings s) s)))"
  by pat_completeness auto
termination
  by (relation "measure (\<lambda>(acc, s). length s)") (auto simp: neq_Nil_conv)

declare str_fields_from.simps [simp del]

definition str_fields :: "string \<Rightarrow> string list" where
  "str_fields s = str_fields_from [] s"

subsection \<open>Other string functions\<close>

definition to_lower_char :: "char \<Rightarrow> char" where
  "to_lower_char c =
     (if CHR ''A'' \<le> c \<and> c \<le> CHR ''Z'' then char_of (of_char c + 32 :: nat) else c)"

definition to_lower :: "string \<Rightarrow> string" where
  "to_lower s = map to_lower_char s"

definition replace_char :: "char \<Rightarrow> char \<Rightarrow> string \<Rightarrow> string" where
  "replace_char a b s = map (\<lambda>c. if c = a then b else c) s"

definition trim_prefix :: "string \<Rightarrow> string \<Rightarrow> string" where
  "trim_prefix p s = (if prefix p s then drop (length p) s else s)"

definition trim_suffix :: "string \<Rightarrow> string \<Rightarrow> string" where
  "trim_suffix p s = (if suffix p s then take (length s - length p) s else s)"

definition trim_char :: "char \<Rightarrow> string \<Rightarrow> string" where
  "trim_char c s = rev (dropWhile (\<lambda>x. x = c) (rev (dropWhile (\<lambda>x. x = c) s)))"

definition contains_any :: "string \<Rightarrow> string \<Rightarrow> bool" where
  "contains_any cs s = list_ex (\<lambda>c. c \<in> set cs) s"

definition contains_sub :: "string \<Rightarrow> string \<Rightarrow> bool" where
  "contains_sub sub s = sublist sub s"

definition is_digit :: "char \<Rightarrow> bool" where
  "is_digit c = (CHR ''0'' \<le> c \<and> c \<le> CHR ''9'')"

definition digits_value :: "string \<Rightarrow> nat" where
  "digits_value s = foldl (\<lambda>n c. 10 * n + (of_char c - 48)) 0 s"

text \<open>\<open>strconv.ParseUint(s, 10, 64)\<close>.\<close>

definition parse_uint64 :: "string \<Rightarrow> nat option" where
  "parse_uint64 s =
     (if s \<noteq> [] \<and> list_all is_digit s \<and> digits_value s < 2 ^ 64 then Some (digits_value s)
      else None)"

text \<open>\<open>strconv.Itoa\<close> and the verb \<open>%d\<close>.\<close>

fun show_nat :: "nat \<Rightarrow> string" where
  "show_nat n = (if n < 10 then [char_of (48 + n)] else show_nat (n div 10) @ [char_of (48 + n mod 10)])"

declare show_nat.simps [simp del]

definition show_int :: "int \<Rightarrow> string" where
  "show_int i = (if i < 0 then ''-'' @ show_nat (nat (- i)) else show_nat (nat i))"

lemma length_replace_char [simp]: "length (replace_char a b s) = length s"
  by (simp add: replace_char_def)

lemma length_to_lower [simp]: "length (to_lower s) = length s"
  by (simp add: to_lower_def)

text \<open>\<open>hex.EncodeToString\<close> and the test that \<open>hex.DecodeString\<close> succeeds.\<close>

definition hex_digit :: "nat \<Rightarrow> char" where
  "hex_digit n = ''0123456789abcdef'' ! n"

definition hex_encode :: "string \<Rightarrow> string" where
  "hex_encode s = concat (map (\<lambda>c. [hex_digit (of_char c div 16), hex_digit (of_char c mod 16)]) s)"

definition hex_chars :: string where
  "hex_chars = ''0123456789abcdefABCDEF''"

definition is_hex :: "string \<Rightarrow> bool" where
  "is_hex s = (even (length s) \<and> list_all (\<lambda>c. c \<in> set hex_chars) s)"

lemma length_hex_encode [simp]: "length (hex_encode s) = 2 * length s"
  by (induction s) (auto simp: hex_encode_def)

lemma hex_digit_hex: "n < 16 \<Longrightarrow> hex_digit n \<in> set hex_chars"
proof -
  assume "n < 16"
  then have "hex_digit n \<in> set ''0123456789abcdef''"
    unfolding hex_digit_def by (intro nth_mem) simp
  then show ?thesis by (auto simp: hex_chars_def)
qed

lemma is_hex_encode [simp]: "is_hex (hex_encode s)"
proof (induction s)
  case Nil
  show ?case by (simp add: is_hex_def hex_encode_def)
next
  case (Cons c s)
  have "of_char c div 16 < (16 :: nat)"
    using nat_of_char_less_256 [of c] by linarith
  then have "hex_digit (of_char c div 16) \<in> set hex_chars"
    and "hex_digit (of_char c mod 16) \<in> set hex_chars"
    by (simp_all only: hex_digit_hex mod_less_divisor zero_less_numeral)
  then show ?case
    using Cons by (simp add: is_hex_def hex_encode_def list_all_iff)
qed

lemma hex_digit_inj: "m < 16 \<Longrightarrow> n < 16 \<Longrightarrow> hex_digit m = hex_digit n \<Longrightarrow> m = n"
proof -
  have "distinct ''0123456789abcdef''" "length ''0123456789abcdef'' = 16" by simp_all
  then show "m < 16 \<Longrightarrow> n < 16 \<Longrightarrow> hex_digit m = hex_digit n \<Longrightarrow> m = n"
    unfolding hex_digit_def by (metis nth_eq_iff_index_eq)
qed

lemma hex_encode_inj: "hex_encode s = hex_encode t \<Longrightarrow> s = t"
proof (induction s arbitrary: t)
  case Nil
  then show ?case by (cases t) (auto simp: hex_encode_def)
next
  case (Cons c s)
  then obtain d u where t: "t = d # u" by (cases t) (auto simp: hex_encode_def)
  let ?v = "\<lambda>c. of_char c :: nat"
  have lt: "?v x div 16 < 16" "?v x mod 16 < 16" for x
    using nat_of_char_less_256 [of x] by linarith+
  have "hex_digit (?v c div 16) = hex_digit (?v d div 16)"
    "hex_digit (?v c mod 16) = hex_digit (?v d mod 16)" "hex_encode s = hex_encode u"
    using Cons.prems by (simp_all add: t hex_encode_def)
  then have "?v c div 16 = ?v d div 16" "?v c mod 16 = ?v d mod 16" "s = u"
    using Cons.IH hex_digit_inj lt by blast+
  then have "?v c = ?v d" by (metis div_mult_mod_eq)
  then show ?case using t \<open>s = u\<close> by simp
qed

subsection \<open>Lists: sorted keys, first match, last binding\<close>

text \<open>
  \<open>distinct_sort\<close> is the sorted list of the distinct elements: what Go gets when it
  collects the keys of a map and sorts them.
\<close>

definition distinct_sort :: "'a :: linorder list \<Rightarrow> 'a list" where
  "distinct_sort xs = sort (remdups xs)"

lemma set_distinct_sort [simp]: "set (distinct_sort xs) = set xs"
  by (simp add: distinct_sort_def)

lemma distinct_distinct_sort [simp]: "distinct (distinct_sort xs)"
  by (simp add: distinct_sort_def)

lemma sorted_distinct_sort [simp]: "sorted (distinct_sort xs)"
  by (simp add: distinct_sort_def)

lemma distinct_sort_cong: "set xs = set ys \<Longrightarrow> distinct_sort xs = distinct_sort ys"
  by (rule sorted_distinct_set_unique) auto

lemma sort_key_unique:
  assumes "distinct (map k xs)" and "distinct (map k ys)"
  shows "sort_key k xs = sort_key k ys \<longleftrightarrow> set xs = set ys"
proof
  assume "set xs = set ys"
  moreover have "distinct (map k (sort_key k zs))" if "distinct (map k zs)" for zs
    using that by (simp add: distinct_map)
  moreover have "inj_on k (set (sort_key k xs) \<union> set (sort_key k ys))"
    using assms \<open>set xs = set ys\<close> by (simp add: distinct_map)
  ultimately show "sort_key k xs = sort_key k ys"
    using assms by (intro map_sorted_distinct_set_unique [of k]) simp_all
qed (metis set_sort)

lemma strict_sort_key: "distinct (map k xs) \<Longrightarrow> sorted_wrt (<) (map k (sort_key k xs))"
  by (simp add: strict_sorted_iff distinct_map)

lemma sort_key_sorted_id: "sorted (map k xs) \<Longrightarrow> sort_key k xs = xs"
  by (rule sort_key_id_if_sorted)

text \<open>A Go map filled from a slice keeps the last binding of each key.\<close>

definition last_binding :: "('a \<Rightarrow> 'k) \<Rightarrow> 'a list \<Rightarrow> 'k \<Rightarrow> 'a option" where
  "last_binding key xs k = find (\<lambda>x. key x = k) (rev xs)"

lemma findSomeD: "find P xs = Some x \<Longrightarrow> P x \<and> x \<in> set xs"
  by (induction xs) (auto split: if_splits)

lemma last_binding_None: "last_binding key xs k = None \<longleftrightarrow> k \<notin> key ` set xs"
  by (auto simp: last_binding_def find_None_iff)

lemma last_binding_Some: "last_binding key xs k = Some x \<Longrightarrow> x \<in> set xs \<and> key x = k"
  using findSomeD [of "\<lambda>x. key x = k" "rev xs" x] by (simp add: last_binding_def)

lemma last_binding_distinct:
  assumes "distinct (map key xs)" and "x \<in> set xs"
  shows "last_binding key xs (key x) = Some x"
proof -
  obtain y where y: "last_binding key xs (key x) = Some y"
    using assms(2) last_binding_None [of key xs "key x"] by fastforce
  then have "y \<in> set xs" "key y = key x"
    by (auto dest: last_binding_Some)
  with assms have "y = x"
    by (auto simp: distinct_map inj_on_def)
  with y show ?thesis by simp
qed

definition index_where :: "('a \<Rightarrow> bool) \<Rightarrow> 'a list \<Rightarrow> nat option" where
  "index_where P xs = (let i = length (takeWhile (\<lambda>x. \<not> P x) xs) in
     if i < length xs then Some i else None)"

lemma index_where_None: "index_where P xs = None \<longleftrightarrow> (\<forall>x \<in> set xs. \<not> P x)"
proof -
  have "length (takeWhile (\<lambda>x. \<not> P x) xs) < length xs \<longleftrightarrow> (\<exists>x \<in> set xs. P x)"
    by (induction xs) auto
  then show ?thesis by (auto simp: index_where_def Let_def)
qed

lemma index_where_Some:
  "index_where P xs = Some i \<Longrightarrow> i < length xs \<and> P (xs ! i) \<and> (\<forall>j < i. \<not> P (xs ! j))"
  by (auto simp: index_where_def Let_def split: if_splits intro: nth_length_takeWhile)
    (metis nth_length_takeWhile, metis nth_mem set_takeWhileD takeWhile_nth)

lemma list_update_map_key:
  "i < length xs \<Longrightarrow> key y = key (xs ! i) \<Longrightarrow> map key (xs[i := y]) = map key xs"
  by (metis list_update_id map_update)

lemma set_list_update_iff:
  "i < length xs \<Longrightarrow> z \<in> set (xs[i := y]) \<longleftrightarrow> z = y \<or> (\<exists>j < length xs. j \<noteq> i \<and> z = xs ! j)"
  by (auto simp: in_set_conv_nth nth_list_update)

lemma list_update_as_map:
  assumes "distinct (map key xs)" and "k < length xs"
  shows "xs[k := f (xs ! k)] = map (\<lambda>x. if key x = key (xs ! k) then f x else x) xs"
proof (rule nth_equalityI)
  fix j assume "j < length (xs[k := f (xs ! k)])"
  then have j: "j < length xs" by simp
  show "xs[k := f (xs ! k)] ! j = map (\<lambda>x. if key x = key (xs ! k) then f x else x) xs ! j"
  proof (cases "j = k")
    case False
    then have "key (xs ! j) \<noteq> key (xs ! k)"
      using assms j by (metis length_map nth_eq_iff_index_eq nth_map)
    then show ?thesis using False j by (simp add: nth_list_update)
  qed (use assms in simp)
qed simp

subsection \<open>Lists looked up by a key\<close>

definition lookup_by :: "('a \<Rightarrow> 'k) \<Rightarrow> 'a list \<Rightarrow> 'k \<Rightarrow> 'a option" where
  "lookup_by key xs k = find (\<lambda>x. key x = k) xs"

lemma lookup_by_Some: "lookup_by key xs k = Some x \<Longrightarrow> x \<in> set xs \<and> key x = k"
  by (auto simp: lookup_by_def find_Some_iff)

lemma lookup_by_None: "lookup_by key xs k = None \<longleftrightarrow> k \<notin> key ` set xs"
  by (auto simp: lookup_by_def find_None_iff)

lemma lookup_by_append: "lookup_by key (xs @ ys) k = (case lookup_by key xs k of None \<Rightarrow> lookup_by key ys k | s \<Rightarrow> s)"
  unfolding lookup_by_def by (induction xs) auto

lemma lookup_by_single [simp]: "lookup_by key [] = (\<lambda>_. None)" "lookup_by key [x] k = (if key x = k then Some x else None)"
  by (auto simp: lookup_by_def)

lemma lookup_by_index: "index_where (\<lambda>x. key x = k) xs = Some i \<Longrightarrow> lookup_by key xs k = Some (xs ! i)"
  unfolding lookup_by_def using index_where_Some [of "\<lambda>x. key x = k" xs i] by (force simp: find_Some_iff)

lemma lookup_by_no_index: "index_where (\<lambda>x. key x = k) xs = None \<Longrightarrow> lookup_by key xs k = None"
  by (auto simp: index_where_None lookup_by_None)

lemma lookup_by_update:
  "index_where (\<lambda>x. key x = k) xs = Some i \<Longrightarrow> key y = k \<Longrightarrow>
     lookup_by key (xs[i := y]) k' = (if k' = k then Some y else lookup_by key xs k')"
  unfolding lookup_by_def index_where_def Let_def
  by (induction xs arbitrary: i) (auto split: if_splits nat.splits)

lemma lookup_by_delete:
  "index_where (\<lambda>x. key x = k) xs = Some i \<Longrightarrow> distinct (map key xs) \<Longrightarrow>
     lookup_by key (take i xs @ drop (Suc i) xs) k' = (if k' = k then None else lookup_by key xs k')"
  unfolding lookup_by_def index_where_def Let_def
  by (induction xs arbitrary: i) (auto split: if_splits nat.splits simp: find_None_iff image_iff)

lemma lookup_by_mem:
  "distinct (map key xs) \<Longrightarrow> lookup_by key xs k = Some x \<longleftrightarrow> x \<in> set xs \<and> key x = k"
  unfolding lookup_by_def by (induction xs) auto

lemma lookup_by_snoc:
  assumes "key x \<notin> key ` set xs"
  shows "lookup_by key (xs @ [x]) = (lookup_by key xs)(key x \<mapsto> x)"
proof
  fix k
  show "lookup_by key (xs @ [x]) k = ((lookup_by key xs)(key x \<mapsto> x)) k"
  proof (cases "k = key x")
    case True
    then have "lookup_by key xs k = None" using assms by (simp add: lookup_by_None)
    then show ?thesis using True by (simp add: lookup_by_append)
  next
    case False
    then show ?thesis by (cases "lookup_by key xs k") (simp_all add: lookup_by_append)
  qed
qed

subsection \<open>Polling loops\<close>

text \<open>
  A loop that looks at the world again and again until a look decides its result.  It may run
  forever, and then has no value; otherwise the first deciding look gives the result.
\<close>

partial_function (option) poll :: "(nat \<Rightarrow> 'r option) \<Rightarrow> nat \<Rightarrow> 'r option" where
  "poll look n = (case look n of Some r \<Rightarrow> Some r | None \<Rightarrow> poll look (Suc n))"

declare poll.simps [simp del]

lemma poll_result:
  assumes "poll look n = Some r"
  shows "\<exists>m. look (n + m) = Some r"
  using assms
proof (rule poll.raw_induct [where P = "\<lambda>look n r. \<exists>m. look (n + m) = Some r", rotated])
  fix f :: "(nat \<Rightarrow> 'a option) \<Rightarrow> nat \<Rightarrow> 'a option" and look n r
  assume rec: "\<And>look n r. f look n = Some r \<Longrightarrow> \<exists>m. look (n + m) = Some r"
    and body: "(case look n of None \<Rightarrow> f look (Suc n) | Some r \<Rightarrow> Some r) = Some r"
  show "\<exists>m. look (n + m) = Some r"
  proof (cases "look n")
    case None
    then have "f look (Suc n) = Some r" using body by simp
    from rec [OF this] obtain m where "look (Suc n + m) = Some r" by blast
    then show ?thesis by (intro exI [of _ "Suc m"]) simp
  next
    case (Some x)
    then show ?thesis using body by (intro exI [of _ 0]) simp
  qed
qed

lemma poll_skip: "\<forall>m < k. look (n + m) = None \<Longrightarrow> poll look n = poll look (n + k)"
proof (induction k arbitrary: n)
  case (Suc k)
  have "look n = None" using Suc.prems by force
  then have "poll look n = poll look (Suc n)" by (subst poll.simps) simp
  also have "\<dots> = poll look (Suc n + k)" using Suc.prems by (intro Suc.IH) auto
  finally show ?case by simp
qed simp

lemma poll_forever: "\<forall>m. look m = None \<Longrightarrow> poll look n = None"
  using poll_result [of look n] by (cases "poll look n") auto

lemma poll_first:
  "poll look 0 = (if \<forall>n. look n = None then None else look (LEAST n. look n \<noteq> None))"
proof (cases "\<forall>n. look n = None")
  case True
  then show ?thesis by (simp add: poll_forever)
next
  case False
  define k where "k = (LEAST n. look n \<noteq> None)"
  obtain m where m: "look m \<noteq> None" using False by blast
  have "look k \<noteq> None" unfolding k_def using m by (rule LeastI)
  then obtain r where r: "look k = Some r" by blast
  have "look (0 + j) = None" if "j < k" for j
    using not_less_Least [of j "\<lambda>n. look n \<noteq> None"] that unfolding k_def by simp
  then have "poll look 0 = poll look (0 + k)" by (intro poll_skip) simp
  also have "\<dots> = look k" by (subst poll.simps) (simp add: r)
  finally show ?thesis using False by (simp add: k_def)
qed

lemma poll_ends_iff: "poll look 0 \<noteq> None \<longleftrightarrow> (\<exists>n. look n \<noteq> None)"
proof (cases "\<forall>n. look n = None")
  case False
  then obtain m where "look m \<noteq> None" by blast
  then have "look (LEAST n. look n \<noteq> None) \<noteq> None" by (rule LeastI)
  then show ?thesis using False by (simp add: poll_first)
qed (simp add: poll_forever)

end
