(* ===== verification/Go_Path.thy ===== *)
theory Go_Path
  imports Go_Base
begin

text \<open>
  Go's \<open>path/filepath\<close> on a Unix host: \<open>Clean\<close>, \<open>Join\<close>, \<open>Rel\<close>, \<open>IsAbs\<close>, \<open>Abs\<close>, \<open>Dir\<close>,
  \<open>Base\<close>.  A path is parsed into a flag (does it start with a slash) and a list of segments;
  \<open>clean\<close> parses, cancels the \<open>..\<close> segments and prints.  \<open>canonical\<close> says which parsed paths
  are printed by \<open>clean\<close>; on them parsing and printing are inverse.
  The working directory, which \<open>Abs\<close> reads, is an argument (\<open>cwd\<close>).

  \<open>is_within\<close> is the containment test the repository repeats in several packages.  The locale
  \<open>boundary\<close> states what the packages rely on: on cleaned absolute paths it is a partial order
  whose up-sets are chains, so two roots that do not contain one another have nothing in common.
\<close>

abbreviation sep :: char where "sep \<equiv> CHR ''/''"
abbreviation dot :: string where "dot \<equiv> ''.''"
abbreviation dotdot :: string where "dotdot \<equiv> ''..''"

type_synonym ppath = "bool \<times> string list"

subsection \<open>Parsing and printing\<close>

definition is_abs :: "path \<Rightarrow> bool" where
  "is_abs p = prefix [sep] p"

definition segs :: "path \<Rightarrow> string list" where
  "segs p = filter (\<lambda>x. x \<noteq> [] \<and> x \<noteq> dot) (split_on sep p)"

definition norm_step :: "bool \<Rightarrow> string list \<Rightarrow> string \<Rightarrow> string list" where
  "norm_step r acc x =
     (if x = dotdot then
        (case acc of
           [] \<Rightarrow> (if r then [] else [dotdot])
         | t # ts \<Rightarrow> (if t = dotdot then dotdot # acc else ts))
      else x # acc)"

definition norm_segs :: "bool \<Rightarrow> string list \<Rightarrow> string list" where
  "norm_segs r xs = rev (foldl (norm_step r) [] xs)"

definition parse_path :: "path \<Rightarrow> ppath" where
  "parse_path p = (is_abs p, norm_segs (is_abs p) (segs p))"

definition render :: "ppath \<Rightarrow> path" where
  "render P = (if fst P then sep # join_with [sep] (snd P)
               else if snd P = [] then dot else join_with [sep] (snd P))"

definition clean :: "path \<Rightarrow> path" where
  "clean p = render (parse_path p)"

definition plain_seg :: "string \<Rightarrow> bool" where
  "plain_seg x = (x \<noteq> [] \<and> x \<noteq> dot \<and> sep \<notin> set x)"

definition canonical :: "ppath \<Rightarrow> bool" where
  "canonical P = ((\<forall>x \<in> set (snd P). plain_seg x) \<and>
     (if fst P then dotdot \<notin> set (snd P)
      else dotdot \<notin> set (dropWhile (\<lambda>x. x = dotdot) (snd P))))"

subsection \<open>Joining and relating paths\<close>

definition path_join :: "path \<Rightarrow> path \<Rightarrow> path" where
  "path_join a b =
     (if a = [] then (if b = [] then [] else clean b) else clean (a @ [sep] @ b))"

definition abs_path :: "path \<Rightarrow> path \<Rightarrow> path" where
  "abs_path cwd p = (if is_abs p then clean p else path_join cwd p)"

fun strip_common :: "string list \<Rightarrow> string list \<Rightarrow> string list \<times> string list" where
  "strip_common (x # xs) (y # ys) = (if x = y then strip_common xs ys else (x # xs, y # ys))"
| "strip_common xs ys = (xs, ys)"

definition rel_path :: "path \<Rightarrow> path \<Rightarrow> path option" where
  "rel_path base targ =
     (let (rb, bs) = parse_path base; (rt, ts) = parse_path targ in
      if rb = rt \<and> bs = ts then Some dot
      else if rb \<noteq> rt then None
      else (case strip_common bs ts of
              ([], ts') \<Rightarrow> Some (join_with [sep] ts')
            | (b # bs', ts') \<Rightarrow>
                (if b = dotdot then None
                 else Some (join_with [sep] (map (\<lambda>_. dotdot) (b # bs') @ ts')))))"

definition escapes :: "path \<Rightarrow> bool" where
  "escapes rel = (rel = dotdot \<or> prefix (dotdot @ [sep]) rel)"

definition is_within :: "path \<Rightarrow> path \<Rightarrow> bool" where
  "is_within root cand =
     (root = cand \<or> (case rel_path root cand of None \<Rightarrow> False | Some r \<Rightarrow> \<not> escapes r))"

definition path_dir :: "path \<Rightarrow> path" where
  "path_dir p = clean (rev (dropWhile (\<lambda>c. c \<noteq> sep) (rev p)))"

definition path_base :: "path \<Rightarrow> path" where
  "path_base p =
     (if p = [] then dot
      else (let q = rev (dropWhile (\<lambda>c. c = sep) (rev p)) in
            if q = [] then [sep] else rev (takeWhile (\<lambda>c. c \<noteq> sep) (rev q))))"

definition path_ext :: "path \<Rightarrow> path" where
  "path_ext p =
     (let b = takeWhile (\<lambda>c. c \<noteq> sep) (rev p) in
      if CHR ''.'' \<in> set b then rev (takeWhile (\<lambda>c. c \<noteq> CHR ''.'') b @ ''.'') else [])"

subsection \<open>Canonical paths\<close>

lemma segs_plain: "x \<in> set (segs p) \<Longrightarrow> plain_seg x"
  by (auto simp: segs_def plain_seg_def dest: split_on_no_sep)

definition rev_canonical :: "bool \<Rightarrow> string list \<Rightarrow> bool" where
  "rev_canonical r acc = ((\<forall>x \<in> set acc. plain_seg x) \<and>
     (if r then dotdot \<notin> set acc
      else (\<exists>n ys. acc = ys @ replicate n dotdot \<and> dotdot \<notin> set ys)))"

lemma norm_step_canonical:
  assumes "rev_canonical r acc" and "plain_seg x"
  shows "rev_canonical r (norm_step r acc x)"
proof (cases "x = dotdot")
  case False
  then show ?thesis
    using assms by (auto simp: norm_step_def rev_canonical_def intro: exI [of _ "_ # _"])
      (metis append_Cons insertE list.simps(15))
next
  case True
  show ?thesis
  proof (cases acc)
    case Nil
    with True assms show ?thesis
      by (auto simp: norm_step_def rev_canonical_def)
        (metis append_Nil empty_iff list.set(1) replicate_0 replicate_Suc)
  next
    case (Cons t ts)
    show ?thesis
    proof (cases r)
      case True
      with Cons \<open>x = dotdot\<close> assms show ?thesis
        by (auto simp: norm_step_def rev_canonical_def)
    next
      case False
      with assms Cons obtain n ys where acc: "t # ts = ys @ replicate n dotdot"
        and ys: "dotdot \<notin> set ys"
        by (auto simp: rev_canonical_def)
      show ?thesis
      proof (cases ys)
        case Nil
        with acc have "n \<noteq> 0" "t = dotdot" "acc = replicate n dotdot"
          using Cons by (cases n; auto)+
        then have "norm_step r acc x = replicate (Suc n) dotdot"
          using True False by (cases n) (simp_all add: norm_step_def)
        moreover have "plain_seg dotdot" using True assms by simp
        moreover have "rev_canonical False (replicate k dotdot)" if "plain_seg dotdot" for k
          unfolding rev_canonical_def using that by (auto intro: exI [of _ k] exI [of _ "[]"])
        ultimately show ?thesis using False by metis
      next
        case (Cons y ys')
        with acc ys have "t \<noteq> dotdot" "ts = ys' @ replicate n dotdot" by auto
        then show ?thesis
          using True False assms \<open>acc = t # ts\<close> ys Cons
          by (auto simp: norm_step_def rev_canonical_def)
      qed
    qed
  qed
qed

lemma norm_fold_canonical:
  "rev_canonical r acc \<Longrightarrow> \<forall>x \<in> set xs. plain_seg x \<Longrightarrow>
     rev_canonical r (foldl (norm_step r) acc xs)"
  by (induction xs arbitrary: acc) (auto simp: norm_step_canonical)

lemma rev_canonical_Nil [simp]: "rev_canonical r []"
  by (auto simp: rev_canonical_def)

lemma dropWhile_replicate_append:
  "dotdot \<notin> set ys \<Longrightarrow> dropWhile (\<lambda>x. x = dotdot) (replicate n dotdot @ ys) = ys"
  by (induction n) (auto simp: dropWhile_eq_self_iff dest: hd_in_set)

lemma canonical_rev:
  assumes "rev_canonical r acc"
  shows "canonical (r, rev acc)"
proof (cases r)
  case False
  with assms obtain n ys where "acc = ys @ replicate n dotdot" "dotdot \<notin> set ys"
    by (auto simp: rev_canonical_def)
  with False assms show ?thesis
    by (auto simp: canonical_def rev_canonical_def dropWhile_replicate_append)
qed (use assms in \<open>simp add: canonical_def rev_canonical_def\<close>)

lemma canonical_parse [simp]: "canonical (parse_path p)"
  unfolding parse_path_def norm_segs_def
  by (rule canonical_rev, rule norm_fold_canonical) (auto simp: segs_plain)

subsection \<open>Parsing what was printed\<close>

lemma segs_join: "\<forall>x \<in> set xs. plain_seg x \<Longrightarrow> segs (join_with [sep] xs) = xs"
proof (cases "xs = []")
  case False
  assume plain: "\<forall>x \<in> set xs. plain_seg x"
  then have "split_on sep (join_with [sep] xs) = xs"
    using False by (intro split_join) (auto simp: plain_seg_def)
  with plain show ?thesis
    by (auto simp: segs_def plain_seg_def intro!: filter_True)
qed (simp add: segs_def)

lemma segs_sep_Cons [simp]: "segs (sep # p) = segs p"
  by (simp add: segs_def)

lemma segs_append_sep: "segs (p @ sep # q) = segs p @ segs q"
proof -
  have "split_on sep (p @ sep # q) = split_on sep p @ split_on sep q"
    by (induction p) (auto split: list.splits)
  then show ?thesis by (simp add: segs_def)
qed

lemma norm_fold_id:
  "dotdot \<notin> set xs \<Longrightarrow> foldl (norm_step r) acc xs = rev xs @ acc"
  by (induction xs arbitrary: acc) (auto simp: norm_step_def)

lemma norm_fold_dotdots:
  "foldl (norm_step False) (replicate m dotdot) (replicate n dotdot) = replicate (m + n) dotdot"
proof (induction n arbitrary: m)
  case (Suc n)
  have "norm_step False (replicate m dotdot) dotdot = replicate (Suc m) dotdot"
    by (cases m) (auto simp: norm_step_def)
  then show ?case using Suc [of "Suc m"] by simp
qed simp

lemma norm_segs_canonical:
  assumes "canonical (r, xs)"
  shows "norm_segs r xs = xs"
proof (cases r)
  case True
  with assms show ?thesis by (simp add: norm_segs_def canonical_def norm_fold_id)
next
  case False
  define n where "n = length (takeWhile (\<lambda>x. x = dotdot) xs)"
  define ys where "ys = dropWhile (\<lambda>x. x = dotdot) xs"
  have "takeWhile (\<lambda>x. x = dotdot) xs = replicate n dotdot"
    unfolding n_def by (rule replicate_length_same [symmetric]) (auto dest: set_takeWhileD)
  then have xs: "xs = replicate n dotdot @ ys"
    by (metis takeWhile_dropWhile_id ys_def)
  have "dotdot \<notin> set ys"
    using assms False by (simp add: canonical_def ys_def)
  moreover have "foldl (norm_step False) [] (replicate n dotdot) = replicate n dotdot"
    using norm_fold_dotdots [of 0 n] by simp
  ultimately show ?thesis using False
    by (simp add: norm_segs_def xs norm_fold_id)
qed

lemma is_abs_Cons [simp]: "is_abs (sep # p)"
  by (simp add: is_abs_def)

lemma not_abs_join:
  assumes "\<forall>x \<in> set xs. plain_seg x"
  shows "\<not> is_abs (join_with [sep] xs)"
proof (cases xs)
  case (Cons x ys)
  with assms obtain c cs where "x = c # cs" "c \<noteq> sep"
    by (cases x) (auto simp: plain_seg_def)
  with Cons show ?thesis by (cases ys) (auto simp: is_abs_def)
qed (simp add: is_abs_def)

lemma parse_render:
  assumes "canonical P"
  shows "parse_path (render P) = P"
proof -
  obtain r xs where P: "P = (r, xs)" by (cases P)
  have plain: "\<forall>x \<in> set xs. plain_seg x" and norm: "norm_segs r xs = xs"
    using assms norm_segs_canonical by (auto simp: P canonical_def)
  consider "r" | "\<not> r" "xs = []" | "\<not> r" "xs \<noteq> []" by blast
  then show ?thesis
  proof cases
    case 1
    then show ?thesis using norm by (simp add: P render_def parse_path_def segs_join [OF plain])
  next
    case 2
    then show ?thesis
      by (simp add: P render_def parse_path_def is_abs_def segs_def norm_segs_def)
  next
    case 3
    then show ?thesis using norm plain
      by (simp add: P render_def parse_path_def segs_join [OF plain] not_abs_join)
  qed
qed

lemma parse_clean [simp]: "parse_path (clean p) = parse_path p"
  by (simp add: clean_def parse_render)

lemma clean_clean [simp]: "clean (clean p) = clean p"
  by (simp add: clean_def parse_render)

lemma clean_eq_iff: "clean p = clean q \<longleftrightarrow> parse_path p = parse_path q"
  by (metis clean_def parse_clean)

lemma is_abs_clean [simp]: "is_abs (clean p) = is_abs p"
  using parse_clean [of p] by (metis fst_conv parse_path_def)

text \<open>The segments of an absolute path after cleaning.\<close>

definition csegs :: "path \<Rightarrow> string list" where
  "csegs p = snd (parse_path p)"

lemma parse_csegs: "parse_path p = (is_abs p, csegs p)"
  by (simp add: csegs_def parse_path_def)

lemma csegs_clean [simp]: "csegs (clean p) = csegs p"
  by (simp add: csegs_def)

lemma csegs_plain: "x \<in> set (csegs p) \<Longrightarrow> plain_seg x"
  using canonical_parse [of p] by (auto simp: canonical_def csegs_def)

lemma csegs_no_dotdot: "is_abs p \<Longrightarrow> dotdot \<notin> set (csegs p)"
  using canonical_parse [of p] by (simp add: canonical_def parse_csegs)

lemma clean_abs: "is_abs p \<Longrightarrow> clean p = sep # join_with [sep] (csegs p)"
  by (simp add: clean_def render_def parse_csegs)

lemma clean_root_iff: "is_abs p \<Longrightarrow> clean p = [sep] \<longleftrightarrow> csegs p = []"
  using join_with_eq_Nil [of "csegs p" "[sep]"] csegs_plain [of _ p]
  by (auto simp: clean_abs plain_seg_def)

subsection \<open>Containment\<close>

lemma strip_common_prefix: "fst (strip_common bs ts) = [] \<longleftrightarrow> prefix bs ts"
  by (induction bs ts rule: strip_common.induct) auto

lemma strip_common_snd: "suffix (snd (strip_common bs ts)) ts"
  by (induction bs ts rule: strip_common.induct) (auto intro: suffix_ConsI)

lemma escapes_join_dotdot: "escapes (join_with [sep] (dotdot # xs))"
  by (cases xs) (auto simp: escapes_def)

lemma not_escapes_join:
  assumes "\<forall>x \<in> set xs. plain_seg x" and "dotdot \<notin> set xs"
  shows "\<not> escapes (join_with [sep] xs)"
proof (cases xs)
  case (Cons x ys)
  have no: "x \<noteq> dotdot" "sep \<notin> set x" using assms Cons by (auto simp: plain_seg_def)
  have "\<not> prefix (dotdot @ [sep]) (x @ [sep] @ z)" for z
  proof
    assume "prefix (dotdot @ [sep]) (x @ [sep] @ z)"
    then obtain w where "dotdot @ sep # w = x @ sep # z" by (auto simp: prefix_def)
    then have "split_on sep (dotdot @ sep # w) = split_on sep (x @ sep # z)" by simp
    then have "dotdot # split_on sep w = x # split_on sep z"
      using no by (subst (asm) (1 2) split_on_append_sep) auto
    with no show False by simp
  qed
  moreover have "x @ [sep] @ z \<noteq> dotdot" for z
  proof
    assume "x @ [sep] @ z = dotdot"
    then have "sep \<in> set dotdot" by (metis in_set_conv_decomp append_Cons append_Nil)
    then show False by simp
  qed
  moreover have "\<not> prefix (dotdot @ [sep]) x"
    using no by (auto simp: prefix_def)
  ultimately show ?thesis
    using no Cons by (cases ys) (auto simp: escapes_def)
qed (simp add: escapes_def)

lemma rel_path_prefix:
  "is_abs r \<Longrightarrow> is_abs p \<Longrightarrow> prefix (csegs r) (csegs p) \<Longrightarrow>
     rel_path r p = Some (if csegs r = csegs p then dot
                          else join_with [sep] (drop (length (csegs r)) (csegs p)))"
proof -
  assume r: "is_abs r" and p: "is_abs p" and pre: "prefix (csegs r) (csegs p)"
  have strip: "strip_common xs ys = ([], drop (length xs) ys)" if "prefix xs ys" for xs ys
    using that by (induction xs ys rule: strip_common.induct) auto
  show ?thesis
    using r p strip [OF pre] by (simp add: rel_path_def parse_csegs)
qed

lemma is_within_prefix:
  assumes "is_abs r" and "is_abs p"
  shows "is_within r p \<longleftrightarrow> prefix (csegs r) (csegs p)"
proof (cases "prefix (csegs r) (csegs p)")
  case True
  have "\<not> escapes (join_with [sep] (drop (length (csegs r)) (csegs p)))"
    using assms csegs_plain [of _ p] csegs_no_dotdot [of p]
    by (intro not_escapes_join) (auto dest: in_set_dropD)
  moreover have "\<not> escapes dot" by (simp add: escapes_def)
  ultimately show ?thesis
    using True rel_path_prefix [OF assms True] by (simp add: is_within_def)
next
  case False
  then obtain b bs' ts' where st: "strip_common (csegs r) (csegs p) = (b # bs', ts')"
    using strip_common_prefix by (metis fst_conv list.exhaust surj_pair)
  have "r \<noteq> p" "csegs r \<noteq> csegs p" using False by auto
  with st assms have "rel_path r p =
      (if b = dotdot then None
       else Some (join_with [sep] (dotdot # map (\<lambda>_. dotdot) bs' @ ts')))"
    by (simp add: rel_path_def parse_csegs)
  with False \<open>r \<noteq> p\<close> show ?thesis
    by (auto simp: is_within_def escapes_join_dotdot)
qed

lemma is_within_clean [simp]:
  "is_abs r \<Longrightarrow> is_abs p \<Longrightarrow> is_within (clean r) (clean p) = is_within r p"
  by (simp add: is_within_prefix)

lemma path_join_abs: "is_abs a \<Longrightarrow> is_abs (path_join a b)"
proof -
  assume "is_abs a"
  then have "a \<noteq> []" "is_abs (a @ [sep] @ b)" by (auto simp: is_abs_def prefix_def)
  then show ?thesis by (simp add: path_join_def)
qed

lemma csegs_join_plain:
  assumes "is_abs a" and "dotdot \<notin> set (segs b)"
  shows "csegs (path_join a b) = csegs a @ segs b"
proof -
  have "a \<noteq> []" "is_abs (a @ sep # b)" using assms(1) by (auto simp: is_abs_def prefix_def)
  moreover have "csegs (a @ sep # b) = csegs a @ segs b"
    using assms \<open>is_abs (a @ sep # b)\<close>
    by (simp add: csegs_def parse_path_def segs_append_sep norm_segs_def norm_fold_id)
  ultimately show ?thesis by (simp add: path_join_def)
qed

subsection \<open>The containment contract\<close>

locale boundary =
  fixes inside :: "path \<Rightarrow> path \<Rightarrow> bool"
    and legal :: "path \<Rightarrow> bool"
  assumes inside_refl: "legal r \<Longrightarrow> inside r r"
    and inside_trans: "legal r \<Longrightarrow> legal s \<Longrightarrow> legal p \<Longrightarrow> inside r s \<Longrightarrow> inside s p \<Longrightarrow> inside r p"
    and inside_chain: "legal r \<Longrightarrow> legal s \<Longrightarrow> legal p \<Longrightarrow> inside r p \<Longrightarrow> inside s p \<Longrightarrow>
           inside r s \<or> inside s r"
begin

lemma disjoint_roots:
  assumes "legal r" "legal s" "legal p" "\<not> inside r s" "\<not> inside s r" "inside r p"
  shows "\<not> inside s p"
  using assms inside_chain by blast

lemma disjoint_below:
  assumes "legal r" "legal s" "legal r'" "legal s'" "\<not> inside r s" "\<not> inside s r"
    and "inside r r'" "inside s s'"
  shows "\<not> inside r' s' \<and> \<not> inside s' r'"
  using assms disjoint_roots inside_trans by metis

end

interpretation fs: boundary is_within is_abs
proof
  show "is_within r r" for r
    by (simp add: is_within_def)
next
  show "is_within r p" if "is_abs r" "is_abs s" "is_abs p" "is_within r s" "is_within s p" for r s p
    using that by (auto simp: is_within_prefix)
next
  show "is_within r s \<or> is_within s r"
    if "is_abs r" "is_abs s" "is_abs p" "is_within r p" "is_within s p" for r s p
    using that by (auto simp: is_within_prefix prefix_same_cases)
qed

end
