(* ===== verification/Fs_Model.thy ===== *)
theory Fs_Model
  imports Go_Path "HOL-Library.Word"
begin

unbundle bit_operations_syntax

text \<open>
  The file system the source works on through package \<open>os\<close>: a finite map from absolute segment
  lists to nodes, the root directory implicit.  \<open>resolve\<close> is path resolution: it follows
  symbolic links component by component and gives up after forty links, as Linux does.  \<open>Stat\<close>,
  \<open>Lstat\<close>, \<open>MkdirAll\<close>, \<open>RemoveAll\<close> and the temporary-file-and-rename idiom are modelled by
  their net effect; permission and device errors are arguments of the operations that use them.
\<close>

type_synonym segpath = "string list"
type_synonym fmode = "32 word"

datatype node = NDir fmode | NFile fmode string | NLink fmode string | NOther fmode

type_synonym fs = "(segpath \<times> node) list"

subsection \<open>Lookup and update\<close>

definition fs_get :: "fs \<Rightarrow> segpath \<Rightarrow> node option" where
  "fs_get f p = map_of f p"

definition fs_put :: "segpath \<Rightarrow> node \<Rightarrow> fs \<Rightarrow> fs" where
  "fs_put p n f = (p, n) # filter (\<lambda>kv. fst kv \<noteq> p) f"

definition fs_remove :: "segpath \<Rightarrow> fs \<Rightarrow> fs" where
  "fs_remove p f = filter (\<lambda>kv. \<not> prefix p (fst kv)) f"

lemma map_of_filter_keys: "map_of (filter (\<lambda>kv. P (fst kv)) f) k = (if P k then map_of f k else None)"
  by (induction f) auto

lemma fs_get_put [simp]: "fs_get (fs_put p n f) q = (if q = p then Some n else fs_get f q)"
  using map_of_filter_keys [of "\<lambda>k. k \<noteq> p" f q] by (simp add: fs_get_def fs_put_def)

lemma fs_get_remove [simp]: "fs_get (fs_remove p f) q = (if prefix p q then None else fs_get f q)"
  using map_of_filter_keys [of "\<lambda>k. \<not> prefix p k" f q] by (simp add: fs_get_def fs_remove_def)

lemma fs_get_Some_in: "fs_get f p = Some n \<Longrightarrow> (p, n) \<in> set f"
  by (simp add: fs_get_def map_of_SomeD)

definition seg_ok :: "string \<Rightarrow> bool" where
  "seg_ok x = (plain_seg x \<and> x \<noteq> dotdot)"

definition wf_fs :: "fs \<Rightarrow> bool" where
  "wf_fs f = (distinct (map fst f) \<and> [] \<notin> fst ` set f \<and>
     (\<forall>(p, n) \<in> set f. (\<forall>x \<in> set p. seg_ok x) \<and>
        (butlast p = [] \<or> (\<exists>m. fs_get f (butlast p) = Some (NDir m)))))"

definition no_links :: "fs \<Rightarrow> bool" where
  "no_links f = (\<forall>(p, n) \<in> set f. \<forall>m t. n \<noteq> NLink m t)"

lemma distinct_put [simp]: "distinct (map fst f) \<Longrightarrow> distinct (map fst (fs_put p n f))"
  by (auto simp: fs_put_def distinct_map inj_on_def)

lemma distinct_remove [simp]: "distinct (map fst f) \<Longrightarrow> distinct (map fst (fs_remove p f))"
  by (auto simp: fs_remove_def distinct_map inj_on_def)

lemma no_links_put [simp]: "no_links f \<Longrightarrow> (\<forall>m t. n \<noteq> NLink m t) \<Longrightarrow> no_links (fs_put p n f)"
  by (auto simp: no_links_def fs_put_def)

lemma no_links_remove [simp]: "no_links f \<Longrightarrow> no_links (fs_remove p f)"
  by (auto simp: no_links_def fs_remove_def)

lemma no_links_get: "no_links f \<Longrightarrow> fs_get f p \<noteq> Some (NLink m t)"
  by (auto simp: no_links_def dest!: fs_get_Some_in)

text \<open>No symbolic link on the way to a place, the place itself included.\<close>

definition plain_way :: "fs \<Rightarrow> segpath \<Rightarrow> bool" where
  "plain_way f p = (\<forall>q m t. prefix q p \<longrightarrow> fs_get f q \<noteq> Some (NLink m t))"

text \<open>An operation that makes no link leaves plain ways plain.\<close>

definition no_new_links :: "fs \<Rightarrow> fs \<Rightarrow> bool" where
  "no_new_links f f' = (\<forall>q m t. fs_get f' q = Some (NLink m t) \<longrightarrow> fs_get f q = Some (NLink m t))"

definition way_check :: "fs \<Rightarrow> segpath \<Rightarrow> bool" where
  "way_check f p = list_all (\<lambda>q. case fs_get f q of Some (NLink _ _) \<Rightarrow> False | _ \<Rightarrow> True) (prefixes p)"

lemma plain_way_check [code]: "plain_way f p = way_check f p"
  by (auto simp: plain_way_def way_check_def list_all_iff split: option.split node.split)

lemma plain_way_no_links [simp]: "no_links f \<Longrightarrow> plain_way f p"
  by (auto simp: plain_way_def no_links_get)

lemma plain_way_prefix: "plain_way f p \<Longrightarrow> prefix q p \<Longrightarrow> plain_way f q"
  by (auto simp: plain_way_def dest: prefix_order.trans)

lemma plain_way_butlast: "plain_way f p \<Longrightarrow> plain_way f (butlast p)"
  by (erule plain_way_prefix) (rule prefixeq_butlast)

lemma plain_way_new: "no_new_links f f' \<Longrightarrow> plain_way f p \<Longrightarrow> plain_way f' p"
  by (auto simp: plain_way_def no_new_links_def)

lemma no_new_links_refl [simp]: "no_new_links f f"
  by (simp add: no_new_links_def)

lemma no_new_links_trans: "no_new_links f g \<Longrightarrow> no_new_links g h \<Longrightarrow> no_new_links f h"
  by (simp add: no_new_links_def)

lemma no_new_links_put: "no_new_links f g \<Longrightarrow> (\<forall>m t. n \<noteq> NLink m t) \<Longrightarrow> no_new_links f (fs_put p n g)"
  by (simp add: no_new_links_def)

lemma no_new_links_remove: "no_new_links f g \<Longrightarrow> no_new_links f (fs_remove p g)"
  by (simp add: no_new_links_def)

subsection \<open>Path resolution\<close>

function resolve :: "nat \<Rightarrow> fs \<Rightarrow> segpath \<Rightarrow> segpath \<Rightarrow> segpath option" where
  "resolve n f here [] = Some here"
| "resolve n f here (x # xs) =
     (if x = dotdot then resolve n f (butlast here) xs
      else (case fs_get f (here @ [x]) of
              Some (NLink _ target) \<Rightarrow>
                (case n of 0 \<Rightarrow> None
                 | Suc n' \<Rightarrow> resolve n' f (if is_abs target then [] else here) (segs target @ xs))
            | _ \<Rightarrow> resolve n f (here @ [x]) xs))"
  by pat_completeness auto
termination
  by (relation "measures [\<lambda>(n, f, here, xs). n, \<lambda>(n, f, here, xs). length xs]") auto

definition max_links :: nat where "max_links = 40"

definition phys :: "fs \<Rightarrow> segpath \<Rightarrow> segpath option" where
  "phys f p = resolve max_links f [] p"

text \<open>The place a path names when its last component is not followed (\<open>Lstat\<close>, \<open>rename\<close>, \<open>unlink\<close>).\<close>

definition phys_last :: "fs \<Rightarrow> segpath \<Rightarrow> segpath option" where
  "phys_last f p = (if p = [] then Some []
     else map_option (\<lambda>d. d @ [last p]) (phys f (butlast p)))"

lemma resolve_plain_way:
  "plain_way f (here @ xs) \<Longrightarrow> dotdot \<notin> set xs \<Longrightarrow> resolve n f here xs = Some (here @ xs)"
proof (induction xs arbitrary: here)
  case (Cons x xs)
  have "prefix (here @ [x]) (here @ x # xs)" by (simp add: prefix_def)
  then have "fs_get f (here @ [x]) \<noteq> Some (NLink m t)" for m t
    using Cons.prems(1) unfolding plain_way_def by blast
  then show ?case
    using Cons.prems Cons.IH [of "here @ [x]"] by (auto split: option.split node.split)
qed simp

lemma phys_plain_way: "plain_way f p \<Longrightarrow> dotdot \<notin> set p \<Longrightarrow> phys f p = Some p"
  by (simp add: phys_def resolve_plain_way)

lemma phys_last_plain_way:
  assumes "plain_way f (butlast p)" and "dotdot \<notin> set p"
  shows "phys_last f p = Some p"
proof -
  have "phys f (butlast p) = Some (butlast p)"
    using assms by (intro phys_plain_way) (auto dest: in_set_butlastD)
  then show ?thesis by (simp add: phys_last_def)
qed

lemma phys_no_links: "no_links f \<Longrightarrow> dotdot \<notin> set p \<Longrightarrow> phys f p = Some p"
  by (simp add: phys_plain_way)

lemma phys_last_no_links: "no_links f \<Longrightarrow> dotdot \<notin> set p \<Longrightarrow> phys_last f p = Some p"
  by (simp add: phys_last_plain_way)

subsection \<open>The calls of package os\<close>

text \<open>The root directory has mode 493, which is octal 755.\<close>

definition stat_node :: "fs \<Rightarrow> segpath \<Rightarrow> node option" where
  "stat_node f p =
     (case phys f p of None \<Rightarrow> None
      | Some q \<Rightarrow> if q = [] then Some (NDir 493) else fs_get f q)"

definition lstat_node :: "fs \<Rightarrow> segpath \<Rightarrow> node option" where
  "lstat_node f p =
     (case phys_last f p of None \<Rightarrow> None
      | Some q \<Rightarrow> if q = [] then Some (NDir 493) else fs_get f q)"

fun is_dir :: "node \<Rightarrow> bool" where
  "is_dir (NDir _) = True"
| "is_dir _ = False"

definition stat_dir :: "fs \<Rightarrow> segpath \<Rightarrow> bool" where
  "stat_dir f p = (case stat_node f p of Some n \<Rightarrow> is_dir n | None \<Rightarrow> False)"

text \<open>\<open>os.MkdirAll\<close>: every missing directory on the way is made with the mode less the umask.\<close>

fun mkdir_from :: "fmode \<Rightarrow> fs \<Rightarrow> segpath \<Rightarrow> segpath \<Rightarrow> fs option" where
  "mkdir_from m f here [] = Some f"
| "mkdir_from m f here (x # xs) =
     (case stat_node f (here @ [x]) of
        Some n \<Rightarrow> if is_dir n then mkdir_from m f (here @ [x]) xs else None
      | None \<Rightarrow>
          (case phys_last f (here @ [x]) of None \<Rightarrow> None
           | Some q \<Rightarrow> if fs_get f q \<noteq> None then None
                       else mkdir_from m (fs_put q (NDir m) f) (here @ [x]) xs))"

definition MkdirAll :: "fmode \<Rightarrow> fmode \<Rightarrow> fs \<Rightarrow> segpath \<Rightarrow> fs option" where
  "MkdirAll umask m f p = mkdir_from (m AND NOT umask) f [] p"

definition RemoveAll :: "fs \<Rightarrow> segpath \<Rightarrow> fs" where
  "RemoveAll f p = (case phys_last f p of None \<Rightarrow> f | Some q \<Rightarrow> fs_remove q f)"

text \<open>Write a temporary file beside the target and rename it onto the target.\<close>

definition replace_file :: "fs \<Rightarrow> segpath \<Rightarrow> fmode \<Rightarrow> string \<Rightarrow> fs option" where
  "replace_file f p m content =
     (case phys_last f p of None \<Rightarrow> None
      | Some q \<Rightarrow>
          (case fs_get f q of
             Some (NDir _) \<Rightarrow> None
           | _ \<Rightarrow> if stat_dir f (butlast p) then Some (fs_put q (NFile m content) f) else None))"

subsection \<open>Lemmas\<close>

lemma stat_node_plain_way:
  "plain_way f p \<Longrightarrow> dotdot \<notin> set p \<Longrightarrow> p \<noteq> [] \<Longrightarrow> stat_node f p = fs_get f p"
  by (simp add: stat_node_def phys_plain_way)

lemma stat_node_no_links:
  "no_links f \<Longrightarrow> dotdot \<notin> set p \<Longrightarrow> p \<noteq> [] \<Longrightarrow> stat_node f p = fs_get f p"
  by (simp add: stat_node_plain_way)

text \<open>
  What making directories may do: keep every node and add directories on the way to \<open>p\<close>.
\<close>

definition grown :: "fmode \<Rightarrow> fs \<Rightarrow> fs \<Rightarrow> segpath \<Rightarrow> bool" where
  "grown m f f' p = ((\<forall>q n. fs_get f q = Some n \<longrightarrow> fs_get f' q = Some n) \<and>
     (\<forall>q n. fs_get f q = None \<longrightarrow> fs_get f' q = Some n \<longrightarrow> n = NDir m \<and> prefix q p \<and> q \<noteq> []))"

lemma grown_no_new_links: "grown m f f' p \<Longrightarrow> no_new_links f f'"
  unfolding grown_def no_new_links_def by (metis node.distinct(3) not_Some_eq)

lemma mkdir_from_no_links:
  "no_links f \<Longrightarrow> mkdir_from m f here xs = Some f' \<Longrightarrow> no_links f'"
  by (induction m f here xs rule: mkdir_from.induct) (auto split: option.splits if_splits)

lemma MkdirAll_no_links: "no_links f \<Longrightarrow> MkdirAll u m f p = Some f' \<Longrightarrow> no_links f'"
  by (auto simp: MkdirAll_def dest: mkdir_from_no_links)

lemma mkdir_from_grown:
  assumes "plain_way f (here @ xs)" and "dotdot \<notin> set (here @ xs)" and "mkdir_from m f here xs = Some f'"
  shows "grown m f f' (here @ xs)"
  using assms
proof (induction m f here xs rule: mkdir_from.induct)
  case (2 m f here x xs)
  have pw: "plain_way f (here @ [x])" using "2.prems"(1) by (rule plain_way_prefix) (simp add: prefix_def)
  have st: "stat_node f (here @ [x]) = fs_get f (here @ [x])"
    using "2.prems" pw by (intro stat_node_plain_way) auto
  have pl: "phys_last f (here @ [x]) = Some (here @ [x])"
    using "2.prems" plain_way_butlast [OF pw] by (intro phys_last_plain_way) auto
  have dd: "dotdot \<notin> set ((here @ [x]) @ xs)" using "2.prems"(2) by simp
  have way: "plain_way f ((here @ [x]) @ xs)" using "2.prems"(1) by simp
  show ?case
  proof (cases "fs_get f (here @ [x])")
    case None
    let ?f = "fs_put (here @ [x]) (NDir m) f"
    from "2.prems" pl st None have r: "mkdir_from m ?f (here @ [x]) xs = Some f'"
      by simp
    have nl: "plain_way ?f ((here @ [x]) @ xs)" using way by (rule plain_way_new [rotated]) (simp add: no_new_links_put)
    have g: "grown m ?f f' ((here @ [x]) @ xs)"
      using "2.IH"(1) [OF _ pl _ nl dd r] st None by simp
    have new: "fs_get f' (here @ [x]) = Some (NDir m)" using g by (simp add: grown_def)
    show ?thesis
      unfolding grown_def
    proof (intro conjI allI impI)
      fix q n assume "fs_get f q = Some n"
      then show "fs_get f' q = Some n" using g None by (cases "q = here @ [x]") (auto simp: grown_def)
    next
      fix q n assume q: "fs_get f q = None" "fs_get f' q = Some n"
      have "n = NDir m \<and> prefix q (here @ x # xs) \<and> q \<noteq> []"
      proof (cases "q = here @ [x]")
        case True
        with q new show ?thesis by simp
      next
        case False
        then have "fs_get ?f q = None" using q by simp
        with g q(2) show ?thesis unfolding grown_def by simp
      qed
      then show "n = NDir m" "prefix q (here @ x # xs)" "q \<noteq> []" by simp_all
    qed
  next
    case (Some n)
    with "2.prems" st have d: "is_dir n" and r: "mkdir_from m f (here @ [x]) xs = Some f'"
      by (auto split: if_splits)
    show ?thesis using "2.IH"(2) [OF _ d way dd r] st Some by simp
  qed
qed (simp add: grown_def)

lemma MkdirAll_grown:
  "plain_way f p \<Longrightarrow> dotdot \<notin> set p \<Longrightarrow> MkdirAll u m f p = Some f' \<Longrightarrow> grown (m AND NOT u) f f' p"
  using mkdir_from_grown [of f "[]" p "m AND NOT u" f'] by (simp add: MkdirAll_def)

lemma mkdir_from_dir:
  assumes "plain_way f (here @ xs)" and "dotdot \<notin> set (here @ xs)" and "mkdir_from m f here xs = Some f'"
    and "xs \<noteq> []"
  shows "\<exists>k. fs_get f' (here @ xs) = Some (NDir k)"
  using assms
proof (induction m f here xs rule: mkdir_from.induct)
  case (2 m f here x xs)
  have pw: "plain_way f (here @ [x])" using "2.prems"(1) by (rule plain_way_prefix) (simp add: prefix_def)
  have st: "stat_node f (here @ [x]) = fs_get f (here @ [x])"
    using "2.prems" pw by (intro stat_node_plain_way) auto
  have pl: "phys_last f (here @ [x]) = Some (here @ [x])"
    using "2.prems" plain_way_butlast [OF pw] by (intro phys_last_plain_way) auto
  have dd: "dotdot \<notin> set ((here @ [x]) @ xs)" using "2.prems"(2) by simp
  have way: "plain_way f ((here @ [x]) @ xs)" using "2.prems"(1) by simp
  show ?case
  proof (cases "fs_get f (here @ [x])")
    case None
    with "2.prems" pl st have r: "mkdir_from m (fs_put (here @ [x]) (NDir m) f) (here @ [x]) xs = Some f'"
      by simp
    have nl: "plain_way (fs_put (here @ [x]) (NDir m) f) ((here @ [x]) @ xs)"
      using way by (rule plain_way_new [rotated]) (simp add: no_new_links_put)
    show ?thesis
      using "2.IH"(1) [OF _ pl _ nl dd r] st None r by (cases "xs = []") auto
  next
    case (Some n)
    with "2.prems" st have d: "is_dir n" and r: "mkdir_from m f (here @ [x]) xs = Some f'"
      by (auto split: if_splits)
    show ?thesis
      using "2.IH"(2) [OF _ d way dd r] st Some r d
      by (cases "xs = []"; cases n) auto
  qed
qed simp

end
