(* ===== verification/Manifest_Model.thy ===== *)
theory Manifest_Model
  imports Fs_Model
begin

text \<open>
  \<open>internal/manifest\<close>: the description of a directory tree that rollback and commit are checked
  against.  \<open>Build\<close> walks the tree below a root and sorts the entries by path, \<open>Verify\<close> builds
  again and compares.  The hash function is an argument (\<open>sha\<close>), as is the set of places that
  cannot be read.  The walk does not descend into symbolic links, and not into the root if the
  root is one.
\<close>

record Entry =
  e_path :: string
  e_type :: string
  e_mode :: fmode
  e_size :: int
  e_sha :: string
  e_link :: string

record Manifest =
  m_version :: int
  m_entries :: "Entry list"

datatype manifest_error =
    RootMissing path
  | RootNotDirectory path
  | WalkFailed path
  | VersionMismatch int int
  | CountMismatch nat nat
  | EntryMismatch Entry Entry

subsection \<open>Operations\<close>

definition hashFile :: "(string \<Rightarrow> string) \<Rightarrow> string \<Rightarrow> string" where
  "hashFile sha content = hex_encode (sha content)"

text \<open>The permission bits of a mode, \<open>info.Mode().Perm()\<close>: octal 777.\<close>

definition mode_perm :: "fmode \<Rightarrow> fmode" where
  "mode_perm m = m AND 511"

definition entry_of :: "(string \<Rightarrow> string) \<Rightarrow> segpath \<Rightarrow> node \<Rightarrow> Entry" where
  "entry_of sha rel n =
     (case n of
        NDir m \<Rightarrow> \<lparr>e_path = join_with [sep] rel, e_type = ''directory'', e_mode = mode_perm m,
                   e_size = 0, e_sha = [], e_link = []\<rparr>
      | NFile m c \<Rightarrow> \<lparr>e_path = join_with [sep] rel, e_type = ''file'', e_mode = mode_perm m,
                   e_size = int (length c), e_sha = hashFile sha c, e_link = []\<rparr>
      | NLink m t \<Rightarrow> \<lparr>e_path = join_with [sep] rel, e_type = ''symlink'', e_mode = mode_perm m,
                   e_size = 0, e_sha = [], e_link = t\<rparr>
      | NOther m \<Rightarrow> \<lparr>e_path = join_with [sep] rel, e_type = ''other'', e_mode = mode_perm m,
                   e_size = 0, e_sha = [], e_link = []\<rparr>)"

text \<open>What \<open>filepath.WalkDir\<close> visits below the root: all of the tree, by relative path.\<close>

definition walk :: "fs \<Rightarrow> segpath \<Rightarrow> (segpath \<times> node) list" where
  "walk f r = map (\<lambda>(p, n). (drop (length r) p, n))
     (filter (\<lambda>(p, n). prefix r p \<and> p \<noteq> r) f)"

definition walk_root :: "fs \<Rightarrow> segpath \<Rightarrow> segpath option" where
  "walk_root f r = (case lstat_node f r of Some (NDir _) \<Rightarrow> phys_last f r | _ \<Rightarrow> None)"

definition Build ::
  "path \<Rightarrow> (string \<Rightarrow> string) \<Rightarrow> (segpath \<Rightarrow> bool) \<Rightarrow> fs \<Rightarrow> path \<Rightarrow> manifest_error + Manifest" where
  "Build cwd sha unreadable f root =
     (let r = csegs (abs_path cwd root) in
      case stat_node f r of
        None \<Rightarrow> Inl (RootMissing root)
      | Some n \<Rightarrow>
          if \<not> is_dir n then Inl (RootNotDirectory root)
          else (let visited = (case walk_root f r of None \<Rightarrow> [] | Some q \<Rightarrow> walk f q) in
                if list_ex (\<lambda>(rel, _). unreadable (r @ rel)) visited then Inl (WalkFailed root)
                else Inr \<lparr>m_version = 1,
                      m_entries = sort_key e_path (map (\<lambda>(rel, n). entry_of sha rel n) visited)\<rparr>))"

fun first_mismatch :: "Entry list \<Rightarrow> Entry list \<Rightarrow> manifest_error + unit" where
  "first_mismatch (e # es) (a # as) =
     (if a \<noteq> e then Inl (EntryMismatch e a) else first_mismatch es as)"
| "first_mismatch es as = Inr ()"

definition Verify ::
  "path \<Rightarrow> (string \<Rightarrow> string) \<Rightarrow> (segpath \<Rightarrow> bool) \<Rightarrow> fs \<Rightarrow> path \<Rightarrow> Manifest \<Rightarrow> manifest_error + unit" where
  "Verify cwd sha unreadable f root expected =
     and_then (Build cwd sha unreadable f root) (\<lambda>actual.
       if m_version actual \<noteq> m_version expected
       then Inl (VersionMismatch (m_version expected) (m_version actual))
       else if length (m_entries actual) \<noteq> length (m_entries expected)
       then Inl (CountMismatch (length (m_entries expected)) (length (m_entries actual)))
       else first_mismatch (m_entries expected) (m_entries actual))"

definition NormalizePath :: "string \<Rightarrow> string" where
  "NormalizePath p =
     (let q = trim_space p in if q = dot then [] else trim_prefix ''./'' q)"

subsection \<open>Lemmas\<close>

lemma first_mismatch_Inr:
  "length as = length es \<Longrightarrow> first_mismatch es as = Inr () \<longleftrightarrow> as = es"
  by (induction es as rule: first_mismatch.induct) auto

lemma Verify_Inr:
  "Verify cwd sha u f root expected = Inr () \<longleftrightarrow> Build cwd sha u f root = Inr expected"
proof -
  have eq: "m = expected \<longleftrightarrow> m_version m = m_version expected \<and> m_entries m = m_entries expected"
    for m :: Manifest by (metis Manifest.equality unit_eq)
  have "(\<exists>m. Build cwd sha u f root = Inr m \<and> m = expected) \<longleftrightarrow> Verify cwd sha u f root expected = Inr ()"
    unfolding Verify_def and_then_Inr eq by (auto simp: first_mismatch_Inr)
  then show ?thesis by simp
qed

definition rel_ok :: "segpath \<Rightarrow> bool" where
  "rel_ok p = (\<forall>x \<in> set p. seg_ok x)"

lemma join_rel_inj:
  assumes "rel_ok p" and "rel_ok q" and "join_with [sep] p = join_with [sep] q"
  shows "p = q"
proof -
  have "segs (join_with [sep] z) = z" if "rel_ok z" for z
    using that by (intro segs_join) (simp add: rel_ok_def seg_ok_def)
  then show ?thesis using assms by metis
qed

lemma entry_path [simp]: "e_path (entry_of sha rel n) = join_with [sep] rel"
  by (cases n) (simp_all add: entry_of_def)

definition contents :: "fs \<Rightarrow> string set" where
  "contents f = {c. \<exists>p m. (p, NFile m c) \<in> set f}"

fun content_in :: "string set \<Rightarrow> node \<Rightarrow> bool" where
  "content_in C (NFile m c) = (c \<in> C)"
| "content_in C _ = True"

text \<open>
  What an entry shows of a node: everything but the bits of the mode above the permissions, which
  are the set-user-id, set-group-id and sticky bits and the sort of a special file.
\<close>

fun seen_node :: "node \<Rightarrow> node" where
  "seen_node (NDir m) = NDir (mode_perm m)"
| "seen_node (NFile m c) = NFile (mode_perm m) c"
| "seen_node (NLink m t) = NLink (mode_perm m) t"
| "seen_node (NOther m) = NOther (mode_perm m)"

lemma entry_of_inj:
  assumes "inj_on sha C" and "content_in C n" and "content_in C k"
    and "rel_ok p" and "rel_ok q" and "entry_of sha p n = entry_of sha q k"
  shows "p = q \<and> seen_node n = seen_node k"
proof -
  have "join_with [sep] p = join_with [sep] q"
    using assms(6) by (metis entry_path)
  then have "p = q" using assms(4,5) join_rel_inj by blast
  moreover have "seen_node n = seen_node k"
    using assms(1-3,6)
    by (cases n; cases k) (auto simp: entry_of_def hashFile_def dest!: hex_encode_inj dest: inj_onD)
  ultimately show ?thesis by simp
qed

lemma entry_of_seen_node: "seen_node n = seen_node k \<Longrightarrow> entry_of sha p n = entry_of sha p k"
  by (cases n; cases k) (simp_all add: entry_of_def)

lemma walk_set:
  "(rel, n) \<in> set (walk f r) \<longleftrightarrow> rel \<noteq> [] \<and> (r @ rel, n) \<in> set f"
  by (force simp: walk_def prefix_def image_iff)

lemma walk_distinct:
  assumes "wf_fs f"
  shows "distinct (map fst (walk f r))"
proof -
  define ks where "ks = map fst (filter (\<lambda>(p, n). prefix r p \<and> p \<noteq> r) f)"
  have "inj_on (drop (length r)) (set ks)"
    by (auto simp: inj_on_def prefix_def ks_def)
  moreover have "distinct ks"
    using assms unfolding ks_def by (simp add: wf_fs_def distinct_map_filter)
  ultimately have "distinct (map (drop (length r)) ks)"
    unfolding distinct_map by (rule conjI [rotated])
  moreover have "map fst (walk f r) = map (drop (length r)) ks"
    by (simp add: walk_def ks_def case_prod_beta)
  ultimately show ?thesis by simp
qed

lemma walk_rel_ok: "wf_fs f \<Longrightarrow> (rel, n) \<in> set (walk f r) \<Longrightarrow> rel_ok rel"
  by (auto simp: walk_set wf_fs_def rel_ok_def)

lemma distinct_entry_paths:
  assumes "wf_fs f"
  shows "distinct (map e_path (map (\<lambda>(rel, n). entry_of sha rel n) (walk f r)))"
proof -
  define ks where "ks = map fst (walk f r)"
  have "inj_on (join_with [sep]) (set ks)"
  proof (rule inj_onI)
    fix p q assume pq: "p \<in> set ks" "q \<in> set ks" "join_with [sep] p = join_with [sep] q"
    then have "rel_ok p" "rel_ok q"
      using walk_rel_ok [OF assms] by (auto simp: ks_def)
    with pq(3) show "p = q" by (simp add: join_rel_inj)
  qed
  then have "distinct (map (join_with [sep]) ks)"
    using walk_distinct [OF assms] unfolding distinct_map ks_def by simp
  moreover have "map e_path (map (\<lambda>(rel, n). entry_of sha rel n) (walk f r)) =
      map (join_with [sep]) ks"
    by (simp add: ks_def case_prod_beta)
  ultimately show ?thesis by simp
qed

lemma option_seen_iff: "map_option seen_node a = map_option seen_node b \<longleftrightarrow>
    (\<forall>n. a = Some n \<longrightarrow> (\<exists>k. b = Some k \<and> seen_node k = seen_node n)) \<and> (\<forall>n. b = Some n \<longrightarrow> (\<exists>k. a = Some k \<and> seen_node k = seen_node n))"
  by (cases a; cases b) auto

lemma walk_get: "wf_fs f \<Longrightarrow> (rel, n) \<in> set (walk f r) \<longleftrightarrow> rel \<noteq> [] \<and> fs_get f (r @ rel) = Some n"
  by (simp add: walk_set wf_fs_def fs_get_def)

text \<open>The entries of one tree are among those of another if each node is seen in the other.\<close>

lemma entries_subset_iff:
  assumes "wf_fs f" and "wf_fs g" and "inj_on sha (contents f \<union> contents g)"
  shows "(\<lambda>(rel, n). entry_of sha rel n) ` set (walk f r) \<subseteq> (\<lambda>(rel, n). entry_of sha rel n) ` set (walk g r) \<longleftrightarrow>
         (\<forall>rel n. rel \<noteq> [] \<longrightarrow> fs_get f (r @ rel) = Some n \<longrightarrow> (\<exists>k. fs_get g (r @ rel) = Some k \<and> seen_node k = seen_node n))"
  (is "?sub \<longleftrightarrow> ?get")
proof
  let ?C = "contents f \<union> contents g"
  have c: "content_in ?C n" if "(rel, n) \<in> set (walk f r) \<union> set (walk g r)" for rel n
    using that by (cases n) (auto simp: walk_set contents_def)
  have ok: "rel_ok rel" if "(rel, n) \<in> set (walk f r) \<union> set (walk g r)" for rel n
    using that walk_rel_ok assms(1,2) by blast
  assume sub: ?sub
  show ?get
  proof (intro allI impI)
    fix rel n assume "rel \<noteq> []" "fs_get f (r @ rel) = Some n"
    then have n: "(rel, n) \<in> set (walk f r)" using walk_get [OF assms(1)] by blast
    then obtain q k where k: "(q, k) \<in> set (walk g r)" "entry_of sha rel n = entry_of sha q k"
      using sub by fastforce
    have "rel = q \<and> seen_node n = seen_node k"
      using n k c ok by (intro entry_of_inj [OF assms(3) _ _ _ _ k(2)]) blast+
    then show "\<exists>k. fs_get g (r @ rel) = Some k \<and> seen_node k = seen_node n"
      using k(1) walk_get [OF assms(2)] by auto
  qed
next
  assume get: ?get
  show ?sub
  proof (clarsimp)
    fix rel n assume "(rel, n) \<in> set (walk f r)"
    then have "rel \<noteq> []" "fs_get f (r @ rel) = Some n" by (simp_all add: walk_get [OF assms(1)])
    then obtain k where "fs_get g (r @ rel) = Some k" "seen_node k = seen_node n" using get by blast
    then have "(rel, k) \<in> set (walk g r)" "seen_node n = seen_node k"
      using \<open>rel \<noteq> []\<close> by (simp_all add: walk_get [OF assms(2)])
    then show "entry_of sha rel n \<in> (\<lambda>(rel, n). entry_of sha rel n) ` set (walk g r)"
      by (intro image_eqI [of _ _ "(rel, k)"]) (simp_all add: entry_of_seen_node [of n k])
  qed
qed

lemma Build_dir:
  assumes "is_abs root" and "csegs root \<noteq> []" and "fs_get f (csegs root) = Some (NDir m)"
    and "phys f (csegs root) = Some (csegs root)" and "phys_last f (csegs root) = Some (csegs root)"
    and "\<forall>p. \<not> u p"
  shows "Build cwd sha u f root = Inr \<lparr>m_version = 1, m_entries =
           sort_key e_path (map (\<lambda>(rel, n). entry_of sha rel n) (walk f (csegs root)))\<rparr>"
proof -
  have "abs_path cwd root = clean root" using assms(1) by (simp add: abs_path_def)
  then show ?thesis
    using assms by (simp add: Build_def Let_def stat_node_def walk_root_def lstat_node_def
        list_ex_iff case_prod_beta)
qed

subsection \<open>Properties\<close>

text \<open>
  C20. A manifest detects every change it can see: for a directory root reached without symbolic
  links, trees that can be read completely and a hash without collisions on the contents involved,
  \<open>Verify\<close> of a later tree against the manifest built from an earlier one succeeds exactly when below
  the root no node was created or deleted and none changed its type (directory, file, link or other),
  its permission bits, its content or its link target.  A change of the set-user-id, set-group-id or
  sticky bit, or of one special file for another, is not seen; owner, times and attributes are not
  in the model.
\<close>

theorem verify_detects_every_change:
  assumes "wf_fs f" and "wf_fs g" and "is_abs root" and "r = csegs root"
    and "fs_get f r = Some (NDir m)" and "phys f r = Some r" and "phys_last f r = Some r"
    and "fs_get g r = Some (NDir k)" and "phys g r = Some r" and "phys_last g r = Some r"
    and "\<forall>p. \<not> u p" and "inj_on sha (contents f \<union> contents g)"
    and "Build cwd sha u f root = Inr before"
  shows "Verify cwd sha u g root before = Inr () \<longleftrightarrow>
         (\<forall>rel. rel \<noteq> [] \<longrightarrow> map_option seen_node (fs_get g (r @ rel)) = map_option seen_node (fs_get f (r @ rel)))"
proof -
  let ?e = "\<lambda>(rel, n). entry_of sha rel n"
  have "[] \<notin> fst ` set f" using assms(1) by (simp add: wf_fs_def)
  then have root: "r \<noteq> []" using fs_get_Some_in [OF assms(5)] by force
  have bf: "Build cwd sha u f root = Inr \<lparr>m_version = 1, m_entries = sort_key e_path (map ?e (walk f r))\<rparr>"
    and bg: "Build cwd sha u g root = Inr \<lparr>m_version = 1, m_entries = sort_key e_path (map ?e (walk g r))\<rparr>"
    using assms(3-11) root Build_dir by (simp_all add: assms(4))
  have inj: "inj_on sha (contents g \<union> contents f)" using assms(12) by (simp add: Un_commute)
  have "Verify cwd sha u g root before = Inr () \<longleftrightarrow>
        sort_key e_path (map ?e (walk g r)) = sort_key e_path (map ?e (walk f r))"
    using assms(13) by (auto simp: Verify_Inr bf bg)
  also have "\<dots> \<longleftrightarrow> ?e ` set (walk g r) = ?e ` set (walk f r)"
    using sort_key_unique [OF distinct_entry_paths [OF assms(2)] distinct_entry_paths [OF assms(1)]]
    by (metis set_map)
  also have "\<dots> \<longleftrightarrow> (\<forall>rel n. rel \<noteq> [] \<longrightarrow> fs_get g (r @ rel) = Some n \<longrightarrow> (\<exists>k. fs_get f (r @ rel) = Some k \<and> seen_node k = seen_node n)) \<and>
      (\<forall>rel n. rel \<noteq> [] \<longrightarrow> fs_get f (r @ rel) = Some n \<longrightarrow> (\<exists>k. fs_get g (r @ rel) = Some k \<and> seen_node k = seen_node n))"
    unfolding set_eq_subset entries_subset_iff [OF assms(2,1) inj] entries_subset_iff [OF assms(1,2,12)] ..
  also have "\<dots> \<longleftrightarrow> (\<forall>rel. rel \<noteq> [] \<longrightarrow> map_option seen_node (fs_get g (r @ rel)) = map_option seen_node (fs_get f (r @ rel)))"
    unfolding option_seen_iff by blast
  finally show ?thesis .
qed

definition demo_tree :: "string \<Rightarrow> fs" where
  "demo_tree c = [([''w''], NDir 493), ([''w'', ''a''], NFile 420 c)]"

lemma demo_tree_facts:
  "wf_fs (demo_tree c)" "fs_get (demo_tree c) [''w''] = Some (NDir 493)"
  "phys (demo_tree c) [''w''] = Some [''w'']" "phys_last (demo_tree c) [''w''] = Some [''w'']"
  "contents (demo_tree c) = {c}" "csegs ''/w'' = [''w'']" "is_abs ''/w''"
  by (auto simp: demo_tree_def wf_fs_def fs_get_def seg_ok_def plain_seg_def phys_def
      phys_last_def max_links_def contents_def csegs_def parse_path_def segs_def norm_segs_def
      norm_step_def is_abs_def)

theorem verify_detects_every_change_witness:
  "\<exists>before. Build ''/'' (\<lambda>c. c) (\<lambda>p. False) (demo_tree ''old'') ''/w'' = Inr before \<and>
     Verify ''/'' (\<lambda>c. c) (\<lambda>p. False) (demo_tree ''new'') ''/w'' before \<noteq> Inr () \<and>
     Verify ''/'' (\<lambda>c. c) (\<lambda>p. False) (demo_tree ''old'') ''/w'' before = Inr ()"
proof -
  obtain before where b: "Build ''/'' (\<lambda>c. c) (\<lambda>p. False) (demo_tree ''old'') ''/w'' = Inr before"
    using Build_dir [of "''/w''" "demo_tree ''old''" 493 "\<lambda>p. False" "''/''" "\<lambda>c. c"]
    by (simp add: demo_tree_facts)
  have ne: "map_option seen_node (fs_get (demo_tree ''new'') ([''w''] @ [''a''])) \<noteq> map_option seen_node (fs_get (demo_tree ''old'') ([''w''] @ [''a'']))"
    by (simp add: demo_tree_def fs_get_def)
  have "Verify ''/'' (\<lambda>c. c) (\<lambda>p. False) (demo_tree x) ''/w'' before = Inr () \<longleftrightarrow>
        (\<forall>rel. rel \<noteq> [] \<longrightarrow>
          map_option seen_node (fs_get (demo_tree x) ([''w''] @ rel)) = map_option seen_node (fs_get (demo_tree ''old'') ([''w''] @ rel)))" for x
    by (rule verify_detects_every_change [OF _ _ _ _ _ _ _ _ _ _ _ _ b])
      (simp_all add: demo_tree_facts)
  with ne b show ?thesis by blast
qed

text \<open>A bit that is not seen: the file became set-user-id, and the tree still verifies.\<close>

lemma setuid_change_unseen:
  "case Build ''/'' (\<lambda>c. c) (\<lambda>p. False) (demo_tree ''old'') ''/w'' of
     Inr before \<Rightarrow> Verify ''/'' (\<lambda>c. c) (\<lambda>p. False) (fs_put [''w'', ''a''] (NFile (420 OR push_bit 23 1) ''old'') (demo_tree ''old'')) ''/w'' before = Inr ()
   | Inl _ \<Rightarrow> False"
  by code_simp

end
