(* ===== verification/Diff_Model.thy ===== *)
theory Diff_Model
  imports Manifest_Model
begin

text \<open>
  \<open>internal/diff\<close>: the changes from one manifest to another.  Go iterates over two maps in an
  unspecified order and sorts by path; the paths are distinct, so the result is determined.
\<close>

datatype kind = Created | Modified | Deleted

record Change =
  ch_path :: string
  ch_kind :: kind
  ch_before :: "Entry option"
  ch_after :: "Entry option"

definition by_path :: "Manifest \<Rightarrow> string \<Rightarrow> Entry option" where
  "by_path m = last_binding e_path (m_entries m)"

definition Compare :: "Manifest \<Rightarrow> Manifest \<Rightarrow> Change list" where
  "Compare before after =
     (let left = by_path before; right = by_path after;
          gone = concat (map (\<lambda>p. case left p of None \<Rightarrow> []
            | Some entry \<Rightarrow>
                (case right p of
                   None \<Rightarrow> [\<lparr>ch_path = p, ch_kind = Deleted, ch_before = Some entry, ch_after = None\<rparr>]
                 | Some other \<Rightarrow>
                     if entry \<noteq> other
                     then [\<lparr>ch_path = p, ch_kind = Modified, ch_before = Some entry, ch_after = Some other\<rparr>]
                     else []))
            (remdups (map e_path (m_entries before))));
          fresh = concat (map (\<lambda>p. case left p of Some _ \<Rightarrow> []
            | None \<Rightarrow>
                (case right p of None \<Rightarrow> []
                 | Some entry \<Rightarrow>
                     [\<lparr>ch_path = p, ch_kind = Created, ch_before = None, ch_after = Some entry\<rparr>]))
            (remdups (map e_path (m_entries after))))
      in sort_key ch_path (gone @ fresh))"

subsection \<open>The change at a path\<close>

definition change_at :: "(string \<Rightarrow> Entry option) \<Rightarrow> (string \<Rightarrow> Entry option) \<Rightarrow> string \<Rightarrow> Change list" where
  "change_at l r p =
     (case l p of
        None \<Rightarrow> (case r p of None \<Rightarrow> []
           | Some e \<Rightarrow> [\<lparr>ch_path = p, ch_kind = Created, ch_before = None, ch_after = Some e\<rparr>])
      | Some e \<Rightarrow> (case r p of
             None \<Rightarrow> [\<lparr>ch_path = p, ch_kind = Deleted, ch_before = Some e, ch_after = None\<rparr>]
           | Some e' \<Rightarrow> if e \<noteq> e'
               then [\<lparr>ch_path = p, ch_kind = Modified, ch_before = Some e, ch_after = Some e'\<rparr>] else []))"

lemma by_path_None: "by_path m p = None \<longleftrightarrow> p \<notin> e_path ` set (m_entries m)"
  by (simp add: by_path_def last_binding_None)

lemma change_at_path: "c \<in> set (change_at l r p) \<Longrightarrow> ch_path c = p"
  by (cases "l p"; cases "r p") (auto simp: change_at_def split: if_splits)

lemma change_at_Nil: "change_at l r p = [] \<longleftrightarrow> l p = r p"
  by (cases "l p"; cases "r p") (auto simp: change_at_def)

lemma Compare_alt:
  "Compare b a = sort_key ch_path (concat (map (change_at (by_path b) (by_path a))
      (remdups (map e_path (m_entries b)) @
       filter (\<lambda>p. by_path b p = None) (remdups (map e_path (m_entries a))))))"
proof -
  let ?l = "by_path b" and ?r = "by_path a"
  let ?G = "\<lambda>p. case ?l p of None \<Rightarrow> [] | Some entry \<Rightarrow>
      (case ?r p of None \<Rightarrow> [\<lparr>ch_path = p, ch_kind = Deleted, ch_before = Some entry, ch_after = None\<rparr>]
       | Some other \<Rightarrow> if entry \<noteq> other
           then [\<lparr>ch_path = p, ch_kind = Modified, ch_before = Some entry, ch_after = Some other\<rparr>] else [])"
  let ?F = "\<lambda>p. case ?l p of Some _ \<Rightarrow> [] | None \<Rightarrow>
      (case ?r p of None \<Rightarrow> []
       | Some entry \<Rightarrow> [\<lparr>ch_path = p, ch_kind = Created, ch_before = None, ch_after = Some entry\<rparr>])"
  have fresh: "concat (map ?F ps) = concat (map (change_at ?l ?r) (filter (\<lambda>p. ?l p = None) ps))" for ps
    by (induction ps) (auto simp: change_at_def split: option.splits)
  have "?G p = change_at ?l ?r p" if "p \<in> set (remdups (map e_path (m_entries b)))" for p
  proof -
    have "?l p \<noteq> None" using that by (simp add: by_path_None)
    then show ?thesis by (auto simp: change_at_def split: option.split)
  qed
  then have gone: "map ?G (remdups (map e_path (m_entries b))) =
      map (change_at ?l ?r) (remdups (map e_path (m_entries b)))"
    by (rule map_cong [OF refl])
  show ?thesis
    unfolding Compare_def Let_def gone fresh map_append concat_append by (rule refl)
qed

lemma in_Compare: "c \<in> set (Compare b a) \<longleftrightarrow> c \<in> set (change_at (by_path b) (by_path a) (ch_path c))"
proof
  assume "c \<in> set (Compare b a)"
  then show "c \<in> set (change_at (by_path b) (by_path a) (ch_path c))"
    using change_at_path by (fastforce simp: Compare_alt)
next
  assume c: "c \<in> set (change_at (by_path b) (by_path a) (ch_path c))"
  then have "by_path b (ch_path c) \<noteq> None \<or> by_path a (ch_path c) \<noteq> None"
    using change_at_Nil [of "by_path b" "by_path a" "ch_path c"] by auto
  then have "ch_path c \<in> set (remdups (map e_path (m_entries b)) @
       filter (\<lambda>p. by_path b p = None) (remdups (map e_path (m_entries a))))"
    using by_path_None [of b "ch_path c"] by_path_None [of a "ch_path c"]
    by (cases "by_path b (ch_path c)") auto
  with c show "c \<in> set (Compare b a)" by (auto simp: Compare_alt)
qed

lemma distinct_concat_keys:
  assumes "distinct ps" and "\<And>p c. c \<in> set (f p) \<Longrightarrow> k c = p" and "\<And>p. length (f p) \<le> 1"
  shows "distinct (map k (concat (map f ps)))"
  using assms(1)
proof (induction ps)
  case (Cons p ps)
  have "f p = [] \<or> (\<exists>c. f p = [c] \<and> k c = p)"
    using assms(2) [of _ p] assms(3) [of p] by (cases "f p"; cases "tl (f p)") auto
  moreover have "p \<notin> k ` set (concat (map f ps))"
    using Cons.prems assms(2) by auto
  ultimately show ?case using Cons by auto
qed simp

lemma Compare_distinct: "distinct (map ch_path (Compare b a))"
proof -
  define ps where "ps = remdups (map e_path (m_entries b)) @
       filter (\<lambda>p. by_path b p = None) (remdups (map e_path (m_entries a)))"
  have "distinct (map ch_path (concat (map (change_at (by_path b) (by_path a)) ps)))"
  proof (rule distinct_concat_keys)
    show "distinct ps" by (auto simp: ps_def by_path_None)
    show "length (change_at (by_path b) (by_path a) p) \<le> 1" for p
      by (simp add: change_at_def split: option.split)
  qed (rule change_at_path)
  then show ?thesis
    by (simp add: Compare_alt ps_def [symmetric] distinct_map del: map_append concat_append)
qed

lemma Compare_sorted: "sorted (map ch_path (Compare b a))"
  by (simp add: Compare_alt)

lemma Compare_paths: "p \<in> ch_path ` set (Compare b a) \<longleftrightarrow> by_path b p \<noteq> by_path a p"
proof -
  have "p \<in> ch_path ` set (Compare b a) \<longleftrightarrow> change_at (by_path b) (by_path a) p \<noteq> []"
  proof
    assume "p \<in> ch_path ` set (Compare b a)"
    then obtain c where "c \<in> set (Compare b a)" "p = ch_path c" by blast
    then have "c \<in> set (change_at (by_path b) (by_path a) p)" by (simp add: in_Compare)
    then show "change_at (by_path b) (by_path a) p \<noteq> []" by auto
  next
    assume "change_at (by_path b) (by_path a) p \<noteq> []"
    then obtain c where c: "c \<in> set (change_at (by_path b) (by_path a) p)"
      by (meson last_in_set)
    then have "ch_path c = p" by (rule change_at_path)
    with c have "c \<in> set (Compare b a)" by (simp add: in_Compare)
    with \<open>ch_path c = p\<close> show "p \<in> ch_path ` set (Compare b a)" by blast
  qed
  also have "\<dots> \<longleftrightarrow> by_path b p \<noteq> by_path a p"
    by (simp add: change_at_Nil)
  finally show ?thesis .
qed

lemma change_at_fields:
  "c \<in> set (change_at l r p) \<Longrightarrow> ch_after c = r p \<and> (ch_kind c = Deleted \<longleftrightarrow> r p = None)"
  by (cases "l p"; cases "r p") (auto simp: change_at_def split: if_splits)

lemma Compare_after: "c \<in> set (Compare b a) \<Longrightarrow> ch_after c = by_path a (ch_path c)"
  by (simp add: in_Compare change_at_fields)

lemma Compare_kind: "c \<in> set (Compare b a) \<Longrightarrow> ch_kind c = Deleted \<longleftrightarrow> by_path a (ch_path c) = None"
  by (simp add: in_Compare change_at_fields)

subsection \<open>Patching\<close>

definition patch :: "Change list \<Rightarrow> (string \<Rightarrow> Entry option) \<Rightarrow> string \<Rightarrow> Entry option" where
  "patch cs m = fold (\<lambda>c m. m(ch_path c := ch_after c)) cs m"

lemma patch_other: "p \<notin> ch_path ` set cs \<Longrightarrow> patch cs m p = m p"
  unfolding patch_def by (induction cs arbitrary: m) auto

lemma patch_changed:
  "distinct (map ch_path cs) \<Longrightarrow> c \<in> set cs \<Longrightarrow> patch cs m (ch_path c) = ch_after c"
proof (induction cs arbitrary: m)
  case (Cons d cs)
  show ?case
  proof (cases "c = d")
    case True
    with Cons.prems(1) have "ch_path c \<notin> ch_path ` set cs" by auto
    with patch_other [of "ch_path c" cs] True show ?thesis by (simp add: patch_def)
  next
    case False
    with Cons show ?thesis by (simp add: patch_def)
  qed
qed simp

lemma patch_Compare:
  "patch (Compare b a) m p = (if by_path b p \<noteq> by_path a p then by_path a p else m p)"
proof (cases "p \<in> ch_path ` set (Compare b a)")
  case True
  then obtain c where c: "c \<in> set (Compare b a)" "p = ch_path c" by auto
  with True show ?thesis
    using patch_changed [OF Compare_distinct c(1)] Compare_after [OF c(1)]
    by (simp add: Compare_paths [symmetric])
next
  case False
  then show ?thesis using patch_other Compare_paths by (metis (no_types))
qed

text \<open>
  C21. The diff is complete, minimal and ordered: patching the first manifest with it gives the
  second, it is empty exactly when the two describe the same tree, and its paths are strictly
  increasing.
\<close>

theorem diff_is_exact_patch:
  "patch (Compare b a) (by_path b) = by_path a \<and>
   (Compare b a = [] \<longleftrightarrow> by_path b = by_path a) \<and>
   sorted_wrt (<) (map ch_path (Compare b a))"
proof (intro conjI)
  show "patch (Compare b a) (by_path b) = by_path a"
    by (rule ext) (simp add: patch_Compare)
  have "Compare b a = [] \<longleftrightarrow> (\<forall>p. p \<notin> ch_path ` set (Compare b a))"
    by (cases "Compare b a") auto
  then show "Compare b a = [] \<longleftrightarrow> by_path b = by_path a"
    unfolding Compare_paths by (simp add: fun_eq_iff)
  show "sorted_wrt (<) (map ch_path (Compare b a))"
    using Compare_sorted Compare_distinct by (simp add: strict_sorted_iff)
qed

end
