(* ===== verification/Acceptance.thy ===== *)
theory Acceptance
  imports Diff_Model "HOL-Library.Product_Lexorder"
begin

text \<open>
  \<open>internal/acceptance\<close>: the conflict check of a candidate against a destination that may have
  been edited since the run started, and the explicit apply, on one file system that holds both
  trees.  Failing system calls are given by the environment: the umask, the destinations at
  which writing the copy fails, and those at which removal fails (a failing removal removes
  nothing).
\<close>

record Report =
  can_apply :: bool
  rep_changes :: "Change list"
  rep_conflicts :: "string list"

datatype apply_error =
    Conflicts "string list"
  | BadRoot path
  | UnsafePath path
  | EscapesDestination path
  | UnsupportedEntry path string
  | UnknownEntry path
  | CreateDirFailed path
  | OpenFailed path
  | CopyFailed path
  | RemoveFailed path

record apply_env =
  env_umask :: fmode
  env_copy_fails :: "segpath \<Rightarrow> bool"
  env_remove_fails :: "segpath \<Rightarrow> bool"

subsection \<open>The conflict check\<close>

definition Check :: "Manifest \<Rightarrow> Manifest \<Rightarrow> Manifest \<Rightarrow> Report" where
  "Check base destination candidate =
     (let candidateChanges = Compare base candidate;
          destinationChanges = Compare base destination;
          changed = ch_path ` set candidateChanges;
          conflicts = sort (filter (\<lambda>p. p \<in> changed) (map ch_path destinationChanges))
      in \<lparr>can_apply = (conflicts = []), rep_changes = candidateChanges, rep_conflicts = conflicts\<rparr>)"

subsection \<open>Applying a candidate\<close>

definition safeJoin :: "path \<Rightarrow> string \<Rightarrow> apply_error + path" where
  "safeJoin root relative =
     (if relative = [] \<or> is_abs relative then Inl (UnsafePath relative)
      else (let cl = clean relative in
        if cl = dot \<or> escapes cl then Inl (UnsafePath relative)
        else (let joined = path_join root cl in
          case rel_path root joined of
            None \<Rightarrow> Inl (EscapesDestination relative)
          | Some r \<Rightarrow> if escapes r then Inl (EscapesDestination relative) else Inr joined)))"

definition validateRoots :: "fs \<Rightarrow> path \<Rightarrow> path \<Rightarrow> apply_error + unit" where
  "validateRoots f candidate destination =
     (if \<not> stat_dir f (csegs candidate) then Inl (BadRoot candidate)
      else if \<not> stat_dir f (csegs destination) then Inl (BadRoot destination)
      else Inr ())"

definition copyEntry :: "apply_env \<Rightarrow> fs \<Rightarrow> path \<Rightarrow> path \<Rightarrow> Entry \<Rightarrow> fs \<times> apply_error option" where
  "copyEntry env f candidateRoot destination entry =
     (case safeJoin candidateRoot (e_path entry) of
        Inl e \<Rightarrow> (f, Some e)
      | Inr src \<Rightarrow>
          let d = csegs destination in
          if e_type entry = ''symlink'' \<or> e_type entry = ''other''
          then (f, Some (UnsupportedEntry (e_path entry) (e_type entry)))
          else if e_type entry = ''directory'' then
            (case MkdirAll (env_umask env) (e_mode entry) f d of
               None \<Rightarrow> (f, Some (CreateDirFailed (e_path entry)))
             | Some f1 \<Rightarrow> (f1, None))
          else if e_type entry \<noteq> ''file'' then (f, Some (UnknownEntry (e_path entry)))
          else
            (case MkdirAll (env_umask env) 493 f (butlast d) of
               None \<Rightarrow> (f, Some (CreateDirFailed (e_path entry)))
             | Some f1 \<Rightarrow>
                 (case stat_node f1 (csegs src) of
                    Some (NFile _ content) \<Rightarrow>
                      if env_copy_fails env d then (f1, Some (CopyFailed (e_path entry)))
                      else (case replace_file f1 d (e_mode entry) content of
                              None \<Rightarrow> (f1, Some (CopyFailed (e_path entry)))
                            | Some f2 \<Rightarrow> (f2, None))
                  | _ \<Rightarrow> (f1, Some (OpenFailed (e_path entry))))))"

definition zero_entry :: Entry where
  "zero_entry = \<lparr>e_path = [], e_type = [], e_mode = 0, e_size = 0, e_sha = [], e_link = []\<rparr>"

text \<open>One iteration of the loop of \<open>Apply\<close>, and the loop.\<close>

definition apply_change ::
  "apply_env \<Rightarrow> (string \<Rightarrow> Entry option) \<Rightarrow> path \<Rightarrow> path \<Rightarrow> fs \<Rightarrow> Change \<Rightarrow> fs \<times> apply_error option" where
  "apply_change env entries candidateRoot destinationRoot f change =
     (case safeJoin destinationRoot (ch_path change) of
        Inl e \<Rightarrow> (f, Some e)
      | Inr p \<Rightarrow>
          (case ch_kind change of
             Deleted \<Rightarrow>
               if env_remove_fails env (csegs p) then (f, Some (RemoveFailed (ch_path change)))
               else (RemoveAll f (csegs p), None)
           | _ \<Rightarrow> copyEntry env f candidateRoot p
                   (case entries (ch_path change) of None \<Rightarrow> zero_entry | Some e \<Rightarrow> e)))"

fun apply_changes ::
  "apply_env \<Rightarrow> (string \<Rightarrow> Entry option) \<Rightarrow> path \<Rightarrow> path \<Rightarrow> fs \<Rightarrow> Change list \<Rightarrow> fs \<times> apply_error option" where
  "apply_changes env entries cr dr f [] = (f, None)"
| "apply_changes env entries cr dr f (c # cs) =
     (case apply_change env entries cr dr f c of
        (f1, Some e) \<Rightarrow> (f1, Some e)
      | (f1, None) \<Rightarrow> apply_changes env entries cr dr f1 cs)"

definition apply_order :: "Change list \<Rightarrow> Change list" where
  "apply_order cs = sort_key (\<lambda>c. (ch_kind c = Deleted, ch_path c)) cs"

definition Apply ::
  "apply_env \<Rightarrow> fs \<Rightarrow> Manifest \<Rightarrow> Manifest \<Rightarrow> Manifest \<Rightarrow> path \<Rightarrow> path \<Rightarrow> fs \<times> Report \<times> apply_error option" where
  "Apply env f base destination candidate candidateRoot destinationRoot =
     (let report = Check base destination candidate in
      if \<not> can_apply report then (f, report, Some (Conflicts (rep_conflicts report)))
      else (case validateRoots f candidateRoot destinationRoot of
              Inl e \<Rightarrow> (f, report, Some e)
            | Inr _ \<Rightarrow>
                (case apply_changes env (by_path candidate) candidateRoot destinationRoot f
                        (apply_order (rep_changes report)) of
                   (f', e) \<Rightarrow> (f', report, e))))"

subsection \<open>The check is a three-way merge\<close>

lemma Check_changes [simp]: "rep_changes (Check b d c) = Compare b c"
  by (simp add: Check_def Let_def)

lemma Check_conflicts: "p \<in> set (rep_conflicts (Check b d c)) \<longleftrightarrow>
     by_path b p \<noteq> by_path c p \<and> by_path b p \<noteq> by_path d p"
proof -
  have "p \<in> set (rep_conflicts (Check b d c)) \<longleftrightarrow>
      p \<in> ch_path ` set (Compare b d) \<and> p \<in> ch_path ` set (Compare b c)"
    unfolding Check_def Let_def by simp
  then show ?thesis unfolding Compare_paths by blast
qed

lemma can_apply_iff: "can_apply (Check b d c) \<longleftrightarrow>
     (\<forall>p. by_path b p = by_path c p \<or> by_path b p = by_path d p)"
proof -
  have "can_apply (Check b d c) \<longleftrightarrow> rep_conflicts (Check b d c) = []"
    by (simp add: Check_def Let_def)
  also have "\<dots> \<longleftrightarrow> (\<forall>p. p \<notin> set (rep_conflicts (Check b d c)))"
    by (cases "rep_conflicts (Check b d c)") auto
  finally show ?thesis unfolding Check_conflicts by blast
qed

subsection \<open>Safe joining\<close>

lemma clean_relative:
  assumes "\<not> is_abs rel" and "\<not> escapes (clean rel)" and "clean rel \<noteq> dot"
  shows "dotdot \<notin> set (csegs rel)" and "csegs rel \<noteq> []" and "segs (clean rel) = csegs rel"
    and "clean rel \<noteq> []"
proof -
  have cl: "clean rel = (if csegs rel = [] then dot else join_with [sep] (csegs rel))"
    using assms(1) by (simp add: clean_def render_def parse_csegs)
  show ne: "csegs rel \<noteq> []" using cl assms(3) by auto
  then show "segs (clean rel) = csegs rel"
    using cl csegs_plain [of _ rel] by (simp add: segs_join)
  show "clean rel \<noteq> []"
    using ne cl join_with_eq_Nil [of "csegs rel" "[sep]"] csegs_plain [of _ rel]
    by (auto simp: plain_seg_def)
  have "dotdot \<notin> set (dropWhile (\<lambda>x. x = dotdot) (csegs rel))"
    using canonical_parse [of rel] assms(1) by (simp add: canonical_def parse_csegs)
  moreover have "hd (csegs rel) \<noteq> dotdot"
    using ne cl assms(2) escapes_join_dotdot [of "tl (csegs rel)"] by (metis list.collapse)
  ultimately show "dotdot \<notin> set (csegs rel)"
    using ne by (cases "csegs rel") auto
qed

lemma safeJoin_Inr:
  assumes "is_abs root" and "safeJoin root rel = Inr p"
  shows "is_abs p" and "csegs p = csegs root @ csegs rel" and "csegs rel \<noteq> []"
    and "dotdot \<notin> set (csegs rel)"
proof -
  have r: "\<not> is_abs rel" "\<not> escapes (clean rel)" "clean rel \<noteq> dot" "p = path_join root (clean rel)"
    using assms(2) by (auto simp: safeJoin_def Let_def split: if_splits option.splits)
  note cr = clean_relative [OF r(1-3)]
  show "csegs rel \<noteq> []" "dotdot \<notin> set (csegs rel)" by (fact cr)+
  show "is_abs p" using r(4) assms(1) by (simp add: path_join_abs)
  show "csegs p = csegs root @ csegs rel"
    using csegs_join_plain [OF assms(1), of "clean rel"] cr r(4) by simp
qed

subsection \<open>One step\<close>

text \<open>
  What a step may do at \<open>p\<close>: nodes other than the one at \<open>p\<close> are kept, and only places on the
  way to \<open>p\<close> appear.
\<close>

definition touches_only :: "segpath \<Rightarrow> fs \<Rightarrow> fs \<Rightarrow> bool" where
  "touches_only p f f' = (no_new_links f f' \<and>
     (\<forall>q n. fs_get f q = Some n \<longrightarrow> q \<noteq> p \<longrightarrow> fs_get f' q = Some n) \<and>
     (\<forall>q n. fs_get f q = None \<longrightarrow> fs_get f' q = Some n \<longrightarrow> prefix q p \<and> q \<noteq> []))"

lemma touches_only_refl: "touches_only p f f"
  by (simp add: touches_only_def)

lemma grown_touches: "grown m f f' q \<Longrightarrow> prefix q p \<Longrightarrow> touches_only p f f'"
  using grown_no_new_links [of m f f' q] unfolding grown_def touches_only_def by (blast intro: prefix_order.trans)

lemma touches_put:
  assumes "touches_only p f f'" and "p \<noteq> []" and "\<forall>m t. n \<noteq> NLink m t"
  shows "touches_only p f (fs_put p n f')"
  using assms unfolding touches_only_def by (auto intro: no_new_links_put)

lemma replace_file_put:
  assumes "plain_way f (butlast p)" and "dotdot \<notin> set p" and "replace_file f p m c = Some f'"
  shows "f' = fs_put p (NFile m c) f"
  using assms by (auto simp: replace_file_def phys_last_plain_way split: option.splits node.splits if_splits)

lemma copyEntry_touches:
  assumes "plain_way f (csegs dst)" and "dotdot \<notin> set (csegs dst)" and "csegs dst \<noteq> []"
    and "copyEntry env f cr dst e = (f', r)"
  shows "touches_only (csegs dst) f f'"
proof -
  let ?d = "csegs dst"
  have bl: "dotdot \<notin> set (butlast ?d)" using assms(2) by (auto dest: in_set_butlastD)
  note pb = plain_way_butlast [OF assms(1)]
  have g1: "touches_only ?d f f1" if "MkdirAll u m f ?d = Some f1" for u m f1
    using MkdirAll_grown [OF assms(1,2) that] by (rule grown_touches) simp
  have g2: "touches_only ?d f f1" if "MkdirAll u m f (butlast ?d) = Some f1" for u m f1
    using MkdirAll_grown [OF pb bl that] by (rule grown_touches) (simp add: prefixeq_butlast)
  have g3: "touches_only ?d f f2"
    if "MkdirAll u m f (butlast ?d) = Some f1" "replace_file f1 ?d k c = Some f2" for u m f1 f2 k c
  proof -
    have t: "touches_only ?d f f1" using that(1) by (rule g2)
    then have "plain_way f1 (butlast ?d)" using plain_way_new [OF _ pb] by (simp add: touches_only_def)
    then have "f2 = fs_put ?d (NFile k c) f1" using assms(2) that(2) by (rule replace_file_put)
    then show ?thesis using touches_put [OF t assms(3)] by simp
  qed
  show ?thesis
    using assms(4) touches_only_refl [of ?d f] g1 g2 g3
    by (auto simp: copyEntry_def Let_def split: sum.splits option.splits if_splits node.splits)
qed

lemma RemoveAll_plain_way: "plain_way f (butlast p) \<Longrightarrow> dotdot \<notin> set p \<Longrightarrow> RemoveAll f p = fs_remove p f"
  by (simp add: RemoveAll_def phys_last_plain_way)

lemma RemoveAll_no_links: "no_links f \<Longrightarrow> dotdot \<notin> set p \<Longrightarrow> RemoveAll f p = fs_remove p f"
  by (simp add: RemoveAll_plain_way)

text \<open>The place in the destination a change is about.\<close>

definition target :: "path \<Rightarrow> Change \<Rightarrow> segpath" where
  "target root c = csegs root @ csegs (ch_path c)"

definition hits :: "path \<Rightarrow> Change \<Rightarrow> segpath \<Rightarrow> bool" where
  "hits root c q = (q = target root c \<or> (ch_kind c = Deleted \<and> prefix (target root c) q))"

text \<open>
  A change whose place in the destination is reached without a symbolic link; what is deleted may
  be a link itself.
\<close>

definition clear_way :: "fs \<Rightarrow> path \<Rightarrow> Change \<Rightarrow> bool" where
  "clear_way f root c = plain_way f (if ch_kind c = Deleted then butlast (target root c) else target root c)"

lemma clear_way_no_links [simp]: "no_links f \<Longrightarrow> clear_way f root c"
  by (simp add: clear_way_def)

lemma clear_way_new: "no_new_links f f' \<Longrightarrow> clear_way f root c \<Longrightarrow> clear_way f' root c"
  unfolding clear_way_def by (rule plain_way_new)

lemma apply_change_frame:
  assumes "clear_way f dr c" and "is_abs dr" and "apply_change env es cr dr f c = (f', r)"
  shows "no_new_links f f' \<and>
     (\<forall>q n. fs_get f q = Some n \<longrightarrow> \<not> hits dr c q \<longrightarrow> fs_get f' q = Some n) \<and>
     (\<forall>q n. fs_get f q = None \<longrightarrow> fs_get f' q = Some n \<longrightarrow> prefix q (target dr c) \<and> q \<noteq> [])"
proof (cases "safeJoin dr (ch_path c)")
  case (Inl e)
  with assms show ?thesis by (auto simp: apply_change_def)
next
  case (Inr p)
  note j = safeJoin_Inr [OF assms(2) Inr]
  have t: "csegs p = target dr c" by (simp add: target_def j(2))
  have dd: "dotdot \<notin> set (csegs p)" using j(1) by (rule csegs_no_dotdot)
  have ne: "csegs p \<noteq> []" using j(2,3) by simp
  show ?thesis
  proof (cases "ch_kind c = Deleted")
    case True
    then have "plain_way f (butlast (csegs p))" using assms(1) by (simp add: clear_way_def t)
    then have "RemoveAll f (csegs p) = fs_remove (target dr c) f" using RemoveAll_plain_way [OF _ dd] t by simp
    moreover have "f' = f \<or> f' = RemoveAll f (csegs p)"
      using True assms(3) Inr by (auto simp: apply_change_def split: if_splits)
    ultimately have "f' = f \<or> f' = fs_remove (target dr c) f" by simp
    then show ?thesis
      using True no_new_links_remove [OF no_new_links_refl, of f "target dr c"] by (auto simp: hits_def split: if_splits)
  next
    case False
    then have "plain_way f (csegs p)" using assms(1) by (simp add: clear_way_def t)
    then have "touches_only (csegs p) f f'"
      using False assms Inr copyEntry_touches [OF _ dd ne]
      by (auto simp: apply_change_def split: kind.splits)
    then show ?thesis unfolding touches_only_def t hits_def by blast
  qed
qed

subsection \<open>The loop\<close>

lemma apply_changes_frame:
  assumes "\<forall>c \<in> set cs. clear_way f dr c" and "is_abs dr" and "apply_changes env es cr dr f cs = (f', r)"
  shows "no_new_links f f' \<and>
     (\<forall>q n. fs_get f q = Some n \<longrightarrow> (\<forall>c \<in> set cs. \<not> hits dr c q) \<longrightarrow> fs_get f' q = Some n) \<and>
     (\<forall>q n. fs_get f q = None \<longrightarrow> fs_get f' q = Some n \<longrightarrow>
        (\<exists>c \<in> set cs. prefix q (target dr c)) \<and> q \<noteq> [])"
  using assms
proof (induction cs arbitrary: f)
  case (Cons c cs)
  obtain f1 r1 where s: "apply_change env es cr dr f c = (f1, r1)" by (cases "apply_change env es cr dr f c")
  have cw: "clear_way f dr c" using Cons.prems(1) by simp
  note fr = apply_change_frame [OF cw Cons.prems(2) s]
  show ?case
  proof (cases r1)
    case None
    then have rest: "apply_changes env es cr dr f1 cs = (f', r)" using Cons.prems(3) s by simp
    have "\<forall>c \<in> set cs. clear_way f1 dr c" using Cons.prems(1) fr by (auto intro: clear_way_new)
    note ih = Cons.IH [OF this Cons.prems(2) rest]
    show ?thesis
    proof (intro conjI allI impI)
      show "no_new_links f f'" using ih fr no_new_links_trans by blast
    next
      fix q n assume "fs_get f q = Some n" "\<forall>c \<in> set (c # cs). \<not> hits dr c q"
      then have "fs_get f1 q = Some n" "\<forall>c \<in> set cs. \<not> hits dr c q" using fr by auto
      then show "fs_get f' q = Some n" using ih by blast
    next
      fix q n assume q: "fs_get f q = None" "fs_get f' q = Some n"
      have "(\<exists>c \<in> set (c # cs). prefix q (target dr c)) \<and> q \<noteq> []"
      proof (cases "fs_get f1 q")
        case None
        with ih q(2) have "(\<exists>c \<in> set cs. prefix q (target dr c)) \<and> q \<noteq> []" by blast
        then show ?thesis by auto
      next
        case (Some k)
        with fr q(1) have "prefix q (target dr c) \<and> q \<noteq> []" by blast
        then show ?thesis by simp
      qed
      then show "\<exists>c \<in> set (c # cs). prefix q (target dr c)" "q \<noteq> []" by simp_all
    qed
  next
    case (Some e)
    with Cons.prems s have "f' = f1" by simp
    with fr show ?thesis by auto
  qed
qed simp

lemma replace_file_no_links: "no_links f \<Longrightarrow> replace_file f p m s = Some f' \<Longrightarrow> no_links f'"
  by (auto simp: replace_file_def split: option.splits node.splits if_splits)

lemma copyEntry_no_links:
  assumes "no_links f" and "copyEntry env f cr dst e = (f', r)"
  shows "no_links f'"
proof -
  have m: "no_links f1" if "MkdirAll u k f p = Some f1" for u k p f1 using MkdirAll_no_links [OF assms(1) that] .
  have "no_links f2" if "MkdirAll u k f p = Some f1" "replace_file f1 q l s = Some f2" for u k p f1 q l s f2
    using replace_file_no_links [OF m [OF that(1)] that(2)] .
  then show ?thesis
    using assms(2) m assms(1)
    by (auto simp: copyEntry_def Let_def split: sum.splits option.splits if_splits node.splits)
qed

lemma apply_changes_no_links:
  assumes "no_links f" and "apply_changes env es cr dr f cs = (f', r)"
  shows "no_links f'"
  using assms
proof (induction cs arbitrary: f)
  case (Cons c cs)
  obtain f1 r1 where s: "apply_change env es cr dr f c = (f1, r1)" by (cases "apply_change env es cr dr f c")
  have "no_links (RemoveAll f p)" for p using Cons.prems(1) by (simp add: RemoveAll_def split: option.split)
  then have "no_links f1"
    using s Cons.prems(1) copyEntry_no_links [OF Cons.prems(1)]
    by (auto simp: apply_change_def split: sum.splits kind.splits if_splits)
  then show ?case using Cons.IH Cons.prems(2) s by (cases r1) auto
qed simp

lemma apply_changes_append:
  "apply_changes env es cr dr f (xs @ ys) =
     (case apply_changes env es cr dr f xs of
        (f1, None) \<Rightarrow> apply_changes env es cr dr f1 ys | (f1, Some e) \<Rightarrow> (f1, Some e))"
  by (induction xs arbitrary: f) (auto split: prod.splits option.splits)

lemma apply_order_set [simp]: "set (apply_order cs) = set cs"
  by (simp add: apply_order_def)

text \<open>Deletions come last.\<close>

lemma apply_order_deletes_last:
  assumes "apply_order cs = xs @ c # ys" and "ch_kind c = Deleted"
  shows "\<forall>y \<in> set ys. ch_kind y = Deleted"
proof -
  let ?k = "\<lambda>c. (ch_kind c = Deleted, ch_path c)"
  have "sorted (map ?k (xs @ c # ys))"
    using assms(1) sorted_sort_key [of ?k cs] by (simp add: apply_order_def)
  then have "\<forall>y \<in> set ys. ?k c \<le> ?k y"
    by (simp add: sorted_append)
  with assms(2) show ?thesis by (auto simp: less_eq_prod_def)
qed

lemma deletes_keep_absent:
  assumes "\<forall>c \<in> set cs. clear_way f dr c" and "is_abs dr" and "\<forall>c \<in> set cs. ch_kind c = Deleted"
    and "apply_changes env es cr dr f cs = (f', r)" and "fs_get f q = None"
  shows "fs_get f' q = None"
  using assms
proof (induction cs arbitrary: f)
  case (Cons c cs)
  obtain f1 r1 where s: "apply_change env es cr dr f c = (f1, r1)" by (cases "apply_change env es cr dr f c")
  have "f1 = f \<or> (\<exists>p. f1 = RemoveAll f p)"
    using s Cons.prems(3) by (auto simp: apply_change_def split: sum.splits if_splits)
  then have "f1 = f \<or> (\<exists>p. f1 = fs_remove p f)" by (auto simp: RemoveAll_def split: option.splits)
  then have f1: "no_new_links f f1" "fs_get f1 q = None"
    using Cons.prems(5) no_new_links_remove [OF no_new_links_refl] by auto
  then have "\<forall>c \<in> set cs. clear_way f1 dr c" using Cons.prems(1) by (auto intro: clear_way_new)
  then show ?case
    using Cons.IH [of f1] Cons.prems s f1 by (cases r1) auto
qed simp

lemma Apply_success:
  assumes "Apply env f b d cand cr dr = (f', rep, None)"
  shows "apply_changes env (by_path cand) cr dr f (apply_order (Compare b cand)) = (f', None)"
    and "can_apply (Check b d cand)" and "stat_dir f (csegs dr)" and "rep = Check b d cand"
  using assms by (auto simp: Apply_def Let_def validateRoots_def split: if_splits prod.splits)

lemma apply_changes_split:
  assumes "apply_changes env es cr dr f (xs @ c # ys) = (f', None)"
  obtains f1 f2 where "apply_changes env es cr dr f xs = (f1, None)"
    and "apply_change env es cr dr f1 c = (f2, None)" and "apply_changes env es cr dr f2 ys = (f', None)"
  using assms by (auto simp: apply_changes_append split: prod.splits option.splits)

lemma hits_inside: "hits dr c q \<Longrightarrow> prefix (csegs dr) q"
  by (auto simp: hits_def target_def prefix_def)

subsection \<open>Properties\<close>

text \<open>
  \<open>safeJoin\<close> confines: under an absolute root, every path it accepts is strictly inside the
  root and keeps no parent reference.
\<close>

theorem safeJoin_confines:
  assumes "is_abs root" and "safeJoin root relative = Inr p"
  shows "is_within root p \<and> \<not> is_within p root \<and> clean p \<noteq> clean root \<and> dotdot \<notin> set (csegs p)"
proof -
  note j = safeJoin_Inr [OF assms]
  have "is_within root p" "\<not> is_within p root"
    using j assms(1) by (simp_all add: is_within_prefix)
  moreover have "dotdot \<notin> set (csegs p)" using j(1) by (rule csegs_no_dotdot)
  moreover have "clean p \<noteq> clean root"
    using j(2,3) by (metis append_self_conv csegs_clean)
  ultimately show ?thesis by blast
qed

theorem safeJoin_confines_witness:
  "is_within ''/srv/ws'' ''/srv/ws/a/c'' \<and> \<not> is_within ''/srv/ws/a/c'' ''/srv/ws''"
proof -
  have "safeJoin ''/srv/ws'' ''a/b/../c'' = Inr ''/srv/ws/a/c''" by code_simp
  from safeJoin_confines [OF _ this] show ?thesis by (simp add: is_abs_def)
qed

text \<open>
  C13. On the level of manifests, a candidate can be applied exactly if no path was changed (created,
  deleted or modified) both by it and in the destination, and then the merge is clean: for every
  path, applying the candidate's changes to the destination, and applying the destination's changes
  to the candidate, give the entry of the side that changed the path, and the entry of the base if
  neither did.  What \<open>Apply\<close> does to the files is another matter: see
  \<open>apply_installs_candidate_files\<close> and, for deleted directories, \<open>applied_deletion_removes_subtree\<close>.
\<close>

theorem can_apply_is_clean_merge:
  "(can_apply (Check base destination candidate) \<longleftrightarrow>
      \<not> (\<exists>p. by_path candidate p \<noteq> by_path base p \<and> by_path destination p \<noteq> by_path base p)) \<and>
   (can_apply (Check base destination candidate) \<longrightarrow>
      (\<forall>p. (let merged = (if by_path candidate p \<noteq> by_path base p then by_path candidate p
                          else if by_path destination p \<noteq> by_path base p then by_path destination p
                          else by_path base p) in
         patch (Compare base candidate) (by_path destination) p = merged \<and>
         patch (Compare base destination) (by_path candidate) p = merged)))"
proof -
  have "can_apply (Check base destination candidate) \<longleftrightarrow>
      \<not> (\<exists>p. by_path candidate p \<noteq> by_path base p \<and> by_path destination p \<noteq> by_path base p)"
    unfolding can_apply_iff by metis
  moreover have "patch (Compare base candidate) (by_path destination) p =
      (if by_path candidate p \<noteq> by_path base p then by_path candidate p
       else if by_path destination p \<noteq> by_path base p then by_path destination p else by_path base p) \<and>
      patch (Compare base destination) (by_path candidate) p =
      (if by_path candidate p \<noteq> by_path base p then by_path candidate p
       else if by_path destination p \<noteq> by_path base p then by_path destination p else by_path base p)"
    if "can_apply (Check base destination candidate)" for p
    using that [unfolded can_apply_iff, rule_format, of p] by (auto simp: patch_Compare)
  ultimately show ?thesis by (auto simp: Let_def)
qed

definition file_entry :: "string \<Rightarrow> string \<Rightarrow> Entry" where
  "file_entry p h = \<lparr>e_path = p, e_type = ''file'', e_mode = 420, e_size = 1, e_sha = h, e_link = []\<rparr>"

definition dir_entry :: "string \<Rightarrow> Entry" where
  "dir_entry p = \<lparr>e_path = p, e_type = ''directory'', e_mode = 493, e_size = 0, e_sha = [], e_link = []\<rparr>"

definition link_entry :: "string \<Rightarrow> string \<Rightarrow> Entry" where
  "link_entry p t = \<lparr>e_path = p, e_type = ''symlink'', e_mode = 511, e_size = 0, e_sha = [], e_link = t\<rparr>"

definition mk_manifest :: "Entry list \<Rightarrow> Manifest" where
  "mk_manifest es = \<lparr>m_version = 1, m_entries = es\<rparr>"

lemma by_path_mk: "by_path (mk_manifest es) p = find (\<lambda>e. e_path e = p) (rev es)"
  by (simp add: by_path_def last_binding_def mk_manifest_def)

lemmas entry_eval = by_path_mk file_entry_def dir_entry_def link_entry_def

theorem can_apply_is_clean_merge_witness:
  "patch (Compare (mk_manifest [file_entry ''a'' ''1'', file_entry ''b'' ''1'']) (mk_manifest [file_entry ''b'' ''1'']))
      (by_path (mk_manifest [file_entry ''a'' ''1'', file_entry ''b'' ''2''])) ''b'' = Some (file_entry ''b'' ''2'')"
proof -
  let ?b = "mk_manifest [file_entry ''a'' ''1'', file_entry ''b'' ''1'']"
  let ?d = "mk_manifest [file_entry ''a'' ''1'', file_entry ''b'' ''2'']" and ?c = "mk_manifest [file_entry ''b'' ''1'']"
  have "can_apply (Check ?b ?d ?c)" by (auto simp: can_apply_iff entry_eval)
  then have "patch (Compare ?b ?c) (by_path ?d) ''b'' =
      (if by_path ?c ''b'' \<noteq> by_path ?b ''b'' then by_path ?c ''b''
       else if by_path ?d ''b'' \<noteq> by_path ?b ''b'' then by_path ?d ''b'' else by_path ?b ''b'')"
    using can_apply_is_clean_merge [of ?b ?d ?c] unfolding Let_def by blast
  then show ?thesis by (simp add: entry_eval)
qed

subsection \<open>What an apply does to the file system\<close>

lemma wf_fs_ancestors:
  "wf_fs f \<Longrightarrow> fs_get f p = Some n \<Longrightarrow> prefix q p \<Longrightarrow> q \<noteq> [] \<Longrightarrow> fs_get f q \<noteq> None"
proof (induction p arbitrary: n rule: rev_induct)
  case (snoc x p)
  show ?case
  proof (cases "q = p @ [x]")
    case False
    then have "prefix q p" using snoc.prems(3) by (simp add: prefix_snoc)
    then have "p \<noteq> []" using snoc.prems(4) by auto
    have "(p @ [x], n) \<in> set f" using fs_get_Some_in snoc.prems(2) by blast
    then obtain m where "fs_get f p = Some (NDir m)"
      using snoc.prems(1) \<open>p \<noteq> []\<close> by (fastforce simp: wf_fs_def)
    then show ?thesis using snoc.IH snoc.prems(1,4) \<open>prefix q p\<close> by blast
  qed (use snoc.prems in simp)
qed simp

lemma Apply_frame:
  assumes "\<forall>c \<in> set (Compare b cand). clear_way f dr c" and "is_abs dr" and "Apply env f b d cand cr dr = (f', rep, r)"
  shows "(\<forall>q n. fs_get f q = Some n \<longrightarrow> (\<forall>c \<in> set (Compare b cand). \<not> hits dr c q) \<longrightarrow> fs_get f' q = Some n) \<and>
     (\<forall>q n. fs_get f q = None \<longrightarrow> fs_get f' q = Some n \<longrightarrow>
        stat_dir f (csegs dr) \<and> (\<exists>c \<in> set (Compare b cand). prefix q (target dr c)) \<and> q \<noteq> [])"
proof (cases "can_apply (Check b d cand) \<and> is_ok (validateRoots f cr dr)")
  case True
  then obtain e where "apply_changes env (by_path cand) cr dr f (apply_order (Compare b cand)) = (f', e)"
    using assms(3) by (auto simp: Apply_def Let_def is_ok_iff split: prod.splits)
  moreover have "\<forall>c \<in> set (apply_order (Compare b cand)). clear_way f dr c" using assms(1) by simp
  ultimately have fr: "no_new_links f f' \<and>
     (\<forall>q n. fs_get f q = Some n \<longrightarrow> (\<forall>c \<in> set (apply_order (Compare b cand)). \<not> hits dr c q) \<longrightarrow> fs_get f' q = Some n) \<and>
     (\<forall>q n. fs_get f q = None \<longrightarrow> fs_get f' q = Some n \<longrightarrow> (\<exists>c \<in> set (apply_order (Compare b cand)). prefix q (target dr c)) \<and> q \<noteq> [])"
    using apply_changes_frame assms(2) by blast
  then show ?thesis using True
    by (auto simp: validateRoots_def is_ok_iff split: if_splits)
next
  case False
  then have "f' = f" using assms(3)
    by (auto simp: Apply_def Let_def split: if_splits sum.splits prod.splits)
  then show ?thesis by simp
qed

text \<open>
  An apply changes only what the changes name: when no changed path runs through a symbolic link,
  whether or not it succeeds, every place outside the destination root is as before, and so is
  every node of the destination that no change names and that is not below a deleted path.
\<close>

theorem apply_confined:
  assumes "wf_fs f" and "plain_way f (csegs dr)" and "\<forall>c \<in> set (Compare b cand). clear_way f dr c" and "is_abs dr" and "Apply env f b d cand cr dr = (f', rep, r)"
  shows "(\<forall>q. \<not> prefix (csegs dr) q \<longrightarrow> fs_get f' q = fs_get f q) \<and>
     (\<forall>q n. fs_get f q = Some n \<longrightarrow> (\<forall>c \<in> set (Compare b cand). \<not> hits dr c q) \<longrightarrow> fs_get f' q = Some n)"
proof -
  note fr = Apply_frame [OF assms(3-5)]
  have "fs_get f' q = fs_get f q" if out: "\<not> prefix (csegs dr) q" for q
  proof (cases "fs_get f q")
    case (Some n)
    have "\<forall>c \<in> set (Compare b cand). \<not> hits dr c q" using out hits_inside by blast
    then have "fs_get f' q = Some n" using fr Some by blast
    then show ?thesis using Some by simp
  next
    case None
    have "fs_get f' q \<noteq> Some n" for n
    proof
      assume "fs_get f' q = Some n"
      then obtain c where c: "stat_dir f (csegs dr)" "prefix q (target dr c)" "q \<noteq> []"
        using fr None by blast
      have "prefix (csegs dr) (target dr c)" by (simp add: target_def)
      then have pre: "prefix q (csegs dr)" using out c(2) prefix_same_cases by blast
      then have "csegs dr \<noteq> []" using c(3) by auto
      then have "stat_node f (csegs dr) = fs_get f (csegs dr)"
        by (rule stat_node_plain_way [OF assms(2) csegs_no_dotdot [OF assms(4)]])
      then obtain k where "fs_get f (csegs dr) = Some k"
        using c(1) by (cases "fs_get f (csegs dr)") (auto simp: stat_dir_def)
      then show False using wf_fs_ancestors [OF assms(1)] pre c(3) None by blast
    qed
    then show ?thesis using None by (cases "fs_get f' q") auto
  qed
  with fr show ?thesis by blast
qed

text \<open>The demonstration: base \<open>d/x\<close>; the candidate deleted \<open>d\<close>; the destination added \<open>d/y\<close>.\<close>

definition demo_env :: apply_env where
  "demo_env = \<lparr>env_umask = 18, env_copy_fails = (\<lambda>_. False), env_remove_fails = (\<lambda>_. False)\<rparr>"

definition demo_fs :: fs where
  "demo_fs = [([''c''], NDir 493), ([''c'', ''new''], NFile 384 ''N''), ([''t''], NDir 493),
     ([''t'', ''d''], NDir 493), ([''t'', ''d'', ''x''], NFile 420 ''X''), ([''t'', ''d'', ''y''], NFile 420 ''Y'')]"

definition demo_base :: Manifest where
  "demo_base = mk_manifest [dir_entry ''d'', file_entry ''d/x'' ''1'']"

definition demo_dest :: Manifest where
  "demo_dest = mk_manifest [dir_entry ''d'', file_entry ''d/x'' ''1'', file_entry ''d/y'' ''2'']"

definition demo_cand :: Manifest where
  "demo_cand = mk_manifest [file_entry ''new'' ''3'']"

definition demo_result :: fs where
  "demo_result = [([''t'', ''new''], NFile 420 ''N''), ([''c''], NDir 493),
     ([''c'', ''new''], NFile 384 ''N''), ([''t''], NDir 493)]"

lemma demo_Compare: "Compare demo_base demo_cand =
    [\<lparr>ch_path = ''d'', ch_kind = Deleted, ch_before = Some (dir_entry ''d''), ch_after = None\<rparr>,
     \<lparr>ch_path = ''d/x'', ch_kind = Deleted, ch_before = Some (file_entry ''d/x'' ''1''), ch_after = None\<rparr>,
     \<lparr>ch_path = ''new'', ch_kind = Created, ch_before = None, ch_after = Some (file_entry ''new'' ''3'')\<rparr>]"
  by code_simp

lemma demo_Apply: "Apply demo_env demo_fs demo_base demo_dest demo_cand ''/c'' ''/t'' =
   (demo_result, Check demo_base demo_dest demo_cand, None)"
  by code_simp

lemma demo_fs_facts:
  "wf_fs demo_fs" "no_links demo_fs" "is_abs ''/t''" "is_abs ''/c''" "csegs ''/t'' = [''t'']" "csegs ''/c'' = [''c'']"
  by (auto simp: demo_fs_def wf_fs_def no_links_def fs_get_def seg_ok_def plain_seg_def csegs_def
      parse_path_def segs_def norm_segs_def norm_step_def is_abs_def)

theorem apply_confined_witness:
  "fs_get demo_result [''c'', ''new''] = fs_get demo_fs [''c'', ''new'']"
proof -
  have "\<forall>q. \<not> prefix (csegs ''/t'') q \<longrightarrow> fs_get demo_result q = fs_get demo_fs q"
    using apply_confined [OF demo_fs_facts(1) _ _ demo_fs_facts(3) demo_Apply] demo_fs_facts(2) by auto
  then show ?thesis by (simp add: demo_fs_facts)
qed

lemma apply_order_distinct:
  assumes "apply_order cs = xs @ c # ys" and "distinct (map ch_path cs)" and "x \<in> set xs \<union> set ys"
  shows "x \<in> set cs \<and> x \<noteq> c"
proof -
  have "distinct (apply_order cs)"
    using assms(2) by (simp add: apply_order_def distinct_map)
  then have "distinct (xs @ c # ys)" by (simp add: assms(1))
  moreover have "set (xs @ c # ys) = set cs" using assms(1) apply_order_set by metis
  ultimately show ?thesis using assms(3) by auto
qed

lemma candidate_untouched:
  assumes "\<forall>c \<in> set cs. clear_way f dr c" and "is_abs dr" and "is_abs cr" and "\<not> is_within cr dr" and "\<not> is_within dr cr"
    and "apply_changes env es cr dr f cs = (f', r)" and "prefix (csegs cr) q"
  shows "fs_get f' q = fs_get f q"
proof -
  note fr = apply_changes_frame [OF assms(1,2,6)]
  have dis: "\<not> prefix (csegs dr) (csegs cr)" "\<not> prefix (csegs cr) (csegs dr)"
    using assms(2-5) by (simp_all add: is_within_prefix)
  then have out: "\<not> prefix (csegs dr) q" using assms(7) prefix_same_cases by blast
  show ?thesis
  proof (cases "fs_get f q")
    case (Some n)
    then have "fs_get f' q = Some n" using fr out hits_inside by blast
    then show ?thesis using Some by simp
  next
    case None
    have "fs_get f' q \<noteq> Some n" for n
    proof
      assume "fs_get f' q = Some n"
      then obtain c where "prefix q (target dr c)" using fr None by blast
      then have "prefix (csegs cr) (csegs dr @ csegs (ch_path c))"
        using assms(7) unfolding target_def by (rule prefix_order.trans [rotated])
      moreover have "prefix (csegs dr) (csegs dr @ csegs (ch_path c))" by simp
      ultimately show False using dis prefix_same_cases by blast
    qed
    then show ?thesis using None by (cases "fs_get f' q") auto
  qed
qed

lemma copyEntry_file:
  assumes "plain_way f (csegs dst)" and "plain_way f (csegs cr @ csegs (e_path e))" and "is_abs dst" and "is_abs cr" and "e_type e = ''file''"
    and "copyEntry env f cr dst e = (f', None)"
  shows "\<exists>f1 k s. MkdirAll (env_umask env) 493 f (butlast (csegs dst)) = Some f1 \<and>
     fs_get f1 (csegs cr @ csegs (e_path e)) = Some (NFile k s) \<and>
     f' = fs_put (csegs dst) (NFile (e_mode e) s) f1"
proof -
  obtain src where src: "safeJoin cr (e_path e) = Inr src"
    using assms(6) by (cases "safeJoin cr (e_path e)") (auto simp: copyEntry_def)
  note j = safeJoin_Inr [OF assms(4) src]
  have dd: "dotdot \<notin> set (csegs dst)" using assms(3) by (rule csegs_no_dotdot)
  then have bl: "dotdot \<notin> set (butlast (csegs dst))" by (auto dest: in_set_butlastD)
  obtain f1 where m: "MkdirAll (env_umask env) 493 f (butlast (csegs dst)) = Some f1"
    using assms(5,6) src by (cases "MkdirAll (env_umask env) 493 f (butlast (csegs dst))")
      (auto simp: copyEntry_def)
  have new: "no_new_links f f1" using MkdirAll_grown [OF plain_way_butlast [OF assms(1)] bl m] by (rule grown_no_new_links)
  note pb = plain_way_new [OF new plain_way_butlast [OF assms(1)]]
  obtain k s where st: "stat_node f1 (csegs src) = Some (NFile k s)"
    using assms(5,6) src m
    by (cases "stat_node f1 (csegs src)"; cases "the (stat_node f1 (csegs src))")
      (auto simp: copyEntry_def)
  have "replace_file f1 (csegs dst) (e_mode e) s = Some f'"
    using assms(5,6) src m st
    by (cases "replace_file f1 (csegs dst) (e_mode e) s") (auto simp: copyEntry_def Let_def split: if_splits)
  then have "f' = fs_put (csegs dst) (NFile (e_mode e) s) f1"
    by (rule replace_file_put [OF pb dd])
  moreover have "fs_get f1 (csegs cr @ csegs (e_path e)) = Some (NFile k s)"
    using st stat_node_plain_way [OF _ csegs_no_dotdot [OF j(1)]] plain_way_new [OF new assms(2)] j(2,3) by simp
  ultimately show ?thesis using m by blast
qed

lemma apply_installs_step:
  assumes "\<forall>c \<in> set (Compare b cand). clear_way f dr c" and "plain_way f (csegs cr @ csegs (ch_path c))" and "is_abs dr" and "is_abs cr" and "\<not> is_within cr dr" and "\<not> is_within dr cr"
    and "Apply env f b d cand cr dr = (f', rep, None)"
    and "c \<in> set (Compare b cand)" and "ch_after c = Some e" and "e_type e = ''file''"
    and "\<forall>c' \<in> set (Compare b cand). c' \<noteq> c \<longrightarrow> \<not> hits dr c' (target dr c)"
  shows "\<exists>k s. fs_get f (csegs cr @ csegs (ch_path c)) = Some (NFile k s) \<and>
     fs_get f' (target dr c) = Some (NFile (e_mode e) s)"
proof -
  let ?es = "by_path cand"
  have e: "?es (ch_path c) = Some e" using Compare_after [OF assms(8)] assms(9) by simp
  then have ep: "e_path e = ch_path c" using last_binding_Some [of e_path "m_entries cand"] by (auto simp: by_path_def)
  have kind: "ch_kind c \<noteq> Deleted" using Compare_kind [OF assms(8)] e by simp
  have "c \<in> set (apply_order (Compare b cand))" using assms(8) by simp
  then obtain xs ys where ord: "apply_order (Compare b cand) = xs @ c # ys"
    using split_list by fast
  obtain f1 f2 where s1: "apply_changes env ?es cr dr f xs = (f1, None)"
    and s2: "apply_change env ?es cr dr f1 c = (f2, None)"
    and s3: "apply_changes env ?es cr dr f2 ys = (f', None)"
    by (rule apply_changes_split [OF Apply_success(1) [OF assms(7), unfolded ord]])
  have cx: "\<forall>c \<in> set xs. clear_way f dr c" and cy: "\<forall>c \<in> set ys. clear_way f dr c" and cc: "clear_way f dr c"
    using assms(1) ord apply_order_set [of "Compare b cand"] by auto
  have new1: "no_new_links f f1" using apply_changes_frame [OF cx assms(3) s1] by blast
  note cc1 = clear_way_new [OF new1 cc]
  obtain p where p: "safeJoin dr (ch_path c) = Inr p"
    using s2 by (cases "safeJoin dr (ch_path c)") (auto simp: apply_change_def)
  note j = safeJoin_Inr [OF assms(3) p]
  have t: "csegs p = target dr c" by (simp add: target_def j(2))
  have "copyEntry env f1 cr p e = (f2, None)"
    using s2 p kind e by (cases "ch_kind c") (auto simp: apply_change_def)
  moreover have w1: "plain_way f1 (csegs p)" using cc1 kind by (simp add: clear_way_def t)
  moreover have "plain_way f1 (csegs cr @ csegs (e_path e))" using plain_way_new [OF new1 assms(2)] by (simp add: ep)
  ultimately obtain g k s
    where g: "MkdirAll (env_umask env) 493 f1 (butlast (csegs p)) = Some g"
      and gs: "fs_get g (csegs cr @ csegs (e_path e)) = Some (NFile k s)"
      and f2: "f2 = fs_put (csegs p) (NFile (e_mode e) s) g"
    using copyEntry_file [OF _ _ j(1) assms(4,10)] by blast
  have "dotdot \<notin> set (butlast (csegs p))"
    using csegs_no_dotdot [OF j(1)] by (auto dest: in_set_butlastD)
  from MkdirAll_grown [OF plain_way_butlast [OF w1] this g] gs
  have "fs_get f1 (csegs cr @ csegs (e_path e)) = Some (NFile k s)"
    unfolding grown_def by (cases "fs_get f1 (csegs cr @ csegs (e_path e))") auto
  then have src: "fs_get f (csegs cr @ csegs (ch_path c)) = Some (NFile k s)"
    using candidate_untouched [OF cx assms(3-6) s1] by (simp add: ep)
  have "no_new_links f f2" using apply_change_frame [OF cc1 assms(3) s2] no_new_links_trans [OF new1] by blast
  then have "\<forall>c \<in> set ys. clear_way f2 dr c" using cy by (auto intro: clear_way_new)
  moreover have "fs_get f2 (target dr c) = Some (NFile (e_mode e) s)" by (simp add: f2 t)
  moreover have "\<forall>c' \<in> set ys. \<not> hits dr c' (target dr c)"
    using assms(11) apply_order_distinct [OF ord Compare_distinct] by blast
  ultimately have "fs_get f' (target dr c) = Some (NFile (e_mode e) s)"
    using apply_changes_frame [OF _ assms(3) s3] by blast
  with src show ?thesis by blast
qed



text \<open>
  Applying a deletion removes the whole subtree of the destination: after a successful
  apply nothing is left at or below a deleted path, files the destination gained since the base
  included, although the conflict check compares paths only and reported none.
\<close>

theorem applied_deletion_removes_subtree:
  assumes "\<forall>c \<in> set (Compare b cand). clear_way f dr c" and "is_abs dr" and "Apply env f b d cand cr dr = (f', rep, None)"
    and "c \<in> set (Compare b cand)" and "ch_kind c = Deleted" and "prefix (target dr c) q"
  shows "can_apply rep \<and> fs_get f' q = None"
proof -
  let ?es = "by_path cand"
  have "c \<in> set (apply_order (Compare b cand))" using assms(4) by simp
  then obtain xs ys where ord: "apply_order (Compare b cand) = xs @ c # ys"
    using split_list by fast
  obtain f1 f2 where s1: "apply_changes env ?es cr dr f xs = (f1, None)"
    and s2: "apply_change env ?es cr dr f1 c = (f2, None)"
    and s3: "apply_changes env ?es cr dr f2 ys = (f', None)"
    by (rule apply_changes_split [OF Apply_success(1) [OF assms(3), unfolded ord]])
  have cx: "\<forall>c \<in> set xs. clear_way f dr c" and cy: "\<forall>c \<in> set ys. clear_way f dr c" and cc: "clear_way f dr c"
    using assms(1) ord apply_order_set [of "Compare b cand"] by auto
  have new1: "no_new_links f f1" using apply_changes_frame [OF cx assms(2) s1] by blast
  have "plain_way f1 (butlast (target dr c))" using clear_way_new [OF new1 cc] assms(5) by (simp add: clear_way_def)
  note rm = RemoveAll_plain_way [OF this]
  obtain p where p: "safeJoin dr (ch_path c) = Inr p"
    using s2 by (cases "safeJoin dr (ch_path c)") (auto simp: apply_change_def)
  note j = safeJoin_Inr [OF assms(2) p]
  have "f2 = fs_remove (target dr c) f1"
    using s2 p assms(5) rm csegs_no_dotdot [OF j(1)] j(2)
    by (auto simp: apply_change_def target_def split: if_splits)
  then have "no_new_links f f2" "fs_get f2 q = None" using new1 assms(6) by (simp_all add: no_new_links_remove)
  moreover from this(1) have "\<forall>c \<in> set ys. clear_way f2 dr c" using cy by (auto intro: clear_way_new)
  ultimately have "fs_get f' q = None"
    using deletes_keep_absent [OF _ assms(2) apply_order_deletes_last [OF ord assms(5)] s3] by blast
  then show ?thesis using Apply_success(2,4) [OF assms(3)] by simp
qed

theorem applied_deletion_removes_subtree_witness:
  "can_apply (Check demo_base demo_dest demo_cand) \<and> fs_get demo_fs [''t'', ''d'', ''y''] \<noteq> None \<and>
   by_path demo_base ''d/y'' = None \<and> fs_get demo_result [''t'', ''d'', ''y''] = None"
proof -
  have "csegs ''d'' = [''d'']" by code_simp
  then have "can_apply (Check demo_base demo_dest demo_cand) \<and> fs_get demo_result [''t'', ''d'', ''y''] = None"
    by (intro applied_deletion_removes_subtree [OF _ demo_fs_facts(3) demo_Apply,
        of "\<lparr>ch_path = ''d'', ch_kind = Deleted, ch_before = Some (dir_entry ''d''), ch_after = None\<rparr>"])
      (simp_all add: demo_Compare target_def demo_fs_facts)
  then show ?thesis by (simp add: demo_fs_def fs_get_def demo_base_def entry_eval)
qed

subsection \<open>Symbolic links in the destination\<close>

text \<open>
  Confinement needs the hypothesis that no changed path runs through a symbolic link: when the
  destination has a symbolic link where the candidate has a directory, the conflict-free apply
  follows it and writes outside the destination root.
\<close>

definition link_base :: Manifest where
  "link_base = mk_manifest [link_entry ''x'' ''/etc'']"

definition link_cand :: Manifest where
  "link_cand = mk_manifest [dir_entry ''x'', file_entry ''x/f'' ''1'']"

definition link_fs :: fs where
  "link_fs = [([''etc''], NDir 493), ([''etc'', ''f''], NFile 420 ''old''),
     ([''c''], NDir 493), ([''c'', ''x''], NDir 493), ([''c'', ''x'', ''f''], NFile 420 ''new''),
     ([''t''], NDir 493), ([''t'', ''x''], NLink 511 ''/etc'')]"

theorem apply_follows_destination_symlink:
  "case Apply demo_env link_fs link_base link_base link_cand ''/c'' ''/t'' of
     (f', rep, err) \<Rightarrow> can_apply rep \<and> err = None \<and>
       fs_get f' [''etc'', ''f''] = Some (NFile 420 ''new'') \<and>
       fs_get f' [''t'', ''x''] = Some (NLink 511 ''/etc'')"
  by code_simp

end
