(* ===== verification/Checkpoint.thy ===== *)
theory Checkpoint
  imports Go_Base
begin

text \<open>
  \<open>internal/checkpoint\<close>: the dependency graph of the checkpoints of a multi-agent transaction, and
  the file it is stored in.  JSON encoding is the identity on graphs here, so the file is missing,
  unreadable, undecodable, or holds a graph; every operation reads the file, which sorts the
  nodes, and writes it back as a whole.  The depth-first \<open>visit\<close> terminates because the set of
  visited identifiers grows.
\<close>

datatype cstate = Pending | Running | Succeeded | RolledBack | Blocked | OtherState string

record Node =
  n_id :: string
  n_run :: string
  n_parents :: "string list"
  n_state :: cstate
  n_created :: int
  n_updated :: int

record Graph =
  g_version :: int
  g_nodes :: "Node list"

datatype gfile = Missing | Unreadable | Undecodable | Holds Graph

record Store =
  st_path :: string
  st_file :: gfile

datatype check_error =
    IdsRequired | InvalidState cstate | ReadFailed | DecodeFailed | AlreadyExists string
  | ParentMissing string | NodeMissing string | NotAllowed cstate cstate | ChildPending string
  | PathRequired | WriteFailed

subsection \<open>States\<close>

fun validState :: "cstate \<Rightarrow> bool" where
  "validState (OtherState _) = False"
| "validState _ = True"

definition allowedTransition :: "cstate \<Rightarrow> cstate \<Rightarrow> bool" where
  "allowedTransition a b =
     (if a = b then True
      else (case a of
              Pending \<Rightarrow> b = Running \<or> b = Blocked \<or> b = RolledBack
            | Running \<Rightarrow> b = Succeeded \<or> b = RolledBack \<or> b = Blocked
            | Succeeded \<Rightarrow> b = RolledBack
            | Blocked \<Rightarrow> False
            | RolledBack \<Rightarrow> False
            | OtherState _ \<Rightarrow> False))"

subsection \<open>Graphs\<close>

definition findNode :: "Graph \<Rightarrow> string \<Rightarrow> Node option" where
  "findNode g i = find (\<lambda>n. n_id n = i) (g_nodes g)"

definition indexOf :: "Graph \<Rightarrow> string \<Rightarrow> nat option" where
  "indexOf g i = index_where (\<lambda>n. n_id n = i) (g_nodes g)"

definition children :: "Graph \<Rightarrow> string \<Rightarrow> string list" where
  "children g i = sort (map n_id (filter (\<lambda>n. i \<in> set (n_parents n)) (g_nodes g)))"

definition ids :: "Graph \<Rightarrow> string set" where
  "ids g = n_id ` set (g_nodes g)"

text \<open>The recursive \<open>visit\<close>, on a list of identifiers to visit, with the seen set and the order so far.\<close>

function visit :: "Graph \<Rightarrow> string list \<Rightarrow> string list \<Rightarrow> string list \<Rightarrow> string list \<times> string list" where
  "visit g [] seen order = (seen, order)"
| "visit g (i # is) seen order =
     (if i \<in> set seen then visit g is seen order
      else (case visit g (children g i) (i # seen) order of
              (seen', order') \<Rightarrow> visit g is seen' (order' @ [i])))"
  by pat_completeness auto

lemma visit_seen:
  "visit_dom (g, xs, seen, order) \<Longrightarrow> set seen \<subseteq> set (fst (visit g xs seen order))"
proof (induction g xs seen order rule: visit.pinduct)
  case (2 g i xs seen order)
  show ?case
  proof (cases "i \<in> set seen")
    case False
    obtain s1 o1 where v: "visit g (children g i) (i # seen) order = (s1, o1)"
      by (cases "visit g (children g i) (i # seen) order")
    have "set (i # seen) \<subseteq> set s1" using "2.IH"(2) [OF False] v by simp
    moreover have "set s1 \<subseteq> set (fst (visit g xs s1 (o1 @ [i])))"
      using "2.IH"(3) [OF False v [symmetric]] by simp
    ultimately show ?thesis using False v "2.hyps" by (auto simp: visit.psimps)
  qed (use 2 in \<open>simp add: visit.psimps\<close>)
qed (simp add: visit.psimps)

lemma set_children: "set (children g i) = n_id ` {n \<in> set (g_nodes g). i \<in> set (n_parents n)}"
  by (auto simp: children_def)

lemma children_ids: "set (children g i) \<subseteq> ids g"
  by (auto simp: set_children ids_def)

lemma card_less: "finite U \<Longrightarrow> V \<subseteq> U \<Longrightarrow> x \<in> U \<Longrightarrow> x \<notin> V \<Longrightarrow> card V < card U"
  by (rule psubset_card_mono) auto

termination visit
proof (relation "measures [\<lambda>(g, xs, seen, order). card ((ids g \<union> set xs) - set seen), \<lambda>(g, xs, seen, order). length xs]",
    goal_cases)
  case (2 g i xs seen order)
  have "card ((ids g \<union> set xs) - set seen) \<le> card ((ids g \<union> set (i # xs)) - set seen)"
    by (rule card_mono) (auto simp: ids_def)
  then show ?case by auto
next
  case (3 g i xs seen order)
  have "card ((ids g \<union> set (children g i)) - set (i # seen)) < card ((ids g \<union> set (i # xs)) - set seen)"
    by (rule card_less [of _ _ i]) (use 3 children_ids [of g i] in \<open>auto simp: ids_def\<close>)
  then show ?case by simp
next
  case (4 g i xs seen order seen' order')
  have "set (i # seen) \<subseteq> set seen'"
    using visit_seen [OF 4(3)] by (simp flip: 4(2))
  then have "card ((ids g \<union> set xs) - set seen') < card ((ids g \<union> set (i # xs)) - set seen)"
    by (intro card_less [of _ _ i]) (use 4(1) in \<open>auto simp: ids_def\<close>)
  then show ?case by simp
qed simp

definition descendantOrder :: "Graph \<Rightarrow> string \<Rightarrow> string list" where
  "descendantOrder g root = snd (visit g [root] [] [])"

subsection \<open>The descendant order\<close>

definition edges :: "Graph \<Rightarrow> (string \<times> string) set" where
  "edges g = {(p, n_id n) | p n. n \<in> set (g_nodes g) \<and> p \<in> set (n_parents n)}"

lemma edges_alt: "edges g = (\<Union>n \<in> set (g_nodes g). (\<lambda>p. (p, n_id n)) ` set (n_parents n))"
  by (auto simp: edges_def)

lemma set_children_edges: "set (children g i) = edges g `` {i}"
  by (auto simp: set_children edges_def)

text \<open>Every identifier comes after all of its children.\<close>

definition children_before :: "Graph \<Rightarrow> string list \<Rightarrow> bool" where
  "children_before g ord = (\<forall>us i vs. ord = us @ i # vs \<longrightarrow> edges g `` {i} \<subseteq> set us)"

lemma children_before_Nil [simp]: "children_before g []"
  by (simp add: children_before_def)

lemma children_before_snoc:
  "children_before g (ord @ [x]) \<longleftrightarrow> children_before g ord \<and> edges g `` {x} \<subseteq> set ord"
proof
  assume l: "children_before g (ord @ [x])"
  then have "edges g `` {x} \<subseteq> set ord" by (simp add: children_before_def)
  moreover have "edges g `` {i} \<subseteq> set us" if "ord = us @ i # vs" for us i vs
    using l that by (simp add: children_before_def)
  ultimately show "children_before g ord \<and> edges g `` {x} \<subseteq> set ord"
    unfolding children_before_def by blast
next
  assume r: "children_before g ord \<and> edges g `` {x} \<subseteq> set ord"
  show "children_before g (ord @ [x])"
    unfolding children_before_def
  proof (intro allI impI)
    fix us i vs assume e: "ord @ [x] = us @ i # vs"
    show "edges g `` {i} \<subseteq> set us"
    proof (cases vs rule: rev_cases)
      case Nil
      with e r show ?thesis by simp
    next
      case (snoc ws y)
      with e have "ord = us @ i # ws" by simp
      with r show ?thesis unfolding children_before_def by blast
    qed
  qed
qed

text \<open>The state of the search: \<open>S\<close> is the set of identifiers whose visit is under way.\<close>

definition searching :: "Graph \<Rightarrow> string set \<Rightarrow> string list \<Rightarrow> string list \<Rightarrow> bool" where
  "searching g S seen ord =
     (set seen = set ord \<union> S \<and> distinct ord \<and> S \<inter> set ord = {} \<and> children_before g ord)"

lemma visit_invariant:
  assumes "acyclic (edges g)" and "searching g S seen ord"
    and "\<forall>s \<in> S. \<forall>i \<in> set xs. (s, i) \<in> (edges g)\<^sup>+" and "visit g xs seen ord = (seen', ord')"
  shows "searching g S seen' ord' \<and> set ord \<subseteq> set ord' \<and> set xs \<subseteq> set seen' \<and>
     (\<forall>x \<in> set ord'. x \<in> set ord \<or> (\<exists>i \<in> set xs. (i, x) \<in> (edges g)\<^sup>*))"
  using assms
proof (induction g xs seen ord arbitrary: S seen' ord' rule: visit.induct)
  case (2 g i xs seen ord)
  show ?case
  proof (cases "i \<in> set seen")
    case True
    then have "visit g xs seen ord = (seen', ord')" using "2.prems"(4) by simp
    from "2.IH"(1) [OF True "2.prems"(1,2) _ this] "2.prems"(2,3) True
    show ?thesis unfolding searching_def by auto
  next
    case False
    obtain s1 o1 where v: "visit g (children g i) (i # seen) ord = (s1, o1)"
      by (cases "visit g (children g i) (i # seen) ord")
    have rest: "visit g xs s1 (o1 @ [i]) = (seen', ord')" using "2.prems"(4) False v by simp
    have up: "(s, c) \<in> (edges g)\<^sup>+" if "s \<in> insert i S" "c \<in> set (children g i)" for s c
      using that "2.prems"(3) by (auto simp: set_children_edges intro: trancl_into_trancl)
    have sea: "searching g (insert i S) (i # seen) ord"
      using "2.prems"(2) False by (auto simp: searching_def)
    have c1: "searching g (insert i S) s1 o1" "set ord \<subseteq> set o1" "set (children g i) \<subseteq> set s1"
      "\<forall>x \<in> set o1. x \<in> set ord \<or> (\<exists>c \<in> set (children g i). (c, x) \<in> (edges g)\<^sup>*)"
      using "2.IH"(2) [OF False "2.prems"(1) sea _ v] up by blast+
    have "c \<notin> insert i S" if "c \<in> set (children g i)" for c
      using up [of c c] that "2.prems"(1) by (auto simp: acyclic_def)
    then have "set (children g i) \<subseteq> set o1" using c1(1,3) by (auto simp: searching_def)
    then have sea2: "searching g S s1 (o1 @ [i])"
      using c1(1) "2.prems"(2) False by (auto simp: searching_def children_before_snoc set_children_edges)
    have below: "(i, x) \<in> (edges g)\<^sup>*" if "x \<in> set (o1 @ [i])" "x \<notin> set ord" for x
      using that c1(4) by (auto simp: set_children_edges intro: converse_rtrancl_into_rtrancl)
    have "searching g S seen' ord' \<and> set (o1 @ [i]) \<subseteq> set ord' \<and> set xs \<subseteq> set seen' \<and>
        (\<forall>x \<in> set ord'. x \<in> set (o1 @ [i]) \<or> (\<exists>i \<in> set xs. (i, x) \<in> (edges g)\<^sup>*))"
      using "2.IH"(3) [OF False v [symmetric] "2.prems"(1) sea2 _ rest] "2.prems"(3) by simp
    then show ?thesis using below c1(2) by (auto simp: searching_def)
  qed
qed simp

lemma order_closed:
  assumes "children_before g ord" and "x \<in> set ord" and "(x, y) \<in> (edges g)\<^sup>*"
  shows "y \<in> set ord"
  using assms(3,2)
proof (induction rule: rtrancl_induct)
  case (step y z)
  then have "y \<in> set ord" by simp
  then obtain us vs where "ord = us @ y # vs" by (meson split_list)
  moreover from this have "z \<in> set us" using assms(1) step.hyps(2) unfolding children_before_def by blast
  ultimately show ?case by simp
qed

lemma children_before_prefix: "children_before g (us @ vs) \<Longrightarrow> children_before g us"
  unfolding children_before_def by (metis append.assoc append_Cons)

lemma order_descending:
  assumes "children_before g ord" and "distinct ord" and "ord = us @ x # vs" and "y \<in> set vs"
  shows "(x, y) \<notin> (edges g)\<^sup>+"
proof
  assume "(x, y) \<in> (edges g)\<^sup>+"
  then obtain z where z: "(x, z) \<in> edges g" "(z, y) \<in> (edges g)\<^sup>*" by (meson tranclD)
  then have "z \<in> set us" using assms(1,3) unfolding children_before_def by blast
  then have "y \<in> set us"
    using order_closed [OF children_before_prefix _ z(2)] assms(1,3) by blast
  with assms(2-4) show False by auto
qed

definition descends :: "Graph \<Rightarrow> string \<Rightarrow> string \<Rightarrow> bool" where
  "descends g a b = ((a, b) \<in> (edges g)\<^sup>*)"

lemma descendantOrder_ok:
  assumes "acyclic (edges g)"
  shows "distinct (descendantOrder g root) \<and> children_before g (descendantOrder g root) \<and>
     set (descendantOrder g root) = {x. descends g root x}"
proof -
  obtain seen ord where v: "visit g [root] [] [] = (seen, ord)" by (cases "visit g [root] [] []")
  have "searching g {} [] []" by (simp add: searching_def)
  from visit_invariant [OF assms this _ v] have
    "searching g {} seen ord" "root \<in> set ord" "\<forall>x \<in> set ord. (root, x) \<in> (edges g)\<^sup>*"
    by (auto simp: searching_def)
  then show ?thesis
    using v order_closed by (auto simp: descendantOrder_def searching_def descends_def)
qed

subsection \<open>The store\<close>

definition readLocked :: "Store \<Rightarrow> check_error + Graph" where
  "readLocked s =
     (if st_path s = [] then Inr \<lparr>g_version = 1, g_nodes = []\<rparr>
      else (case st_file s of
              Missing \<Rightarrow> Inr \<lparr>g_version = 1, g_nodes = []\<rparr>
            | Unreadable \<Rightarrow> Inl ReadFailed
            | Undecodable \<Rightarrow> Inl DecodeFailed
            | Holds g \<Rightarrow> Inr \<lparr>g_version = (if g_version g = 0 then 1 else g_version g),
                            g_nodes = sort_key n_id (g_nodes g)\<rparr>))"

text \<open>\<open>ok\<close>: creating, writing and renaming the temporary file all succeed.\<close>

definition writeLocked :: "bool \<Rightarrow> Store \<Rightarrow> Graph \<Rightarrow> Store \<times> check_error option" where
  "writeLocked ok s g =
     (if st_path s = [] then (s, Some PathRequired)
      else if \<not> ok then (s, Some WriteFailed)
      else (s\<lparr>st_file := Holds g\<rparr>, None))"

definition Open :: "gfile \<Rightarrow> string \<Rightarrow> Store" where
  "Open f p = \<lparr>st_path = trim_space p, st_file = f\<rparr>"

definition Snapshot :: "Store \<Rightarrow> check_error + Graph" where
  "Snapshot s = readLocked s"

definition Add :: "int \<Rightarrow> bool \<Rightarrow> Store \<Rightarrow> Node \<Rightarrow> Store \<times> check_error option" where
  "Add now ok s node0 =
     (if blank (n_id node0) \<or> blank (n_run node0) then (s, Some IdsRequired)
      else (let node = (if n_state node0 = OtherState [] then node0\<lparr>n_state := Pending\<rparr> else node0) in
        if \<not> validState (n_state node) then (s, Some (InvalidState (n_state node)))
        else (case readLocked s of
                Inl e \<Rightarrow> (s, Some e)
              | Inr g \<Rightarrow>
                  if list_ex (\<lambda>e. n_id e = n_id node) (g_nodes g) then (s, Some (AlreadyExists (n_id node)))
                  else (case find (\<lambda>p. findNode g p = None) (n_parents node) of
                          Some p \<Rightarrow> (s, Some (ParentMissing p))
                        | None \<Rightarrow> writeLocked ok s (g\<lparr>g_nodes := g_nodes g @
                                     [node\<lparr>n_created := now, n_updated := now\<rparr>]\<rparr>)))))"

definition Transition :: "int \<Rightarrow> bool \<Rightarrow> Store \<Rightarrow> string \<Rightarrow> cstate \<Rightarrow> Store \<times> check_error option" where
  "Transition now ok s i state =
     (if \<not> validState state then (s, Some (InvalidState state))
      else (case readLocked s of
              Inl e \<Rightarrow> (s, Some e)
            | Inr g \<Rightarrow>
                (case indexOf g i of
                   None \<Rightarrow> (s, Some (NodeMissing i))
                 | Some k \<Rightarrow>
                     if \<not> allowedTransition (n_state (g_nodes g ! k)) state
                     then (s, Some (NotAllowed (n_state (g_nodes g ! k)) state))
                     else (case (if state = Succeeded
                                 then find (\<lambda>c. i \<in> set (n_parents c) \<and> n_state c = Pending) (g_nodes g) else None) of
                             Some c \<Rightarrow> (s, Some (ChildPending (n_id c)))
                           | None \<Rightarrow> writeLocked ok s (g\<lparr>g_nodes := (g_nodes g)[k :=
                                       (g_nodes g ! k)\<lparr>n_state := state, n_updated := now\<rparr>]\<rparr>)))))"

fun roll_nodes :: "int \<Rightarrow> Graph \<Rightarrow> string list \<Rightarrow> check_error + Graph" where
  "roll_nodes now g [] = Inr g"
| "roll_nodes now g (i # is) =
     (case indexOf g i of
        None \<Rightarrow> roll_nodes now g is
      | Some k \<Rightarrow>
          let n = g_nodes g ! k in
          if n_state n = RolledBack then roll_nodes now g is
          else if \<not> allowedTransition (n_state n) RolledBack then Inl (NotAllowed (n_state n) RolledBack)
          else roll_nodes now (g\<lparr>g_nodes := (g_nodes g)[k := n\<lparr>n_state := RolledBack, n_updated := now\<rparr>]\<rparr>) is)"

definition Rollback :: "int \<Rightarrow> bool \<Rightarrow> Store \<Rightarrow> string \<Rightarrow> Store \<times> check_error option" where
  "Rollback now ok s i =
     (case readLocked s of
        Inl e \<Rightarrow> (s, Some e)
      | Inr g \<Rightarrow>
          if findNode g i = None then (s, Some (NodeMissing i))
          else (case roll_nodes now g (descendantOrder g i) of
                  Inl e \<Rightarrow> (s, Some e)
                | Inr g' \<Rightarrow> writeLocked ok s g'))"

subsection \<open>Well-formed graphs\<close>

definition wf_graph :: "Graph \<Rightarrow> bool" where
  "wf_graph g = (distinct (map n_id (g_nodes g)) \<and> acyclic (edges g) \<and>
     (\<forall>n \<in> set (g_nodes g). set (n_parents n) \<subseteq> ids g \<and> validState (n_state n)))"

definition wf_store :: "Store \<Rightarrow> bool" where
  "wf_store s = (case st_file s of Holds g \<Rightarrow> wf_graph g | _ \<Rightarrow> True)"

lemma edges_cong: "set (g_nodes g) = set (g_nodes h) \<Longrightarrow> edges g = edges h"
  by (simp add: edges_def)

lemma wf_empty: "wf_graph \<lparr>g_version = v, g_nodes = []\<rparr>"
  by (simp add: wf_graph_def edges_def acyclic_def)

lemma distinct_map_sort_key: "distinct (map k (sort_key k xs)) = distinct (map k xs)"
  by (simp add: distinct_map)

lemma read_wf: "wf_store s \<Longrightarrow> readLocked s = Inr g \<Longrightarrow> wf_graph g"
proof -
  assume wf: "wf_store s" and r: "readLocked s = Inr g"
  show ?thesis
  proof (cases "st_path s \<noteq> [] \<and> (\<exists>h. st_file s = Holds h)")
    case True
    then obtain h where h: "st_file s = Holds h" "g = \<lparr>g_version = (if g_version h = 0 then 1 else g_version h),
        g_nodes = sort_key n_id (g_nodes h)\<rparr>"
      using r by (auto simp: readLocked_def)
    moreover have "edges g = edges h" "ids g = ids h" using h(2) by (auto simp: edges_def ids_def)
    ultimately show ?thesis
      using wf by (simp add: wf_store_def wf_graph_def distinct_map_sort_key)
  next
    case False
    then have "g_nodes g = []" using r by (auto simp: readLocked_def split: if_splits gfile.splits)
    then show ?thesis by (simp add: wf_graph_def edges_def acyclic_def)
  qed
qed

lemma write_cases:
  "writeLocked ok s g = (s', r) \<Longrightarrow> (r = None \<and> s' = s\<lparr>st_file := Holds g\<rparr> \<and> ok \<and> st_path s \<noteq> []) \<or> (r \<noteq> None \<and> s' = s)"
  by (auto simp: writeLocked_def split: if_splits)

text \<open>Changing states keeps a graph well-formed.\<close>

lemma wf_restate:
  assumes "wf_graph g" and "\<And>n. n_id (f n) = n_id n \<and> n_parents (f n) = n_parents n"
    and "\<And>n. validState (n_state n) \<Longrightarrow> validState (n_state (f n))"
  shows "wf_graph (g\<lparr>g_nodes := map f (g_nodes g)\<rparr>) \<and> edges (g\<lparr>g_nodes := map f (g_nodes g)\<rparr>) = edges g"
proof -
  have e: "edges (g\<lparr>g_nodes := map f (g_nodes g)\<rparr>) = edges g"
    using assms(2) by (auto simp: edges_def) (metis image_eqI)
  have i: "map n_id (map f (g_nodes g)) = map n_id (g_nodes g)" using assms(2) by simp
  have "ids (g\<lparr>g_nodes := map f (g_nodes g)\<rparr>) = ids g"
    using assms(2) by (simp add: ids_def image_image)
  with e i assms show ?thesis unfolding wf_graph_def by (auto simp: o_def)
qed

lemma findNode_None: "findNode g i = None \<longleftrightarrow> i \<notin> ids g"
  by (auto simp: findNode_def ids_def find_None_iff)

lemma wf_add:
  assumes "wf_graph g" and "n_id node \<notin> ids g" and "set (n_parents node) \<subseteq> ids g" and "validState (n_state node)"
  shows "wf_graph (g\<lparr>g_nodes := g_nodes g @ [node]\<rparr>)"
proof -
  let ?g = "g\<lparr>g_nodes := g_nodes g @ [node]\<rparr>"
  have e: "edges ?g = edges g \<union> (\<lambda>p. (p, n_id node)) ` set (n_parents node)" by (auto simp: edges_def)
  have no_out: "(n_id node, y) \<notin> edges ?g" for y
    using assms by (auto simp: e) (auto simp: edges_def wf_graph_def)
  have "acyclic (edges ?g)"
    unfolding acyclic_def
  proof (intro allI notI)
    fix x assume c: "(x, x) \<in> (edges ?g)\<^sup>+"
    have nx: "x \<noteq> n_id node" using c no_out by (metis tranclD)
    have "(x, y) \<in> (edges g)\<^sup>+ \<or> y = n_id node" if "(x, y) \<in> (edges ?g)\<^sup>+" for y
      using that
    proof (induction rule: trancl_induct)
      case (base y)
      then show ?case by (auto simp: e)
    next
      case (step y z)
      then have "y \<noteq> n_id node" using no_out by blast
      with step show ?case by (auto simp: e intro: trancl_into_trancl)
    qed
    then have "(x, x) \<in> (edges g)\<^sup>+" using c nx by blast
    with assms(1) show False by (simp add: wf_graph_def acyclic_def)
  qed
  moreover have "ids ?g = insert (n_id node) (ids g)" by (simp add: ids_def)
  ultimately show ?thesis using assms by (auto simp: wf_graph_def ids_def)
qed

text \<open>Rolling back the nodes of a set.\<close>

definition roll_if :: "int \<Rightarrow> string set \<Rightarrow> Node \<Rightarrow> Node" where
  "roll_if now I n = (if n_id n \<in> I \<and> n_state n \<noteq> RolledBack
                      then n\<lparr>n_state := RolledBack, n_updated := now\<rparr> else n)"

lemma roll_if_simps [simp]:
  "n_id (roll_if now I n) = n_id n" "n_parents (roll_if now I n) = n_parents n" "n_run (roll_if now I n) = n_run n"
  "roll_if now {} n = n" "roll_if now I (roll_if now J n) = roll_if now (I \<union> J) n"
  by (auto simp: roll_if_def)

definition rollable :: "Node \<Rightarrow> bool" where
  "rollable n = allowedTransition (n_state n) RolledBack"

lemma rollable_iff: "rollable n \<longleftrightarrow> n_state n \<in> {Pending, Running, Succeeded, RolledBack}"
  by (cases "n_state n") (auto simp: rollable_def allowedTransition_def)

lemma roll_if_rollable: "rollable n \<Longrightarrow> rollable (roll_if now I n)"
  by (simp add: roll_if_def rollable_iff)

lemma roll_nodes_result:
  assumes "distinct (map n_id (g_nodes g))"
  shows "roll_nodes now g is = Inr g' \<Longrightarrow> g' = g\<lparr>g_nodes := map (roll_if now (set is)) (g_nodes g)\<rparr>"
    and "is_ok (roll_nodes now g is) \<longleftrightarrow> (\<forall>n \<in> set (g_nodes g). n_id n \<in> set is \<longrightarrow> rollable n)"
proof -
  have "(\<forall>g'. roll_nodes now g is = Inr g' \<longrightarrow> g' = g\<lparr>g_nodes := map (roll_if now (set is)) (g_nodes g)\<rparr>) \<and>
      (is_ok (roll_nodes now g is) \<longleftrightarrow> (\<forall>n \<in> set (g_nodes g). n_id n \<in> set is \<longrightarrow> rollable n))"
    using assms
  proof (induction "is" arbitrary: g)
    case Nil
    have "map (roll_if now {}) (g_nodes g) = g_nodes g" by (simp add: map_idI)
    then show ?case by simp
  next
    case (Cons i "is")
    show ?case
    proof (cases "indexOf g i")
      case None
      then have no: "\<forall>n \<in> set (g_nodes g). n_id n \<noteq> i" by (simp add: indexOf_def index_where_None)
      then have "map (roll_if now (insert i (set is))) (g_nodes g) = map (roll_if now (set is)) (g_nodes g)"
        by (auto simp: roll_if_def)
      with None Cons.IH [OF Cons.prems] no show ?thesis by auto
    next
      case (Some k)
      then have k: "k < length (g_nodes g)" "n_id (g_nodes g ! k) = i"
        by (auto simp: indexOf_def dest: index_where_Some)
      define n where "n = g_nodes g ! k"
      have n: "n \<in> set (g_nodes g)" "n_id n = i" using k by (simp_all add: n_def)
      have only: "m = n" if "m \<in> set (g_nodes g)" "n_id m = i" for m
        using Cons.prems n that by (auto simp: distinct_map inj_on_def)
      have one: "(g_nodes g)[k := roll_if now {i} n] = map (roll_if now {i}) (g_nodes g)"
        using list_update_as_map [OF Cons.prems k(1), of "roll_if now {i}"] k(2)
        by (auto simp: n_def roll_if_def intro!: map_cong)
      let ?h = "g\<lparr>g_nodes := map (roll_if now {i}) (g_nodes g)\<rparr>"
      have step: "roll_nodes now g (i # is) = (if rollable n then roll_nodes now ?h is
          else Inl (NotAllowed (n_state n) RolledBack))"
      proof (cases "n_state n = RolledBack")
        case True
        have "map (roll_if now {i}) (g_nodes g) = g_nodes g"
          by (rule map_idI) (use True only in \<open>auto simp: roll_if_def\<close>)
        then show ?thesis using Some True by (simp add: n_def rollable_iff)
      next
        case False
        then have "n\<lparr>n_state := RolledBack, n_updated := now\<rparr> = roll_if now {i} n" using n by (simp add: roll_if_def)
        then show ?thesis using Some False one by (simp add: n_def [symmetric] rollable_def Let_def)
      qed
      have dh: "distinct (map n_id (g_nodes ?h))" using Cons.prems by (simp add: o_def)
      have comp: "map (roll_if now (set is)) (g_nodes ?h) = map (roll_if now (insert i (set is))) (g_nodes g)"
        by simp
      show ?thesis
      proof (cases "rollable n")
        case True
        have "rollable (roll_if now {i} m) = rollable m" if "m \<in> set (g_nodes g)" for m
          using only [OF that] True by (auto simp: roll_if_def rollable_iff)
        then have same: "(\<forall>m \<in> set (g_nodes ?h). n_id m \<in> set is \<longrightarrow> rollable m) \<longleftrightarrow>
            (\<forall>m \<in> set (g_nodes g). n_id m \<in> set (i # is) \<longrightarrow> rollable m)"
          using only True by fastforce
        have "roll_nodes now g (i # is) = roll_nodes now ?h is" using step True by simp
        then show ?thesis
          using Cons.IH [OF dh] unfolding same comp by simp
      next
        case False
        then have "roll_nodes now g (i # is) = Inl (NotAllowed (n_state n) RolledBack)" using step by simp
        then show ?thesis using n False by (simp add: bexI [of _ n])
      qed
    qed
  qed
  then show "roll_nodes now g is = Inr g' \<Longrightarrow> g' = g\<lparr>g_nodes := map (roll_if now (set is)) (g_nodes g)\<rparr>"
    and "is_ok (roll_nodes now g is) \<longleftrightarrow> (\<forall>n \<in> set (g_nodes g). n_id n \<in> set is \<longrightarrow> rollable n)" by blast+
qed

subsection \<open>Properties\<close>

lemma Add_wf: "wf_store s \<Longrightarrow> Add now ok s node = (s', r) \<Longrightarrow> wf_store s'"
proof -
  assume wf: "wf_store s" and a: "Add now ok s node = (s', r)"
  show ?thesis
  proof (cases "s' = s")
    case False
    define m where "m = (if n_state node = OtherState [] then node\<lparr>n_state := Pending\<rparr> else node)"
    obtain g where g: "readLocked s = Inr g" "validState (n_state m)"
        "\<not> list_ex (\<lambda>e. n_id e = n_id m) (g_nodes g)" "find (\<lambda>p. findNode g p = None) (n_parents m) = None"
      and w: "writeLocked ok s (g\<lparr>g_nodes := g_nodes g @ [m\<lparr>n_created := now, n_updated := now\<rparr>]\<rparr>) = (s', r)"
      using a False unfolding Add_def Let_def m_def [symmetric]
      by (auto split: if_splits sum.splits option.splits)
    have "wf_graph (g\<lparr>g_nodes := g_nodes g @ [m\<lparr>n_created := now, n_updated := now\<rparr>]\<rparr>)"
    proof (rule wf_add [OF read_wf [OF wf g(1)]])
      show "n_id (m\<lparr>n_created := now, n_updated := now\<rparr>) \<notin> ids g"
        using g(3) by (auto simp: ids_def list_ex_iff)
      show "set (n_parents (m\<lparr>n_created := now, n_updated := now\<rparr>)) \<subseteq> ids g"
        using g(4) by (auto simp: find_None_iff findNode_None)
    qed (simp add: g(2))
    with write_cases [OF w] False show ?thesis by (auto simp: wf_store_def)
  qed (use wf in simp)
qed

lemma Transition_wf: "wf_store s \<Longrightarrow> Transition now ok s i st = (s', r) \<Longrightarrow> wf_store s'"
proof -
  assume wf: "wf_store s" and a: "Transition now ok s i st = (s', r)"
  show ?thesis
  proof (cases "s' = s")
    case False
    obtain g k where g: "readLocked s = Inr g" "indexOf g i = Some k" "validState st"
      and w: "writeLocked ok s (g\<lparr>g_nodes := (g_nodes g)[k := (g_nodes g ! k)\<lparr>n_state := st, n_updated := now\<rparr>]\<rparr>) = (s', r)"
      using a False unfolding Transition_def by (auto split: if_splits sum.splits option.splits)
    let ?f = "\<lambda>n. if n_id n = n_id (g_nodes g ! k) then n\<lparr>n_state := st, n_updated := now\<rparr> else n"
    have k: "k < length (g_nodes g)" using g(2) by (auto simp: indexOf_def dest: index_where_Some)
    have wg: "wf_graph g" using read_wf [OF wf g(1)] .
    then have "(g_nodes g)[k := (g_nodes g ! k)\<lparr>n_state := st, n_updated := now\<rparr>] = map ?f (g_nodes g)"
      using list_update_as_map [OF _ k, of n_id "\<lambda>n. n\<lparr>n_state := st, n_updated := now\<rparr>"] by (simp add: wf_graph_def)
    moreover have "wf_graph (g\<lparr>g_nodes := map ?f (g_nodes g)\<rparr>)"
      using wf_restate [OF wg, of ?f] g(3) by simp
    ultimately show ?thesis using write_cases [OF w] False by (auto simp: wf_store_def)
  qed (use wf in simp)
qed

lemma Rollback_graph:
  assumes "wf_store s" and "Rollback now ok s i = (s', r)" and "readLocked s = Inr g" and "i \<in> ids g"
    and "st_path s \<noteq> []" and "ok"
  shows "(r = None \<longleftrightarrow> (\<forall>n \<in> set (g_nodes g). descends g i (n_id n) \<longrightarrow> n_state n \<noteq> Blocked)) \<and>
     s' = (if r = None then s\<lparr>st_file := Holds (g\<lparr>g_nodes := map (roll_if now {x. descends g i x}) (g_nodes g)\<rparr>)\<rparr> else s)"
proof -
  have wg: "wf_graph g" using read_wf [OF assms(1,3)] .
  then have d: "distinct (map n_id (g_nodes g))" "acyclic (edges g)" by (simp_all add: wf_graph_def)
  let ?o = "descendantOrder g i"
  have o: "set ?o = {x. descends g i x}" using descendantOrder_ok [OF d(2)] by blast
  have valid: "rollable n \<longleftrightarrow> n_state n \<noteq> Blocked" if "n \<in> set (g_nodes g)" for n
    using wg that by (cases "n_state n") (auto simp: rollable_iff wf_graph_def)
  have ok: "is_ok (roll_nodes now g ?o) \<longleftrightarrow> (\<forall>n \<in> set (g_nodes g). descends g i (n_id n) \<longrightarrow> n_state n \<noteq> Blocked)"
    using roll_nodes_result(2) [OF d(1), of now ?o] valid by (simp add: o)
  have f: "findNode g i \<noteq> None" using assms(4) by (simp add: findNode_None)
  show ?thesis
  proof (cases "roll_nodes now g ?o")
    case (Inl e)
    then have "\<not> is_ok (roll_nodes now g ?o)" by simp
    with ok show ?thesis using assms(2,3) f Inl by (auto simp: Rollback_def)
  next
    case (Inr g')
    then have "is_ok (roll_nodes now g ?o)" by simp
    moreover have "g' = g\<lparr>g_nodes := map (roll_if now {x. descends g i x}) (g_nodes g)\<rparr>"
      using roll_nodes_result(1) [OF d(1) Inr] by (simp add: o)
    ultimately show ?thesis using assms(2,3,5,6) f Inr ok by (auto simp: Rollback_def writeLocked_def)
  qed
qed

lemma Rollback_wf: "wf_store s \<Longrightarrow> Rollback now ok s i = (s', r) \<Longrightarrow> wf_store s'"
proof -
  assume wf: "wf_store s" and a: "Rollback now ok s i = (s', r)"
  show ?thesis
  proof (cases "s' = s")
    case False
    obtain g g' where g: "readLocked s = Inr g" "roll_nodes now g (descendantOrder g i) = Inr g'"
      and w: "writeLocked ok s g' = (s', r)"
      using a False unfolding Rollback_def by (auto split: if_splits sum.splits)
    have wg: "wf_graph g" using read_wf [OF wf g(1)] .
    then have "g' = g\<lparr>g_nodes := map (roll_if now (set (descendantOrder g i))) (g_nodes g)\<rparr>"
      using roll_nodes_result(1) [OF _ g(2)] by (simp add: wf_graph_def)
    moreover have "wf_graph (g\<lparr>g_nodes := map (roll_if now (set (descendantOrder g i))) (g_nodes g)\<rparr>)"
      using wf_restate [OF wg, of "roll_if now (set (descendantOrder g i))"] by (simp add: roll_if_def)
    ultimately show ?thesis using write_cases [OF w] False by (auto simp: wf_store_def)
  qed (use wf in simp)
qed

text \<open>
  C26. The stored graph stays well-formed: identifiers are distinct, parents exist, there is no
  cycle, and states are valid; \<open>Add\<close>, \<open>Transition\<close> and \<open>Rollback\<close> keep this, also when they fail.
\<close>

theorem checkpoint_graph_invariant:
  assumes "wf_store s"
    and "Add now ok s node = (s', r) \<or> Transition now ok s i state = (s', r) \<or> Rollback now ok s i = (s', r)"
  shows "wf_store s'"
  using assms(2) Add_wf [OF assms(1)] Transition_wf [OF assms(1)] Rollback_wf [OF assms(1)] by auto

definition demo_node :: "string \<Rightarrow> string list \<Rightarrow> cstate \<Rightarrow> Node" where
  "demo_node i ps st = \<lparr>n_id = i, n_run = ''r'', n_parents = ps, n_state = st, n_created = 0, n_updated = 0\<rparr>"

definition demo_store :: "Node list \<Rightarrow> Store" where
  "demo_store ns = \<lparr>st_path = ''g.json'', st_file = Holds \<lparr>g_version = 1, g_nodes = ns\<rparr>\<rparr>"

definition demo_nodes :: "Node list" where
  "demo_nodes = [demo_node ''a'' [] Succeeded, demo_node ''b'' [''a''] Running, demo_node ''c'' [''a''] Pending,
     demo_node ''d'' [''b'', ''c''] Pending, demo_node ''e'' [] Running]"

lemma demo_edges: "edges \<lparr>g_version = 1, g_nodes = demo_nodes\<rparr> =
    {(''a'', ''b''), (''a'', ''c''), (''b'', ''d''), (''c'', ''d'')}"
  unfolding edges_alt by (auto simp: demo_nodes_def demo_node_def)

lemma demo_wf: "wf_store (demo_store demo_nodes)"
proof -
  have "acyclic (edges \<lparr>g_version = 1, g_nodes = demo_nodes\<rparr>)"
    unfolding demo_edges by (simp add: acyclic_insert) (auto simp: acyclic_def [of "{}"] rtrancl_eq_or_trancl elim: tranclE)
  then show ?thesis
    by (simp add: wf_store_def demo_store_def wf_graph_def ids_def) (simp add: demo_nodes_def demo_node_def)
qed

theorem checkpoint_graph_invariant_witness:
  "wf_store (fst (Rollback 7 True (demo_store demo_nodes) ''a''))"
proof -
  obtain s' r where "Rollback 7 True (demo_store demo_nodes) ''a'' = (s', r)" by fastforce
  with checkpoint_graph_invariant [OF demo_wf disjI2 [OF disjI2 [OF this]]] show ?thesis by simp
qed

text \<open>
  The rollback order is a reverse topological order of the descendants: in a graph without
  cycles it lists the node and all its descendants, each once, the node last, and no node before
  one of its descendants.
\<close>

theorem descendant_order_reverse_topological:
  assumes "acyclic (edges g)"
  shows "distinct (descendantOrder g root) \<and> set (descendantOrder g root) = {x. descends g root x} \<and>
     (\<forall>us x vs. descendantOrder g root = us @ x # vs \<longrightarrow> (\<forall>y \<in> set vs. \<not> descends g x y)) \<and>
     last (descendantOrder g root) = root"
proof -
  let ?o = "descendantOrder g root"
  note ok = descendantOrder_ok [OF assms, of root]
  have no: "\<not> descends g x y" if "?o = us @ x # vs" "y \<in> set vs" for us x vs y
  proof -
    have "(x, y) \<notin> (edges g)\<^sup>+" using order_descending [OF _ _ that] ok by blast
    moreover have "x \<noteq> y" using that ok by auto
    ultimately show ?thesis by (simp add: descends_def rtrancl_eq_or_trancl)
  qed
  have "root \<in> set ?o" using ok by (simp add: descends_def)
  then obtain us vs where o: "?o = us @ root # vs" by (meson split_list)
  have "vs = []"
  proof (rule ccontr)
    assume "vs \<noteq> []"
    then have "hd vs \<in> set vs" "hd vs \<in> set ?o" using o by simp_all
    with ok no [OF o] show False by blast
  qed
  with ok no o show ?thesis by auto
qed

theorem descendant_order_reverse_topological_witness:
  "set (descendantOrder \<lparr>g_version = 1, g_nodes = demo_nodes\<rparr> ''a'') =
     {x. descends \<lparr>g_version = 1, g_nodes = demo_nodes\<rparr> ''a'' x}"
proof -
  have "acyclic (edges \<lparr>g_version = 1, g_nodes = demo_nodes\<rparr>)"
    using demo_wf by (simp add: wf_store_def demo_store_def wf_graph_def)
  from descendant_order_reverse_topological [OF this] show ?thesis by blast
qed

text \<open>
  A rollback is all or nothing on the subtree: with a writable file it succeeds exactly if no
  descendant is blocked; then every descendant is rolled back and every other node is unchanged;
  otherwise the file is unchanged.
\<close>

theorem checkpoint_rollback_subtree:
  assumes "wf_store s" and "st_path s \<noteq> []" and "readLocked s = Inr g" and "i \<in> ids g"
    and "Rollback now True s i = (s', r)"
  shows "(r = None \<longleftrightarrow> (\<forall>n \<in> set (g_nodes g). descends g i (n_id n) \<longrightarrow> n_state n \<noteq> Blocked)) \<and>
     (r \<noteq> None \<longrightarrow> s' = s) \<and>
     (r = None \<longrightarrow> (\<exists>g'. st_file s' = Holds g' \<and> list_all2 (\<lambda>n n'. n_id n' = n_id n \<and> n_parents n' = n_parents n \<and>
        n_run n' = n_run n \<and> (if descends g i (n_id n) then n_state n' = RolledBack else n' = n)) (g_nodes g) (g_nodes g')))"
proof -
  note rg = Rollback_graph [OF assms(1,5,3,4,2)]
  have "list_all2 (\<lambda>n n'. n_id n' = n_id n \<and> n_parents n' = n_parents n \<and> n_run n' = n_run n \<and>
      (if descends g i (n_id n) then n_state n' = RolledBack else n' = n))
      (g_nodes g) (map (roll_if now {x. descends g i x}) (g_nodes g))"
    by (simp add: list_all2_conv_all_nth) (auto simp: roll_if_def)
  with rg show ?thesis by auto
qed

theorem checkpoint_rollback_subtree_witness:
  "\<exists>s'. Rollback 7 True (demo_store demo_nodes) ''a'' = (s', None)"
proof -
  let ?g = "\<lparr>g_version = 1, g_nodes = demo_nodes\<rparr>"
  obtain s' r where r: "Rollback 7 True (demo_store demo_nodes) ''a'' = (s', r)" by fastforce
  have g: "readLocked (demo_store demo_nodes) = Inr ?g" by code_simp
  have "''a'' \<in> ids ?g" "st_path (demo_store demo_nodes) \<noteq> []"
    "\<forall>n \<in> set (g_nodes ?g). n_state n \<noteq> Blocked"
    by (simp_all add: ids_def demo_nodes_def demo_node_def demo_store_def)
  with checkpoint_rollback_subtree [OF demo_wf _ g _ r] have "r = None" by blast
  with r show ?thesis by blast
qed

text \<open>
  \<open>Transition\<close> does not keep a discarded parent from having live children: it takes a
  succeeded parent to rolled back while its child is still running.
\<close>

theorem transition_strands_children:
  "Transition 7 True (demo_store demo_nodes) ''a'' RolledBack =
     (demo_store ((demo_node ''a'' [] RolledBack)\<lparr>n_updated := 7\<rparr> # tl demo_nodes), None) \<and>
   demo_node ''b'' [''a''] Running \<in> set (tl demo_nodes)"
  by code_simp

end
