(* ===== verification/Go_Glob.thy ===== *)
theory Go_Glob
  imports Go_Base
begin

text \<open>
  Go's \<open>path.Match\<close>, which the policy engine applies to one path segment at a time: \<open>*\<close>
  matches any run of bytes other than a slash, \<open>?\<close> one rune, \<open>[...]\<close> a class of runes, a
  backslash quotes.  The scan into chunks, the matching of one chunk, the search behind a star
  and the check that the rest of the pattern is well formed follow the library.  \<open>None\<close> is
  \<open>ErrBadPattern\<close>.
\<close>

definition byte_val :: "char \<Rightarrow> nat" where
  "byte_val c = of_char c"

definition is_cont :: "char \<Rightarrow> bool" where
  "is_cont c = (128 \<le> byte_val c \<and> byte_val c < 192)"

text \<open>\<open>utf8.DecodeRuneInString\<close>: the rune and its width; an invalid byte has width one.\<close>

definition decode_rune :: "string \<Rightarrow> nat \<times> nat" where
  "decode_rune s =
     (case s of
        [] \<Rightarrow> (65533, 0)
      | a # r \<Rightarrow>
          (let v = byte_val a in
           if v < 128 then (v, 1)
           else (case r of
             [] \<Rightarrow> (65533, 1)
           | b # r2 \<Rightarrow>
               if \<not> is_cont b then (65533, 1)
               else if 194 \<le> v \<and> v < 224 then ((v - 192) * 64 + (byte_val b - 128), 2)
               else (case r2 of
                 [] \<Rightarrow> (65533, 1)
               | c # r3 \<Rightarrow>
                   if \<not> is_cont c then (65533, 1)
                   else if 224 \<le> v \<and> v < 240 then
                     (if (v = 224 \<and> byte_val b < 160) \<or> (v = 237 \<and> 160 \<le> byte_val b) then (65533, 1)
                      else ((v - 224) * 4096 + (byte_val b - 128) * 64 + (byte_val c - 128), 3))
                   else (case r3 of
                     [] \<Rightarrow> (65533, 1)
                   | d # _ \<Rightarrow>
                       if is_cont d \<and> 240 \<le> v \<and> v < 245
                          \<and> \<not> (v = 240 \<and> byte_val b < 144) \<and> \<not> (v = 244 \<and> 144 \<le> byte_val b)
                       then ((v - 240) * 262144 + (byte_val b - 128) * 4096
                             + (byte_val c - 128) * 64 + (byte_val d - 128), 4)
                       else (65533, 1))))))"

lemma decode_rune_pos: "s \<noteq> [] \<Longrightarrow> 0 < snd (decode_rune s)"
  by (cases s) (auto simp: decode_rune_def Let_def split: list.split)

definition get_esc :: "string \<Rightarrow> (nat \<times> string) option" where
  "get_esc chunk =
     (case chunk of
        [] \<Rightarrow> None
      | c # cs \<Rightarrow>
          if c = CHR ''-'' \<or> c = CHR '']'' then None
          else (let body = (if c = CHR 0x5C then cs else chunk) in
                if body = [] then None
                else (let (r, n) = decode_rune body in
                      if r = 65533 \<and> n = 1 then None
                      else if drop n body = [] then None
                      else Some (r, drop n body))))"

lemma get_esc_shorter: "get_esc chunk = Some (r, rest) \<Longrightarrow> length rest < length chunk"
proof -
  assume e: "get_esc chunk = Some (r, rest)"
  obtain c cs where chunk: "chunk = c # cs"
    using e by (cases chunk) (auto simp: get_esc_def)
  define body where "body = (if c = CHR 0x5C then cs else chunk)"
  have body: "body \<noteq> []" "rest = drop (snd (decode_rune body)) body"
    using e by (auto simp: get_esc_def chunk body_def Let_def split: if_splits prod.splits)
  then have "length rest < length body"
    using decode_rune_pos [OF body(1)] by simp
  moreover have "length body \<le> length chunk" by (simp add: body_def chunk)
  ultimately show ?thesis by simp
qed

lemma get_esc_nonempty: "get_esc chunk = Some (r, rest) \<Longrightarrow> rest \<noteq> []"
  by (auto simp: get_esc_def Let_def split: list.splits if_splits prod.splits)

text \<open>
  The ranges of a class: \<open>r\<close> is the rune to match, \<open>n\<close> the number of ranges read so far; the
  result is whether a range matched and what follows the closing bracket.
\<close>

function class_ranges :: "nat \<Rightarrow> nat \<Rightarrow> bool \<Rightarrow> string \<Rightarrow> (bool \<times> string) option" where
  "class_ranges r n found chunk =
     (if chunk \<noteq> [] \<and> hd chunk = CHR '']'' \<and> 0 < n then Some (found, tl chunk)
      else (case get_esc chunk of
              None \<Rightarrow> None
            | Some (lo, c1) \<Rightarrow>
                if hd c1 = CHR ''-'' then
                  (case get_esc (tl c1) of
                     None \<Rightarrow> None
                   | Some (hi, c2) \<Rightarrow> class_ranges r (Suc n) (found \<or> (lo \<le> r \<and> r \<le> hi)) c2)
                else class_ranges r (Suc n) (found \<or> r = lo) c1))"
  by pat_completeness auto
termination
proof (relation "measure (\<lambda>(r, n, f, chunk). length chunk)", goal_cases)
  case (2 r n found chunk x lo c1 y hi c2)
  then show ?case
    using get_esc_shorter [of chunk lo c1] get_esc_shorter [of "tl c1" hi c2] by auto
next
  case (3 r n found chunk x lo c1)
  then show ?case using get_esc_shorter [of chunk lo c1] by auto
qed auto

declare class_ranges.simps [simp del]

lemma class_ranges_shorter:
  "class_ranges r n found chunk = Some (b, rest) \<Longrightarrow> length rest < length chunk"
proof (induction r n found chunk rule: class_ranges.induct)
  case (1 r n found chunk)
  show ?case
  proof (cases "chunk \<noteq> [] \<and> hd chunk = CHR '']'' \<and> 0 < n")
    case True
    with "1.prems" show ?thesis
      by (auto simp: class_ranges.simps [of r n found chunk] neq_Nil_conv)
  next
    case False
    with "1.prems" obtain lo c1 where c1: "get_esc chunk = Some (lo, c1)"
      by (auto simp: class_ranges.simps [of r n found chunk] split: option.splits)
    show ?thesis
    proof (cases "hd c1 = CHR ''-''")
      case True
      with False c1 "1.prems" obtain hi c2 where c2: "get_esc (tl c1) = Some (hi, c2)"
        by (auto simp: class_ranges.simps [of r n found chunk] split: option.splits)
      then have "class_ranges r (Suc n) (found \<or> (lo \<le> r \<and> r \<le> hi)) c2 = Some (b, rest)"
        using "1.prems" False c1 True by (simp add: class_ranges.simps [of r n found chunk])
      from "1.IH"(1) [OF False c1 refl True c2 refl this] get_esc_shorter [OF c1]
        get_esc_shorter [OF c2] show ?thesis by simp
    next
      case no: False
      then have "class_ranges r (Suc n) (found \<or> r = lo) c1 = Some (b, rest)"
        using "1.prems" False c1 by (simp add: class_ranges.simps [of r n found chunk])
      from "1.IH"(2) [OF False c1 refl no this] get_esc_shorter [OF c1] show ?thesis by simp
    qed
  qed
qed

text \<open>The result of matching one chunk: \<open>None\<close> for a bad pattern, else the rest of the name.\<close>

function match_chunk :: "bool \<Rightarrow> string \<Rightarrow> string \<Rightarrow> string option option" where
  "match_chunk failed [] s = Some (if failed then None else Some s)"
| "match_chunk failed (c # cs) s =
     (let failed1 = (failed \<or> s = []) in
      if c = CHR ''['' then
        (let (r, n) = (if failed1 then (0, 0) else decode_rune s);
             negated = (cs \<noteq> [] \<and> hd cs = CHR ''^'') in
         case class_ranges r 0 False (if negated then tl cs else cs) of
           None \<Rightarrow> None
         | Some (found, rest) \<Rightarrow> match_chunk (failed1 \<or> found = negated) rest (drop n s))
      else if c = CHR ''?'' then
        match_chunk (failed1 \<or> hd s = CHR ''/'') cs
          (if failed1 then s else drop (snd (decode_rune s)) s)
      else if c = CHR 0x5C then
        (case cs of
           [] \<Rightarrow> None
         | d # ds \<Rightarrow> match_chunk (failed1 \<or> d \<noteq> hd s) ds (if failed1 then s else tl s))
      else match_chunk (failed1 \<or> c \<noteq> hd s) cs (if failed1 then s else tl s))"
  by pat_completeness auto
termination
proof (relation "measure (\<lambda>(f, chunk, s). length chunk)", goal_cases)
  case (2 failed c cs s x p r n neg y found rest)
  then have "length rest < length (if neg then tl cs else cs)"
    by (auto dest!: class_ranges_shorter)
  then show ?case by (auto split: if_splits)
qed auto

declare match_chunk.simps(2) [simp del]

fun scan_len :: "bool \<Rightarrow> string \<Rightarrow> nat" where
  "scan_len inrange [] = 0"
| "scan_len inrange (c # cs) =
     (if c = CHR 0x5C then (case cs of [] \<Rightarrow> 1 | d # ds \<Rightarrow> Suc (Suc (scan_len inrange ds)))
      else if c = CHR ''['' then Suc (scan_len True cs)
      else if c = CHR '']'' then Suc (scan_len False cs)
      else if c = CHR ''*'' \<and> \<not> inrange then 0
      else Suc (scan_len inrange cs))"

definition scan_chunk :: "string \<Rightarrow> bool \<times> string \<times> string" where
  "scan_chunk pat =
     (let body = dropWhile (\<lambda>c. c = CHR ''*'') pat; n = scan_len False body in
      (body \<noteq> pat, take n body, drop n body))"

lemma scan_len_pos: "c \<noteq> CHR ''*'' \<Longrightarrow> 0 < scan_len False (c # cs)"
  by (cases cs) simp_all

lemma scan_chunk_shorter:
  "pat \<noteq> [] \<Longrightarrow> scan_chunk pat = (star, chunk, rest) \<Longrightarrow> length rest < length pat"
proof (cases "dropWhile (\<lambda>c. c = CHR ''*'') pat")
  case (Cons c cs)
  assume "pat \<noteq> []" "scan_chunk pat = (star, chunk, rest)"
  have "c \<noteq> CHR ''*''" using Cons hd_dropWhile [of "\<lambda>c. c = CHR ''*''" pat] by simp
  then have "0 < scan_len False (c # cs)" by (rule scan_len_pos)
  moreover have "length (c # cs) \<le> length pat"
    using length_dropWhile_le [of "\<lambda>c. c = CHR ''*''" pat] Cons by simp
  moreover have "rest = drop (scan_len False (c # cs)) (c # cs)"
    using \<open>scan_chunk pat = _\<close> Cons by (simp add: scan_chunk_def Let_def)
  ultimately show ?thesis by (simp only: length_drop) (simp del: scan_len.simps)
qed (auto simp: scan_chunk_def Let_def)

text \<open>The search behind a star: the first start at which the chunk matches.\<close>

fun star_search :: "string \<Rightarrow> bool \<Rightarrow> string list \<Rightarrow> string option option" where
  "star_search chunk lastchunk [] = Some None"
| "star_search chunk lastchunk (n # ns) =
     (case match_chunk False chunk n of
        None \<Rightarrow> None
      | Some None \<Rightarrow> star_search chunk lastchunk ns
      | Some (Some t) \<Rightarrow>
          if lastchunk \<and> t \<noteq> [] then star_search chunk lastchunk ns else Some (Some t))"

definition star_starts :: "string \<Rightarrow> string list" where
  "star_starts name =
     map (\<lambda>i. drop (Suc i) name) [0..<length (takeWhile (\<lambda>c. c \<noteq> CHR ''/'') name)]"

function pattern_ok :: "string \<Rightarrow> bool" where
  "pattern_ok pat =
     (if pat = [] then True
      else (let (star, chunk, rest) = scan_chunk pat in
            match_chunk False chunk [] \<noteq> None \<and> pattern_ok rest))"
  by pat_completeness auto
termination
  by (relation "measure length") (auto dest: scan_chunk_shorter [OF _ sym])

function path_match :: "string \<Rightarrow> string \<Rightarrow> bool option" where
  "path_match pat name =
     (if pat = [] then Some (name = [])
      else (let (star, chunk, rest) = scan_chunk pat in
        if star \<and> chunk = [] then Some (CHR ''/'' \<notin> set name)
        else (case match_chunk False chunk name of
          None \<Rightarrow> None
        | Some m \<Rightarrow>
            if m \<noteq> None \<and> (the m = [] \<or> rest \<noteq> []) then path_match rest (the m)
            else if star then
              (case star_search chunk (rest = []) (star_starts name) of
                 None \<Rightarrow> None
               | Some (Some t) \<Rightarrow> path_match rest t
               | Some None \<Rightarrow> if pattern_ok rest then Some False else None)
            else if pattern_ok rest then Some False else None)))"
  by pat_completeness auto
termination
  by (relation "measure (\<lambda>(p, n). length p)") (auto dest: scan_chunk_shorter [OF _ sym])

declare pattern_ok.simps [simp del] path_match.simps [simp del]

subsection \<open>Literal patterns and the star\<close>

definition literal :: "string \<Rightarrow> bool" where
  "literal p = (\<forall>c \<in> set p. c \<noteq> CHR ''*'' \<and> c \<noteq> CHR ''?'' \<and> c \<noteq> CHR ''['' \<and> c \<noteq> CHR 0x5C)"

lemma scan_len_literal: "literal p \<Longrightarrow> scan_len b p = length p"
  by (induction p arbitrary: b) (auto simp: literal_def)

lemma scan_chunk_literal: "literal p \<Longrightarrow> p \<noteq> [] \<Longrightarrow> scan_chunk p = (False, p, [])"
  by (cases p) (auto simp: scan_chunk_def Let_def literal_def scan_len_literal [unfolded literal_def])

lemma match_chunk_failed: "literal p \<Longrightarrow> match_chunk True p s = Some None"
  by (induction p arbitrary: s) (auto simp: literal_def match_chunk.simps)

lemma match_chunk_plain:
  "c \<noteq> CHR ''?'' \<Longrightarrow> c \<noteq> CHR ''['' \<Longrightarrow> c \<noteq> CHR 0x5C \<Longrightarrow>
     match_chunk False (c # cs) s = match_chunk (s = [] \<or> c \<noteq> hd s) cs (if s = [] then s else tl s)"
  by (simp add: match_chunk.simps(2))

lemma match_chunk_literal:
  "literal p \<Longrightarrow> match_chunk False p s = Some (if prefix p s then Some (drop (length p) s) else None)"
proof (induction p arbitrary: s)
  case (Cons c cs)
  then have lit: "literal cs" "c \<noteq> CHR ''?''" "c \<noteq> CHR ''[''" "c \<noteq> CHR 0x5C"
    by (simp_all add: literal_def)
  show ?case
  proof (cases s)
    case Nil
    with lit show ?thesis by (simp add: match_chunk_plain match_chunk_failed)
  next
    case s: (Cons d ds)
    with lit Cons.IH [OF lit(1)] show ?thesis
      by (cases "c = d") (simp_all add: match_chunk_plain match_chunk_failed)
  qed
qed simp

lemma path_match_literal: "literal p \<Longrightarrow> path_match p s = Some (p = s)"
proof (cases "p = []")
  case False
  assume "literal p"
  with False show ?thesis
    by (subst path_match.simps)
      (auto simp: scan_chunk_literal match_chunk_literal path_match.simps [of "[]"]
        pattern_ok.simps [of "[]"] prefix_def)
qed (auto simp: path_match.simps)

lemma path_match_star: "path_match ''*'' s = Some (CHR ''/'' \<notin> set s)"
  by (simp add: path_match.simps [of "''*''"] scan_chunk_def)

text \<open>The evaluation rules for a concrete pattern.\<close>

lemmas glob_eval = path_match.simps scan_chunk_def star_starts_def match_chunk.simps
  pattern_ok.simps class_ranges.simps get_esc_def decode_rune_def byte_val_def Let_def

lemma path_match_star_env: "path_match ''*.env'' ''prod.env'' = Some True"
  by (simp add: glob_eval)

end
