(* ===== verification/Policy_Engine.thy ===== *)
theory Policy_Engine
  imports Go_Glob
begin

text \<open>
  \<open>internal/policy\<close>: the policy document, its validation, slash-aware glob matching with
  \<open>**\<close>, and the read decision.  A \<open>Mode\<close> is a Go string type, so any string can occur until
  \<open>Validate\<close> has run.  The YAML decoder is third-party code: \<open>Parse\<close> takes it as an argument.
\<close>

type_synonym mode = string

definition ModeOff :: mode where "ModeOff = ''off''"
definition ModeAudit :: mode where "ModeAudit = ''audit''"
definition ModeEnforce :: mode where "ModeEnforce = ''enforce''"

lemmas mode_defs = ModeOff_def ModeAudit_def ModeEnforce_def

record PIIPolicy =
  pii_mode :: mode

record ReadPolicy =
  rd_mode :: mode
  rd_deny :: "string list"
  rd_allow :: "string list"
  rd_pii :: PIIPolicy

record WritePolicy =
  wr_mode :: string
  wr_scope :: string

record CredentialRef =
  cred_name :: string
  cred_scopes :: "string list"

record NetworkPolicy =
  net_mode :: mode
  net_domains :: "string list"
  net_creds :: "CredentialRef list"

record ResourcePolicy =
  pids_max :: string
  memory_max :: string
  cpu_max :: string

record Policy =
  pol_read :: ReadPolicy
  pol_write :: WritePolicy
  pol_network :: NetworkPolicy
  pol_resources :: ResourcePolicy

record DecisionExplanation =
  ex_path :: string
  ex_decision :: string
  ex_pattern :: string
  ex_rule :: string

datatype policy_error =
    BadMode string mode
  | EmptyPattern
  | PiiNeedsEnforce
  | InvalidDomain string
  | CredNameEmpty
  | CredDuplicate string
  | CredScopeEmpty string
  | BadWriteMode string
  | BadWriteScope string
  | LimitRequired string
  | BadLimit string
  | BadCpuMax
  | ParseFailed string

subsection \<open>Validation\<close>

definition validateMode :: "string \<Rightarrow> mode \<Rightarrow> bool \<Rightarrow> policy_error + unit" where
  "validateMode name value emptyAllowed =
     (if value = [] \<and> emptyAllowed then Inr ()
      else if value \<in> {ModeOff, ModeAudit, ModeEnforce} then Inr ()
      else Inl (BadMode name value))"

definition ReadPolicy_Validate :: "ReadPolicy \<Rightarrow> policy_error + unit" where
  "ReadPolicy_Validate p =
     and_then (validateMode ''read.mode'' (rd_mode p) True) (\<lambda>_.
       if list_ex blank (rd_deny p @ rd_allow p) then Inl EmptyPattern
       else and_then (validateMode ''read.pii.mode'' (pii_mode (rd_pii p)) True) (\<lambda>_.
         if pii_mode (rd_pii p) = ModeEnforce \<and> rd_mode p \<noteq> ModeEnforce
         then Inl PiiNeedsEnforce else Inr ()))"

definition validateDomain :: "string \<Rightarrow> policy_error + unit" where
  "validateDomain value =
     (let domain = to_lower (trim_space value) in
      if domain = [] \<or> contains_any ''/ @'' domain \<or> contains_sub ''..'' domain
         \<or> prefix ''.'' domain \<or> suffix ''.'' domain then Inl (InvalidDomain value)
      else if list_ex (\<lambda>part. part = [] \<or> prefix ''-'' part \<or> suffix ''-'' part)
                (split_on CHR ''.'' domain) then Inl (InvalidDomain value)
      else Inr ())"

fun validate_refs :: "string set \<Rightarrow> CredentialRef list \<Rightarrow> policy_error + unit" where
  "validate_refs seen [] = Inr ()"
| "validate_refs seen (r # rs) =
     (let name = trim_space (cred_name r) in
      if name = [] then Inl CredNameEmpty
      else if name \<in> seen then Inl (CredDuplicate name)
      else if list_ex blank (cred_scopes r) then Inl (CredScopeEmpty name)
      else validate_refs (insert name seen) rs)"

definition NetworkPolicy_Validate :: "NetworkPolicy \<Rightarrow> policy_error + unit" where
  "NetworkPolicy_Validate n =
     and_then (try_all validateDomain (net_domains n)) (\<lambda>_. validate_refs {} (net_creds n))"

definition validPositive :: "string \<Rightarrow> bool" where
  "validPositive value = (case parse_uint64 value of None \<Rightarrow> False | Some n \<Rightarrow> n > 0)"

definition validLimit :: "string \<Rightarrow> bool" where
  "validLimit value = (value = ''max'' \<or> validPositive value)"

definition validateLimit :: "string \<Rightarrow> string \<Rightarrow> bool \<Rightarrow> policy_error + unit" where
  "validateLimit name value required =
     (if blank value then (if required then Inl (LimitRequired name) else Inr ())
      else if \<not> validLimit (trim_space value) then Inl (BadLimit name)
      else Inr ())"

definition ResourcePolicy_Validate :: "ResourcePolicy \<Rightarrow> policy_error + unit" where
  "ResourcePolicy_Validate r =
     and_then (validateLimit ''resources.pids_max'' (pids_max r) False) (\<lambda>_.
     and_then (validateLimit ''resources.memory_max'' (memory_max r) False) (\<lambda>_.
       if blank (cpu_max r) then Inr ()
       else (case str_fields (cpu_max r) of
               [quota, period] \<Rightarrow>
                 if \<not> validLimit quota \<or> \<not> validPositive period then Inl BadCpuMax else Inr ()
             | _ \<Rightarrow> Inl BadCpuMax)))"

definition Policy_Validate :: "Policy \<Rightarrow> policy_error + unit" where
  "Policy_Validate p =
     and_then (ReadPolicy_Validate (pol_read p)) (\<lambda>_.
     and_then (validateMode ''network.mode'' (net_mode (pol_network p)) True) (\<lambda>_.
     and_then (NetworkPolicy_Validate (pol_network p)) (\<lambda>_.
       if wr_mode (pol_write p) \<noteq> [] \<and> wr_mode (pol_write p) \<noteq> ''rollback''
       then Inl (BadWriteMode (wr_mode (pol_write p)))
       else if wr_scope (pol_write p) \<noteq> [] \<and> wr_scope (pol_write p) \<noteq> ''workspace''
               \<and> wr_scope (pol_write p) \<noteq> ''system''
       then Inl (BadWriteScope (wr_scope (pol_write p)))
       else ResourcePolicy_Validate (pol_resources p))))"

definition Policy_Parse :: "(string \<Rightarrow> string + Policy) \<Rightarrow> string \<Rightarrow> policy_error + Policy" where
  "Policy_Parse unmarshal data =
     and_then (map_err ParseFailed (unmarshal data)) (\<lambda>value.
     and_then (Policy_Validate value) (\<lambda>_. Inr value))"

subsection \<open>Matching\<close>

definition split :: "string \<Rightarrow> string list" where
  "split value =
     (let v = trim_char CHR ''/'' value in if v = [] then [] else split_on CHR ''/'' v)"

fun matchSegments :: "string list \<Rightarrow> string list \<Rightarrow> bool" where
  "matchSegments [] cand = (cand = [])"
| "matchSegments (p # ps) [] = (if p = ''**'' then matchSegments ps [] else False)"
| "matchSegments (p # ps) (c # cs) =
     (if p = ''**'' then matchSegments ps (c # cs) \<or> matchSegments (p # ps) cs
      else path_match p c = Some True \<and> matchSegments ps cs)"

definition slashes :: "string \<Rightarrow> string" where
  "slashes s = trim_space (replace_char CHR 0x5C CHR ''/'' s)"

definition Match :: "string \<Rightarrow> string \<Rightarrow> bool" where
  "Match pat candidate =
     (let p = slashes pat; c = slashes candidate in
      if p = [] \<or> c = [] then False
      else (let c' = (if prefix ''/'' p then c else trim_prefix ''/'' c) in
            matchSegments (split p) (split c')))"

definition Explain :: "ReadPolicy \<Rightarrow> string \<Rightarrow> DecisionExplanation" where
  "Explain p candidate =
     (case find (\<lambda>d. Match d candidate) (rd_deny p) of
        Some d \<Rightarrow>
          \<lparr>ex_path = candidate,
           ex_decision = (if rd_mode p = ModeAudit then ''audit''
                          else if rd_mode p = ModeEnforce then ''deny'' else ''allow''),
           ex_pattern = d, ex_rule = ''deny''\<rparr>
      | None \<Rightarrow>
          (case find (\<lambda>a. Match a candidate) (rd_allow p) of
             Some a \<Rightarrow> \<lparr>ex_path = candidate, ex_decision = ''allow'', ex_pattern = a, ex_rule = ''allow''\<rparr>
           | None \<Rightarrow> \<lparr>ex_path = candidate, ex_decision = ''allow'', ex_pattern = [], ex_rule = ''default''\<rparr>))"

definition Decision :: "ReadPolicy \<Rightarrow> string \<Rightarrow> string" where
  "Decision p candidate = ex_decision (Explain p candidate)"

subsection \<open>What validation guarantees\<close>

definition mode_ok :: "mode \<Rightarrow> bool" where
  "mode_ok m = (m \<in> {[], ModeOff, ModeAudit, ModeEnforce})"

definition limit_ok :: "string \<Rightarrow> bool" where
  "limit_ok s = (blank s \<or> trim_space s = ''max'' \<or>
     (\<exists>n. parse_uint64 (trim_space s) = Some n \<and> 0 < n \<and> n < 2 ^ 64))"

text \<open>A domain name as the policy accepts it: nonempty labels that neither start nor end with a dash.\<close>

definition label_ok :: "string \<Rightarrow> bool" where
  "label_ok l = (l \<noteq> [] \<and> \<not> prefix ''-'' l \<and> \<not> suffix ''-'' l)"

definition domain_ok :: "string \<Rightarrow> bool" where
  "domain_ok d = ((\<forall>l \<in> set (split_on CHR ''.'' (to_lower (trim_space d))). label_ok l) \<and>
     (\<forall>c \<in> set (to_lower (trim_space d)). c \<noteq> CHR ''/'' \<and> c \<noteq> CHR '' '' \<and> c \<noteq> CHR ''@''))"

definition wf_policy :: "Policy \<Rightarrow> bool" where
  "wf_policy p =
     (mode_ok (rd_mode (pol_read p)) \<and> mode_ok (pii_mode (rd_pii (pol_read p))) \<and>
      mode_ok (net_mode (pol_network p)) \<and>
      (pii_mode (rd_pii (pol_read p)) = ModeEnforce \<longrightarrow> rd_mode (pol_read p) = ModeEnforce) \<and>
      (\<forall>x \<in> set (rd_deny (pol_read p)) \<union> set (rd_allow (pol_read p)). \<not> blank x) \<and>
      (\<forall>d \<in> set (net_domains (pol_network p)). domain_ok d) \<and>
      distinct (map (trim_space \<circ> cred_name) (net_creds (pol_network p))) \<and>
      (\<forall>r \<in> set (net_creds (pol_network p)). \<not> blank (cred_name r) \<and>
         (\<forall>s \<in> set (cred_scopes r). \<not> blank s)) \<and>
      wr_mode (pol_write p) \<in> {[], ''rollback''} \<and>
      wr_scope (pol_write p) \<in> {[], ''workspace'', ''system''} \<and>
      limit_ok (pids_max (pol_resources p)) \<and> limit_ok (memory_max (pol_resources p)) \<and>
      (blank (cpu_max (pol_resources p)) \<or>
       (\<exists>q t. str_fields (cpu_max (pol_resources p)) = [q, t] \<and>
          (q = ''max'' \<or> (\<exists>n > 0. parse_uint64 q = Some n)) \<and> (\<exists>n > 0. parse_uint64 t = Some n))))"

lemma validateMode_Inr [simp]: "validateMode n m True = Inr u \<longleftrightarrow> mode_ok m"
  by (auto simp: validateMode_def mode_ok_def)

lemma mode_ok_simps [simp]: "mode_ok ModeOff" "mode_ok ModeAudit" "mode_ok ModeEnforce" "mode_ok []"
  by (simp_all add: mode_ok_def)

lemma list_ex_blank: "list_ex blank xs \<longleftrightarrow> (\<exists>x \<in> set xs. blank x)"
  by (simp add: list_ex_iff)

lemma ReadPolicy_Validate_Inr [simp]:
  "ReadPolicy_Validate p = Inr u \<longleftrightarrow>
     mode_ok (rd_mode p) \<and> mode_ok (pii_mode (rd_pii p)) \<and>
     (pii_mode (rd_pii p) = ModeEnforce \<longrightarrow> rd_mode p = ModeEnforce) \<and>
     (\<forall>x \<in> set (rd_deny p) \<union> set (rd_allow p). \<not> blank x)"
  by (auto simp: ReadPolicy_Validate_def list_ex_blank)

lemma split_dots:
  assumes "\<forall>l \<in> set (split_on CHR ''.'' d). l \<noteq> []"
  shows "d \<noteq> [] \<and> \<not> contains_sub ''..'' d \<and> \<not> prefix ''.'' d \<and> \<not> suffix ''.'' d"
proof (intro conjI notI)
  assume "d = []"
  with assms show False by simp
next
  have app: "split_on CHR ''.'' (x @ CHR ''.'' # y) = split_on CHR ''.'' x @ split_on CHR ''.'' y" for x y
    by (induction x) (auto split: list.splits)
  {
    assume "contains_sub ''..'' d"
    then obtain x y where "d = x @ CHR ''.'' # (CHR ''.'' # y)"
      by (auto simp: contains_sub_def sublist_def)
    then have "[] \<in> set (split_on CHR ''.'' d)" by (simp only: app) simp
    with assms show False by auto
  next
    assume "prefix ''.'' d"
    then obtain y where "d = [] @ CHR ''.'' # y" by (auto simp: prefix_def)
    then have "[] \<in> set (split_on CHR ''.'' d)" by (simp only: app) simp
    with assms show False by auto
  next
    assume "suffix ''.'' d"
    then obtain x where "d = x @ CHR ''.'' # []" by (auto simp: suffix_def)
    then have "[] \<in> set (split_on CHR ''.'' d)" by (simp only: app) simp
    with assms show False by auto
  }
qed

lemma validateDomain_Inr [simp]: "validateDomain d = Inr u \<longleftrightarrow> domain_ok d"
proof -
  define e where "e = to_lower (trim_space d)"
  have any: "contains_any ''/ @'' e \<longleftrightarrow> \<not> (\<forall>c \<in> set e. c \<noteq> CHR ''/'' \<and> c \<noteq> CHR '' '' \<and> c \<noteq> CHR ''@'')"
    by (auto simp: contains_any_def list_ex_iff)
  have lab: "list_ex (\<lambda>part. part = [] \<or> prefix ''-'' part \<or> suffix ''-'' part) (split_on CHR ''.'' e)
      \<longleftrightarrow> \<not> (\<forall>l \<in> set (split_on CHR ''.'' e). label_ok l)"
    by (simp add: list_ex_iff label_ok_def)
  have dots: "\<forall>l \<in> set (split_on CHR ''.'' e). label_ok l \<Longrightarrow>
      e \<noteq> [] \<and> \<not> contains_sub ''..'' e \<and> \<not> prefix ''.'' e \<and> \<not> suffix ''.'' e"
    by (rule split_dots) (simp add: label_ok_def)
  have "validateDomain d = Inr u \<longleftrightarrow>
     (e \<noteq> [] \<and> \<not> contains_sub ''..'' e \<and> \<not> prefix ''.'' e \<and> \<not> suffix ''.'' e) \<and>
     (\<forall>c \<in> set e. c \<noteq> CHR ''/'' \<and> c \<noteq> CHR '' '' \<and> c \<noteq> CHR ''@'') \<and>
     (\<forall>l \<in> set (split_on CHR ''.'' e). label_ok l)"
    unfolding validateDomain_def e_def [symmetric] Let_def any lab by simp
  moreover have "domain_ok d \<longleftrightarrow> (\<forall>l \<in> set (split_on CHR ''.'' e). label_ok l) \<and>
     (\<forall>c \<in> set e. c \<noteq> CHR ''/'' \<and> c \<noteq> CHR '' '' \<and> c \<noteq> CHR ''@'')"
    by (simp only: domain_ok_def e_def)
  ultimately show ?thesis using dots by blast
qed

lemma validate_refs_Inr [simp]:
  "validate_refs seen rs = Inr u \<longleftrightarrow>
     distinct (map (trim_space \<circ> cred_name) rs) \<and>
     (trim_space \<circ> cred_name) ` set rs \<inter> seen = {} \<and>
     (\<forall>r \<in> set rs. \<not> blank (cred_name r) \<and> (\<forall>s \<in> set (cred_scopes r). \<not> blank s))"
proof (induction rs arbitrary: seen)
  case (Cons r rs)
  define f :: "CredentialRef \<Rightarrow> string" where "f = trim_space \<circ> cred_name"
  have f: "f r = trim_space (cred_name r)" "blank (cred_name r) \<longleftrightarrow> f r = []"
    by (simp_all add: f_def blank_def)
  have "validate_refs seen (r # rs) = Inr u \<longleftrightarrow>
      f r \<noteq> [] \<and> f r \<notin> seen \<and> (\<forall>s \<in> set (cred_scopes r). \<not> blank s) \<and>
      validate_refs (insert (f r) seen) rs = Inr u"
    by (simp add: Let_def f list_ex_blank)
  then show ?case
    unfolding Cons.IH f_def [symmetric] by (simp add: f(2)) blast
qed simp

lemma NetworkPolicy_Validate_Inr [simp]:
  "NetworkPolicy_Validate n = Inr u \<longleftrightarrow>
     (\<forall>d \<in> set (net_domains n). domain_ok d) \<and>
     distinct (map (trim_space \<circ> cred_name) (net_creds n)) \<and>
     (\<forall>r \<in> set (net_creds n). \<not> blank (cred_name r) \<and> (\<forall>s \<in> set (cred_scopes r). \<not> blank s))"
  by (simp add: NetworkPolicy_Validate_def)

lemma parse_uint64_bound: "parse_uint64 s = Some n \<Longrightarrow> n < 2 ^ 64"
  by (auto simp: parse_uint64_def split: if_splits)

lemma validPositive_iff: "validPositive s \<longleftrightarrow> (\<exists>n > 0. parse_uint64 s = Some n)"
  by (auto simp: validPositive_def split: option.splits)

lemma validateLimit_Inr [simp]: "validateLimit n s False = Inr u \<longleftrightarrow> limit_ok s"
proof -
  have "validPositive t \<longleftrightarrow> (\<exists>n. parse_uint64 t = Some n \<and> 0 < n \<and> n < 2 ^ 64)" for t
    using validPositive_iff parse_uint64_bound by blast
  then show ?thesis
    by (simp add: validateLimit_def limit_ok_def validLimit_def)
qed

lemma ResourcePolicy_Validate_Inr [simp]:
  "ResourcePolicy_Validate r = Inr u \<longleftrightarrow>
     limit_ok (pids_max r) \<and> limit_ok (memory_max r) \<and>
     (blank (cpu_max r) \<or>
       (\<exists>q t. str_fields (cpu_max r) = [q, t] \<and>
          (q = ''max'' \<or> (\<exists>n > 0. parse_uint64 q = Some n)) \<and> (\<exists>n > 0. parse_uint64 t = Some n)))"
  by (cases "blank (cpu_max r)")
    (auto simp: ResourcePolicy_Validate_def validLimit_def validPositive_iff split: list.splits)

lemma Policy_Validate_Inr [simp]: "Policy_Validate p = Inr u \<longleftrightarrow> wf_policy p"
  by (auto simp: Policy_Validate_def wf_policy_def)

subsection \<open>What matching means\<close>

text \<open>
  The declarative meaning of a pattern: the candidate is cut into as many runs of segments as
  the pattern has segments; \<open>**\<close> takes any run, every other segment takes one segment that
  \<open>path.Match\<close> accepts.
\<close>

definition takes :: "string \<Rightarrow> string list \<Rightarrow> bool" where
  "takes p w = (p = ''**'' \<or> (\<exists>c. w = [c] \<and> path_match p c = Some True))"

definition segments_match :: "string list \<Rightarrow> string list \<Rightarrow> bool" where
  "segments_match ps cs = (\<exists>ws. concat ws = cs \<and> list_all2 takes ps ws)"

lemma segments_match_Nil: "segments_match [] cs \<longleftrightarrow> cs = []"
  by (auto simp: segments_match_def)

lemma segments_match_Cons:
  "segments_match (p # ps) cs \<longleftrightarrow> (\<exists>w rest. cs = w @ rest \<and> takes p w \<and> segments_match ps rest)"
proof
  assume "segments_match (p # ps) cs"
  then obtain w ws where "concat (w # ws) = cs" "takes p w" "list_all2 takes ps ws"
    by (auto simp: segments_match_def list_all2_Cons1)
  then show "\<exists>w rest. cs = w @ rest \<and> takes p w \<and> segments_match ps rest"
    by (auto simp: segments_match_def)
next
  assume "\<exists>w rest. cs = w @ rest \<and> takes p w \<and> segments_match ps rest"
  then obtain w ws where "cs = w @ concat ws" "takes p w" "list_all2 takes ps ws"
    by (auto simp: segments_match_def)
  then show "segments_match (p # ps) cs"
    unfolding segments_match_def by (intro exI [of _ "w # ws"]) simp
qed

lemma matchSegments_spec: "matchSegments ps cs \<longleftrightarrow> segments_match ps cs"
proof (induction ps cs rule: matchSegments.induct)
  case (1 cand)
  then show ?case by (simp add: segments_match_Nil)
next
  case (2 p ps)
  then show ?case by (auto simp: segments_match_Cons takes_def)
next
  case (3 p ps c cs)
  show ?case
  proof (cases "p = ''**''")
    case True
    have "segments_match (p # ps) (c # cs) \<longleftrightarrow>
        segments_match ps (c # cs) \<or> segments_match (p # ps) cs"
    proof -
      have "segments_match (p # ps) xs \<longleftrightarrow> (\<exists>w rest. xs = w @ rest \<and> segments_match ps rest)" for xs
        by (simp add: segments_match_Cons takes_def True)
      then show ?thesis by (auto simp: Cons_eq_append_conv)
    qed
    then show ?thesis using 3 True by simp
  next
    case False
    have "segments_match (p # ps) (c # cs) \<longleftrightarrow> path_match p c = Some True \<and> segments_match ps cs"
      unfolding segments_match_Cons takes_def using False by (auto intro: exI [of _ "[c]"])
    then show ?thesis using 3 False by simp
  qed
qed

lemma trim_char_id:
  "s \<noteq> [] \<Longrightarrow> hd s \<noteq> c \<Longrightarrow> last s \<noteq> c \<Longrightarrow> trim_char c s = s"
proof -
  assume s: "s \<noteq> []" "hd s \<noteq> c" "last s \<noteq> c"
  then have "dropWhile (\<lambda>x. x = c) s = s" "dropWhile (\<lambda>x. x = c) (rev s) = rev s"
    by (simp_all add: dropWhile_eq_self_iff hd_rev)
  then show ?thesis by (simp add: trim_char_def)
qed

lemma trim_char_Cons: "trim_char c (c # s) = trim_char c s"
  by (simp add: trim_char_def)

lemma last_join:
  "\<forall>x \<in> set xs. x \<noteq> [] \<and> c \<notin> set x \<Longrightarrow> xs \<noteq> [] \<Longrightarrow>
     join_with [c] xs \<noteq> [] \<and> hd (join_with [c] xs) \<noteq> c \<and> last (join_with [c] xs) \<noteq> c"
proof (induction "[c]" xs rule: join_with.induct)
  case (2 x)
  then show ?case by (metis hd_in_set join_with.simps(2) last_in_set list.set_intros(1))
next
  case (3 x y ys)
  then show ?case by (cases x) auto
qed simp

lemma split_join_plain:
  assumes "\<forall>x \<in> set xs. x \<noteq> [] \<and> CHR ''/'' \<notin> set x"
  shows "split (join_with ''/'' xs) = xs" and "split (CHR ''/'' # join_with ''/'' xs) = xs"
proof -
  show "split (join_with ''/'' xs) = xs"
  proof (cases "xs = []")
    case False
    then have "trim_char CHR ''/'' (join_with ''/'' xs) = join_with ''/'' xs"
      using last_join [OF assms] by (intro trim_char_id) auto
    moreover have "join_with ''/'' xs \<noteq> []" using last_join [OF assms False] by simp
    ultimately show ?thesis
      using split_join [of xs "CHR ''/''"] assms False by (simp add: split_def)
  qed (simp add: split_def trim_char_def)
  then show "split (CHR ''/'' # join_with ''/'' xs) = xs"
    by (simp add: split_def trim_char_Cons)
qed

lemma find_eq_None_iff: "find P xs = None \<longleftrightarrow> (\<forall>x \<in> set xs. \<not> P x)"
  by (auto simp: find_None_iff)

lemma Decision_cases:
  "Decision p c =
     (if \<exists>d \<in> set (rd_deny p). Match d c then
        (if rd_mode p = ModeAudit then ''audit''
         else if rd_mode p = ModeEnforce then ''deny'' else ''allow'')
      else ''allow'')"
proof (cases "find (\<lambda>d. Match d c) (rd_deny p)")
  case None
  then have "\<not> (\<exists>d \<in> set (rd_deny p). Match d c)" by (simp add: find_eq_None_iff)
  with None show ?thesis by (simp add: Decision_def Explain_def split: option.split)
next
  case (Some d)
  then have "\<exists>d \<in> set (rd_deny p). Match d c" using findSomeD by fastforce
  with Some show ?thesis by (simp add: Decision_def Explain_def)
qed

lemma Decision_range: "Decision p c \<in> {''allow'', ''audit'', ''deny''}"
  by (simp add: Decision_cases)

subsection \<open>Properties\<close>

text \<open>
  C18. \<open>Policy.Validate\<close> accepts exactly the well-formed policies: known modes, no blank
  patterns, PII enforcement only under read enforcement, proper domain names, distinct
  credential names, positive 64-bit limits or \<open>max\<close>, and a two-field CPU limit.
\<close>

theorem policy_validation_complete: "Policy_Validate p = Inr () \<longleftrightarrow> wf_policy p"
  by simp

text \<open>
  C17. The recursive matcher decides the declarative meaning of patterns: \<open>Match\<close> holds
  exactly when pattern and candidate are nonblank and the candidate's segments can be cut
  into runs the pattern segments take.
\<close>

theorem match_decides_segments:
  "Match pat cand \<longleftrightarrow>
     slashes pat \<noteq> [] \<and> slashes cand \<noteq> [] \<and>
     (\<exists>ws. concat ws = split (slashes cand) \<and> list_all2 takes (split (slashes pat)) ws)"
proof -
  have "split (trim_prefix ''/'' s) = split s" for s
    by (cases s) (auto simp: trim_prefix_def split_def trim_char_Cons)
  then show ?thesis
    by (simp add: Match_def Let_def matchSegments_spec segments_match_def)
qed

text \<open>
  Deny patterns take precedence over allow patterns and over the default: the decision
  for a path depends on the deny patterns and the mode alone, it is a denial exactly when the
  mode is enforce and some deny pattern matches, and an allow pattern can never undo it.
\<close>

theorem deny_takes_precedence:
  "(Decision p c = ''deny'' \<longleftrightarrow> rd_mode p = ModeEnforce \<and> (\<exists>d \<in> set (rd_deny p). Match d c)) \<and>
   (Decision p c = ''audit'' \<longleftrightarrow> rd_mode p = ModeAudit \<and> (\<exists>d \<in> set (rd_deny p). Match d c)) \<and>
   Decision (p\<lparr>rd_allow := extra\<rparr>) c = Decision p c"
  by (auto simp: Decision_cases mode_defs)

text \<open>
  The pattern \<open>**/name\<close> protects the file at every depth: under an enforcing policy that
  denies it, every absolute path that ends in that name is denied, whatever else the policy
  allows.
\<close>

theorem doublestar_name_denied_everywhere:
  assumes "rd_mode p = ModeEnforce" and "''**/'' @ name \<in> set (rd_deny p)"
    and "literal name" and "name \<noteq> []" and "CHR ''/'' \<notin> set name" and "name \<noteq> ''**''"
    and "\<forall>x \<in> set dirs. x \<noteq> [] \<and> CHR ''/'' \<notin> set x"
    and "slashes (''**/'' @ name) = ''**/'' @ name"
    and "slashes (CHR ''/'' # join_with ''/'' (dirs @ [name])) = CHR ''/'' # join_with ''/'' (dirs @ [name])"
  shows "Decision p (CHR ''/'' # join_with ''/'' (dirs @ [name])) = ''deny''"
proof -
  let ?c = "CHR ''/'' # join_with ''/'' (dirs @ [name])"
  have "split (join_with ''/'' [''**'', name]) = [''**'', name]"
    using assms(4,5) by (intro split_join_plain) auto
  then have pat: "split (''**/'' @ name) = [''**'', name]" by simp
  have cand: "split ?c = dirs @ [name]"
    using assms(4,5,7) by (intro split_join_plain(2)) auto
  have "segments_match [''**'', name] (dirs @ [name])"
    unfolding segments_match_def using assms(3)
    by (intro exI [of _ "[dirs, [name]]"]) (auto simp: takes_def path_match_literal)
  then have "matchSegments (split (''**/'' @ name)) (split (trim_prefix ''/'' ?c))"
    using cand pat
    by (simp add: matchSegments_spec trim_prefix_def split_def trim_char_Cons)
  then have "Match (''**/'' @ name) ?c"
    unfolding Match_def assms(8,9) by (simp add: Let_def)
  then show ?thesis using assms(1,2) by (auto simp: Decision_cases mode_defs)
qed

lemmas string_eval = slashes_def replace_char_def trim_space_def trim_left_def trim_right_def
  strip_spaces.simps space_len_def space_encodings_def

theorem doublestar_name_denied_everywhere_witness:
  "Decision \<lparr>rd_mode = ModeEnforce, rd_deny = [''**/.env''], rd_allow = [''**''],
             rd_pii = \<lparr>pii_mode = []\<rparr>\<rparr> ''/srv/app/.env'' = ''deny''"
  using doublestar_name_denied_everywhere
    [of "\<lparr>rd_mode = ModeEnforce, rd_deny = [''**/.env''], rd_allow = [''**''],
          rd_pii = \<lparr>pii_mode = []\<rparr>\<rparr>" "''.env''" "[''srv'', ''app'']"]
  by (simp add: literal_def string_eval)

text \<open>
  A bare name is anchored at the root: a pattern without slashes matches a candidate
  exactly when the candidate has that single segment. So the pattern \<open>.env\<close> does not match
  \<open>/srv/.env\<close>, although the comment on \<open>Match\<close> promises a match at any depth for a pattern
  without a leading slash.
\<close>

theorem bare_name_matches_top_level_only:
  assumes "literal name" and "name \<noteq> []" and "CHR ''/'' \<notin> set name" and "name \<noteq> ''**''"
    and "slashes name = name" and "slashes cand \<noteq> []"
  shows "Match name cand \<longleftrightarrow> split (slashes cand) = [name]"
proof -
  have "split name = [name]"
    using split_join_plain(1) [of "[name]"] assms(2,3) by simp
  moreover have tp: "split (trim_prefix ''/'' s) = split s" for s
    by (cases s) (auto simp: trim_prefix_def split_def trim_char_Cons)
  ultimately have "Match name cand \<longleftrightarrow> segments_match [name] (split (slashes cand))"
    using assms(2,5,6) by (simp add: Match_def Let_def matchSegments_spec)
  also have "\<dots> \<longleftrightarrow> split (slashes cand) = [name]"
    unfolding segments_match_Cons segments_match_Nil takes_def
    using assms(1,4) by (auto simp: path_match_literal)
  finally show ?thesis .
qed

theorem bare_name_matches_top_level_only_witness:
  "\<not> Match ''.env'' ''/srv/.env'' \<and> Match ''.env'' ''/.env''"
  using bare_name_matches_top_level_only [of "''.env''" "''/srv/.env''"]
    bare_name_matches_top_level_only [of "''.env''" "''/.env''"]
  by (simp add: literal_def string_eval split_def trim_char_def)

end
