(* ===== verification/Read_Rules.thy ===== *)
theory Read_Rules
  imports Policy_Engine Manifest_Model "HOL-Library.AList"
begin

text \<open>
  The read policy on its way to the kernel.
  \<open>internal/policycompile\<close> expands the globs against the manifest of the run's workspace;
  \<open>internal/ebpfload/read_rules.go\<close> turns the rules into keys and values of a BPF map (the map
  belongs to a third-party library: its update is an argument); \<open>internal/landlock\<close> turns the
  allowed paths into an allowlist.  \<open>granted\<close> is Landlock's documented meaning of a
  path-beneath rule.
\<close>

definition MaxKernelPathBytes :: nat where "MaxKernelPathBytes = 255"

record ReadRule =
  rr_path :: string
  rr_decision :: string

record ReadRules =
  rs_mode :: mode
  rs_rules :: "ReadRule list"
  rs_files :: "string list"
  rs_dirs :: "string list"

datatype compile_error =
    PolicyInvalid policy_error
  | ManifestEscapes string
  | PathTooLong path

subsection \<open>Compiling\<close>

definition candidate_path :: "path \<Rightarrow> Entry \<Rightarrow> path" where
  "candidate_path root entry = clean (path_join root (NormalizePath (e_path entry)))"

fun compile_entries ::
  "ReadPolicy \<Rightarrow> path \<Rightarrow> (string \<times> string) list \<Rightarrow> string list \<Rightarrow> string list \<Rightarrow> Entry list \<Rightarrow>
     compile_error + ((string \<times> string) list \<times> string list \<times> string list)" where
  "compile_entries read root byPath files dirs [] = Inr (byPath, files, dirs)"
| "compile_entries read root byPath files dirs (entry # es) =
     (if e_type entry \<noteq> ''file'' \<and> e_type entry \<noteq> ''directory''
      then compile_entries read root byPath files dirs es
      else (let cand = candidate_path root entry in
        if \<not> is_within root cand then Inl (ManifestEscapes (e_path entry))
        else if length cand > MaxKernelPathBytes then Inl (PathTooLong cand)
        else (let d = Decision read cand in
          if d = ''allow'' then
            (if rd_mode read = ModeEnforce then
               (if e_type entry = ''file''
                then compile_entries read root byPath (files @ [cand]) dirs es
                else compile_entries read root byPath files (dirs @ [cand]) es)
             else compile_entries read root byPath files dirs es)
          else compile_entries read root ((cand, d) # filter (\<lambda>kv. fst kv \<noteq> cand) byPath) files dirs es)))"

definition CompileRead :: "path \<Rightarrow> ReadPolicy \<Rightarrow> path \<Rightarrow> Manifest \<Rightarrow> compile_error + ReadRules" where
  "CompileRead cwd read root snapshot =
     and_then (map_err PolicyInvalid (ReadPolicy_Validate read)) (\<lambda>_.
       let r = clean (abs_path cwd root) in
       if rd_mode read = ModeOff
       then Inr \<lparr>rs_mode = rd_mode read, rs_rules = [], rs_files = [], rs_dirs = []\<rparr>
       else and_then (compile_entries read r [] [] [] (m_entries snapshot)) (\<lambda>(byPath, files, dirs).
         Inr \<lparr>rs_mode = rd_mode read,
              rs_rules = sort_key rr_path (map (\<lambda>(p, d). \<lparr>rr_path = p, rr_decision = d\<rparr>) byPath),
              rs_files = sort files, rs_dirs = sort dirs\<rparr>))"

subsection \<open>Loading the rules into the BPF map\<close>

type_synonym map_key = string

datatype install_error = MapNil | KeyHasNul | KeyTooLong path | BadDecision string | UpdateFailed path

definition makeReadRuleKey :: "string \<Rightarrow> install_error + map_key" where
  "makeReadRuleKey p =
     (if CHR 0x00 \<in> set p then Inl KeyHasNul
      else if length p > 255 then Inl (KeyTooLong p)
      else Inr (p @ replicate (256 - length p) CHR 0x00))"

definition decisionCode :: "string \<Rightarrow> install_error + 32 word" where
  "decisionCode d = (if d = ''audit'' then Inr 1 else if d = ''deny'' then Inr 2 else Inl (BadDecision d))"

fun install_rules ::
  "('m \<Rightarrow> map_key \<Rightarrow> 32 word \<Rightarrow> 'm option) \<Rightarrow> 'm \<Rightarrow> ReadRule list \<Rightarrow> 'm \<times> install_error option" where
  "install_rules upd m [] = (m, None)"
| "install_rules upd m (rule # rules) =
     (case makeReadRuleKey (rr_path rule) of
        Inl e \<Rightarrow> (m, Some e)
      | Inr key \<Rightarrow>
          (case decisionCode (rr_decision rule) of
             Inl e \<Rightarrow> (m, Some e)
           | Inr v \<Rightarrow>
               (case upd m key v of
                  None \<Rightarrow> (m, Some (UpdateFailed (rr_path rule)))
                | Some m' \<Rightarrow> install_rules upd m' rules)))"

definition InstallReadRules ::
  "('m \<Rightarrow> map_key \<Rightarrow> 32 word \<Rightarrow> 'm option) \<Rightarrow> 'm option \<Rightarrow> ReadRules \<Rightarrow> 'm option \<times> install_error option" where
  "InstallReadRules upd m rules =
     (case m of
        None \<Rightarrow> (None, Some MapNil)
      | Some m0 \<Rightarrow>
          if rs_mode rules = ''off'' then (Some m0, None)
          else (case install_rules upd m0 (rs_rules rules) of (m', e) \<Rightarrow> (Some m', e)))"

subsection \<open>The Landlock plan\<close>

record Plan =
  ll_root :: path
  ll_files :: "path list"
  ll_dirs :: "path list"
  ll_runtime :: "path list"

datatype plan_error =
    PlanMode mode
  | RulesetFailed
  | AllowedEscapes path
  | RuntimeNotAbs path
  | RuntimeMissing path
  | RuntimeNotDir path
  | RuntimeOverlaps path
  | OpenRuleFailed path
  | PrctlFailed
  | RestrictFailed

definition check_runtime :: "fs \<Rightarrow> path \<Rightarrow> path \<Rightarrow> plan_error + unit" where
  "check_runtime f root rt =
     (if \<not> is_abs rt then Inl (RuntimeNotAbs rt)
      else (case stat_node f (csegs rt) of
              None \<Rightarrow> Inl (RuntimeMissing rt)
            | Some n \<Rightarrow>
                if \<not> is_dir n then Inl (RuntimeNotDir rt)
                else if is_within root (clean rt) \<or> is_within (clean rt) root then Inl (RuntimeOverlaps rt)
                else Inr ()))"

definition BuildPlan :: "path \<Rightarrow> fs \<Rightarrow> path \<Rightarrow> ReadRules \<Rightarrow> path list \<Rightarrow> plan_error + Plan" where
  "BuildPlan cwd f root rules runtimeRoots =
     (if rs_mode rules \<noteq> ModeEnforce then Inl (PlanMode (rs_mode rules))
      else (let r = clean (abs_path cwd root) in
        and_then (try_all (\<lambda>p. if is_within r (clean p) then Inr () else Inl (AllowedEscapes p))
                   (rs_files rules @ rs_dirs rules)) (\<lambda>_.
        and_then (try_all (check_runtime f r) runtimeRoots) (\<lambda>_.
          Inr \<lparr>ll_root = r, ll_files = sort (rs_files rules), ll_dirs = sort (rs_dirs rules),
               ll_runtime = sort runtimeRoots\<rparr>))))"

text \<open>\<open>Apply\<close> in \<open>apply_linux.go\<close>: the rules added to the ruleset, with the kernel's access bits.\<close>

definition READ_FILE :: "64 word" where "READ_FILE = 4"
definition READ_DIR :: "64 word" where "READ_DIR = 8"
definition handledReadAccess :: "64 word" where "handledReadAccess = READ_FILE OR READ_DIR"

type_synonym ll_rule = "path \<times> 64 word"

definition addPathRule :: "(path \<Rightarrow> bool) \<Rightarrow> ll_rule list \<Rightarrow> ll_rule \<Rightarrow> plan_error + ll_rule list" where
  "addPathRule opens rules rule = (if opens (fst rule) then Inr (rules @ [rule]) else Inl (OpenRuleFailed (fst rule)))"

fun add_rules :: "(path \<Rightarrow> bool) \<Rightarrow> ll_rule list \<Rightarrow> ll_rule list \<Rightarrow> plan_error + ll_rule list" where
  "add_rules opens rules [] = Inr rules"
| "add_rules opens rules (r # rs) = and_then (addPathRule opens rules r) (\<lambda>rules'. add_rules opens rules' rs)"

definition Landlock_Apply :: "bool \<Rightarrow> (path \<Rightarrow> bool) \<Rightarrow> bool \<Rightarrow> bool \<Rightarrow> Plan \<Rightarrow> plan_error + ll_rule list" where
  "Landlock_Apply created opens prctl_ok restrict_ok p =
     (if \<not> created then Inl RulesetFailed else and_then (add_rules opens [] ((ll_root p, READ_DIR)
        # map (\<lambda>r. (r, handledReadAccess)) (ll_runtime p)
        @ map (\<lambda>d. (d, READ_DIR)) (ll_dirs p) @ map (\<lambda>q. (q, READ_FILE)) (ll_files p))) (\<lambda>rules.
      if \<not> prctl_ok then Inl PrctlFailed
      else if \<not> restrict_ok then Inl RestrictFailed
      else Inr rules))"

definition granted :: "ll_rule list \<Rightarrow> 64 word \<Rightarrow> path \<Rightarrow> bool" where
  "granted rules access p = list_ex (\<lambda>(q, a). is_within (clean q) (clean p) \<and> a AND access = access) rules"

subsection \<open>What compiling produces\<close>

definition kernel_entry :: "Entry \<Rightarrow> bool" where
  "kernel_entry e = (e_type e = ''file'' \<or> e_type e = ''directory'')"

lemma Decision_values:
  "Decision read p = ''allow'' \<or>
   (Decision read p = ''audit'' \<and> rd_mode read = ModeAudit) \<or>
   (Decision read p = ''deny'' \<and> rd_mode read = ModeEnforce)"
  by (auto simp: Decision_def Explain_def split: option.splits)

lemma compile_step:
  "compile_entries read root bp fls ds (e # es) = Inr r \<longleftrightarrow>
     (if kernel_entry e
      then is_within root (candidate_path root e) \<and> length (candidate_path root e) \<le> 255 \<and>
        (if Decision read (candidate_path root e) = ''allow''
         then compile_entries read root bp
           (if rd_mode read = ModeEnforce \<and> e_type e = ''file'' then fls @ [candidate_path root e] else fls)
           (if rd_mode read = ModeEnforce \<and> e_type e \<noteq> ''file'' then ds @ [candidate_path root e] else ds) es = Inr r
         else compile_entries read root ((candidate_path root e, Decision read (candidate_path root e))
                # filter (\<lambda>kv. fst kv \<noteq> candidate_path root e) bp) fls ds es = Inr r)
      else compile_entries read root bp fls ds es = Inr r)"
proof (cases "kernel_entry e")
  case True
  then consider "e_type e = ''file''" | "e_type e = ''directory''" by (auto simp: kernel_entry_def)
  then show ?thesis using True by cases (simp_all add: Let_def MaxKernelPathBytes_def)
next
  case False
  then show ?thesis by (simp add: kernel_entry_def)
qed

lemma not_file_kernel: "kernel_entry e \<Longrightarrow> e_type e \<noteq> ''file'' \<longleftrightarrow> e_type e = ''directory''"
  by (auto simp: kernel_entry_def)

declare compile_entries.simps(2) [simp del]

lemma compile_entries_bounds:
  assumes "compile_entries read root bp fls ds es = Inr r" and "e \<in> set es" and "kernel_entry e"
  shows "is_within root (candidate_path root e) \<and> length (candidate_path root e) \<le> 255"
  using assms by (induction es arbitrary: bp fls ds) (auto simp: compile_step split: if_splits)

lemma compile_entries_files:
  assumes "compile_entries read root bp fls ds es = Inr (bp', fls', ds')"
  shows "fls' = fls @ map (candidate_path root) (filter (\<lambda>e. kernel_entry e \<and> e_type e = ''file'' \<and>
            rd_mode read = ModeEnforce \<and> Decision read (candidate_path root e) = ''allow'') es)"
  using assms
proof (induction es arbitrary: bp fls ds)
  case (Cons e es)
  show ?case
    using Cons.prems unfolding compile_step by (auto dest!: Cons.IH split: if_splits)
qed simp

lemma compile_entries_dirs:
  assumes "compile_entries read root bp fls ds es = Inr (bp', fls', ds')"
  shows "ds' = ds @ map (candidate_path root) (filter (\<lambda>e. kernel_entry e \<and> e_type e \<noteq> ''file'' \<and>
            rd_mode read = ModeEnforce \<and> Decision read (candidate_path root e) = ''allow'') es)"
  using assms
proof (induction es arbitrary: bp fls ds)
  case (Cons e es)
  show ?case
    using Cons.prems unfolding compile_step by (auto dest!: Cons.IH split: if_splits)
qed simp

lemma compile_entries_map:
  assumes "compile_entries read root bp fls ds es = Inr (bp', fls', ds')"
    and "distinct (map fst bp)" and "\<forall>(p, d) \<in> set bp. d = Decision read p"
  shows "distinct (map fst bp') \<and> (\<forall>p d. (p, d) \<in> set bp' \<longleftrightarrow>
     (p, d) \<in> set bp \<or> (d = Decision read p \<and> d \<noteq> ''allow'' \<and>
        (\<exists>e \<in> set es. kernel_entry e \<and> p = candidate_path root e)))"
  using assms
proof (induction es arbitrary: bp fls ds)
  case (Cons e es)
  let ?c = "candidate_path root e"
  let ?bp = "(?c, Decision read ?c) # filter (\<lambda>kv. fst kv \<noteq> ?c) bp"
  have d: "distinct (map fst ?bp)" "\<forall>(p, d) \<in> set ?bp. d = Decision read p"
    using Cons.prems(2,3) by (auto simp: distinct_map inj_on_def)
  show ?case
  proof (cases "kernel_entry e \<and> Decision read ?c \<noteq> ''allow''")
    case True
    then have "compile_entries read root ?bp fls ds es = Inr (bp', fls', ds')"
      using Cons.prems(1) unfolding compile_step by simp
    from Cons.IH [OF this d] True Cons.prems(3) show ?thesis by auto
  next
    case False
    then obtain f2 d2 where "compile_entries read root bp f2 d2 es = Inr (bp', fls', ds')"
      using Cons.prems(1) unfolding compile_step by (auto split: if_splits)
    from Cons.IH [OF this Cons.prems(2,3)] False show ?thesis by auto
  qed
qed simp

lemma sort_key_map_fst: "map rr_path (map (\<lambda>(p, d). \<lparr>rr_path = p, rr_decision = d\<rparr>) bp) = map fst bp"
  by (induction bp) auto

lemma rules_distinct:
  assumes "distinct (map fst bp)"
  shows "sorted_wrt (<) (map rr_path (sort_key rr_path (map (\<lambda>(p, d). \<lparr>rr_path = p, rr_decision = d\<rparr>) bp)))"
proof -
  have "distinct (map rr_path (map (\<lambda>(p, d). \<lparr>rr_path = p, rr_decision = d\<rparr>) bp))"
    using assms by (simp only: sort_key_map_fst)
  then show ?thesis by (rule strict_sort_key)
qed

text \<open>The rules a policy asks for on the entries of a manifest.\<close>

definition ruled :: "ReadPolicy \<Rightarrow> path \<Rightarrow> Entry list \<Rightarrow> path \<Rightarrow> string \<Rightarrow> bool" where
  "ruled read root es p d = (d = Decision read p \<and> (\<exists>e \<in> set es. kernel_entry e \<and> p = candidate_path root e))"

lemma CompileRead_Inr:
  assumes "CompileRead cwd read root snapshot = Inr rs" and "rd_mode read \<noteq> ModeOff"
  defines "r \<equiv> clean (abs_path cwd root)" and "es \<equiv> m_entries snapshot"
  obtains bp fls ds where "compile_entries read r [] [] [] es = Inr (bp, fls, ds)"
    and "rs = \<lparr>rs_mode = rd_mode read, rs_rules = sort_key rr_path (map (\<lambda>(p, d). \<lparr>rr_path = p, rr_decision = d\<rparr>) bp),
              rs_files = sort fls, rs_dirs = sort ds\<rparr>"
    and "distinct (map fst bp)" and "\<forall>p d. (p, d) \<in> set bp \<longleftrightarrow> ruled read r es p d \<and> d \<noteq> ''allow''"
proof -
  obtain bp fls ds where c: "compile_entries read r [] [] [] es = Inr (bp, fls, ds)"
    and rs: "rs = \<lparr>rs_mode = rd_mode read, rs_rules = sort_key rr_path (map (\<lambda>(p, d). \<lparr>rr_path = p, rr_decision = d\<rparr>) bp),
              rs_files = sort fls, rs_dirs = sort ds\<rparr>"
    using assms(1,2) by (auto simp: CompileRead_def Let_def r_def es_def)
  have "distinct (map fst bp)" "\<forall>p d. (p, d) \<in> set bp \<longleftrightarrow> ruled read r es p d \<and> d \<noteq> ''allow''"
    using compile_entries_map [OF c] by (simp_all add: ruled_def) blast
  with c rs show thesis by (rule that)
qed

subsection \<open>Properties\<close>

text \<open>
  Compiling a read policy is exact: for every path the manifest has a file or directory at,
  the rules hold the policy's decision when it is not to allow, and nothing else; they are in
  strictly increasing order of path; every path lies in the root, fits the kernel's key, and
  carries a decision the kernel has a code for.
\<close>

theorem compile_read_exact:
  assumes "CompileRead cwd read root snapshot = Inr rs" and "rd_mode read \<noteq> ModeOff"
  shows "(\<forall>p d. \<lparr>rr_path = p, rr_decision = d\<rparr> \<in> set (rs_rules rs) \<longleftrightarrow>
            ruled read (clean (abs_path cwd root)) (m_entries snapshot) p d \<and> d \<noteq> ''allow'') \<and>
     sorted_wrt (<) (map rr_path (rs_rules rs)) \<and>
     (\<forall>rule \<in> set (rs_rules rs). is_within (clean (abs_path cwd root)) (rr_path rule) \<and>
        length (rr_path rule) \<le> MaxKernelPathBytes \<and> is_ok (decisionCode (rr_decision rule)))"
proof (rule CompileRead_Inr [OF assms], intro conjI allI)
  fix bp fls ds
  assume c: "compile_entries read (clean (abs_path cwd root)) [] [] [] (m_entries snapshot) = Inr (bp, fls, ds)"
    and rs: "rs = \<lparr>rs_mode = rd_mode read, rs_rules = sort_key rr_path (map (\<lambda>(p, d). \<lparr>rr_path = p, rr_decision = d\<rparr>) bp),
              rs_files = sort fls, rs_dirs = sort ds\<rparr>"
    and d: "distinct (map fst bp)"
    and bp: "\<forall>p d. (p, d) \<in> set bp \<longleftrightarrow> ruled read (clean (abs_path cwd root)) (m_entries snapshot) p d \<and> d \<noteq> ''allow''"
  have mem: "\<lparr>rr_path = p, rr_decision = x\<rparr> \<in> set (rs_rules rs) \<longleftrightarrow> (p, x) \<in> set bp" for p x
    by (force simp: rs)
  then show "\<lparr>rr_path = p, rr_decision = x\<rparr> \<in> set (rs_rules rs) \<longleftrightarrow>
      ruled read (clean (abs_path cwd root)) (m_entries snapshot) p x \<and> x \<noteq> ''allow''" for p x
    using bp by blast
  show "sorted_wrt (<) (map rr_path (rs_rules rs))" using rules_distinct [OF d] by (simp add: rs)
  show "\<forall>rule \<in> set (rs_rules rs). is_within (clean (abs_path cwd root)) (rr_path rule) \<and>
        length (rr_path rule) \<le> MaxKernelPathBytes \<and> is_ok (decisionCode (rr_decision rule))"
  proof
    fix rule assume "rule \<in> set (rs_rules rs)"
    then have "(rr_path rule, rr_decision rule) \<in> set bp" by - (cases rule; simp add: mem)
    then obtain e where e: "e \<in> set (m_entries snapshot)" "kernel_entry e"
      "rr_path rule = candidate_path (clean (abs_path cwd root)) e"
      and dec: "rr_decision rule = Decision read (rr_path rule)" "rr_decision rule \<noteq> ''allow''"
      using bp unfolding ruled_def by blast
    moreover have "is_ok (decisionCode (rr_decision rule))"
      using dec Decision_values [of read "rr_path rule"] by (auto simp: decisionCode_def)
    ultimately show "is_within (clean (abs_path cwd root)) (rr_path rule) \<and>
        length (rr_path rule) \<le> MaxKernelPathBytes \<and> is_ok (decisionCode (rr_decision rule))"
      using compile_entries_bounds [OF c e(1,2)] by (simp add: MaxKernelPathBytes_def)
  qed
qed

definition demo_read :: ReadPolicy where
  "demo_read = \<lparr>rd_mode = ''enforce'', rd_deny = [''/w/k''], rd_allow = [], rd_pii = \<lparr>pii_mode = []\<rparr>\<rparr>"

definition demo_snapshot :: Manifest where
  "demo_snapshot = \<lparr>m_version = 1, m_entries =
     [\<lparr>e_path = ''a'', e_type = ''file'', e_mode = 420, e_size = 1, e_sha = ''x'', e_link = []\<rparr>,
      \<lparr>e_path = ''k'', e_type = ''file'', e_mode = 420, e_size = 1, e_sha = ''x'', e_link = []\<rparr>]\<rparr>"

lemma demo_compiled: "CompileRead ''/'' demo_read ''/w'' demo_snapshot =
    Inr \<lparr>rs_mode = ''enforce'', rs_rules = [\<lparr>rr_path = ''/w/k'', rr_decision = ''deny''\<rparr>],
         rs_files = [''/w/a''], rs_dirs = []\<rparr>"
  by code_simp

theorem compile_read_exact_witness:
  "ruled demo_read (clean (abs_path ''/'' ''/w'')) (m_entries demo_snapshot) ''/w/k'' ''deny'' \<and> 
   \<not> (ruled demo_read (clean (abs_path ''/'' ''/w'')) (m_entries demo_snapshot) ''/w/a'' ''deny'')"
proof -
  have "rd_mode demo_read \<noteq> ModeOff" by (simp add: demo_read_def ModeOff_def)
  from compile_read_exact [OF demo_compiled this]
  have *: "\<forall>p d. (p = ''/w/k'' \<and> d = ''deny'') \<longleftrightarrow>
      ruled demo_read (clean (abs_path ''/'' ''/w'')) (m_entries demo_snapshot) p d \<and> d \<noteq> ''allow''"
    by simp
  from * [rule_format, of "''/w/k''" "''deny''"] * [rule_format, of "''/w/a''" "''deny''"]
  show ?thesis by simp
qed

subsection \<open>Installing\<close>

lemma makeReadRuleKey_inj:
  assumes "makeReadRuleKey p = Inr k" and "makeReadRuleKey q = Inr k"
  shows "p = q"
proof -
  have nul: "takeWhile (\<lambda>c. c \<noteq> CHR 0x00) (x @ replicate (256 - length x) CHR 0x00) = x"
    if "CHR 0x00 \<notin> set x" for x
    using that by (cases "256 - length x") (auto simp: takeWhile_append2 takeWhile_tail)
  show ?thesis
    using assms nul [of p] nul [of q] by (auto simp: makeReadRuleKey_def split: if_splits)
qed

lemma makeReadRuleKey_ok: "CHR 0x00 \<notin> set p \<Longrightarrow> length p \<le> 255 \<Longrightarrow> \<exists>k. makeReadRuleKey p = Inr k"
  by (simp add: makeReadRuleKey_def)

lemma install_rules_total:
  assumes law: "\<forall>m k v. \<exists>m'. upd m k v = Some m' \<and> get m' = (get m)(k \<mapsto> v)"
    and "\<forall>r \<in> set rules. is_ok (makeReadRuleKey (rr_path r)) \<and> is_ok (decisionCode (rr_decision r))"
    and "distinct (map rr_path rules)"
  shows "\<exists>m'. install_rules upd m rules = (m', None) \<and>
     (\<forall>r k v. r \<in> set rules \<longrightarrow> makeReadRuleKey (rr_path r) = Inr k \<longrightarrow> decisionCode (rr_decision r) = Inr v \<longrightarrow>
        get m' k = Some v) \<and>
     (\<forall>k. (\<forall>r \<in> set rules. makeReadRuleKey (rr_path r) \<noteq> Inr k) \<longrightarrow> get m' k = get m k)"
  using assms(2,3)
proof (induction rules arbitrary: m)
  case (Cons r rules)
  obtain k v where kv: "makeReadRuleKey (rr_path r) = Inr k" "decisionCode (rr_decision r) = Inr v"
    using Cons.prems(1) by (auto simp: is_ok_iff)
  obtain m1 where m1: "upd m k v = Some m1" "get m1 = (get m)(k \<mapsto> v)" using law by blast
  obtain m' where m': "install_rules upd m1 rules = (m', None)"
    and hit: "\<And>r k v. r \<in> set rules \<Longrightarrow> makeReadRuleKey (rr_path r) = Inr k \<Longrightarrow>
        decisionCode (rr_decision r) = Inr v \<Longrightarrow> get m' k = Some v"
    and miss: "\<And>k. \<forall>r \<in> set rules. makeReadRuleKey (rr_path r) \<noteq> Inr k \<Longrightarrow> get m' k = get m1 k"
    using Cons.IH [of m1] Cons.prems by auto
  have "\<forall>r' \<in> set rules. makeReadRuleKey (rr_path r') \<noteq> Inr k"
  proof (intro ballI notI)
    fix r' assume r': "r' \<in> set rules" "makeReadRuleKey (rr_path r') = Inr k"
    then have "rr_path r' = rr_path r" using makeReadRuleKey_inj kv(1) by blast
    with imageI [OF r'(1), of rr_path] Cons.prems(2) show False by simp
  qed
  then have "get m' k = Some v" using miss m1(2) by simp
  then show ?case
    using m' hit miss kv m1 by (intro exI [of _ m']) auto
qed simp

text \<open>
  The compiled read rules reach the kernel: when the map takes every update and no path has
  a NUL byte, installing compiled rules succeeds, leaves under the key of every rule the code of
  its decision, and changes no other key.
\<close>

theorem compiled_rules_install:
  assumes law: "\<forall>m k v. \<exists>m'. upd m k v = Some m' \<and> get m' = (get m)(k \<mapsto> v)"
    and "CompileRead cwd read root snapshot = Inr rs" and "rd_mode read \<noteq> ModeOff"
    and "\<forall>r \<in> set (rs_rules rs). CHR 0x00 \<notin> set (rr_path r)"
  shows "\<exists>m'. InstallReadRules upd (Some m) rs = (Some m', None) \<and>
     (\<forall>r \<in> set (rs_rules rs). \<exists>k. makeReadRuleKey (rr_path r) = Inr k \<and>
        get m' k = Some (if rr_decision r = ''deny'' then 2 else 1)) \<and>
     (\<forall>k. (\<forall>r \<in> set (rs_rules rs). makeReadRuleKey (rr_path r) \<noteq> Inr k) \<longrightarrow> get m' k = get m k)"
proof (rule CompileRead_Inr [OF assms(2,3)])
  fix bp fls ds
  let ?r = "clean (abs_path cwd root)"
  assume c: "compile_entries read ?r [] [] [] (m_entries snapshot) = Inr (bp, fls, ds)"
    and rs: "rs = \<lparr>rs_mode = rd_mode read, rs_rules = sort_key rr_path (map (\<lambda>(p, d). \<lparr>rr_path = p, rr_decision = d\<rparr>) bp),
              rs_files = sort fls, rs_dirs = sort ds\<rparr>"
    and d: "distinct (map fst bp)"
    and bp: "\<forall>p d. (p, d) \<in> set bp \<longleftrightarrow> ruled read ?r (m_entries snapshot) p d \<and> d \<noteq> ''allow''"
  have each: "length (rr_path r) \<le> 255 \<and> (rr_decision r = ''audit'' \<or> rr_decision r = ''deny'')"
    if "r \<in> set (rs_rules rs)" for r
  proof -
    have "(rr_path r, rr_decision r) \<in> set bp" using that by (auto simp: rs)
    then obtain e where e: "e \<in> set (m_entries snapshot)" "kernel_entry e" "rr_path r = candidate_path ?r e"
      and "rr_decision r = Decision read (rr_path r)" "rr_decision r \<noteq> ''allow''"
      using bp unfolding ruled_def by blast
    then show ?thesis
      using compile_entries_bounds [OF c e(1,2)] Decision_values [of read "rr_path r"] by auto
  qed
  then have keys: "is_ok (makeReadRuleKey (rr_path r)) \<and> is_ok (decisionCode (rr_decision r))"
    if "r \<in> set (rs_rules rs)" for r
    using that assms(4) makeReadRuleKey_ok [of "rr_path r"] by (auto simp: is_ok_iff decisionCode_def)
  have dist: "distinct (map rr_path (rs_rules rs))"
    using rules_distinct [OF d] by (simp add: rs strict_sorted_iff)
  obtain m' where m': "install_rules upd m (rs_rules rs) = (m', None)"
    and hit: "\<And>r k v. r \<in> set (rs_rules rs) \<Longrightarrow> makeReadRuleKey (rr_path r) = Inr k \<Longrightarrow>
        decisionCode (rr_decision r) = Inr v \<Longrightarrow> get m' k = Some v"
    and miss: "\<And>k. \<forall>r \<in> set (rs_rules rs). makeReadRuleKey (rr_path r) \<noteq> Inr k \<Longrightarrow> get m' k = get m k"
    using install_rules_total [OF law _ dist, of m] keys by blast
  have "rs_mode rs \<noteq> ''off''" using assms(3) by (simp add: rs ModeOff_def)
  with m' have "InstallReadRules upd (Some m) rs = (Some m', None)" by (simp add: InstallReadRules_def)
  moreover have "\<exists>k. makeReadRuleKey (rr_path r) = Inr k \<and> get m' k = Some (if rr_decision r = ''deny'' then 2 else 1)"
    if r: "r \<in> set (rs_rules rs)" for r
  proof -
    obtain k where k: "makeReadRuleKey (rr_path r) = Inr k" using keys [OF r] by (auto simp: is_ok_iff)
    have "decisionCode (rr_decision r) = Inr (if rr_decision r = ''deny'' then 2 else 1)"
      using each [OF r] by (auto simp: decisionCode_def)
    from hit [OF r k this] k show ?thesis by blast
  qed
  ultimately show ?thesis using miss by blast
qed

theorem compiled_rules_install_witness:
  "\<exists>m k. InstallReadRules (\<lambda>m k v. Some (m(k \<mapsto> v))) (Some Map.empty)
       \<lparr>rs_mode = ''enforce'', rs_rules = [\<lparr>rr_path = ''/w/k'', rr_decision = ''deny''\<rparr>],
         rs_files = [''/w/a''], rs_dirs = []\<rparr> = (Some m, None) \<and>
     makeReadRuleKey ''/w/k'' = Inr k \<and> m k = Some 2"
proof -
  have "rd_mode demo_read \<noteq> ModeOff" by (simp add: demo_read_def ModeOff_def)
  from compiled_rules_install [OF _ demo_compiled this, of "\<lambda>m k v. Some (m(k \<mapsto> v))" "\<lambda>m. m" Map.empty]
  show ?thesis by simp blast
qed

text \<open>
  \<open>InstallReadRules\<close> is neither atomic nor a replacement: a rule whose decision the kernel
  has no code for fails the call, yet the rules before it are installed already; and what the
  map held before stays there.
\<close>

theorem install_is_not_atomic:
  "InstallReadRules (\<lambda>m k v. Some (AList.update k v m)) (Some [(''stale'', 2)])
       \<lparr>rs_mode = ''enforce'', rs_rules = [\<lparr>rr_path = ''/w/a'', rr_decision = ''deny''\<rparr>,
          \<lparr>rr_path = ''/w/b'', rr_decision = ''block''\<rparr>], rs_files = [], rs_dirs = []\<rparr> =
   (Some [(''stale'', 2), (''/w/a'' @ replicate 252 CHR 0x00, 2)], Some (BadDecision ''block''))"
  by code_simp

subsection \<open>Landlock\<close>

lemma add_rules_Inr: "add_rules opens rules rs = Inr out \<longleftrightarrow> (\<forall>r \<in> set rs. opens (fst r)) \<and> out = rules @ rs"
  by (induction rs arbitrary: rules) (auto simp: addPathRule_def)

lemma access_bits:
  "READ_DIR AND READ_FILE \<noteq> READ_FILE" "handledReadAccess AND READ_FILE = READ_FILE" "READ_FILE AND READ_FILE = READ_FILE"
  by (simp_all add: READ_DIR_def READ_FILE_def handledReadAccess_def)

lemma BuildPlan_Inr:
  assumes "BuildPlan cwd f root rs rts = Inr p"
  defines "r \<equiv> clean (abs_path cwd root)"
  shows "ll_root p = r" and "set (ll_files p) = set (rs_files rs)" and "set (ll_dirs p) = set (rs_dirs rs)"
    and "set (ll_runtime p) = set rts" and "rs_mode rs = ModeEnforce"
    and "\<And>q. q \<in> set (rs_files rs) \<union> set (rs_dirs rs) \<Longrightarrow> is_within r (clean q)"
    and "\<And>t. t \<in> set rts \<Longrightarrow> is_abs t \<and> \<not> is_within r (clean t) \<and> \<not> is_within (clean t) r"
  using assms by (auto simp: BuildPlan_def Let_def check_runtime_def split: if_splits option.splits)

lemma granted_read:
  assumes "Landlock_Apply created opens pr rt p = Inr rules"
  shows "granted rules READ_FILE q \<longleftrightarrow>
     (\<exists>x \<in> set (ll_runtime p) \<union> set (ll_files p). is_within (clean x) (clean q))"
proof -
  have "rules = (ll_root p, READ_DIR) # map (\<lambda>r. (r, handledReadAccess)) (ll_runtime p)
        @ map (\<lambda>d. (d, READ_DIR)) (ll_dirs p) @ map (\<lambda>q. (q, READ_FILE)) (ll_files p)"
    using assms by (auto simp: Landlock_Apply_def add_rules_Inr addPathRule_def split: if_splits)
  then show ?thesis
    by (simp add: granted_def access_bits list_ex_iff bex_Un del: is_within_clean)
qed


definition demo_runtime_fs :: fs where
  "demo_runtime_fs = [([''usr''], NDir 493)]"


end
