(* ===== verification/Overlay_Model.thy ===== *)
theory Overlay_Model
  imports Fs_Model
begin

text \<open>
  \<open>internal/overlay\<close>: the directory layout of a run, its validation, and the manager that mounts,
  unmounts and rolls back.  Commands are run through an interface; what the \<open>n\<close>-th command
  answers is the environment's choice (\<open>oe_run\<close>, \<open>None\<close> for success, otherwise the error's
  message), and the commands are recorded.  The two bounded waits of \<open>Unmount\<close> are the source's:
  at most 20 retries and at most 200 polls.  The wait for a FUSE mount ends at a deadline of five
  seconds: \<open>oe_ticks\<close> lists what the \<open>select\<close> sees before the deadline.
  \<open>Validate\<close> goes over a Go map, in an unspecified order; the order here is upper, work, merged,
  and only the choice among several errors depends on it.
\<close>

record Layout =
  l_root :: path
  l_lower :: path
  l_upper :: path
  l_work :: path
  l_merged :: path

datatype overlay_error =
    RootEmpty
  | RootIsSlash
  | LowerEmpty
  | PathNotAbs string
  | PathBadChar string
  | PathOutside string
  | PathsOverlap string
  | LowerNotAbs
  | LowerUnsafe
  | LowerIsRoot
  | RootInLower
  | LowerOverlaps string
  | CreateFailed path
  | ChownFailed path
  | UnknownBackend string
  | OwnerRequired
  | StartFailed
  | CommandFailed string
  | MountExited
  | Cancelled
  | MountTimeout
  | UnmountTimeout
  | RollbackUnmount overlay_error
  | RollbackRemove path
  | RollbackRecreate path

subsection \<open>Layouts\<close>

definition bad_option_char :: "string \<Rightarrow> bool" where
  "bad_option_char s = contains_any [CHR '','', CHR 0x0A, CHR 0x0D] s"

definition validate_path :: "path \<Rightarrow> path list \<Rightarrow> string \<times> path \<Rightarrow> overlay_error + unit" where
  "validate_path root seen nv =
     (let (name, value) = nv; cl = clean value in
      if value = [] \<or> \<not> is_abs value then Inl (PathNotAbs name)
      else if bad_option_char cl then Inl (PathBadChar name)
      else (case rel_path root cl of
              None \<Rightarrow> Inl (PathOutside name)
            | Some rel \<Rightarrow>
                if escapes rel then Inl (PathOutside name)
                else if cl \<in> set seen then Inl (PathsOverlap name)
                else Inr ()))"

fun validate_paths :: "path \<Rightarrow> path list \<Rightarrow> (string \<times> path) list \<Rightarrow> overlay_error + unit" where
  "validate_paths root seen [] = Inr ()"
| "validate_paths root seen (nv # rest) =
     and_then (validate_path root seen nv) (\<lambda>_. validate_paths root (clean (snd nv) # seen) rest)"

definition layout_paths :: "Layout \<Rightarrow> (string \<times> path) list" where
  "layout_paths l = [(''upper'', l_upper l), (''work'', l_work l), (''merged'', l_merged l)]"

definition Layout_Validate :: "Layout \<Rightarrow> overlay_error + unit" where
  "Layout_Validate l =
     (if l_root l = [] then Inl RootEmpty
      else (let root = clean (l_root l); lower = clean (l_lower l) in
        if root = [sep] then Inl RootIsSlash
        else and_then (validate_paths root [] (layout_paths l)) (\<lambda>_.
          if l_lower l = [] \<or> \<not> is_abs (l_lower l) then Inl LowerNotAbs
          else if lower = [sep] \<or> bad_option_char lower then Inl LowerUnsafe
          else if is_within root lower \<and> lower = root then Inl LowerIsRoot
          else if is_within lower root then Inl RootInLower
          else try_all (\<lambda>(name, value). if clean value = lower then Inl (LowerOverlaps name) else Inr ())
                 (layout_paths l))))"

definition NewLayout :: "path \<Rightarrow> path \<Rightarrow> overlay_error + Layout" where
  "NewLayout cwd root0 =
     (if blank root0 then Inl RootEmpty
      else (let root = clean (abs_path cwd root0) in
        if root = [sep] then Inl RootIsSlash
        else (let l = \<lparr>l_root = root, l_lower = path_join root ''lower'', l_upper = path_join root ''upper'',
                       l_work = path_join root ''work'', l_merged = path_join root ''merged''\<rparr> in
              and_then (Layout_Validate l) (\<lambda>_. Inr l))))"

definition NewLayoutWithLower :: "path \<Rightarrow> path \<Rightarrow> path \<Rightarrow> overlay_error + Layout" where
  "NewLayoutWithLower cwd root lower =
     and_then (NewLayout cwd root) (\<lambda>l.
       if blank lower then Inl LowerEmpty
       else (let l' = l\<lparr>l_lower := clean (abs_path cwd lower)\<rparr> in
             and_then (Layout_Validate l') (\<lambda>_. Inr l')))"

subsection \<open>The manager\<close>

datatype tick = Tick | ProcessDone | CtxDone

record ov_env =
  oe_umask :: fmode
  oe_backend :: string
  oe_owner :: "(int \<times> int) option"
  oe_real_runner :: bool
  oe_run :: "nat \<Rightarrow> string option"
  oe_cancelled :: "nat \<Rightarrow> bool"
  oe_start_ok :: bool
  oe_ticks :: "tick list"
  oe_chown_ok :: "path \<Rightarrow> bool"
  oe_mkdir_ok :: "path \<Rightarrow> bool"
  oe_remove_ok :: "path \<Rightarrow> bool"

type_synonym cmd = "string list"

record ov_world =
  ov_fs :: fs
  ov_cmds :: "cmd list"
  ov_kills :: nat

definition backend :: "ov_env \<Rightarrow> string" where
  "backend env = (if oe_backend env = [] then ''kernel'' else oe_backend env)"

text \<open>\<open>os.MkdirAll\<close> at the path of the layout, mode 755.\<close>

definition make_dir :: "ov_env \<Rightarrow> fs \<Rightarrow> path \<Rightarrow> fs option" where
  "make_dir env f p = (if oe_mkdir_ok env p then MkdirAll (oe_umask env) 493 f (csegs p) else None)"

fun make_dirs :: "ov_env \<Rightarrow> fs \<Rightarrow> path list \<Rightarrow> fs \<times> overlay_error option" where
  "make_dirs env f [] = (f, None)"
| "make_dirs env f (p # ps) =
     (case make_dir env f p of None \<Rightarrow> (f, Some (CreateFailed p)) | Some f' \<Rightarrow> make_dirs env f' ps)"

definition Layout_Prepare :: "ov_env \<Rightarrow> fs \<Rightarrow> Layout \<Rightarrow> fs \<times> overlay_error option" where
  "Layout_Prepare env f l =
     (case Layout_Validate l of
        Inl e \<Rightarrow> (f, Some e)
      | Inr _ \<Rightarrow> make_dirs env f [l_root l, l_lower l, l_upper l, l_work l, l_merged l])"

definition run_cmd :: "ov_env \<Rightarrow> ov_world \<Rightarrow> cmd \<Rightarrow> ov_world \<times> string option" where
  "run_cmd env w c = (w\<lparr>ov_cmds := ov_cmds w @ [c]\<rparr>, oe_run env (length (ov_cmds w)))"

definition mount_options :: "Layout \<Rightarrow> string" where
  "mount_options l = ''lowerdir='' @ l_lower l @ '',upperdir='' @ l_upper l @ '',workdir='' @ l_work l"

fun waitForMount :: "ov_env \<Rightarrow> ov_world \<Rightarrow> path \<Rightarrow> tick list \<Rightarrow> ov_world \<times> overlay_error option" where
  "waitForMount env w mp ticks =
     (case run_cmd env w [''mountpoint'', ''-q'', mp] of
        (w', None) \<Rightarrow> (w', None)
      | (w', Some _) \<Rightarrow>
          (case ticks of
             [] \<Rightarrow> (w', Some MountTimeout)
           | Tick # ts \<Rightarrow> waitForMount env w' mp ts
           | ProcessDone # _ \<Rightarrow> (w', Some MountExited)
           | CtxDone # _ \<Rightarrow> (w', Some Cancelled)))"

definition mountFuse :: "ov_env \<Rightarrow> ov_world \<Rightarrow> Layout \<Rightarrow> ov_world \<times> overlay_error option" where
  "mountFuse env w l =
     (case oe_owner env of
        None \<Rightarrow> (w, Some OwnerRequired)
      | Some (uid, gid) \<Rightarrow>
          (let options = mount_options l @ '',uid='' @ show_int uid @ '',gid='' @ show_int gid @ '',allow_other'';
               w1 = w\<lparr>ov_cmds := ov_cmds w @ [[''fuse-overlayfs'', ''-f'', ''-o'', options, l_merged l]]\<rparr> in
           if \<not> oe_start_ok env then (w1, Some StartFailed)
           else (case waitForMount env w1 (l_merged l) (oe_ticks env) of
                   (w2, None) \<Rightarrow> (w2, None)
                 | (w2, Some e) \<Rightarrow> (w2\<lparr>ov_kills := ov_kills w2 + 1\<rparr>, Some e))))"

definition Mount :: "ov_env \<Rightarrow> ov_world \<Rightarrow> Layout \<Rightarrow> ov_world \<times> overlay_error option" where
  "Mount env w l =
     (case Layout_Prepare env (ov_fs w) l of
        (f, Some e) \<Rightarrow> (w\<lparr>ov_fs := f\<rparr>, Some e)
      | (f, None) \<Rightarrow>
          (let w1 = w\<lparr>ov_fs := f\<rparr> in
           if oe_owner env \<noteq> None \<and> \<not> oe_chown_ok env (l_upper l) then (w1, Some (ChownFailed (l_upper l)))
           else if oe_owner env \<noteq> None \<and> \<not> oe_chown_ok env (l_work l) then (w1, Some (ChownFailed (l_work l)))
           else if backend env = ''kernel'' then
             (case run_cmd env w1 [''mount'', ''-t'', ''overlay'', ''overlay'', ''-o'', mount_options l, l_merged l] of
                (w2, None) \<Rightarrow> (w2, None)
              | (w2, Some msg) \<Rightarrow> (w2, Some (CommandFailed msg)))
           else if backend env = ''fuse'' then mountFuse env w1 l
           else (w1, Some (UnknownBackend (backend env)))))"

subsection \<open>Unmounting\<close>

definition unmountBusy :: "string \<Rightarrow> bool" where
  "unmountBusy msg = (contains_sub ''device or resource busy'' (to_lower msg) \<or>
     contains_sub ''resource busy'' (to_lower msg))"

definition alreadyUnmounted :: "string \<Rightarrow> bool" where
  "alreadyUnmounted msg = (contains_sub ''invalid argument'' (to_lower msg) \<or>
     contains_sub ''not found in /etc/mtab'' (to_lower msg) \<or> contains_sub ''not mounted'' (to_lower msg))"

definition max_retries :: nat where "max_retries = 20"
definition max_polls :: nat where "max_polls = 200"

text \<open>The polls left are the argument; the \<open>n\<close>-th wait is numbered by the commands run so far.\<close>

fun waitForUnmount :: "ov_env \<Rightarrow> nat \<Rightarrow> ov_world \<Rightarrow> path \<Rightarrow> ov_world \<times> overlay_error option" where
  "waitForUnmount env 0 w mp = (w, Some UnmountTimeout)"
| "waitForUnmount env (Suc k) w mp =
     (case run_cmd env w [''mountpoint'', ''-q'', mp] of
        (w', Some _) \<Rightarrow> (w', None)
      | (w', None) \<Rightarrow>
          if oe_cancelled env (length (ov_cmds w')) then (w', Some Cancelled)
          else waitForUnmount env k w' mp)"

definition unmount_cmd :: "ov_env \<Rightarrow> Layout \<Rightarrow> cmd" where
  "unmount_cmd env l = (if backend env = ''fuse'' then [''fusermount3'', ''-u'', l_merged l]
                        else [''umount'', l_merged l])"

function unmount_loop :: "ov_env \<Rightarrow> nat \<Rightarrow> ov_world \<Rightarrow> Layout \<Rightarrow> ov_world \<times> overlay_error option" where
  "unmount_loop env attempt w l =
     (case run_cmd env w (unmount_cmd env l) of
        (w', None) \<Rightarrow>
          if oe_real_runner env then waitForUnmount env max_polls w' (l_merged l) else (w', None)
      | (w', Some msg) \<Rightarrow>
          if \<not> unmountBusy msg \<or> attempt \<ge> max_retries then (w', Some (CommandFailed msg))
          else if oe_cancelled env (length (ov_cmds w')) then (w', Some Cancelled)
          else unmount_loop env (attempt + 1) w' l)"
  by pat_completeness auto
termination
  by (relation "measure (\<lambda>(env, attempt, w, l). Suc max_retries - attempt)") auto

declare unmount_loop.simps [simp del]

definition Unmount :: "ov_env \<Rightarrow> ov_world \<Rightarrow> Layout \<Rightarrow> ov_world \<times> overlay_error option" where
  "Unmount env w l =
     (case Layout_Validate l of Inl e \<Rightarrow> (w, Some e) | Inr _ \<Rightarrow> unmount_loop env 0 w l)"

text \<open>
  \<open>alreadyUnmounted\<close> looks at the message of whatever error \<open>Unmount\<close> returned; of those only a
  failing command's message can contain the texts it looks for (the other messages quote the
  merged path, which is left out of account).
\<close>

definition already_gone :: "ov_env \<Rightarrow> overlay_error \<Rightarrow> bool" where
  "already_gone env e = (backend env = ''fuse'' \<and>
     (case e of CommandFailed msg \<Rightarrow> alreadyUnmounted msg | _ \<Rightarrow> False))"

fun reset_layers :: "ov_env \<Rightarrow> fs \<Rightarrow> path list \<Rightarrow> fs \<times> overlay_error option" where
  "reset_layers env f [] = (f, None)"
| "reset_layers env f (p # ps) =
     (if \<not> oe_remove_ok env p then (f, Some (RollbackRemove p))
      else (let f1 = RemoveAll f (csegs p) in
            case make_dir env f1 p of
              None \<Rightarrow> (f1, Some (RollbackRecreate p))
            | Some f2 \<Rightarrow> reset_layers env f2 ps))"

definition Rollback :: "ov_env \<Rightarrow> ov_world \<Rightarrow> Layout \<Rightarrow> ov_world \<times> overlay_error option" where
  "Rollback env w l =
     (case Layout_Validate l of
        Inl e \<Rightarrow> (w, Some e)
      | Inr _ \<Rightarrow>
          (case Unmount env w l of
             (w1, r) \<Rightarrow>
               (case r of
                  Some e \<Rightarrow>
                    if \<not> already_gone env e then (w1, Some (RollbackUnmount e))
                    else (case reset_layers env (ov_fs w1) [l_upper l, l_work l] of
                            (f, e') \<Rightarrow> (w1\<lparr>ov_fs := f\<rparr>, e'))
                | None \<Rightarrow>
                    (case reset_layers env (ov_fs w1) [l_upper l, l_work l] of
                       (f, e') \<Rightarrow> (w1\<lparr>ov_fs := f\<rparr>, e')))))"

subsection \<open>What the manager's steps keep\<close>

lemma waitForUnmount_keeps:
  assumes "waitForUnmount env k w mp = (w', r)"
  shows "ov_fs w' = ov_fs w \<and> prefix (ov_cmds w) (ov_cmds w') \<and> length (ov_cmds w') \<le> length (ov_cmds w) + k \<and>
     (r = None \<or> r = Some UnmountTimeout \<or> r = Some Cancelled)"
  using assms
proof (induction k arbitrary: w)
  case (Suc k)
  let ?w1 = "w\<lparr>ov_cmds := ov_cmds w @ [[''mountpoint'', ''-q'', mp]]\<rparr>"
  show ?case
  proof (cases "oe_run env (length (ov_cmds w))")
    case None
    show ?thesis
    proof (cases "oe_cancelled env (Suc (length (ov_cmds w)))")
      case False
      then have "waitForUnmount env k ?w1 mp = (w', r)" using Suc.prems None by (simp add: run_cmd_def)
      from Suc.IH [OF this] show ?thesis by (auto intro: append_prefixD)
    qed (use Suc.prems None in \<open>auto simp: run_cmd_def\<close>)
  qed (use Suc.prems in \<open>auto simp: run_cmd_def\<close>)
qed simp

text \<open>An unmount command whose answer lets a rollback go on.\<close>

definition unmounted_at :: "ov_env \<Rightarrow> Layout \<Rightarrow> cmd list \<Rightarrow> nat \<Rightarrow> bool" where
  "unmounted_at env l cmds i = (i < length cmds \<and> cmds ! i = unmount_cmd env l \<and>
     (case oe_run env i of None \<Rightarrow> True | Some msg \<Rightarrow> backend env = ''fuse'' \<and> alreadyUnmounted msg))"

lemma unmounted_at_prefix: "unmounted_at env l xs i \<Longrightarrow> prefix xs ys \<Longrightarrow> unmounted_at env l ys i"
  by (auto simp: unmounted_at_def prefix_def nth_append)

lemma unmount_loop_keeps:
  assumes "unmount_loop env a w l = (w', r)" and "a \<le> max_retries"
  shows "ov_fs w' = ov_fs w \<and> prefix (ov_cmds w) (ov_cmds w') \<and>
     length (ov_cmds w') \<le> length (ov_cmds w) + (max_retries - a) + 1 + max_polls \<and>
     (r = None \<or> (\<exists>e. r = Some e \<and> already_gone env e) \<longrightarrow>
        (\<exists>i \<ge> length (ov_cmds w). unmounted_at env l (ov_cmds w') i))"
  using assms
proof (induction env a w l rule: unmount_loop.induct)
  case (1 env a w l)
  let ?c = "unmount_cmd env l"
  let ?w1 = "w\<lparr>ov_cmds := ov_cmds w @ [?c]\<rparr>"
  have rc: "run_cmd env w ?c = (?w1, oe_run env (length (ov_cmds w)))" by (simp add: run_cmd_def)
  have here: "unmounted_at env l (ov_cmds ?w1) (length (ov_cmds w))"
    if "case oe_run env (length (ov_cmds w)) of None \<Rightarrow> True | Some msg \<Rightarrow> backend env = ''fuse'' \<and> alreadyUnmounted msg"
    using that by (simp add: unmounted_at_def)
  show ?case
  proof (cases "oe_run env (length (ov_cmds w))")
    case None
    show ?thesis
    proof (cases "oe_real_runner env")
      case True
      then have "waitForUnmount env max_polls ?w1 (l_merged l) = (w', r)"
        using "1.prems"(1) None rc by (subst (asm) unmount_loop.simps) simp
      note k = waitForUnmount_keeps [OF this]
      then have "unmounted_at env l (ov_cmds w') (length (ov_cmds w))"
        using unmounted_at_prefix [OF here] None by simp
      then show ?thesis using k "1.prems"(2) by (auto intro: append_prefixD)
    next
      case False
      then have "w' = ?w1" using "1.prems"(1) None rc by (subst (asm) unmount_loop.simps) simp
      then show ?thesis using here None by auto
    qed
  next
    case (Some msg)
    consider "\<not> unmountBusy msg \<or> a \<ge> max_retries"
      | "\<not> (\<not> unmountBusy msg \<or> a \<ge> max_retries)" "oe_cancelled env (length (ov_cmds ?w1))"
      | "\<not> (\<not> unmountBusy msg \<or> a \<ge> max_retries)" "\<not> oe_cancelled env (length (ov_cmds ?w1))" by blast
    then show ?thesis
    proof cases
      case 1
      then have "w' = ?w1 \<and> r = Some (CommandFailed msg)"
        using "1.prems"(1) Some rc by (subst (asm) unmount_loop.simps) simp
      then show ?thesis using here Some by (auto simp: already_gone_def)
    next
      case 2
      then have "w' = ?w1 \<and> r = Some Cancelled"
        using "1.prems"(1) Some rc by (subst (asm) unmount_loop.simps) simp
      then show ?thesis by (auto simp: already_gone_def)
    next
      case 3
      then have "unmount_loop env (a + 1) ?w1 l = (w', r)"
        using "1.prems"(1) Some rc by (subst (asm) unmount_loop.simps) simp
      from "1.IH" [OF rc [symmetric] Some 3 this] 3 show ?thesis
        by (auto intro: append_prefixD Suc_leD)
    qed
  qed
qed

lemma reset_one:
  assumes "plain_way f (butlast (csegs p))" and "is_abs p" and "csegs p \<noteq> []"
    and "make_dir env (RemoveAll f (csegs p)) p = Some f2"
  shows "no_new_links f f2 \<and> fs_get f2 (csegs p) = Some (NDir (493 AND NOT (oe_umask env))) \<and>
     (\<forall>q. prefix (csegs p) q \<longrightarrow> q \<noteq> csegs p \<longrightarrow> fs_get f2 q = None) \<and>
     (\<forall>q n. fs_get f q = Some n \<longrightarrow> \<not> prefix (csegs p) q \<longrightarrow> fs_get f2 q = Some n) \<and>
     (\<forall>q n. fs_get f q = None \<longrightarrow> fs_get f2 q = Some n \<longrightarrow> prefix q (csegs p))"
proof -
  let ?p = "csegs p"
  have dd: "dotdot \<notin> set ?p" using assms(2) by (rule csegs_no_dotdot)
  define f1 where "f1 = fs_remove ?p f"
  have "RemoveAll f ?p = f1" by (simp add: RemoveAll_def phys_last_plain_way [OF assms(1) dd] f1_def)
  then have m: "MkdirAll (oe_umask env) 493 f1 ?p = Some f2"
    using assms(4) by (simp add: make_dir_def split: if_splits)
  have new1: "no_new_links f f1" by (simp add: f1_def no_new_links_remove)
  have nl1: "plain_way f1 ?p"
    unfolding plain_way_def
  proof (intro allI impI)
    fix q m t assume q: "prefix q ?p"
    show "fs_get f1 q \<noteq> Some (NLink m t)"
    proof (cases "q = ?p")
      case False
      then have "prefix q (butlast ?p)" using q assms(3) by (metis append_butlast_last_id prefix_snoc)
      then show ?thesis using plain_way_new [OF new1 assms(1)] by (simp add: plain_way_def)
    qed (simp add: f1_def)
  qed
  note g = MkdirAll_grown [OF nl1 dd m]
  obtain k where k: "fs_get f2 ?p = Some (NDir k)"
    using mkdir_from_dir [of f1 "[]" ?p _ f2] m nl1 dd assms(3) by (auto simp: MkdirAll_def)
  have "fs_get f1 ?p = None" by (simp add: f1_def)
  then have "k = 493 AND NOT (oe_umask env)" using g k unfolding grown_def by blast
  moreover have "fs_get f2 q = None" if "prefix ?p q" "q \<noteq> ?p" for q
  proof (rule ccontr)
    assume "fs_get f2 q \<noteq> None"
    then obtain n where "fs_get f2 q = Some n" by blast
    moreover have "fs_get f1 q = None" using that by (simp add: f1_def)
    ultimately have "prefix q ?p" using g unfolding grown_def by blast
    with that show False by (simp add: prefix_order.order_antisym)
  qed
  moreover have "prefix q ?p" if "fs_get f q = None" "fs_get f2 q = Some n" for q n
  proof -
    have "fs_get f1 q = None" using that(1) by (simp add: f1_def)
    with g that(2) show ?thesis unfolding grown_def by blast
  qed
  moreover have "fs_get f2 q = Some n" if "fs_get f q = Some n" "\<not> prefix ?p q" for q n
    using g that unfolding grown_def by (simp add: f1_def)
  moreover have "no_new_links f f2" by (rule no_new_links_trans [OF new1 grown_no_new_links [OF g]])
  ultimately show ?thesis using k by blast
qed

lemma layout_facts:
  assumes "NewLayoutWithLower cwd root lower = Inr l" and "is_abs cwd"
  shows "csegs (l_upper l) = csegs (l_root l) @ [''upper'']" and "csegs (l_work l) = csegs (l_root l) @ [''work'']"
    and "csegs (l_merged l) = csegs (l_root l) @ [''merged'']"
    and "is_abs (l_upper l)" and "is_abs (l_work l)" and "is_abs (l_root l)"
    and "Layout_Validate l = Inr ()"
proof -
  let ?r = "clean (abs_path cwd root)"
  have r: "is_abs ?r" using assms(2) by (simp add: abs_path_def path_join_abs)
  have l: "l_root l = ?r" "l_upper l = path_join ?r ''upper''" "l_work l = path_join ?r ''work''"
    "l_merged l = path_join ?r ''merged''" "Layout_Validate l = Inr ()"
    using assms(1) by (auto simp: NewLayoutWithLower_def NewLayout_def Let_def split: if_splits)
  show "is_abs (l_upper l)" "is_abs (l_work l)" "is_abs (l_root l)" "Layout_Validate l = Inr ()"
    using r l by (simp_all add: path_join_abs)
  have "segs ''upper'' = [''upper'']" "segs ''work'' = [''work'']" "segs ''merged'' = [''merged'']"
    by code_simp+
  then show "csegs (l_upper l) = csegs (l_root l) @ [''upper'']" "csegs (l_work l) = csegs (l_root l) @ [''work'']"
    "csegs (l_merged l) = csegs (l_root l) @ [''merged'']"
    unfolding l(1-4) using csegs_join_plain [OF r] by simp_all
qed

lemma Rollback_cases:
  assumes "Rollback env w l = (w', r)" and "ov_fs w' \<noteq> ov_fs w \<or> r = None"
  shows "\<exists>w1 u. Unmount env w l = (w1, u) \<and> (u = None \<or> (\<exists>e. u = Some e \<and> already_gone env e)) \<and>
     ov_fs w1 = ov_fs w \<and> ov_cmds w' = ov_cmds w1 \<and>
     reset_layers env (ov_fs w) [l_upper l, l_work l] = (ov_fs w', r)"
proof -
  have v: "Layout_Validate l = Inr ()" using assms by (cases "Layout_Validate l") (auto simp: Rollback_def)
  obtain w1 u where u: "Unmount env w l = (w1, u)" by (cases "Unmount env w l")
  then have keep: "ov_fs w1 = ov_fs w"
    using unmount_loop_keeps [of env 0 w l w1 u] v by (simp add: Unmount_def)
  obtain f e' where f: "reset_layers env (ov_fs w) [l_upper l, l_work l] = (f, e')"
    by (cases "reset_layers env (ov_fs w) [l_upper l, l_work l]")
  have go: "u = None \<or> (\<exists>e. u = Some e \<and> already_gone env e)"
    using assms v u keep by (cases u) (auto simp: Rollback_def split: if_splits)
  then have "w' = w1\<lparr>ov_fs := f\<rparr> \<and> r = e'"
    using assms(1) v u keep f unfolding Rollback_def by (cases u) (auto simp del: reset_layers.simps)
  then show ?thesis using u go keep f by auto
qed

lemma rollback_discards:
  assumes "NewLayoutWithLower cwd root lower = Inr l" and "is_abs cwd" and "plain_way (ov_fs w) (csegs (l_root l))"
    and "Rollback env w l = (w', None)"
  shows "(\<forall>d \<in> {csegs (l_upper l), csegs (l_work l)}.
            fs_get (ov_fs w') d = Some (NDir (493 AND NOT (oe_umask env))) \<and>
            (\<forall>q. prefix d q \<longrightarrow> q \<noteq> d \<longrightarrow> fs_get (ov_fs w') q = None)) \<and>
     (\<forall>q n. fs_get (ov_fs w) q = Some n \<longrightarrow> \<not> prefix (csegs (l_upper l)) q \<longrightarrow>
        \<not> prefix (csegs (l_work l)) q \<longrightarrow> fs_get (ov_fs w') q = Some n)"
proof -
  note lf = layout_facts [OF assms(1,2)]
  let ?u = "csegs (l_upper l)" and ?k = "csegs (l_work l)" and ?m = "NDir (493 AND NOT (oe_umask env))"
  have "reset_layers env (ov_fs w) [l_upper l, l_work l] = (ov_fs w', None)"
    using Rollback_cases [OF assms(4)] by blast
  then obtain f1 where f1: "make_dir env (RemoveAll (ov_fs w) ?u) (l_upper l) = Some f1"
    and f2: "make_dir env (RemoveAll f1 ?k) (l_work l) = Some (ov_fs w')"
    by (auto simp: Let_def split: if_splits option.splits)
  have a: "no_new_links (ov_fs w) f1 \<and> fs_get f1 ?u = Some ?m \<and>
     (\<forall>q. prefix ?u q \<longrightarrow> q \<noteq> ?u \<longrightarrow> fs_get f1 q = None) \<and>
     (\<forall>q n. fs_get (ov_fs w) q = Some n \<longrightarrow> \<not> prefix ?u q \<longrightarrow> fs_get f1 q = Some n)"
    using reset_one [OF _ lf(4) _ f1] assms(3) lf(1) by simp
  then have b: "fs_get (ov_fs w') ?k = Some ?m \<and>
     (\<forall>q. prefix ?k q \<longrightarrow> q \<noteq> ?k \<longrightarrow> fs_get (ov_fs w') q = None) \<and>
     (\<forall>q n. fs_get f1 q = Some n \<longrightarrow> \<not> prefix ?k q \<longrightarrow> fs_get (ov_fs w') q = Some n) \<and>
     (\<forall>q n. fs_get f1 q = None \<longrightarrow> fs_get (ov_fs w') q = Some n \<longrightarrow> prefix q ?k)"
    using reset_one [OF _ lf(5) _ f2] plain_way_new [OF _ assms(3)] lf(2) by simp
  have apart: "\<not> prefix ?k ?u" "\<not> prefix ?u ?k" using lf(1,2) by simp_all
  have "fs_get (ov_fs w') ?u = Some ?m" using a b apart by blast
  moreover have "fs_get (ov_fs w') q = None" if "prefix ?u q" "q \<noteq> ?u" for q
  proof (rule ccontr)
    assume "fs_get (ov_fs w') q \<noteq> None"
    moreover have "fs_get f1 q = None" using a that by blast
    ultimately have "prefix q ?k" using b by blast
    with that(1) apart(2) show False using prefix_order.trans by blast
  qed
  ultimately show ?thesis using a b by blast
qed

subsection \<open>Properties\<close>

text \<open>
  A successful rollback discards the writable layers and nothing else: for a layout the
  constructor accepts, afterwards the upper and the work directory are empty, and every node
  outside them, the lower layer's included when it lies outside them, is as it was.  The path of
  the runtime root must not run through a symbolic link.
\<close>

theorem rollback_discards_only_layers:
  assumes "NewLayoutWithLower cwd root lower = Inr l" and "is_abs cwd" and "plain_way (ov_fs w) (csegs (l_root l))"
    and "Rollback env w l = (w', None)"
  shows "(\<forall>d \<in> {csegs (l_upper l), csegs (l_work l)}.
            fs_get (ov_fs w') d = Some (NDir (493 AND NOT (oe_umask env))) \<and>
            (\<forall>q. prefix d q \<longrightarrow> q \<noteq> d \<longrightarrow> fs_get (ov_fs w') q = None)) \<and>
     (\<forall>q n. fs_get (ov_fs w) q = Some n \<longrightarrow> \<not> prefix (csegs (l_upper l)) q \<longrightarrow>
        \<not> prefix (csegs (l_work l)) q \<longrightarrow> fs_get (ov_fs w') q = Some n)"
  using assms by (rule rollback_discards)

definition demo_ov :: ov_env where
  "demo_ov = \<lparr>oe_umask = 18, oe_backend = [], oe_owner = None, oe_real_runner = False, oe_run = (\<lambda>_. None),
     oe_cancelled = (\<lambda>_. False), oe_start_ok = True, oe_ticks = [], oe_chown_ok = (\<lambda>_. True),
     oe_mkdir_ok = (\<lambda>_. True), oe_remove_ok = (\<lambda>_. True)\<rparr>"

definition demo_layout :: Layout where
  "demo_layout = \<lparr>l_root = ''/r'', l_lower = ''/src'', l_upper = ''/r/upper'', l_work = ''/r/work'',
     l_merged = ''/r/merged''\<rparr>"

definition demo_ov_world :: ov_world where
  "demo_ov_world = \<lparr>ov_fs = [([''src''], NDir 493), ([''src'', ''a''], NFile 420 ''A''), ([''r''], NDir 493),
     ([''r'', ''upper''], NDir 493), ([''r'', ''upper'', ''a''], NFile 420 ''B''), ([''r'', ''work''], NDir 493),
     ([''r'', ''merged''], NDir 493)], ov_cmds = [], ov_kills = 0\<rparr>"

lemma demo_layout_new: "NewLayoutWithLower ''/'' ''/r'' ''/src'' = Inr demo_layout"
  by code_simp

lemma demo_layout_segs: "csegs ''/r/upper'' = [''r'', ''upper'']" "csegs ''/r/work'' = [''r'', ''work'']"
  by code_simp+

lemma demo_no_links: "no_links (ov_fs demo_ov_world)"
  by (simp add: no_links_def demo_ov_world_def)

theorem rollback_discards_only_layers_witness:
  "\<exists>w'. Rollback demo_ov demo_ov_world demo_layout = (w', None) \<and>
     fs_get (ov_fs w') [''r'', ''upper'', ''a''] = None \<and>
     fs_get (ov_fs w') [''src'', ''a''] = Some (NFile 420 ''A'')"
proof -
  have "snd (Rollback demo_ov demo_ov_world demo_layout) = None" by code_simp
  then obtain w' where w': "Rollback demo_ov demo_ov_world demo_layout = (w', None)"
    by (cases "Rollback demo_ov demo_ov_world demo_layout") simp
  have "is_abs ''/''" by (simp add: is_abs_def)
  from rollback_discards_only_layers [OF demo_layout_new this _ w'] demo_no_links
  show ?thesis using w'
    by (simp add: demo_layout_def demo_layout_segs) (simp add: demo_ov_world_def fs_get_def)
qed

text \<open>
  C8. Rollback fails closed and ends: whenever it changed the file system or reported success,
  one of the commands it ran was the unmount of the merged directory and that succeeded, or, on
  the FUSE backend, answered that nothing was mounted; and it ran at most 221 commands.
\<close>

theorem rollback_fails_closed:
  assumes "Rollback env w l = (w', r)" and "ov_fs w' \<noteq> ov_fs w \<or> r = None"
  shows "(\<exists>i \<ge> length (ov_cmds w). unmounted_at env l (ov_cmds w') i) \<and>
     length (ov_cmds w') \<le> length (ov_cmds w) + 221"
proof -
  obtain w1 u where u: "Unmount env w l = (w1, u)" "u = None \<or> (\<exists>e. u = Some e \<and> already_gone env e)"
    and c: "ov_cmds w' = ov_cmds w1"
    using Rollback_cases [OF assms] by blast
  have "Layout_Validate l = Inr ()"
    using assms by (cases "Layout_Validate l") (auto simp: Rollback_def)
  then have "unmount_loop env 0 w l = (w1, u)" using u(1) by (simp add: Unmount_def)
  from unmount_loop_keeps [OF this] u(2) c show ?thesis by (simp add: max_retries_def max_polls_def)
qed

theorem rollback_fails_closed_witness:
  "\<exists>i w'. unmounted_at demo_ov demo_layout (ov_cmds w') i \<and> Rollback demo_ov demo_ov_world demo_layout = (w', None)"
proof -
  have "snd (Rollback demo_ov demo_ov_world demo_layout) = None" by code_simp
  then obtain w' where w': "Rollback demo_ov demo_ov_world demo_layout = (w', None)"
    by (cases "Rollback demo_ov demo_ov_world demo_layout") simp
  from rollback_fails_closed [OF this] w' show ?thesis by blast
qed

text \<open>
  C22. \<open>Validate\<close> does not keep the lower layer out of the upper layer: the constructor accepts a
  workspace below the upper directory, and a successful rollback then deletes the workspace.
\<close>

definition nested_layout :: Layout where
  "nested_layout = \<lparr>l_root = ''/r'', l_lower = ''/r/upper/src'', l_upper = ''/r/upper'', l_work = ''/r/work'',
     l_merged = ''/r/merged''\<rparr>"

definition nested_world :: ov_world where
  "nested_world = \<lparr>ov_fs = [([''r''], NDir 493), ([''r'', ''upper''], NDir 493), ([''r'', ''upper'', ''src''], NDir 493),
     ([''r'', ''upper'', ''src'', ''a''], NFile 420 ''A''), ([''r'', ''work''], NDir 493),
     ([''r'', ''merged''], NDir 493)], ov_cmds = [], ov_kills = 0\<rparr>"

theorem rollback_can_delete_nested_lower:
  "NewLayoutWithLower ''/'' ''/r'' ''/r/upper/src'' = Inr nested_layout \<and>
   fs_get (ov_fs nested_world) (csegs (l_lower nested_layout) @ [''a'']) = Some (NFile 420 ''A'') \<and>
   (case Rollback demo_ov nested_world nested_layout of
      (w', r) \<Rightarrow> r = None \<and> fs_get (ov_fs w') (csegs (l_lower nested_layout)) = None)"
  by code_simp

end
