(* ===== verification/Lifecycle.thy ===== *)
theory Lifecycle
  imports Go_Base
begin

text \<open>
  \<open>internal/lifecycle\<close> and \<open>internal/runid\<close>: the life of one protected run.  \<open>canTransition\<close>
  is the edge table, \<open>Transition\<close> the guarded update of the record (\<open>None\<close> is the nil
  pointer), \<open>New\<close> the start.  A state read back from a file may be any string, which is
  \<open>OtherState\<close>.  The clock and the random bytes are arguments.
\<close>

datatype lstate =
    Preparing | Mounted | Running | Paused | Succeeded | Failed | Committed | RolledBack
  | OtherState string

record run =
  run_id :: string
  run_state :: lstate
  created_at :: int
  updated_at :: int

datatype lifecycle_error =
    NilRun | MissingRunId | UnknownTarget lstate | BadEdge lstate lstate | RunIdFailed

subsection \<open>Operations\<close>

text \<open>The formatted time and the four random bytes (\<open>None\<close> when \<open>rand.Read\<close> fails).\<close>

definition runid_New :: "string \<Rightarrow> string option \<Rightarrow> lifecycle_error + string" where
  "runid_New stamp rnd =
     (case rnd of None \<Rightarrow> Inl RunIdFailed
      | Some b \<Rightarrow> Inr (''run_'' @ stamp @ ''_'' @ hex_encode b))"

definition New :: "string \<Rightarrow> string option \<Rightarrow> int \<Rightarrow> lifecycle_error + run" where
  "New stamp rnd now =
     (case runid_New stamp rnd of Inl e \<Rightarrow> Inl e
      | Inr i \<Rightarrow> Inr \<lparr>run_id = i, run_state = Preparing, created_at = now, updated_at = now\<rparr>)"

fun validState :: "lstate \<Rightarrow> bool" where
  "validState (OtherState s) = False"
| "validState s = True"

fun canTransition :: "lstate \<Rightarrow> lstate \<Rightarrow> bool" where
  "canTransition Preparing to = (to = Mounted \<or> to = Failed \<or> to = RolledBack)"
| "canTransition Mounted to = (to = Running \<or> to = Failed \<or> to = RolledBack)"
| "canTransition Running to = (to = Paused \<or> to = Succeeded \<or> to = Failed)"
| "canTransition Paused to = (to = Running \<or> to = RolledBack)"
| "canTransition Succeeded to = (to = Committed \<or> to = RolledBack)"
| "canTransition Failed to = (to = RolledBack)"
| "canTransition _ to = False"

definition Transition :: "int \<Rightarrow> run option \<Rightarrow> lstate \<Rightarrow> lifecycle_error + run" where
  "Transition now r next =
     (case r of
        None \<Rightarrow> Inl NilRun
      | Some r \<Rightarrow>
          if run_id r = [] then Inl MissingRunId
          else if \<not> validState next then Inl (UnknownTarget next)
          else if \<not> canTransition (run_state r) next then Inl (BadEdge (run_state r) next)
          else Inr (r\<lparr>run_state := next, updated_at := now\<rparr>))"

subsection \<open>Histories\<close>

text \<open>The states a run has been in, the latest first, from its creation.\<close>

inductive history :: "lstate list \<Rightarrow> bool" where
  created: "history [Preparing]"
| moved: "history (s # h) \<Longrightarrow> canTransition s t \<Longrightarrow> history (t # s # h)"

inductive_simps history_Cons: "history (t # h)"
inductive_cases history_ConsE: "history (t # h)"

text \<open>Executing transitions one after the other, as the coordinator does.\<close>

fun transitions :: "run \<Rightarrow> (int \<times> lstate) list \<Rightarrow> lifecycle_error + run" where
  "transitions r [] = Inr r"
| "transitions r ((now, t) # ts) =
     (case Transition now (Some r) t of Inl e \<Rightarrow> Inl e | Inr r' \<Rightarrow> transitions r' ts)"

fun_cases transitions_ConsE: "transitions r (x # xs) = y"

definition protected_only :: "lstate \<Rightarrow> lstate list \<Rightarrow> bool" where
  "protected_only s h =
     ((s = Running \<or> s = Paused \<or> s = Succeeded \<or> s = Committed \<longrightarrow> Mounted \<in> set (s # h)) \<and>
      (s = Paused \<or> s = Succeeded \<or> s = Committed \<longrightarrow> Running \<in> set (s # h)) \<and>
      (s = Committed \<longrightarrow> (\<exists>h'. h = Succeeded # h')) \<and>
      Committed \<notin> set h \<and> RolledBack \<notin> set h)"

subsection \<open>Lemmas\<close>

lemma Transition_Inr [simp]:
  "Transition now (Some r) t = Inr r' \<longleftrightarrow>
     run_id r \<noteq> [] \<and> validState t \<and> canTransition (run_state r) t \<and>
     r' = r\<lparr>run_state := t, updated_at := now\<rparr>"
  by (auto simp: Transition_def)

lemma canTransition_valid: "canTransition s t \<Longrightarrow> validState t"
  by (cases s) auto

lemma Transition_ok:
  "run_id r \<noteq> [] \<Longrightarrow> canTransition (run_state r) t \<Longrightarrow>
     Transition now (Some r) t = Inr (r\<lparr>run_state := t, updated_at := now\<rparr>)"
  by (simp add: canTransition_valid)

lemma Transition_Inl:
  "run_id r \<noteq> [] \<Longrightarrow> Transition now (Some r) t = Inl e \<Longrightarrow> \<not> canTransition (run_state r) t"
  using canTransition_valid by (auto simp: Transition_def split: if_splits)

lemma history_protected: "history (s # h) \<Longrightarrow> protected_only s h"
proof (induction "s # h" arbitrary: s h rule: history.induct)
  case created
  show ?case by (simp add: protected_only_def)
next
  case (moved s h t)
  then show ?case by (cases s) (auto simp: protected_only_def)
qed

lemma history_not_Nil: "\<not> history []"
  by (auto elim: history.cases)

lemma transitions_history:
  "history (run_state r # h) \<Longrightarrow> transitions r ts = Inr r' \<Longrightarrow>
     history (rev (map snd ts) @ run_state r # h) \<and>
     run_state r' = hd (rev (map snd ts) @ [run_state r]) \<and> run_id r' = run_id r"
proof (induction ts arbitrary: r h)
  case (Cons x ts)
  obtain now t where x: "x = (now, t)" by (cases x)
  from Cons.prems(2) obtain r1 where r1: "Transition now (Some r) t = Inr r1"
      and rest: "transitions r1 ts = Inr r'"
    by (auto simp: x split: sum.splits)
  then have "history (run_state r1 # run_state r # h)"
    using Cons.prems(1) by (auto intro: history.moved)
  from Cons.IH [OF this rest] r1 show ?case
    by (auto simp: x hd_append)
qed simp

text \<open>
  C1. Whatever transitions are applied to a fresh run, one that ends committed has been
  mounted, has run and was in the succeeded state immediately before; and once a run is
  committed or rolled back, no transition is accepted any more.
\<close>

theorem committed_only_after_success:
  assumes "New stamp rnd now = Inr r" and "transitions r ts = Inr r'"
    and "run_state r' = Committed \<or> run_state r' = RolledBack"
  shows "(run_state r' = Committed \<longrightarrow>
            (\<exists>us. map snd ts = us @ [Succeeded, Committed] \<and> Mounted \<in> set us \<and> Running \<in> set us))
         \<and> (\<forall>later t. \<not> is_ok (Transition later (Some r') t))"
proof -
  have r: "run_state r = Preparing"
    using assms(1) by (auto simp: New_def split: sum.splits)
  have "history [run_state r]" by (simp add: r history.created)
  from transitions_history [OF this assms(2)]
  have h: "history (rev (map snd ts) @ [Preparing])"
    and st: "run_state r' = hd (rev (map snd ts) @ [Preparing])" by (simp_all add: r)
  have "\<exists>us. map snd ts = us @ [Succeeded, Committed] \<and> Mounted \<in> set us \<and> Running \<in> set us"
    if c: "run_state r' = Committed"
  proof -
    obtain us where us: "rev (map snd ts) = Committed # us"
      using st c by (cases "rev (map snd ts)") auto
    then have p: "protected_only Committed (us @ [Preparing])"
      using h history_protected by simp
    then obtain vs where "us = Succeeded # vs"
      by (cases us) (auto simp: protected_only_def)
    moreover have "map snd ts = rev us @ [Committed]"
      using us by (metis rev.simps(2) rev_rev_ident)
    ultimately show ?thesis using p by (auto simp: protected_only_def)
  qed
  moreover have "\<not> is_ok (Transition later (Some r') t)" for later t
    using assms(3) by (auto simp: is_ok_iff)
  ultimately show ?thesis by blast
qed

theorem committed_only_after_success_witness:
  "\<exists>us. [Mounted, Running, Paused, Running, Succeeded, Committed] = us @ [Succeeded, Committed]
     \<and> Mounted \<in> set us \<and> Running \<in> set us"
proof -
  let ?r = "\<lparr>run_id = ''run_0_00ff'', run_state = Preparing, created_at = 5, updated_at = 5\<rparr>"
  let ?ts = "[(6, Mounted), (7, Running), (8, Paused), (9, Running), (10, Succeeded), (11, Committed)]"
  have n: "New ''0'' (Some [CHR 0x00, CHR 0xFF]) 5 = Inr ?r"
    by (simp add: New_def runid_New_def hex_encode_def hex_digit_def)
  have t: "transitions ?r ?ts =
      Inr \<lparr>run_id = ''run_0_00ff'', run_state = Committed, created_at = 5, updated_at = 11\<rparr>"
    by (simp add: Transition_def)
  show ?thesis using committed_only_after_success [OF n t] by simp
qed

end
