(* ===== verification/Net_Policy.thy ===== *)
theory Net_Policy
  imports Policy_Engine Go_Path
begin

text \<open>
  \<open>internal/netpolicy\<close> and \<open>internal/agent\<close>.  \<open>Compile\<close> and \<open>Explain\<close> decide about host names;
  the proxy reads one request per connection, asks \<open>Explain\<close>, and dials.  What the proxy does on
  the network is the list of its events; whether a dial succeeds is an argument.  The connection
  table is a state with the steps \<open>track\<close>, \<open>untrack\<close> and \<open>proxy_close\<close>.
\<close>

subsection \<open>Agent adapters\<close>

record AgentSpec =
  as_kind :: string
  as_display :: string
  as_description :: string
  as_executables :: "string list"
  as_hook :: string

record Launch =
  la_spec :: AgentSpec
  la_command :: "string list"
  la_environment :: "string list"

datatype agent_error = UnsupportedAdapter string | EmptyCommand string

definition specs :: "AgentSpec list" where
  "specs =
     [\<lparr>as_kind = ''generic'', as_display = ''Generic command'',
       as_description = ''Any executable launched under the protected runtime.'',
       as_executables = [], as_hook = ''rewind/v1''\<rparr>,
      \<lparr>as_kind = ''codex'', as_display = ''Codex'',
       as_description = ''Codex-compatible command; the operator command remains unchanged.'',
       as_executables = [''codex'', ''codex-cli''], as_hook = ''rewind/v1''\<rparr>,
      \<lparr>as_kind = ''openhands'', as_display = ''OpenHands'',
       as_description = ''OpenHands-compatible command; the operator command remains unchanged.'',
       as_executables = [''openhands''], as_hook = ''rewind/v1''\<rparr>,
      \<lparr>as_kind = ''claude-code'', as_display = ''Claude Code'',
       as_description = ''Claude Code-compatible command; the operator command remains unchanged.'',
       as_executables = [''claude'', ''claude-code''], as_hook = ''rewind/v1''\<rparr>]"

definition agent_Resolve :: "string \<Rightarrow> agent_error + AgentSpec" where
  "agent_Resolve value0 =
     (let v = to_lower (trim_space value0); v = (if v = [] then ''generic'' else v) in
      case find (\<lambda>s. as_kind s = v) specs of None \<Rightarrow> Inl (UnsupportedAdapter v) | Some s \<Rightarrow> Inr s)"

definition ValidateCommand :: "AgentSpec \<Rightarrow> string list \<Rightarrow> agent_error + unit" where
  "ValidateCommand spec command =
     (if command = [] \<or> blank (hd command) then Inl (EmptyCommand (as_kind spec)) else Inr ())"

definition agent_Prepare :: "AgentSpec \<Rightarrow> string list \<Rightarrow> agent_error + Launch" where
  "agent_Prepare spec command =
     and_then (ValidateCommand spec command) (\<lambda>_.
       Inr \<lparr>la_spec = spec, la_command = command, la_environment =
         [''REWIND_AGENT_ADAPTER='' @ as_kind spec, ''REWIND_AGENT_HOOK_PROTOCOL='' @ as_hook spec,
          ''REWIND_AGENT_LIFECYCLE=prepare,start,exit'']\<rparr>)"

definition Recognizes :: "AgentSpec \<Rightarrow> string \<Rightarrow> bool" where
  "Recognizes s command =
     (let base = to_lower (path_base (trim_space command)) in
      base \<in> set (as_executables s) \<or> as_kind s = ''generic'')"

lemma agent_Prepare_keeps_command: "agent_Prepare spec command = Inr l \<Longrightarrow> la_command l = command \<and> command \<noteq> []"
  by (auto simp: agent_Prepare_def ValidateCommand_def split: if_splits)

subsection \<open>The network plan\<close>

datatype net_decision = Allow | Audit | Deny

record NetPlan =
  np_mode :: mode
  np_domains :: "string list"
  np_creds :: "CredentialRef list"
  np_raw_deny :: bool
  np_deny :: bool
  np_ns :: bool

definition net_Compile :: "NetworkPolicy \<Rightarrow> policy_error + NetPlan" where
  "net_Compile v =
     and_then (NetworkPolicy_Validate v) (\<lambda>_.
       Inr \<lparr>np_mode = net_mode v, np_domains = net_domains v, np_creds = net_creds v,
            np_raw_deny = False, np_deny = False, np_ns = False\<rparr>)"

definition normal_host :: "string \<Rightarrow> string" where
  "normal_host h = to_lower (trim_suffix ''.'' (trim_space h))"

definition host_allowed :: "string list \<Rightarrow> string \<Rightarrow> bool" where
  "host_allowed domains host =
     list_ex (\<lambda>a. host = normal_host a \<or> suffix (''.'' @ normal_host a) host) domains"

definition net_Explain :: "NetPlan \<Rightarrow> string \<Rightarrow> net_decision" where
  "net_Explain p host =
     (if np_mode p = ModeOff then Allow
      else if np_mode p = ModeAudit then Audit
      else if host_allowed (np_domains p) (normal_host host) then Allow
      else Deny)"

subsection \<open>The proxy\<close>

text \<open>
  A request as \<open>http.ReadRequest\<close> gives it.  \<open>rq_reparsed\<close> is the host of
  \<open>url.Parse(request.URL.String())\<close>, \<open>None\<close> when that fails.
\<close>

record request =
  rq_method :: string
  rq_host :: string
  rq_url_host :: string
  rq_reparsed :: "string option"

datatype proxy_event =
    Audited string net_decision
  | Dialed string
  | Replied nat
  | Relayed

definition first_part :: "string \<Rightarrow> string" where
  "first_part h = hd (split_on CHR '':'' h)"

definition tunnel :: "(string \<Rightarrow> bool) \<Rightarrow> string \<Rightarrow> proxy_event list" where
  "tunnel dials address =
     Dialed address # (if dials address then [Replied 200, Relayed] else [Replied 502])"

definition forwardHTTP :: "(string \<Rightarrow> bool) \<Rightarrow> request \<Rightarrow> proxy_event list" where
  "forwardHTTP dials rq =
     (if rq_url_host rq = [] then [Replied 400]
      else Dialed (rq_url_host rq) # (if dials (rq_url_host rq) then [Relayed] else [Replied 502]))"

definition decided_host :: "request \<Rightarrow> string" where
  "decided_host rq = first_part
     (if rq_method rq \<noteq> ''CONNECT''
      then (case rq_reparsed rq of Some h \<Rightarrow> if h \<noteq> [] then h else rq_host rq | None \<Rightarrow> rq_host rq)
      else rq_host rq)"

definition proxy_handle :: "(string \<Rightarrow> bool) \<Rightarrow> bool \<Rightarrow> NetPlan \<Rightarrow> request option \<Rightarrow> proxy_event list" where
  "proxy_handle dials auditing plan rq =
     (case rq of
        None \<Rightarrow> []
      | Some rq \<Rightarrow>
          let host = decided_host rq; d = net_Explain plan host;
              noted = (if auditing then [Audited host d] else []) in
          if d = Deny then noted @ [Replied 403]
          else if rq_method rq = ''CONNECT'' then noted @ tunnel dials (rq_host rq)
          else noted @ forwardHTTP dials rq)"

text \<open>Open connections: those a handler serves (\<open>px_conns\<close>) and those that have been closed.\<close>

record proxy =
  px_closed :: bool
  px_conns :: "nat list"
  px_dead :: "nat list"

definition track :: "nat \<Rightarrow> proxy \<Rightarrow> proxy \<times> bool" where
  "track c p =
     (if px_closed p then (p\<lparr>px_dead := c # px_dead p\<rparr>, False)
      else (p\<lparr>px_conns := c # removeAll c (px_conns p)\<rparr>, True))"

definition untrack :: "nat \<Rightarrow> proxy \<Rightarrow> proxy" where
  "untrack c p = p\<lparr>px_conns := removeAll c (px_conns p)\<rparr>"

text \<open>The handler's deferred close comes before \<open>untrack\<close>.\<close>

definition finish :: "nat \<Rightarrow> proxy \<Rightarrow> proxy" where
  "finish c p = untrack c (p\<lparr>px_dead := c # px_dead p\<rparr>)"

definition proxy_close :: "proxy \<Rightarrow> proxy" where
  "proxy_close p = (if px_closed p then p
     else p\<lparr>px_closed := True, px_dead := px_conns p @ px_dead p\<rparr>)"

inductive proxy_run :: "nat set \<Rightarrow> proxy \<Rightarrow> bool" where
  listening: "proxy_run {} \<lparr>px_closed = False, px_conns = [], px_dead = []\<rparr>"
| accepted: "proxy_run A p \<Longrightarrow> c \<notin> A \<Longrightarrow> proxy_run (insert c A) (fst (track c p))"
| finished: "proxy_run A p \<Longrightarrow> c \<in> set (px_conns p) \<Longrightarrow> proxy_run A (finish c p)"
| shut: "proxy_run A p \<Longrightarrow> proxy_run A (proxy_close p)"

inductive_cases proxy_run_cases: "proxy_run A p"

lemma proxy_run_accounts:
  "proxy_run A p \<Longrightarrow> A = set (px_conns p) \<union> set (px_dead p) \<and> (px_closed p \<longrightarrow> A = set (px_dead p))"
proof (induction rule: proxy_run.induct)
  case (finished A p c)
  then show ?case by (auto simp: finish_def untrack_def)
qed (auto simp: track_def proxy_close_def)

subsection \<open>Properties\<close>

lemma net_Explain_allowed:
  "np_mode p \<noteq> ModeOff \<Longrightarrow> np_mode p \<noteq> ModeAudit \<Longrightarrow>
     net_Explain p host \<noteq> Deny \<longleftrightarrow> host_allowed (np_domains p) (normal_host host)"
  by (simp add: net_Explain_def)

lemma Dialed_in:
  "Dialed a \<in> set (proxy_handle dials auditing plan (Some rq)) \<Longrightarrow>
     net_Explain plan (decided_host rq) \<noteq> Deny \<and>
     (if rq_method rq = ''CONNECT'' then a = rq_host rq else a = rq_url_host rq \<and> a \<noteq> [])"
  by (auto simp: proxy_handle_def Let_def tunnel_def forwardHTTP_def split: if_splits)

text \<open>
  C25. The proxy reaches only hosts the policy allows: when the plan is neither off nor audit,
  and re-parsing a request's URL gives that URL's host, every address the proxy dials has a host
  part that equals an allowed domain or is a subdomain of one, up to letter case and a final dot.
\<close>

theorem proxy_dials_only_allowed:
  assumes "np_mode plan \<noteq> ModeOff" and "np_mode plan \<noteq> ModeAudit"
    and "rq_url_host rq \<noteq> [] \<Longrightarrow> rq_reparsed rq = Some (rq_url_host rq)"
    and "Dialed a \<in> set (proxy_handle dials auditing plan (Some rq))"
  shows "\<exists>d \<in> set (np_domains plan). normal_host (first_part a) = normal_host d \<or>
           suffix (''.'' @ normal_host d) (normal_host (first_part a))"
proof -
  note d = Dialed_in [OF assms(4)]
  have "decided_host rq = first_part a"
    using d assms(3) by (auto simp: decided_host_def split: if_splits)
  with d have "host_allowed (np_domains plan) (normal_host (first_part a))"
    using net_Explain_allowed [OF assms(1,2)] by simp
  then show ?thesis by (simp add: host_allowed_def list_ex_iff)
qed

theorem proxy_dials_only_allowed_witness:
  "\<exists>d \<in> set [''Example.com'']. normal_host (first_part ''api.example.com:443'') = normal_host d \<or>
     suffix (''.'' @ normal_host d) (normal_host (first_part ''api.example.com:443''))"
proof -
  let ?plan = "\<lparr>np_mode = ModeEnforce, np_domains = [''Example.com''], np_creds = [], np_raw_deny = True,
     np_deny = False, np_ns = False\<rparr>"
  let ?rq = "\<lparr>rq_method = ''CONNECT'', rq_host = ''api.example.com:443'', rq_url_host = [], rq_reparsed = None\<rparr>"
  have "Dialed ''api.example.com:443'' \<in> set (proxy_handle (\<lambda>_. True) False ?plan (Some ?rq))"
    by code_simp
  from proxy_dials_only_allowed [OF _ _ _ this] show ?thesis by (simp add: mode_defs)
qed

text \<open>
  Closing the proxy leaves no connection behind: in every state reached by accepting,
  finishing and closing in any order, each accepted connection is being served or has been
  closed, and once the proxy is closed every one of them has been closed.
\<close>

theorem proxy_close_leaves_none:
  "proxy_run A p \<Longrightarrow> A \<subseteq> set (px_conns p) \<union> set (px_dead p) \<and> A \<subseteq> set (px_dead (proxy_close p))"
  using proxy_run_accounts by (fastforce simp: proxy_close_def)

theorem proxy_close_leaves_none_witness:
  "{7} \<subseteq> set (px_dead (proxy_close \<lparr>px_closed = False, px_conns = [7], px_dead = []\<rparr>))"
proof -
  have "proxy_run {7} (fst (track 7 \<lparr>px_closed = False, px_conns = [], px_dead = []\<rparr>))"
    by (rule accepted [OF listening]) simp
  from proxy_close_leaves_none [OF this] show ?thesis by (simp add: track_def)
qed

end
