(* ===== verification/Pii_Scan.thy ===== *)
theory Pii_Scan
  imports Manifest_Model "HOL-Library.Product_Lexorder"
begin

text \<open>
  \<open>internal/pii\<close>: the scanner that reports places which look like personal data, without the
  data.  Regular expressions are compiled and matched by package \<open>regexp\<close>: \<open>compiles\<close>,
  \<open>find_all\<close> and \<open>replace_all\<close> are arguments, indexed by the pattern's text, as is SHA-256.
  Go's \<open>sort.Slice\<close> leaves the order of equal keys open; a stable sort stands for it.
\<close>

definition MaxFileBytes :: int where "MaxFileBytes = 8388608"

record Finding =
  f_path :: path
  f_kind :: string
  f_line :: nat
  f_column :: nat
  f_hash :: string
  f_replacement :: string

record rule =
  r_kind :: string
  r_pattern :: string
  r_replacement :: string

datatype pii_error =
    PiiStat path
  | PiiSymlink path
  | PiiRead path
  | PiiTooLarge path
  | PiiWalk path
  | PiiRuleIncomplete
  | PiiRulePattern string
  | PiiStreamTooLarge
  | PiiStreamRead

text \<open>The built-in patterns; \<open>re\<close> puts a backslash where the text here has an exclamation mark.\<close>

definition re :: "string \<Rightarrow> string" where
  "re s = replace_char CHR ''!'' CHR 0x5C s"

definition rules :: "rule list" where
  "rules =
     [\<lparr>r_kind = ''email'',
       r_pattern = re ''(?i)!b[A-Z0-9._%+!-]+@[A-Z0-9.!-]+!.[A-Z]{2,}!b'',
       r_replacement = ''[REDACTED:email]''\<rparr>,
      \<lparr>r_kind = ''phone'',
       r_pattern = re ''(?:!+!d[!d .()!-]{7,}!d|!(!d{3}!)[!d .!-]{7,}!d|!b!d{10,11}!b)'',
       r_replacement = ''[REDACTED:phone]''\<rparr>,
      \<lparr>r_kind = ''ssn'', r_pattern = re ''!b!d{3}-!d{2}-!d{4}!b'', r_replacement = ''[REDACTED:ssn]''\<rparr>,
      \<lparr>r_kind = ''credit_card'', r_pattern = re ''!b(?:!d[ -]?){13,19}!b'', r_replacement = ''[REDACTED:credit_card]''\<rparr>,
      \<lparr>r_kind = ''api_token'', r_pattern = re ''!b(?:sk|ghp|github_pat|xox[baprs])_[A-Za-z0-9_!-]{12,}!b'',
       r_replacement = ''[REDACTED:api_token]''\<rparr>]"

fun NewScanner_add :: "(string \<Rightarrow> bool) \<Rightarrow> rule list \<Rightarrow> rule list \<Rightarrow> pii_error + rule list" where
  "NewScanner_add compiles acc [] = Inr acc"
| "NewScanner_add compiles acc (c # cs) =
     (if blank (r_kind c) \<or> blank (r_pattern c) \<or> blank (r_replacement c) then Inl PiiRuleIncomplete
      else if \<not> compiles (r_pattern c) then Inl (PiiRulePattern (r_kind c))
      else NewScanner_add compiles (acc @ [c]) cs)"

definition NewScanner :: "(string \<Rightarrow> bool) \<Rightarrow> rule list \<Rightarrow> pii_error + rule list" where
  "NewScanner compiles custom = NewScanner_add compiles rules custom"

definition scan_line ::
  "(string \<Rightarrow> string) \<Rightarrow> (string \<Rightarrow> string \<Rightarrow> (nat \<times> nat) list) \<Rightarrow> path \<Rightarrow> rule list \<Rightarrow> nat \<Rightarrow> string \<Rightarrow> Finding list" where
  "scan_line sha find_all p active n line =
     concat (map (\<lambda>r. map (\<lambda>(a, b).
       \<lparr>f_path = p, f_kind = r_kind r, f_line = n + 1, f_column = a + 1,
        f_hash = hex_encode (take 8 (sha (take (b - a) (drop a line)))),
        f_replacement = r_replacement r\<rparr>) (find_all (r_pattern r) line)) active)"

definition scanBytes ::
  "(string \<Rightarrow> string) \<Rightarrow> (string \<Rightarrow> string \<Rightarrow> (nat \<times> nat) list) \<Rightarrow> path \<Rightarrow> string \<Rightarrow> rule list \<Rightarrow> Finding list" where
  "scanBytes sha find_all p content active =
     (if CHR 0x00 \<in> set content then []
      else (let ls = split_on CHR 0x0A content in
            sort_key (\<lambda>f. (f_path f, f_line f, f_column f))
              (concat (map (\<lambda>i. scan_line sha find_all p active i (ls ! i)) [0..<length ls]))))"

definition ScanBytes ::
  "(string \<Rightarrow> string) \<Rightarrow> (string \<Rightarrow> string \<Rightarrow> (nat \<times> nat) list) \<Rightarrow> rule list \<Rightarrow> path \<Rightarrow> string \<Rightarrow> Finding list" where
  "ScanBytes sha find_all own p content = scanBytes sha find_all p content (if own = [] then rules else own)"

definition ScanReader ::
  "(string \<Rightarrow> string) \<Rightarrow> (string \<Rightarrow> string \<Rightarrow> (nat \<times> nat) list) \<Rightarrow> rule list \<Rightarrow> path \<Rightarrow> string option \<Rightarrow> int \<Rightarrow>
     pii_error + Finding list" where
  "ScanReader sha find_all own p stream maxBytes0 =
     (let maxBytes = (if maxBytes0 \<le> 0 \<or> maxBytes0 > MaxFileBytes then MaxFileBytes else maxBytes0) in
      case stream of
        None \<Rightarrow> Inl PiiStreamRead
      | Some s \<Rightarrow>
          let data = take (nat (maxBytes + 1)) s in
          if int (length data) > maxBytes then Inl PiiStreamTooLarge
          else Inr (ScanBytes sha find_all own p data))"

definition redactBytes :: "(string \<Rightarrow> string \<Rightarrow> string \<Rightarrow> string) \<Rightarrow> string \<Rightarrow> rule list \<Rightarrow> string" where
  "redactBytes replace_all content active =
     fold (\<lambda>r v. replace_all (r_pattern r) v (r_replacement r)) active content"

definition RedactBytes :: "(string \<Rightarrow> string \<Rightarrow> string \<Rightarrow> string) \<Rightarrow> rule list \<Rightarrow> string \<Rightarrow> string" where
  "RedactBytes replace_all own content = redactBytes replace_all content (if own = [] then rules else own)"

text \<open>
  The files a directory scan reads: regular ones, not too large, outside the skipped directories.
  Reading a device or a pipe, which the source does not rule out, is not modelled.
\<close>

definition scanned_files :: "fs \<Rightarrow> segpath \<Rightarrow> (segpath \<times> string) list" where
  "scanned_files f r =
     concat (map (\<lambda>(rel, n). case n of
         NFile _ c \<Rightarrow> if int (length c) \<le> MaxFileBytes \<and> ''.git'' \<notin> set (butlast rel) \<and> ''.rewind'' \<notin> set (butlast rel)
                      then [(rel, c)] else []
       | _ \<Rightarrow> []) (sort_key fst (walk f r)))"

definition scanDir ::
  "(string \<Rightarrow> string) \<Rightarrow> (string \<Rightarrow> string \<Rightarrow> (nat \<times> nat) list) \<Rightarrow> (segpath \<Rightarrow> bool) \<Rightarrow> fs \<Rightarrow> path \<Rightarrow>
     pii_error + Finding list" where
  "scanDir sha find_all unreadable f root =
     (let fls = scanned_files f (csegs root) in
      if list_ex (\<lambda>(rel, _). unreadable (csegs root @ rel)) fls then Inl (PiiWalk root)
      else Inr (sort_key f_path (concat (map (\<lambda>(rel, c).
             ScanBytes sha find_all [] (path_join root (join_with [sep] rel)) c) fls))))"

definition ScanPath ::
  "(string \<Rightarrow> string) \<Rightarrow> (string \<Rightarrow> string \<Rightarrow> (nat \<times> nat) list) \<Rightarrow> (segpath \<Rightarrow> bool) \<Rightarrow> fs \<Rightarrow> path \<Rightarrow>
     pii_error + Finding list" where
  "ScanPath sha find_all unreadable f p =
     (case lstat_node f (csegs p) of
        None \<Rightarrow> Inl (PiiStat p)
      | Some (NLink _ _) \<Rightarrow> Inl (PiiSymlink p)
      | Some (NDir _) \<Rightarrow> scanDir sha find_all unreadable f p
      | Some (NOther _) \<Rightarrow> Inl (PiiRead p)
      | Some (NFile _ c) \<Rightarrow>
          if unreadable (csegs p) then Inl (PiiRead p)
          else if int (length c) > MaxFileBytes then Inl (PiiTooLarge p)
          else Inr (ScanBytes sha find_all [] p c))"

lemma scanBytes_path: "x \<in> set (scanBytes sha fa p c rs) \<Longrightarrow> f_path x = p"
  by (auto simp: scanBytes_def scan_line_def Let_def split: if_splits)

lemma scanDir_paths:
  assumes "scanDir sha fa u f root = Inr fs" and "x \<in> set fs"
  shows "\<exists>rel m c. (csegs root @ rel, NFile m c) \<in> set f \<and> rel \<noteq> [] \<and> f_path x = path_join root (join_with [sep] rel)"
proof -
  obtain rel c where rc: "(rel, c) \<in> set (scanned_files f (csegs root))"
    and x: "x \<in> set (ScanBytes sha fa [] (path_join root (join_with [sep] rel)) c)"
    using assms by (auto simp: scanDir_def Let_def split: if_splits)
  from rc obtain m where "(rel, NFile m c) \<in> set (walk f (csegs root))"
    by (auto simp: scanned_files_def split: node.splits if_splits)
  moreover from x have "f_path x = path_join root (join_with [sep] rel)"
    by (auto simp: ScanBytes_def dest: scanBytes_path)
  ultimately show ?thesis unfolding walk_set by blast
qed

end
