(* ===== verification/Run_Plan.thy ===== *)
theory Run_Plan
  imports Read_Rules Overlay_Model Lifecycle Net_Policy Pii_Scan
begin

text \<open>
  \<open>internal/runplan\<close>: the inert plan of a protected run, composed of the agent adapter, the
  network plan, the overlay layout, the manifest, the personal-data findings, the compiled read
  rules and the Landlock plan.  The fields of the source's record that \<open>Build\<close> leaves empty
  (control group, capabilities, history) are left out.
\<close>

record Config =
  cf_workspace :: path
  cf_runtime_root :: path
  cf_policy :: Policy
  cf_runtime_roots :: "path list"
  cf_overlay_backend :: string
  cf_network_backend :: string
  cf_agent :: string
  cf_graph :: string
  cf_checkpoint :: string
  cf_parents :: "string list"

record RunPlan =
  rp_run :: run
  rp_layout :: Layout
  rp_manifest :: Manifest
  rp_rules :: ReadRules
  rp_landlock :: "Plan option"
  rp_resources :: ResourcePolicy
  rp_backend :: string
  rp_network :: NetPlan
  rp_agent :: string
  rp_hook :: string
  rp_executables :: "string list"
  rp_pii :: "Finding list"
  rp_pii_mode :: mode
  rp_graph :: string
  rp_checkpoint :: string
  rp_parents :: "string list"

datatype build_error =
    WorkspaceEmpty
  | WorkspaceRoot
  | WorkspaceMissing path
  | WorkspaceNotDir path
  | RuntimeEmpty
  | RuntimeRoot
  | PolicyError policy_error
  | AgentError agent_error
  | NetworkError policy_error
  | EnforceNeedsBackend
  | DenyWithDomains
  | RootsOverlap
  | LayoutError overlay_error
  | ManifestError manifest_error
  | PiiError pii_error
  | PiiMode mode
  | PiiEscapes path
  | ReadError compile_error
  | LandlockError plan_error
  | LifecycleError lifecycle_error
  | BadBackend string

text \<open>What the call gets from outside: the working directory, the hash, the clock, randomness.\<close>

record build_env =
  be_cwd :: path
  be_sha :: "string \<Rightarrow> string"
  be_unreadable :: "segpath \<Rightarrow> bool"
  be_find_all :: "string \<Rightarrow> string \<Rightarrow> (nat \<times> nat) list"
  be_stamp :: string
  be_random :: "string option"
  be_now :: int

definition resolveWorkspace :: "path \<Rightarrow> fs \<Rightarrow> path \<Rightarrow> build_error + path" where
  "resolveWorkspace cwd f v =
     (if blank v then Inl WorkspaceEmpty
      else (let p = clean (abs_path cwd v) in
        if p = [sep] then Inl WorkspaceRoot
        else (case stat_node f (csegs p) of
                None \<Rightarrow> Inl (WorkspaceMissing p)
              | Some n \<Rightarrow> if is_dir n then Inr p else Inl (WorkspaceNotDir p))))"

definition resolveRuntimeRoot :: "path \<Rightarrow> path \<Rightarrow> build_error + path" where
  "resolveRuntimeRoot cwd v =
     (if blank v then Inl RuntimeEmpty
      else (let p = clean (abs_path cwd v) in if p = [sep] then Inl RuntimeRoot else Inr p))"

definition piiFindingsForPlan :: "build_env \<Rightarrow> fs \<Rightarrow> PIIPolicy \<Rightarrow> path \<Rightarrow> build_error + Finding list" where
  "piiFindingsForPlan env f config workspace =
     (if pii_mode config = [] \<or> pii_mode config = ModeOff then Inr []
      else and_then (map_err PiiError (ScanPath (be_sha env) (be_find_all env) (be_unreadable env) f workspace))
        (\<lambda>findings. if pii_mode config = ModeAudit \<or> pii_mode config = ModeEnforce then Inr findings
                    else Inl (PiiMode (pii_mode config))))"

fun deny_findings :: "path \<Rightarrow> path \<Rightarrow> string list \<Rightarrow> Finding list \<Rightarrow> build_error + string list" where
  "deny_findings workspace merged deny [] = Inr deny"
| "deny_findings workspace merged deny (x # xs) =
     (case rel_path workspace (f_path x) of
        None \<Rightarrow> Inl (PiiEscapes (f_path x))
      | Some rel \<Rightarrow>
          if escapes rel then Inl (PiiEscapes (f_path x))
          else deny_findings workspace merged (deny @ [path_join merged rel]) xs)"

definition harden :: "string \<Rightarrow> NetPlan \<Rightarrow> NetPlan" where
  "harden b p = p\<lparr>
     np_raw_deny := (np_mode p = ModeEnforce \<and> (b = ''proxy'' \<or> b = ''deny'')),
     np_deny := (np_mode p = ModeEnforce \<and> b = ''deny''),
     np_ns := (np_mode p = ModeEnforce \<and> b = ''namespace'')\<rparr>"

definition network_for :: "Config \<Rightarrow> build_error + NetPlan" where
  "network_for c =
     and_then (map_err NetworkError (net_Compile (pol_network (cf_policy c)))) (\<lambda>p.
       if np_mode p = ModeEnforce \<and> cf_network_backend c \<notin> {''proxy'', ''deny'', ''namespace''}
       then Inl EnforceNeedsBackend
       else if cf_network_backend c = ''deny'' \<and> np_domains p \<noteq> [] then Inl DenyWithDomains
       else Inr (harden (cf_network_backend c) p))"

definition read_policy_for :: "ReadPolicy \<Rightarrow> path \<Rightarrow> path \<Rightarrow> Finding list \<Rightarrow> build_error + ReadPolicy" where
  "read_policy_for r workspace merged findings =
     (if pii_mode (rd_pii r) = ModeEnforce
      then and_then (deny_findings workspace merged (rd_deny r) findings) (\<lambda>d. Inr (r\<lparr>rd_deny := d\<rparr>))
      else Inr r)"

definition landlock_for :: "build_env \<Rightarrow> fs \<Rightarrow> path \<Rightarrow> ReadRules \<Rightarrow> path list \<Rightarrow> build_error + Plan option" where
  "landlock_for env f merged rl roots =
     (if rs_mode rl = ModeEnforce
      then and_then (map_err LandlockError (BuildPlan (be_cwd env) f merged rl roots)) (\<lambda>p. Inr (Some p))
      else Inr None)"

definition plan_Build :: "build_env \<Rightarrow> fs \<Rightarrow> Config \<Rightarrow> build_error + RunPlan" where
  "plan_Build env f c =
     and_then (resolveWorkspace (be_cwd env) f (cf_workspace c)) (\<lambda>workspace.
     and_then (map_err PolicyError (Policy_Validate (cf_policy c))) (\<lambda>_.
     and_then (map_err AgentError (agent_Resolve (cf_agent c))) (\<lambda>spec.
     and_then (network_for c) (\<lambda>network.
     and_then (resolveRuntimeRoot (be_cwd env) (cf_runtime_root c)) (\<lambda>root.
       if is_within workspace root \<or> is_within root workspace then Inl RootsOverlap
       else
     and_then (map_err LayoutError (NewLayoutWithLower (be_cwd env) root workspace)) (\<lambda>layout.
     and_then (map_err ManifestError (Build (be_cwd env) (be_sha env) (be_unreadable env) f workspace)) (\<lambda>snapshot.
     and_then (piiFindingsForPlan env f (rd_pii (pol_read (cf_policy c))) workspace) (\<lambda>findings.
     and_then (read_policy_for (pol_read (cf_policy c)) workspace (l_merged layout) findings) (\<lambda>readPolicy.
     and_then (map_err ReadError (CompileRead (be_cwd env) readPolicy (l_merged layout) snapshot)) (\<lambda>rl.
     and_then (landlock_for env f (l_merged layout) rl (cf_runtime_roots c)) (\<lambda>ll.
     and_then (map_err LifecycleError (New (be_stamp env) (be_random env) (be_now env))) (\<lambda>r.
       let b = (if cf_overlay_backend c = [] then ''fuse'' else cf_overlay_backend c) in
       if b \<noteq> ''fuse'' \<and> b \<noteq> ''kernel'' then Inl (BadBackend b)
       else
         let cid = trim_space (cf_checkpoint c);
             cid = (if cid = [] \<and> \<not> blank (cf_graph c) then run_id r else cid) in
         Inr \<lparr>rp_run = r, rp_layout = layout, rp_manifest = snapshot, rp_rules = rl, rp_landlock = ll,
              rp_resources = pol_resources (cf_policy c), rp_backend = b, rp_network = network,
              rp_agent = as_kind spec, rp_hook = as_hook spec, rp_executables = as_executables spec,
              rp_pii = findings, rp_pii_mode = pii_mode (rd_pii (pol_read (cf_policy c))),
              rp_graph = cf_graph c, rp_checkpoint = cid, rp_parents = cf_parents c\<rparr>))))))))))))"

subsection \<open>What a plan contains\<close>

lemma plan_Build_Inr:
  assumes "plan_Build env f c = Inr plan"
  obtains workspace root readPolicy
  where "resolveWorkspace (be_cwd env) f (cf_workspace c) = Inr workspace"
    and "wf_policy (cf_policy c)" and "network_for c = Inr (rp_network plan)"
    and "resolveRuntimeRoot (be_cwd env) (cf_runtime_root c) = Inr root"
    and "\<not> is_within workspace root" and "\<not> is_within root workspace"
    and "NewLayoutWithLower (be_cwd env) root workspace = Inr (rp_layout plan)"
    and "Build (be_cwd env) (be_sha env) (be_unreadable env) f workspace = Inr (rp_manifest plan)"
    and "read_policy_for (pol_read (cf_policy c)) workspace (l_merged (rp_layout plan)) (rp_pii plan) = Inr readPolicy"
    and "CompileRead (be_cwd env) readPolicy (l_merged (rp_layout plan)) (rp_manifest plan) = Inr (rp_rules plan)"
    and "landlock_for env f (l_merged (rp_layout plan)) (rp_rules plan) (cf_runtime_roots c) = Inr (rp_landlock plan)"
    and "New (be_stamp env) (be_random env) (be_now env) = Inr (rp_run plan)"
    and "rp_backend plan = ''fuse'' \<or> rp_backend plan = ''kernel''"
    and "rp_pii_mode plan = pii_mode (rd_pii (pol_read (cf_policy c)))"
proof -
  show thesis
    using assms unfolding plan_Build_def
    by (auto simp: Let_def split: if_splits intro!: that)
qed

lemma resolve_Inr:
  "resolveWorkspace cwd f v = Inr p \<Longrightarrow> p = clean (abs_path cwd v)"
  "resolveRuntimeRoot cwd v = Inr p \<Longrightarrow> p = clean (abs_path cwd v)"
  by (auto simp: resolveWorkspace_def resolveRuntimeRoot_def Let_def split: if_splits option.splits)

lemma abs_path_abs: "is_abs cwd \<Longrightarrow> is_abs (abs_path cwd v)"
  by (simp add: abs_path_def path_join_abs)

lemma abs_path_id: "is_abs p \<Longrightarrow> abs_path cwd p = clean p"
  by (simp add: abs_path_def)

lemma layout_roots:
  assumes "NewLayoutWithLower cwd root lower = Inr l"
  shows "l_root l = clean (abs_path cwd root)" and "l_lower l = clean (abs_path cwd lower)"
  using assms by (auto simp: NewLayoutWithLower_def NewLayout_def Let_def split: if_splits)


subsection \<open>Findings of personal data\<close>

lemma not_literal_doublestar: "\<not> literal ''**''"
  by (simp add: literal_def)

lemma matchSegments_self: "\<forall>x \<in> set xs. literal x \<Longrightarrow> matchSegments xs xs"
proof (induction xs)
  case (Cons x xs)
  then have "literal x" "matchSegments xs xs" by simp_all
  moreover from this have "path_match x x = Some True" "x \<noteq> ''**''"
    using not_literal_doublestar by (auto simp: path_match_literal)
  ultimately show ?case by (simp only: matchSegments.simps) simp
qed simp

text \<open>A path that is not changed by \<open>Match\<close>'s normalisation and has no pattern characters.\<close>

definition self_matching :: "path \<Rightarrow> bool" where
  "self_matching p = (is_abs p \<and> slashes p = p \<and> (\<forall>x \<in> set (split p). literal x))"

lemma Match_self: "self_matching p \<Longrightarrow> Match p p"
  using matchSegments_self [of "split p"]
  by (auto simp: Match_def Let_def self_matching_def is_abs_def)

lemma deny_findings_mono: "deny_findings workspace merged deny xs = Inr d \<Longrightarrow> set deny \<subseteq> set d"
  by (induction workspace merged deny xs rule: deny_findings.induct) (auto split: option.splits if_splits)

lemma deny_findings_Inr:
  assumes "deny_findings workspace merged deny xs = Inr d" and "x \<in> set xs"
    and "rel_path workspace (f_path x) = Some rel"
  shows "path_join merged rel \<in> set d"
  using assms
proof (induction workspace merged deny xs rule: deny_findings.induct)
  case (2 workspace merged deny y ys)
  show ?case
  proof (cases "x = y")
    case True
    then have "deny_findings workspace merged (deny @ [path_join merged rel]) ys = Inr d"
      using "2.prems"(1,3) by (simp split: if_splits)
    from deny_findings_mono [OF this] show ?thesis by simp
  next
    case False
    then show ?thesis using 2 by (auto split: option.splits if_splits)
  qed
qed simp

lemma CompileRead_mode: "CompileRead cwd read root snapshot = Inr rs \<Longrightarrow> rs_mode rs = rd_mode read"
  by (auto simp: CompileRead_def Let_def split: if_splits)

lemma allowed_file_decision:
  assumes "CompileRead cwd read root snapshot = Inr rs" and "q \<in> set (rs_files rs)"
  shows "Decision read q = ''allow'' \<and> rd_mode read = ModeEnforce"
proof -
  have off: "rd_mode read \<noteq> ModeOff"
    using assms by (auto simp: CompileRead_def Let_def split: if_splits)
  obtain bp fls ds where c: "compile_entries read (clean (abs_path cwd root)) [] [] [] (m_entries snapshot) = Inr (bp, fls, ds)"
    and rs: "rs = \<lparr>rs_mode = rd_mode read, rs_rules = sort_key rr_path (map (\<lambda>(p, d). \<lparr>rr_path = p, rr_decision = d\<rparr>) bp),
              rs_files = sort fls, rs_dirs = sort ds\<rparr>"
    by (rule CompileRead_Inr [OF assms(1) off])
  show ?thesis using compile_entries_files [OF c] assms(2) by (auto simp: rs)
qed

text \<open>
  C19. In enforcing mode a file with a finding of personal data is not readable: no such file,
  at its place in the merged directory, is among the allowed files of the rules or of the
  Landlock plan, provided its path has no pattern characters.
\<close>

theorem pii_findings_are_denied:
  assumes "plan_Build env f c = Inr plan" and "rp_pii_mode plan = ModeEnforce" and "x \<in> set (rp_pii plan)"
    and "rel_path (clean (abs_path (be_cwd env) (cf_workspace c))) (f_path x) = Some rel"
    and "self_matching (path_join (l_merged (rp_layout plan)) rel)"
  shows "path_join (l_merged (rp_layout plan)) rel \<notin> set (rs_files (rp_rules plan)) \<and>
     (\<exists>ll. rp_landlock plan = Some ll \<and> path_join (l_merged (rp_layout plan)) rel \<notin> set (ll_files ll))"
proof (rule plan_Build_Inr [OF assms(1)])
  fix workspace readPolicy
  let ?m = "l_merged (rp_layout plan)" and ?p = "path_join (l_merged (rp_layout plan)) rel"
  assume ws: "resolveWorkspace (be_cwd env) f (cf_workspace c) = Inr workspace"
    and wf: "wf_policy (cf_policy c)"
    and rp: "read_policy_for (pol_read (cf_policy c)) workspace ?m (rp_pii plan) = Inr readPolicy"
    and cr: "CompileRead (be_cwd env) readPolicy ?m (rp_manifest plan) = Inr (rp_rules plan)"
    and ll: "landlock_for env f ?m (rp_rules plan) (cf_runtime_roots c) = Inr (rp_landlock plan)"
    and mode: "rp_pii_mode plan = pii_mode (rd_pii (pol_read (cf_policy c)))"
  have enf: "pii_mode (rd_pii (pol_read (cf_policy c))) = ModeEnforce" using assms(2) mode by simp
  then have re: "rd_mode (pol_read (cf_policy c)) = ModeEnforce" using wf by (simp add: wf_policy_def)
  obtain d where d: "deny_findings workspace ?m (rd_deny (pol_read (cf_policy c))) (rp_pii plan) = Inr d"
    and rd: "readPolicy = (pol_read (cf_policy c))\<lparr>rd_deny := d\<rparr>"
    using rp enf by (auto simp: read_policy_for_def)
  have "?p \<in> set d"
    using deny_findings_Inr [OF d assms(3)] assms(4) resolve_Inr(1) [OF ws] by simp
  then have "\<exists>y \<in> set (rd_deny readPolicy). Match y ?p"
    using Match_self [OF assms(5)] by (auto simp: rd)
  then have "Decision readPolicy ?p = ''deny''"
    using re by (simp add: Decision_cases rd mode_defs)
  then have no: "?p \<notin> set (rs_files (rp_rules plan))"
    using allowed_file_decision [OF cr] by force
  have "rs_mode (rp_rules plan) = ModeEnforce"
    using CompileRead_mode [OF cr] re by (simp add: rd)
  then obtain p where "rp_landlock plan = Some p" "BuildPlan (be_cwd env) f ?m (rp_rules plan) (cf_runtime_roots c) = Inr p"
    using ll by (cases "rp_landlock plan") (auto simp: landlock_for_def)
  then show ?thesis using no BuildPlan_Inr(2) by blast
qed

subsection \<open>A concrete plan\<close>

definition demo_policy :: Policy where
  "demo_policy = \<lparr>
     pol_read = \<lparr>rd_mode = ''enforce'', rd_deny = [], rd_allow = [], rd_pii = \<lparr>pii_mode = ''enforce''\<rparr>\<rparr>,
     pol_write = \<lparr>wr_mode = [], wr_scope = []\<rparr>,
     pol_network = \<lparr>net_mode = [], net_domains = [], net_creds = []\<rparr>,
     pol_resources = \<lparr>pids_max = [], memory_max = [], cpu_max = []\<rparr>\<rparr>"

definition demo_config :: Config where
  "demo_config = \<lparr>cf_workspace = ''/w'', cf_runtime_root = ''/r'', cf_policy = demo_policy,
     cf_runtime_roots = [], cf_overlay_backend = ''kernel'', cf_network_backend = [], cf_agent = [],
     cf_graph = [], cf_checkpoint = [], cf_parents = []\<rparr>"

text \<open>An environment in which every nonempty line has one finding, of kind \<open>ssn\<close>.\<close>

definition demo_build :: build_env where
  "demo_build = \<lparr>be_cwd = ''/'', be_sha = (\<lambda>s. s), be_unreadable = (\<lambda>_. False),
     be_find_all = (\<lambda>p line. if p = r_pattern (rules ! 2) \<and> line \<noteq> [] then [(0, 1)] else []),
     be_stamp = ''t'', be_random = Some ''r'', be_now = 5\<rparr>"

definition demo_workspace :: "string \<Rightarrow> fs" where
  "demo_workspace name = [([''w''], NDir 493), ([''w'', name], NFile 420 ''1'')]"

definition demo_plan_layout :: Layout where
  "demo_plan_layout = \<lparr>l_root = ''/r'', l_lower = ''/w'', l_upper = ''/r/upper'', l_work = ''/r/work'',
     l_merged = ''/r/merged''\<rparr>"

definition demo_manifest :: "string \<Rightarrow> Manifest" where
  "demo_manifest name = \<lparr>m_version = 1, m_entries =
     [\<lparr>e_path = name, e_type = ''file'', e_mode = 420, e_size = 1, e_sha = ''31'', e_link = []\<rparr>]\<rparr>"

definition demo_findings :: "string \<Rightarrow> Finding list" where
  "demo_findings name = [\<lparr>f_path = ''/w/'' @ name, f_kind = ''ssn'', f_line = 1, f_column = 1,
     f_hash = ''31'', f_replacement = ''[REDACTED:ssn]''\<rparr>]"

text \<open>The read rules and the Landlock plan, when the only file is allowed or denied.\<close>

definition demo_rules :: "string \<Rightarrow> bool \<Rightarrow> ReadRules" where
  "demo_rules name allowed = (let p = ''/r/merged/'' @ name in
     \<lparr>rs_mode = ''enforce'', rs_rules = (if allowed then [] else [\<lparr>rr_path = p, rr_decision = ''deny''\<rparr>]),
      rs_files = (if allowed then [p] else []), rs_dirs = []\<rparr>)"

definition demo_plan :: "string \<Rightarrow> bool \<Rightarrow> RunPlan" where
  "demo_plan name allowed =
     \<lparr>rp_run = \<lparr>run_id = ''run_t_72'', run_state = Preparing, created_at = 5, updated_at = 5\<rparr>,
      rp_layout = demo_plan_layout, rp_manifest = demo_manifest name, rp_rules = demo_rules name allowed,
      rp_landlock = Some \<lparr>ll_root = ''/r/merged'', ll_files = rs_files (demo_rules name allowed), ll_dirs = [],
                         ll_runtime = []\<rparr>,
      rp_resources = pol_resources demo_policy, rp_backend = ''kernel'',
      rp_network = \<lparr>np_mode = [], np_domains = [], np_creds = [], np_raw_deny = False, np_deny = False,
                    np_ns = False\<rparr>,
      rp_agent = ''generic'', rp_hook = ''rewind/v1'', rp_executables = [],
      rp_pii = demo_findings name, rp_pii_mode = ''enforce'', rp_graph = [], rp_checkpoint = [], rp_parents = []\<rparr>"

lemma demo_common:
  "resolveRuntimeRoot ''/'' ''/r'' = Inr ''/r''"
  "Policy_Validate demo_policy = Inr ()"
  "network_for demo_config = Inr \<lparr>np_mode = [], np_domains = [], np_creds = [], np_raw_deny = False,
     np_deny = False, np_ns = False\<rparr>"
  "NewLayoutWithLower ''/'' ''/r'' ''/w'' = Inr demo_plan_layout"
  "New ''t'' (Some ''r'') 5 = Inr \<lparr>run_id = ''run_t_72'', run_state = Preparing, created_at = 5, updated_at = 5\<rparr>"
  "agent_Resolve [] = Inr (hd specs)"
  "is_within ''/w'' ''/r'' = False" "is_within ''/r'' ''/w'' = False"
  by code_simp+

definition demo_read_denying :: "string \<Rightarrow> ReadPolicy" where
  "demo_read_denying name = (pol_read demo_policy)\<lparr>rd_deny := [''/r/merged/'' @ name]\<rparr>"

definition demo_steps :: "string \<Rightarrow> bool \<Rightarrow> bool" where
  "demo_steps n a =
     (resolveWorkspace ''/'' (demo_workspace n) ''/w'' = Inr ''/w'' \<and>
      Build ''/'' (\<lambda>s. s) (\<lambda>_. False) (demo_workspace n) ''/w'' = Inr (demo_manifest n) \<and>
      piiFindingsForPlan demo_build (demo_workspace n) (rd_pii (pol_read demo_policy)) ''/w'' = Inr (demo_findings n) \<and>
      read_policy_for (pol_read demo_policy) ''/w'' ''/r/merged'' (demo_findings n) = Inr (demo_read_denying n) \<and>
      CompileRead ''/'' (demo_read_denying n) ''/r/merged'' (demo_manifest n) = Inr (demo_rules n a) \<and>
      landlock_for demo_build (demo_workspace n) ''/r/merged'' (demo_rules n a) [] = Inr (rp_landlock (demo_plan n a)))"

lemma demo_steps_hold: "demo_steps ''x'' False" "demo_steps ''['' True"
  unfolding demo_steps_def by (intro conjI; code_simp)+

lemma demo_plan_built:
  assumes "demo_steps n a"
  shows "plan_Build demo_build (demo_workspace n) demo_config = Inr (demo_plan n a)"
proof -
  have l: "l_merged demo_plan_layout = ''/r/merged''" by (simp add: demo_plan_layout_def)
  have c: "cf_workspace demo_config = ''/w''" "cf_policy demo_config = demo_policy"
    "cf_runtime_root demo_config = ''/r''" "cf_agent demo_config = []"
    "cf_runtime_roots demo_config = []" "cf_overlay_backend demo_config = ''kernel''"
    "cf_checkpoint demo_config = []" "cf_graph demo_config = []" "cf_parents demo_config = []"
    "be_cwd demo_build = ''/''" "be_sha demo_build = (\<lambda>s. s)" "be_unreadable demo_build = (\<lambda>_. False)"
    "be_stamp demo_build = ''t''" "be_random demo_build = Some ''r''" "be_now demo_build = 5"
    by (simp_all add: demo_config_def demo_build_def)
  note s = assms [unfolded demo_steps_def]
  have t: "trim_space [] = []" using blank_Nil by (simp only: blank_def)
  show ?thesis
    unfolding plan_Build_def
    using s by (simp add: l c t demo_common) (simp add: demo_plan_def specs_def demo_policy_def)
qed


text \<open>
  Why the runtime root must not be reached through a link: \<open>/l\<close> is a link to the workspace \<open>/w\<close>, the
  checks on the two paths pass, and the rollback removes \<open>/w/upper\<close>.
\<close>

definition linked_world :: ov_world where
  "linked_world = \<lparr>ov_fs = [([''w''], NDir 493), ([''w'', ''upper''], NDir 493), ([''w'', ''upper'', ''x''], NFile 420 ''1''),
     ([''l''], NLink 511 ''/w'')], ov_cmds = [], ov_kills = 0\<rparr>"

lemma linked_root_loses_workspace:
  "case NewLayoutWithLower ''/'' ''/l'' ''/w'' of
     Inl _ \<Rightarrow> False
   | Inr l \<Rightarrow>
       resolveWorkspace ''/'' (ov_fs linked_world) ''/w'' = Inr ''/w'' \<and> resolveRuntimeRoot ''/'' ''/l'' = Inr ''/l'' \<and>
       \<not> is_within ''/w'' ''/l'' \<and> \<not> is_within ''/l'' ''/w'' \<and>
       (case Rollback demo_ov linked_world l of
          (w', e) \<Rightarrow> e = None \<and> fs_get (ov_fs linked_world) [''w'', ''upper'', ''x''] = Some (NFile 420 ''1'') \<and>
                      fs_get (ov_fs w') [''w'', ''upper'', ''x''] = None)"
  by code_simp

theorem pii_findings_are_denied_witness:
  "''/r/merged/x'' \<notin> set (rs_files (rp_rules (demo_plan ''x'' False)))"
proof -
  have r: "rel_path (clean (abs_path (be_cwd demo_build) (cf_workspace demo_config))) ''/w/x'' = Some ''x''"
    by code_simp
  have p: "path_join (l_merged demo_plan_layout) ''x'' = ''/r/merged/x''" by code_simp
  have "slashes ''/r/merged/x'' = ''/r/merged/x''" by code_simp
  moreover have "split ''/r/merged/x'' = [''r'', ''merged'', ''x'']" by code_simp
  ultimately have "self_matching ''/r/merged/x''"
    by (simp add: self_matching_def is_abs_def literal_def)
  then show ?thesis
    using pii_findings_are_denied [OF demo_plan_built [OF demo_steps_hold(1)], of "hd (demo_findings ''x'')" "''x''"]
    by (simp add: demo_plan_def demo_findings_def r p mode_defs)
qed

text \<open>
  The finding's path is used as a pattern, so its pattern characters are not taken literally:
  in enforcing mode a file with a finding stays readable when its name is an opening bracket,
  which is a malformed pattern and matches nothing.
\<close>

theorem pii_enforcement_misses_pattern_characters:
  "\<exists>plan. plan_Build demo_build (demo_workspace ''['') demo_config = Inr plan \<and>
     rp_pii_mode plan = ModeEnforce \<and> ''/w/['' \<in> f_path ` set (rp_pii plan) \<and>
     ''/r/merged/['' \<in> set (rs_files (rp_rules plan))"
  using demo_plan_built [OF demo_steps_hold(2)]
  by (simp add: demo_plan_def demo_findings_def demo_rules_def mode_defs)

end
