(* ===== verification/Coordinator.thy ===== *)
theory Coordinator
  imports Run_Plan
begin

text \<open>
  \<open>internal/protectedrun\<close>: the coordinator of one run.  Overlay, process, start gate, sensor,
  process scope and network boundary are interfaces; a call of one of their methods is an action,
  the actions of a run form its trace, and whether an action fails is the environment's choice,
  which may depend on all that happened before (\<open>ce_fails\<close>).  \<open>errors.Join\<close> is a list of errors,
  empty for nil.  The plan is shared by pointer in the source: here it is part of the handle and
  of every result.
\<close>

datatype act =
    Mounts | RollsBack | Starts | AddsPID | Prepares | StartsRefresh | StopsRefresh | CleansNetwork
  | Attaches | ClosesSensor | Releases | Kills | Waits | Terminates | ClosesScope | BeforeClose

datatype cerr =
    PlanRequired | OverlayRequired | CommandEmpty | WrongState lstate | SensorRequired | PidZero
  | NotStarted | HandleIncomplete | Failing act | Lifecycle lifecycle_error

type_synonym trace = "act list"

text \<open>What the coordinator was given, and how its environment behaves.\<close>

record Coordinator =
  co_overlay :: bool
  co_starter :: bool
  co_sensor :: bool
  co_scope :: bool
  co_network :: bool
  co_refresher :: bool

record coord_env =
  ce_fails :: "trace \<Rightarrow> act \<Rightarrow> bool"
  ce_pid :: "32 word"
  ce_gate :: bool
  ce_now :: int

record Handle =
  h_overlay :: bool
  h_plan :: RunPlan
  h_process :: bool
  h_sensor :: bool
  h_scope :: bool
  h_network :: bool
  h_refresh :: bool
  h_waited :: bool

definition act :: "coord_env \<Rightarrow> trace \<Rightarrow> act \<Rightarrow> trace \<times> cerr list" where
  "act env tr a = (tr @ [a], if ce_fails env tr a then [Failing a] else [])"

definition plan_state :: "RunPlan \<Rightarrow> lstate" where
  "plan_state p = run_state (rp_run p)"

definition move :: "coord_env \<Rightarrow> RunPlan \<Rightarrow> lstate \<Rightarrow> RunPlan \<times> cerr list" where
  "move env p s =
     (case Transition (ce_now env) (Some (rp_run p)) s of
        Inl e \<Rightarrow> (p, [Lifecycle e])
      | Inr r \<Rightarrow> (p\<lparr>rp_run := r\<rparr>, []))"

subsection \<open>The handle\<close>

definition stopNetworkRefresh :: "trace \<Rightarrow> Handle \<Rightarrow> trace \<times> Handle" where
  "stopNetworkRefresh tr h =
     (if h_refresh h then (tr @ [StopsRefresh], h\<lparr>h_refresh := False\<rparr>) else (tr, h))"

definition closeSensor :: "coord_env \<Rightarrow> trace \<Rightarrow> Handle \<Rightarrow> trace \<times> Handle \<times> cerr list" where
  "closeSensor env tr h =
     (if \<not> h_sensor h then (tr, h, [])
      else (let (tr', e) = act env tr ClosesSensor in (tr', h\<lparr>h_sensor := False\<rparr>, e)))"

definition closeScope :: "coord_env \<Rightarrow> trace \<Rightarrow> Handle \<Rightarrow> trace \<times> Handle \<times> cerr list" where
  "closeScope env tr h =
     (if \<not> h_scope h then (tr, h, [])
      else (let (tr1, e1) = act env tr ClosesScope in
            if e1 = [] then (tr1, h\<lparr>h_scope := False\<rparr>, [])
            else (let (tr2, e2) = act env tr1 Terminates; (tr3, e3) = act env tr2 ClosesScope in
                  (tr3, h\<lparr>h_scope := False\<rparr>, e1 @ e2 @ e3))))"

definition kill_agent :: "coord_env \<Rightarrow> trace \<Rightarrow> Handle \<Rightarrow> trace \<times> Handle \<times> cerr list" where
  "kill_agent env tr h =
     (if h_process h \<and> \<not> h_waited h
      then (let (tr', e) = act env tr Kills in (tr', h\<lparr>h_waited := True\<rparr>, e))
      else (tr, h, []))"

definition clean_network :: "coord_env \<Rightarrow> trace \<Rightarrow> Handle \<Rightarrow> trace \<times> Handle \<times> cerr list" where
  "clean_network env tr h =
     (if h_network h
      then (let (tr1, h1) = stopNetworkRefresh tr h; (tr2, e) = act env tr1 CleansNetwork in
            (tr2, h1\<lparr>h_network := False\<rparr>, e))
      else (tr, h, []))"

definition end_scope :: "coord_env \<Rightarrow> trace \<Rightarrow> Handle \<Rightarrow> trace \<times> cerr list" where
  "end_scope env tr h =
     (if h_scope h
      then (let (tr1, e1) = act env tr Terminates; (tr2, e2) = act env tr1 ClosesScope in (tr2, e1 @ e2))
      else (tr, []))"

definition fail_running :: "coord_env \<Rightarrow> RunPlan \<Rightarrow> RunPlan \<times> cerr list" where
  "fail_running env p = (if plan_state p = Running then move env p Failed else (p, []))"

text \<open>Roll back the overlay, then the run if its state is one of the given ones.\<close>

definition undo :: "coord_env \<Rightarrow> trace \<Rightarrow> RunPlan \<Rightarrow> lstate set \<Rightarrow> trace \<times> RunPlan \<times> cerr list" where
  "undo env tr p states =
     (let (tr', e) = act env tr RollsBack in
      if e \<noteq> [] then (tr', p, e)
      else if plan_state p \<in> states
      then (let (p', e') = move env p RolledBack in (tr', p', e'))
      else (tr', p, []))"

definition failAndRollback :: "coord_env \<Rightarrow> trace \<Rightarrow> Handle \<Rightarrow> cerr \<Rightarrow> trace \<times> Handle \<times> cerr list" where
  "failAndRollback env tr h cause =
     (let (tr1, h1, _) = kill_agent env tr h;
          (tr2, h2, e2) = closeSensor env tr1 h1;
          (tr3, h3) = stopNetworkRefresh tr2 h2;
          (tr4, e4) = end_scope env tr3 h3;
          (p5, e5) = fail_running env (h_plan h3);
          (tr6, p6, e6) = undo env tr4 p5 {Failed}
      in (tr6, h3\<lparr>h_plan := p6\<rparr>, cause # e2 @ e4 @ e5 @ e6))"

definition Handle_Rollback :: "coord_env \<Rightarrow> trace \<Rightarrow> Handle option \<Rightarrow> trace \<times> Handle option \<times> cerr list" where
  "Handle_Rollback env tr ho =
     (case ho of
        None \<Rightarrow> (tr, None, [HandleIncomplete])
      | Some h \<Rightarrow>
          if \<not> h_overlay h then (tr, Some h, [HandleIncomplete])
          else (let (tr1, h1, e1) = kill_agent env tr h;
                    (tr2, h2, e2) = clean_network env tr1 h1;
                    (tr3, h3, e3) = closeSensor env tr2 h2;
                    (tr4, e4) = end_scope env tr3 h3;
                    (p5, e5) = fail_running env (h_plan h3);
                    (tr6, p6, e6) = undo env tr4 p5 {Failed, Succeeded, Paused}
                in (tr6, Some (h3\<lparr>h_plan := p6\<rparr>), e1 @ e2 @ e3 @ e4 @ e5 @ e6)))"

text \<open>\<open>wait\<close>, with or without the hook \<open>WaitWith\<close> passes.\<close>

definition Handle_wait :: "coord_env \<Rightarrow> trace \<Rightarrow> Handle option \<Rightarrow> bool \<Rightarrow> trace \<times> Handle option \<times> cerr list" where
  "Handle_wait env tr ho hook =
     (case ho of
        None \<Rightarrow> (tr, None, [NotStarted])
      | Some h \<Rightarrow>
          if \<not> h_process h then (tr, Some h, [NotStarted])
          else (let (tr1, e1) = act env tr Waits;
                    h1 = h\<lparr>h_waited := True\<rparr>;
                    (tr2, h2, eNet) = clean_network env tr1 h1;
                    (tr3, eHook) = (if hook then act env tr2 BeforeClose else (tr2, []));
                    (tr4, h4, eClose) = closeSensor env tr3 h2;
                    (tr5, h5, eScope) = closeScope env tr4 h4
                in if e1 \<noteq> [] then
                     (let (p, e) = move env (h_plan h5) Failed in
                      (tr5, Some (h5\<lparr>h_plan := p\<rparr>), e1 @ e @ eNet @ eHook @ eClose @ eScope))
                   else if eScope \<noteq> [] then
                     (let (p, _) = move env (h_plan h5) Failed in
                      (tr5, Some (h5\<lparr>h_plan := p\<rparr>), eScope @ eNet @ eHook @ eClose))
                   else
                     (let (p, e) = move env (h_plan h5) Succeeded in
                      if e \<noteq> [] then (tr5, Some (h5\<lparr>h_plan := p\<rparr>), e @ eHook @ eClose)
                      else (tr5, Some (h5\<lparr>h_plan := p\<rparr>), eNet @ eHook @ eClose))))"

subsection \<open>The coordinator\<close>

definition RollbackPlan :: "Coordinator \<Rightarrow> coord_env \<Rightarrow> trace \<Rightarrow> RunPlan option \<Rightarrow> trace \<times> RunPlan option \<times> cerr list" where
  "RollbackPlan c env tr po =
     (case po of
        None \<Rightarrow> (tr, None, [PlanRequired])
      | Some p \<Rightarrow>
          if \<not> co_overlay c then (tr, Some p, [PlanRequired])
          else (let (p1, e1) = (if plan_state p = Running \<or> plan_state p = Mounted then move env p Failed else (p, [])) in
            if e1 \<noteq> [] then (tr, Some p1, e1)
            else if plan_state p1 = Preparing then (let (p2, e2) = move env p1 RolledBack in (tr, Some p2, e2))
            else if plan_state p1 = RolledBack then (tr, Some p1, [])
            else if plan_state p1 \<notin> {Failed, Succeeded, Paused} then (tr, Some p1, [WrongState (plan_state p1)])
            else (let (tr2, e2) = (if co_scope c
                        then (let (t1, d1) = act env tr Terminates; (t2, d2) = act env t1 ClosesScope in (t2, d1 @ d2))
                        else (tr, []));
                      (tr3, p3, e3) = undo env tr2 p1 {Failed, Succeeded, Paused}
                  in (tr3, Some p3, e2 @ e3))))"

text \<open>The part of \<open>Start\<close> after the agent process exists, in three stages.\<close>

definition start_gate :: "coord_env \<Rightarrow> trace \<Rightarrow> Handle \<Rightarrow> trace \<times> Handle \<times> cerr list" where
  "start_gate env tr h =
     (if ce_gate env then
        (let (tr', e) = act env tr Releases in
         if e \<noteq> [] then failAndRollback env tr' h (hd e) else (tr', h, []))
      else (tr, h, []))"

definition start_sensor :: "Coordinator \<Rightarrow> coord_env \<Rightarrow> string \<Rightarrow> trace \<Rightarrow> Handle \<Rightarrow> trace \<times> Handle \<times> cerr list" where
  "start_sensor c env obj tr h =
     (if blank obj then start_gate env tr h
      else if \<not> co_sensor c then failAndRollback env tr h SensorRequired
      else if ce_pid env = 0 then failAndRollback env tr h PidZero
      else (let (tr', e) = act env tr Attaches in
            if e \<noteq> [] then failAndRollback env tr' h (hd e)
            else start_gate env tr' (h\<lparr>h_sensor := True\<rparr>)))"

definition start_network :: "Coordinator \<Rightarrow> coord_env \<Rightarrow> string \<Rightarrow> trace \<Rightarrow> Handle \<Rightarrow> trace \<times> Handle \<times> cerr list" where
  "start_network c env obj tr h =
     (if co_network c then
        (let (tr', e) = act env tr Prepares in
         if e \<noteq> [] then failAndRollback env tr' h (hd e)
         else if co_refresher c
         then start_sensor c env obj (tr' @ [StartsRefresh]) (h\<lparr>h_network := True, h_refresh := True\<rparr>)
         else start_sensor c env obj tr' (h\<lparr>h_network := True\<rparr>))
      else start_sensor c env obj tr h)"

definition start_scope :: "Coordinator \<Rightarrow> coord_env \<Rightarrow> string \<Rightarrow> trace \<Rightarrow> Handle \<Rightarrow> trace \<times> Handle \<times> cerr list" where
  "start_scope c env obj tr h =
     (if h_scope h then
        (let (tr', e) = act env tr AddsPID in
         if e \<noteq> [] then failAndRollback env tr' h (hd e) else start_network c env obj tr' h)
      else start_network c env obj tr h)"

definition start_agent :: "Coordinator \<Rightarrow> coord_env \<Rightarrow> string \<Rightarrow> trace \<Rightarrow> Handle \<Rightarrow> trace \<times> Handle \<times> cerr list" where
  "start_agent c env obj tr h =
     (let (p1, e1) = move env (h_plan h) Mounted; h1 = h\<lparr>h_plan := p1\<rparr> in
      if e1 \<noteq> [] then failAndRollback env tr h1 (hd e1)
      else (let (p2, e2) = move env p1 Running; h2 = h1\<lparr>h_plan := p2\<rparr> in
        if e2 \<noteq> [] then failAndRollback env tr h2 (hd e2)
        else (let (tr3, e3) = act env tr Starts in
          if e3 \<noteq> [] then failAndRollback env tr3 h2 (hd e3)
          else start_scope c env obj tr3 (h2\<lparr>h_process := True\<rparr>))))"

definition Start ::
  "Coordinator \<Rightarrow> coord_env \<Rightarrow> trace \<Rightarrow> RunPlan option \<Rightarrow> string list \<Rightarrow> string \<Rightarrow>
     trace \<times> RunPlan option \<times> Handle option \<times> cerr list" where
  "Start c env tr po command obj =
     (case po of
        None \<Rightarrow> (tr, None, None, [PlanRequired])
      | Some p \<Rightarrow>
          if \<not> co_overlay c \<or> \<not> co_starter c then (tr, Some p, None, [OverlayRequired])
          else if command = [] \<or> blank (hd command) then (tr, Some p, None, [CommandEmpty])
          else if plan_state p \<noteq> Preparing then (tr, Some p, None, [WrongState (plan_state p)])
          else (let (tr1, e1) = act env tr Mounts in
            if e1 \<noteq> [] then (tr1, Some p, None, e1)
            else (let (tr2, h, e) = start_agent c env obj tr1
                        \<lparr>h_overlay = True, h_plan = p, h_process = False, h_sensor = False, h_scope = co_scope c,
                         h_network = False, h_refresh = False, h_waited = False\<rparr>
                  in (tr2, Some (h_plan h), Some h, e))))"

subsection \<open>Moving the run\<close>

definition live_plan :: "RunPlan \<Rightarrow> bool" where
  "live_plan p = (run_id (rp_run p) \<noteq> [])"

lemma move_ok:
  "live_plan p \<Longrightarrow> canTransition (plan_state p) s \<Longrightarrow>
     move env p s = (p\<lparr>rp_run := (rp_run p)\<lparr>run_state := s, updated_at := ce_now env\<rparr>\<rparr>, [])"
  using Transition_ok [of "rp_run p" s "ce_now env"]
  by (simp add: move_def live_plan_def plan_state_def del: Transition_Inr)

lemma moved_state [simp]:
  "plan_state (p\<lparr>rp_run := (rp_run p)\<lparr>run_state := s, updated_at := t\<rparr>\<rparr>) = s"
  "live_plan (p\<lparr>rp_run := (rp_run p)\<lparr>run_state := s, updated_at := t\<rparr>\<rparr>) = live_plan p"
  by (simp_all add: plan_state_def live_plan_def)

subsection \<open>Failing\<close>

text \<open>
  What a failed start does in the end, from a handle and the actions that succeeded since: it kills
  the agent, closes the sensor, stops the refresh loop, ends the scope, each if there is one, and
  rolls the overlay back.
\<close>

definition unwind :: "Handle \<Rightarrow> act set \<Rightarrow> trace" where
  "unwind h ok =
     (if h_process h \<or> Starts \<in> ok then [Kills] else []) @
     (if h_sensor h \<or> Attaches \<in> ok then [ClosesSensor] else []) @
     (if h_refresh h \<or> StartsRefresh \<in> ok then [StopsRefresh] else []) @
     (if h_scope h then [Terminates, ClosesScope] else []) @ [RollsBack]"

lemma fail_undo:
  assumes "live_plan p" and "plan_state p = Running"
    and "fail_running env p = (p5, e5)" and "undo env tr p5 S = (tr6, p6, e6)" and "Failed \<in> S"
  shows "tr6 = tr @ [RollsBack] \<and> e5 = [] \<and>
     plan_state p6 = (if ce_fails env tr RollsBack then Failed else RolledBack) \<and>
     (ce_fails env tr RollsBack \<longleftrightarrow> e6 \<noteq> [])"
  using assms by (auto simp: fail_running_def undo_def act_def move_ok split: if_splits)

lemma failAndRollback_closed:
  assumes "live_plan (h_plan h)" and "plan_state (h_plan h) = Running" and "\<not> h_waited h"
    and "failAndRollback env tr h cause = (tr', h', errs)"
  shows "tr' = tr @ unwind h {} \<and> errs \<noteq> [] \<and>
     plan_state (h_plan h') = (if ce_fails env (butlast tr') RollsBack then Failed else RolledBack)"
proof -
  obtain tr1 h1 e1 where k: "kill_agent env tr h = (tr1, h1, e1)" by (cases "kill_agent env tr h")
  obtain tr2 h2 e2 where s: "closeSensor env tr1 h1 = (tr2, h2, e2)" by (cases "closeSensor env tr1 h1")
  obtain tr3 h3 where n: "stopNetworkRefresh tr2 h2 = (tr3, h3)" by (cases "stopNetworkRefresh tr2 h2")
  obtain tr4 e4 where d: "end_scope env tr3 h3 = (tr4, e4)" by (cases "end_scope env tr3 h3")
  obtain p5 e5 where f: "fail_running env (h_plan h3) = (p5, e5)" by (cases "fail_running env (h_plan h3)")
  obtain tr6 p6 e6 where u: "undo env tr4 p5 {Failed} = (tr6, p6, e6)" by (cases "undo env tr4 p5 {Failed}")
  have r: "tr' = tr6" "h_plan h' = p6" "errs \<noteq> []"
    using assms(4) by (auto simp: failAndRollback_def k s n d f u)
  have "tr1 = tr @ (if h_process h then [Kills] else []) \<and> h1 = h\<lparr>h_waited := h_process h\<rparr>"
    using k assms(3) by (auto simp: kill_agent_def act_def split: if_splits)
  moreover have "tr2 = tr1 @ (if h_sensor h1 then [ClosesSensor] else []) \<and> h2 = h1\<lparr>h_sensor := False\<rparr>"
    using s by (auto simp: closeSensor_def act_def split: if_splits)
  moreover have "tr3 = tr2 @ (if h_refresh h2 then [StopsRefresh] else []) \<and> h3 = h2\<lparr>h_refresh := False\<rparr>"
    using n by (auto simp: stopNetworkRefresh_def split: if_splits)
  moreover have "tr4 = tr3 @ (if h_scope h3 then [Terminates, ClosesScope] else [])"
    using d by (auto simp: end_scope_def act_def split: if_splits)
  ultimately have t4: "tr4 @ [RollsBack] = tr @ unwind h {}" and pl: "h_plan h3 = h_plan h" by (simp_all add: unwind_def)
  have "tr6 = tr4 @ [RollsBack] \<and> plan_state p6 = (if ce_fails env tr4 RollsBack then Failed else RolledBack)"
    using fail_undo [OF _ _ f u] assms(1,2) pl by simp
  moreover from this have "butlast tr' = tr4" using r(1) by simp
  ultimately show ?thesis using r t4 by simp
qed

subsection \<open>Starting\<close>

definition start_sequence :: "Coordinator \<Rightarrow> coord_env \<Rightarrow> string \<Rightarrow> trace" where
  "start_sequence c env obj =
     [Mounts, Starts] @ (if co_scope c then [AddsPID] else []) @
     (if co_network c then Prepares # (if co_refresher c then [StartsRefresh] else []) else []) @
     (if blank obj then [] else [Attaches]) @ (if ce_gate env then [Releases] else [])"

text \<open>Every action of a sequence succeeded; starting the refresh loop cannot fail.\<close>

fun went_well :: "coord_env \<Rightarrow> trace \<Rightarrow> trace \<Rightarrow> bool" where
  "went_well env tr [] = True"
| "went_well env tr (a # as) = ((a = StartsRefresh \<or> \<not> ce_fails env tr a) \<and> went_well env (tr @ [a]) as)"

text \<open>The actions of a sequence that succeeded, when all but the last are known to have.\<close>

definition succeeded :: "coord_env \<Rightarrow> trace \<Rightarrow> trace \<Rightarrow> trace" where
  "succeeded env tr pre =
     (if pre \<noteq> [] \<and> last pre \<noteq> StartsRefresh \<and> ce_fails env (tr @ butlast pre) (last pre) then butlast pre else pre)"

lemma succeeded_step:
  "a = StartsRefresh \<or> \<not> ce_fails env tr a \<Longrightarrow> succeeded env tr (a # pre) = a # succeeded env (tr @ [a]) pre"
  by (cases pre) (auto simp: succeeded_def)

text \<open>
  What a stage of \<open>Start\<close> achieves from a running plan: all of its actions, or a prefix of them and
  then all that undoes what the handle has and what these actions achieved.
\<close>

definition closed_failure :: "coord_env \<Rightarrow> Handle \<Rightarrow> trace \<Rightarrow> trace \<Rightarrow> trace \<Rightarrow> RunPlan \<Rightarrow> bool" where
  "closed_failure env h seq tr tr' p = (\<exists>pre. prefix pre seq \<and> tr' = tr @ pre @ unwind h (set (succeeded env tr pre)) \<and>
     went_well env tr (butlast pre) \<and>
     plan_state p = (if ce_fails env (butlast tr') RollsBack then Failed else RolledBack))"

definition started :: "coord_env \<Rightarrow> Handle \<Rightarrow> trace \<Rightarrow> trace \<Rightarrow> trace \<times> Handle \<times> cerr list \<Rightarrow> bool" where
  "started env h seq tr r = (case r of (tr', h', errs) \<Rightarrow>
     if errs = [] then tr' = tr @ seq \<and> went_well env tr seq \<and> plan_state (h_plan h') = Running
     else closed_failure env h seq tr tr' (h_plan h'))"

text \<open>The handle after an action that succeeded.\<close>

definition gains :: "Handle \<Rightarrow> act \<Rightarrow> Handle \<Rightarrow> bool" where
  "gains h a h2 \<longleftrightarrow> h_process h2 = (h_process h \<or> a = Starts) \<and> h_sensor h2 = (h_sensor h \<or> a = Attaches) \<and>
     h_refresh h2 = (h_refresh h \<or> a = StartsRefresh) \<and> h_scope h2 = h_scope h"

lemma unwind_gains: "gains h a h2 \<Longrightarrow> unwind h2 ok = unwind h (insert a ok)"
  by (auto simp: gains_def unwind_def)

lemma closed_failureE:
  assumes "closed_failure env h seq tr tr' p"
  obtains pre where "prefix pre seq" and "tr' = tr @ pre @ unwind h (set (succeeded env tr pre))"
    and "went_well env tr (butlast pre)"
    and "plan_state p = (if ce_fails env (butlast tr') RollsBack then Failed else RolledBack)"
  using assms unfolding closed_failure_def by (elim exE conjE)

lemma started_step:
  assumes "started env h2 seq (tr @ [a]) r" and "gains h a h2" and "a = StartsRefresh \<or> \<not> ce_fails env tr a"
  shows "started env h (a # seq) tr r"
proof -
  have "closed_failure env h (a # seq) tr tr' p" if cf: "closed_failure env h2 seq (tr @ [a]) tr' p" for tr' p
  proof -
    obtain pre where p: "prefix pre seq" "tr' = (tr @ [a]) @ pre @ unwind h2 (set (succeeded env (tr @ [a]) pre))"
        "went_well env (tr @ [a]) (butlast pre)"
        "plan_state p = (if ce_fails env (butlast tr') RollsBack then Failed else RolledBack)"
      by (rule closed_failureE [OF cf])
    have "set (succeeded env tr (a # pre)) = insert a (set (succeeded env (tr @ [a]) pre))"
      by (simp only: succeeded_step [OF assms(3)] list.set)
    then have "unwind h2 (set (succeeded env (tr @ [a]) pre)) = unwind h (set (succeeded env tr (a # pre)))"
      using unwind_gains [OF assms(2)] by metis
    then have "tr' = tr @ (a # pre) @ unwind h (set (succeeded env tr (a # pre)))"
      by (simp only: p(2) append_assoc append_Cons append_Nil)
    moreover have "went_well env tr (butlast (a # pre))" using p(3) assms(3) by simp
    moreover have "prefix (a # pre) (a # seq)" using p(1) by simp
    ultimately show ?thesis unfolding closed_failure_def using p(4) by blast
  qed
  then show ?thesis using assms(1,3) by (cases r) (auto simp: started_def split: if_splits)
qed

definition ready :: "Handle \<Rightarrow> bool" where
  "ready h = (live_plan (h_plan h) \<and> plan_state (h_plan h) = Running \<and> \<not> h_waited h)"

lemma started_fail:
  assumes "ready h" and "prefix pre seq" and "pre = [] \<or> (\<exists>a. pre = [a] \<and> a \<noteq> StartsRefresh \<and> ce_fails env tr a)"
  shows "started env h seq tr (failAndRollback env (tr @ pre) h cause)"
proof -
  obtain tr' h' errs where r: "failAndRollback env (tr @ pre) h cause = (tr', h', errs)"
    by (cases "failAndRollback env (tr @ pre) h cause")
  from failAndRollback_closed [OF _ _ _ r] assms(1) have
    cl: "tr' = (tr @ pre) @ unwind h {}" "errs \<noteq> []"
      "plan_state (h_plan h') = (if ce_fails env (butlast tr') RollsBack then Failed else RolledBack)"
    by (auto simp: ready_def)
  have "succeeded env tr pre = []" "went_well env tr (butlast pre)" using assms(3) by (auto simp: succeeded_def)
  then have "closed_failure env h seq tr tr' (h_plan h')"
    unfolding closed_failure_def using cl assms(2) by (intro exI [of _ pre]) simp
  then show ?thesis using cl(2) by (simp add: started_def r)
qed

lemma started_prefix_fail:
  assumes "ready h"
  shows "started env h seq tr (failAndRollback env tr h cause)"
    and "a \<noteq> StartsRefresh \<Longrightarrow> ce_fails env tr a \<Longrightarrow> started env h (a # seq) tr (failAndRollback env (tr @ [a]) h cause)"
  using started_fail [OF assms, of "[]" seq env tr] started_fail [OF assms, of "[a]" "a # seq" env tr] by simp_all

lemma start_gate_started:
  assumes "ready h"
  shows "started env h (if ce_gate env then [Releases] else []) tr (start_gate env tr h)"
proof (cases "ce_gate env \<and> ce_fails env tr Releases")
  case True
  then show ?thesis using started_prefix_fail(2) [OF assms] by (simp add: start_gate_def act_def)
next
  case False
  then show ?thesis using assms(1) by (auto simp: start_gate_def act_def started_def ready_def)
qed

lemma start_sensor_started:
  assumes "ready h"
  shows "started env h ((if blank obj then [] else [Attaches]) @ (if ce_gate env then [Releases] else [])) tr
     (start_sensor c env obj tr h)"
proof -
  have "ready (h\<lparr>h_sensor := True\<rparr>)" using assms(1) by (simp add: ready_def)
  then have g: "started env (h\<lparr>h_sensor := True\<rparr>) (if ce_gate env then [Releases] else []) (tr @ [Attaches])
      (start_gate env (tr @ [Attaches]) (h\<lparr>h_sensor := True\<rparr>))"
    by (rule start_gate_started)
  have gn: "gains h Attaches (h\<lparr>h_sensor := True\<rparr>)" by (simp add: gains_def)
  note f = started_prefix_fail [OF assms]
  show ?thesis
    using start_gate_started [OF assms, of env tr] f started_step [OF g gn]
    by (cases "blank obj"; cases "co_sensor c"; cases "ce_pid env = 0"; cases "ce_fails env tr Attaches")
      (simp_all add: start_sensor_def act_def)
qed

lemma start_network_started:
  assumes "ready h"
    and rest_def: "rest = (if blank obj then [] else [Attaches]) @ (if ce_gate env then [Releases] else [])"
  shows "started env h ((if co_network c then Prepares # (if co_refresher c then [StartsRefresh] else []) else []) @ rest) tr
     (start_network c env obj tr h)"
proof -
  let ?n = "h\<lparr>h_network := True\<rparr>" and ?r = "h\<lparr>h_network := True, h_refresh := True\<rparr>"
  have "ready ?r" "ready ?n" using assms(1) by (simp_all add: ready_def)
  then have s: "started env ?r rest tr2 (start_sensor c env obj tr2 ?r)"
    "started env ?n rest tr2 (start_sensor c env obj tr2 ?n)" for tr2
    unfolding rest_def by (intro start_sensor_started; simp)+
  have gn: "gains ?n StartsRefresh ?r" "gains h Prepares ?n" by (simp_all add: gains_def)
  have r: "started env ?n (StartsRefresh # rest) (tr @ [Prepares])
      (start_sensor c env obj ((tr @ [Prepares]) @ [StartsRefresh]) ?r)"
    by (rule started_step [OF s(1) gn(1)]) simp
  have n: "started env h rest tr (start_sensor c env obj tr h)"
    unfolding rest_def by (rule start_sensor_started [OF assms(1)])
  show ?thesis
  proof (cases "co_network c")
    case True
    show ?thesis
    proof (cases "ce_fails env tr Prepares")
      case True
      then show ?thesis using started_prefix_fail(2) [OF assms(1)] \<open>co_network c\<close> by (simp add: start_network_def act_def)
    next
      case False
      then show ?thesis
        using \<open>co_network c\<close> started_step [OF r gn(2)] started_step [OF s(2) gn(2)]
        by (simp add: start_network_def act_def)
    qed
  next
    case False
    then show ?thesis using n by (simp add: start_network_def)
  qed
qed

lemma start_scope_started:
  assumes "ready h" and "h_scope h = co_scope c"
  shows "started env h (drop 2 (start_sequence c env obj)) tr (start_scope c env obj tr h)"
proof (cases "co_scope c \<and> ce_fails env tr AddsPID")
  case True
  then show ?thesis
    using started_prefix_fail(2) [OF assms(1)] assms(2) by (simp add: start_scope_def act_def start_sequence_def)
next
  case False
  have "gains h AddsPID h" by (simp add: gains_def)
  then show ?thesis
    using False started_step [OF start_network_started [OF assms(1) refl], where h = h and a = AddsPID and tr = tr]
      start_network_started [OF assms(1) refl] assms(2)
    by (auto simp: start_scope_def act_def start_sequence_def)
qed

lemma start_agent_started:
  assumes "live_plan (h_plan h)" and "plan_state (h_plan h) = Preparing" and "\<not> h_process h"
    and "h_scope h = co_scope c" and "\<not> h_waited h"
  shows "started env h (tl (start_sequence c env obj)) tr (start_agent c env obj tr h)"
proof -
  let ?p1 = "(h_plan h)\<lparr>rp_run := (rp_run (h_plan h))\<lparr>run_state := Mounted, updated_at := ce_now env\<rparr>\<rparr>"
  let ?p2 = "?p1\<lparr>rp_run := (rp_run ?p1)\<lparr>run_state := Running, updated_at := ce_now env\<rparr>\<rparr>"
  let ?h = "h\<lparr>h_plan := ?p2\<rparr>"
  have m1: "move env (h_plan h) Mounted = (?p1, [])" using assms(1,2) by (intro move_ok) simp_all
  have m2: "move env ?p1 Running = (?p2, [])" using assms(1) by (intro move_ok) (simp_all only: moved_state, simp)
  have st: "start_agent c env obj tr h = (if ce_fails env tr Starts then failAndRollback env (tr @ [Starts]) ?h (Failing Starts)
      else start_scope c env obj (tr @ [Starts]) (?h\<lparr>h_process := True\<rparr>))"
    unfolding start_agent_def Let_def m1 by (simp add: m2 act_def)
  have rd: "ready ?h" using assms by (simp add: ready_def live_plan_def plan_state_def)
  have same: "started env ?h seq tr r = started env h seq tr r" for seq r
    by (cases r) (simp add: started_def closed_failure_def unwind_def)
  show ?thesis
  proof (cases "ce_fails env tr Starts")
    case True
    have "started env ?h (Starts # drop 2 (start_sequence c env obj)) tr (start_agent c env obj tr h)"
      unfolding st using started_prefix_fail(2) [OF rd] True by simp
    then show ?thesis unfolding same by (simp add: start_sequence_def)
  next
    case False
    have "ready (?h\<lparr>h_process := True\<rparr>)" using rd by (simp add: ready_def)
    then have "started env (?h\<lparr>h_process := True\<rparr>) (drop 2 (start_sequence c env obj)) (tr @ [Starts])
        (start_scope c env obj (tr @ [Starts]) (?h\<lparr>h_process := True\<rparr>))"
      by (rule start_scope_started) (simp_all add: assms(4))
    moreover have "gains h Starts (?h\<lparr>h_process := True\<rparr>)" by (simp add: gains_def)
    ultimately have "started env h (Starts # drop 2 (start_sequence c env obj)) tr
        (start_scope c env obj (tr @ [Starts]) (?h\<lparr>h_process := True\<rparr>))"
      by (rule started_step) (simp add: False)
    then show ?thesis unfolding st using False by (simp add: start_sequence_def)
  qed
qed

text \<open>A fresh handle has the scope of its coordinator and nothing else yet.\<close>

definition fresh_handle :: "Coordinator \<Rightarrow> RunPlan \<Rightarrow> Handle" where
  "fresh_handle c p = \<lparr>h_overlay = True, h_plan = p, h_process = False, h_sensor = False, h_scope = co_scope c,
    h_network = False, h_refresh = False, h_waited = False\<rparr>"

lemma unwind_fresh: "unwind (fresh_handle c p) ok =
     (if Starts \<in> ok then [Kills] else []) @ (if Attaches \<in> ok then [ClosesSensor] else []) @
     (if StartsRefresh \<in> ok then [StopsRefresh] else []) @ (if co_scope c then [Terminates, ClosesScope] else []) @ [RollsBack]"
  by (simp add: unwind_def fresh_handle_def)

lemma Start_started:
  assumes "live_plan p" and "Start c env tr (Some p) command obj = (tr', Some p', Some h, errs)"
  shows "started env (fresh_handle c p) (start_sequence c env obj) tr (tr', h, errs) \<and> p' = h_plan h"
proof -
  let ?h = "fresh_handle c p"
  have g: "plan_state p = Preparing" "\<not> ce_fails env tr Mounts"
    using assms(2) by (auto simp: Start_def Let_def act_def split: if_splits prod.splits)
  have "started env ?h (tl (start_sequence c env obj)) (tr @ [Mounts]) (start_agent c env obj (tr @ [Mounts]) ?h)"
    by (rule start_agent_started) (simp_all add: assms(1) g fresh_handle_def)
  then have "started env ?h (Mounts # tl (start_sequence c env obj)) tr (start_agent c env obj (tr @ [Mounts]) ?h)"
    by (rule started_step) (simp_all add: g gains_def)
  moreover have "start_agent c env obj (tr @ [Mounts]) ?h = (tr', h, errs) \<and> p' = h_plan h"
    using assms(2) g by (auto simp: Start_def Let_def act_def fresh_handle_def split: if_splits prod.splits)
  ultimately show ?thesis by (simp add: start_sequence_def)
qed

subsection \<open>Properties\<close>


definition demo_coordinator :: Coordinator where
  "demo_coordinator = \<lparr>co_overlay = True, co_starter = True, co_sensor = True, co_scope = True,
     co_network = True, co_refresher = True\<rparr>"

definition demo_coord_env :: "act set \<Rightarrow> coord_env" where
  "demo_coord_env bad = \<lparr>ce_fails = (\<lambda>_ a. a \<in> bad), ce_pid = 42, ce_gate = True, ce_now = 9\<rparr>"

definition demo_ready_plan :: RunPlan where
  "demo_ready_plan = demo_plan ''x'' False"

lemma demo_live: "live_plan demo_ready_plan"
  by (simp add: live_plan_def demo_ready_plan_def demo_plan_def)

definition demo_start :: "act set \<Rightarrow> trace \<times> RunPlan option \<times> Handle option \<times> cerr list" where
  "demo_start bad = Start demo_coordinator (demo_coord_env bad) [] (Some demo_ready_plan) [''agent''] ''sensor.o''"

lemma demo_not_blank: "blank ''agent'' = False" "blank ''sensor.o'' = False"
  by code_simp+

lemmas start_eval = demo_start_def Start_def start_agent_def start_scope_def start_network_def start_sensor_def
  start_gate_def act_def demo_coordinator_def demo_coord_env_def demo_not_blank move_def plan_state_def
  Transition_def demo_ready_plan_def demo_plan_def failAndRollback_def kill_agent_def closeSensor_def
  stopNetworkRefresh_def end_scope_def fail_running_def undo_def

lemma demo_start_ok: "\<exists>p h. demo_start {} = ([Mounts, Starts, AddsPID, Prepares, StartsRefresh, Attaches, Releases],
    Some p, Some h, [])"
  by (simp add: start_eval)

lemma demo_start_failed: "\<exists>p h. demo_start {Attaches} = ([Mounts, Starts, AddsPID, Prepares, StartsRefresh, Attaches,
    Kills, StopsRefresh, Terminates, ClosesScope, RollsBack], Some p, Some h, [Failing Attaches])"
  by (simp add: start_eval)


text \<open>
  A failed start never cleans the network boundary up, not even when preparing it had
  succeeded: the handle's cleanup runs in \<open>Rollback\<close> and \<open>wait\<close> only.
\<close>

theorem failed_start_leaks_network:
  assumes "live_plan p" and "Start c env [] (Some p) command obj = (tr', Some p', Some h, errs)" and "errs \<noteq> []"
  shows "CleansNetwork \<notin> set tr'"
proof -
  obtain pre where "prefix pre (start_sequence c env obj)" "tr' = pre @ unwind (fresh_handle c p) (set (succeeded env [] pre))"
    using Start_started [OF assms(1,2)] assms(3) unfolding started_def closed_failure_def by auto
  moreover have "CleansNetwork \<notin> set (start_sequence c env obj)" by (simp add: start_sequence_def)
  moreover have "CleansNetwork \<notin> set (unwind (fresh_handle c p) ok)" for ok by (simp add: unwind_def)
  ultimately show ?thesis using set_mono_prefix by fastforce
qed

theorem failed_start_leaks_network_witness:
  "\<exists>tr p h. demo_start {Attaches} = (tr, Some p, Some h, [Failing Attaches]) \<and> Prepares \<in> set tr \<and>
     \<not> ce_fails (demo_coord_env {Attaches}) [Mounts, Starts, AddsPID] Prepares \<and> CleansNetwork \<notin> set tr"
proof -
  obtain tr p h where s: "demo_start {Attaches} = (tr, Some p, Some h, [Failing Attaches])" "Prepares \<in> set tr"
    using demo_start_failed by auto
  from failed_start_leaks_network [OF demo_live s(1) [unfolded demo_start_def]] s
  show ?thesis by (simp add: demo_coord_env_def)
qed

definition rollback_sequence :: "Handle \<Rightarrow> trace" where
  "rollback_sequence h =
     (if h_process h \<and> \<not> h_waited h then [Kills] else []) @
     (if h_network h then (if h_refresh h then [StopsRefresh] else []) @ [CleansNetwork] else []) @
     (if h_sensor h then [ClosesSensor] else []) @ (if h_scope h then [Terminates, ClosesScope] else []) @ [RollsBack]"

lemma rollback_steps:
  "kill_agent env tr h = (tr', h', e) \<Longrightarrow> tr' = tr @ (if h_process h \<and> \<not> h_waited h then [Kills] else []) \<and>
     h' = h\<lparr>h_waited := h_waited h \<or> h_process h\<rparr>"
  "clean_network env tr h = (tr', h', e) \<Longrightarrow>
     tr' = tr @ (if h_network h then (if h_refresh h then [StopsRefresh] else []) @ [CleansNetwork] else []) \<and>
     h' = h\<lparr>h_network := False, h_refresh := h_refresh h \<and> \<not> h_network h\<rparr>"
  "closeSensor env tr h = (tr', h', e) \<Longrightarrow> tr' = tr @ (if h_sensor h then [ClosesSensor] else []) \<and>
     h' = h\<lparr>h_sensor := False\<rparr>"
  "end_scope env tr h = (tr', e) \<Longrightarrow> tr' = tr @ (if h_scope h then [Terminates, ClosesScope] else [])"
  by (auto simp: kill_agent_def clean_network_def stopNetworkRefresh_def closeSensor_def end_scope_def act_def
      split: if_splits)

lemma undo_outcome:
  assumes "live_plan p" and "S \<subseteq> {Failed, Succeeded, Paused}" and "undo env tr p S = (tr', p', e)"
  shows "tr' = tr @ [RollsBack] \<and> (e = [] \<longleftrightarrow> \<not> ce_fails env tr RollsBack) \<and>
     plan_state p' = (if ce_fails env tr RollsBack then plan_state p
                      else if plan_state p \<in> S then RolledBack else plan_state p)"
proof -
  have "canTransition (plan_state p) RolledBack" if "plan_state p \<in> S"
    using that assms(2) by auto
  then show ?thesis
    using assms(1,3) by (auto simp: undo_def act_def move_ok split: if_splits)
qed

lemma fail_running_outcome:
  "live_plan p \<Longrightarrow> fail_running env p = (p', e) \<Longrightarrow>
     live_plan p' \<and> e = [] \<and> plan_state p' = (if plan_state p = Running then Failed else plan_state p)"
  by (auto simp: fail_running_def move_ok split: if_splits)

text \<open>
  Rolling a handle back takes every step, whatever fails: it kills an agent that was not
  waited for before anything else, cleans the network boundary, closes the sensor, ends the
  process scope, and rolls the overlay back last; the run is then rolled back exactly if the
  overlay's rollback succeeded and the run was running, failed, succeeded or paused.
\<close>

theorem handle_rollback_complete:
  assumes "h_overlay h" and "live_plan (h_plan h)" and "Handle_Rollback env tr (Some h) = (tr', Some h', errs)"
    and "plan_state (h_plan h) \<noteq> RolledBack"
  shows "tr' = tr @ rollback_sequence h \<and>
     (plan_state (h_plan h') = RolledBack \<longleftrightarrow>
        \<not> ce_fails env (butlast tr') RollsBack \<and> plan_state (h_plan h) \<in> {Running, Failed, Succeeded, Paused})"
proof -
  obtain tr1 h1 e1 where k: "kill_agent env tr h = (tr1, h1, e1)" by (cases "kill_agent env tr h")
  obtain tr2 h2 e2 where n: "clean_network env tr1 h1 = (tr2, h2, e2)" by (cases "clean_network env tr1 h1")
  obtain tr3 h3 e3 where s: "closeSensor env tr2 h2 = (tr3, h3, e3)" by (cases "closeSensor env tr2 h2")
  obtain tr4 e4 where d: "end_scope env tr3 h3 = (tr4, e4)" by (cases "end_scope env tr3 h3")
  obtain p5 e5 where f: "fail_running env (h_plan h3) = (p5, e5)" by (cases "fail_running env (h_plan h3)")
  obtain tr6 p6 e6 where u: "undo env tr4 p5 {Failed, Succeeded, Paused} = (tr6, p6, e6)"
    by (cases "undo env tr4 p5 {Failed, Succeeded, Paused}")
  have r: "tr' = tr6" "h_plan h' = p6"
    using assms(1,3) by (auto simp: Handle_Rollback_def k n s d f u)
  note st = rollback_steps(1) [OF k] rollback_steps(2) [OF n] rollback_steps(3) [OF s] rollback_steps(4) [OF d]
  have p3: "h_plan h3 = h_plan h" using st by simp
  have fo: "live_plan p5 \<and> e5 = [] \<and> plan_state p5 = (if plan_state (h_plan h) = Running then Failed else plan_state (h_plan h))"
    using fail_running_outcome [OF _ f] assms(2) p3 by simp
  then have uo: "tr6 = tr4 @ [RollsBack] \<and> plan_state p6 = (if ce_fails env tr4 RollsBack then plan_state p5
      else if plan_state p5 \<in> {Failed, Succeeded, Paused} then RolledBack else plan_state p5)"
    using undo_outcome [OF _ _ u] by simp
  then have "butlast tr' = tr4" using r by simp
  moreover have "tr' = tr @ rollback_sequence h" using r uo st by (simp add: rollback_sequence_def)
  ultimately show ?thesis using r uo fo assms(4) by auto
qed

definition demo_handle :: Handle where
  "demo_handle = \<lparr>h_overlay = True, h_plan = demo_ready_plan\<lparr>rp_run := (rp_run demo_ready_plan)\<lparr>run_state := Running\<rparr>\<rparr>,
     h_process = True, h_sensor = True, h_scope = True, h_network = True, h_refresh = True, h_waited = False\<rparr>"

theorem handle_rollback_complete_witness:
  "\<exists>h' errs. Handle_Rollback (demo_coord_env {Kills}) [] (Some demo_handle) =
     ([Kills, StopsRefresh, CleansNetwork, ClosesSensor, Terminates, ClosesScope, RollsBack], Some h', errs) \<and>
     plan_state (h_plan h') = RolledBack"
proof -
  obtain tr' h' errs where r: "Handle_Rollback (demo_coord_env {Kills}) [] (Some demo_handle) = (tr', Some h', errs)"
    by (simp add: Handle_Rollback_def demo_handle_def Let_def case_prod_beta) 
  have d: "h_overlay demo_handle" "live_plan (h_plan demo_handle)" "plan_state (h_plan demo_handle) = Running"
    using demo_live by (simp_all add: demo_handle_def live_plan_def plan_state_def)
  from handle_rollback_complete [OF d(1,2) r] d(3) r show ?thesis
    by (simp add: rollback_sequence_def demo_handle_def demo_coord_env_def)
qed

text \<open>
  What a recovery may do: rolling back a persisted run touches the overlay only when the run
  was mounted, running, failed, succeeded or paused; a committed run is refused unchanged; and the
  run ends rolled back exactly if it never had been mounted, had been rolled back already, or its
  overlay was rolled back successfully.
\<close>

theorem recovery_respects_state:
  assumes "co_overlay c" and "live_plan p" and "RollbackPlan c env tr (Some p) = (tr', Some p', errs)"
  shows "(tr' \<noteq> tr \<longrightarrow> plan_state p \<in> {Mounted, Running, Failed, Succeeded, Paused} \<and> last tr' = RollsBack) \<and>
     (plan_state p = Committed \<longrightarrow> p' = p \<and> tr' = tr \<and> errs \<noteq> []) \<and>
     (plan_state p' = RolledBack \<longleftrightarrow>
        plan_state p \<in> {Preparing, RolledBack} \<or> (tr' \<noteq> tr \<and> \<not> ce_fails env (butlast tr') RollsBack))"
proof -
  define q where "q = (if plan_state p = Running \<or> plan_state p = Mounted
      then p\<lparr>rp_run := (rp_run p)\<lparr>run_state := Failed, updated_at := ce_now env\<rparr>\<rparr> else p)"
  have q: "live_plan q" "plan_state q = (if plan_state p = Running \<or> plan_state p = Mounted then Failed else plan_state p)"
    using assms(2) by (simp_all add: q_def)
  have m: "(if plan_state p = Running \<or> plan_state p = Mounted then move env p Failed else (p, [])) = (q, [])"
    using assms(2) by (auto simp: q_def move_ok)
  define t where "t = tr @ (if co_scope c then [Terminates, ClosesScope] else [])"
  consider "plan_state q = Preparing" | "plan_state q = RolledBack"
    | "plan_state q \<notin> {Preparing, RolledBack, Failed, Succeeded, Paused}" | "plan_state q \<in> {Failed, Succeeded, Paused}" by blast
  then show ?thesis
  proof cases
    case 1
    then have "plan_state p = Preparing" using q(2) by (simp split: if_splits)
    then show ?thesis using assms(1,3) m 1 q(1) by (auto simp: RollbackPlan_def move_ok)
  next
    case 2
    then have "plan_state p = RolledBack" using q(2) by (simp split: if_splits)
    then show ?thesis using assms(1,3) m 2 by (auto simp: RollbackPlan_def)
  next
    case 3
    then have "q = p" by (auto simp: q_def split: if_splits)
    then show ?thesis using assms(1,3) m 3 by (auto simp: RollbackPlan_def)
  next
    case 4
    obtain tr3 p3 e3 where u: "undo env t q {Failed, Succeeded, Paused} = (tr3, p3, e3)"
      by (cases "undo env t q {Failed, Succeeded, Paused}")
    have "tr' = tr3 \<and> p' = p3"
      using assms(1,3) m 4 u by (auto simp: RollbackPlan_def t_def act_def split: if_splits)
    with undo_outcome [OF q(1) _ u] have o: "tr' = t @ [RollsBack]"
      "plan_state p' = (if ce_fails env t RollsBack then plan_state q
         else if plan_state q \<in> {Failed, Succeeded, Paused} then RolledBack else plan_state q)" by simp_all
    have "last tr' = RollsBack" "butlast tr' = t" using o(1) by simp_all
    moreover have "tr' \<noteq> tr" using o(1) by (simp add: t_def)
    moreover note o(2)
    ultimately show ?thesis using 4 q(2) by (auto split: if_splits)
  qed
qed

theorem recovery_respects_state_witness:
  "\<exists>errs. RollbackPlan demo_coordinator (demo_coord_env {}) []
     (Some (demo_ready_plan\<lparr>rp_run := (rp_run demo_ready_plan)\<lparr>run_state := Committed\<rparr>\<rparr>)) =
     ([], Some (demo_ready_plan\<lparr>rp_run := (rp_run demo_ready_plan)\<lparr>run_state := Committed\<rparr>\<rparr>), errs) \<and> errs \<noteq> []"
proof -
  let ?p = "demo_ready_plan\<lparr>rp_run := (rp_run demo_ready_plan)\<lparr>run_state := Committed\<rparr>\<rparr>"
  have s: "co_overlay demo_coordinator" "live_plan ?p" "plan_state ?p = Committed"
    using demo_live by (simp_all add: demo_coordinator_def live_plan_def plan_state_def)
  obtain tr' p' errs where r: "RollbackPlan demo_coordinator (demo_coord_env {}) [] (Some ?p) = (tr', Some p', errs)"
    using s(1,3) by (simp add: RollbackPlan_def)
  from recovery_respects_state [OF s(1,2) r] s(3) r show ?thesis by blast
qed

subsection \<open>Waiting\<close>

lemma wait_outcome:
  assumes "h_process h" and "live_plan (h_plan h)" and "plan_state (h_plan h) = Running"
    and "Handle_wait env tr (Some h) hook = (tr', Some h', errs)"
  shows "plan_state (h_plan h') = Succeeded \<or> plan_state (h_plan h') = Failed"
    and "ce_fails env tr Waits \<Longrightarrow> plan_state (h_plan h') = Failed \<and> errs \<noteq> []"
proof -
  have live: "move env (h_plan g) Failed = ((h_plan g)\<lparr>rp_run := (rp_run (h_plan g))\<lparr>run_state := Failed, updated_at := ce_now env\<rparr>\<rparr>, [])"
    "move env (h_plan g) Succeeded = ((h_plan g)\<lparr>rp_run := (rp_run (h_plan g))\<lparr>run_state := Succeeded, updated_at := ce_now env\<rparr>\<rparr>, [])"
    if "h_plan g = h_plan h" for g
    using that assms(2,3) by (auto intro!: move_ok)
  obtain tr2 h2 eNet where n: "clean_network env (tr @ [Waits]) (h\<lparr>h_waited := True\<rparr>) = (tr2, h2, eNet)"
    by (cases "clean_network env (tr @ [Waits]) (h\<lparr>h_waited := True\<rparr>)")
  obtain tr3 eHook where b: "(if hook then act env tr2 BeforeClose else (tr2, [])) = (tr3, eHook)"
    by (cases "if hook then act env tr2 BeforeClose else (tr2, [])")
  obtain tr4 h4 eClose where s: "closeSensor env tr3 h2 = (tr4, h4, eClose)" by (cases "closeSensor env tr3 h2")
  obtain tr5 h5 eScope where d: "closeScope env tr4 h4 = (tr5, h5, eScope)" by (cases "closeScope env tr4 h4")
  have "h_plan h5 = h_plan h"
    using rollback_steps(2) [OF n] rollback_steps(3) [OF s] d
    by (auto simp: closeScope_def act_def split: if_splits)
  note l = live [OF this]
  show "plan_state (h_plan h') = Succeeded \<or> plan_state (h_plan h') = Failed"
    using assms(1,4) by (auto simp: Handle_wait_def act_def [of _ _ Waits] n b s d l split: if_splits)
  show "ce_fails env tr Waits \<Longrightarrow> plan_state (h_plan h') = Failed \<and> errs \<noteq> []"
    using assms(1,4) by (auto simp: Handle_wait_def act_def [of _ _ Waits] n b s d l split: if_splits)
qed

end
