(* ===== verification/Telemetry.thy ===== *)
theory Telemetry
  imports Go_Glob "HOL-Library.Word"
begin

text \<open>
  \<open>internal/event\<close> and \<open>internal/telemetry\<close>: the event contract with its numeric codes, the
  decoder of the kernel's records, the hash chain, and the bounded, rotating journal writer.
  Operations, decisions and risks are Go string types.  \<open>marshal\<close> is \<open>json.Marshal\<close> on a journal
  event, with the library's string escapes; SHA-256 is an argument.  What the writer does to its
  destinations is the list of its effects; a failing rotation or write is the environment's
  choice, by the number of the effect.
\<close>

subsection \<open>Events\<close>

record Event =
  ev_run :: string
  ev_pid :: "32 word"
  ev_op :: string
  ev_path :: string
  ev_time :: "64 word"
  ev_decision :: string
  ev_risk :: string

definition operations :: "(string \<times> 32 word) list" where
  "operations = [(''execve'', 1), (''openat'', 2), (''read'', 3), (''write'', 4), (''unlinkat'', 5),
     (''renameat2'', 6), (''truncate'', 7), (''network_connect'', 8), (''socket'', 9)]"

definition decisions :: "(string \<times> 32 word) list" where
  "decisions = [(''allow'', 0), (''audit'', 1), (''deny'', 2)]"

definition risks :: "(string \<times> 32 word) list" where
  "risks = [(''low'', 1), (''medium'', 2), (''high'', 3)]"

text \<open>The six conversions are switches over these tables.\<close>

definition code_of :: "(string \<times> 32 word) list \<Rightarrow> string \<Rightarrow> 32 word option" where
  "code_of tab v = map_of tab v"

definition from_code :: "(string \<times> 32 word) list \<Rightarrow> 32 word \<Rightarrow> string option" where
  "from_code tab c = map_of (map (\<lambda>(s, n). (n, s)) tab) c"

definition OperationCode :: "string \<Rightarrow> 32 word option" where "OperationCode v = code_of operations v"
definition OperationFromCode :: "32 word \<Rightarrow> string option" where "OperationFromCode c = from_code operations c"
definition DecisionCode :: "string \<Rightarrow> 32 word option" where "DecisionCode v = code_of decisions v"
definition DecisionFromCode :: "32 word \<Rightarrow> string option" where "DecisionFromCode c = from_code decisions c"
definition RiskCode :: "string \<Rightarrow> 32 word option" where "RiskCode v = code_of risks v"
definition RiskFromCode :: "32 word \<Rightarrow> string option" where "RiskFromCode c = from_code risks c"

datatype event_error =
    RunIdEmpty | PidZero | BadOperation string | TimestampZero | BadDecision string | BadRisk string
  | SampleTooShort nat | UnknownOperation "32 word" | UnknownDecision "32 word" | UnknownRisk "32 word"
  | DestinationRequired | RotateRequired | RotateFailed | WriteFailed

definition validOperation :: "string \<Rightarrow> bool" where
  "validOperation v = (v \<in> fst ` set operations)"

definition validDecision :: "string \<Rightarrow> bool" where
  "validDecision v = (v \<in> fst ` set decisions)"

definition validRisk :: "string \<Rightarrow> bool" where
  "validRisk v = (v \<in> fst ` set risks)"

definition Event_Validate :: "Event \<Rightarrow> event_error + unit" where
  "Event_Validate e =
     (if ev_run e = [] then Inl RunIdEmpty
      else if ev_pid e = 0 then Inl PidZero
      else if \<not> validOperation (ev_op e) then Inl (BadOperation (ev_op e))
      else if ev_time e = 0 then Inl TimestampZero
      else if \<not> validDecision (ev_decision e) then Inl (BadDecision (ev_decision e))
      else if \<not> validRisk (ev_risk e) then Inl (BadRisk (ev_risk e))
      else Inr ())"

subsection \<open>Decoding kernel records\<close>

definition le_value :: "string \<Rightarrow> nat" where
  "le_value bs = foldr (\<lambda>b n. byte_val b + 256 * n) bs 0"

definition slice :: "nat \<Rightarrow> nat \<Rightarrow> string \<Rightarrow> string" where
  "slice a b s = take (b - a) (drop a s)"

definition pathOffset :: nat where "pathOffset = 24"
definition pathLength :: nat where "pathLength = 256"
definition WireEventSize :: nat where "WireEventSize = pathOffset + pathLength"

definition Decode :: "string \<Rightarrow> string \<Rightarrow> event_error + Event" where
  "Decode raw runID =
     (if runID = [] then Inl RunIdEmpty
      else if length raw < WireEventSize then Inl (SampleTooShort (length raw))
      else (let opc = of_nat (le_value (slice 4 8 raw));
                dc = of_nat (le_value (slice 16 20 raw));
                rc = of_nat (le_value (slice 20 24 raw)) in
        case OperationFromCode opc of
          None \<Rightarrow> Inl (UnknownOperation opc)
        | Some operation \<Rightarrow>
            (case DecisionFromCode dc of
               None \<Rightarrow> Inl (UnknownDecision dc)
             | Some decision \<Rightarrow>
                 (case RiskFromCode rc of
                    None \<Rightarrow> Inl (UnknownRisk rc)
                  | Some risk \<Rightarrow>
                      let value = \<lparr>ev_run = runID, ev_pid = of_nat (le_value (slice 0 4 raw)), ev_op = operation,
                            ev_path = takeWhile (\<lambda>c. c \<noteq> CHR 0x00) (slice pathOffset (pathOffset + pathLength) raw),
                            ev_time = of_nat (le_value (slice 8 16 raw)), ev_decision = decision, ev_risk = risk\<rparr>
                      in and_then (Event_Validate value) (\<lambda>_. Inr value)))))"

text \<open>The record the kernel writes for an event whose path fits (the layout of the C structure).\<close>

fun le_bytes :: "nat \<Rightarrow> nat \<Rightarrow> string" where
  "le_bytes 0 n = []"
| "le_bytes (Suc k) n = char_of (n mod 256) # le_bytes k (n div 256)"

definition wire_record :: "Event \<Rightarrow> 32 word \<Rightarrow> 32 word \<Rightarrow> 32 word \<Rightarrow> string" where
  "wire_record e opc dc rc =
     le_bytes 4 (unat (ev_pid e)) @ le_bytes 4 (unat opc) @ le_bytes 8 (unat (ev_time e)) @
     le_bytes 4 (unat dc) @ le_bytes 4 (unat rc) @ ev_path e @ replicate (256 - length (ev_path e)) CHR 0x00"

subsection \<open>JSON\<close>

definition hex4 :: "nat \<Rightarrow> string" where
  "hex4 n = [hex_digit (n div 4096 mod 16), hex_digit (n div 256 mod 16), hex_digit (n div 16 mod 16), hex_digit (n mod 16)]"

definition json_byte :: "char \<Rightarrow> string" where
  "json_byte c =
     (if c = CHR 0x5C \<or> c = CHR 0x22 then [CHR 0x5C, c]
      else if c = CHR 0x08 then [CHR 0x5C, CHR ''b'']
      else if c = CHR 0x0C then [CHR 0x5C, CHR ''f'']
      else if c = CHR 0x0A then [CHR 0x5C, CHR ''n'']
      else if c = CHR 0x0D then [CHR 0x5C, CHR ''r'']
      else if c = CHR 0x09 then [CHR 0x5C, CHR ''t'']
      else if byte_val c < 32 \<or> c = CHR ''<'' \<or> c = CHR ''>'' \<or> c = CHR ''&''
      then [CHR 0x5C, CHR ''u''] @ hex4 (byte_val c)
      else [c])"

function json_escape :: "string \<Rightarrow> string" where
  "json_escape [] = []"
| "json_escape (c # cs) =
     (if byte_val c < 128 then json_byte c @ json_escape cs
      else (let (r, n) = decode_rune (c # cs) in
            (if r = 65533 \<and> n = 1 then [CHR 0x5C, CHR ''u''] @ hex4 65533
             else if r = 8232 \<or> r = 8233 then [CHR 0x5C, CHR ''u''] @ hex4 r
             else take n (c # cs)) @ json_escape (drop n (c # cs))))"
  by pat_completeness auto
termination
proof (relation "measure length", goal_cases)
  case (3 c cs x r n)
  then have "0 < n" using decode_rune_pos [of "c # cs"] by (metis list.distinct(1) snd_conv)
  then show ?case by simp
qed simp_all

definition json_string :: "string \<Rightarrow> string" where
  "json_string s = [CHR 0x22] @ json_escape s @ [CHR 0x22]"

definition json_field :: "string \<Rightarrow> string \<Rightarrow> string" where
  "json_field name value = [CHR 0x22] @ name @ [CHR 0x22, CHR '':''] @ value"

subsection \<open>The journal\<close>

record JournalEvent =
  j_event :: Event
  j_seq :: "64 word"
  j_prev :: string
  j_hash :: string

definition marshal :: "JournalEvent \<Rightarrow> string" where
  "marshal j = (let e = j_event j in
     ''{'' @ join_with '',''
       ([json_field ''run_id'' (json_string (ev_run e)), json_field ''pid'' (show_nat (unat (ev_pid e))),
         json_field ''operation'' (json_string (ev_op e))] @
        (if ev_path e = [] then [] else [json_field ''path'' (json_string (ev_path e))]) @
        [json_field ''timestamp_ns'' (show_nat (unat (ev_time e))),
         json_field ''decision'' (json_string (ev_decision e)), json_field ''risk'' (json_string (ev_risk e)),
         json_field ''sequence'' (show_nat (unat (j_seq j)))] @
        (if j_prev j = [] then [] else [json_field ''previous_hash'' (json_string (j_prev j))]) @
        [json_field ''hash'' (json_string (j_hash j))]) @ ''}'')"

record Chain =
  c_next :: "64 word"
  c_prev :: string

definition new_chain :: Chain where
  "new_chain = \<lparr>c_next = 0, c_prev = []\<rparr>"

definition digest :: "(string \<Rightarrow> string) \<Rightarrow> JournalEvent \<Rightarrow> string" where
  "digest sha j = hex_encode (sha (marshal (j\<lparr>j_hash := []\<rparr>)))"

definition Chain_Append :: "(string \<Rightarrow> string) \<Rightarrow> Chain \<Rightarrow> Event \<Rightarrow> event_error + Chain \<times> JournalEvent" where
  "Chain_Append sha c value =
     and_then (Event_Validate value) (\<lambda>_.
       let s = c_next c + 1;
           cand = \<lparr>j_event = value, j_seq = s, j_prev = c_prev c, j_hash = []\<rparr>;
           h = digest sha cand in
       Inr (\<lparr>c_next = s, c_prev = h\<rparr>, cand\<lparr>j_hash := h\<rparr>))"

fun verify_from :: "(string \<Rightarrow> string) \<Rightarrow> Chain \<Rightarrow> JournalEvent list \<Rightarrow> bool" where
  "verify_from sha c [] = True"
| "verify_from sha c (j # js) =
     (is_ok (Event_Validate (j_event j)) \<and> j_seq j = c_next c + 1 \<and> j_prev j = c_prev c \<and>
      digest sha j = j_hash j \<and> verify_from sha \<lparr>c_next = j_seq j, c_prev = j_hash j\<rparr> js)"

definition chain_Verify :: "(string \<Rightarrow> string) \<Rightarrow> JournalEvent list \<Rightarrow> bool" where
  "chain_Verify sha js = verify_from sha new_chain js"

subsection \<open>The bounded writer\<close>

datatype effect = Wrote string | Rotated | OnDrop Event

record Writer =
  w_dest :: bool
  w_max :: "64 word"
  w_rotate_bytes :: "64 word"
  w_bytes :: "64 word"
  w_file_bytes :: "64 word"
  w_truncated :: bool
  w_dropped :: "64 word"
  w_on_drop :: bool
  w_rotate :: bool
  w_chain :: Chain
  w_effects :: "effect list"

definition Writer_Append ::
  "(string \<Rightarrow> string) \<Rightarrow> (nat \<Rightarrow> bool) \<Rightarrow> Writer \<Rightarrow> Event \<Rightarrow> Writer \<times> event_error option" where
  "Writer_Append sha fails w value =
     (if \<not> w_dest w then (w, Some DestinationRequired)
      else (case Chain_Append sha (w_chain w) value of
              Inl e \<Rightarrow> (w, Some e)
            | Inr (c, j) \<Rightarrow>
                let w1 = w\<lparr>w_chain := c\<rparr>;
                    line = marshal j @ [CHR 0x0A];
                    n = of_nat (length line) in
                if w_max w > 0 \<and> w_bytes w + n > w_max w then
                  (w1\<lparr>w_truncated := True, w_dropped := w_dropped w + 1,
                      w_effects := w_effects w @ (if w_on_drop w then [OnDrop value] else [])\<rparr>, None)
                else
                  (let rotating = w_rotate_bytes w > 0 \<and> w_file_bytes w > 0 \<and> w_file_bytes w + n > w_rotate_bytes w in
                   if rotating \<and> \<not> w_rotate w then (w1, Some RotateRequired)
                   else if rotating \<and> fails (length (w_effects w)) then (w1, Some RotateFailed)
                   else
                     (let w2 = (if rotating then w1\<lparr>w_file_bytes := 0, w_effects := w_effects w @ [Rotated]\<rparr> else w1) in
                      if fails (length (w_effects w2)) then (w2, Some WriteFailed)
                      else (w2\<lparr>w_effects := w_effects w2 @ [Wrote line], w_bytes := w_bytes w2 + n,
                               w_file_bytes := w_file_bytes w2 + n\<rparr>, None)))))"

subsection \<open>Codes\<close>

lemma table_roundtrip:
  "distinct (map fst tab) \<Longrightarrow> distinct (map snd tab) \<Longrightarrow> code_of tab v = Some c \<longleftrightarrow> from_code tab c = Some v"
proof -
  assume d: "distinct (map fst tab)" "distinct (map snd tab)"
  have "map fst (map (\<lambda>(s, n). (n, s)) tab) = map snd tab" by (induction tab) auto
  then have "map_of (map (\<lambda>(s, n). (n, s)) tab) c = Some v \<longleftrightarrow> (c, v) \<in> set (map (\<lambda>(s, n). (n, s)) tab)"
    using d(2) by (metis map_of_eq_Some_iff)
  moreover have "(c, v) \<in> set (map (\<lambda>(s, n). (n, s)) tab) \<longleftrightarrow> (v, c) \<in> set tab" by auto
  ultimately show ?thesis using d(1) by (simp add: code_of_def from_code_def)
qed

lemma code_roundtrips:
  "OperationCode v = Some c \<longleftrightarrow> OperationFromCode c = Some v"
  "DecisionCode v = Some c \<longleftrightarrow> DecisionFromCode c = Some v"
  "RiskCode v = Some c \<longleftrightarrow> RiskFromCode c = Some v"
  unfolding OperationCode_def OperationFromCode_def DecisionCode_def DecisionFromCode_def RiskCode_def RiskFromCode_def
  by (intro table_roundtrip; simp add: operations_def decisions_def risks_def)+

lemma valid_code:
  "validOperation v \<longleftrightarrow> OperationCode v \<noteq> None" "validDecision v \<longleftrightarrow> DecisionCode v \<noteq> None"
  "validRisk v \<longleftrightarrow> RiskCode v \<noteq> None"
  by (simp_all add: validOperation_def validDecision_def validRisk_def OperationCode_def DecisionCode_def
      RiskCode_def code_of_def map_of_eq_None_iff)

lemma length_le_bytes [simp]: "length (le_bytes k n) = k"
  by (induction k n rule: le_bytes.induct) auto

lemma le_value_bytes: "n < 256 ^ k \<Longrightarrow> le_value (le_bytes k n) = n"
proof (induction k n rule: le_bytes.induct)
  case (2 k n)
  then have "n div 256 < 256 ^ k" by (simp add: less_mult_imp_div_less mult.commute)
  with 2 have "le_value (le_bytes k (n div 256)) = n div 256" by simp
  then show ?case by (simp add: le_value_def byte_val_def)
qed (simp add: le_value_def)

lemma slice_at: "slice (length a) (length a + length b) (a @ b @ c) = b"
  by (simp add: slice_def)

text \<open>
  Decoding inverts the kernel's record: a valid event whose path has no NUL byte and fits is
  read back from the bytes the kernel writes for it, whatever follows them.
\<close>

theorem decode_inverts_wire:
  assumes "Event_Validate e = Inr ()" and "length (ev_path e) \<le> 256" and "CHR 0x00 \<notin> set (ev_path e)"
    and "OperationCode (ev_op e) = Some opc" and "DecisionCode (ev_decision e) = Some dc"
    and "RiskCode (ev_risk e) = Some rc"
  shows "Decode (wire_record e opc dc rc @ extra) (ev_run e) = Inr e"
proof -
  define a where "a = le_bytes 4 (unat (ev_pid e))"
  define b where "b = le_bytes 4 (unat opc)"
  define c where "c = le_bytes 8 (unat (ev_time e))"
  define d where "d = le_bytes 4 (unat dc)"
  define f where "f = le_bytes 4 (unat rc)"
  define p where "p = ev_path e @ replicate (256 - length (ev_path e)) CHR 0x00"
  have raw: "wire_record e opc dc rc @ extra = a @ b @ c @ d @ f @ p @ extra"
    by (simp add: wire_record_def a_def b_def c_def d_def f_def p_def)
  have len: "length a = 4" "length b = 4" "length c = 8" "length d = 4" "length f = 4" "length p = 256"
    using assms(2) by (simp_all add: a_def b_def c_def d_def f_def p_def)
  have sl: "slice 0 4 (a @ b @ c @ d @ f @ p @ extra) = a" "slice 4 8 (a @ b @ c @ d @ f @ p @ extra) = b"
    "slice 8 16 (a @ b @ c @ d @ f @ p @ extra) = c" "slice 16 20 (a @ b @ c @ d @ f @ p @ extra) = d"
    "slice 20 24 (a @ b @ c @ d @ f @ p @ extra) = f" "slice 24 280 (a @ b @ c @ d @ f @ p @ extra) = p"
    using len by (simp_all add: slice_def)
  have w: "of_nat (le_value (le_bytes 4 (unat (x :: 32 word)))) = x" for x
    using unsigned_less [of x, where 'a = nat] by (simp add: le_value_bytes)
  have w8: "of_nat (le_value (le_bytes 8 (unat (x :: 64 word)))) = x" for x
    using unsigned_less [of x, where 'a = nat] by (simp add: le_value_bytes)
  have vals: "of_nat (le_value a) = ev_pid e" "of_nat (le_value b) = opc" "of_nat (le_value c) = ev_time e"
    "of_nat (le_value d) = dc" "of_nat (le_value f) = rc"
    by (simp_all add: a_def b_def c_def d_def f_def w w8)
  have codes: "OperationFromCode opc = Some (ev_op e)" "DecisionFromCode dc = Some (ev_decision e)"
    "RiskFromCode rc = Some (ev_risk e)"
    using assms(4-6) by (simp_all add: code_roundtrips [symmetric])
  have eta: "\<lparr>ev_run = ev_run e, ev_pid = ev_pid e, ev_op = ev_op e, ev_path = ev_path e, ev_time = ev_time e,
      ev_decision = ev_decision e, ev_risk = ev_risk e\<rparr> = e"
    by (cases e) simp
  have "takeWhile (\<lambda>ch. ch \<noteq> CHR 0x00) p = ev_path e"
    using assms(3) by (cases "256 - length (ev_path e)") (auto simp: p_def takeWhile_append2 takeWhile_tail)
  moreover have "\<not> length (a @ b @ c @ d @ f @ p @ extra) < WireEventSize"
    using len by (simp add: WireEventSize_def pathOffset_def pathLength_def)
  moreover have "ev_run e \<noteq> []" using assms(1) by (auto simp: Event_Validate_def)
  ultimately show ?thesis
    unfolding Decode_def raw using assms(1)
    by (simp add: sl vals codes eta pathOffset_def pathLength_def Let_def)
qed

definition demo_event :: "string \<Rightarrow> Event" where
  "demo_event p = \<lparr>ev_run = ''run_1'', ev_pid = 77, ev_op = ''openat'', ev_path = p, ev_time = 9,
     ev_decision = ''deny'', ev_risk = ''high''\<rparr>"

theorem decode_inverts_wire_witness:
  "Decode (wire_record (demo_event ''/w/k'') 2 2 3 @ ''tail'') ''run_1'' = Inr (demo_event ''/w/k'')"
proof -
  have "Event_Validate (demo_event ''/w/k'') = Inr ()" "OperationCode (ev_op (demo_event ''/w/k'')) = Some 2"
    "DecisionCode (ev_decision (demo_event ''/w/k'')) = Some 2" "RiskCode (ev_risk (demo_event ''/w/k'')) = Some 3"
    by (simp_all add: demo_event_def Event_Validate_def validOperation_def validDecision_def validRisk_def
        operations_def decisions_def risks_def OperationCode_def DecisionCode_def RiskCode_def code_of_def)
  from decode_inverts_wire [OF this(1) _ _ this(2-4), of "''tail''"] show ?thesis by (simp add: demo_event_def)
qed

subsection \<open>The chain\<close>

lemma hex_encode_Nil: "hex_encode s = [] \<longleftrightarrow> s = []"
proof -
  have "length (hex_encode s) = 2 * length s" by (rule length_hex_encode)
  then show ?thesis by (cases "hex_encode s"; cases s) auto
qed

fun append_all :: "(string \<Rightarrow> string) \<Rightarrow> Chain \<Rightarrow> Event list \<Rightarrow> event_error + Chain \<times> JournalEvent list" where
  "append_all sha c [] = Inr (c, [])"
| "append_all sha c (e # es) =
     and_then (Chain_Append sha c e) (\<lambda>(c', j). and_then (append_all sha c' es) (\<lambda>(c'', js). Inr (c'', j # js)))"

lemma Chain_Append_Inr:
  "Chain_Append sha c e = Inr (c', j) \<Longrightarrow> is_ok (Event_Validate e) \<and> j_event j = e \<and> j_seq j = c_next c + 1 \<and>
     j_prev j = c_prev c \<and> digest sha j = j_hash j \<and> c' = \<lparr>c_next = j_seq j, c_prev = j_hash j\<rparr>"
  by (auto simp: Chain_Append_def Let_def is_ok_iff digest_def)

lemma append_all_verifies: "append_all sha c es = Inr (c', js) \<Longrightarrow> verify_from sha c js"
proof (induction es arbitrary: c js)
  case (Cons e es)
  then obtain c1 j js' where s: "Chain_Append sha c e = Inr (c1, j)" "append_all sha c1 es = Inr (c', js')" "js = j # js'"
    by auto
  from Chain_Append_Inr [OF s(1)] Cons.IH [OF s(2)] s(3) show ?case by simp
qed simp

lemma verify_from_snoc:
  "verify_from sha c (js @ [j]) \<longleftrightarrow> verify_from sha c js \<and>
     (let c' = (if js = [] then c else \<lparr>c_next = j_seq (last js), c_prev = j_hash (last js)\<rparr>) in
      is_ok (Event_Validate (j_event j)) \<and> j_seq j = c_next c' + 1 \<and> j_prev j = c_prev c' \<and> digest sha j = j_hash j)"
  by (induction js arbitrary: c) (auto simp: Let_def)

text \<open>
  The journal is tamper-evident: when the hash has no collisions among the records involved
  and never is empty, two journals that verify and end in the same hash are equal; so a journal
  that verifies is determined by its last hash.
\<close>

theorem journal_determined_by_last_hash:
  assumes "chain_Verify sha js" and "chain_Verify sha ks" and "js \<noteq> []" and "ks \<noteq> []"
    and "j_hash (last js) = j_hash (last ks)"
    and "inj_on (digest sha) ((\<lambda>j. j\<lparr>j_hash := []\<rparr>) ` (set js \<union> set ks))" and "\<forall>x. sha x \<noteq> []"
  shows "js = ks"
  using assms(1-6)
proof (induction js arbitrary: ks rule: rev_induct)
  case (snoc j js)
  obtain k ks' where ks: "ks = ks' @ [k]" using snoc.prems(4) by (cases ks rule: rev_cases) auto
  have vj: "verify_from sha new_chain (js @ [j])" and vk: "verify_from sha new_chain (ks' @ [k])"
    using snoc.prems(1,2) by (simp_all add: chain_Verify_def ks)
  have dj: "digest sha j = j_hash j" "digest sha k = j_hash k"
    using vj vk unfolding verify_from_snoc Let_def by blast+
  have blank: "digest sha (x\<lparr>j_hash := []\<rparr>) = digest sha x" for x by (simp add: digest_def)
  have "j\<lparr>j_hash := []\<rparr> = k\<lparr>j_hash := []\<rparr>"
  proof (rule inj_onD [OF snoc.prems(6)])
    show "digest sha (j\<lparr>j_hash := []\<rparr>) = digest sha (k\<lparr>j_hash := []\<rparr>)"
      using snoc.prems(5) dj by (simp add: blank ks)
  qed (simp_all add: ks)
  moreover have "j_hash j = j_hash k" using snoc.prems(5) by (simp add: ks)
  ultimately have jk: "j = k" by (cases j; cases k) simp
  have ne: "j_hash x \<noteq> []" if "x \<in> set xs" "verify_from sha c xs" for x xs c
    using that
  proof (induction xs arbitrary: c)
    case (Cons y ys)
    show ?case
    proof (cases "x = y")
      case True
      then have "j_hash x = hex_encode (sha (marshal (x\<lparr>j_hash := []\<rparr>)))" using Cons.prems by (simp add: digest_def)
      moreover have "hex_encode (sha (marshal (x\<lparr>j_hash := []\<rparr>))) \<noteq> []" using assms(7) by (simp add: hex_encode_Nil)
      ultimately show ?thesis by auto
    qed (use Cons in auto)
  qed simp
  have prev: "j_prev j = (if js = [] then [] else j_hash (last js))" "j_prev k = (if ks' = [] then [] else j_hash (last ks'))"
    using vj vk unfolding verify_from_snoc Let_def by (auto simp: new_chain_def split: if_splits)
  have v: "verify_from sha new_chain js" "verify_from sha new_chain ks'"
    using vj vk unfolding verify_from_snoc by blast+
  show ?case
  proof (cases "js = [] \<or> ks' = []")
    case True
    then have "js = [] \<and> ks' = []"
      using prev jk ne [OF _ v(1), of "last js"] ne [OF _ v(2), of "last ks'"] by (auto split: if_splits)
    then show ?thesis using jk ks by simp
  next
    case False
    then have "j_hash (last js) = j_hash (last ks')" using prev jk by simp
    moreover have "inj_on (digest sha) ((\<lambda>j. j\<lparr>j_hash := []\<rparr>) ` (set js \<union> set ks'))"
      using snoc.prems(6) by (rule inj_on_subset) (auto simp: ks)
    ultimately have "js = ks'"
      using snoc.IH [of ks'] v False by (simp add: chain_Verify_def)
    then show ?thesis using jk ks by simp
  qed
qed simp


definition demo_sha :: "string \<Rightarrow> string" where
  "demo_sha s = [char_of (length s)]"

definition demo_journal :: "JournalEvent list" where
  "demo_journal = [\<lparr>j_event = demo_event ''/k'', j_seq = 1, j_prev = [],
     j_hash = digest demo_sha \<lparr>j_event = demo_event ''/k'', j_seq = 1, j_prev = [], j_hash = []\<rparr>\<rparr>]"

lemma demo_event_valid: "Event_Validate (demo_event p) = Inr ()"
  by (simp add: demo_event_def Event_Validate_def validOperation_def validDecision_def validRisk_def
      operations_def decisions_def risks_def)

theorem journal_determined_by_last_hash_witness:
  "map_sum id snd (append_all demo_sha new_chain [demo_event ''/k'']) = Inr demo_journal"
proof -
  have v: "chain_Verify demo_sha demo_journal"
    by (simp add: chain_Verify_def demo_journal_def new_chain_def demo_event_valid digest_def)
  obtain c js where a: "append_all demo_sha new_chain [demo_event ''/k''] = Inr (c, js)" and ne: "js \<noteq> []"
    and h: "j_hash (last js) = j_hash (last demo_journal)" and s: "set js \<subseteq> set demo_journal"
    by (simp add: Chain_Append_def demo_event_valid Let_def demo_journal_def new_chain_def digest_def)
  have "js = demo_journal"
  proof (rule journal_determined_by_last_hash [OF _ v ne _ h])
    show "chain_Verify demo_sha js" using append_all_verifies [OF a] by (simp add: chain_Verify_def)
    have u: "set js \<union> set demo_journal = set demo_journal" using s by blast
    show "inj_on (digest demo_sha) ((\<lambda>j. j\<lparr>j_hash := []\<rparr>) ` (set js \<union> set demo_journal))"
      unfolding u by (simp add: demo_journal_def)
  qed (simp_all add: demo_journal_def demo_sha_def)
  then show ?thesis unfolding a by simp
qed

subsection \<open>The writer\<close>

fun writer_run :: "(string \<Rightarrow> string) \<Rightarrow> (nat \<Rightarrow> bool) \<Rightarrow> Writer \<Rightarrow> Event list \<Rightarrow> Writer \<times> event_error option" where
  "writer_run sha fails w [] = (w, None)"
| "writer_run sha fails w (e # es) =
     (case Writer_Append sha fails w e of
        (w', Some err) \<Rightarrow> (w', Some err)
      | (w', None) \<Rightarrow> writer_run sha fails w' es)"

fun written :: "effect list \<Rightarrow> string list" where
  "written [] = []"
| "written (Wrote l # fs) = l # written fs"
| "written (_ # fs) = written fs"

definition bytes_of :: "string list \<Rightarrow> nat" where
  "bytes_of ls = sum_list (map length ls)"

definition journal_line :: "JournalEvent \<Rightarrow> string" where
  "journal_line j = marshal j @ [CHR 0x0A]"

lemma written_append [simp]: "written (a @ b) = written a @ written b"
  by (induction a rule: written.induct) auto

lemma bytes_of_simps [simp]: "bytes_of [] = 0" "bytes_of (l # ls) = length l + bytes_of ls"
  "bytes_of (a @ b) = bytes_of a + bytes_of b"
  by (simp_all add: bytes_of_def)

text \<open>The writer's account of the destination: the bytes it counted are those it wrote, within the cap.\<close>

definition writer_ok :: "Writer \<Rightarrow> bool" where
  "writer_ok w = (w_bytes w = of_nat (bytes_of (written (w_effects w))) \<and>
     bytes_of (written (w_effects w)) \<le> unat (w_max w))"

lemma cap_test:
  assumes "b \<le> unat (m :: 64 word)" and "unat m < 2 ^ 63" and "n < 2 ^ 63"
  shows "of_nat b + of_nat n > m \<longleftrightarrow> unat m < b + n"
proof -
  have "of_nat b + of_nat n = (of_nat (b + n) :: 64 word)" by simp
  moreover have "unat (of_nat (b + n) :: 64 word) = b + n"
    using assms by (simp add: unsigned_of_nat take_bit_nat_eq_self del: of_nat_add)
  ultimately show ?thesis by (simp add: word_less_nat_alt)
qed

lemma Writer_Append_step:
  assumes "Chain_Append sha (w_chain w) e = Inr (c, j)" and "writer_ok w" and "0 < w_max w"
    and "unat (w_max w) < 2 ^ 63" and "length (journal_line j) < 2 ^ 63" and "w_dest w"
    and "Writer_Append sha fails w e = (w', err)"
  shows "writer_ok w' \<and> w_max w' = w_max w \<and> w_dest w' \<and> w_chain w' = c \<and>
    (err = None \<and> \<not> w_truncated w' = (\<not> w_truncated w) \<and> w_dropped w' = w_dropped w \<and>
       written (w_effects w') = written (w_effects w) @ [journal_line j] \<or>
     err = None \<and> w_truncated w' \<and> w_dropped w' = w_dropped w + 1 \<and> written (w_effects w') = written (w_effects w) \<or>
     err \<noteq> None \<and> written (w_effects w') = written (w_effects w))"
proof -
  let ?n = "length (journal_line j)" and ?b = "bytes_of (written (w_effects w))"
  have b: "w_bytes w = of_nat ?b" "?b \<le> unat (w_max w)" using assms(2) by (simp_all add: writer_ok_def)
  have test: "w_bytes w + of_nat ?n > w_max w \<longleftrightarrow> unat (w_max w) < ?b + ?n"
    using cap_test [OF b(2) assms(4,5)] b(1) by simp
  define rot where "rot = (w_rotate_bytes w > 0 \<and> w_file_bytes w > 0 \<and> w_file_bytes w + of_nat ?n > w_rotate_bytes w)"
  note eq = assms(7) [unfolded Writer_Append_def assms(1) sum.case prod.case Let_def journal_line_def [symmetric], folded rot_def]
  consider (dropped) "unat (w_max w) < ?b + ?n" | (rotating) "?b + ?n \<le> unat (w_max w)" rot
    | (plain) "?b + ?n \<le> unat (w_max w)" "\<not> rot"
    by linarith
  then show ?thesis
  proof cases
    case dropped
    then show ?thesis using eq assms(2,3,6) test by (auto simp: writer_ok_def)
  next
    case rotating
    then have "\<not> w_bytes w + of_nat ?n > w_max w" using test by simp
    then show ?thesis using eq assms(2,6) rotating
      by (cases "w_rotate w"; cases "fails (length (w_effects w))"; cases "fails (Suc (length (w_effects w)))")
        (auto simp: writer_ok_def b(1))
  next
    case plain
    then have "\<not> w_bytes w + of_nat ?n > w_max w" using test by simp
    then show ?thesis using eq assms(2,6) plain
      by (cases "fails (length (w_effects w))") (auto simp: writer_ok_def b(1))
  qed
qed


lemma writer_run_sound:
  assumes "append_all sha (w_chain w) es = Inr (c, js)" and "writer_ok w" and "0 < w_max w"
    and "unat (w_max w) < 2 ^ 63" and "\<forall>j \<in> set js. length (journal_line j) < 2 ^ 63" and "w_dest w"
    and "writer_run sha fails w es = (w', err)"
  shows "writer_ok w' \<and> w_max w' = w_max w \<and>
    (\<exists>ls. written (w_effects w') = written (w_effects w) @ ls \<and> subseq ls (map journal_line js) \<and>
       (err = None \<longrightarrow> w_dropped w' = w_dropped w + of_nat (length js - length ls) \<and>
          (\<not> w_truncated w' \<longrightarrow> \<not> w_truncated w \<and> ls = map journal_line js)))"
  using assms
proof (induction es arbitrary: w js)
  case Nil
  then show ?case by auto
next
  case (Cons e es)
  from Cons.prems(1) obtain c1 j ks where s: "Chain_Append sha (w_chain w) e = Inr (c1, j)"
    "append_all sha c1 es = Inr (c, ks)" "js = j # ks" by auto
  obtain w1 r where st: "Writer_Append sha fails w e = (w1, r)" by fastforce
  note step = Writer_Append_step [OF s(1) Cons.prems(2,3,4) _ Cons.prems(6) st]
  have n: "length (journal_line j) < 2 ^ 63" using Cons.prems(5) s(3) by simp
  note step = step [OF n]
  show ?case
  proof (cases r)
    case (Some x)
    then have "w' = w1" "err = Some x" using Cons.prems(7) st by simp_all
    then show ?thesis using step Some by auto
  next
    case None
    then have run: "writer_run sha fails w1 es = (w', err)" using Cons.prems(7) st by simp
    have "append_all sha (w_chain w1) es = Inr (c, ks)" using step s(2) by simp
    moreover have "\<forall>j \<in> set ks. length (journal_line j) < 2 ^ 63" using Cons.prems(5) s(3) by simp
    ultimately obtain ls where ih: "writer_ok w'" "w_max w' = w_max w1"
      "written (w_effects w') = written (w_effects w1) @ ls" "subseq ls (map journal_line ks)"
      "err = None \<Longrightarrow> w_dropped w' = w_dropped w1 + of_nat (length ks - length ls)"
      "err = None \<Longrightarrow> \<not> w_truncated w' \<Longrightarrow> \<not> w_truncated w1 \<and> ls = map journal_line ks"
      using Cons.IH [of w1 ks] step Cons.prems(3,4) run by auto
    have len: "length ls \<le> length ks" using list_emb_length [OF ih(4)] by simp
    from step None consider
        (kept) "w_truncated w1 = w_truncated w" "w_dropped w1 = w_dropped w"
          "written (w_effects w1) = written (w_effects w) @ [journal_line j]"
      | (dropped) "w_truncated w1" "w_dropped w1 = w_dropped w + 1" "written (w_effects w1) = written (w_effects w)"
      by auto
    then show ?thesis
    proof cases
      case kept
      then show ?thesis using ih step s(3)
        by (intro conjI exI [of _ "journal_line j # ls"]) auto
    next
      case dropped
      have "of_nat (Suc (length ks) - length ls) = 1 + (of_nat (length ks - length ls) :: 64 word)"
        using len by (simp add: Suc_diff_le)
      then show ?thesis using dropped ih step s(3)
        by (intro conjI exI [of _ ls]) auto
    qed
  qed
qed

definition new_writer :: "64 word \<Rightarrow> 64 word \<Rightarrow> Writer" where
  "new_writer m rot = \<lparr>w_dest = True, w_max = m, w_rotate_bytes = rot, w_bytes = 0, w_file_bytes = 0,
     w_truncated = False, w_dropped = 0, w_on_drop = False, w_rotate = True, w_chain = new_chain, w_effects = []\<rparr>"

text \<open>
  The bounded writer never pretends that its log is complete: whatever writes and rotations
  fail, the log stays within the cap and holds lines of the event chain in order; if no call
  failed, the number of missing lines is the counter of dropped events, and a log that is not
  marked truncated is the complete chain, which verifies.
\<close>

theorem bounded_writer_is_honest:
  assumes "append_all sha new_chain es = Inr (c, js)" and "0 < m" and "unat m < 2 ^ 63"
    and "\<forall>j \<in> set js. length (journal_line j) < 2 ^ 63"
    and "writer_run sha fails (new_writer m rot) es = (w, err)"
  shows "bytes_of (written (w_effects w)) \<le> unat m \<and>
    subseq (written (w_effects w)) (map journal_line js) \<and> chain_Verify sha js \<and>
    (err = None \<longrightarrow> w_dropped w = of_nat (length js - length (written (w_effects w))) \<and>
       (\<not> w_truncated w \<longrightarrow> written (w_effects w) = map journal_line js))"
proof -
  have "writer_ok (new_writer m rot)" by (simp add: writer_ok_def new_writer_def)
  from writer_run_sound [OF _ this _ _ assms(4) _ assms(5)] assms(1-3)
  show ?thesis
    using append_all_verifies [OF assms(1)] by (auto simp: new_writer_def writer_ok_def chain_Verify_def)
qed


subsection \<open>Sizes of records\<close>

lemma decode_rune_size: "snd (decode_rune s) \<le> 4"
  by (auto simp: decode_rune_def Let_def split: list.splits)

lemma length_json_byte: "length (json_byte c) \<le> 6" "1 \<le> length (json_byte c)"
  by (auto simp: json_byte_def hex4_def)

definition json_piece :: "string \<Rightarrow> string" where
  "json_piece s = (let (r, n) = decode_rune s in
     if r = 65533 \<and> n = 1 then [CHR 0x5C, CHR ''u''] @ hex4 65533
     else if r = 8232 \<or> r = 8233 then [CHR 0x5C, CHR ''u''] @ hex4 r
     else take n s)"

lemma json_escape_piece:
  "128 \<le> byte_val c \<Longrightarrow> json_escape (c # cs) = json_piece (c # cs) @ json_escape (drop (snd (decode_rune (c # cs))) (c # cs))"
  by (simp add: json_piece_def split: prod.split)

lemma json_piece_bounds:
  assumes "s \<noteq> []"
  shows "min (snd (decode_rune s)) (length s) \<le> length (json_piece s)" "length (json_piece s) \<le> 6 * min (snd (decode_rune s)) (length s)"
proof -
  have "length (json_piece s) = 6 \<or> length (json_piece s) = min (snd (decode_rune s)) (length s)"
    by (simp add: json_piece_def hex4_def min.commute split: prod.split)
  moreover have "1 \<le> min (snd (decode_rune s)) (length s)" using decode_rune_pos [OF assms] assms
    by (simp add: Suc_le_eq)
  ultimately show "min (snd (decode_rune s)) (length s) \<le> length (json_piece s)"
    "length (json_piece s) \<le> 6 * min (snd (decode_rune s)) (length s)"
    using decode_rune_size [of s] by linarith+
qed

lemma json_escape_bounds: "length s \<le> length (json_escape s) \<and> length (json_escape s) \<le> 6 * length s"
proof (induction s rule: json_escape.induct)
  case (2 c cs)
  show ?case
  proof (cases "byte_val c < 128")
    case True
    then show ?thesis using 2(1) length_json_byte [of c] by simp
  next
    case False
    obtain r n where rn: "decode_rune (c # cs) = (r, n)" by fastforce
    have "length (drop n (c # cs)) \<le> length (json_escape (drop n (c # cs)))
        \<and> length (json_escape (drop n (c # cs))) \<le> 6 * length (drop n (c # cs))"
      using 2(2) [OF False rn [symmetric] refl] by simp
    moreover have "json_escape (c # cs) = json_piece (c # cs) @ json_escape (drop n (c # cs))"
      using False json_escape_piece [of c cs] by (simp add: rn)
    ultimately have "length (json_escape (c # cs)) = length (json_piece (c # cs)) + length (json_escape (drop n (c # cs)))"
      "length (c # cs) - n \<le> length (json_escape (drop n (c # cs)))"
      "length (json_escape (drop n (c # cs))) \<le> 6 * (length (c # cs) - n)" by (simp_all del: json_escape.simps)
    moreover have "min n (length (c # cs)) \<le> length (json_piece (c # cs))"
      "length (json_piece (c # cs)) \<le> 6 * min n (length (c # cs))"
      using json_piece_bounds [of "c # cs"] by (simp_all add: rn)
    ultimately show ?thesis by linarith
  qed
qed auto

lemma length_show_nat: "length (show_nat n) \<le> Suc n"
proof (induction n rule: show_nat.induct)
  case (1 n)
  then show ?case by (subst show_nat.simps) auto
qed

lemma marshal_bounds:
  "length (ev_path (j_event j)) \<le> length (marshal j)"
  "length (marshal j) \<le> 300 + 6 * (length (ev_run (j_event j)) + length (ev_op (j_event j)) + length (ev_path (j_event j)) +
     length (ev_decision (j_event j)) + length (ev_risk (j_event j)) + length (j_prev j) + length (j_hash j)) +
     unat (ev_pid (j_event j)) + unat (ev_time (j_event j)) + unat (j_seq j)"
proof -
  let ?e = "j_event j"
  note b = json_escape_bounds [of "ev_run ?e"] json_escape_bounds [of "ev_op ?e"] json_escape_bounds [of "ev_path ?e"]
    json_escape_bounds [of "ev_decision ?e"] json_escape_bounds [of "ev_risk ?e"] json_escape_bounds [of "j_prev j"]
    json_escape_bounds [of "j_hash j"] length_show_nat [of "unat (ev_pid ?e)"] length_show_nat [of "unat (ev_time ?e)"]
    length_show_nat [of "unat (j_seq j)"]
  show "length (ev_path ?e) \<le> length (marshal j)"
    "length (marshal j) \<le> 300 + 6 * (length (ev_run ?e) + length (ev_op ?e) + length (ev_path ?e) +
     length (ev_decision ?e) + length (ev_risk ?e) + length (j_prev j) + length (j_hash j)) +
     unat (ev_pid ?e) + unat (ev_time ?e) + unat (j_seq j)"
    using b by (auto simp: marshal_def Let_def json_field_def json_string_def)
qed

lemma demo_line_bounds:
  assumes "Chain_Append demo_sha c (demo_event p) = Inr (c', j)"
  shows "length p \<le> length (journal_line j)"
    "length (journal_line j) \<le> 513 + 6 * (length p + length (c_prev c)) + unat (c_next c + 1)"
    "c_next c' = c_next c + 1" "length (c_prev c') = 2"
proof -
  from Chain_Append_Inr [OF assms]
  have j: "j_event j = demo_event p" "j_seq j = c_next c + 1" "j_prev j = c_prev c" "digest demo_sha j = j_hash j"
    "c' = \<lparr>c_next = j_seq j, c_prev = j_hash j\<rparr>" by blast+
  have h: "length (j_hash j) = 2" unfolding j(4) [symmetric] by (simp add: digest_def demo_sha_def)
  show "length p \<le> length (journal_line j)" "c_next c' = c_next c + 1" "length (c_prev c') = 2"
    using marshal_bounds(1) [of j] by (simp_all add: journal_line_def j h demo_event_def)
  show "length (journal_line j) \<le> 513 + 6 * (length p + length (c_prev c)) + unat (c_next c + 1)"
    using marshal_bounds(2) [of j] by (simp add: journal_line_def j(1-3) h demo_event_def)
qed

lemma demo_append: "\<exists>c' j. Chain_Append demo_sha c (demo_event p) = Inr (c', j)"
  by (simp add: Chain_Append_def demo_event_valid Let_def)

theorem bounded_writer_is_honest_witness:
  "let (w, err) = writer_run demo_sha (\<lambda>_. False) (new_writer 4096 0) [demo_event ''/k'', demo_event ''/z'']
   in bytes_of (written (w_effects w)) \<le> 4096"
proof -
  obtain c1 j1 where a: "Chain_Append demo_sha new_chain (demo_event ''/k'') = Inr (c1, j1)" using demo_append by blast
  obtain c2 j2 where b: "Chain_Append demo_sha c1 (demo_event ''/z'') = Inr (c2, j2)" using demo_append by blast
  have "append_all demo_sha new_chain [demo_event ''/k'', demo_event ''/z''] = Inr (c2, [j1, j2])"
    by (simp add: a b)
  moreover have "\<forall>j \<in> set [j1, j2]. length (journal_line j) < 2 ^ 63"
    using demo_line_bounds [OF a] demo_line_bounds [OF b] by (simp add: new_chain_def)
  moreover obtain w err where r: "writer_run demo_sha (\<lambda>_. False) (new_writer 4096 0) [demo_event ''/k'', demo_event ''/z''] = (w, err)"
    by fastforce
  ultimately have "bytes_of (written (w_effects w)) \<le> unat (4096 :: 64 word)"
    using bounded_writer_is_honest [of demo_sha "[demo_event ''/k'', demo_event ''/z'']" c2 "[j1, j2]" 4096] by simp
  then show ?thesis unfolding r by simp
qed

text \<open>
  A dropped event leaves a gap when a later one still fits: the writer does not stop at the
  cap, so a shorter line after a dropped one is written, and the events of the log then no longer
  verify as a chain.
\<close>

theorem dropped_event_breaks_chain:
  assumes "append_all sha new_chain [e1, e2, e3] = Inr (c, [j1, j2, j3])"
    and "0 < m" and "unat m < 2 ^ 63" and "length (journal_line j2) < 2 ^ 63"
    and "unat m < length (journal_line j1) + length (journal_line j2)"
    and "length (journal_line j1) + length (journal_line j3) \<le> unat m"
  shows "(let (w, err) = writer_run sha (\<lambda>_. False) (new_writer m 0) [e1, e2, e3] in
     err = None \<and> written (w_effects w) = [journal_line j1, journal_line j3]) \<and> \<not> chain_Verify sha [j1, j3]"
proof -
  from assms(1) obtain c1 c2 where ch: "Chain_Append sha new_chain e1 = Inr (c1, j1)"
    "Chain_Append sha c1 e2 = Inr (c2, j2)" "Chain_Append sha c2 e3 = Inr (c, j3)"
    by auto
  have sq: "j_seq j1 = 1" "j_seq j3 = 3"
    using Chain_Append_Inr [OF ch(1)] Chain_Append_Inr [OF ch(2)] Chain_Append_Inr [OF ch(3)]
    by (simp_all add: new_chain_def)
  have "\<not> chain_Verify sha [j1, j3]" by (simp add: chain_Verify_def new_chain_def sq)
  moreover
  let ?n1 = "length (journal_line j1)" and ?n2 = "length (journal_line j2)" and ?n3 = "length (journal_line j3)"
  have t1: "\<not> m < of_nat ?n1" using cap_test [of 0 m ?n1] assms(3,6) by simp
  have t2: "m < of_nat ?n1 + of_nat ?n2" using cap_test [of ?n1 m ?n2] assms(3-6) by simp
  have t3: "\<not> m < of_nat ?n1 + of_nat ?n3" using cap_test [of ?n1 m ?n3] assms(3,6) by simp
  have "writer_run sha (\<lambda>_. False) (new_writer m 0) [e1, e2, e3] =
     (\<lparr>w_dest = True, w_max = m, w_rotate_bytes = 0, w_bytes = of_nat ?n1 + of_nat ?n3,
       w_file_bytes = of_nat ?n1 + of_nat ?n3, w_truncated = True, w_dropped = 1, w_on_drop = False,
       w_rotate = True, w_chain = c, w_effects = [Wrote (journal_line j1), Wrote (journal_line j3)]\<rparr>, None)"
    using t1 t2 t3 assms(2) ch
    by (simp add: Writer_Append_def new_writer_def journal_line_def [symmetric] Let_def)
  ultimately show ?thesis by simp
qed

theorem dropped_event_breaks_chain_witness:
  "\<exists>j1 j2 j3. append_all demo_sha new_chain [demo_event ''/k'', demo_event (replicate 2000 CHR ''x''), demo_event ''/z''] =
       Inr (\<lparr>c_next = 3, c_prev = j_hash j3\<rparr>, [j1, j2, j3]) \<and> \<not> chain_Verify demo_sha [j1, j3]"
proof -
  obtain c1 j1 where a: "Chain_Append demo_sha new_chain (demo_event ''/k'') = Inr (c1, j1)" using demo_append by blast
  obtain c2 j2 where b: "Chain_Append demo_sha c1 (demo_event (replicate 2000 CHR ''x'')) = Inr (c2, j2)"
    using demo_append by blast
  obtain c3 j3 where c: "Chain_Append demo_sha c2 (demo_event ''/z'') = Inr (c3, j3)" using demo_append by blast
  have all: "append_all demo_sha new_chain [demo_event ''/k'', demo_event (replicate 2000 CHR ''x''), demo_event ''/z''] =
      Inr (c3, [j1, j2, j3])"
    by (simp add: a b c)
  note l = demo_line_bounds [OF a] demo_line_bounds [OF b] demo_line_bounds [OF c]
  have "unat (1500 :: 64 word) < length (journal_line j1) + length (journal_line j2)" "length (journal_line j2) < 2 ^ 63"
    "length (journal_line j1) + length (journal_line j3) \<le> unat (1500 :: 64 word)"
    using l by (simp_all add: new_chain_def)
  then have "\<not> chain_Verify demo_sha [j1, j3]"
    using dropped_event_breaks_chain [OF all, of 1500] by simp
  moreover have "c3 = \<lparr>c_next = 3, c_prev = j_hash j3\<rparr>"
    using Chain_Append_Inr [OF a] Chain_Append_Inr [OF b] Chain_Append_Inr [OF c] by (simp add: new_chain_def)
  ultimately show ?thesis using all by blast
qed

end
