(* ===== verification/Evidence.thy ===== *)
theory Evidence
  imports Telemetry Run_Plan
begin

text \<open>
  \<open>internal/runstore\<close> and \<open>internal/evidence\<close>: the run record, the summary of the event logs it
  names, and the verification of the logs against the record.  A log is the bytes of a file;
  \<open>valid\<close> is \<open>json.Valid\<close> and \<open>decode\<close> is \<open>json.Unmarshal\<close> into a journal event.  SHA-256 is an
  argument.  Counters are 64-bit words.
\<close>

record EventEvidence =
  ee_count :: "64 word"
  ee_bytes :: "64 word"
  ee_dropped :: "64 word"
  ee_truncated :: bool
  ee_sha :: string
  ee_complete :: bool

record RunRecord =
  rr_plan :: RunPlan
  rr_path :: path
  rr_paths :: "path list"
  rr_events :: EventEvidence

text \<open>A log can be missing, not openable, or hold bytes, after which reading may fail.\<close>

datatype logfile = LogMissing | LogDenied | LogBytes string bool

datatype evidence_error =
    LogOpen path | LogRead path | LogDecode path | RecordPathEmpty | RecordMkdir | RecordTemp | RecordWrite
  | RecordOpen | RecordDecode | RecordRunId

definition newline :: char where "newline = CHR 0x0A"

text \<open>\<open>ReadBytes\<close>: the lines with their newline, and a last one without if the file does not end in one.\<close>

fun raw_lines :: "string \<Rightarrow> string list" where
  "raw_lines [] = []"
| "raw_lines (c # cs) =
     (if c = newline then [c] # raw_lines cs
      else (case raw_lines cs of
              [] \<Rightarrow> [[c]]
            | l # ls \<Rightarrow> (c # l) # ls))"

record summary =
  sm_hashed :: string
  sm_count :: "64 word"
  sm_bytes :: "64 word"
  sm_complete :: bool

definition sum_line :: "(string \<Rightarrow> bool) \<Rightarrow> summary \<Rightarrow> string \<Rightarrow> summary" where
  "sum_line valid m line =
     (let m1 = m\<lparr>sm_hashed := sm_hashed m @ line, sm_bytes := sm_bytes m + of_nat (length line)\<rparr> in
      if last line = newline
      then (let m2 = m1\<lparr>sm_count := sm_count m1 + 1\<rparr> in
            if valid (trim_space line) then m2 else m2\<lparr>sm_complete := False\<rparr>)
      else m1\<lparr>sm_complete := False\<rparr>)"

fun sum_files :: "(string \<Rightarrow> bool) \<Rightarrow> (path \<Rightarrow> logfile) \<Rightarrow> summary \<Rightarrow> path list \<Rightarrow> evidence_error + summary" where
  "sum_files valid files m [] = Inr m"
| "sum_files valid files m (p # ps) =
     (if p = [] then sum_files valid files m ps
      else (case files p of
              LogMissing \<Rightarrow> sum_files valid files m ps
            | LogDenied \<Rightarrow> Inl (LogOpen p)
            | LogBytes s broken \<Rightarrow>
                let m' = foldl (sum_line valid) m (raw_lines s) in
                if broken then Inl (LogRead p) else sum_files valid files m' ps))"

definition SummarizeEventsPaths ::
  "(string \<Rightarrow> string) \<Rightarrow> (string \<Rightarrow> bool) \<Rightarrow> (path \<Rightarrow> logfile) \<Rightarrow> path list \<Rightarrow> evidence_error + EventEvidence"
where
  "SummarizeEventsPaths sha valid files ps =
     (if ps = [] \<or> ps = [[]]
      then Inr \<lparr>ee_count = 0, ee_bytes = 0, ee_dropped = 0, ee_truncated = False, ee_sha = [], ee_complete = True\<rparr>
      else and_then (sum_files valid files \<lparr>sm_hashed = [], sm_count = 0, sm_bytes = 0, sm_complete = True\<rparr> ps) (\<lambda>m.
        Inr \<lparr>ee_count = sm_count m, ee_bytes = sm_bytes m, ee_dropped = 0, ee_truncated = False,
             ee_sha = hex_encode (sha (sm_hashed m)), ee_complete = sm_complete m\<rparr>))"

definition SummarizeEvents ::
  "(string \<Rightarrow> string) \<Rightarrow> (string \<Rightarrow> bool) \<Rightarrow> (path \<Rightarrow> logfile) \<Rightarrow> path \<Rightarrow> evidence_error + EventEvidence" where
  "SummarizeEvents sha valid files p = SummarizeEventsPaths sha valid files [p]"

definition EventLogPaths :: "RunRecord \<Rightarrow> path list" where
  "EventLogPaths r = (if rr_paths r \<noteq> [] then rr_paths r else if rr_path r = [] then [] else [rr_path r])"

definition WithDropped :: "EventEvidence \<Rightarrow> 64 word \<Rightarrow> EventEvidence" where
  "WithDropped e d = (let e1 = e\<lparr>ee_dropped := d\<rparr> in if d > 0 then e1\<lparr>ee_complete := False\<rparr> else e1)"

definition WithTruncated :: "EventEvidence \<Rightarrow> bool \<Rightarrow> EventEvidence" where
  "WithTruncated e t = (let e1 = e\<lparr>ee_truncated := t\<rparr> in if t then e1\<lparr>ee_complete := False\<rparr> else e1)"

subsection \<open>Verification\<close>

record Result =
  rs_run :: string
  rs_count :: "64 word"
  rs_bytes :: "64 word"
  rs_dropped :: "64 word"
  rs_truncated :: bool
  rs_complete :: bool
  rs_stream_complete :: bool
  rs_record_complete :: bool
  rs_chain_valid :: bool
  rs_matches :: bool

text \<open>\<open>bufio.ScanLines\<close>: the newline and one carriage return before it are dropped.\<close>

definition scanned_line :: "string \<Rightarrow> string" where
  "scanned_line l =
     (let a = (if l \<noteq> [] \<and> last l = newline then butlast l else l) in
      if a \<noteq> [] \<and> last a = CHR 0x0D then butlast a else a)"

definition max_token :: nat where "max_token = 2097152"

fun decode_lines :: "(string \<Rightarrow> JournalEvent option) \<Rightarrow> path \<Rightarrow> string list \<Rightarrow> evidence_error + JournalEvent list" where
  "decode_lines decode p [] = Inr []"
| "decode_lines decode p (l # ls) =
     (if length (if last l = newline then butlast l else l) \<ge> max_token then Inl (LogRead p)
      else (case decode (scanned_line l) of
              None \<Rightarrow> Inl (LogDecode p)
            | Some j \<Rightarrow> and_then (decode_lines decode p ls) (\<lambda>js. Inr (j # js))))"

fun read_journal :: "(string \<Rightarrow> JournalEvent option) \<Rightarrow> (path \<Rightarrow> logfile) \<Rightarrow> path list \<Rightarrow> evidence_error + JournalEvent list" where
  "read_journal decode files [] = Inr []"
| "read_journal decode files (p # ps) =
     (if p = [] then Inl (LogOpen p) else case files p of
        LogBytes s broken \<Rightarrow>
          and_then (decode_lines decode p (raw_lines s)) (\<lambda>js.
            if broken then Inl (LogRead p)
            else and_then (read_journal decode files ps) (\<lambda>ks. Inr (js @ ks)))
      | _ \<Rightarrow> Inl (LogOpen p))"

definition evidence_Verify ::
  "(string \<Rightarrow> string) \<Rightarrow> (string \<Rightarrow> bool) \<Rightarrow> (string \<Rightarrow> JournalEvent option) \<Rightarrow> (path \<Rightarrow> logfile) \<Rightarrow> RunRecord \<Rightarrow>
     evidence_error + Result"
where
  "evidence_Verify sha valid decode files r =
     and_then (read_journal decode files (EventLogPaths r)) (\<lambda>journal.
     and_then (SummarizeEventsPaths sha valid files (EventLogPaths r)) (\<lambda>e.
       let chainValid = chain_Verify sha journal; ev = rr_events r;
           matches = (ee_count e = ee_count ev \<and> ee_bytes e = ee_bytes ev \<and> ee_sha e = ee_sha ev \<and>
                      ee_complete e = ee_complete ev)
       in Inr \<lparr>rs_run = run_id (rp_run (rr_plan r)), rs_count = ee_count e, rs_bytes = ee_bytes e,
              rs_dropped = ee_dropped ev, rs_truncated = ee_truncated ev,
              rs_complete = (ee_complete e \<and> ee_complete ev \<and> ee_dropped ev = 0 \<and> \<not> ee_truncated ev \<and>
                             chainValid \<and> matches),
              rs_stream_complete = ee_complete e, rs_record_complete = ee_complete ev,
              rs_chain_valid = chainValid, rs_matches = matches\<rparr>))"

subsection \<open>The record file\<close>

text \<open>\<open>Write\<close> replaces the record by a renamed temporary file; \<open>steps\<close> says which call fails.\<close>

datatype record_file = NoRecord | BrokenRecord | StoredRecord RunRecord

definition record_Write ::
  "bool \<Rightarrow> bool \<Rightarrow> bool \<Rightarrow> bool \<Rightarrow> path \<Rightarrow> RunRecord \<Rightarrow> record_file \<Rightarrow> record_file \<times> evidence_error option"
where
  "record_Write mkdir_ok temp_ok write_ok chown_ok p r f =
     (if p = [] then (f, Some RecordPathEmpty)
      else if \<not> mkdir_ok then (f, Some RecordMkdir)
      else if \<not> temp_ok then (f, Some RecordTemp)
      else if \<not> write_ok then (f, Some RecordWrite)
      else (StoredRecord r, if chown_ok then None else Some RecordWrite))"

definition record_Read :: "record_file \<Rightarrow> evidence_error + RunRecord" where
  "record_Read f =
     (case f of
        NoRecord \<Rightarrow> Inl RecordOpen
      | BrokenRecord \<Rightarrow> Inl RecordDecode
      | StoredRecord r \<Rightarrow> if run_id (rp_run (rr_plan r)) = [] then Inl RecordRunId else Inr r)"

subsection \<open>Lines\<close>

lemma concat_raw_lines: "concat (raw_lines s) = s"
  by (induction s) (auto split: list.splits)

lemma raw_lines_line: "newline \<notin> set l \<Longrightarrow> raw_lines (l @ newline # r) = (l @ [newline]) # raw_lines r"
  by (induction l) auto

lemma raw_lines_lines:
  "\<forall>l \<in> set ls. newline \<notin> set l \<Longrightarrow> raw_lines (concat (map (\<lambda>l. l @ [newline]) ls)) = map (\<lambda>l. l @ [newline]) ls"
proof (induction ls)
  case (Cons l ls)
  then show ?case using raw_lines_line [of l "concat (map (\<lambda>l. l @ [newline]) ls)"] by simp
qed simp

lemma hex_digit_plain: "n < 16 \<Longrightarrow> hex_digit n \<noteq> newline"
  using hex_digit_hex [of n] by (auto simp: hex_chars_def newline_def)

lemma hex4_plain: "newline \<notin> set (hex4 n)"
  using hex_digit_plain [THEN not_sym] by (simp add: hex4_def)

lemma json_byte_plain: "newline \<notin> set (json_byte c)"
  using hex4_plain by (auto simp: json_byte_def newline_def)

lemma decode_rune_conts:
  assumes "128 \<le> byte_val c" and "\<not> (fst (decode_rune (c # cs)) = 65533 \<and> snd (decode_rune (c # cs)) = 1)"
  shows "\<forall>d \<in> set (take (snd (decode_rune (c # cs))) (c # cs)). 128 \<le> byte_val d"
  using assms by (auto simp: decode_rune_def Let_def is_cont_def split: list.splits if_splits)

lemma json_piece_plain: "128 \<le> byte_val c \<Longrightarrow> newline \<notin> set (json_piece (c # cs))"
proof -
  assume c: "128 \<le> byte_val c"
  obtain r n where rn: "decode_rune (c # cs) = (r, n)" by fastforce
  have "byte_val newline < 128" by (simp add: newline_def byte_val_def)
  then have "newline \<notin> set (take n (c # cs))" if "\<not> (r = 65533 \<and> n = 1)"
    using decode_rune_conts [OF c, of cs] that rn by (auto simp del: One_nat_def)
  moreover have "newline \<notin> set ([CHR 0x5C, CHR ''u''] @ hex4 k)" for k
    using hex4_plain by (simp add: newline_def)
  ultimately show ?thesis unfolding json_piece_def rn Let_def prod.case by (simp only: split: if_split) blast
qed

lemma json_escape_plain: "newline \<notin> set (json_escape s)"
proof (induction s rule: json_escape.induct)
  case (2 c cs)
  show ?case
  proof (cases "byte_val c < 128")
    case True
    then show ?thesis using 2(1) json_byte_plain by simp
  next
    case False
    obtain r n where rn: "decode_rune (c # cs) = (r, n)" by fastforce
    have "newline \<notin> set (json_escape (drop n (c # cs)))" using 2(2) [OF False rn [symmetric] refl] .
    moreover have "json_escape (c # cs) = json_piece (c # cs) @ json_escape (drop n (c # cs))"
      using False json_escape_piece [of c cs] by (simp add: rn)
    ultimately show ?thesis using json_piece_plain [of c cs] False by (simp del: json_escape.simps)
  qed
qed simp

lemma show_nat_plain: "newline \<notin> set (show_nat n)"
proof (induction n rule: show_nat.induct)
  case (1 n)
  have "newline \<noteq> char_of (48 + k)" if "k < 10" for k :: nat
  proof
    assume "newline = char_of (48 + k)"
    then have "of_char (char_of (48 + k) :: char) = (of_char newline :: nat)" by simp
    then show False using that by (simp add: newline_def)
  qed
  then show ?case using 1 by (subst show_nat.simps) auto
qed

lemma marshal_plain: "newline \<notin> set (marshal j)" "marshal j \<noteq> []" "last (marshal j) = CHR ''}''"
  using json_escape_plain show_nat_plain
  by (auto simp: marshal_def Let_def json_field_def json_string_def newline_def)

subsection \<open>Complete evidence\<close>

lemma journal_lines: "journal_line j = marshal j @ [newline]"
  by (simp add: journal_line_def newline_def)

lemma raw_journal: "raw_lines (concat (map journal_line js)) = map journal_line js"
proof -
  have "journal_line = (\<lambda>j. marshal j @ [newline])" by (simp add: fun_eq_iff journal_lines)
  then show ?thesis using raw_lines_lines [of "map marshal js"] marshal_plain(1) by (simp add: comp_def)
qed

lemma scanned_journal: "scanned_line (journal_line j) = marshal j"
  using marshal_plain [of j] by (simp add: scanned_line_def journal_lines)

lemma decode_journal:
  assumes "\<forall>j \<in> set js. decode (marshal j) = Some j \<and> length (marshal j) < max_token"
  shows "decode_lines decode p (map journal_line js) = Inr js"
  using assms by (induction js) (simp_all add: scanned_journal, simp add: journal_lines)

text \<open>A rotated journal: each file holds the lines of its part.\<close>

definition holds_part :: "(path \<Rightarrow> logfile) \<Rightarrow> path \<Rightarrow> JournalEvent list \<Rightarrow> bool" where
  "holds_part files p part = (p \<noteq> [] \<and> files p = LogBytes (concat (map journal_line part)) False)"

lemma read_rotated:
  assumes "list_all2 (holds_part files) ps parts"
    and "\<forall>j \<in> set (concat parts). decode (marshal j) = Some j \<and> length (marshal j) < max_token"
  shows "read_journal decode files ps = Inr (concat parts)"
  using assms
  by (induction rule: list_all2_induct) (auto simp: holds_part_def raw_journal decode_journal)

lemma sum_journal:
  assumes "\<forall>j \<in> set js. valid (trim_space (journal_line j))"
  shows "foldl (sum_line valid) m (map journal_line js) =
    m\<lparr>sm_hashed := sm_hashed m @ concat (map journal_line js), sm_count := sm_count m + of_nat (length js),
      sm_bytes := sm_bytes m + of_nat (length (concat (map journal_line js)))\<rparr>"
  using assms
proof (induction js arbitrary: m)
  case (Cons j js)
  have "last (journal_line j) = newline" by (simp add: journal_lines)
  then show ?case using Cons by (simp add: sum_line_def Let_def add.assoc)
qed simp

lemma sum_rotated:
  assumes "list_all2 (holds_part files) ps parts" and "\<forall>j \<in> set (concat parts). valid (trim_space (journal_line j))"
  shows "sum_files valid files m ps = Inr (m\<lparr>sm_hashed := sm_hashed m @ concat (map journal_line (concat parts)),
      sm_count := sm_count m + of_nat (length (concat parts)),
      sm_bytes := sm_bytes m + of_nat (length (concat (map journal_line (concat parts))))\<rparr>)"
  using assms
proof (induction arbitrary: m rule: list_all2_induct)
  case (Cons p ps part parts)
  then have "files p = LogBytes (concat (map journal_line part)) False" "p \<noteq> []"
    by (simp_all add: holds_part_def)
  moreover have "\<forall>j \<in> set part. valid (trim_space (journal_line j))" using Cons.prems by simp
  ultimately show ?case using Cons.IH Cons.prems by (simp add: raw_journal sum_journal Let_def add.assoc)
qed simp

text \<open>
  Evidence that nobody touched is recognised: when the writer's lines, one file per rotation,
  lie in the logs the record names, and the record holds their summary with nothing dropped or
  truncated, verification succeeds and reports the run's evidence as complete.
\<close>

theorem untouched_evidence_is_complete:
  assumes "append_all sha new_chain es = Inr (c, concat parts)"
    and "EventLogPaths r = ps" and "ps \<noteq> []" and "list_all2 (holds_part files) ps parts"
    and "\<forall>j \<in> set (concat parts). decode (marshal j) = Some j \<and> length (marshal j) < max_token \<and>
           valid (trim_space (journal_line j))"
    and "SummarizeEventsPaths sha valid files ps = Inr e"
    and "rr_events r = WithTruncated (WithDropped e 0) False"
  shows "\<exists>res. evidence_Verify sha valid decode files r = Inr res \<and> rs_complete res \<and> rs_matches res \<and>
     rs_count res = of_nat (length es)"
proof -
  have ne: "ps \<noteq> [[]]" using assms(4) by (auto simp: holds_part_def list_all2_Cons1)
  have j: "read_journal decode files ps = Inr (concat parts)" using assms(4,5) by (intro read_rotated) auto
  have s: "sum_files valid files m ps = Inr (m\<lparr>sm_hashed := sm_hashed m @ concat (map journal_line (concat parts)),
      sm_count := sm_count m + of_nat (length (concat parts)),
      sm_bytes := sm_bytes m + of_nat (length (concat (map journal_line (concat parts))))\<rparr>)" for m
    using assms(4,5) by (intro sum_rotated) auto
  have e: "ee_complete e" "ee_count e = of_nat (length (concat parts))" "ee_dropped e = 0" "\<not> ee_truncated e"
    using assms(6) ne assms(3) by (auto simp: SummarizeEventsPaths_def s)
  have ev: "rr_events r = e"
    using e(3,4) unfolding assms(7) WithTruncated_def WithDropped_def by (cases e) simp
  have "length (concat parts) = length es"
  proof -
    have "append_all sha c0 es = Inr (c1, js) \<Longrightarrow> length js = length es" for c0 c1 js
      by (induction es arbitrary: c0 js) auto
    then show ?thesis using assms(1) .
  qed
  moreover have "chain_Verify sha (concat parts)" using append_all_verifies [OF assms(1)] by (simp add: chain_Verify_def)
  ultimately show ?thesis
    using e unfolding evidence_Verify_def assms(2) by (simp add: j assms(6) ev Let_def)
qed

theorem untouched_evidence_is_complete_witness:
  "\<exists>j e. append_all demo_sha new_chain [demo_event ''/k''] = Inr (\<lparr>c_next = 1, c_prev = j_hash j\<rparr>, [j]) \<and>
     (\<forall>plan. \<exists>res. evidence_Verify demo_sha (\<lambda>_. True) (\<lambda>_. Some j)
        ((\<lambda>_. LogMissing)(''/a'' := LogBytes (journal_line j) False, ''/b'' := LogBytes [] False))
        \<lparr>rr_plan = plan, rr_path = [], rr_paths = [''/a'', ''/b''], rr_events = e\<rparr> = Inr res \<and> rs_complete res)"
proof -
  obtain c j where a: "Chain_Append demo_sha new_chain (demo_event ''/k'') = Inr (c, j)" using demo_append by blast
  have all: "append_all demo_sha new_chain [demo_event ''/k''] = Inr (c, concat [[j], []])" by (simp add: a)
  let ?files = "(\<lambda>_. LogMissing)(''/a'' := LogBytes (journal_line j) False, ''/b'' := LogBytes [] False)"
  have l: "length (marshal j) < max_token"
    using demo_line_bounds [OF a] by (simp add: journal_line_def max_token_def new_chain_def)
  have h: "list_all2 (holds_part ?files) [''/a'', ''/b''] [[j], []]" by (simp add: holds_part_def)
  obtain e where e: "SummarizeEventsPaths demo_sha (\<lambda>_. True) ?files [''/a'', ''/b''] = Inr e"
    by (simp add: SummarizeEventsPaths_def Let_def)
  have "\<exists>res. evidence_Verify demo_sha (\<lambda>_. True) (\<lambda>_. Some j) ?files
      \<lparr>rr_plan = plan, rr_path = [], rr_paths = [''/a'', ''/b''], rr_events = WithTruncated (WithDropped e 0) False\<rparr> = Inr res \<and>
      rs_complete res" for plan
    using untouched_evidence_is_complete [OF all _ _ h _ e, where decode = "\<lambda>_. Some j" and
        r = "\<lparr>rr_plan = plan, rr_path = [], rr_paths = [''/a'', ''/b''], rr_events = WithTruncated (WithDropped e 0) False\<rparr>"] l
    by (auto simp: EventLogPaths_def)
  moreover have "c = \<lparr>c_next = 1, c_prev = j_hash j\<rparr>" using Chain_Append_Inr [OF a] by (simp add: new_chain_def)
  ultimately show ?thesis using all by auto
qed

subsection \<open>Changed evidence\<close>

definition log_bytes :: "(path \<Rightarrow> logfile) \<Rightarrow> path list \<Rightarrow> string" where
  "log_bytes files ps = concat (map (\<lambda>p. if p = [] then [] else case files p of LogBytes s _ \<Rightarrow> s | _ \<Rightarrow> []) ps)"

lemma sum_line_hashed: "sm_hashed (foldl (sum_line valid) m ls) = sm_hashed m @ concat ls"
proof (induction ls arbitrary: m)
  case (Cons l ls)
  have "sm_hashed (sum_line valid m l) = sm_hashed m @ l" by (simp add: sum_line_def Let_def)
  then show ?case using Cons by simp
qed simp

lemma sum_files_hashed: "sum_files valid files m ps = Inr m' \<Longrightarrow> sm_hashed m' = sm_hashed m @ log_bytes files ps"
proof (induction ps arbitrary: m)
  case (Cons p ps)
  then show ?case
    by (cases "p = []"; cases "files p")
      (auto simp: log_bytes_def Let_def sum_line_hashed concat_raw_lines split: if_splits)
qed (simp add: log_bytes_def)

lemma summary_sha:
  "SummarizeEventsPaths sha valid files ps = Inr e \<Longrightarrow> ps \<noteq> [] \<Longrightarrow> ps \<noteq> [[]] \<Longrightarrow>
     ee_sha e = hex_encode (sha (log_bytes files ps))"
  by (auto simp: SummarizeEventsPaths_def dest!: sum_files_hashed)

text \<open>
  Evidence that matches its record is the evidence that was recorded: if the logs, whatever
  happened to them, match a record whose digest was taken from the original logs, they hold the
  same bytes, unless the two contents collide under the hash.
\<close>

theorem matching_evidence_is_original:
  assumes "SummarizeEventsPaths sha valid original (EventLogPaths r) = Inr e" and "ee_sha (rr_events r) = ee_sha e"
    and "evidence_Verify sha valid decode files r = Inr res" and "rs_matches res"
    and "EventLogPaths r \<noteq> []" and "EventLogPaths r \<noteq> [[]]"
    and "inj_on sha {log_bytes original (EventLogPaths r), log_bytes files (EventLogPaths r)}"
  shows "log_bytes files (EventLogPaths r) = log_bytes original (EventLogPaths r)"
proof -
  from assms(3,4) obtain e' where e': "SummarizeEventsPaths sha valid files (EventLogPaths r) = Inr e'"
    "ee_sha e' = ee_sha (rr_events r)"
    by (auto simp: evidence_Verify_def Let_def)
  then have "hex_encode (sha (log_bytes files (EventLogPaths r))) = hex_encode (sha (log_bytes original (EventLogPaths r)))"
    using summary_sha [OF assms(1,5,6)] summary_sha [OF e'(1) assms(5,6)] assms(2) by simp
  then have "sha (log_bytes files (EventLogPaths r)) = sha (log_bytes original (EventLogPaths r))"
    by (rule hex_encode_inj)
  then show ?thesis using inj_onD [OF assms(7)] by blast
qed

theorem matching_evidence_is_original_witness:
  "log_bytes ((\<lambda>_. LogMissing)(''/a'' := LogBytes [] False, ''/b'' := LogBytes [newline] False)) [''/a'', ''/b''] =
   log_bytes ((\<lambda>_. LogMissing)(''/a'' := LogBytes [newline] False, ''/b'' := LogBytes [] False)) [''/a'', ''/b'']"
  (is "log_bytes ?files ?ps = log_bytes ?orig ?ps")
proof -
  fix plan j
  define e where "e = \<lparr>ee_count = 1, ee_bytes = 1, ee_dropped = 0, ee_truncated = False,
    ee_sha = hex_encode (demo_sha [newline]), ee_complete = True\<rparr>"
  define r where "r = \<lparr>rr_plan = plan, rr_path = [], rr_paths = ?ps, rr_events = e\<rparr>"
  have p: "EventLogPaths r = ?ps" by (simp add: EventLogPaths_def r_def)
  have s: "SummarizeEventsPaths demo_sha (\<lambda>_. True) ?orig (EventLogPaths r) = Inr e"
    "SummarizeEventsPaths demo_sha (\<lambda>_. True) ?files (EventLogPaths r) = Inr e"
    by (simp_all add: p SummarizeEventsPaths_def e_def sum_line_def newline_def)
  have rj: "read_journal (\<lambda>_. Some j) ?files (EventLogPaths r) = Inr [j]"
    unfolding p by (simp add: max_token_def)
  obtain res where v: "evidence_Verify demo_sha (\<lambda>_. True) (\<lambda>_. Some j) ?files r = Inr res" and m: "rs_matches res"
    using s(2) rj by (simp add: evidence_Verify_def Let_def) (simp add: r_def)
  have i: "inj_on demo_sha {log_bytes ?orig (EventLogPaths r), log_bytes ?files (EventLogPaths r)}"
    by (simp add: p log_bytes_def)
  show ?thesis
    using matching_evidence_is_original [OF s(1) _ v m _ _ i] unfolding p by (simp add: r_def)
qed

text \<open>
  A record marked as dropped or truncated never matches, not even against the very logs it
  was made from: the completeness of the stream is compared with the flag the marks have cleared,
  so for such a run an intact log looks like a changed one.
\<close>

theorem marked_evidence_never_matches:
  assumes "SummarizeEventsPaths sha valid files (EventLogPaths r) = Inr e" and "ee_complete e"
    and "rr_events r = WithTruncated (WithDropped e d) t" and "t \<or> 0 < d"
    and "evidence_Verify sha valid decode files r = Inr res"
  shows "rs_count res = ee_count (rr_events r) \<and> rs_bytes res = ee_bytes (rr_events r) \<and> \<not> rs_matches res"
proof -
  have "\<not> ee_complete (rr_events r)" "ee_count (rr_events r) = ee_count e" "ee_bytes (rr_events r) = ee_bytes e"
    using assms(3,4) by (auto simp: WithTruncated_def WithDropped_def Let_def)
  then show ?thesis using assms(1,2,5) by (auto simp: evidence_Verify_def Let_def)
qed

theorem marked_evidence_never_matches_witness:
  "\<forall>plan. \<exists>res. evidence_Verify demo_sha (\<lambda>_. True) (\<lambda>_. None) (\<lambda>_. LogBytes [] False)
      \<lparr>rr_plan = plan, rr_path = ''/a'', rr_paths = [], rr_events = WithTruncated
         \<lparr>ee_count = 0, ee_bytes = 0, ee_dropped = 0, ee_truncated = False, ee_sha = hex_encode (demo_sha []), ee_complete = True\<rparr>
         True\<rparr> = Inr res \<and> \<not> rs_matches res"
proof
  fix plan
  define e where "e = \<lparr>ee_count = 0, ee_bytes = 0, ee_dropped = 0, ee_truncated = False,
    ee_sha = hex_encode (demo_sha []), ee_complete = True\<rparr>"
  define r where "r = \<lparr>rr_plan = plan, rr_path = ''/a'', rr_paths = [], rr_events = WithTruncated e True\<rparr>"
  have p: "EventLogPaths r = [''/a'']" by (simp add: EventLogPaths_def r_def)
  have s: "SummarizeEventsPaths demo_sha (\<lambda>_. True) (\<lambda>_. LogBytes [] False) (EventLogPaths r) = Inr e"
    by (simp add: p SummarizeEventsPaths_def e_def)
  have w: "rr_events r = WithTruncated (WithDropped e 0) True" by (simp add: r_def e_def WithDropped_def Let_def)
  obtain res where v: "evidence_Verify demo_sha (\<lambda>_. True) (\<lambda>_. None) (\<lambda>_. LogBytes [] False) r = Inr res"
    using s by (simp add: evidence_Verify_def p Let_def)
  have "ee_complete e" by (simp add: e_def)
  from marked_evidence_never_matches [OF s this w _ v] have "\<not> rs_matches res" by simp
  then show "\<exists>res. evidence_Verify demo_sha (\<lambda>_. True) (\<lambda>_. None) (\<lambda>_. LogBytes [] False)
      \<lparr>rr_plan = plan, rr_path = ''/a'', rr_paths = [], rr_events = WithTruncated
         \<lparr>ee_count = 0, ee_bytes = 0, ee_dropped = 0, ee_truncated = False, ee_sha = hex_encode (demo_sha []), ee_complete = True\<rparr>
         True\<rparr> = Inr res \<and> \<not> rs_matches res"
    using v unfolding r_def e_def by blast
qed

end
