(* ===== verification/Sessions.thy ===== *)
theory Sessions
  imports Go_Base "HOL-Library.Word"
begin

text \<open>
  \<open>internal/session/store.go\<close>: short-lived leases that say which operator owns a run, in one JSON
  file guarded by a lock file.  Times are nanoseconds; the zero time is \<open>None\<close>.  The file holds the
  decoded list of leases, the codec being the identity on it.  What the lock file looks like at
  each attempt, which calls on the file fail, the clock and the random identifier are the
  environment.  A duration is a signed 64-bit number of nanoseconds.
\<close>

record Lease =
  ls_id :: string
  ls_run :: string
  ls_owner :: string
  ls_created :: int
  ls_updated :: int
  ls_expires :: int

record SessionRequest =
  sr_action :: string
  sr_run :: string
  sr_owner :: string
  sr_ttl :: int

datatype sfile = SMissing | SUnreadable | SGarbled | SLeases "Lease list"

datatype session_error =
    SessionPathRequired | SessionRead | SessionDecode | SessionFields | TtlTooLong | SessionMkdir
  | LockCreate | StoreBusy | OwnedBy string int | HeartbeatRefused | ReleaseRefused
  | BadAction string | SessionRandom | SessionWrite

text \<open>One look at the lock file: created, not creatable, older than 30 seconds, or held by another,
  with the deadline of two seconds passed or not.\<close>

datatype lock_look = LockCreated | LockFails | LockStale | LockHeld bool

record session_env =
  se_mkdir_ok :: bool
  se_lock :: "nat \<Rightarrow> lock_look"
  se_write_ok :: bool
  se_clock :: int
  se_random :: "string option"

record SessionStore =
  ss_path :: path
  ss_file :: sfile

definition listAt :: "SessionStore \<Rightarrow> int \<Rightarrow> session_error + Lease list" where
  "listAt s now =
     (if ss_path s = [] then Inl SessionPathRequired
      else (case ss_file s of
              SMissing \<Rightarrow> Inr []
            | SUnreadable \<Rightarrow> Inl SessionRead
            | SGarbled \<Rightarrow> Inl SessionDecode
            | SLeases ls \<Rightarrow> Inr (filter (\<lambda>l. now < ls_expires l) ls)))"

text \<open>One round of the loop around the lock file; \<open>None\<close> goes on.  A stale lock is removed and the
  loop goes on without looking at the deadline.\<close>

definition lock_try :: "lock_look \<Rightarrow> session_error option option" where
  "lock_try look =
     (case look of
        LockCreated \<Rightarrow> Some None
      | LockFails \<Rightarrow> Some (Some LockCreate)
      | LockStale \<Rightarrow> None
      | LockHeld late \<Rightarrow> if late then Some (Some StoreBusy) else None)"

text \<open>\<open>None\<close> is a call that never returns.\<close>

definition lockFile :: "session_env \<Rightarrow> SessionStore \<Rightarrow> session_error option option" where
  "lockFile env s =
     (if blank (ss_path s) then Some (Some SessionPathRequired)
      else if \<not> se_mkdir_ok env then Some (Some SessionMkdir)
      else poll (\<lambda>n. lock_try (se_lock env n)) 0)"

definition session_write :: "session_env \<Rightarrow> SessionStore \<Rightarrow> Lease list \<Rightarrow> SessionStore \<times> session_error option" where
  "session_write env s ls =
     (if ss_path s = [] then (s, Some SessionPathRequired)
      else if \<not> se_mkdir_ok env then (s, Some SessionMkdir)
      else if \<not> se_write_ok env then (s, Some SessionWrite)
      else (s\<lparr>ss_file := SLeases ls\<rparr>, None))"

definition newID :: "session_env \<Rightarrow> session_error + string" where
  "newID env = (case se_random env of None \<Rightarrow> Inl SessionRandom | Some bytes \<Rightarrow> Inr (hex_encode bytes))"

definition second :: int where "second = 1000000000"

text \<open>\<open>time.Duration(request.TTL) * time.Second\<close>, with the product taken in 64 bits.\<close>

definition ttl_of :: "int \<Rightarrow> int" where
  "ttl_of t = (let d = sint (word_of_int (t * second) :: 64 word) in if d \<le> 0 then 600 * second else d)"

definition max_ttl :: int where "max_ttl = 86400 * second"

definition stored :: "SessionStore \<times> session_error option \<Rightarrow> Lease \<Rightarrow> SessionStore \<times> (session_error + Lease)" where
  "stored r l = (case r of (s, None) \<Rightarrow> (s, Inr l) | (s, Some e) \<Rightarrow> (s, Inl e))"

definition renew :: "int \<Rightarrow> int \<Rightarrow> Lease \<Rightarrow> Lease" where
  "renew now ttl l = l\<lparr>ls_updated := now, ls_expires := now + ttl\<rparr>"

definition fresh_lease :: "SessionRequest \<Rightarrow> string \<Rightarrow> int \<Rightarrow> int \<Rightarrow> Lease" where
  "fresh_lease r i now ttl = \<lparr>ls_id = i, ls_run = sr_run r, ls_owner = sr_owner r,
     ls_created = now, ls_updated = now, ls_expires = now + ttl\<rparr>"

text \<open>The switch of \<open>Apply\<close> on the live leases and the index of the run's lease among them.\<close>

definition apply_action ::
  "session_env \<Rightarrow> SessionStore \<Rightarrow> SessionRequest \<Rightarrow> int \<Rightarrow> int \<Rightarrow> Lease list \<Rightarrow> nat option \<Rightarrow>
     SessionStore \<times> (session_error + Lease)" where
  "apply_action env s r now ttl ls index =
     (if sr_action r = ''acquire'' then
        (case index of
           Some i \<Rightarrow>
             if ls_owner (ls ! i) \<noteq> sr_owner r then (s, Inl (OwnedBy (ls_owner (ls ! i)) (ls_expires (ls ! i))))
             else stored (session_write env s (ls[i := renew now ttl (ls ! i)])) (renew now ttl (ls ! i))
         | None \<Rightarrow>
             (case newID env of
                Inl e \<Rightarrow> (s, Inl e)
              | Inr n \<Rightarrow> stored (session_write env s (ls @ [fresh_lease r n now ttl])) (fresh_lease r n now ttl)))
      else if sr_action r = ''heartbeat'' then
        (case index of
           None \<Rightarrow> (s, Inl HeartbeatRefused)
         | Some i \<Rightarrow>
             if ls_owner (ls ! i) \<noteq> sr_owner r then (s, Inl HeartbeatRefused)
             else stored (session_write env s (ls[i := renew now ttl (ls ! i)])) (renew now ttl (ls ! i)))
      else if sr_action r = ''takeover'' then
        (case newID env of
           Inl e \<Rightarrow> (s, Inl e)
         | Inr n \<Rightarrow>
             stored (session_write env s
               (case index of Some i \<Rightarrow> ls[i := fresh_lease r n now ttl] | None \<Rightarrow> ls @ [fresh_lease r n now ttl]))
               (fresh_lease r n now ttl))
      else if sr_action r = ''release'' then
        (case index of
           None \<Rightarrow> (s, Inl ReleaseRefused)
         | Some i \<Rightarrow>
             if ls_owner (ls ! i) \<noteq> sr_owner r then (s, Inl ReleaseRefused)
             else stored (session_write env s (take i ls @ drop (Suc i) ls)) (ls ! i))
      else (s, Inl (BadAction (sr_action r))))"

text \<open>\<open>Apply\<close>; the outer \<open>None\<close> is a call that never returns, from \<open>lockFile\<close>.\<close>

definition session_Apply ::
  "session_env \<Rightarrow> SessionStore \<Rightarrow> SessionRequest \<Rightarrow> int option \<Rightarrow>
     (SessionStore \<times> (session_error + Lease)) option" where
  "session_Apply env s r when =
     (let now = (case when of None \<Rightarrow> se_clock env | Some t \<Rightarrow> t); ttl = ttl_of (sr_ttl r) in
      if blank (sr_run r) \<or> blank (sr_owner r) then Some (s, Inl SessionFields)
      else if ttl > max_ttl then Some (s, Inl TtlTooLong)
      else (case lockFile env s of
              None \<Rightarrow> None
            | Some (Some e) \<Rightarrow> Some (s, Inl e)
            | Some None \<Rightarrow>
                (case listAt s now of
                   Inl e \<Rightarrow> Some (s, Inl e)
                 | Inr ls \<Rightarrow>
                     Some (apply_action env s r now ttl ls (index_where (\<lambda>l. ls_run l = sr_run r) ls)))))"

definition session_List :: "session_env \<Rightarrow> SessionStore \<Rightarrow> (session_error + Lease list) option" where
  "session_List env s =
     (case lockFile env s of
        None \<Rightarrow> None
      | Some (Some e) \<Rightarrow> Some (Inl e)
      | Some None \<Rightarrow> Some (listAt s (se_clock env)))"

subsection \<open>The lock\<close>

lemma lock_goes_on: "lock_try look = None \<longleftrightarrow> look = LockStale \<or> look = LockHeld False"
  by (auto simp: lock_try_def split: lock_look.splits if_splits)


subsection \<open>Leases\<close>

text \<open>What a store promises: at a time, each run has at most one live lease.\<close>

definition live_leases :: "SessionStore \<Rightarrow> int \<Rightarrow> Lease list" where
  "live_leases s now = (case ss_file s of SLeases ls \<Rightarrow> filter (\<lambda>l. now < ls_expires l) ls | _ \<Rightarrow> [])"

definition live_lease :: "SessionStore \<Rightarrow> int \<Rightarrow> string \<Rightarrow> Lease option" where
  "live_lease s now = lookup_by ls_run (live_leases s now)"

definition wf_sessions :: "SessionStore \<Rightarrow> bool" where
  "wf_sessions s = (case ss_file s of SLeases ls \<Rightarrow> distinct (map ls_run ls) | _ \<Rightarrow> True)"

lemma listAt_live: "listAt s now = Inr ls \<Longrightarrow> ls = live_leases s now"
  by (auto simp: listAt_def live_leases_def split: if_splits sfile.splits)

lemma wf_live: "wf_sessions s \<Longrightarrow> distinct (map ls_run (live_leases s now))"
  by (auto simp: wf_sessions_def live_leases_def distinct_map inj_on_def split: sfile.splits)

lemma live_after: "now < ls_expires l \<Longrightarrow> l \<in> set (live_leases s now) \<Longrightarrow> now < ls_expires l"
  by simp

lemma set_live: "l \<in> set (live_leases s now) \<Longrightarrow> now < ls_expires l"
  by (auto simp: live_leases_def split: sfile.splits)

lemma session_write_cases:
  "session_write env s ls = (s', e) \<Longrightarrow> e = None \<and> s' = s\<lparr>ss_file := SLeases ls\<rparr> \<or> e \<noteq> None \<and> s' = s"
  by (auto simp: session_write_def split: if_splits)

lemma stored_write:
  "stored (session_write env s ls) l = (s', x) \<Longrightarrow> x = Inr l \<and> s' = s\<lparr>ss_file := SLeases ls\<rparr> \<or> (\<exists>e. x = Inl e) \<and> s' = s"
  by (auto simp: stored_def session_write_def split: if_splits)

lemma ttl_of_pos: "0 < ttl_of t"
  by (simp add: ttl_of_def Let_def second_def)

lemma live_stored: "\<forall>l \<in> set ls. now < ls_expires l \<Longrightarrow> live_leases (s\<lparr>ss_file := SLeases ls\<rparr>) now = ls"
  by (simp add: live_leases_def filter_id_conv)

lemma all_live: "\<forall>l \<in> set (live_leases s now). now < ls_expires l"
  using set_live by blast

lemma renew_simps [simp]:
  "ls_run (renew now ttl l) = ls_run l" "ls_owner (renew now ttl l) = ls_owner l"
  "ls_expires (renew now ttl l) = now + ttl"
  by (simp_all add: renew_def)

lemma fresh_simps [simp]:
  "ls_run (fresh_lease r i now ttl) = sr_run r" "ls_owner (fresh_lease r i now ttl) = sr_owner r"
  "ls_expires (fresh_lease r i now ttl) = now + ttl"
  by (simp_all add: fresh_lease_def)

text \<open>What a successful call did to the leases that are alive at its time.\<close>

definition leased :: "SessionStore \<Rightarrow> SessionStore \<Rightarrow> SessionRequest \<Rightarrow> int \<Rightarrow> Lease \<Rightarrow> bool" where
  "leased s s' r now l =
     (wf_sessions s' \<and>
      live_lease s' now = (live_lease s now)(sr_run r := if sr_action r = ''release'' then None else Some l) \<and>
      ls_run l = sr_run r \<and> ls_owner l = sr_owner r \<and>
      (sr_action r \<noteq> ''takeover'' \<longrightarrow> (\<forall>k. live_lease s now (sr_run r) = Some k \<longrightarrow> ls_owner k = sr_owner r)) \<and>
      (sr_action r \<noteq> ''release'' \<longrightarrow> now < ls_expires l \<and> ls_expires l \<le> now + max_ttl))"

lemma leased_renew:
  assumes "wf_sessions s" and "ls = live_leases s now" and "index_where (\<lambda>l. ls_run l = sr_run r) ls = Some i"
    and "ls_run l = sr_run r" and "ls_owner l = sr_owner r" and "ls_expires l = now + ttl" and "0 < ttl" and "ttl \<le> max_ttl"
    and "sr_action r \<noteq> ''release''" and "sr_action r = ''takeover'' \<or> ls_owner (ls ! i) = sr_owner r"
  shows "leased s (s\<lparr>ss_file := SLeases (ls[i := l])\<rparr>) r now l"
proof -
  note i = index_where_Some [OF assms(3)]
  have live: "\<forall>k \<in> set (ls[i := l]). now < ls_expires k"
    using set_update_subset_insert [of ls i l] all_live [of s now] assms(2,6,7) by auto
  have "map ls_run (ls[i := l]) = map ls_run ls" using i assms(4) by (intro list_update_map_key) auto
  then have "wf_sessions (s\<lparr>ss_file := SLeases (ls[i := l])\<rparr>)"
    using wf_live [OF assms(1), of now] assms(2) by (simp add: wf_sessions_def)
  moreover have "live_lease (s\<lparr>ss_file := SLeases (ls[i := l])\<rparr>) now = (live_lease s now)(sr_run r := Some l)"
    unfolding live_lease_def live_stored [OF live]
    using lookup_by_update [OF assms(3,4)] assms(2) by (auto simp: fun_eq_iff)
  moreover have "live_lease s now (sr_run r) = Some (ls ! i)"
    using lookup_by_index [OF assms(3)] assms(2) by (simp add: live_lease_def)
  ultimately show ?thesis using assms(4-10) by (auto simp: leased_def)
qed

lemma leased_add:
  assumes "wf_sessions s" and "ls = live_leases s now" and "index_where (\<lambda>l. ls_run l = sr_run r) ls = None"
    and "ls_run l = sr_run r" and "ls_owner l = sr_owner r" and "ls_expires l = now + ttl" and "0 < ttl" and "ttl \<le> max_ttl"
    and "sr_action r \<noteq> ''release''"
  shows "leased s (s\<lparr>ss_file := SLeases (ls @ [l])\<rparr>) r now l"
proof -
  have live: "\<forall>k \<in> set (ls @ [l]). now < ls_expires k" using all_live [of s now] assms(2,6,7) by auto
  have none: "\<forall>k \<in> set ls. ls_run k \<noteq> sr_run r" using assms(3) by (simp add: index_where_None)
  then have "wf_sessions (s\<lparr>ss_file := SLeases (ls @ [l])\<rparr>)"
    using wf_live [OF assms(1), of now] assms(2,4) by (auto simp: wf_sessions_def)
  moreover have no: "live_lease s now (sr_run r) = None"
    using lookup_by_no_index [OF assms(3)] assms(2) by (simp add: live_lease_def)
  moreover have "live_lease (s\<lparr>ss_file := SLeases (ls @ [l])\<rparr>) now = (live_lease s now)(sr_run r := Some l)"
    unfolding live_lease_def live_stored [OF live]
    using no assms(2,4) by (auto simp: fun_eq_iff lookup_by_append live_lease_def split: option.split)
  ultimately show ?thesis using assms(4-9) by (auto simp: leased_def)
qed

lemma leased_release:
  assumes "wf_sessions s" and "ls = live_leases s now" and "index_where (\<lambda>l. ls_run l = sr_run r) ls = Some i"
    and "ls_owner (ls ! i) = sr_owner r" and "sr_action r = ''release''"
  shows "leased s (s\<lparr>ss_file := SLeases (take i ls @ drop (Suc i) ls)\<rparr>) r now (ls ! i)"
proof -
  note i = index_where_Some [OF assms(3)]
  have sub: "set (take i ls @ drop (Suc i) ls) \<subseteq> set ls" using set_take_subset set_drop_subset by fastforce
  have live: "\<forall>k \<in> set (take i ls @ drop (Suc i) ls). now < ls_expires k"
    using sub all_live [of s now] assms(2) by blast
  note d = wf_live [OF assms(1), of now, folded assms(2)]
  have "map ls_run ls = map ls_run (take i ls) @ ls_run (ls ! i) # map ls_run (drop (Suc i) ls)"
    using i id_take_nth_drop [of i ls] by (metis list.simps(9) map_append)
  then have "distinct (map ls_run (take i ls @ drop (Suc i) ls))" using d by simp
  then have "wf_sessions (s\<lparr>ss_file := SLeases (take i ls @ drop (Suc i) ls)\<rparr>)"
    by (simp add: wf_sessions_def)
  moreover have "live_lease (s\<lparr>ss_file := SLeases (take i ls @ drop (Suc i) ls)\<rparr>) now = (live_lease s now)(sr_run r := None)"
    unfolding live_lease_def live_stored [OF live]
    using lookup_by_delete [OF assms(3) d] assms(2) by (auto simp: fun_eq_iff)
  moreover have "live_lease s now (sr_run r) = Some (ls ! i)"
    using lookup_by_index [OF assms(3)] assms(2) by (simp add: live_lease_def)
  ultimately show ?thesis using assms(4,5) i by (auto simp: leased_def)
qed

lemma apply_action_cases:
  assumes "wf_sessions s" and "ls = live_leases s now" and "index = index_where (\<lambda>l. ls_run l = sr_run r) ls"
    and "0 < ttl" and "ttl \<le> max_ttl" and "apply_action env s r now ttl ls index = (s', x)"
  shows "(\<exists>e. x = Inl e) \<and> s' = s \<or> (\<exists>l. x = Inr l \<and> leased s s' r now l)"
proof (cases index)
  case None
  note idx = assms(3) [symmetric, unfolded None]
  have add: "leased s (s\<lparr>ss_file := SLeases (ls @ [fresh_lease r n now ttl])\<rparr>) r now (fresh_lease r n now ttl)"
    if "sr_action r \<noteq> ''release''" for n
    using assms(1,2,4,5) idx that by (intro leased_add) simp_all
  show ?thesis
    using assms(6) add stored_write [of env s]
    by (fastforce simp: apply_action_def None split: if_splits sum.splits)
next
  case (Some i)
  note idx = assms(3) [symmetric, unfolded Some]
  note run = index_where_Some [OF idx]
  have ren: "leased s (s\<lparr>ss_file := SLeases (ls[i := renew now ttl (ls ! i)])\<rparr>) r now (renew now ttl (ls ! i))"
    if "sr_action r \<noteq> ''release''" "ls_owner (ls ! i) = sr_owner r"
    using assms(1,2,4,5) idx that run by (intro leased_renew) simp_all
  have take: "leased s (s\<lparr>ss_file := SLeases (ls[i := fresh_lease r n now ttl])\<rparr>) r now (fresh_lease r n now ttl)"
    if "sr_action r = ''takeover''" for n
    using assms(1,2,4,5) idx that by (intro leased_renew) simp_all
  have rel: "leased s (s\<lparr>ss_file := SLeases (take i ls @ drop (Suc i) ls)\<rparr>) r now (ls ! i)"
    if "sr_action r = ''release''" "ls_owner (ls ! i) = sr_owner r"
    using assms(1,2) idx that by (intro leased_release) simp_all
  consider "sr_action r = ''acquire''" | "sr_action r = ''heartbeat''" | "sr_action r = ''takeover''"
    | "sr_action r = ''release''" | "sr_action r \<notin> {''acquire'', ''heartbeat'', ''takeover'', ''release''}" by blast
  then show ?thesis
  proof cases
    case 1
    then show ?thesis using assms(6) ren stored_write [of env s]
      by (fastforce simp: apply_action_def Some split: if_splits)
  next
    case 2
    then show ?thesis using assms(6) ren stored_write [of env s]
      by (fastforce simp: apply_action_def Some split: if_splits)
  next
    case 3
    then show ?thesis using assms(6) take stored_write [of env s]
      by (fastforce simp: apply_action_def Some split: if_splits sum.splits)
  next
    case 4
    then show ?thesis using assms(6) rel stored_write [of env s]
      by (fastforce simp: apply_action_def Some split: if_splits)
  next
    case 5
    then show ?thesis using assms(6) by (auto simp: apply_action_def)
  qed
qed

text \<open>
  C32. A session call refines one step on the map of live leases: a call that fails changes
  nothing; one that succeeds binds the run to the returned lease (or unbinds it, on release),
  leaves every other run's lease alone and keeps one lease per run; only a takeover displaces
  another owner, and no lease outlives 24 hours.
\<close>

theorem session_apply_refines:
  assumes "wf_sessions s" and "session_Apply env s r (Some now) = Some (s', x)"
  shows "case x of Inl e \<Rightarrow> s' = s | Inr l \<Rightarrow> leased s s' r now l"
proof -
  let ?ttl = "ttl_of (sr_ttl r)"
  have "(\<exists>e. x = Inl e) \<and> s' = s \<or> (\<exists>ls. listAt s now = Inr ls \<and> ?ttl \<le> max_ttl \<and>
      apply_action env s r now ?ttl ls (index_where (\<lambda>l. ls_run l = sr_run r) ls) = (s', x))"
    using assms(2) by (auto simp: session_Apply_def Let_def split: if_splits option.splits sum.splits)
  then have "(\<exists>e. x = Inl e) \<and> s' = s \<or> (\<exists>l. x = Inr l \<and> leased s s' r now l)"
    using apply_action_cases [OF assms(1) _ refl ttl_of_pos [of "sr_ttl r"]] listAt_live by blast
  then show ?thesis by auto
qed

definition demo_senv :: session_env where
  "demo_senv = \<lparr>se_mkdir_ok = True, se_lock = (\<lambda>n. if n = 0 then LockStale else LockCreated), se_write_ok = True,
     se_clock = 0, se_random = Some ''x''\<rparr>"

definition demo_sessions :: "Lease list \<Rightarrow> SessionStore" where
  "demo_sessions ls = \<lparr>ss_path = ''/s'', ss_file = SLeases ls\<rparr>"

definition demo_request :: "string \<Rightarrow> string \<Rightarrow> int \<Rightarrow> SessionRequest" where
  "demo_request a who t = \<lparr>sr_action = a, sr_run = ''r'', sr_owner = who, sr_ttl = t\<rparr>"

lemma demo_lock: "lockFile demo_senv (demo_sessions ls) = Some None"
proof -
  have "poll (\<lambda>n. lock_try (se_lock demo_senv n)) 0 = Some None"
    by (subst poll.simps, simp add: demo_senv_def lock_try_def, subst poll.simps, simp)
  moreover have "\<not> blank ''/s''" by code_simp
  ultimately show ?thesis by (simp add: lockFile_def demo_sessions_def demo_senv_def)
qed


theorem session_apply_refines_witness:
  "case session_Apply demo_senv (demo_sessions []) (demo_request ''takeover'' ''op'' 60) (Some 5) of
     None \<Rightarrow> False
   | Some (s', x) \<Rightarrow> (case x of Inl e \<Rightarrow> s' = demo_sessions []
       | Inr l \<Rightarrow> leased (demo_sessions []) s' (demo_request ''takeover'' ''op'' 60) 5 l)"
proof -
  have "session_Apply demo_senv (demo_sessions []) (demo_request ''takeover'' ''op'' 60) (Some 5) \<noteq> None"
    by (simp add: session_Apply_def demo_lock Let_def split: sum.split)
  then obtain s' x where a: "session_Apply demo_senv (demo_sessions []) (demo_request ''takeover'' ''op'' 60) (Some 5) = Some (s', x)"
    by auto
  have "wf_sessions (demo_sessions [])" by (simp add: wf_sessions_def demo_sessions_def)
  from session_apply_refines [OF this a] show ?thesis by (simp add: a)
qed

text \<open>
  The limit on the lifetime is tested after the multiplication has wrapped: a request for
  18446744074 seconds, some 584 years, is not refused, it yields a lease of 290 milliseconds.
\<close>

theorem session_ttl_wraps:
  "case session_Apply demo_senv (demo_sessions []) (demo_request ''acquire'' ''op'' 18446744074) (Some 0) of
     Some (s', Inr l) \<Rightarrow> ls_expires l = 290448384 | _ \<Rightarrow> False"
proof -
  have t: "ttl_of 18446744074 = 290448384" by (simp add: ttl_of_def second_def)
  have b: "\<not> blank ''r''" "\<not> blank ''op''" by (code_simp, code_simp)
  show ?thesis
    using demo_lock [of "[]"]
    by (simp add: session_Apply_def demo_request_def t b max_ttl_def second_def listAt_def index_where_def Let_def
        demo_sessions_def apply_action_def newID_def stored_def session_write_def fresh_lease_def demo_senv_def)
qed

end
