(* ===== verification/One_Shot.thy ===== *)
theory One_Shot
  imports Policy_Engine
begin

text \<open>
  Tokens that work once: \<open>internal/supervisor/challenge.go\<close> and \<open>contract.go\<close>, and
  \<open>internal/credentials/broker.go\<close> and \<open>provider.go\<close>.  Both stores hand out random tokens and
  forget a token when it is presented.  What they share is the interface \<open>one_shot\<close>: a token is
  spent by being presented, whether or not it is accepted, and a token is accepted at most as
  often as it was issued.
\<close>

subsection \<open>The interface\<close>

text \<open>An event is the issue of a token or the presentation of one, together with a request.\<close>

datatype ('i, 'q) token_event = Issued string 'i | Presented string 'q

text \<open>How often a token was issued, and how often it was accepted.\<close>

fun issues :: "string \<Rightarrow> ('i, 'q) token_event list \<Rightarrow> nat" where
  "issues t [] = 0"
| "issues t (Issued u i # es) = (if u = t then 1 else 0) + issues t es"
| "issues t (Presented u q # es) = issues t es"

fun accepted ::
  "(string \<Rightarrow> 'i \<Rightarrow> 's \<Rightarrow> 's) \<Rightarrow> (string \<Rightarrow> 'q \<Rightarrow> 's \<Rightarrow> 's \<times> bool) \<Rightarrow> 's \<Rightarrow> ('i, 'q) token_event list \<Rightarrow> (string \<times> 'q) list"
where
  "accepted issue present s [] = []"
| "accepted issue present s (Issued t i # es) = accepted issue present (issue t i s) es"
| "accepted issue present s (Presented t q # es) =
     (let (s1, ok) = present t q s in (if ok then [(t, q)] else []) @ accepted issue present s1 es)"

locale one_shot =
  fixes grant :: "'s \<Rightarrow> string \<Rightarrow> 'g option"
    and present :: "string \<Rightarrow> 'q \<Rightarrow> 's \<Rightarrow> 's \<times> bool"
    and fits :: "'g \<Rightarrow> 'q \<Rightarrow> bool"
  assumes accepts_fitting: "present t q s = (s', True) \<Longrightarrow> \<exists>g. grant s t = Some g \<and> fits g q"
    and accepts_spends: "present t q s = (s', True) \<Longrightarrow> grant s' t = None"
    and others_kept: "present t q s = (s', ok) \<Longrightarrow> u \<noteq> t \<Longrightarrow> grant s' u = grant s u"
    and spent_or_kept: "present t q s = (s', ok) \<Longrightarrow> grant s' t = None \<or> grant s' t = grant s t"
begin

lemma grants_shrink: "present t q s = (s', ok) \<Longrightarrow> grant s' u = None \<or> grant s' u = grant s u"
  by (cases "u = t") (simp_all add: others_kept spent_or_kept)

lemma present_grant: "present t q s = (s', ok) \<Longrightarrow> grant s u = None \<Longrightarrow> grant s' u = None"
  using grants_shrink [of t q s s' ok u] by auto

lemma second_refused: "present t q s = (s', True) \<Longrightarrow> present t q' s' = (s'', ok) \<Longrightarrow> \<not> ok"
  using accepts_fitting accepts_spends by fastforce

end

locale one_shot_store = one_shot grant present fits
  for grant :: "'s \<Rightarrow> string \<Rightarrow> 'g option" and present :: "string \<Rightarrow> 'q \<Rightarrow> 's \<Rightarrow> 's \<times> bool"
    and fits :: "'g \<Rightarrow> 'q \<Rightarrow> bool" +
  fixes issue :: "string \<Rightarrow> 'i \<Rightarrow> 's \<Rightarrow> 's" and given :: "'i \<Rightarrow> 'g"
  assumes grant_issue: "grant (issue t i s) = (grant s)(t := Some (given i))"
begin

lemma accepted_at_most_issued:
  "length (filter (\<lambda>a. fst a = t) (accepted issue present s es)) \<le> issues t es + (if grant s t = None then 0 else 1)"
proof (induction es arbitrary: s)
  case (Cons e es)
  show ?case
  proof (cases e)
    case (Issued u i)
    then show ?thesis using Cons.IH [of "issue u i s"] by (auto simp: grant_issue split: if_splits)
  next
    case (Presented u q)
    obtain s1 ok where p: "present u q s = (s1, ok)" by fastforce
    note IH = Cons.IH [of s1]
    show ?thesis
    proof (cases "u = t \<and> ok")
      case True
      then have "grant s1 t = None" "grant s t \<noteq> None" using p accepts_spends accepts_fitting by fastforce+
      then show ?thesis using IH True Presented p by auto
    next
      case False
      then have "grant s t = None \<Longrightarrow> grant s1 t = None" using present_grant [OF p] by blast
      then show ?thesis using IH False Presented p by (auto split: if_splits)
    qed
  qed
qed simp

text \<open>Whatever is accepted fits what was given out with its token before.\<close>

lemma accepted_fits:
  assumes "(t, q) \<in> set (accepted issue present s es)"
  shows "(\<exists>g. grant s t = Some g \<and> fits g q) \<or> (\<exists>i. Issued t i \<in> set es \<and> fits (given i) q)"
  using assms
proof (induction es arbitrary: s)
  case (Cons e es)
  show ?case
  proof (cases e)
    case (Issued u i)
    then show ?thesis using Cons by (fastforce simp: grant_issue split: if_splits)
  next
    case (Presented u r)
    obtain s1 ok where p: "present u r s = (s1, ok)" by fastforce
    have "(t, q) = (u, r) \<and> ok \<or> (t, q) \<in> set (accepted issue present s1 es)"
      using Cons.prems Presented p by (auto split: if_splits)
    then show ?thesis
    proof
      assume "(t, q) = (u, r) \<and> ok"
      then show ?thesis using accepts_fitting [of u r s s1] p by auto
    next
      assume "(t, q) \<in> set (accepted issue present s1 es)"
      from Cons.IH [OF this] show ?thesis
        using grants_shrink [OF p, of t] by (auto simp: Presented)
    qed
  qed
qed simp

end


subsection \<open>Action challenges\<close>

record actionChallenge =
  ac_action :: string
  ac_run :: string
  ac_expires :: int

record ActionChallengeResponse =
  cr_token :: string
  cr_action :: string
  cr_run :: string
  cr_expires :: int

datatype token_error =
    StoreUnavailable | NoChallengeNeeded string | RandomFailed | ChallengeRequired | ChallengeUnknown
  | ChallengeExpired | ChallengeMismatch | ActionRequired | UnsupportedAction string
  | ProviderUnavailable | ProviderCommandRequired | ProviderRefRequired | ProviderCommandFailed | ProviderOutput
  | ProviderBlank | SecretEmpty | LeaseInvalid | LeaseGone | ConsumerRequired | RefMismatch
  | ScopeNotAllowed string

definition actionChallengeTTL :: int where "actionChallengeTTL = 120000000000"

text \<open>The store is a nil pointer or a map from tokens; \<open>random\<close> is what \<open>rand.Read\<close> fills in.\<close>

type_synonym challenges = "string \<rightharpoonup> actionChallenge"

definition challenge_put :: "string \<Rightarrow> actionChallenge \<Rightarrow> challenges \<Rightarrow> challenges" where
  "challenge_put token c m = m(token \<mapsto> c)"

definition challenge_issue ::
  "challenges option \<Rightarrow> string option \<Rightarrow> string \<Rightarrow> string \<Rightarrow> int \<Rightarrow>
     challenges option \<times> (token_error + ActionChallengeResponse)" where
  "challenge_issue s random action runID now =
     (case s of
        None \<Rightarrow> (s, Inl StoreUnavailable)
      | Some m \<Rightarrow>
          if action \<noteq> ''rollback'' \<and> action \<noteq> ''recover'' \<and> action \<noteq> ''commit'' then (s, Inl (NoChallengeNeeded action))
          else (case random of
                  None \<Rightarrow> (s, Inl RandomFailed)
                | Some bytes \<Rightarrow>
                    let token = hex_encode bytes; expiresAt = now + actionChallengeTTL in
                    (Some (challenge_put token \<lparr>ac_action = action, ac_run = runID, ac_expires = expiresAt\<rparr> m),
                     Inr \<lparr>cr_token = token, cr_action = action, cr_run = runID, cr_expires = expiresAt\<rparr>)))"

definition challenge_consume ::
  "challenges option \<Rightarrow> string \<Rightarrow> string \<Rightarrow> string \<Rightarrow> int \<Rightarrow> challenges option \<times> (token_error + unit)" where
  "challenge_consume s token action runID now =
     (case s of
        None \<Rightarrow> (s, Inl ChallengeRequired)
      | Some m \<Rightarrow>
          if token = [] then (s, Inl ChallengeRequired)
          else (case m token of
                  None \<Rightarrow> (s, Inl ChallengeUnknown)
                | Some c \<Rightarrow>
                    (Some (m(token := None)),
                     if \<not> now < ac_expires c then Inl ChallengeExpired
                     else if ac_action c \<noteq> action \<or> ac_run c \<noteq> runID then Inl ChallengeMismatch
                     else Inr ())))"

definition supervisor_Validate :: "string \<Rightarrow> token_error + unit" where
  "supervisor_Validate action =
     (if action = [] then Inl ActionRequired
      else if action \<in> {''status'', ''rollback'', ''recover'', ''commit''} then Inr ()
      else Inl (UnsupportedAction action))"

text \<open>A challenge, and a request with the time it is made at, as events of a store that exists.\<close>

definition present_challenge :: "string \<Rightarrow> string \<times> string \<times> int \<Rightarrow> challenges \<Rightarrow> challenges \<times> bool" where
  "present_challenge token q m =
     (case q of (action, runID, now) \<Rightarrow>
        (case challenge_consume (Some m) token action runID now of (s, r) \<Rightarrow> (the s, is_ok r)))"

definition challenge_fits :: "actionChallenge \<Rightarrow> string \<times> string \<times> int \<Rightarrow> bool" where
  "challenge_fits c q = (case q of (action, runID, now) \<Rightarrow>
     now < ac_expires c \<and> ac_action c = action \<and> ac_run c = runID)"

lemma present_challenge_simps:
  "present_challenge token (action, runID, now) m =
     (if token = [] then (m, False)
      else (case m token of None \<Rightarrow> (m, False)
            | Some c \<Rightarrow> (m(token := None), challenge_fits c (action, runID, now))))"
  by (auto simp: present_challenge_def challenge_consume_def challenge_fits_def split: option.split)

interpretation ch: one_shot_store "\<lambda>m. m" present_challenge challenge_fits challenge_put "\<lambda>c. c"
proof unfold_locales
  fix t m m' ok and q :: "string \<times> string \<times> int"
  obtain a r n where q: "q = (a, r, n)" by (cases q)
  show "present_challenge t q m = (m', True) \<Longrightarrow> \<exists>g. m t = Some g \<and> challenge_fits g q"
    "present_challenge t q m = (m', True) \<Longrightarrow> m' t = None"
    "\<And>u. present_challenge t q m = (m', ok) \<Longrightarrow> u \<noteq> t \<Longrightarrow> m' u = m u"
    "present_challenge t q m = (m', ok) \<Longrightarrow> m' t = None \<or> m' t = m t"
    by (auto simp: q present_challenge_simps split: if_splits option.splits)
qed (simp add: challenge_put_def)

text \<open>
  C34. A challenge authorises one action once: over every sequence of issued and presented
  challenges, a token is accepted at most as often as it was issued, and only for the action
  and run it was issued for, before it expires.
\<close>

theorem challenge_accepted_once:
  "length (filter (\<lambda>a. fst a = token) (accepted challenge_put present_challenge Map.empty es)) \<le> issues token es \<and>
   (\<forall>(t, action, runID, now) \<in> set (accepted challenge_put present_challenge Map.empty es).
      \<exists>c. Issued t c \<in> set es \<and> ac_action c = action \<and> ac_run c = runID \<and> now < ac_expires c)"
proof
  show "length (filter (\<lambda>a. fst a = token) (accepted challenge_put present_challenge Map.empty es)) \<le> issues token es"
    using ch.accepted_at_most_issued [of token Map.empty es] by simp
  show "\<forall>(t, action, runID, now) \<in> set (accepted challenge_put present_challenge Map.empty es).
      \<exists>c. Issued t c \<in> set es \<and> ac_action c = action \<and> ac_run c = runID \<and> now < ac_expires c"
    by (auto dest!: ch.accepted_fits simp: challenge_fits_def)
qed

definition demo_challenge :: actionChallenge where
  "demo_challenge = \<lparr>ac_action = ''commit'', ac_run = ''r'', ac_expires = 120\<rparr>"

definition demo_presentations :: "(actionChallenge, string \<times> string \<times> int) token_event list" where
  "demo_presentations = [Issued ''t'' demo_challenge, Presented ''t'' (''commit'', ''r'', 5),
     Presented ''t'' (''commit'', ''r'', 6)]"

theorem challenge_accepted_once_witness:
  "accepted challenge_put present_challenge Map.empty demo_presentations = [(''t'', ''commit'', ''r'', 5)] \<and>
   ac_run demo_challenge = ''r''"
proof -
  have a: "accepted challenge_put present_challenge Map.empty demo_presentations = [(''t'', ''commit'', ''r'', 5)]"
    by (simp add: demo_presentations_def challenge_put_def present_challenge_simps challenge_fits_def demo_challenge_def)
  have "\<exists>c. Issued ''t'' c \<in> set demo_presentations \<and> ac_action c = ''commit'' \<and> ac_run c = ''r'' \<and> 5 < ac_expires c"
    using challenge_accepted_once [of "''t''" demo_presentations] by (simp add: a)
  then show ?thesis using a by (simp add: demo_presentations_def)
qed

subsection \<open>Credential leases\<close>

record CredRequest =
  cq_ref :: string
  cq_scopes :: "string list"

record CredLease =
  cl_id :: string
  cl_ref :: string
  cl_scopes :: "string list"
  cl_expires :: int
  cl_exposed :: bool

definition Refusing_Issue :: "CredRequest \<Rightarrow> token_error + CredLease" where
  "Refusing_Issue r = Inl ProviderUnavailable"

definition ValidateRequest :: "CredentialRef \<Rightarrow> CredRequest \<Rightarrow> token_error + unit" where
  "ValidateRequest ref request =
     (if blank (cq_ref request) \<or> blank (cred_name ref) \<or> cq_ref request \<noteq> cred_name ref then Inl RefMismatch
      else try_all (\<lambda>scope. if trim_space scope \<in> trim_space ` set (cred_scopes ref) then Inr ()
                             else Inl (ScopeNotAllowed scope)) (cq_scopes request))"

definition maxProviderOutput :: nat where "maxProviderOutput = 65536"

text \<open>\<open>command path args env\<close> is the output of the provider's command, if it succeeds.\<close>

definition provider_Fetch ::
  "(path \<Rightarrow> string list \<Rightarrow> string list \<Rightarrow> string option) \<Rightarrow> path \<Rightarrow> string list \<Rightarrow> CredRequest \<Rightarrow> token_error + string"
where
  "provider_Fetch command p args request =
     (if blank p then Inl ProviderCommandRequired
      else if blank (cq_ref request) then Inl ProviderRefRequired
      else (case command p args [''REWIND_CREDENTIAL_REF='' @ cq_ref request,
                                 ''REWIND_CREDENTIAL_SCOPES='' @ join_with '','' (cq_scopes request)] of
              None \<Rightarrow> Inl ProviderCommandFailed
            | Some output \<Rightarrow>
                if output = [] \<or> length output > maxProviderOutput then Inl ProviderOutput
                else if trim_space output = [] then Inl ProviderBlank
                else Inr (trim_space output)))"

record managedLease =
  ml_request :: CredRequest
  ml_secret :: string
  ml_expires :: int

text \<open>The reader: the array behind its slice, whether the slice is nil, and the offset.\<close>

record leaseReader =
  lr_mem :: string
  lr_nil :: bool
  lr_off :: nat

definition reader_Read :: "leaseReader \<Rightarrow> nat \<Rightarrow> leaseReader \<times> string option" where
  "reader_Read r room =
     (if lr_nil r \<or> lr_mem r = [] \<or> length (lr_mem r) \<le> lr_off r then (r, None)
      else (let n = take room (drop (lr_off r) (lr_mem r)) in (r\<lparr>lr_off := lr_off r + length n\<rparr>, Some n)))"

definition reader_Close :: "leaseReader \<Rightarrow> leaseReader" where
  "reader_Close r =
     (if lr_nil r then r\<lparr>lr_off := 0\<rparr>
      else \<lparr>lr_mem = replicate (length (lr_mem r)) CHR 0x00, lr_nil = True, lr_off = 0\<rparr>)"

type_synonym broker = "string \<rightharpoonup> managedLease"

definition lease_put :: "string \<Rightarrow> managedLease \<Rightarrow> broker \<Rightarrow> broker" where
  "lease_put i l m = m(i \<mapsto> l)"

text \<open>\<open>provider\<close> is absent, or the outcome of a fetch; \<open>ttl\<close> is in nanoseconds.\<close>

definition managed_Issue ::
  "(CredRequest \<Rightarrow> token_error + string) option \<Rightarrow> int \<Rightarrow> string option \<Rightarrow> int \<Rightarrow> CredRequest \<Rightarrow> broker \<Rightarrow>
     broker \<times> (token_error + CredLease)"
where
  "managed_Issue provider ttl random now request m =
     (case provider of
        None \<Rightarrow> (m, Inl ProviderUnavailable)
      | Some fetch \<Rightarrow>
          (case fetch request of
             Inl e \<Rightarrow> (m, Inl e)
           | Inr secret \<Rightarrow>
               if secret = [] then (m, Inl SecretEmpty)
               else (case random of
                       None \<Rightarrow> (m, Inl RandomFailed)
                     | Some bytes \<Rightarrow>
                         let i = hex_encode bytes; expires = now + (if ttl \<le> 0 then 300000000000 else ttl) in
                         (lease_put i \<lparr>ml_request = request, ml_secret = secret, ml_expires = expires\<rparr> m,
                          Inr \<lparr>cl_id = i, cl_ref = cq_ref request, cl_scopes = cq_scopes request,
                               cl_expires = expires, cl_exposed = False\<rparr>))))"

definition managed_Open :: "string \<Rightarrow> int \<Rightarrow> broker \<Rightarrow> broker \<times> (token_error + leaseReader)" where
  "managed_Open i now m =
     (if blank i then (m, Inl LeaseInvalid)
      else (case m i of
              None \<Rightarrow> (m, Inl LeaseGone)
            | Some l \<Rightarrow>
                (m(i := None),
                 if \<not> now < ml_expires l then Inl LeaseGone
                 else Inr \<lparr>lr_mem = ml_secret l, lr_nil = False, lr_off = 0\<rparr>)))"

definition managed_Revoke :: "string \<Rightarrow> broker \<Rightarrow> broker" where
  "managed_Revoke i m = m(i := None)"

text \<open>\<open>Use\<close>: the consumer reads and says whether it failed; the reader is closed after it.\<close>

definition managed_Use ::
  "(leaseReader \<Rightarrow> leaseReader \<times> bool) option \<Rightarrow> string \<Rightarrow> int \<Rightarrow> broker \<Rightarrow>
     broker \<times> (token_error + leaseReader \<times> bool)"
where
  "managed_Use consumer i now m =
     (case consumer of
        None \<Rightarrow> (m, Inl ConsumerRequired)
      | Some f \<Rightarrow>
          (case managed_Open i now m of
             (m', Inl e) \<Rightarrow> (m', Inl e)
           | (m', Inr r) \<Rightarrow> (case f r of (r', failed) \<Rightarrow> (m', Inr (reader_Close r', failed)))))"

text \<open>Presenting a lease means opening it at a time, or revoking it, which nothing accepts.\<close>

definition present_lease :: "string \<Rightarrow> int option \<Rightarrow> broker \<Rightarrow> broker \<times> bool" where
  "present_lease i q m =
     (case q of
        None \<Rightarrow> (managed_Revoke i m, False)
      | Some now \<Rightarrow> (case managed_Open i now m of (m', r) \<Rightarrow> (m', is_ok r)))"

definition lease_fits :: "managedLease \<Rightarrow> int option \<Rightarrow> bool" where
  "lease_fits l q = (case q of None \<Rightarrow> False | Some now \<Rightarrow> now < ml_expires l)"

lemma present_lease_simps:
  "present_lease i None m = (m(i := None), False)"
  "present_lease i (Some now) m =
     (if blank i then (m, False)
      else (case m i of None \<Rightarrow> (m, False) | Some l \<Rightarrow> (m(i := None), now < ml_expires l)))"
  by (auto simp: present_lease_def managed_Open_def managed_Revoke_def split: option.split)

interpretation lease: one_shot_store "\<lambda>m. m" present_lease lease_fits lease_put "\<lambda>l. l"
proof unfold_locales
  fix t m m' ok and q :: "int option"
  show "present_lease t q m = (m', True) \<Longrightarrow> \<exists>g. m t = Some g \<and> lease_fits g q"
    "present_lease t q m = (m', True) \<Longrightarrow> m' t = None"
    "\<And>u. present_lease t q m = (m', ok) \<Longrightarrow> u \<noteq> t \<Longrightarrow> m' u = m u"
    "present_lease t q m = (m', ok) \<Longrightarrow> m' t = None \<or> m' t = m t"
    by (cases q; auto simp: present_lease_simps lease_fits_def split: if_splits option.splits)+
qed (simp add: lease_put_def)

text \<open>
  A credential lease is opened at most once: over every sequence of issued, opened and
  revoked leases an identifier yields its secret at most as often as it was issued, and never
  after the lease has expired.
\<close>

theorem lease_opened_once:
  "length (filter (\<lambda>a. fst a = i) (accepted lease_put present_lease Map.empty es)) \<le> issues i es \<and>
   (\<forall>(j, q) \<in> set (accepted lease_put present_lease Map.empty es).
      \<exists>l now. Issued j l \<in> set es \<and> q = Some now \<and> now < ml_expires l)"
proof
  show "length (filter (\<lambda>a. fst a = i) (accepted lease_put present_lease Map.empty es)) \<le> issues i es"
    using lease.accepted_at_most_issued [of i Map.empty es] by simp
  show "\<forall>(j, q) \<in> set (accepted lease_put present_lease Map.empty es).
      \<exists>l now. Issued j l \<in> set es \<and> q = Some now \<and> now < ml_expires l"
    by (auto dest!: lease.accepted_fits simp: lease_fits_def split: option.splits)
qed

definition demo_lease :: managedLease where
  "demo_lease = \<lparr>ml_request = \<lparr>cq_ref = ''git'', cq_scopes = []\<rparr>, ml_secret = ''s3'', ml_expires = 300\<rparr>"

definition demo_openings :: "(managedLease, int option) token_event list" where
  "demo_openings = [Issued ''a'' demo_lease, Presented ''a'' (Some 5), Presented ''a'' (Some 6),
     Issued ''b'' demo_lease, Presented ''b'' None, Presented ''b'' (Some 7)]"

theorem lease_opened_once_witness:
  "accepted lease_put present_lease Map.empty demo_openings = [(''a'', Some 5)] \<and> 5 < ml_expires demo_lease"
proof -
  have "\<not> blank ''a''" "\<not> blank ''b''" by (code_simp, code_simp)
  then have a: "accepted lease_put present_lease Map.empty demo_openings = [(''a'', Some 5)]"
    by (simp add: demo_openings_def lease_put_def present_lease_simps demo_lease_def)
  have "\<exists>l now. Issued ''a'' l \<in> set demo_openings \<and> Some 5 = Some now \<and> now < ml_expires l"
    using lease_opened_once [of "''a''" demo_openings] by (simp add: a)
  then show ?thesis using a by (simp add: demo_openings_def demo_lease_def)
qed

text \<open>
  A secret never leaves by a lease: the broker returns what the provider delivered, in a
  reader only; after \<open>Use\<close> the reader's memory is zero bytes and the lease is gone, and a second
  \<open>Use\<close> is refused.
\<close>

theorem use_clears_secret:
  assumes "managed_Use (Some f) i now m = (m', Inr (r, failed))"
    and "\<forall>r r' b. f r = (r', b) \<longrightarrow> lr_nil r' = lr_nil r \<and> length (lr_mem r') = length (lr_mem r)"
  shows "set (lr_mem r) \<subseteq> {CHR 0x00} \<and> lr_nil r \<and> (\<forall>g later. \<exists>e. managed_Use g i later m' = (m', Inl e))"
proof -
  from assms(1) obtain l r1 where l: "\<not> blank i" "m i = Some l" "m' = m(i := None)" "now < ml_expires l"
    "f \<lparr>lr_mem = ml_secret l, lr_nil = False, lr_off = 0\<rparr> = (r1, failed)" "r = reader_Close r1"
    by (auto simp: managed_Use_def managed_Open_def split: if_splits option.splits prod.splits)
  then have "\<not> lr_nil r1" using assms(2) by fastforce
  moreover have "\<exists>e. managed_Use g i later m' = (m', Inl e)" for g later
    using l by (cases g) (simp_all add: managed_Use_def managed_Open_def)
  ultimately show ?thesis using l(6) by (auto simp: reader_Close_def)
qed

theorem use_clears_secret_witness:
  "managed_Use (Some (\<lambda>r. (fst (reader_Read r 8), False))) ''a'' 5 [''a'' \<mapsto> demo_lease] =
     (Map.empty, Inr (\<lparr>lr_mem = [CHR 0x00, CHR 0x00], lr_nil = True, lr_off = 0\<rparr>, False)) \<and>
   (\<exists>e. managed_Use None ''a'' 6 Map.empty = (Map.empty, Inl e))"
proof -
  have "\<not> blank ''a''" by code_simp
  then have a: "managed_Use (Some (\<lambda>r. (fst (reader_Read r 8), False))) ''a'' 5 [''a'' \<mapsto> demo_lease] =
     (Map.empty, Inr (\<lparr>lr_mem = [CHR 0x00, CHR 0x00], lr_nil = True, lr_off = 0\<rparr>, False))"
    by (simp add: managed_Use_def managed_Open_def demo_lease_def reader_Read_def reader_Close_def Let_def)
  from use_clears_secret [OF a] show ?thesis using a by (auto simp: reader_Read_def Let_def)
qed

text \<open>A request is valid exactly if it names the reference and asks for scopes the reference has.\<close>

lemma ValidateRequest_iff:
  "ValidateRequest ref q = Inr () \<longleftrightarrow>
     \<not> blank (cq_ref q) \<and> cq_ref q = cred_name ref \<and> trim_space ` set (cq_scopes q) \<subseteq> trim_space ` set (cred_scopes ref)"
  by (auto simp: ValidateRequest_def blank_def)

end
