(* ===== verification/Net_Broker.thy ===== *)
theory Net_Broker
  imports Net_Policy "HOL-Library.Word"
begin

text \<open>
  \<open>internal/netns/allowlist.go\<close>: the network boundary of a run in its own namespace.  The broker
  runs \<open>ip\<close>, \<open>iptables\<close>, \<open>ipset\<close>, \<open>sysctl\<close> and \<open>nsenter\<close>; the commands it ran are its trace, and the
  \<open>n\<close>-th command fails with the message the environment gives.  An address is the text of its IPv4
  form, \<open>None\<close> if it has none; \<open>is_ip\<close> is whether \<open>net.ParseIP\<close> accepts a text.
\<close>

type_synonym command = "string list"
type_synonym address = "string option"

datatype netns_error =
    DomainsRequired | BadDomain string | BadResolution string | BadResolver | BrokerPidZero | ForwardingUnreadable
  | RootRequired | CommandError command string | NoDomains | ResolveFailed | NameserversFailed | NoAddresses
  | CleanupFailed "(command \<times> string) list" | RestoreFailed "(command \<times> string) list" string

record AllowlistPlan =
  ap_domains :: "string list"
  ap_ips :: "string list"
  ap_resolvers :: "string list"
  ap_commands :: "string list"

record broker_env =
  bn_root :: bool
  bn_forward :: "string option"
  bn_fails :: "nat \<Rightarrow> string option"
  bn_resolve :: "string list \<Rightarrow> (string \<times> address list) list option"
  bn_nameservers :: "address list option"

record Broker =
  br_plan :: AllowlistPlan
  br_require_root :: bool
  br_previous :: string
  br_trace :: "command list"
  br_interval :: int
  br_refreshing :: bool
  br_loop :: bool

subsection \<open>Plans\<close>

definition bad_domain :: "(string \<Rightarrow> bool) \<Rightarrow> string \<Rightarrow> bool" where
  "bad_domain is_ip host = (host = [] \<or> is_ip host \<or> contains_any ''/ :'' host)"

fun plan_addresses :: "string \<Rightarrow> address list \<Rightarrow> netns_error + string list" where
  "plan_addresses host [] = Inr []"
| "plan_addresses host (None # ips) = Inl (BadResolution host)"
| "plan_addresses host (Some a # ips) = and_then (plan_addresses host ips) (\<lambda>as. Inr (a # as))"

fun plan_domains ::
  "(string \<Rightarrow> bool) \<Rightarrow> (string \<Rightarrow> address list) \<Rightarrow> string list \<Rightarrow> netns_error + string list \<times> string list"
where
  "plan_domains is_ip resolved [] = Inr ([], [])"
| "plan_domains is_ip resolved (raw # rest) =
     (let host = normal_host raw in
      if bad_domain is_ip host then Inl (BadDomain raw)
      else and_then (plan_addresses host (resolved host)) (\<lambda>ips.
           and_then (plan_domains is_ip resolved rest) (\<lambda>(hosts, more). Inr (host # hosts, ips @ more))))"

fun plan_resolvers :: "address list \<Rightarrow> netns_error + string list" where
  "plan_resolvers [] = Inr []"
| "plan_resolvers (None # ips) = Inl BadResolver"
| "plan_resolvers (Some a # ips) = and_then (plan_resolvers ips) (\<lambda>as. Inr (a # as))"

definition reviewed_commands :: "string list" where
  "reviewed_commands =
    [''ip link add rewind-host type veth peer name rewind-agent'',
     ''ip addr add 10.231.0.1/30 dev rewind-host'',
     ''ip addr add 10.231.0.2/30 dev rewind-agent'',
     ''ip link set rewind-host up'',
     ''ip link set rewind-agent up'',
     ''sysctl -w net.ipv4.ip_forward=1'',
     ''iptables -N REWIND_ALLOWLIST'',
     ''ipset create REWIND_ALLOWLIST4 hash:ip family inet -exist'',
     ''iptables -t nat -A POSTROUTING -s 10.231.0.0/30 -j MASQUERADE'',
     ''iptables -A FORWARD -s 10.231.0.2/32 -j REWIND_ALLOWLIST'',
     ''iptables -A REWIND_ALLOWLIST -m conntrack --ctstate ESTABLISHED,RELATED -j ACCEPT'',
     ''iptables -A REWIND_ALLOWLIST -m set --match-set REWIND_ALLOWLIST4 dst -j ACCEPT'',
     ''iptables -A REWIND_ALLOWLIST -j REJECT'']"

definition BuildAllowlistPlanWithIPsAndResolvers ::
  "(string \<Rightarrow> bool) \<Rightarrow> string list \<Rightarrow> (string \<Rightarrow> address list) \<Rightarrow> address list \<Rightarrow> netns_error + AllowlistPlan"
where
  "BuildAllowlistPlanWithIPsAndResolvers is_ip domains resolved resolvers =
     (if domains = [] then Inl DomainsRequired
      else and_then (plan_domains is_ip resolved domains) (\<lambda>(hosts, ips).
           and_then (plan_resolvers resolvers) (\<lambda>rs.
             Inr \<lparr>ap_domains = hosts, ap_ips = ips, ap_resolvers = rs,
                  ap_commands = reviewed_commands @
                    map (\<lambda>ip. ''ipset add REWIND_ALLOWLIST4 '' @ ip @ '' -exist'') (ips @ rs)\<rparr>)))"

definition BuildAllowlistPlanWithIPs ::
  "(string \<Rightarrow> bool) \<Rightarrow> string list \<Rightarrow> (string \<Rightarrow> address list) \<Rightarrow> netns_error + AllowlistPlan" where
  "BuildAllowlistPlanWithIPs is_ip domains resolved = BuildAllowlistPlanWithIPsAndResolvers is_ip domains resolved []"

definition BuildAllowlistPlan :: "(string \<Rightarrow> bool) \<Rightarrow> string list \<Rightarrow> netns_error + AllowlistPlan" where
  "BuildAllowlistPlan is_ip domains = BuildAllowlistPlanWithIPs is_ip domains (\<lambda>_. [])"

definition normalizeIPs :: "address list \<Rightarrow> string list" where
  "normalizeIPs values = sort (remdups (concat (map (\<lambda>v. case v of None \<Rightarrow> [] | Some a \<Rightarrow> [a]) values)))"

definition flattenIPs :: "(string \<times> address list) list \<Rightarrow> string list" where
  "flattenIPs resolved = normalizeIPs (concat (map snd resolved))"

text \<open>\<open>lookup\<close> is the resolver of the host.\<close>

fun ResolveDomains_from ::
  "(string \<Rightarrow> bool) \<Rightarrow> (string \<Rightarrow> address list option) \<Rightarrow> string list \<Rightarrow> netns_error + (string \<times> address list) list"
where
  "ResolveDomains_from is_ip lookup [] = Inr []"
| "ResolveDomains_from is_ip lookup (raw # rest) =
     (let host = normal_host raw in
      if bad_domain is_ip host then Inl (BadDomain raw)
      else (case lookup host of
              None \<Rightarrow> Inl ResolveFailed
            | Some ips \<Rightarrow>
                if ips = [] then Inl (BadResolution host)
                else and_then (ResolveDomains_from is_ip lookup rest) (\<lambda>m. Inr ((host, ips) # m))))"

definition ResolveDomains ::
  "(string \<Rightarrow> bool) \<Rightarrow> (string \<Rightarrow> address list option) \<Rightarrow> string list \<Rightarrow> netns_error + (string \<times> address list) list"
where
  "ResolveDomains is_ip lookup domains =
     (if domains = [] then Inl DomainsRequired else ResolveDomains_from is_ip lookup domains)"

text \<open>\<open>parse4\<close> gives the IPv4 text of an address, and \<open>loopback\<close> whether it is a loopback address.\<close>

definition ResolveNameservers ::
  "(string \<Rightarrow> address) \<Rightarrow> (string \<Rightarrow> bool) \<Rightarrow> string option \<Rightarrow> netns_error + address list" where
  "ResolveNameservers parse4 loopback file =
     (case file of
        None \<Rightarrow> Inl NameserversFailed
      | Some data \<Rightarrow>
          Inr (concat (map (\<lambda>line.
            (case str_fields line of
               [k, v] \<Rightarrow> if k \<noteq> ''nameserver'' \<or> parse4 v = None \<or> loopback v then [] else [parse4 v]
             | _ \<Rightarrow> [])) (split_on CHR 0x0A data))))"

subsection \<open>Running commands\<close>

definition run_command :: "broker_env \<Rightarrow> Broker \<Rightarrow> command \<Rightarrow> Broker \<times> string option" where
  "run_command env b c = (b\<lparr>br_trace := br_trace b @ [c]\<rparr>, bn_fails env (length (br_trace b)))"

text \<open>Run the commands one after another, up to the first that fails.\<close>

fun run_commands :: "broker_env \<Rightarrow> Broker \<Rightarrow> command list \<Rightarrow> Broker \<times> netns_error option" where
  "run_commands env b [] = (b, None)"
| "run_commands env b (c # cs) =
     (case run_command env b c of
        (b', Some message) \<Rightarrow> (b', Some (CommandError c message))
      | (b', None) \<Rightarrow> run_commands env b' cs)"

definition add_to :: "string \<Rightarrow> string \<Rightarrow> command" where
  "add_to set_name ip = [''ipset'', ''add'', set_name, ip, ''-exist'']"

definition allowlist_set :: string where "allowlist_set = ''REWIND_ALLOWLIST4''"
definition next_set :: string where "next_set = ''REWIND_ALLOWLIST4_NEXT''"

definition install_commands :: "AllowlistPlan \<Rightarrow> command list" where
  "install_commands p =
    [[''ip'', ''link'', ''add'', ''rewind-host'', ''type'', ''veth'', ''peer'', ''name'', ''rewind-agent''],
     [''ip'', ''addr'', ''add'', ''10.231.0.1/30'', ''dev'', ''rewind-host''],
     [''ip'', ''addr'', ''add'', ''10.231.0.2/30'', ''dev'', ''rewind-agent''],
     [''ip'', ''link'', ''set'', ''rewind-host'', ''up''],
     [''ip'', ''link'', ''set'', ''rewind-agent'', ''up''],
     [''sysctl'', ''-w'', ''net.ipv4.ip_forward=1''],
     [''iptables'', ''-N'', ''REWIND_ALLOWLIST''],
     [''ipset'', ''create'', ''REWIND_ALLOWLIST4'', ''hash:ip'', ''family'', ''inet'', ''-exist''],
     [''iptables'', ''-t'', ''nat'', ''-A'', ''POSTROUTING'', ''-s'', ''10.231.0.0/30'', ''-j'', ''MASQUERADE''],
     [''iptables'', ''-A'', ''FORWARD'', ''-s'', ''10.231.0.2/32'', ''-j'', ''REWIND_ALLOWLIST''],
     [''iptables'', ''-A'', ''REWIND_ALLOWLIST'', ''-m'', ''conntrack'', ''--ctstate'', ''ESTABLISHED,RELATED'', ''-j'', ''ACCEPT''],
     [''iptables'', ''-A'', ''REWIND_ALLOWLIST'', ''-m'', ''set'', ''--match-set'', ''REWIND_ALLOWLIST4'', ''dst'', ''-j'', ''ACCEPT''],
     [''iptables'', ''-A'', ''REWIND_ALLOWLIST'', ''-j'', ''REJECT'']] @
    map (add_to allowlist_set) (ap_ips p) @ map (add_to allowlist_set) (ap_resolvers p)"

definition plan_install :: "broker_env \<Rightarrow> Broker \<Rightarrow> bool \<Rightarrow> Broker \<times> netns_error option" where
  "plan_install env b require_root =
     (if require_root \<and> \<not> bn_root env then (b, Some RootRequired)
      else run_commands env b (install_commands (br_plan b)))"

definition Install :: "broker_env \<Rightarrow> Broker \<Rightarrow> Broker \<times> netns_error option" where
  "Install env b = plan_install env b True"

definition isAlreadyGone :: "string \<Rightarrow> bool" where
  "isAlreadyGone message =
     list_ex (\<lambda>marker. contains_sub marker (to_lower message))
       [''cannot find device'', ''no chain/target/match by that name'', ''does not exist'', ''name does not exist'']"

definition cleanup_commands :: "command list" where
  "cleanup_commands =
    [[''iptables'', ''-D'', ''FORWARD'', ''-s'', ''10.231.0.2/32'', ''-j'', ''REWIND_ALLOWLIST''],
     [''iptables'', ''-t'', ''nat'', ''-D'', ''POSTROUTING'', ''-s'', ''10.231.0.0/30'', ''-j'', ''MASQUERADE''],
     [''iptables'', ''-F'', ''REWIND_ALLOWLIST''],
     [''iptables'', ''-X'', ''REWIND_ALLOWLIST''],
     [''ipset'', ''destroy'', ''REWIND_ALLOWLIST4''],
     [''ip'', ''link'', ''del'', ''rewind-host'']]"

text \<open>Run all the commands, whatever fails, and collect the failures that matter.\<close>

fun run_all :: "broker_env \<Rightarrow> Broker \<Rightarrow> command list \<Rightarrow> Broker \<times> (command \<times> string) list" where
  "run_all env b [] = (b, [])"
| "run_all env b (c # cs) =
     (let (b1, r) = run_command env b c; (b2, errs) = run_all env b1 cs in
      (b2, (case r of None \<Rightarrow> [] | Some message \<Rightarrow> if isAlreadyGone message then [] else [(c, message)]) @ errs))"

definition plan_cleanup :: "broker_env \<Rightarrow> Broker \<Rightarrow> bool \<Rightarrow> Broker \<times> netns_error option" where
  "plan_cleanup env b require_root =
     (if require_root \<and> \<not> bn_root env then (b, Some RootRequired)
      else (case run_all env b cleanup_commands of
              (b', errs) \<Rightarrow> (b', if errs = [] then None else Some (CleanupFailed errs))))"

definition plan_Cleanup :: "broker_env \<Rightarrow> Broker \<Rightarrow> Broker \<times> netns_error option" where
  "plan_Cleanup env b = plan_cleanup env b True"

definition restore_command :: "string \<Rightarrow> command" where
  "restore_command previous = [''sysctl'', ''-w'', ''net.ipv4.ip_forward='' @ previous]"

definition Broker_Cleanup :: "broker_env \<Rightarrow> Broker \<Rightarrow> Broker \<times> netns_error option" where
  "Broker_Cleanup env b =
     (case plan_cleanup env b (br_require_root b) of
        (b1, err) \<Rightarrow>
          if br_previous b1 = [] then (b1, err)
          else (case run_command env b1 (restore_command (br_previous b1)) of
                  (b2, r) \<Rightarrow>
                    (b2\<lparr>br_previous := []\<rparr>,
                     (case r of
                        None \<Rightarrow> err
                      | Some message \<Rightarrow>
                          (case err of
                             None \<Rightarrow> Some (CommandError (restore_command (br_previous b1)) message)
                           | Some (CleanupFailed errs) \<Rightarrow> Some (RestoreFailed errs message)
                           | Some _ \<Rightarrow> Some (RestoreFailed [] message))))))"

definition peer_commands :: "32 word \<Rightarrow> command list" where
  "peer_commands pid =
    (let p = show_nat (unat pid) in
     [[''ip'', ''link'', ''set'', ''rewind-agent'', ''netns'', p],
      [''nsenter'', ''-t'', p, ''-n'', ''--'', ''ip'', ''link'', ''set'', ''lo'', ''up''],
      [''nsenter'', ''-t'', p, ''-n'', ''--'', ''ip'', ''addr'', ''replace'', ''10.231.0.2/30'', ''dev'', ''rewind-agent''],
      [''nsenter'', ''-t'', p, ''-n'', ''--'', ''ip'', ''link'', ''set'', ''rewind-agent'', ''up''],
      [''nsenter'', ''-t'', p, ''-n'', ''--'', ''ip'', ''route'', ''replace'', ''default'', ''via'', ''10.231.0.1'', ''dev'', ''rewind-agent'']])"

definition Broker_Prepare :: "broker_env \<Rightarrow> Broker \<Rightarrow> 32 word \<Rightarrow> Broker \<times> netns_error option" where
  "Broker_Prepare env b pid =
     (if pid = 0 then (b, Some BrokerPidZero)
      else if br_require_root b \<and> bn_forward env = None then (b, Some ForwardingUnreadable)
      else (let b0 = (if br_require_root b then b\<lparr>br_previous := trim_space (the (bn_forward env))\<rparr> else b) in
        case plan_install env b0 (br_require_root b0) of
          (b1, Some e) \<Rightarrow> (fst (Broker_Cleanup env b1), Some e)
        | (b1, None) \<Rightarrow>
            (case run_commands env b1 (peer_commands pid) of
               (b2, Some e) \<Rightarrow> (fst (plan_Cleanup env b2), Some e)
             | (b2, None) \<Rightarrow> (b2, None))))"

subsection \<open>Refreshing the set\<close>

definition refresh_commands :: "string list \<Rightarrow> command list" where
  "refresh_commands ips =
     [[''ipset'', ''create'', next_set, ''hash:ip'', ''family'', ''inet'', ''-exist''], [''ipset'', ''flush'', next_set]] @
     map (add_to next_set) ips @
     [[''ipset'', ''swap'', allowlist_set, next_set], [''ipset'', ''destroy'', next_set]]"

definition Broker_Refresh :: "broker_env \<Rightarrow> Broker \<Rightarrow> Broker \<times> netns_error option" where
  "Broker_Refresh env b =
     (if br_require_root b \<and> \<not> bn_root env then (b, Some RootRequired)
      else if ap_domains (br_plan b) = [] then (b, Some NoDomains)
      else (case bn_resolve env (ap_domains (br_plan b)) of
              None \<Rightarrow> (b, Some ResolveFailed)
            | Some resolved \<Rightarrow>
                (case bn_nameservers env of
                   None \<Rightarrow> (b, Some NameserversFailed)
                 | Some resolvers \<Rightarrow>
                     let ips = flattenIPs resolved; rs = normalizeIPs resolvers in
                     if ips = [] then (b, Some NoAddresses)
                     else (case run_commands env b (refresh_commands (ips @ rs)) of
                             (b1, Some e) \<Rightarrow> (b1, Some e)
                           | (b1, None) \<Rightarrow> (b1\<lparr>br_plan := (br_plan b1)\<lparr>ap_ips := ips, ap_resolvers := rs\<rparr>\<rparr>, None)))))"

text \<open>
  Starting the refresh loop gives the function that stops it: it does nothing without an interval,
  and for a loop that runs already it is the cancellation of that loop, which leaves the record of
  the loop in place.
\<close>

definition StartRefresh :: "Broker \<Rightarrow> Broker \<times> (Broker \<Rightarrow> Broker)" where
  "StartRefresh b =
     (if br_interval b \<le> 0 then (b, \<lambda>c. c)
      else if br_refreshing b then (b, \<lambda>c. c\<lparr>br_loop := False\<rparr>)
      else (b\<lparr>br_refreshing := True, br_loop := True\<rparr>,
            \<lambda>c. if br_refreshing c then c\<lparr>br_refreshing := False, br_loop := False\<rparr> else c))"

subsection \<open>Traces\<close>

lemma run_commands_trace:
  "run_commands env b cs = (b', err) \<Longrightarrow>
     \<exists>pre. prefix pre cs \<and> b' = b\<lparr>br_trace := br_trace b @ pre\<rparr> \<and> (err = None \<longrightarrow> pre = cs) \<and> (err \<noteq> None \<longrightarrow> pre \<noteq> []) \<and>
       (\<forall>i < length pre. bn_fails env (length (br_trace b) + i) \<noteq> None \<longleftrightarrow> err \<noteq> None \<and> Suc i = length pre)"
proof (induction cs arbitrary: b)
  case (Cons c cs)
  show ?case
  proof (cases "bn_fails env (length (br_trace b))")
    case (Some message)
    then show ?thesis using Cons.prems by (intro exI [of _ "[c]"]) (auto simp: run_command_def)
  next
    case None
    then have "run_commands env (b\<lparr>br_trace := br_trace b @ [c]\<rparr>) cs = (b', err)"
      using Cons.prems by (simp add: run_command_def)
    from Cons.IH [OF this] obtain pre where pre: "prefix pre cs" "b' = b\<lparr>br_trace := br_trace b @ c # pre\<rparr>"
      "err = None \<Longrightarrow> pre = cs" "err \<noteq> None \<Longrightarrow> pre \<noteq> []"
      "\<And>i. i < length pre \<Longrightarrow> bn_fails env (Suc (length (br_trace b)) + i) \<noteq> None \<longleftrightarrow> err \<noteq> None \<and> Suc i = length pre"
      by auto
    have "bn_fails env (length (br_trace b) + i) \<noteq> None \<longleftrightarrow> err \<noteq> None \<and> Suc i = length (c # pre)"
      if "i < length (c # pre)" for i
    proof (cases i)
      case 0
      show ?thesis using 0 None pre(4) by auto
    next
      case (Suc k)
      then show ?thesis using pre(5) [of k] that by simp
    qed
    then show ?thesis using pre(1-4) by (intro exI [of _ "c # pre"]) simp
  qed
qed simp

lemma run_all_trace: "run_all env b cs = (b', errs) \<Longrightarrow> b' = b\<lparr>br_trace := br_trace b @ cs\<rparr>"
proof (induction cs arbitrary: b errs)
  case (Cons c cs)
  obtain b2 es where r: "run_all env (b\<lparr>br_trace := br_trace b @ [c]\<rparr>) cs = (b2, es)" by fastforce
  then have "b2 = b'" using Cons.prems by (simp add: run_command_def Let_def)
  from Cons.IH [OF r [unfolded this]] show ?case by simp
qed simp

subsection \<open>Plans and what is executed\<close>

text \<open>
  The plan that is reviewed is the one that is executed: the commands a plan shows are, word
  by word, the commands its installation runs, in the same order.
\<close>

theorem reviewed_plan_is_executed:
  assumes "BuildAllowlistPlanWithIPsAndResolvers is_ip domains resolved resolvers = Inr p"
  shows "ap_commands p = map (join_with '' '') (install_commands p)"
proof -
  have "ap_commands p = reviewed_commands @ map (\<lambda>ip. ''ipset add REWIND_ALLOWLIST4 '' @ ip @ '' -exist'') (ap_ips p @ ap_resolvers p)"
    using assms by (auto simp: BuildAllowlistPlanWithIPsAndResolvers_def split: if_splits)
  moreover have "join_with '' '' (add_to allowlist_set ip) = ''ipset add REWIND_ALLOWLIST4 '' @ ip @ '' -exist''" for ip
    by (simp add: add_to_def allowlist_set_def)
  ultimately show ?thesis by (simp add: install_commands_def reviewed_commands_def)
qed

theorem reviewed_plan_is_executed_witness:
  "map (join_with '' '') (install_commands \<lparr>ap_domains = [''a.io''], ap_ips = [''1.2.3.4''], ap_resolvers = [],
     ap_commands = []\<rparr>) = reviewed_commands @ [''ipset add REWIND_ALLOWLIST4 1.2.3.4 -exist'']"
proof -
  have n: "normal_host ''a.io'' = ''a.io''" by code_simp
  have "BuildAllowlistPlanWithIPsAndResolvers (\<lambda>_. False) [''a.io''] (\<lambda>_. [Some ''1.2.3.4'']) [] =
     Inr \<lparr>ap_domains = [''a.io''], ap_ips = [''1.2.3.4''], ap_resolvers = [],
       ap_commands = reviewed_commands @ [''ipset add REWIND_ALLOWLIST4 1.2.3.4 -exist'']\<rparr>"
    by (simp add: BuildAllowlistPlanWithIPsAndResolvers_def n bad_domain_def contains_any_def)
  from reviewed_plan_is_executed [OF this] show ?thesis by (simp add: install_commands_def)
qed

text \<open>
  Preparing the boundary is followed by its removal when it fails: a root broker either runs
  the installation and the commands in the agent's namespace to their end, or stops at the first
  failing command and then runs every command of the cleanup.  Only a failing installation also
  restores the host's forwarding switch.
\<close>

theorem prepare_cleans_up:
  assumes "Broker_Prepare env b pid = (b', err)" and "pid \<noteq> 0" and "br_require_root b" and "bn_root env"
    and "bn_forward env = Some f" and "trim_space f \<noteq> []"
  shows "if err = None
    then br_trace b' = br_trace b @ install_commands (br_plan b) @ peer_commands pid
    else (\<exists>pre. pre \<noteq> [] \<and> prefix pre (install_commands (br_plan b)) \<and>
            br_trace b' = br_trace b @ pre @ cleanup_commands @ [restore_command (trim_space f)]) \<or>
         (\<exists>pre. pre \<noteq> [] \<and> prefix pre (peer_commands pid) \<and>
            br_trace b' = br_trace b @ install_commands (br_plan b) @ pre @ cleanup_commands)"
proof -
  let ?b = "b\<lparr>br_previous := trim_space f\<rparr>"
  obtain b1 e1 where r1: "run_commands env ?b (install_commands (br_plan b)) = (b1, e1)" by fastforce
  from run_commands_trace [OF r1] obtain pre where pre: "prefix pre (install_commands (br_plan b))"
    "b1 = ?b\<lparr>br_trace := br_trace b @ pre\<rparr>" "e1 = None \<Longrightarrow> pre = install_commands (br_plan b)" "e1 \<noteq> None \<Longrightarrow> pre \<noteq> []"
    by auto
  note prep = assms(1) [unfolded Broker_Prepare_def plan_install_def, simplified assms(2-5), simplified, simplified Let_def r1]
  show ?thesis
  proof (cases e1)
    case (Some e)
    obtain b2 errs where ra: "run_all env b1 cleanup_commands = (b2, errs)" by fastforce
    have "br_trace b2 = br_trace b1 @ cleanup_commands" "br_previous b2 = trim_space f"
      using run_all_trace [OF ra] pre(2) by simp_all
    moreover have "b' = fst (Broker_Cleanup env b1)" "err = Some e" using prep Some r1 assms(3-5) by auto
    ultimately have "br_trace b' = br_trace b @ pre @ cleanup_commands @ [restore_command (trim_space f)]"
      using pre(2) assms(3,4,6) ra
      by (simp add: Broker_Cleanup_def plan_cleanup_def run_command_def split: option.split)
    then show ?thesis using pre(1) pre(4) Some \<open>err = Some e\<close> by auto
  next
    case None
    obtain b2 e2 where r2: "run_commands env b1 (peer_commands pid) = (b2, e2)" by fastforce
    from run_commands_trace [OF r2] obtain post where post: "prefix post (peer_commands pid)"
      "b2 = b1\<lparr>br_trace := br_trace b1 @ post\<rparr>" "e2 = None \<Longrightarrow> post = peer_commands pid" "e2 \<noteq> None \<Longrightarrow> post \<noteq> []"
      by auto
    show ?thesis
    proof (cases e2)
      case None
      then have "b' = b2 \<and> err = None" using prep \<open>e1 = None\<close> r1 r2 assms(3-5) by auto
      then show ?thesis using pre post None \<open>e1 = None\<close> by simp
    next
      case (Some e)
      obtain b3 errs where ra: "run_all env b2 cleanup_commands = (b3, errs)" by fastforce
      have "b' = fst (plan_Cleanup env b2)" "err = Some e" using prep \<open>e1 = None\<close> Some r1 r2 assms(3-5) by auto
      then have "br_trace b' = br_trace b @ install_commands (br_plan b) @ post @ cleanup_commands"
        using pre post ra run_all_trace [OF ra] assms(4) \<open>e1 = None\<close>
        by (simp add: plan_Cleanup_def plan_cleanup_def)
      then show ?thesis using post(1) post(4) Some \<open>err = Some e\<close> by auto
    qed
  qed
qed

definition demo_broker :: Broker where
  "demo_broker = \<lparr>br_plan = \<lparr>ap_domains = [''a.io''], ap_ips = [''1.2.3.4''], ap_resolvers = [], ap_commands = []\<rparr>,
     br_require_root = True, br_previous = [], br_trace = [], br_interval = 0, br_refreshing = False, br_loop = False\<rparr>"

definition demo_broker_env :: "nat set \<Rightarrow> broker_env" where
  "demo_broker_env bad = \<lparr>bn_root = True, bn_forward = Some ''0'', bn_fails = (\<lambda>n. if n \<in> bad then Some ''no'' else None),
     bn_resolve = (\<lambda>_. Some [(''a.io'', [Some ''5.6.7.8''])]), bn_nameservers = Some []\<rparr>"

lemma run_commands_ok: "\<forall>n. bn_fails env n = None \<Longrightarrow> run_commands env b cs = (b\<lparr>br_trace := br_trace b @ cs\<rparr>, None)"
  by (induction cs arbitrary: b) (simp_all add: run_command_def)

theorem prepare_cleans_up_witness:
  "br_trace (fst (Broker_Prepare (demo_broker_env {}) demo_broker 7)) = install_commands (br_plan demo_broker) @ peer_commands 7"
proof -
  obtain b' err where p: "Broker_Prepare (demo_broker_env {}) demo_broker 7 = (b', err)" by fastforce
  have "\<forall>n. bn_fails (demo_broker_env {}) n = None" by (simp add: demo_broker_env_def)
  then have "err = None"
    using p by (auto simp: Broker_Prepare_def plan_install_def run_commands_ok demo_broker_def demo_broker_env_def)
  moreover have "trim_space ''0'' \<noteq> []" by code_simp
  ultimately show ?thesis
    using prepare_cleans_up [OF p, of "''0''"] p by (simp add: demo_broker_def demo_broker_env_def)
qed

subsection \<open>The refresh is atomic\<close>

text \<open>
  What \<open>ipset\<close> documents of the commands used: \<open>members k n\<close> are the addresses in the set \<open>n\<close>;
  flushing empties a set, adding puts an address in, swapping exchanges two sets, and a command
  touches only the sets it names.
\<close>

definition ipset_laws :: "(command \<Rightarrow> 'k \<Rightarrow> 'k) \<Rightarrow> ('k \<Rightarrow> string \<Rightarrow> string set) \<Rightarrow> bool" where
  "ipset_laws exec members =
     ((\<forall>n k. members (exec [''ipset'', ''flush'', n] k) = (members k)(n := {})) \<and>
      (\<forall>n ip k. members (exec (add_to n ip) k) = (members k)(n := insert ip (members k n))) \<and>
      (\<forall>a b k. members (exec [''ipset'', ''swap'', a, b] k) = (members k)(a := members k b, b := members k a)) \<and>
      (\<forall>n m k. m \<noteq> n \<longrightarrow> members (exec [''ipset'', ''create'', n, ''hash:ip'', ''family'', ''inet'', ''-exist''] k) m = members k m) \<and>
      (\<forall>n m k. m \<noteq> n \<longrightarrow> members (exec [''ipset'', ''destroy'', n] k) m = members k m))"

text \<open>The effect of the commands from the \<open>i\<close>-th on; a command that fails has none.\<close>

fun effects :: "(command \<Rightarrow> 'k \<Rightarrow> 'k) \<Rightarrow> broker_env \<Rightarrow> nat \<Rightarrow> command list \<Rightarrow> 'k \<Rightarrow> 'k" where
  "effects exec env i [] k = k"
| "effects exec env i (c # cs) k = effects exec env (Suc i) cs (if bn_fails env i = None then exec c k else k)"

lemma effects_append: "effects exec env i (a @ b) k = effects exec env (i + length a) b (effects exec env i a k)"
  by (induction a arbitrary: i k) simp_all

definition fill_commands :: "string list \<Rightarrow> command list" where
  "fill_commands ips =
     [[''ipset'', ''create'', next_set, ''hash:ip'', ''family'', ''inet'', ''-exist''], [''ipset'', ''flush'', next_set]] @
     map (add_to next_set) ips"

lemma refresh_split: "refresh_commands ips =
    fill_commands ips @ [[''ipset'', ''swap'', allowlist_set, next_set], [''ipset'', ''destroy'', next_set]]"
  by (simp add: refresh_commands_def fill_commands_def)

lemma sets_differ: "allowlist_set \<noteq> next_set"
  by (simp add: allowlist_set_def next_set_def)

lemma fill_keeps_active:
  assumes "ipset_laws exec members" and "set cs \<subseteq> set (fill_commands ips)"
  shows "members (effects exec env i cs k) allowlist_set = members k allowlist_set"
  using assms(2)
proof (induction cs arbitrary: i k)
  case (Cons c cs)
  then have "c \<in> set (fill_commands ips)" by simp
  then have "members (exec c k) allowlist_set = members k allowlist_set" for k
    using assms(1) sets_differ by (auto simp: fill_commands_def ipset_laws_def)
  then show ?case using Cons by simp
qed simp

lemma adds_fill:
  assumes "ipset_laws exec members" and "\<forall>j < length ips. bn_fails env (i + j) = None"
  shows "members (effects exec env i (map (add_to n) ips) k) n = members k n \<union> set ips"
  using assms(2)
proof (induction ips arbitrary: i k)
  case (Cons ip ips)
  have "bn_fails env i = None" using Cons.prems by force
  moreover have "\<forall>j < length ips. bn_fails env (Suc i + j) = None" using Cons.prems by (metis add_Suc_shift Suc_less_eq length_Cons)
  moreover have "members (exec (add_to n ip) k) n = insert ip (members k n)" using assms(1) by (simp add: ipset_laws_def)
  ultimately show ?case using Cons.IH [of "Suc i" "exec (add_to n ip) k"] by simp
qed simp

lemma fill_fills:
  assumes "ipset_laws exec members" and "\<forall>j < length (fill_commands ips). bn_fails env (i + j) = None"
  shows "members (effects exec env i (fill_commands ips) k) next_set = set ips"
proof -
  have f: "bn_fails env i = None" "bn_fails env (Suc i) = None" "\<forall>j < length ips. bn_fails env (Suc (Suc i) + j) = None"
    using assms(2) [rule_format, of 0] assms(2) [rule_format, of 1] assms(2) [rule_format, of "Suc (Suc _)"]
    by (simp_all add: fill_commands_def)
  show ?thesis
    using assms(1) adds_fill [OF assms(1) f(3)] f(1,2) by (simp add: fill_commands_def ipset_laws_def)
qed

lemma run_commands_active:
  assumes "ipset_laws exec members" and "run_commands env b (refresh_commands ips) = (b', err)"
    and "done_cmds = drop (length (br_trace b)) (br_trace b')"
  shows "members (effects exec env (length (br_trace b)) (take n done_cmds) k) allowlist_set \<in> {members k allowlist_set, set ips} \<and>
     (err = None \<longrightarrow> members (effects exec env (length (br_trace b)) done_cmds k) allowlist_set = set ips)"
proof -
  let ?i = "length (br_trace b)" and ?swap = "[''ipset'', ''swap'', allowlist_set, next_set]"
    and ?destroy = "[''ipset'', ''destroy'', next_set]"
  from run_commands_trace [OF assms(2)] assms(3) have done_cmds: "prefix done_cmds (refresh_commands ips)"
    "err = None \<Longrightarrow> done_cmds = refresh_commands ips"
    "\<And>j. j < length done_cmds \<Longrightarrow> bn_fails env (?i + j) \<noteq> None \<longleftrightarrow> err \<noteq> None \<and> Suc j = length done_cmds"
    by auto
  have active: "members (effects exec env ?i xs k) allowlist_set \<in> {members k allowlist_set, set ips} \<and>
      (xs = refresh_commands ips \<longrightarrow> err = None \<longrightarrow> members (effects exec env ?i xs k) allowlist_set = set ips)"
    if xs: "prefix xs done_cmds" for xs
  proof (cases "prefix xs (fill_commands ips)")
    case True
    then have "length xs < length (refresh_commands ips)" by (auto simp: refresh_split dest: prefix_length_le)
    moreover have "set xs \<subseteq> set (fill_commands ips)" using True set_mono_prefix by blast
    ultimately show ?thesis using fill_keeps_active [OF assms(1)] by auto
  next
    case False
    have "prefix xs (fill_commands ips @ [?swap, ?destroy])"
      using prefix_order.trans [OF xs done_cmds(1)] unfolding refresh_split .
    then obtain ys where ys: "xs = fill_commands ips @ ys" "prefix ys [?swap, ?destroy]" "ys \<noteq> []"
      using False by (auto simp: prefix_append)
    then have l: "length (fill_commands ips) < length done_cmds" using xs prefix_length_le [of xs done_cmds] by (cases ys) auto
    then have ok: "\<forall>j < length (fill_commands ips). bn_fails env (?i + j) = None"
      using done_cmds(3) by (metis Suc_leI less_trans not_less)
    define k1 where "k1 = effects exec env ?i (fill_commands ips) k"
    have k1: "members k1 next_set = set ips" "members k1 allowlist_set = members k allowlist_set"
      using fill_fills [OF assms(1) ok] fill_keeps_active [OF assms(1) subset_refl] by (simp_all add: k1_def)
    let ?s = "?i + length (fill_commands ips)"
    have sw: "members (exec ?swap k1) allowlist_set = set ips" using assms(1) k1 sets_differ by (simp add: ipset_laws_def)
    have de: "members (exec ?destroy k2) allowlist_set = members k2 allowlist_set" for k2
      using assms(1) sets_differ by (simp add: ipset_laws_def)
    have e: "effects exec env ?i xs k = effects exec env ?s ys k1" by (simp add: ys(1) effects_append k1_def)
    have "bn_fails env ?s = None" if "err = None" using done_cmds(3) [OF l] that by simp
    moreover have "ys = [?swap] \<or> ys = [?swap, ?destroy]"
      using ys(2,3) by (auto simp: prefix_Cons)
    then have "members (effects exec env ?s ys k1) allowlist_set =
        (if bn_fails env ?s = None then set ips else members k allowlist_set)"
      by (elim disjE) (simp_all add: sw de k1)
    ultimately show ?thesis unfolding e by (cases "bn_fails env ?s") auto
  qed
  show ?thesis using active [of "take n done_cmds"] active [of done_cmds] done_cmds(2) by (auto simp: take_is_prefix)
qed

text \<open>
  Refreshing is atomic for the packet filter: whichever command fails, at every moment the
  active set holds either all of the old addresses or all of the new ones; it holds the new ones,
  and the plan records them, if the refresh succeeds, and the plan is unchanged if it fails.
\<close>

theorem refresh_is_atomic:
  assumes "ipset_laws exec members" and "Broker_Refresh env b = (b', err)"
    and "done_cmds = drop (length (br_trace b)) (br_trace b')"
  shows "\<exists>new. (\<forall>n. members (effects exec env (length (br_trace b)) (take n done_cmds) k) allowlist_set
                     \<in> {members k allowlist_set, new}) \<and>
     (err \<noteq> None \<longrightarrow> br_plan b' = br_plan b) \<and>
     (err = None \<longrightarrow> members (effects exec env (length (br_trace b)) done_cmds k) allowlist_set = new \<and>
        new = set (ap_ips (br_plan b')) \<union> set (ap_resolvers (br_plan b')) \<and> ap_ips (br_plan b') \<noteq> [])"
proof -
  have "(b' = b \<and> err \<noteq> None) \<or> (\<exists>ips rs b1 e. ips \<noteq> [] \<and> run_commands env b (refresh_commands (ips @ rs)) = (b1, e) \<and>
      (if e = None then err = None \<and> b' = b1\<lparr>br_plan := (br_plan b1)\<lparr>ap_ips := ips, ap_resolvers := rs\<rparr>\<rparr>
       else err = e \<and> b' = b1))"
    using assms(2) unfolding Broker_Refresh_def Let_def
    by (cases "br_require_root b \<and> \<not> bn_root env"; cases "ap_domains (br_plan b) = []")
      (auto split: option.splits if_splits prod.splits)
  then show ?thesis
  proof
    assume "b' = b \<and> err \<noteq> None"
    then show ?thesis using assms(3) by auto
  next
    assume "\<exists>ips rs b1 e. ips \<noteq> [] \<and> run_commands env b (refresh_commands (ips @ rs)) = (b1, e) \<and>
      (if e = None then err = None \<and> b' = b1\<lparr>br_plan := (br_plan b1)\<lparr>ap_ips := ips, ap_resolvers := rs\<rparr>\<rparr>
       else err = e \<and> b' = b1)"
    then obtain ips rs b1 e where r: "ips \<noteq> []" "run_commands env b (refresh_commands (ips @ rs)) = (b1, e)"
      "if e = None then err = None \<and> b' = b1\<lparr>br_plan := (br_plan b1)\<lparr>ap_ips := ips, ap_resolvers := rs\<rparr>\<rparr>
       else err = e \<and> b' = b1" by blast
    have t: "done_cmds = drop (length (br_trace b)) (br_trace b1)" using r(3) assms(3) by (auto split: if_splits)
    have p: "br_plan b1 = br_plan b" using run_commands_trace [OF r(2)] by auto
    note act = run_commands_active [OF assms(1) r(2) t]
    show ?thesis
      using act r(1,3) p by (intro exI [of _ "set (ips @ rs)"]) (auto split: if_splits)
  qed
qed

text \<open>A kernel that is the map of its sets, for which the laws hold.\<close>

definition set_exec :: "command \<Rightarrow> (string \<Rightarrow> string set) \<Rightarrow> string \<Rightarrow> string set" where
  "set_exec c m =
     (case c of
        [_, v, n] \<Rightarrow> if v = ''flush'' then m(n := {}) else m
      | [_, v, a, b] \<Rightarrow> if v = ''swap'' then m(a := m b, b := m a) else m
      | [_, v, n, ip, _] \<Rightarrow> if v = ''add'' then m(n := insert ip (m n)) else m
      | _ \<Rightarrow> m)"

theorem refresh_is_atomic_witness:
  "let (b', err) = Broker_Refresh (demo_broker_env {}) demo_broker in
   effects set_exec (demo_broker_env {}) 0 (br_trace b') (\<lambda>_. {''1.2.3.4''}) allowlist_set = {''5.6.7.8''} \<and> err = None"
proof -
  have laws: "ipset_laws set_exec (\<lambda>k. k)" by (simp add: ipset_laws_def set_exec_def add_to_def fun_eq_iff)
  obtain b' err where r: "Broker_Refresh (demo_broker_env {}) demo_broker = (b', err)" by fastforce
  have "\<forall>n. bn_fails (demo_broker_env {}) n = None" by (simp add: demo_broker_env_def)
  then have e: "err = None" "ap_ips (br_plan b') = [''5.6.7.8'']" "ap_resolvers (br_plan b') = []"
    using r by (auto simp: Broker_Refresh_def run_commands_ok demo_broker_def demo_broker_env_def Let_def
        flattenIPs_def normalizeIPs_def)
  have "br_trace demo_broker = []" by (simp add: demo_broker_def)
  then show ?thesis
    using refresh_is_atomic [OF laws r refl, of "\<lambda>_. {''1.2.3.4''}"] e r by auto
qed

end
