(* ===== verification/Cgroup.thy ===== *)
theory Cgroup
  imports Go_Path Go_Glob "HOL-Library.Word"
begin

text \<open>
  \<open>internal/cgroup/scope.go\<close>: the process scope of a run, a directory of the cgroup-v2 file system.
  What its files say and which calls fail is the environment's choice: reading a file at the
  \<open>n\<close>-th look, writing, making and removing directories, killing.  The calls that change something
  are the trace.
\<close>

datatype looked = Text string | NotThere | Unreadable
datatype wrote = Done | WriteMissing | WriteInvalid | WriteFailed
datatype killed = Killed | Gone | KillFailed
datatype removal = Removed | RemoveMissing | RemoveFailed

datatype cgroup_error =
    UnsafePath path | ScopeStat path | RootRequired | RunRequired | CgroupUnavailable path | NoControllers path
  | ParentFailed | DelegationUnreadable | EnableFailed "string list" | ScopeExists path | ScopeAndPid
  | AddFailed path | ScopeRequired | LimitFailed string | TerminateFailed path | MembersUnreadable path
  | KillsFailed "int list" | CloseFailed path | ProcessesRemain path

datatype cg_action = Wrote path string | MadeDir path | KilledPid int | RemovedDir path

record cg_env =
  cg_cwd :: path
  cg_stat :: "path \<Rightarrow> looked"
  cg_read :: "path \<Rightarrow> nat \<Rightarrow> looked"
  cg_write :: "path \<Rightarrow> wrote"
  cg_mkdir_all :: "path \<Rightarrow> bool"
  cg_mkdir :: "path \<Rightarrow> bool"
  cg_kill :: "int \<Rightarrow> killed"
  cg_remove :: "path \<Rightarrow> removal"
  cg_late :: "nat \<Rightarrow> bool"

record Limits =
  lim_pids :: string
  lim_memory :: string
  lim_cpu :: string

type_synonym Scope = path

definition defaultRoot :: path where "defaultRoot = ''/sys/fs/cgroup''"

definition FromPath :: "cg_env \<Rightarrow> path \<Rightarrow> cgroup_error + Scope" where
  "FromPath env p =
     (let cl = clean p; pre = path_join (clean defaultRoot) ''rewind'' @ [sep] in
      if \<not> prefix pre cl then Inl (UnsafePath p)
      else (case cg_stat env cl of
              NotThere \<Rightarrow> Inr []
            | Unreadable \<Rightarrow> Inl (ScopeStat cl)
            | Text _ \<Rightarrow> Inr cl))"

definition safe_char :: "char \<Rightarrow> bool" where
  "safe_char c = ((CHR ''a'' \<le> c \<and> c \<le> CHR ''z'') \<or> (CHR ''A'' \<le> c \<and> c \<le> CHR ''Z'') \<or> is_digit c \<or>
     c = CHR ''-'' \<or> c = CHR ''_'')"

text \<open>\<open>sanitize\<close> goes by runes: a rune that is not one of the safe characters becomes one hyphen.\<close>

function sanitize :: "string \<Rightarrow> string" where
  "sanitize [] = []"
| "sanitize (c # cs) =
     (if byte_val c < 128 then (if safe_char c then c else CHR ''-'') # sanitize cs
      else CHR ''-'' # sanitize (drop (snd (decode_rune (c # cs))) (c # cs)))"
  by pat_completeness auto
termination
proof (relation "measure length", goal_cases)
  case (3 c cs)
  then show ?case using decode_rune_pos [of "c # cs"] by simp
qed simp_all

definition containsWord :: "string \<Rightarrow> string \<Rightarrow> bool" where
  "containsWord v wanted = list_ex (\<lambda>item. trim_prefix ''+'' item = wanted) (str_fields v)"

definition wanted_controllers :: "Limits \<Rightarrow> string list" where
  "wanted_controllers l =
     (if blank (lim_pids l) then [] else [''pids'']) @ (if blank (lim_memory l) then [] else [''memory'']) @
     (if blank (lim_cpu l) then [] else [''cpu''])"

definition enableControllers :: "cg_env \<Rightarrow> path \<Rightarrow> Limits \<Rightarrow> cg_action list \<times> cgroup_error option" where
  "enableControllers env parent limits =
     (let wanted = wanted_controllers limits; control = path_join parent ''cgroup.subtree_control'' in
      if wanted = [] then ([], None)
      else (case cg_read env control 0 of
              Text active \<Rightarrow>
                (let missing = map (\<lambda>c. ''+'' @ c) (filter (\<lambda>c. \<not> containsWord active c) wanted) in
                 if missing = [] then ([], None)
                 else if cg_write env control = Done
                 then ([Wrote control (join_with '' '' missing @ [CHR 0x0A])], None)
                 else ([], Some (EnableFailed wanted)))
            | _ \<Rightarrow> ([], Some DelegationUnreadable)))"

definition NewAtWithLimits ::
  "cg_env \<Rightarrow> path \<Rightarrow> string \<Rightarrow> Limits \<Rightarrow> cg_action list \<times> (cgroup_error + Scope)" where
  "NewAtWithLimits env root0 runID limits =
     (if blank root0 then ([], Inl RootRequired)
      else if blank runID then ([], Inl RunRequired)
      else (let root = abs_path (cg_cwd env) root0; parent = path_join root ''rewind'' in
        case cg_read env (path_join root ''cgroup.controllers'') 0 of
          Text controllers \<Rightarrow>
            if trim_space controllers = [] then ([], Inl (NoControllers root))
            else if \<not> cg_mkdir_all env parent then ([], Inl ParentFailed)
            else (case enableControllers env parent limits of
                    (acts, Some e) \<Rightarrow> (MadeDir parent # acts, Inl e)
                  | (acts, None) \<Rightarrow>
                      let p = path_join parent (''run-'' @ sanitize runID) in
                      if \<not> cg_mkdir env p then (MadeDir parent # acts, Inl (ScopeExists p))
                      else (MadeDir parent # acts @ [MadeDir p], Inr p))
        | _ \<Rightarrow> ([], Inl (CgroupUnavailable root))))"

definition no_limits :: Limits where "no_limits = \<lparr>lim_pids = [], lim_memory = [], lim_cpu = []\<rparr>"

definition NewAt :: "cg_env \<Rightarrow> path \<Rightarrow> string \<Rightarrow> cg_action list \<times> (cgroup_error + Scope)" where
  "NewAt env root runID = NewAtWithLimits env root runID no_limits"

definition cgroup_New :: "cg_env \<Rightarrow> string \<Rightarrow> cg_action list \<times> (cgroup_error + Scope)" where
  "cgroup_New env runID = NewAt env defaultRoot runID"

definition AddPID :: "cg_env \<Rightarrow> Scope \<Rightarrow> 32 word \<Rightarrow> cg_action list \<times> cgroup_error option" where
  "AddPID env s pid =
     (if s = [] \<or> pid = 0 then ([], Some ScopeAndPid)
      else (let p = path_join s ''cgroup.procs'' in
            if cg_write env p = Done then ([Wrote p (show_nat (unat pid))], None) else ([], Some (AddFailed s))))"

fun configure_files :: "cg_env \<Rightarrow> Scope \<Rightarrow> (string \<times> string) list \<Rightarrow> cg_action list \<times> cgroup_error option" where
  "configure_files env s [] = ([], None)"
| "configure_files env s ((n, v) # rest) =
     (if blank v then configure_files env s rest
      else if cg_write env (path_join s n) \<noteq> Done then ([], Some (LimitFailed n))
      else (case configure_files env s rest of
              (acts, e) \<Rightarrow> (Wrote (path_join s n) (trim_space v @ [CHR 0x0A]) # acts, e)))"

definition Configure :: "cg_env \<Rightarrow> Scope \<Rightarrow> Limits \<Rightarrow> cg_action list \<times> cgroup_error option" where
  "Configure env s l =
     (if s = [] then ([], Some ScopeRequired)
      else configure_files env s [(''pids.max'', lim_pids l), (''memory.max'', lim_memory l), (''cpu.max'', lim_cpu l)])"

text \<open>\<open>strconv.Atoi\<close> on a 64-bit host.\<close>

definition atoi :: "string \<Rightarrow> int option" where
  "atoi s =
     (let (neg, d) = (case s of [] \<Rightarrow> (False, []) | c # r \<Rightarrow> if c = CHR ''-'' then (True, r)
                        else if c = CHR ''+'' then (False, r) else (False, s)) in
      if d = [] \<or> \<not> list_all is_digit d then None
      else if neg then (if digits_value d \<le> 2 ^ 63 then Some (- int (digits_value d)) else None)
      else (if digits_value d < 2 ^ 63 then Some (int (digits_value d)) else None))"

fun kill_members :: "cg_env \<Rightarrow> string list \<Rightarrow> cg_action list \<times> int list" where
  "kill_members env [] = ([], [])"
| "kill_members env (l # ls) =
     (case kill_members env ls of
        (acts, errs) \<Rightarrow>
          (case atoi l of
             None \<Rightarrow> (acts, errs)
           | Some pid \<Rightarrow>
               if pid < 1 then (acts, errs)
               else (KilledPid pid # acts, (if cg_kill env pid = KillFailed then [pid] else []) @ errs)))"

definition Terminate :: "cg_env \<Rightarrow> Scope \<Rightarrow> cg_action list \<times> cgroup_error option" where
  "Terminate env s =
     (if s = [] then ([], None)
      else (case cg_write env (path_join s ''cgroup.kill'') of
              Done \<Rightarrow> ([Wrote (path_join s ''cgroup.kill'') ''1\<newline>''], None)
            | WriteFailed \<Rightarrow> ([], Some (TerminateFailed s))
            | _ \<Rightarrow>
                (case cg_read env (path_join s ''cgroup.procs'') 0 of
                   Text members \<Rightarrow>
                     (case kill_members env (str_fields members) of
                        (acts, errs) \<Rightarrow> (acts, if errs = [] then None else Some (KillsFailed errs)))
                 | _ \<Rightarrow> ([], Some (MembersUnreadable s)))))"

text \<open>One round of the loop of \<open>Close\<close>, at the \<open>n\<close>-th look; \<open>None\<close> goes on.\<close>

definition close_try :: "cg_env \<Rightarrow> Scope \<Rightarrow> nat \<Rightarrow> (cg_action list \<times> cgroup_error option) option" where
  "close_try env s n =
     (let data = cg_read env (path_join s ''cgroup.procs'') n;
          text = (case data of Text t \<Rightarrow> t | _ \<Rightarrow> []) in
      if data = Unreadable then Some ([], Some (MembersUnreadable s))
      else if trim_space text = [] then
        Some (case cg_remove env s of
                Removed \<Rightarrow> ([RemovedDir s], None)
              | RemoveMissing \<Rightarrow> ([], None)
              | RemoveFailed \<Rightarrow> ([], Some (CloseFailed s)))
      else if cg_late env n then Some ([], Some (ProcessesRemain s))
      else None)"

definition scope_Close :: "cg_env \<Rightarrow> Scope \<Rightarrow> (cg_action list \<times> cgroup_error option) option" where
  "scope_Close env s = (if s = [] then Some ([], None) else poll (close_try env s) 0)"

subsection \<open>Names\<close>

lemma sanitize_safe: "c \<in> set (sanitize s) \<Longrightarrow> safe_char c"
  by (induction s rule: sanitize.induct) (auto simp: safe_char_def split: if_splits)

lemma safe_not_sep: "\<not> safe_char sep"
  by (simp add: safe_char_def is_digit_def less_eq_char_def)

lemma run_name_plain: "segs (''run-'' @ sanitize r) = [''run-'' @ sanitize r]" "''run-'' @ sanitize r \<noteq> dotdot"
proof -
  have "sep \<notin> set (''run-'' @ sanitize r)" using sanitize_safe [of sep r] safe_not_sep by auto
  then have "plain_seg (''run-'' @ sanitize r)" by (simp add: plain_seg_def)
  then show "segs (''run-'' @ sanitize r) = [''run-'' @ sanitize r]"
    using segs_join [of "[''run-'' @ sanitize r]"] by simp
qed simp

lemma segs_rewind: "segs ''rewind'' = [''rewind'']"
  using segs_join [of "[''rewind'']"] by (simp add: plain_seg_def)

lemma abs_path_is_abs: "is_abs cwd \<Longrightarrow> is_abs (abs_path cwd p)"
  by (simp add: abs_path_def path_join_abs)

lemma new_scope_path:
  assumes "NewAtWithLimits env root runID limits = (acts, Inr s)" and "is_abs (cg_cwd env)"
  shows "is_abs s \<and> clean s = s \<and> csegs s = csegs (abs_path (cg_cwd env) root) @ [''rewind'', ''run-'' @ sanitize runID]"
proof -
  let ?parent = "path_join (abs_path (cg_cwd env) root) ''rewind''"
  have s: "s = path_join ?parent (''run-'' @ sanitize runID)"
    using assms(1) by (auto simp: NewAtWithLimits_def Let_def split: if_splits looked.splits prod.splits option.splits)
  have a: "is_abs (abs_path (cg_cwd env) root)" by (rule abs_path_is_abs [OF assms(2)])
  then have p: "is_abs ?parent" "csegs ?parent = csegs (abs_path (cg_cwd env) root) @ [''rewind'']"
    using csegs_join_plain [OF a, of "''rewind''"] by (simp_all add: path_join_abs segs_rewind)
  have "?parent \<noteq> []" using p(1) by (auto simp: is_abs_def)
  then have "clean s = s" by (simp add: s path_join_def)
  moreover have "dotdot \<notin> set (segs (''run-'' @ sanitize runID))"
    using run_name_plain [of runID] by auto
  ultimately show ?thesis
    using p csegs_join_plain [OF p(1), of "''run-'' @ sanitize runID"] run_name_plain(1) [of runID]
    by (simp add: s path_join_abs)
qed

lemma default_root: "is_abs defaultRoot" "csegs defaultRoot = [''sys'', ''fs'', ''cgroup'']"
  by (simp add: defaultRoot_def, code_simp)

lemma rewind_prefix: "path_join (clean defaultRoot) ''rewind'' = ''/sys/fs/cgroup/rewind''"
  by code_simp

text \<open>
  Scopes reopen: whatever the run is called, the scope made for it is one directory directly
  below \<open>rewind\<close> in the cgroup tree, with a name of safe characters, and reopening the persisted
  path later gives the same scope, while a path outside \<open>rewind\<close> is refused.
\<close>

theorem scope_reopens:
  assumes "cgroup_New env runID = (acts, Inr s)" and "is_abs (cg_cwd env)" and "cg_stat env' s = Text t"
  shows "csegs s = [''sys'', ''fs'', ''cgroup'', ''rewind'', ''run-'' @ sanitize runID] \<and>
     list_all safe_char (sanitize runID) \<and> FromPath env' s = Inr s \<and>
     (\<forall>p. FromPath env' p \<noteq> Inl (UnsafePath p) \<longrightarrow> prefix [''sys'', ''fs'', ''cgroup'', ''rewind''] (csegs p))"
proof (intro conjI allI impI)
  have "abs_path (cg_cwd env) defaultRoot = clean defaultRoot" by (simp add: abs_path_def default_root)
  then have s: "is_abs s" "clean s = s" "csegs s = [''sys'', ''fs'', ''cgroup'', ''rewind'', ''run-'' @ sanitize runID]"
    using new_scope_path [of env defaultRoot runID no_limits acts s] assms(1,2)
    by (simp_all add: cgroup_New_def NewAt_def default_root)
  show "csegs s = [''sys'', ''fs'', ''cgroup'', ''rewind'', ''run-'' @ sanitize runID]" by (rule s(3))
  show "list_all safe_char (sanitize runID)" using sanitize_safe by (auto simp: list_all_iff)
  have "s = ''/sys/fs/cgroup/rewind/'' @ ''run-'' @ sanitize runID" using clean_abs [OF s(1)] s(2,3) by simp
  then have "prefix ''/sys/fs/cgroup/rewind/'' s" by (simp add: prefix_def)
  then show "FromPath env' s = Inr s" using s(2) assms(3) by (simp add: FromPath_def rewind_prefix)
next
  fix p assume "FromPath env' p \<noteq> Inl (UnsafePath p)"
  then have "prefix ''/sys/fs/cgroup/rewind/'' (clean p)"
    by (auto simp: FromPath_def rewind_prefix Let_def split: if_splits)
  then obtain u where u: "clean p = ''/sys/fs/cgroup/rewind'' @ sep # u" by (auto simp: prefix_def)
  then have "is_abs (clean p)" by (simp add: is_abs_def)
  then have "is_abs p" by simp
  have "segs (clean p) = segs ''/sys/fs/cgroup/rewind'' @ segs u" unfolding u by (rule segs_append_sep)
  moreover have "segs ''/sys/fs/cgroup/rewind'' = [''sys'', ''fs'', ''cgroup'', ''rewind'']" by code_simp
  moreover have "segs (clean p) = csegs p"
    using clean_abs [OF \<open>is_abs p\<close>] segs_join [of "csegs p"] csegs_plain by simp
  ultimately show "prefix [''sys'', ''fs'', ''cgroup'', ''rewind''] (csegs p)" by simp
qed

definition demo_cg :: cg_env where
  "demo_cg = \<lparr>cg_cwd = ''/'', cg_stat = (\<lambda>_. Text []), cg_read = (\<lambda>_ _. Text ''cpu pids''), cg_write = (\<lambda>_. Done),
     cg_mkdir_all = (\<lambda>_. True), cg_mkdir = (\<lambda>_. True), cg_kill = (\<lambda>_. Killed), cg_remove = (\<lambda>_. Removed),
     cg_late = (\<lambda>n. 2 < n)\<rparr>"

theorem scope_reopens_witness:
  "\<exists>acts s. cgroup_New demo_cg ''r/1'' = (acts, Inr s) \<and> FromPath demo_cg s = Inr s"
proof -
  have b: "\<not> blank defaultRoot" "\<not> blank ''r/1''" "trim_space ''cpu pids'' \<noteq> []" "blank []" by (code_simp, code_simp, code_simp, code_simp)
  obtain acts s where n: "cgroup_New demo_cg ''r/1'' = (acts, Inr s)"
    using b by (simp add: cgroup_New_def NewAt_def NewAtWithLimits_def Let_def demo_cg_def enableControllers_def
        wanted_controllers_def no_limits_def)
  have "is_abs (cg_cwd demo_cg)" "cg_stat demo_cg s = Text []" by (simp_all add: demo_cg_def)
  from scope_reopens [OF n this] n show ?thesis by blast
qed

subsection \<open>Closing\<close>

text \<open>The scope is busy at a look if it has members and the deadline has not passed.\<close>

definition busy :: "cg_env \<Rightarrow> Scope \<Rightarrow> nat \<Rightarrow> bool" where
  "busy env s n = (case cg_read env (path_join s ''cgroup.procs'') n of
     Text t \<Rightarrow> trim_space t \<noteq> [] \<and> \<not> cg_late env n | _ \<Rightarrow> False)"

definition close_outcome :: "cg_env \<Rightarrow> Scope \<Rightarrow> looked \<Rightarrow> cg_action list \<times> cgroup_error option" where
  "close_outcome env s look =
     (case look of
        Unreadable \<Rightarrow> ([], Some (MembersUnreadable s))
      | _ \<Rightarrow>
          if (case look of Text t \<Rightarrow> trim_space t \<noteq> [] | _ \<Rightarrow> False) then ([], Some (ProcessesRemain s))
          else (case cg_remove env s of
                  Removed \<Rightarrow> ([RemovedDir s], None) | RemoveMissing \<Rightarrow> ([], None) | RemoveFailed \<Rightarrow> ([], Some (CloseFailed s))))"

lemma trim_Nil: "trim_space [] = []"
  by code_simp

lemma close_try_busy:
  "close_try env s n = (if busy env s n then None
     else Some (close_outcome env s (cg_read env (path_join s ''cgroup.procs'') n)))"
  by (auto simp: close_try_def Let_def busy_def close_outcome_def trim_Nil split: looked.splits removal.splits)

text \<open>
  Closing a scope ends exactly if the scope is once not busy, and its outcome is decided by
  the first such look: the directory is removed only when that look shows no members; members
  that are still there at the deadline are an error.
\<close>

theorem close_decided_by_first_idle_look:
  assumes "s \<noteq> []"
  shows "scope_Close env s =
    (if \<forall>n. busy env s n then None
     else Some (close_outcome env s (cg_read env (path_join s ''cgroup.procs'') (LEAST n. \<not> busy env s n))))"
proof -
  have idle: "(\<lambda>n. close_try env s n \<noteq> None) = (\<lambda>n. \<not> busy env s n)" by (simp add: close_try_busy fun_eq_iff)
  show ?thesis
  proof (cases "\<forall>n. busy env s n")
    case False
    then obtain m where "\<not> busy env s m" by blast
    then have "\<not> busy env s (LEAST n. \<not> busy env s n)" by (rule LeastI)
    then show ?thesis
      using False assms unfolding scope_Close_def poll_first idle by (simp add: close_try_busy)
  qed (use assms in \<open>simp add: scope_Close_def poll_forever close_try_busy\<close>)
qed

theorem close_decided_by_first_idle_look_witness:
  "scope_Close demo_cg ''/s'' = Some ([], Some (ProcessesRemain ''/s''))"
proof -
  have t: "trim_space ''cpu pids'' \<noteq> []" by code_simp
  have "\<not> busy demo_cg ''/s'' 3" using t by (simp add: busy_def demo_cg_def)
  moreover have "close_outcome demo_cg ''/s'' (cg_read demo_cg p n) = ([], Some (ProcessesRemain ''/s''))" for p n
    using t by (simp add: close_outcome_def demo_cg_def)
  ultimately show ?thesis using close_decided_by_first_idle_look [of "''/s''" demo_cg] by auto
qed

subsection \<open>Terminating\<close>

lemma kill_members_all:
  "kill_members env ls = (acts, []) \<Longrightarrow> l \<in> set ls \<Longrightarrow> atoi l = Some pid \<Longrightarrow> 1 \<le> pid \<Longrightarrow>
     KilledPid pid \<in> set acts \<and> cg_kill env pid \<noteq> KillFailed"
  by (induction ls arbitrary: acts) (auto split: prod.splits option.splits if_splits)

text \<open>
  A termination that reports success has reached every member: the kernel took the kill
  request for the whole scope, or every process listed as a member was killed or already gone.
\<close>

theorem terminate_reaches_every_member:
  assumes "Terminate env s = (acts, None)" and "s \<noteq> []"
  shows "Wrote (path_join s ''cgroup.kill'') ''1\<newline>'' \<in> set acts \<or>
    (\<exists>members. cg_read env (path_join s ''cgroup.procs'') 0 = Text members \<and>
       (\<forall>l \<in> set (str_fields members). \<forall>pid. atoi l = Some pid \<longrightarrow> 1 \<le> pid \<longrightarrow>
          KilledPid pid \<in> set acts \<and> cg_kill env pid \<noteq> KillFailed))"
proof (cases "cg_write env (path_join s ''cgroup.kill'')")
  case Done
  then show ?thesis using assms by (auto simp: Terminate_def)
next
  case WriteFailed
  then show ?thesis using assms by (simp add: Terminate_def)
next
  case WriteMissing
  then show ?thesis using assms kill_members_all by (auto simp: Terminate_def split: looked.splits prod.splits if_splits)
next
  case WriteInvalid
  then show ?thesis using assms kill_members_all by (auto simp: Terminate_def split: looked.splits prod.splits if_splits)
qed

theorem terminate_reaches_every_member_witness:
  "Wrote (path_join ''/s'' ''cgroup.kill'') ''1\<newline>'' \<in> set (fst (Terminate demo_cg ''/s''))"
proof -
  have t: "Terminate demo_cg ''/s'' = ([Wrote (path_join ''/s'' ''cgroup.kill'') ''1\<newline>''], None)"
    by (simp add: Terminate_def demo_cg_def)
  from terminate_reaches_every_member [OF t] show ?thesis by (simp add: t)
qed

end
