(* ===== verification/History.thy ===== *)
theory History
  imports Go_Base "HOL-Library.Multiset"
begin

text \<open>
  \<open>internal/history\<close>: the index of runs, one JSON file.  Times are nanoseconds; the file holds the
  decoded entries, the codec being the identity on them.  \<open>sort.Slice\<close> leaves the order of equal
  keys open, so it is an argument, \<open>newest_first\<close> being what is known of it.
\<close>

record Entry =
  he_run :: string
  he_backend :: string
  he_state :: string
  he_workspace :: path
  he_record :: path
  he_upper :: int
  he_created :: int
  he_updated :: int

datatype hfile = HMissing | HUnreadable | HGarbled | HEntries "Entry list"

record Store =
  hs_path :: path
  hs_file :: hfile

datatype history_error =
  HistoryRead | HistoryDecode | RunIdRequired | NegativeKeep | HistoryPath | HistoryMkdir | HistoryWrite | HistoryCommit

text \<open>Which of the calls of \<open>write\<close> succeed.\<close>

record io_env =
  io_mkdir :: bool
  io_write :: bool
  io_rename :: bool

definition newest_first :: "(Entry list \<Rightarrow> Entry list) \<Rightarrow> bool" where
  "newest_first srt =
     (\<forall>xs. mset (srt xs) = mset xs \<and> sorted_wrt (\<lambda>a b. he_updated b \<le> he_updated a) (srt xs))"

definition history_List :: "(Entry list \<Rightarrow> Entry list) \<Rightarrow> Store \<Rightarrow> history_error + Entry list" where
  "history_List srt s =
     (case hs_file s of
        HMissing \<Rightarrow> Inr []
      | HUnreadable \<Rightarrow> Inl HistoryRead
      | HGarbled \<Rightarrow> Inl HistoryDecode
      | HEntries es \<Rightarrow> Inr (srt es))"

definition history_write :: "io_env \<Rightarrow> Store \<Rightarrow> Entry list \<Rightarrow> Store \<times> history_error option" where
  "history_write io s es =
     (if hs_path s = [] then (s, Some HistoryPath)
      else if \<not> io_mkdir io then (s, Some HistoryMkdir)
      else if \<not> io_write io then (s, Some HistoryWrite)
      else if \<not> io_rename io then (s, Some HistoryCommit)
      else (s\<lparr>hs_file := HEntries es\<rparr>, None))"

definition put_entry :: "Entry \<Rightarrow> Entry list \<Rightarrow> Entry list" where
  "put_entry e es =
     (case index_where (\<lambda>x. he_run x = he_run e) es of None \<Rightarrow> es @ [e] | Some i \<Rightarrow> es[i := e])"

definition Upsert ::
  "(Entry list \<Rightarrow> Entry list) \<Rightarrow> io_env \<Rightarrow> Entry \<Rightarrow> Store \<Rightarrow> Store \<times> history_error option" where
  "Upsert srt io e s =
     (if he_run e = [] then (s, Some RunIdRequired)
      else (case history_List srt s of
              Inl x \<Rightarrow> (s, Some x)
            | Inr es \<Rightarrow> history_write io s (put_entry e es)))"

definition PruneKeepLatest ::
  "(Entry list \<Rightarrow> Entry list) \<Rightarrow> io_env \<Rightarrow> int \<Rightarrow> Store \<Rightarrow> Store \<times> int \<times> history_error option" where
  "PruneKeepLatest srt io keep s =
     (if keep < 0 then (s, 0, Some NegativeKeep)
      else (case history_List srt s of
              Inl x \<Rightarrow> (s, 0, Some x)
            | Inr es \<Rightarrow>
                if int (length es) \<le> keep then (s, 0, None)
                else (case history_write io s (take (nat keep) es) of
                        (s', r) \<Rightarrow> (s', int (length es) - keep, r))))"

subsection \<open>The index as a map\<close>

definition stored_entries :: "Store \<Rightarrow> Entry list" where
  "stored_entries s = (case hs_file s of HEntries es \<Rightarrow> es | _ \<Rightarrow> [])"

definition history_wf :: "Store \<Rightarrow> bool" where
  "history_wf s = (distinct (map he_run (stored_entries s)) \<and> [] \<notin> set (map he_run (stored_entries s)))"

definition entry_of_run :: "Store \<Rightarrow> string \<Rightarrow> Entry option" where
  "entry_of_run s = lookup_by he_run (stored_entries s)"

lemma lookup_by_perm:
  assumes "mset xs = mset ys" and "distinct (map key ys)"
  shows "lookup_by key xs = lookup_by key ys"
proof
  fix k
  have "distinct (map key xs)"
    using assms by (metis mset_eq_imp_distinct_iff mset_map)
  moreover have "set xs = set ys" using assms(1) by (rule mset_eq_setD)
  ultimately show "lookup_by key xs k = lookup_by key ys k"
    using assms(2) lookup_by_mem [of key xs k] lookup_by_mem [of key ys k] by (metis option.exhaust)
qed

lemma newest_firstD:
  assumes "newest_first srt"
  shows "mset (srt xs) = mset xs" "set (srt xs) = set xs" "length (srt xs) = length xs"
    "sorted_wrt (\<lambda>a b. he_updated b \<le> he_updated a) (srt xs)"
    "distinct (map he_run xs) \<Longrightarrow> distinct (map he_run (srt xs))"
    "distinct (map he_run xs) \<Longrightarrow> lookup_by he_run (srt xs) = lookup_by he_run xs"
proof -
  show m: "mset (srt xs) = mset xs" "sorted_wrt (\<lambda>a b. he_updated b \<le> he_updated a) (srt xs)"
    using assms by (simp_all add: newest_first_def)
  show "set (srt xs) = set xs" "length (srt xs) = length xs"
    using m(1) by (rule mset_eq_setD, rule mset_eq_length)
  show "distinct (map he_run xs) \<Longrightarrow> distinct (map he_run (srt xs))"
    using m(1) by (metis mset_eq_imp_distinct_iff mset_map)
  show "distinct (map he_run xs) \<Longrightarrow> lookup_by he_run (srt xs) = lookup_by he_run xs"
    using m(1) by (rule lookup_by_perm)
qed

lemma put_entry_lookup: "lookup_by he_run (put_entry e es) = (lookup_by he_run es)(he_run e \<mapsto> e)"
proof
  fix k
  show "lookup_by he_run (put_entry e es) k = ((lookup_by he_run es)(he_run e \<mapsto> e)) k"
  proof (cases "index_where (\<lambda>x. he_run x = he_run e) es")
    case None
    then have "lookup_by he_run es (he_run e) = None" by (rule lookup_by_no_index)
    then show ?thesis using None by (auto simp: put_entry_def lookup_by_append split: option.split)
  next
    case (Some i)
    then show ?thesis using lookup_by_update [OF Some, of e k] by (simp add: put_entry_def)
  qed
qed

lemma put_entry_keys:
  "map he_run (put_entry e es) = map he_run es \<or>
   he_run e \<notin> set (map he_run es) \<and> map he_run (put_entry e es) = map he_run es @ [he_run e]"
proof (cases "index_where (\<lambda>x. he_run x = he_run e) es")
  case None
  then have "he_run e \<notin> he_run ` set es" by (auto simp: index_where_None)
  then show ?thesis using None by (simp add: put_entry_def)
next
  case (Some i)
  then show ?thesis using index_where_Some [OF Some] by (simp add: put_entry_def list_update_map_key)
qed

lemma history_List_entries: "history_List srt s = Inr es \<Longrightarrow> newest_first srt \<Longrightarrow> es = srt (stored_entries s)"
  using newest_firstD(3) [of srt "[]"] by (auto simp: history_List_def stored_entries_def split: hfile.splits)

lemma history_write_cases:
  "history_write io s es = (s', r) \<Longrightarrow> r = None \<and> s' = s\<lparr>hs_file := HEntries es\<rparr> \<or> r \<noteq> None \<and> s' = s"
  by (auto simp: history_write_def split: if_splits)

lemma upsert_step:
  assumes "newest_first srt" and "history_wf s" and "Upsert srt io e s = (s', r)"
  shows "history_wf s' \<and> entry_of_run s' =
    (if r = None then (entry_of_run s)(he_run e \<mapsto> e) else entry_of_run s) \<and> (r \<noteq> None \<longrightarrow> s' = s)"
proof (cases "he_run e = [] \<or> \<not> is_ok (history_List srt s)")
  case True
  then show ?thesis using assms(2,3) by (auto simp: Upsert_def is_ok_def split: sum.splits if_splits)
next
  case False
  then obtain es where es: "history_List srt s = Inr es" "he_run e \<noteq> []" by (auto simp: is_ok_iff)
  then have srt: "es = srt (stored_entries s)" using assms(1) history_List_entries by blast
  note perm = newest_firstD [OF assms(1), of "stored_entries s", folded srt]
  from es assms(3) have "history_write io s (put_entry e es) = (s', r)" by (simp add: Upsert_def)
  from history_write_cases [OF this] show ?thesis
  proof
    assume ok: "r = None \<and> s' = s\<lparr>hs_file := HEntries (put_entry e es)\<rparr>"
    then have st: "stored_entries s' = put_entry e es" by (simp add: stored_entries_def)
    have "distinct (map he_run es)" "[] \<notin> set (map he_run es)" using assms(2) perm by (auto simp: history_wf_def)
    then have "distinct (map he_run (put_entry e es))" "[] \<notin> set (map he_run (put_entry e es))"
      using put_entry_keys [of e es] es(2) by (auto simp del: set_map)
    then show ?thesis
      using ok st perm(6) assms(2) by (auto simp: history_wf_def entry_of_run_def put_entry_lookup)
  qed (use assms(2) in auto)
qed

lemma upsert_entry:
  assumes "newest_first srt" and "history_wf s" and "Upsert srt io e s = (s', None)"
  shows "entry_of_run s' (he_run e) = Some e"
  using upsert_step [OF assms] by simp

text \<open>
  The history refines a map from run identifiers to entries: a successful \<open>Upsert\<close> is the
  update of the map at the run of the entry, one that fails changes nothing, and the index stays
  free of duplicates.
\<close>

theorem upsert_refines_map_update:
  assumes "newest_first srt" and "history_wf s" and "Upsert srt io e s = (s', r)"
  shows "history_wf s' \<and> entry_of_run s' =
    (if r = None then (entry_of_run s)(he_run e \<mapsto> e) else entry_of_run s) \<and> (r \<noteq> None \<longrightarrow> s' = s)"
  using upsert_step [OF assms] .

text \<open>
  Pruning keeps the latest runs: with success the number of entries is the smaller of the old
  number and \<open>keep\<close>, the returned number are gone, every kept entry is an old one and is not older
  than any that was dropped; a failure changes nothing.
\<close>

theorem prune_keeps_latest:
  assumes "newest_first srt" and "history_wf s" and "PruneKeepLatest srt io keep s = (s', n, r)"
  shows "history_wf s' \<and>
    (if r = None
     then int (length (stored_entries s')) = int (length (stored_entries s)) - n \<and>
          int (length (stored_entries s')) = min keep (int (length (stored_entries s))) \<and>
          set (stored_entries s') \<subseteq> set (stored_entries s) \<and>
          (\<forall>k \<in> set (stored_entries s'). \<forall>d \<in> set (stored_entries s) - set (stored_entries s').
             he_updated d \<le> he_updated k)
     else s' = s)"
proof (cases "keep < 0 \<or> \<not> is_ok (history_List srt s)")
  case True
  then show ?thesis using assms(2,3) by (auto simp: PruneKeepLatest_def is_ok_def split: sum.splits if_splits)
next
  case False
  then obtain es where es: "history_List srt s = Inr es" "0 \<le> keep" by (auto simp: is_ok_iff)
  then have srt: "es = srt (stored_entries s)" using assms(1) history_List_entries by blast
  note perm = newest_firstD [OF assms(1), of "stored_entries s", folded srt]
  show ?thesis
  proof (cases "int (length es) \<le> keep")
    case True
    then show ?thesis using es assms(2,3) perm(3) by (auto simp: PruneKeepLatest_def)
  next
    case False
    then obtain r1 where w: "history_write io s (take (nat keep) es) = (s', r)" "n = int (length es) - keep"
      using es assms(3) by (auto simp: PruneKeepLatest_def split: prod.splits)
    from history_write_cases [OF w(1)] show ?thesis
    proof
      assume ok: "r = None \<and> s' = s\<lparr>hs_file := HEntries (take (nat keep) es)\<rparr>"
      then have st: "stored_entries s' = take (nat keep) es" by (simp add: stored_entries_def)
      have "sorted_wrt (\<lambda>a b. he_updated b \<le> he_updated a) (take (nat keep) es @ drop (nat keep) es)"
        using perm(4) by simp
      then have "\<forall>k \<in> set (take (nat keep) es). \<forall>d \<in> set (drop (nat keep) es). he_updated d \<le> he_updated k"
        unfolding sorted_wrt_append by blast
      moreover have "set es - set (take (nat keep) es) \<subseteq> set (drop (nat keep) es)"
        by (metis Diff_subset_conv append_take_drop_id set_append order_refl)
      moreover have "distinct (map he_run (take (nat keep) es))" "[] \<notin> set (map he_run (take (nat keep) es))"
        using assms(2) perm(2,5) set_take_subset [of "nat keep" es]
        by (auto simp: history_wf_def distinct_map inj_on_def dest: in_set_takeD)
      ultimately show ?thesis
        using ok st w(2) es(2) False perm(2,3) set_take_subset [of "nat keep" es]
        by (auto simp: history_wf_def min_def)
    qed (use assms(2) in auto)
  qed
qed


definition by_update :: "Entry list \<Rightarrow> Entry list" where
  "by_update es = sort_key (\<lambda>e. - he_updated e) es"

lemma newest_first_by_update: "newest_first by_update"
proof -
  have "sorted_wrt (\<lambda>a b. he_updated b \<le> he_updated a) (by_update es)" for es
    using sorted_sort_key [of "\<lambda>e. - he_updated e" es] by (simp add: by_update_def sorted_map)
  then show ?thesis by (simp add: newest_first_def by_update_def)
qed

definition demo_entry :: "string \<Rightarrow> int \<Rightarrow> Entry" where
  "demo_entry r t = \<lparr>he_run = r, he_backend = [], he_state = ''succeeded'', he_workspace = ''/w'',
     he_record = ''/r'', he_upper = 0, he_created = 0, he_updated = t\<rparr>"

definition demo_history :: Store where
  "demo_history = \<lparr>hs_path = ''/h'', hs_file = HEntries [demo_entry ''a'' 1, demo_entry ''b'' 3, demo_entry ''c'' 2]\<rparr>"

lemmas history_demos = demo_history_def demo_entry_def by_update_def stored_entries_def history_wf_def
  history_List_def history_write_def

theorem upsert_refines_map_update_witness:
  "entry_of_run (fst (Upsert by_update \<lparr>io_mkdir = True, io_write = True, io_rename = True\<rparr> (demo_entry ''d'' 5) demo_history)) =
     (entry_of_run demo_history)(''d'' \<mapsto> demo_entry ''d'' 5)"
proof -
  let ?io = "\<lparr>io_mkdir = True, io_write = True, io_rename = True\<rparr>"
  have "history_wf demo_history" by (simp add: history_demos)
  moreover have "snd (Upsert by_update ?io (demo_entry ''d'' 5) demo_history) = None"
    by (simp add: Upsert_def history_demos)
  ultimately show ?thesis
    using upsert_refines_map_update [OF newest_first_by_update, of demo_history ?io "demo_entry ''d'' 5"]
    by (cases "Upsert by_update ?io (demo_entry ''d'' 5) demo_history") (simp add: demo_entry_def)
qed

theorem prune_keeps_latest_witness:
  "\<exists>s'. PruneKeepLatest by_update \<lparr>io_mkdir = True, io_write = True, io_rename = True\<rparr> 1 demo_history = (s', 2, None) \<and>
     stored_entries s' = [demo_entry ''b'' 3] \<and>
     (\<forall>d \<in> set (stored_entries demo_history) - set (stored_entries s'). he_updated d \<le> 3)"
proof -
  let ?io = "\<lparr>io_mkdir = True, io_write = True, io_rename = True\<rparr>"
  let ?s = "demo_history\<lparr>hs_file := HEntries [demo_entry ''b'' 3]\<rparr>"
  have p: "PruneKeepLatest by_update ?io 1 demo_history = (?s, 2, None)"
    by (simp add: PruneKeepLatest_def history_demos)
  have "history_wf demo_history" by (simp add: history_demos)
  from prune_keeps_latest [OF newest_first_by_update this p] show ?thesis
    using p by (simp add: stored_entries_def demo_entry_def)
qed

end
