(* ===== verification/Native_Record.thy ===== *)
theory Native_Record
  imports History Diff_Model Go_Path
begin

text \<open>
  \<open>internal/platform/native_record.go\<close> and \<open>native_supervisor.go\<close>: the record of a run on a native
  backend, which the supervisor tells from a Linux run record by its version and run identifier.
  The file holds the decoded record; a file that is no JSON object of that shape is \<open>NGarbled\<close>.
\<close>

record NativeEvent =
  ne_operation :: string
  ne_path :: path
  ne_decision :: string
  ne_time :: string
  ne_exit :: int

record NativeRecord =
  nr_version :: int
  nr_run :: string
  nr_platform :: string
  nr_backend :: string
  nr_workspace :: path
  nr_runtime :: path
  nr_history :: path
  nr_view :: path
  nr_policy :: path
  nr_hidden :: "path list"
  nr_command :: "string list"
  nr_state :: string
  nr_exit :: int
  nr_base :: Manifest
  nr_changes :: "Change list"
  nr_events_path :: path
  nr_events :: "NativeEvent list"
  nr_created :: "int option"
  nr_updated :: "int option"

datatype nfile = NMissing | NUnreadable | NGarbled | NStored NativeRecord

datatype native_error = NativeRead | NativeDecode | NativeVersion int | NativeMismatch string string
  | NativeMkdir | NativeTemp | NativeWrite | NativePublish | NativeHistory history_error

definition NativeRecordVersion :: int where "NativeRecordVersion = 1"

definition ReadNativeRecord :: "nfile \<Rightarrow> native_error + NativeRecord" where
  "ReadNativeRecord f =
     (case f of
        NMissing \<Rightarrow> Inl NativeRead
      | NUnreadable \<Rightarrow> Inl NativeRead
      | NGarbled \<Rightarrow> Inl NativeDecode
      | NStored r \<Rightarrow> if nr_version r \<noteq> NativeRecordVersion then Inl (NativeVersion (nr_version r)) else Inr r)"

text \<open>The calls of a write that succeed: creating the directory, the temporary file with its mode,
  writing and closing it, and the rename.\<close>

record native_io =
  ni_mkdir :: bool
  ni_temp :: bool
  ni_write :: bool
  ni_rename :: bool

definition WriteNativeRecord :: "native_io \<Rightarrow> int \<Rightarrow> NativeRecord \<Rightarrow> nfile \<Rightarrow> nfile \<times> native_error option" where
  "WriteNativeRecord io now r f =
     (if \<not> ni_mkdir io then (f, Some NativeMkdir)
      else if \<not> ni_temp io then (f, Some NativeTemp)
      else if \<not> ni_write io then (f, Some NativeWrite)
      else if \<not> ni_rename io then (f, Some NativePublish)
      else (NStored (r\<lparr>nr_version := NativeRecordVersion, nr_updated := Some now\<rparr>), None))"

text \<open>\<open>None\<close> stands for \<open>ok = false\<close> without an error.\<close>

definition NativeRecordForSupervisor :: "nfile \<Rightarrow> string \<Rightarrow> native_error + NativeRecord option" where
  "NativeRecordForSupervisor f runID =
     (case ReadNativeRecord f of
        Inl _ \<Rightarrow> Inr None
      | Inr r \<Rightarrow> if runID \<noteq> [] \<and> nr_run r \<noteq> runID then Inl (NativeMismatch runID (nr_run r)) else Inr (Some r))"

definition or_now :: "int \<Rightarrow> int option \<Rightarrow> int" where
  "or_now now t = (case t of None \<Rightarrow> now | Some x \<Rightarrow> x)"

text \<open>\<open>s\<close> is the history at the record's history path.\<close>

definition PersistNativeHistoryAt ::
  "(History.Entry list \<Rightarrow> History.Entry list) \<Rightarrow> io_env \<Rightarrow> int \<Rightarrow> path \<Rightarrow> NativeRecord \<Rightarrow> Store \<Rightarrow> Store \<times> history_error option" where
  "PersistNativeHistoryAt srt io now p r s =
     (if nr_history r = [] then (s, None)
      else Upsert srt io \<lparr>he_run = nr_run r, he_backend = nr_backend r, he_state = nr_state r,
        he_workspace = nr_workspace r, he_record = clean p, he_upper = 0,
        he_created = or_now now (nr_created r), he_updated = or_now now (nr_updated r)\<rparr> s)"

subsection \<open>Reading back\<close>

lemma native_write_read:
  "WriteNativeRecord io now r f = (f', None) \<Longrightarrow>
     ReadNativeRecord f' = Inr (r\<lparr>nr_version := NativeRecordVersion, nr_updated := Some now\<rparr>)"
  by (auto simp: WriteNativeRecord_def ReadNativeRecord_def split: if_splits)

lemma native_write_fails: "WriteNativeRecord io now r f = (f', Some e) \<Longrightarrow> f' = f"
  by (auto simp: WriteNativeRecord_def split: if_splits)

lemma native_for_supervisor:
  "NativeRecordForSupervisor f runID = Inr (Some r) \<longleftrightarrow>
     f = NStored r \<and> nr_version r = NativeRecordVersion \<and> (runID = [] \<or> nr_run r = runID)"
  by (auto simp: NativeRecordForSupervisor_def ReadNativeRecord_def split: nfile.splits sum.splits if_splits)

lemma persisted_native_history:
  assumes "newest_first srt" and "history_wf s" and "nr_history r \<noteq> []"
    and "PersistNativeHistoryAt srt io now p r s = (s', None)"
  shows "\<exists>e. entry_of_run s' (nr_run r) = Some e \<and> he_record e = clean p \<and> he_state e = nr_state r"
proof -
  let ?e = "\<lparr>he_run = nr_run r, he_backend = nr_backend r, he_state = nr_state r,
        he_workspace = nr_workspace r, he_record = clean p, he_upper = 0,
        he_created = or_now now (nr_created r), he_updated = or_now now (nr_updated r)\<rparr>"
  have "Upsert srt io ?e s = (s', None)" using assms(3,4) by (simp add: PersistNativeHistoryAt_def)
  from upsert_entry [OF assms(1,2) this] show ?thesis by simp
qed

end
