(* ===== verification/Event_Stream.thy ===== *)
theory Event_Stream
  imports Evidence Native_Record
begin

text \<open>
  The event streams of \<open>internal/supervisor/server.go\<close>: what a client of \<open>/v1/events\<close> is sent while
  the journals of a run grow.  A stream is a list of the lines sent, each with the journal it comes
  from.  \<open>valid\<close> is \<open>json.Valid\<close>.  The files, the run record and the reason a wait ends are looked at
  anew in every round.
\<close>

type_synonym sent = "(path \<times> string) list"
type_synonym offsets = "path \<Rightarrow> nat"

definition chunk_lines :: "(string \<Rightarrow> bool) \<Rightarrow> string \<Rightarrow> string list" where
  "chunk_lines valid s = filter (\<lambda>l. l \<noteq> [] \<and> valid l) (map trim_space (split_on newline s))"

text \<open>The bytes up to the last newline, none if there is no newline.\<close>

definition complete_part :: "string \<Rightarrow> string" where
  "complete_part s = rev (dropWhile (\<lambda>c. c \<noteq> newline) (rev s))"

text \<open>One journal of \<open>streamEventDelta\<close>: the bytes behind the offset, if the file can be opened and read.\<close>

definition stream_file ::
  "(string \<Rightarrow> bool) \<Rightarrow> (path \<Rightarrow> logfile) \<Rightarrow> offsets \<Rightarrow> path \<Rightarrow> offsets \<times> sent" where
  "stream_file valid files pos p =
     (if p = [] then (pos, [])
      else case files p of
        LogBytes s broken \<Rightarrow>
          if broken then (pos, [])
          else (let c = complete_part (drop (pos p) s) in
                (pos(p := pos p + length c), map (Pair p) (chunk_lines valid c)))
      | _ \<Rightarrow> (pos, []))"

fun streamEventDelta ::
  "(string \<Rightarrow> bool) \<Rightarrow> (path \<Rightarrow> logfile) \<Rightarrow> offsets \<Rightarrow> path list \<Rightarrow> offsets \<times> sent" where
  "streamEventDelta valid files pos [] = (pos, [])"
| "streamEventDelta valid files pos (p # ps) =
     (let (pos1, out) = stream_file valid files pos p; (pos2, more) = streamEventDelta valid files pos1 ps
      in (pos2, out @ more))"

definition streamNativeEventDelta ::
  "(string \<Rightarrow> bool) \<Rightarrow> (path \<Rightarrow> logfile) \<Rightarrow> path \<Rightarrow> nat \<Rightarrow> nat \<times> string list" where
  "streamNativeEventDelta valid files p position =
     (if p = [] then (position, [])
      else case files p of
        LogBytes s broken \<Rightarrow>
          if broken then (position, [])
          else (let c = complete_part (drop position s) in (position + length c, chunk_lines valid c))
      | _ \<Rightarrow> (position, []))"

definition streamNativeEventSnapshot :: "(string \<Rightarrow> bool) \<Rightarrow> (path \<Rightarrow> logfile) \<Rightarrow> NativeRecord \<Rightarrow> string list" where
  "streamNativeEventSnapshot valid files r = snd (streamNativeEventDelta valid files (nr_events_path r) 0)"

text \<open>\<open>values\<close> is the list of JSON values a \<open>json.Decoder\<close> reads from some bytes before it fails.\<close>

definition streamEventSnapshot ::
  "(string \<Rightarrow> string list) \<Rightarrow> (path \<Rightarrow> logfile) \<Rightarrow> path list \<Rightarrow> sent" where
  "streamEventSnapshot vals files ps =
     concat (map (\<lambda>p. case files p of LogBytes s broken \<Rightarrow> map (Pair p) (vals s) | _ \<Rightarrow> []) ps)"

definition isTerminal :: "lstate \<Rightarrow> bool" where
  "isTerminal s = (s \<in> {Succeeded, Failed, Committed, RolledBack})"

definition nativeRecordTerminal :: "string \<Rightarrow> bool" where
  "nativeRecordTerminal s = (s \<in> {''succeeded'', ''failed'', ''discarded'', ''committed'', ''rolled_back''})"

definition parseFollow :: "string \<Rightarrow> bool option" where
  "parseFollow v =
     (if blank v then Some False
      else if v \<in> {''1'', ''t'', ''T'', ''TRUE'', ''true'', ''True''} then Some True
      else if v \<in> {''0'', ''f'', ''F'', ''FALSE'', ''false'', ''False''} then Some False
      else None)"

subsection \<open>Following a run\<close>

text \<open>One round: the refreshed record if it can be read, the journals, and whether the wait ends with
  the next tick or with the client gone or the idle deadline over.\<close>

record round =
  ro_record :: "RunRecord option"
  ro_files :: "path \<Rightarrow> logfile"
  ro_tick :: bool

text \<open>The rounds of a connection are a list; a stream that is still open when they are used up has
  not returned.\<close>

fun streamEventFollow ::
  "(string \<Rightarrow> bool) \<Rightarrow> string \<Rightarrow> RunRecord \<Rightarrow> offsets \<Rightarrow> round list \<Rightarrow> sent \<times> bool" where
  "streamEventFollow valid runID r0 pos [] = ([], False)"
| "streamEventFollow valid runID r0 pos (ro # ros) =
     (let current = (case ro_record ro of None \<Rightarrow> r0 | Some r \<Rightarrow> r);
          (pos1, out) = streamEventDelta valid (ro_files ro) pos (EventLogPaths current);
          ru = rp_run (rr_plan current)
      in if run_id ru = runID \<and> isTerminal (run_state ru) then (out, True)
         else if \<not> ro_tick ro then (out, True)
         else (let (more, done) = streamEventFollow valid runID r0 pos1 ros in (out @ more, done)))"

subsection \<open>Lines of growing files\<close>

lemma complete_part_cases:
  "complete_part s = [] \<and> newline \<notin> set s \<or>
   (\<exists>a b. s = a @ newline # b \<and> newline \<notin> set b \<and> complete_part s = a @ [newline])"
proof (cases "newline \<in> set s")
  case True
  then obtain a b where s: "s = a @ newline # b" "newline \<notin> set b" by (meson split_list_last)
  have "dropWhile (\<lambda>c. c \<noteq> newline) (rev b @ newline # rev a) = dropWhile (\<lambda>c. c \<noteq> newline) (newline # rev a)"
    using s(2) by (intro dropWhile_append2) auto
  then have "dropWhile (\<lambda>c. c \<noteq> newline) (rev s) = newline # rev a" by (simp add: s)
  then show ?thesis using s by (auto simp: complete_part_def)
next
  case False
  then have "dropWhile (\<lambda>c. c \<noteq> newline) (rev s) = []" by (auto simp: dropWhile_eq_Nil_conv)
  then show ?thesis using False by (simp add: complete_part_def)
qed

lemma split_on_append: "split_on c (a @ [c] @ b) = split_on c a @ split_on c b"
proof (induction a)
  case (Cons x a)
  then show ?case by (cases "split_on c a") (auto split: list.splits)
qed simp

lemma chunk_lines_append:
  "chunk_lines valid (a @ [newline] @ b) = chunk_lines valid (a @ [newline]) @ chunk_lines valid b"
proof -
  have "trim_space [] = []" using blank_Nil by (simp only: blank_def)
  then show ?thesis
    using split_on_append [of newline a "[]"] by (simp add: chunk_lines_def split_on_append [simplified])
qed

text \<open>What was sent of one journal, and how far a stream has got in its text.\<close>

definition sent_of :: "path \<Rightarrow> sent \<Rightarrow> string list" where
  "sent_of p out = map snd (filter (\<lambda>x. fst x = p) out)"

definition got :: "(string \<Rightarrow> bool) \<Rightarrow> string \<Rightarrow> nat \<Rightarrow> string list \<Rightarrow> bool" where
  "got valid s n ls =
     (n \<le> length s \<and> (take n s = [] \<or> last (take n s) = newline) \<and> ls = chunk_lines valid (take n s))"

lemma sent_of_simps [simp]: "sent_of p [] = []" "sent_of p (a @ b) = sent_of p a @ sent_of p b"
  "sent_of p (map (Pair q) ls) = (if p = q then ls else [])"
  by (auto simp: sent_of_def filter_map comp_def)

lemma chunk_lines_Nil [simp]: "chunk_lines valid [] = []"
  using blank_Nil by (simp add: chunk_lines_def blank_def)

lemma got_grows: "got valid s n ls \<Longrightarrow> prefix s s' \<Longrightarrow> got valid s' n ls"
  by (auto simp: got_def prefix_def)

lemma chunk_lines_cat:
  "a = [] \<or> last a = newline \<Longrightarrow> chunk_lines valid (a @ b) = chunk_lines valid a @ chunk_lines valid b"
proof (cases "a = []")
  case False
  assume "a = [] \<or> last a = newline"
  then have a: "a = butlast a @ [newline]" using False append_butlast_last_id [of a] by simp
  then have "chunk_lines valid (a @ b) = chunk_lines valid (butlast a @ [newline] @ b)" by (metis append.assoc)
  also have "\<dots> = chunk_lines valid (butlast a @ [newline]) @ chunk_lines valid b" by (rule chunk_lines_append)
  finally show ?thesis using a by simp
qed simp

lemma complete_part_prefix: "\<exists>r. s = complete_part s @ r"
  using complete_part_cases [of s] by auto

lemma complete_part_end: "complete_part s = [] \<or> last (complete_part s) = newline"
  using complete_part_cases [of s] by auto

lemma got_step:
  assumes "got valid s n ls"
  shows "got valid s (n + length (complete_part (drop n s))) (ls @ chunk_lines valid (complete_part (drop n s)))"
proof -
  let ?c = "complete_part (drop n s)"
  obtain r where r: "drop n s = ?c @ r" using complete_part_prefix by blast
  then have "take (length ?c) (drop n s) = ?c" by (metis append_eq_conv_conj)
  then have "take (n + length ?c) s = take n s @ ?c" by (simp add: take_add)
  moreover have "n \<le> length s" using assms by (simp add: got_def)
  then have "n + length ?c \<le> length s" using arg_cong [OF r, of length] by simp
  ultimately show ?thesis using assms complete_part_end [of "drop n s"] by (auto simp: got_def chunk_lines_cat last_append split: if_splits)
qed

text \<open>After a step nothing complete is left.\<close>

lemma got_all:
  assumes "got valid s n ls"
  shows "take (n + length (complete_part (drop n s))) s = complete_part s"
proof -
  have s: "s = take n s @ drop n s" by simp
  have a: "take n s = [] \<or> last (take n s) = newline" using assms by (simp add: got_def)
  from complete_part_cases [of "drop n s"] show ?thesis
  proof
    assume c: "complete_part (drop n s) = [] \<and> newline \<notin> set (drop n s)"
    show ?thesis
    proof (cases "take n s = []")
      case True
      then have "newline \<notin> set s" using c s by (metis append_Nil)
      then have "complete_part s = []" using complete_part_cases [of s] by auto
      then show ?thesis using c True by simp
    next
      case False
      then obtain b where b: "take n s = b @ [newline]" using a by (metis append_butlast_last_id)
      have "dropWhile (\<lambda>c. c \<noteq> newline) (rev (drop n s) @ newline # rev b) = newline # rev b"
        using c by (subst dropWhile_append2) auto
      moreover have "rev s = rev (drop n s) @ newline # rev b"
        by (subst s, subst b) simp
      ultimately have "complete_part s = b @ [newline]" by (simp add: complete_part_def)
      moreover have "length (complete_part (drop n s)) = 0" using c by simp
      ultimately show ?thesis using b by simp
    qed
  next
    assume "\<exists>x y. drop n s = x @ newline # y \<and> newline \<notin> set y \<and> complete_part (drop n s) = x @ [newline]"
    then obtain x y where xy: "drop n s = x @ newline # y" "newline \<notin> set y" "complete_part (drop n s) = x @ [newline]" by blast
    have "dropWhile (\<lambda>c. c \<noteq> newline) (rev y @ newline # rev (take n s @ x)) = newline # rev (take n s @ x)"
      using xy(2) by (subst dropWhile_append2) auto
    moreover have "rev s = rev y @ newline # rev (take n s @ x)" by (subst s, subst xy(1)) simp
    ultimately have "complete_part s = take n s @ x @ [newline]" by (simp add: complete_part_def)
    moreover have "take (n + length (x @ [newline])) s = take n s @ x @ [newline]"
      unfolding take_add xy(1) by simp
    ultimately show ?thesis using xy(3) by simp
  qed
qed

subsection \<open>Every line once\<close>

text \<open>A journal whose text only grows, starting from \<open>s\<close>, over the rounds of a stream.\<close>

type_synonym look = "(path \<Rightarrow> logfile) \<times> path list"

fun grows :: "path \<Rightarrow> string \<Rightarrow> look list \<Rightarrow> bool" where
  "grows p s [] = True"
| "grows p s ((files, ps) # rs) =
     (case files p of LogBytes s' b \<Rightarrow> prefix s s' \<and> grows p s' rs | _ \<Rightarrow> grows p s rs)"

fun final_text :: "path \<Rightarrow> string \<Rightarrow> look list \<Rightarrow> string" where
  "final_text p s [] = s"
| "final_text p s ((files, ps) # rs) =
     (case files p of LogBytes s' b \<Rightarrow> final_text p s' rs | _ \<Rightarrow> final_text p s rs)"

definition reads :: "path \<Rightarrow> look \<Rightarrow> bool" where
  "reads p r = (p \<in> set (snd r) \<and> (\<exists>s. fst r p = LogBytes s False))"

fun stream_looks :: "(string \<Rightarrow> bool) \<Rightarrow> offsets \<Rightarrow> look list \<Rightarrow> offsets \<times> sent" where
  "stream_looks valid pos [] = (pos, [])"
| "stream_looks valid pos ((files, ps) # rs) =
     (let (pos1, out) = streamEventDelta valid files pos ps; (pos2, more) = stream_looks valid pos1 rs
      in (pos2, out @ more))"

lemma stream_file_got:
  assumes "got valid s (pos p) ls" and "files p = LogBytes s b \<or> (\<forall>t c. files p \<noteq> LogBytes t c)" and "p \<noteq> []"
    and "stream_file valid files pos q = (pos', out)"
  shows "got valid s (pos' p) (ls @ sent_of p out)"
    and "q = p \<Longrightarrow> files p = LogBytes s False \<Longrightarrow> take (pos' p) s = complete_part s"
    and "take (pos p) s = complete_part s \<Longrightarrow> take (pos' p) s = complete_part s"
proof -
  note new = got_step [OF assms(1)] got_all [OF assms(1)]
  have other: "pos' p = pos p \<and> sent_of p out = []" if "q \<noteq> p"
    using assms(4) that by (auto simp: stream_file_def Let_def split: if_splits logfile.splits)
  have kept: "pos' = pos \<and> out = []" if "\<nexists>c. files q = LogBytes c False"
    using assms(4) that by (auto simp: stream_file_def Let_def split: if_splits logfile.splits)
  have here: "pos' p = pos p + length (complete_part (drop (pos p) s)) \<and>
      sent_of p out = chunk_lines valid (complete_part (drop (pos p) s))" if "q = p" "files p = LogBytes s False"
    using assms(3,4) that by (auto simp: stream_file_def Let_def)
  have cs: "q \<noteq> p \<or> (\<nexists>c. files q = LogBytes c False) \<or> q = p \<and> files p = LogBytes s False"
    using assms(2) by auto
  show "q = p \<Longrightarrow> files p = LogBytes s False \<Longrightarrow> take (pos' p) s = complete_part s"
    using here new(2) by simp
  show "got valid s (pos' p) (ls @ sent_of p out)"
  proof (cases "q = p \<and> files p = LogBytes s False")
    case True
    then show ?thesis using here new(1) by simp
  next
    case False
    then have "pos' p = pos p \<and> sent_of p out = []" using cs other kept by fastforce
    then show ?thesis using assms(1) by simp
  qed
  show "take (pos p) s = complete_part s \<Longrightarrow> take (pos' p) s = complete_part s"
  proof (cases "q = p \<and> files p = LogBytes s False")
    case True
    then show ?thesis using here new(2) by simp
  next
    case False
    then have "pos' p = pos p \<and> sent_of p out = []" using cs other kept by fastforce
    then show "take (pos p) s = complete_part s \<Longrightarrow> ?thesis" by simp
  qed
qed

lemma stream_delta_got:
  assumes "got valid s (pos p) ls" and "files p = LogBytes s b \<or> (\<forall>t c. files p \<noteq> LogBytes t c)" and "p \<noteq> []"
    and "streamEventDelta valid files pos ps = (pos', out)"
  shows "got valid s (pos' p) (ls @ sent_of p out) \<and>
    (reads p (files, ps) \<or> take (pos p) s = complete_part s \<longrightarrow> take (pos' p) s = complete_part s)"
  using assms(1,4)
proof (induction ps arbitrary: pos ls out)
  case (Cons q ps)
  obtain pos1 o1 where one: "stream_file valid files pos q = (pos1, o1)" by fastforce
  obtain o2 where two: "streamEventDelta valid files pos1 ps = (pos', o2)" "out = o1 @ o2"
    using Cons.prems(2) one by (auto split: prod.splits)
  note step = stream_file_got [OF Cons.prems(1) assms(2,3) one]
  have "files p = LogBytes s False" if "q = p" "reads p (files, q # ps)"
    using that assms(2) by (auto simp: reads_def)
  then show ?case
    using Cons.IH [OF step(1) two(1)] step(2,3) by (auto simp: two(2) reads_def)
qed (simp add: reads_def)

text \<open>A stream that has got to some offset of \<open>s\<close>, over the rounds that follow.\<close>

lemma stream_looks_got:
  assumes "got valid s (pos p) ls" and "grows p s rs" and "p \<noteq> []"
    and "stream_looks valid pos rs = (pos', out)"
  shows "got valid (final_text p s rs) (pos' p) (ls @ sent_of p out) \<and>
    (rs \<noteq> [] \<and> reads p (last rs) \<longrightarrow> take (pos' p) (final_text p s rs) = complete_part (final_text p s rs))"
  using assms(1,2,4)
proof (induction rs arbitrary: s pos ls out)
  case (Cons r rs)
  obtain files ps where r: "r = (files, ps)" by fastforce
  obtain pos1 o1 where one: "streamEventDelta valid files pos ps = (pos1, o1)" by fastforce
  obtain o2 where two: "stream_looks valid pos1 rs = (pos', o2)" "out = o1 @ o2"
    using Cons.prems(3) one by (auto simp: r split: prod.splits)
  define t where "t = (case files p of LogBytes s' b \<Rightarrow> s' | _ \<Rightarrow> s)"
  have t: "(\<exists>b. files p = LogBytes t b) \<or> (\<forall>u c. files p \<noteq> LogBytes u c)" "prefix s t" "grows p t rs"
    "final_text p s (r # rs) = final_text p t rs"
    using Cons.prems(2) by (auto simp: t_def r split: logfile.splits)
  from t(1) obtain b where b: "files p = LogBytes t b \<or> (\<forall>u c. files p \<noteq> LogBytes u c)" by blast
  note step = stream_delta_got [OF got_grows [OF Cons.prems(1) t(2)] b assms(3) one]
  note IH = Cons.IH [OF conjunct1 [OF step] t(3) two(1)]
  have "take (pos' p) (final_text p t rs) = complete_part (final_text p t rs)" if "reads p (last (r # rs))"
  proof (cases "rs = []")
    case True
    then show ?thesis using that step two(1) by (simp add: r)
  next
    case False
    then show ?thesis using that IH by simp
  qed
  then show ?case using IH by (simp add: t(4) two(2))
qed simp

subsection \<open>What a client of a run is sent\<close>

text \<open>The rounds of a connection that take place, as looks.\<close>

fun follow_looks :: "string \<Rightarrow> RunRecord \<Rightarrow> round list \<Rightarrow> look list" where
  "follow_looks runID r0 [] = []"
| "follow_looks runID r0 (ro # ros) =
     (let current = (case ro_record ro of None \<Rightarrow> r0 | Some r \<Rightarrow> r); ru = rp_run (rr_plan current)
      in (ro_files ro, EventLogPaths current) #
         (if run_id ru = runID \<and> isTerminal (run_state ru) \<or> \<not> ro_tick ro then [] else follow_looks runID r0 ros))"

lemma follow_is_stream:
  "fst (streamEventFollow valid runID r0 pos ros) = snd (stream_looks valid pos (follow_looks runID r0 ros))"
proof (induction ros arbitrary: pos)
  case (Cons ro ros)
  define c where "c = (case ro_record ro of None \<Rightarrow> r0 | Some r \<Rightarrow> r)"
  obtain pos1 o1 where one: "streamEventDelta valid (ro_files ro) pos (EventLogPaths c) = (pos1, o1)" by fastforce
  obtain more ended where two: "streamEventFollow valid runID r0 pos1 ros = (more, ended)" by fastforce
  obtain pos2 o2 where three: "stream_looks valid pos1 (follow_looks runID r0 ros) = (pos2, o2)" by fastforce
  have "more = o2" using Cons [of pos1] two three by simp
  then show ?case using one two three by (simp add: Let_def c_def [symmetric])
qed simp

text \<open>
  C39. A client that follows a run is sent every complete valid line of a journal once, in the
  order of the journal, whatever part of a line is already written when the stream looks: if the
  journal only grows, then what was sent of it are the lines of an initial part that ends at a line
  end, and all complete lines if the last round could read it.
\<close>

theorem follow_sends_each_line_once:
  assumes "streamEventFollow valid runID r0 (\<lambda>_. 0) ros = (out, ended)"
    and "grows p [] (follow_looks runID r0 ros)" and "p \<noteq> []"
  shows "\<exists>n \<le> length (final_text p [] (follow_looks runID r0 ros)).
    (let s = final_text p [] (follow_looks runID r0 ros); part = take n s in
      (part = [] \<or> last part = newline) \<and> sent_of p out = chunk_lines valid part \<and>
      (follow_looks runID r0 ros \<noteq> [] \<and> reads p (last (follow_looks runID r0 ros)) \<longrightarrow> part = complete_part s))"
proof -
  let ?rs = "follow_looks runID r0 ros" and ?s = "final_text p [] (follow_looks runID r0 ros)"
  obtain pos' out' where st: "stream_looks valid (\<lambda>_. 0) ?rs = (pos', out')" by fastforce
  then have "out' = out" using follow_is_stream [of valid runID r0 "\<lambda>_. 0" ros] assms(1) by simp
  have "got valid [] ((\<lambda>_. 0) p) []" by (simp add: got_def)
  from stream_looks_got [OF this assms(2,3) st] \<open>out' = out\<close>
  have "got valid ?s (pos' p) (sent_of p out)"
    "?rs \<noteq> [] \<and> reads p (last ?rs) \<longrightarrow> take (pos' p) ?s = complete_part ?s" by simp_all
  then show ?thesis unfolding Let_def got_def by blast
qed

subsection \<open>Native runs\<close>

lemma native_delta_is_stream_file:
  "stream_file valid files pos p =
     (let (n, ls) = streamNativeEventDelta valid files p (pos p) in (pos(p := n), map (Pair p) ls))"
  by (auto simp: stream_file_def streamNativeEventDelta_def Let_def split: logfile.split)

record native_round =
  nro_record :: nfile
  nro_files :: "path \<Rightarrow> logfile"
  nro_tick :: bool

fun streamNativeEventFollow ::
  "(string \<Rightarrow> bool) \<Rightarrow> NativeRecord \<Rightarrow> nat \<Rightarrow> native_round list \<Rightarrow> string list \<times> bool" where
  "streamNativeEventFollow valid r0 position [] = ([], False)"
| "streamNativeEventFollow valid r0 position (ro # ros) =
     (let current = (case ReadNativeRecord (nro_record ro) of Inl _ \<Rightarrow> r0 | Inr r \<Rightarrow> r);
          (position1, out) = streamNativeEventDelta valid (nro_files ro) (nr_events_path current) position
      in if nativeRecordTerminal (nr_state current) then (out, True)
         else if \<not> nro_tick ro then (out, True)
         else (let (more, done) = streamNativeEventFollow valid r0 position1 ros in (out @ more, done)))"

definition native_path :: "NativeRecord \<Rightarrow> native_round \<Rightarrow> path" where
  "native_path r0 ro = nr_events_path (case ReadNativeRecord (nro_record ro) of Inl _ \<Rightarrow> r0 | Inr r \<Rightarrow> r)"

text \<open>As long as the record keeps its journal, following a native run is following that journal.\<close>

fun native_looks :: "NativeRecord \<Rightarrow> native_round list \<Rightarrow> look list" where
  "native_looks r0 [] = []"
| "native_looks r0 (ro # ros) =
     (let current = (case ReadNativeRecord (nro_record ro) of Inl _ \<Rightarrow> r0 | Inr r \<Rightarrow> r)
      in (nro_files ro, [nr_events_path current]) #
         (if nativeRecordTerminal (nr_state current) \<or> \<not> nro_tick ro then [] else native_looks r0 ros))"

lemma native_follow_is_stream:
  assumes "\<forall>ro \<in> set ros. native_path r0 ro = p"
  shows "map (Pair p) (fst (streamNativeEventFollow valid r0 (pos p) ros)) = snd (stream_looks valid pos (native_looks r0 ros))"
  using assms
proof (induction ros arbitrary: pos)
  case (Cons ro ros)
  obtain n out where d: "streamNativeEventDelta valid (nro_files ro) p (pos p) = (n, out)" by fastforce
  then have "stream_file valid (nro_files ro) pos p = (pos(p := n), map (Pair p) out)"
    using native_delta_is_stream_file [of valid "nro_files ro" pos p] by simp
  moreover have "nr_events_path (case ReadNativeRecord (nro_record ro) of Inl _ \<Rightarrow> r0 | Inr r \<Rightarrow> r) = p"
    using Cons.prems by (simp add: native_path_def)
  moreover obtain more ended where two: "streamNativeEventFollow valid r0 n ros = (more, ended)" by fastforce
  moreover obtain pos2 o2 where three: "stream_looks valid (pos(p := n)) (native_looks r0 ros) = (pos2, o2)" by fastforce
  moreover have "map (Pair p) more = o2" using Cons.IH [of "pos(p := n)"] Cons.prems two three by (simp add: fun_upd_def)
  ultimately show ?case using d by (simp add: Let_def)
qed simp

subsection \<open>A witness\<close>

definition demo_run_record :: "lstate \<Rightarrow> RunRecord" where
  "demo_run_record st = \<lparr>
     rr_plan = (demo_plan ''x'' False)\<lparr>rp_run := \<lparr>run_id = ''r'', run_state = st, created_at = 0, updated_at = 0\<rparr>\<rparr>,
     rr_path = ''/j'', rr_paths = [], rr_events = \<lparr>ee_count = 0, ee_bytes = 0, ee_dropped = 0, ee_truncated = False,
       ee_sha = [], ee_complete = False\<rparr>\<rparr>"

definition demo_rounds :: "round list" where
  "demo_rounds = [\<lparr>ro_record = None, ro_files = (\<lambda>_. LogBytes (''ab'') False), ro_tick = True\<rparr>,
     \<lparr>ro_record = None, ro_files = (\<lambda>_. LogBytes (''abc'' @ [newline] @ ''d'') False), ro_tick = True\<rparr>,
     \<lparr>ro_record = Some (demo_run_record Succeeded),
      ro_files = (\<lambda>_. LogBytes (''abc'' @ [newline] @ ''def'' @ [newline] @ ''g'') False), ro_tick = True\<rparr>]"

theorem follow_sends_each_line_once_witness:
  "streamEventFollow (\<lambda>_. True) ''r'' (demo_run_record Running) (\<lambda>_. 0) demo_rounds = ([(''/j'', ''abc''), (''/j'', ''def'')], True) \<and>
   chunk_lines (\<lambda>_. True) (''abc'' @ [newline] @ ''def'' @ [newline]) = [''abc'', ''def'']"
proof -
  have b: "trim_space ''abc'' = ''abc''" "trim_space ''def'' = ''def''" "trim_space [] = []" by (code_simp, code_simp, code_simp)
  have c: "complete_part ''ab'' = []" "complete_part (''abc'' @ [newline] @ ''d'') = ''abc'' @ [newline]"
    "complete_part (''def'' @ [newline] @ ''g'') = ''def'' @ [newline]"
    "complete_part (''abc'' @ [newline] @ ''def'' @ [newline] @ ''g'') = ''abc'' @ [newline] @ ''def'' @ [newline]"
    by (simp_all add: complete_part_def newline_def)
  have l: "chunk_lines (\<lambda>_. True) (''abc'' @ [newline]) = [''abc'']" "chunk_lines (\<lambda>_. True) (''def'' @ [newline]) = [''def'']"
    "chunk_lines (\<lambda>_. True) (''abc'' @ [newline] @ ''def'' @ [newline]) = [''abc'', ''def'']"
    using b by (simp_all add: chunk_lines_def newline_def)
  have p: "EventLogPaths (demo_run_record st) = [''/j'']" for st
    by (simp add: EventLogPaths_def demo_run_record_def)
  have st: "run_state (rp_run (rr_plan (demo_run_record s))) = s" "run_id (rp_run (rr_plan (demo_run_record s))) = ''r''" for s
    by (simp_all add: demo_run_record_def)
  have f: "follow_looks ''r'' (demo_run_record Running) demo_rounds = map (\<lambda>ro. (ro_files ro, [''/j''])) demo_rounds"
    by (simp add: demo_rounds_def p st isTerminal_def)
  have run: "streamEventFollow (\<lambda>_. True) ''r'' (demo_run_record Running) (\<lambda>_. 0) demo_rounds = (out, ended)
      \<Longrightarrow> ended" for out ended
    by (simp add: demo_rounds_def p st isTerminal_def Let_def split: prod.splits)
  obtain out ended where e: "streamEventFollow (\<lambda>_. True) ''r'' (demo_run_record Running) (\<lambda>_. 0) demo_rounds = (out, ended)"
    by fastforce
  have g: "grows ''/j'' [] (follow_looks ''r'' (demo_run_record Running) demo_rounds)"
    unfolding f by (simp add: demo_rounds_def)
  have o: "map (Pair ''/j'') (sent_of ''/j'' out) = out"
    using e by (auto simp: demo_rounds_def p st isTerminal_def Let_def stream_file_def sent_of_def c l split: prod.splits)
  have "sent_of ''/j'' out = [''abc'', ''def'']"
    using follow_sends_each_line_once [OF e g] f c(4) l(3)
    by (auto simp: demo_rounds_def Let_def reads_def)
  then show ?thesis using o e run l(3) by auto
qed

end
