(* ===== verification/Run_Detail.thy ===== *)
theory Run_Detail
  imports Event_Stream
begin

text \<open>
  \<open>internal/supervisor/run_detail.go\<close>: the projection of a run record the dashboard sees.  Loading
  a policy file and building a manifest of the staged view are arguments.
\<close>

record RunDetail =
  rd_run :: string
  rd_state :: string
  rd_backend :: string
  rd_workspace :: path
  rd_command :: "string list"
  rd_exit :: int
  rd_changes :: "Change list"
  rd_change_count :: nat
  rd_staged :: int
  rd_event_count :: "64 word"
  rd_event_bytes :: "64 word"
  rd_done :: bool

definition hidden_roots :: "NativeRecord \<Rightarrow> path list" where
  "hidden_roots native =
     (if nr_view native = [] then []
      else concat (map (\<lambda>p. case rel_path (nr_view native) (clean p) of
                              None \<Rightarrow> []
                            | Some rel \<Rightarrow> if rel \<noteq> dotdot \<and> \<not> prefix (dotdot @ [sep]) rel then [rel] else [])
             (nr_hidden native)))"

definition denies :: "Policy \<Rightarrow> string \<Rightarrow> bool" where
  "denies p candidate =
     (ex_decision (Explain (pol_read p) candidate) = ''deny'' \<or> ex_decision (Explain (pol_read p) ([sep] @ candidate)) = ''deny'')"

definition read_deny :: "(path \<Rightarrow> Policy option) \<Rightarrow> NativeRecord \<Rightarrow> Policy option" where
  "read_deny load native =
     (if nr_policy native = [] then None
      else (case load (nr_policy native) of
              None \<Rightarrow> None
            | Some p \<Rightarrow> if rd_mode (pol_read p) = ModeEnforce then Some p else None))"

definition is_hidden :: "path list \<Rightarrow> Policy option \<Rightarrow> path \<Rightarrow> bool" where
  "is_hidden hidden deny p =
     (list_ex (\<lambda>root. p = root \<or> prefix (root @ [sep]) p) hidden \<or>
      (case deny of None \<Rightarrow> False | Some q \<Rightarrow> denies q p))"

definition filterPolicyHiddenChanges ::
  "(path \<Rightarrow> Policy option) \<Rightarrow> Change list \<Rightarrow> NativeRecord \<Rightarrow> Change list" where
  "filterPolicyHiddenChanges load changes native =
     (if changes = [] then changes
      else (let hidden = hidden_roots native; deny = read_deny load native in
            if hidden = [] \<and> deny = None then changes
            else filter (\<lambda>c. \<not> is_hidden hidden deny (clean (ch_path c))) changes))"

definition file_size :: "Manifest_Model.Entry option \<Rightarrow> int option" where
  "file_size e = (case e of None \<Rightarrow> None | Some x \<Rightarrow> if e_type x = ''file'' then Some (e_size x) else None)"

definition change_bytes :: "Change \<Rightarrow> int" where
  "change_bytes c =
     (case file_size (ch_after c) of
        Some n \<Rightarrow> n
      | None \<Rightarrow> (case file_size (ch_before c) of Some n \<Rightarrow> n | None \<Rightarrow> 0))"

definition stagedBytes :: "Change list \<Rightarrow> int" where
  "stagedBytes cs = sint (foldl (\<lambda>t c. t + word_of_int (change_bytes c)) (0 :: 64 word) cs)"

text \<open>The changes of a native record; while the command runs they are derived from its view.\<close>

definition native_changes :: "(path \<Rightarrow> Manifest option) \<Rightarrow> NativeRecord \<Rightarrow> Change list" where
  "native_changes build native =
     (if nr_changes native = [] \<and> nr_view native \<noteq> []
      then (case build (nr_view native) of None \<Rightarrow> nr_changes native | Some after \<Rightarrow> Compare (nr_base native) after)
      else nr_changes native)"

definition native_detail ::
  "(path \<Rightarrow> Policy option) \<Rightarrow> (path \<Rightarrow> Manifest option) \<Rightarrow> NativeRecord \<Rightarrow> RunDetail" where
  "native_detail load build native =
     (let changes = filterPolicyHiddenChanges load (native_changes build native) native in
      \<lparr>rd_run = nr_run native, rd_state = nr_state native, rd_backend = nr_backend native,
       rd_workspace = nr_workspace native, rd_command = nr_command native, rd_exit = nr_exit native,
       rd_changes = changes, rd_change_count = length changes, rd_staged = stagedBytes changes,
       rd_event_count = of_nat (length (nr_events native)), rd_event_bytes = 0,
       rd_done = (nr_state native \<noteq> ''running'')\<rparr>)"

definition state_text :: "lstate \<Rightarrow> string" where
  "state_text s =
     (case s of Preparing \<Rightarrow> ''preparing'' | Mounted \<Rightarrow> ''mounted'' | Running \<Rightarrow> ''running'' | Paused \<Rightarrow> ''paused''
      | Succeeded \<Rightarrow> ''succeeded'' | Failed \<Rightarrow> ''failed'' | Committed \<Rightarrow> ''committed'' | RolledBack \<Rightarrow> ''rolled_back''
      | OtherState t \<Rightarrow> t)"

definition linux_detail :: "RunRecord \<Rightarrow> RunDetail" where
  "linux_detail r =
     \<lparr>rd_run = run_id (rp_run (rr_plan r)), rd_state = state_text (run_state (rp_run (rr_plan r))),
      rd_backend = rp_backend (rr_plan r), rd_workspace = l_lower (rp_layout (rr_plan r)), rd_command = [],
      rd_exit = 0, rd_changes = [], rd_change_count = 0, rd_staged = 0,
      rd_event_count = ee_count (rr_events r), rd_event_bytes = ee_bytes (rr_events r),
      rd_done = ee_complete (rr_events r)\<rparr>"

subsection \<open>What the dashboard sees\<close>

lemma is_hidden_nothing: "\<not> is_hidden [] None p"
  by (simp add: is_hidden_def)

lemma visible_changes:
  "filterPolicyHiddenChanges load cs native =
     filter (\<lambda>c. \<not> is_hidden (hidden_roots native) (read_deny load native) (clean (ch_path c))) cs"
  by (auto simp: filterPolicyHiddenChanges_def Let_def is_hidden_nothing)

text \<open>Nothing below a hidden path and nothing the enforced policy denies is shown.\<close>

lemma shown_change_is_visible:
  assumes "c \<in> set (rd_changes (native_detail load build native))"
  shows "c \<in> set (native_changes build native) \<and>
    (\<forall>root \<in> set (hidden_roots native). clean (ch_path c) \<noteq> root \<and> \<not> prefix (root @ [sep]) (clean (ch_path c))) \<and>
    (\<forall>p. load (nr_policy native) = Some p \<and> nr_policy native \<noteq> [] \<and> rd_mode (pol_read p) = ModeEnforce \<longrightarrow>
      Decision (pol_read p) (clean (ch_path c)) \<noteq> ''deny'')"
  using assms
  by (auto simp: native_detail_def Let_def visible_changes is_hidden_def list_ex_iff read_deny_def denies_def Decision_def)

lemma small_staged_bytes:
  assumes "\<forall>c \<in> set cs. 0 \<le> change_bytes c" and "sum_list (map change_bytes cs) < 2 ^ 63"
  shows "stagedBytes cs = sum_list (map change_bytes cs)"
proof -
  have fold: "foldl (\<lambda>t c. t + word_of_int (change_bytes c)) t cs = t + word_of_int (sum_list (map change_bytes cs))"
    for t :: "64 word"
    by (induction cs arbitrary: t) (simp_all add: of_int_add add.assoc)
  have "0 \<le> sum_list (map change_bytes cs)" using assms(1) by (intro sum_list_nonneg) auto
  then show ?thesis
    using assms(2) by (simp add: stagedBytes_def fold sint_sbintrunc' signed_take_bit_int_eq_self)
qed

end
