(* ===== verification/Audit_Log.thy ===== *)
theory Audit_Log
  imports Evidence
begin

text \<open>
  \<open>internal/supervisor/audit.go\<close>: the log of the supervisor's actions, one JSON line each, and the
  reader that keeps the last entries.  \<open>stamp\<close> is the JSON text of a time, \<open>decode\<close> is
  \<open>json.Unmarshal\<close> into an entry.
\<close>

record AuditEntry =
  au_time :: int
  au_action :: string
  au_run :: string
  au_state :: string
  au_ok :: bool
  au_message :: string
  au_error :: string

datatype audit_error = AuditMkdir | AuditOpen | AuditWrite | AuditRead

text \<open>Which calls of an append succeed, and how many bytes the write takes.\<close>

record audit_io =
  ai_mkdir :: bool
  ai_open :: bool
  ai_bytes :: nat

definition optional_field :: "string \<Rightarrow> string \<Rightarrow> string list" where
  "optional_field name value = (if value = [] then [] else [json_field name (json_string value)])"

definition marshal_audit :: "(int \<Rightarrow> string) \<Rightarrow> AuditEntry \<Rightarrow> string" where
  "marshal_audit stamp a =
     ''{'' @ join_with '',''
       ([json_field ''timestamp'' (stamp (au_time a)), json_field ''action'' (json_string (au_action a))] @
        optional_field ''run_id'' (au_run a) @ optional_field ''state'' (au_state a) @
        [json_field ''ok'' (if au_ok a then ''true'' else ''false'')] @
        optional_field ''message'' (au_message a) @ optional_field ''error'' (au_error a)) @ ''}''"

definition audit_line :: "(int \<Rightarrow> string) \<Rightarrow> AuditEntry \<Rightarrow> string" where
  "audit_line stamp a = marshal_audit stamp a @ [newline]"

definition log_bytes :: "logfile \<Rightarrow> string" where
  "log_bytes f = (case f of LogBytes s b \<Rightarrow> s | _ \<Rightarrow> [])"

definition log_broken :: "logfile \<Rightarrow> bool" where
  "log_broken f = (case f of LogBytes s b \<Rightarrow> b | _ \<Rightarrow> False)"

definition appendAudit ::
  "(int \<Rightarrow> string) \<Rightarrow> audit_io \<Rightarrow> path \<Rightarrow> AuditEntry \<Rightarrow> logfile \<Rightarrow> logfile \<times> audit_error option" where
  "appendAudit stamp io p a f =
     (if p = [] then (f, None)
      else if \<not> ai_mkdir io then (f, Some AuditMkdir)
      else if \<not> ai_open io then (f, Some AuditOpen)
      else (LogBytes (log_bytes f @ take (ai_bytes io) (audit_line stamp a)) (log_broken f),
            if ai_bytes io < length (audit_line stamp a) then Some AuditWrite else None))"

definition MaxScanTokenSize :: nat where "MaxScanTokenSize = 65536"

definition push_entry :: "nat \<Rightarrow> AuditEntry list \<Rightarrow> AuditEntry \<Rightarrow> AuditEntry list" where
  "push_entry limit es a = (let es' = es @ [a] in if limit < length es' then tl es' else es')"

fun scan_audit ::
  "(string \<Rightarrow> AuditEntry option) \<Rightarrow> nat \<Rightarrow> bool \<Rightarrow> AuditEntry list \<Rightarrow> string list \<Rightarrow> audit_error + AuditEntry list" where
  "scan_audit decode limit broken es [] = (if broken then Inl AuditRead else Inr es)"
| "scan_audit decode limit broken es (l # ls) =
     (if MaxScanTokenSize \<le> length (if last l = newline then butlast l else l) then Inl AuditRead
      else (case decode (scanned_line l) of
              None \<Rightarrow> scan_audit decode limit broken es ls
            | Some a \<Rightarrow> scan_audit decode limit broken (push_entry limit es a) ls))"

definition readAudit ::
  "(string \<Rightarrow> AuditEntry option) \<Rightarrow> path \<Rightarrow> nat \<Rightarrow> logfile \<Rightarrow> audit_error + AuditEntry list" where
  "readAudit decode p limit f =
     (if p = [] then Inr []
      else (case f of
              LogMissing \<Rightarrow> Inr []
            | LogDenied \<Rightarrow> Inl AuditOpen
            | LogBytes s broken \<Rightarrow> scan_audit decode limit broken [] (raw_lines s)))"

subsection \<open>Lines of the log\<close>

definition last_n :: "nat \<Rightarrow> 'a list \<Rightarrow> 'a list" where
  "last_n n xs = drop (length xs - n) xs"

lemma push_last_n: "push_entry n (last_n n es) a = last_n n (es @ [a])"
proof (cases "length es < n")
  case True
  then show ?thesis by (simp add: push_entry_def last_n_def Let_def)
next
  case False
  then have "tl (drop (length es - n) es @ [a]) = drop (Suc (length es - n)) (es @ [a])"
    by (cases "n = 0") (simp_all add: drop_Suc tl_drop)
  then show ?thesis using False by (simp add: push_entry_def last_n_def Let_def Suc_diff_le)
qed

lemma optional_plain: "x \<in> set (optional_field n v) \<Longrightarrow> newline \<notin> set n \<Longrightarrow> newline \<notin> set x"
  using json_escape_plain [of v]
  by (auto simp: optional_field_def json_field_def json_string_def newline_def split: if_splits)

lemma join_plain: "\<forall>x \<in> set xs. c \<notin> set x \<Longrightarrow> c \<notin> set d \<Longrightarrow> c \<notin> set (join_with d xs)"
  by (induction d xs rule: join_with.induct) auto

lemma json_field_plain: "newline \<notin> set n \<Longrightarrow> newline \<notin> set v \<Longrightarrow> newline \<notin> set (json_field n v)"
  by (simp add: json_field_def newline_def)

lemma json_string_plain: "newline \<notin> set (json_string v)"
  using json_escape_plain [of v] by (simp add: json_string_def newline_def)

lemma optional_fields_plain: "newline \<notin> set n \<Longrightarrow> \<forall>x \<in> set (optional_field n v). newline \<notin> set x"
  using optional_plain by blast

lemma marshal_audit_plain:
  assumes "newline \<notin> set (stamp (au_time a))"
  shows "newline \<notin> set (marshal_audit stamp a)"
proof -
  have "\<forall>x \<in> set (optional_field ''run_id'' v). newline \<notin> set x" "\<forall>x \<in> set (optional_field ''state'' v). newline \<notin> set x"
    "\<forall>x \<in> set (optional_field ''message'' v). newline \<notin> set x" "\<forall>x \<in> set (optional_field ''error'' v). newline \<notin> set x" for v
    by (rule optional_fields_plain, simp add: newline_def)+
  then have "\<forall>x \<in> set ([json_field ''timestamp'' (stamp (au_time a)), json_field ''action'' (json_string (au_action a))] @
        optional_field ''run_id'' (au_run a) @ optional_field ''state'' (au_state a) @
        [json_field ''ok'' (if au_ok a then ''true'' else ''false'')] @
        optional_field ''message'' (au_message a) @ optional_field ''error'' (au_error a)). newline \<notin> set x"
    using json_field_plain [of "''timestamp''"] json_field_plain [of "''action''"] json_field_plain [of "''ok''"] assms
      json_string_plain
    by (simp add: ball_Un) (simp add: newline_def)
  from join_plain [OF this, of "'',''"] show ?thesis
    unfolding marshal_audit_def set_append Un_iff de_Morgan_disj by (intro conjI) (auto simp: newline_def)
qed

lemma marshal_audit_end: "marshal_audit stamp a \<noteq> []" "last (marshal_audit stamp a) = CHR ''}''"
  by (simp_all add: marshal_audit_def)

lemma scanned_audit: "scanned_line (audit_line stamp a) = marshal_audit stamp a"
  using marshal_audit_end [of stamp a] by (simp add: scanned_line_def audit_line_def)

lemma raw_audit:
  assumes "\<forall>t. newline \<notin> set (stamp t)"
  shows "raw_lines (concat (map (audit_line stamp) es)) = map (audit_line stamp) es"
proof -
  have "audit_line stamp = (\<lambda>a. marshal_audit stamp a @ [newline])" by (simp add: fun_eq_iff audit_line_def)
  then show ?thesis
    using raw_lines_lines [of "map (marshal_audit stamp) es"] marshal_audit_plain assms by (simp add: comp_def)
qed

text \<open>Appending entry after entry.\<close>

fun append_audits :: "(int \<Rightarrow> string) \<Rightarrow> path \<Rightarrow> (audit_io \<times> AuditEntry) list \<Rightarrow> logfile \<Rightarrow> logfile" where
  "append_audits stamp p [] f = f"
| "append_audits stamp p ((io, a) # es) f = append_audits stamp p es (fst (appendAudit stamp io p a f))"

definition audit_io_ok :: "audit_io \<Rightarrow> AuditEntry \<Rightarrow> (int \<Rightarrow> string) \<Rightarrow> bool" where
  "audit_io_ok io a stamp = (ai_mkdir io \<and> ai_open io \<and> length (audit_line stamp a) \<le> ai_bytes io)"

lemma append_audits_bytes:
  assumes "p \<noteq> []" and "\<forall>(io, a) \<in> set es. audit_io_ok io a stamp" and "es \<noteq> []"
  shows "append_audits stamp p es f = LogBytes (log_bytes f @ concat (map (audit_line stamp) (map snd es))) (log_broken f)"
  using assms
proof (induction es arbitrary: f)
  case (Cons x es)
  obtain io a where x: "x = (io, a)" by fastforce
  then have ok: "audit_io_ok io a stamp" using Cons.prems(2) by simp
  then have "appendAudit stamp io p a f = (LogBytes (log_bytes f @ audit_line stamp a) (log_broken f), None)"
    using Cons.prems(1) by (simp add: appendAudit_def audit_io_ok_def)
  then show ?case
    using Cons by (cases "es = []") (simp_all add: x log_bytes_def log_broken_def)
qed simp

lemma scan_audit_decoded:
  assumes "\<forall>a \<in> set es. decode (marshal_audit stamp a) = Some a \<and> length (marshal_audit stamp a) < MaxScanTokenSize"
  shows "scan_audit decode limit False (last_n limit xs) (map (audit_line stamp) es) = Inr (last_n limit (xs @ es))"
  using assms
proof (induction es arbitrary: xs)
  case (Cons a es)
  have "length (butlast (audit_line stamp a)) < MaxScanTokenSize" "last (audit_line stamp a) = newline"
    using Cons.prems by (simp_all add: audit_line_def)
  then show ?case using Cons.IH [of "xs @ [a]"] Cons.prems by (simp add: scanned_audit push_last_n)
qed simp

text \<open>
  The audit log reads back: after entries have been appended to a log that did not exist,
  the reader returns the last \<open>limit\<close> of them in their order, provided no line has 65,536 bytes.
\<close>

theorem audit_reads_back:
  assumes "p \<noteq> []" and "\<forall>(io, a) \<in> set es. audit_io_ok io a stamp" and "\<forall>t. newline \<notin> set (stamp t)"
    and "\<forall>(io, a) \<in> set es. decode (marshal_audit stamp a) = Some a \<and> length (marshal_audit stamp a) < MaxScanTokenSize"
  shows "readAudit decode p limit (append_audits stamp p es LogMissing) = Inr (last_n limit (map snd es))"
proof (cases "es = []")
  case True
  then show ?thesis by (simp add: readAudit_def last_n_def)
next
  case False
  have "\<forall>a \<in> set (map snd es). decode (marshal_audit stamp a) = Some a \<and> length (marshal_audit stamp a) < MaxScanTokenSize"
    using assms(4) by auto
  from scan_audit_decoded [OF this, where limit = limit and xs = "[]"] show ?thesis
    using append_audits_bytes [OF assms(1,2) False, of LogMissing] assms(1) raw_audit [OF assms(3), of "map snd es"]
    by (simp add: readAudit_def log_bytes_def log_broken_def last_n_def)
qed

subsection \<open>A long entry\<close>

lemma json_escape_less: "json_escape (replicate n CHR ''<'') = concat (replicate n (json_byte CHR ''<''))"
  by (induction n) (simp_all add: byte_val_def)

lemma length_escape_less: "length (json_escape (s @ replicate n CHR ''<'')) \<ge> 6 * n" if "\<forall>c \<in> set s. byte_val c < 128"
  using that
proof (induction s)
  case Nil
  have "length (json_byte CHR ''<'') = 6" by (simp add: json_byte_def byte_val_def hex4_def)
  then show ?case unfolding append_Nil json_escape_less by (simp add: length_concat sum_list_replicate)
qed simp

lemma scan_audit_long:
  assumes "l \<in> set ls" and "last l = newline" and "MaxScanTokenSize < length l"
  shows "scan_audit decode limit broken es ls = Inl AuditRead"
  using assms(1)
proof (induction ls arbitrary: es)
  case (Cons x ls)
  show ?case
  proof (cases "x = l")
    case False
    then have IH: "scan_audit decode limit broken es ls = Inl AuditRead" for es using Cons by simp
    show ?thesis by (cases "decode (scanned_line x)") (simp_all add: IH)
  next
    case True
    have "MaxScanTokenSize \<le> length l - Suc 0" using assms(3) by linarith
    then show ?thesis using True assms(2) by simp
  qed
qed simp

lemma raw_lines_inside:
  assumes "newline \<notin> set l"
  shows "\<exists>x \<in> set (raw_lines (s @ l @ newline # r)). last x = newline \<and> length l < length x"
proof (induction s)
  case Nil
  then show ?case using raw_lines_line [OF assms, of r] by simp
next
  case (Cons c s)
  then obtain x where x: "x \<in> set (raw_lines (s @ l @ newline # r))" "last x = newline" "length l < length x" by blast
  then obtain y ys where y: "raw_lines (s @ l @ newline # r) = y # ys" by (cases "raw_lines (s @ l @ newline # r)") auto
  show ?case
  proof (cases "x = y")
    case True
    then have "x \<noteq> []" using x by auto
    then show ?thesis using x y True by (cases "c = newline") simp_all
  next
    case False
    then show ?thesis using x y by auto
  qed
qed

lemma append_audits_grow:
  "\<exists>r. append_audits stamp p es (LogBytes s b) = LogBytes (s @ r) b"
proof (induction es arbitrary: s)
  case (Cons x es)
  obtain io a where x: "x = (io, a)" by fastforce
  have "\<exists>q. fst (appendAudit stamp io p a (LogBytes s b)) = LogBytes (s @ q) b"
    by (auto simp: appendAudit_def log_bytes_def log_broken_def)
  then obtain q where "fst (appendAudit stamp io p a (LogBytes s b)) = LogBytes (s @ q) b" by blast
  then show ?case using Cons [of "s @ q"] by (auto simp: x)
qed auto

lemma length_join_mem: "x \<in> set xs \<Longrightarrow> length x \<le> length (join_with d xs)"
  by (induction d xs rule: join_with.induct) auto

lemma long_action_line:
  assumes "au_action a = ''session_'' @ replicate n CHR ''<''"
  shows "6 * n < length (marshal_audit stamp a)"
proof -
  have "6 * n \<le> length (json_escape (au_action a))"
    unfolding assms by (rule length_escape_less) (simp add: byte_val_def)
  then have "6 * n < length (json_field ''action'' (json_string (au_action a)))"
    by (simp add: json_field_def json_string_def)
  also have "\<dots> \<le> length (marshal_audit stamp a)"
    unfolding marshal_audit_def length_append
    by (rule trans_le_add2, rule trans_le_add1, rule length_join_mem) simp
  finally show ?thesis .
qed

text \<open>
  One long entry makes the log unreadable for good: the action of a session request is logged
  as the client sent it, and each \<open><\<close> of it takes six bytes in the line; after one request with
  10,923 of them, which the body limit of 16 KiB lets pass, every later reading fails,
  whatever else is appended.
\<close>

theorem long_action_hides_audit:
  assumes "p \<noteq> []" and "audit_io_ok io a stamp" and "newline \<notin> set (stamp (au_time a))"
    and "au_action a = ''session_'' @ replicate n CHR ''<''" and "10923 \<le> n"
  shows "snd (appendAudit stamp io p a f) = None \<and>
    readAudit decode p limit (append_audits stamp p es (fst (appendAudit stamp io p a f))) = Inl AuditRead"
proof -
  have a: "appendAudit stamp io p a f = (LogBytes (log_bytes f @ audit_line stamp a) (log_broken f), None)"
    using assms(1,2) by (simp add: appendAudit_def audit_io_ok_def)
  obtain r where r: "append_audits stamp p es (fst (appendAudit stamp io p a f)) =
      LogBytes (log_bytes f @ marshal_audit stamp a @ newline # r) (log_broken f)"
    using append_audits_grow [of stamp p es "log_bytes f @ audit_line stamp a" "log_broken f"]
    by (auto simp: a audit_line_def)
  obtain x where "x \<in> set (raw_lines (log_bytes f @ marshal_audit stamp a @ newline # r))" "last x = newline"
    "length (marshal_audit stamp a) < length x"
    using raw_lines_inside [OF marshal_audit_plain [of stamp a, OF assms(3)]] by blast
  moreover have "MaxScanTokenSize < length (marshal_audit stamp a)"
    using long_action_line [OF assms(4), of stamp] assms(5) by (simp add: MaxScanTokenSize_def)
  ultimately have "scan_audit decode limit (log_broken f) []
      (raw_lines (log_bytes f @ marshal_audit stamp a @ newline # r)) = Inl AuditRead"
    using scan_audit_long by simp
  then show ?thesis using assms(1) by (simp add: r readAudit_def) (simp add: a)
qed

definition demo_audit :: "string \<Rightarrow> AuditEntry" where
  "demo_audit action = \<lparr>au_time = 5, au_action = action, au_run = [], au_state = ''refused'', au_ok = False,
     au_message = [], au_error = []\<rparr>"

definition full_io :: "AuditEntry \<Rightarrow> audit_io" where
  "full_io a = \<lparr>ai_mkdir = True, ai_open = True, ai_bytes = length (audit_line (\<lambda>t. ''0'') a)\<rparr>"

theorem audit_reads_back_witness:
  "readAudit (\<lambda>s. if s = marshal_audit (\<lambda>t. ''0'') (demo_audit ''b'') then Some (demo_audit ''b'') else Some (demo_audit ''a''))
     ''/a'' 1 (append_audits (\<lambda>t. ''0'') ''/a'' [(full_io (demo_audit ''a''), demo_audit ''a''),
       (full_io (demo_audit ''b''), demo_audit ''b'')] LogMissing) = Inr [demo_audit ''b'']"
proof -
  let ?stamp = "\<lambda>t :: int. ''0''"
  let ?decode = "\<lambda>s. if s = marshal_audit ?stamp (demo_audit ''b'') then Some (demo_audit ''b'') else Some (demo_audit ''a'')"
  let ?es = "[(full_io (demo_audit ''a''), demo_audit ''a''), (full_io (demo_audit ''b''), demo_audit ''b'')]"
  have shape: "marshal_audit ?stamp (demo_audit [c]) =
      ''{'' @ join_with '','' [json_field ''timestamp'' ''0'', json_field ''action'' (json_string [c]),
        json_field ''state'' (json_string ''refused''), json_field ''ok'' ''false''] @ ''}''" for c
    by (simp add: marshal_audit_def demo_audit_def optional_field_def)
  have "marshal_audit ?stamp (demo_audit ''a'') \<noteq> marshal_audit ?stamp (demo_audit ''b'')"
    unfolding shape by (simp add: json_field_def json_string_def byte_val_def json_byte_def)
  moreover have "length (marshal_audit ?stamp (demo_audit ''a'')) < MaxScanTokenSize"
    "length (marshal_audit ?stamp (demo_audit ''b'')) < MaxScanTokenSize"
    unfolding shape by (simp_all add: json_field_def json_string_def byte_val_def json_byte_def MaxScanTokenSize_def)
  ultimately have "readAudit ?decode ''/a'' 1 (append_audits ?stamp ''/a'' ?es LogMissing) = Inr (last_n 1 (map snd ?es))"
    by (intro audit_reads_back) (simp_all add: audit_io_ok_def full_io_def newline_def)
  then show ?thesis by (simp add: last_n_def)
qed

theorem long_action_hides_audit_witness:
  "readAudit (\<lambda>_. None) ''/a'' 100 (fst (appendAudit (\<lambda>t. ''0'')
     (full_io (demo_audit (''session_'' @ replicate 10923 CHR ''<''))) ''/a''
     (demo_audit (''session_'' @ replicate 10923 CHR ''<'')) LogMissing)) = Inl AuditRead"
  using long_action_hides_audit [of "''/a''" "full_io (demo_audit (''session_'' @ replicate 10923 CHR ''<''))"
      "demo_audit (''session_'' @ replicate 10923 CHR ''<'')" "\<lambda>t. ''0''" 10923 LogMissing "\<lambda>_. None" 100 "[]"]
  by (simp add: audit_io_ok_def full_io_def newline_def demo_audit_def)

end
