(* ===== verification/Go_Base64.thy ===== *)
theory Go_Base64
  imports Go_Base
begin

text \<open>
  Go's \<open>encoding/base64.StdEncoding\<close>: \<open>EncodeToString\<close> with padding, and \<open>DecodeString\<close>, which
  skips line ends, wants the padding at the very end and ignores the unused low bits of the last
  digit.
\<close>

definition b64_alphabet :: string where
  "b64_alphabet = ''ABCDEFGHIJKLMNOPQRSTUVWXYZabcdefghijklmnopqrstuvwxyz0123456789+/''"

definition b64_digit :: "nat \<Rightarrow> char" where
  "b64_digit n = b64_alphabet ! n"

definition b64_value :: "char \<Rightarrow> nat option" where
  "b64_value c = index_where (\<lambda>x. x = c) b64_alphabet"

abbreviation pad :: char where "pad \<equiv> CHR ''=''"

fun b64_encode :: "string \<Rightarrow> string" where
  "b64_encode [] = []"
| "b64_encode [a] =
     (let x = of_char a in [b64_digit (x div 4), b64_digit (x mod 4 * 16), pad, pad])"
| "b64_encode [a, b] =
     (let x = of_char a; y = of_char b in
      [b64_digit (x div 4), b64_digit (x mod 4 * 16 + y div 16), b64_digit (y mod 16 * 4), pad])"
| "b64_encode (a # b # c # s) =
     (let x = of_char a; y = of_char b; z = of_char c in
      [b64_digit (x div 4), b64_digit (x mod 4 * 16 + y div 16), b64_digit (y mod 16 * 4 + z div 64),
       b64_digit (z mod 64)] @ b64_encode s)"

fun b64_quads :: "string \<Rightarrow> string option" where
  "b64_quads [] = Some []"
| "b64_quads (a # b # c # d # s) =
     (case (b64_value a, b64_value b) of
        (Some x, Some y) \<Rightarrow>
          if c = pad then (if d = pad \<and> s = [] then Some [char_of (x * 4 + y div 16)] else None)
          else (case b64_value c of
                  None \<Rightarrow> None
                | Some z \<Rightarrow>
                    if d = pad then
                      (if s = [] then Some [char_of (x * 4 + y div 16), char_of (y mod 16 * 16 + z div 4)] else None)
                    else (case b64_value d of
                            None \<Rightarrow> None
                          | Some w \<Rightarrow>
                              map_option (\<lambda>r. [char_of (x * 4 + y div 16), char_of (y mod 16 * 16 + z div 4),
                                char_of (z mod 4 * 64 + w)] @ r) (b64_quads s)))
      | _ \<Rightarrow> None)"
| "b64_quads s = None"

definition b64_decode :: "string \<Rightarrow> string option" where
  "b64_decode s = b64_quads (filter (\<lambda>c. c \<noteq> CHR 0x0A \<and> c \<noteq> CHR 0x0D) s)"

subsection \<open>Decoding an encoded string\<close>

lemma distinct_alphabet: "distinct b64_alphabet" "length b64_alphabet = 64"
  by (simp_all add: b64_alphabet_def)

lemma index_where_nth: "distinct xs \<Longrightarrow> n < length xs \<Longrightarrow> index_where (\<lambda>x. x = xs ! n) xs = Some n"
proof -
  assume a: "distinct xs" "n < length xs"
  then have "index_where (\<lambda>x. x = xs ! n) xs \<noteq> None" by (auto simp: index_where_None)
  then obtain i where "index_where (\<lambda>x. x = xs ! n) xs = Some i" by blast
  moreover from index_where_Some [OF this] have "i = n" using a nth_eq_iff_index_eq [OF a(1), of i n] by auto
  ultimately show ?thesis by simp
qed

lemma b64_value_digit [simp]: "n < 64 \<Longrightarrow> b64_value (b64_digit n) = Some n"
  unfolding b64_value_def b64_digit_def using index_where_nth [of b64_alphabet n] distinct_alphabet by simp

lemma b64_digit_mem: "n < 64 \<Longrightarrow> b64_digit n \<in> set b64_alphabet"
  unfolding b64_digit_def using distinct_alphabet by simp

lemma b64_digit_plain [simp]:
  assumes "n < 64"
  shows "b64_digit n \<noteq> pad" "b64_digit n \<noteq> CHR 0x0A" "b64_digit n \<noteq> CHR 0x0D"
proof -
  have "pad \<notin> set b64_alphabet" "CHR 0x0A \<notin> set b64_alphabet" "CHR 0x0D \<notin> set b64_alphabet"
    by (simp_all add: b64_alphabet_def)
  then show "b64_digit n \<noteq> pad" "b64_digit n \<noteq> CHR 0x0A" "b64_digit n \<noteq> CHR 0x0D"
    using b64_digit_mem [OF assms] by metis+
qed

lemma digit_bounds:
  fixes x y :: nat
  assumes "x < 256" "y < 256"
  shows "x div 4 < 64" "x mod 4 * 16 < 64" "x mod 4 * 16 + y div 16 < 64" "x mod 16 * 4 < 64"
    "x mod 16 * 4 + y div 64 < 64"
  using assms by linarith+

lemma byte_digits:
  "of_char a div 4 < (64 :: nat)" "of_char a mod 4 * 16 < (64 :: nat)"
  "of_char a mod 4 * 16 + of_char b div 16 < (64 :: nat)" "of_char a mod 16 * 4 < (64 :: nat)"
  "of_char a mod 16 * 4 + of_char b div 64 < (64 :: nat)"
  by (rule digit_bounds; rule nat_of_char_less_256)+

lemma byte_parts:
  fixes x y z :: nat
  assumes "x < 256" "y < 256" "z < 256"
  shows "x div 4 * 4 + (x mod 4 * 16) div 16 = x" "x div 4 * 4 + (x mod 4 * 16 + y div 16) div 16 = x"
    "(x mod 4 * 16 + y div 16) mod 16 * 16 + (y mod 16 * 4) div 4 = y"
    "(x mod 4 * 16 + y div 16) mod 16 * 16 + (y mod 16 * 4 + z div 64) div 4 = y"
    "(y mod 16 * 4 + z div 64) mod 4 * 64 + z mod 64 = z"
proof -
  have y: "y div 16 < 16" "z div 64 < 4" using assms by linarith+
  show "x div 4 * 4 + (x mod 4 * 16) div 16 = x" by simp
  show "x div 4 * 4 + (x mod 4 * 16 + y div 16) div 16 = x" using y by simp
  have "(x mod 4 * 16 + y div 16) mod 16 = y div 16" using y by simp
  then show "(x mod 4 * 16 + y div 16) mod 16 * 16 + (y mod 16 * 4) div 4 = y"
    "(x mod 4 * 16 + y div 16) mod 16 * 16 + (y mod 16 * 4 + z div 64) div 4 = y"
    using y by simp_all
  have "(y mod 16 * 4 + z div 64) mod 4 = z div 64" using y by simp
  then show "(y mod 16 * 4 + z div 64) mod 4 * 64 + z mod 64 = z" by simp
qed

lemma b64_quads_encode: "b64_quads (b64_encode s) = Some s"
proof (induction s rule: b64_encode.induct)
  case (2 a)
  show ?case
    using byte_parts [of "of_char a" 0 0] by (simp add: Let_def byte_digits nat_of_char_less_256)
next
  case (3 a b)
  show ?case
    using byte_parts [of "of_char a" "of_char b" 0] by (simp add: Let_def byte_digits nat_of_char_less_256)
next
  case (4 a b c s)
  then show ?case
    using byte_parts [of "of_char a" "of_char b" "of_char c"]
    by (simp add: Let_def byte_digits nat_of_char_less_256)
qed simp

lemma b64_encode_plain: "c \<in> set (b64_encode s) \<Longrightarrow> c \<noteq> CHR 0x0A \<and> c \<noteq> CHR 0x0D"
proof (induction s rule: b64_encode.induct)
  case (4 a b d s)
  then show ?case by (auto simp: Let_def byte_digits)
qed (auto simp: Let_def byte_digits)

lemma b64_round_trip [simp]: "b64_decode (b64_encode s) = Some s"
proof -
  have "filter (\<lambda>c. c \<noteq> CHR 0x0A \<and> c \<noteq> CHR 0x0D) (b64_encode s) = b64_encode s"
    by (intro filter_True ballI b64_encode_plain)
  then show ?thesis by (simp add: b64_decode_def b64_quads_encode)
qed

lemma length_b64_encode: "length (b64_encode s) = 4 * ((length s + 2) div 3)"
proof (induction s rule: b64_encode.induct)
  case (4 a b c s)
  have "(length (a # b # c # s) + 2) div 3 = Suc ((length s + 2) div 3)" by simp
  then show ?case using 4 by (simp add: Let_def)
qed (simp_all add: Let_def)

end
