(* ===== verification/Policy_Bundle.thy ===== *)
theory Policy_Bundle
  imports Go_Base64 Policy_Engine
begin

text \<open>
  \<open>internal/policybundle\<close>: signed envelopes of policy packages.  Ed25519, SHA-256 and the JSON
  codec of a bundle are the fields of \<open>crypto\<close>; what is assumed of them is \<open>signs\<close> (a signature
  verifies under the public half of its key) and a codec that reads back what it wrote.
\<close>

record Bundle =
  bd_name :: string
  bd_version :: string
  bd_description :: string
  bd_policy :: Policy

record Signed =
  sg_version :: int
  sg_key :: string
  sg_public :: string
  sg_payload :: string
  sg_signature :: string

record crypto =
  cy_public :: "string \<Rightarrow> string"
  cy_sign :: "string \<Rightarrow> string \<Rightarrow> string"
  cy_verify :: "string \<Rightarrow> string \<Rightarrow> string \<Rightarrow> bool"
  cy_sha :: "string \<Rightarrow> string"
  cy_marshal :: "Bundle \<Rightarrow> string option"
  cy_unmarshal :: "string \<Rightarrow> Bundle option"

datatype bundle_error =
    BundleFields | BundlePolicy policy_error | PrivateKeyLength | BundleEncode | BundleVersion int
  | PublicKeyDecode | KeyMismatch | PayloadDecode | SignatureDecode | SignatureFailed | Untrusted
  | BundleDecode

definition PrivateKeySize :: nat where "PrivateKeySize = 64"
definition PublicKeySize :: nat where "PublicKeySize = 32"
definition SignatureSize :: nat where "SignatureSize = 64"

definition validateBundle :: "Bundle \<Rightarrow> bundle_error + unit" where
  "validateBundle b =
     (if bd_name b = [] \<or> bd_version b = [] then Inl BundleFields
      else map_err BundlePolicy (Policy_Validate (bd_policy b)))"

definition keyID :: "crypto \<Rightarrow> string \<Rightarrow> string" where
  "keyID cy public = hex_encode (take 8 (cy_sha cy public))"

definition decodeKey :: "string \<Rightarrow> nat \<Rightarrow> string option" where
  "decodeKey value n =
     (case b64_decode value of
        None \<Rightarrow> None
      | Some d \<Rightarrow> if length d \<noteq> n then None else Some d)"

definition bundle_Sign :: "crypto \<Rightarrow> Bundle \<Rightarrow> string \<Rightarrow> bundle_error + Signed" where
  "bundle_Sign cy b private =
     and_then (validateBundle b) (\<lambda>_.
       if length private \<noteq> PrivateKeySize then Inl PrivateKeyLength
       else (case cy_marshal cy b of
               None \<Rightarrow> Inl BundleEncode
             | Some payload \<Rightarrow>
                 let public = cy_public cy private in
                 Inr \<lparr>sg_version = 1, sg_key = keyID cy public, sg_public = b64_encode public,
                      sg_payload = b64_encode payload, sg_signature = b64_encode (cy_sign cy private payload)\<rparr>))"

definition bundle_Verify :: "crypto \<Rightarrow> Signed \<Rightarrow> string list \<Rightarrow> bundle_error + Bundle" where
  "bundle_Verify cy s trusted =
     (if sg_version s \<noteq> 1 then Inl (BundleVersion (sg_version s))
      else (case decodeKey (sg_public s) PublicKeySize of
        None \<Rightarrow> Inl PublicKeyDecode
      | Some public \<Rightarrow>
          if sg_key s \<noteq> keyID cy public then Inl KeyMismatch
          else (case b64_decode (sg_payload s) of
            None \<Rightarrow> Inl PayloadDecode
          | Some payload \<Rightarrow>
              (case decodeKey (sg_signature s) SignatureSize of
                 None \<Rightarrow> Inl SignatureDecode
               | Some signature \<Rightarrow>
                   if \<not> cy_verify cy public payload signature then Inl SignatureFailed
                   else if trusted \<noteq> [] \<and> public \<notin> set trusted then Inl Untrusted
                   else (case cy_unmarshal cy payload of
                           None \<Rightarrow> Inl BundleDecode
                         | Some b \<Rightarrow> and_then (validateBundle b) (\<lambda>_. Inr b))))))"

text \<open>What Ed25519 promises of a key: the sizes, and that its signatures verify.\<close>

definition signs :: "crypto \<Rightarrow> string \<Rightarrow> bool" where
  "signs cy private =
     (length (cy_public cy private) = PublicKeySize \<and>
      (\<forall>m. length (cy_sign cy private m) = SignatureSize \<and>
           cy_verify cy (cy_public cy private) m (cy_sign cy private m)))"

subsection \<open>Lemmas\<close>

lemma decodeKey_Some: "decodeKey v n = Some d \<longleftrightarrow> b64_decode v = Some d \<and> length d = n"
  by (auto simp: decodeKey_def split: option.splits)

lemma validateBundle_Inr [simp]:
  "validateBundle b = Inr u \<longleftrightarrow> bd_name b \<noteq> [] \<and> bd_version b \<noteq> [] \<and> wf_policy (bd_policy b)"
  by (simp add: validateBundle_def)

text \<open>What an accepted envelope is.\<close>

lemma bundle_Verify_Inr:
  "bundle_Verify cy s trusted = Inr b \<longleftrightarrow>
     sg_version s = 1 \<and>
     (\<exists>public payload signature.
        b64_decode (sg_public s) = Some public \<and> length public = PublicKeySize \<and>
        sg_key s = keyID cy public \<and> b64_decode (sg_payload s) = Some payload \<and>
        b64_decode (sg_signature s) = Some signature \<and> length signature = SignatureSize \<and>
        cy_verify cy public payload signature \<and> (trusted = [] \<or> public \<in> set trusted) \<and>
        cy_unmarshal cy payload = Some b \<and> validateBundle b = Inr ())"
  by (cases "b64_decode (sg_public s)"; cases "b64_decode (sg_payload s)"; cases "b64_decode (sg_signature s)")
    (auto simp: bundle_Verify_def decodeKey_def split: if_splits option.splits)

lemma verified_is_valid: "bundle_Verify cy s trusted = Inr b \<Longrightarrow> validateBundle b = Inr ()"
  by (simp only: bundle_Verify_Inr) blast

lemma trusted_is_verified:
  "bundle_Verify cy s trusted = Inr b \<Longrightarrow> bundle_Verify cy s [] = Inr b"
  by (simp only: bundle_Verify_Inr) blast

subsection \<open>Signing and verifying\<close>

lemma signed_bundle_untrusted:
  assumes "bundle_Sign cy b private = Inr s" and "signs cy private"
    and "\<forall>p. cy_marshal cy b = Some p \<longrightarrow> cy_unmarshal cy p = Some b"
  shows "bundle_Verify cy s trusted =
    (if trusted = [] \<or> cy_public cy private \<in> set trusted then Inr b else Inl Untrusted)"
proof -
  obtain p where p: "cy_marshal cy b = Some p" "validateBundle b = Inr ()"
    "s = \<lparr>sg_version = 1, sg_key = keyID cy (cy_public cy private), sg_public = b64_encode (cy_public cy private),
          sg_payload = b64_encode p, sg_signature = b64_encode (cy_sign cy private p)\<rparr>"
    using assms(1) by (auto simp: bundle_Sign_def Let_def split: if_splits option.splits)
  then show ?thesis
    using assms(2,3) by (auto simp: signs_def bundle_Verify_def decodeKey_def simp del: validateBundle_Inr)
qed

text \<open>
  What \<open>Sign\<close> produced is accepted by \<open>Verify\<close> and gives back the bundle, by everybody who
  trusts the signer or names no trusted keys; whoever trusts only other keys refuses it.
\<close>

theorem signed_bundle_verifies:
  assumes "bundle_Sign cy b private = Inr s" and "signs cy private"
    and "\<forall>p. cy_marshal cy b = Some p \<longrightarrow> cy_unmarshal cy p = Some b"
  shows "bundle_Verify cy s trusted =
    (if trusted = [] \<or> cy_public cy private \<in> set trusted then Inr b else Inl Untrusted)"
  using signed_bundle_untrusted [OF assms] .

definition demo_policy :: Policy where
  "demo_policy = \<lparr>
     pol_read = \<lparr>rd_mode = ModeAudit, rd_deny = [], rd_allow = [], rd_pii = \<lparr>pii_mode = ModeOff\<rparr>\<rparr>,
     pol_write = \<lparr>wr_mode = ''rollback'', wr_scope = ''workspace''\<rparr>,
     pol_network = \<lparr>net_mode = ModeAudit, net_domains = [], net_creds = []\<rparr>,
     pol_resources = \<lparr>pids_max = [], memory_max = [], cpu_max = []\<rparr>\<rparr>"

lemma demo_policy_wf: "wf_policy demo_policy"
  by (simp add: wf_policy_def demo_policy_def limit_ok_def mode_defs mode_ok_def)

definition demo_bundle :: Bundle where
  "demo_bundle = \<lparr>bd_name = ''safe'', bd_version = ''1.0.0'', bd_description = [], bd_policy = demo_policy\<rparr>"

text \<open>A key pair whose public half is the second half of the private key; the signature of every
  message is the private key backwards.\<close>

definition demo_crypto :: crypto where
  "demo_crypto = \<lparr>cy_public = drop 32, cy_sign = (\<lambda>k m. rev k), cy_verify = (\<lambda>p m g. take 32 g = rev p),
     cy_sha = (\<lambda>s. s), cy_marshal = (\<lambda>b. Some (bd_name b)),
     cy_unmarshal = (\<lambda>s. if s = bd_name demo_bundle then Some demo_bundle else None)\<rparr>"

definition demo_key :: string where "demo_key = replicate 32 CHR ''k'' @ replicate 32 CHR ''p''"

lemma demo_signs: "signs demo_crypto demo_key"
  by (simp add: signs_def demo_crypto_def demo_key_def PublicKeySize_def SignatureSize_def)

definition demo_signed :: Signed where
  "demo_signed = projr (bundle_Sign demo_crypto demo_bundle demo_key)"

lemma demo_signed: "bundle_Sign demo_crypto demo_bundle demo_key = Inr demo_signed"
proof -
  have "validateBundle demo_bundle = Inr ()" using demo_policy_wf by (simp add: demo_bundle_def)
  then have "\<exists>s. bundle_Sign demo_crypto demo_bundle demo_key = Inr s"
    by (simp add: bundle_Sign_def demo_key_def PrivateKeySize_def demo_crypto_def Let_def)
  then show ?thesis by (auto simp: demo_signed_def)
qed

theorem signed_bundle_verifies_witness:
  "bundle_Verify demo_crypto demo_signed [] = Inr demo_bundle \<and>
   bundle_Verify demo_crypto demo_signed [demo_key] = Inl Untrusted"
proof -
  have "\<forall>p. cy_marshal demo_crypto demo_bundle = Some p \<longrightarrow> cy_unmarshal demo_crypto p = Some demo_bundle"
    by (simp add: demo_crypto_def)
  from signed_bundle_verifies [OF demo_signed demo_signs this] show ?thesis
    by (simp add: demo_crypto_def demo_key_def)
qed

end
