(* ===== verification/Control_Plane.thy ===== *)
theory Control_Plane
  imports Policy_Bundle Net_Policy Go_Path "HOL-Library.Word"
begin

text \<open>
  \<open>internal/controlplane\<close>: the policy packages and workspace assignments of the local supervisor,
  one JSON file that every operation reads, changes and replaces.  The file holds the decoded
  snapshot, the codec being the identity on it; the calls on the file that fail are the
  environment.  The revision is a 64-bit counter.
\<close>

record PolicyPackage =
  pk_name :: string
  pk_version :: string
  pk_description :: string
  pk_policy :: Policy
  pk_signed :: bool
  pk_signer :: string
  pk_bundle :: "Signed option"
  pk_updated :: int

record Workspace =
  ws_name :: string
  ws_path :: path
  ws_policy :: string
  ws_adapter :: string
  ws_updated :: int

record Snapshot =
  sn_revision :: "64 word"
  sn_policies :: "PolicyPackage list"
  sn_workspaces :: "Workspace list"

datatype cfile = CMissing | CUnreadable | CGarbled | CStored Snapshot

record cstore =
  cp_path :: path
  cp_file :: cfile

record cp_io =
  ci_mkdir :: bool
  ci_write :: bool
  ci_rename :: bool

datatype config_error =
    ConfigDisabled | PackageName | PackageVersion | PackageDescription | PackagePolicy policy_error
  | PackageExists string string | PackageImmutable string string | PackageMissing string string
  | BundleRefused bundle_error | WorkspaceName | WorkspacePath | WorkspacePolicy
  | WorkspaceAdapter agent_error | PolicyNotInstalled string | ConfigRead | ConfigDecode
  | StoredSignature string string bundle_error | StoredMismatch string string
  | ConfigMkdir | ConfigWrite | ConfigCommit

definition alnum :: "char \<Rightarrow> bool" where
  "alnum c = (is_digit c \<or> (CHR ''A'' \<le> c \<and> c \<le> CHR ''Z'') \<or> (CHR ''a'' \<le> c \<and> c \<le> CHR ''z''))"

text \<open>\<open>identifierPattern\<close> and \<open>versionPattern\<close>.\<close>

definition ident_ok :: "string \<Rightarrow> bool" where
  "ident_ok s =
     (case s of
        [] \<Rightarrow> False
      | c # cs \<Rightarrow> alnum c \<and> 1 \<le> length cs \<and> length cs \<le> 63 \<and> list_all (\<lambda>x. alnum x \<or> x \<in> set ''._-'') cs)"

definition semver :: "string \<Rightarrow> bool" where
  "semver s = (length (split_on CHR ''.'' s) = 3 \<and> list_all (\<lambda>x. x \<noteq> [] \<and> list_all is_digit x) (split_on CHR ''.'' s))"

definition cp_Open :: "path \<Rightarrow> cfile \<Rightarrow> cstore" where
  "cp_Open p f = \<lparr>cp_path = trim_space p, cp_file = f\<rparr>"

definition Enabled :: "cstore \<Rightarrow> bool" where
  "Enabled s = (cp_path s \<noteq> [])"

definition validatePolicyPackage :: "PolicyPackage \<Rightarrow> config_error + unit" where
  "validatePolicyPackage v =
     (if \<not> ident_ok (pk_name v) then Inl PackageName
      else if \<not> semver (pk_version v) then Inl PackageVersion
      else if length (pk_description v) > 240 then Inl PackageDescription
      else map_err PackagePolicy (Policy_Validate (pk_policy v)))"

definition validateWorkspace :: "Workspace \<Rightarrow> config_error + unit" where
  "validateWorkspace w =
     (if \<not> ident_ok (ws_name w) then Inl WorkspaceName
      else if \<not> is_abs (ws_path w) \<or> clean (ws_path w) = [sep] then Inl WorkspacePath
      else if blank (ws_policy w) then Inl WorkspacePolicy
      else (case agent_Resolve (ws_adapter w) of Inl e \<Rightarrow> Inl (WorkspaceAdapter e) | Inr _ \<Rightarrow> Inr ()))"

definition reference :: "PolicyPackage \<Rightarrow> string" where
  "reference v = pk_name v @ ''@'' @ pk_version v"

definition hasPolicy :: "PolicyPackage list \<Rightarrow> string \<Rightarrow> bool" where
  "hasPolicy ps r = list_ex (\<lambda>v. reference v = r) ps"

definition check_stored :: "crypto \<Rightarrow> PolicyPackage \<Rightarrow> config_error + unit" where
  "check_stored cy v =
     (case (pk_signed v, pk_bundle v) of
        (True, Some sg) \<Rightarrow>
          (case bundle_Verify cy sg [] of
             Inl e \<Rightarrow> Inl (StoredSignature (pk_name v) (pk_version v) e)
           | Inr b \<Rightarrow>
               if bd_name b \<noteq> pk_name v \<or> bd_version b \<noteq> pk_version v \<or> pk_signer v \<noteq> sg_key sg
               then Inl (StoredMismatch (pk_name v) (pk_version v)) else Inr ())
      | _ \<Rightarrow> Inr ())"

definition cp_readLocked :: "crypto \<Rightarrow> cstore \<Rightarrow> config_error + Snapshot" where
  "cp_readLocked cy s =
     (case cp_file s of
        CMissing \<Rightarrow> Inr \<lparr>sn_revision = 0, sn_policies = [], sn_workspaces = []\<rparr>
      | CUnreadable \<Rightarrow> Inl ConfigRead
      | CGarbled \<Rightarrow> Inl ConfigDecode
      | CStored sn \<Rightarrow> and_then (try_all (check_stored cy) (sn_policies sn)) (\<lambda>_. Inr sn))"

definition cp_writeLocked :: "cp_io \<Rightarrow> cstore \<Rightarrow> Snapshot \<Rightarrow> cstore \<times> config_error option" where
  "cp_writeLocked io s sn =
     (if \<not> ci_mkdir io then (s, Some ConfigMkdir)
      else if \<not> ci_write io then (s, Some ConfigWrite)
      else if \<not> ci_rename io then (s, Some ConfigCommit)
      else (s\<lparr>cp_file := CStored sn\<rparr>, None))"

definition cp_Snapshot :: "crypto \<Rightarrow> cstore \<Rightarrow> config_error + Snapshot" where
  "cp_Snapshot cy s = (if \<not> Enabled s then Inl ConfigDisabled else cp_readLocked cy s)"

definition mutate ::
  "crypto \<Rightarrow> cp_io \<Rightarrow> (Snapshot \<Rightarrow> config_error + Snapshot) \<Rightarrow> cstore \<Rightarrow> cstore \<times> config_error option" where
  "mutate cy io f s =
     (if \<not> Enabled s then (s, Some ConfigDisabled)
      else (case cp_readLocked cy s of
              Inl e \<Rightarrow> (s, Some e)
            | Inr sn \<Rightarrow>
                (case f sn of
                   Inl e \<Rightarrow> (s, Some e)
                 | Inr sn' \<Rightarrow> cp_writeLocked io s (sn'\<lparr>sn_revision := sn_revision sn' + 1\<rparr>))))"

definition same_package :: "PolicyPackage \<Rightarrow> PolicyPackage \<Rightarrow> bool" where
  "same_package v x = (pk_name x = pk_name v \<and> pk_version x = pk_version v)"

definition add_package :: "int \<Rightarrow> PolicyPackage \<Rightarrow> Snapshot \<Rightarrow> config_error + Snapshot" where
  "add_package now v sn =
     (if list_ex (same_package v) (sn_policies sn) then Inl (PackageExists (pk_name v) (pk_version v))
      else Inr (sn\<lparr>sn_policies := sn_policies sn @ [v\<lparr>pk_updated := now\<rparr>]\<rparr>))"

definition CreatePolicy :: "crypto \<Rightarrow> cp_io \<Rightarrow> int \<Rightarrow> PolicyPackage \<Rightarrow> cstore \<Rightarrow> cstore \<times> config_error option" where
  "CreatePolicy cy io now v s =
     (case validatePolicyPackage v of Inl e \<Rightarrow> (s, Some e) | Inr _ \<Rightarrow> mutate cy io (add_package now v) s)"

definition renewed :: "int \<Rightarrow> PolicyPackage \<Rightarrow> PolicyPackage \<Rightarrow> PolicyPackage" where
  "renewed now v old =
     v\<lparr>pk_updated := now, pk_signed := pk_signed old, pk_signer := pk_signer old, pk_bundle := pk_bundle old\<rparr>"

definition replace_package :: "int \<Rightarrow> PolicyPackage \<Rightarrow> Snapshot \<Rightarrow> config_error + Snapshot" where
  "replace_package now v sn =
     (case index_where (same_package v) (sn_policies sn) of
        None \<Rightarrow> Inl (PackageMissing (pk_name v) (pk_version v))
      | Some i \<Rightarrow>
          if pk_signed (sn_policies sn ! i) then Inl (PackageImmutable (pk_name v) (pk_version v))
          else Inr (sn\<lparr>sn_policies := (sn_policies sn)[i := renewed now v (sn_policies sn ! i)]\<rparr>))"

definition UpdatePolicy :: "crypto \<Rightarrow> cp_io \<Rightarrow> int \<Rightarrow> PolicyPackage \<Rightarrow> cstore \<Rightarrow> cstore \<times> config_error option" where
  "UpdatePolicy cy io now v s =
     (case validatePolicyPackage v of Inl e \<Rightarrow> (s, Some e) | Inr _ \<Rightarrow> mutate cy io (replace_package now v) s)"

definition signed_package :: "Signed \<Rightarrow> Bundle \<Rightarrow> PolicyPackage" where
  "signed_package sg b = \<lparr>pk_name = bd_name b, pk_version = bd_version b, pk_description = bd_description b,
     pk_policy = bd_policy b, pk_signed = True, pk_signer = sg_key sg, pk_bundle = Some sg, pk_updated = 0\<rparr>"

definition CreateSignedPolicy :: "crypto \<Rightarrow> cp_io \<Rightarrow> int \<Rightarrow> Signed \<Rightarrow> cstore \<Rightarrow> cstore \<times> config_error option" where
  "CreateSignedPolicy cy io now sg s =
     (case bundle_Verify cy sg [] of
        Inl e \<Rightarrow> (s, Some (BundleRefused e))
      | Inr b \<Rightarrow> CreatePolicy cy io now (signed_package sg b) s)"

definition put_workspace :: "int \<Rightarrow> Workspace \<Rightarrow> Snapshot \<Rightarrow> config_error + Snapshot" where
  "put_workspace now w sn =
     (if ws_policy w \<noteq> ''none'' \<and> \<not> hasPolicy (sn_policies sn) (ws_policy w) then Inl (PolicyNotInstalled (ws_policy w))
      else let w' = w\<lparr>ws_updated := now\<rparr> in
           (case index_where (\<lambda>x. ws_name x = ws_name w) (sn_workspaces sn) of
              Some i \<Rightarrow> Inr (sn\<lparr>sn_workspaces := (sn_workspaces sn)[i := w']\<rparr>)
            | None \<Rightarrow> Inr (sn\<lparr>sn_workspaces := sn_workspaces sn @ [w']\<rparr>)))"

definition AssignWorkspace :: "crypto \<Rightarrow> cp_io \<Rightarrow> int \<Rightarrow> Workspace \<Rightarrow> cstore \<Rightarrow> cstore \<times> config_error option" where
  "AssignWorkspace cy io now w s =
     (case validateWorkspace w of Inl e \<Rightarrow> (s, Some e) | Inr _ \<Rightarrow> mutate cy io (put_workspace now w) s)"

subsection \<open>The abstract catalog\<close>

record catalog =
  ct_packages :: "string \<times> string \<rightharpoonup> PolicyPackage"
  ct_spaces :: "string \<rightharpoonup> Workspace"
  ct_revision :: "64 word"

datatype cp_op = CreateOp PolicyPackage | UpdateOp PolicyPackage | ImportOp Signed | AssignOp Workspace

definition cp_exec :: "crypto \<Rightarrow> cp_io \<Rightarrow> int \<Rightarrow> cp_op \<Rightarrow> cstore \<Rightarrow> cstore \<times> config_error option" where
  "cp_exec cy io now p s =
     (case p of
        CreateOp v \<Rightarrow> CreatePolicy cy io now v s
      | UpdateOp v \<Rightarrow> UpdatePolicy cy io now v s
      | ImportOp sg \<Rightarrow> CreateSignedPolicy cy io now sg s
      | AssignOp w \<Rightarrow> AssignWorkspace cy io now w s)"

definition package_key :: "PolicyPackage \<Rightarrow> string \<times> string" where
  "package_key v = (pk_name v, pk_version v)"

definition cat_create :: "int \<Rightarrow> PolicyPackage \<Rightarrow> catalog \<Rightarrow> catalog option" where
  "cat_create now v c =
     (if validatePolicyPackage v = Inr () \<and> package_key v \<notin> dom (ct_packages c)
      then Some (c\<lparr>ct_packages := (ct_packages c)(package_key v \<mapsto> v\<lparr>pk_updated := now\<rparr>),
                   ct_revision := ct_revision c + 1\<rparr>)
      else None)"

definition cat_step :: "crypto \<Rightarrow> int \<Rightarrow> cp_op \<Rightarrow> catalog \<Rightarrow> catalog option" where
  "cat_step cy now p c =
     (case p of
        CreateOp v \<Rightarrow> cat_create now v c
      | UpdateOp v \<Rightarrow>
          (case ct_packages c (package_key v) of
             None \<Rightarrow> None
           | Some old \<Rightarrow>
               if validatePolicyPackage v = Inr () \<and> \<not> pk_signed old
               then Some (c\<lparr>ct_packages := (ct_packages c)(package_key v \<mapsto> renewed now v old),
                            ct_revision := ct_revision c + 1\<rparr>)
               else None)
      | ImportOp sg \<Rightarrow>
          (case bundle_Verify cy sg [] of Inl _ \<Rightarrow> None | Inr b \<Rightarrow> cat_create now (signed_package sg b) c)
      | AssignOp w \<Rightarrow>
          (if validateWorkspace w = Inr () \<and>
              (ws_policy w = ''none'' \<or> (\<exists>k v. ct_packages c k = Some v \<and> reference v = ws_policy w))
           then Some (c\<lparr>ct_spaces := (ct_spaces c)(ws_name w \<mapsto> w\<lparr>ws_updated := now\<rparr>),
                        ct_revision := ct_revision c + 1\<rparr>)
           else None))"

definition snapshot_of :: "cstore \<Rightarrow> Snapshot" where
  "snapshot_of s = (case cp_file s of CStored sn \<Rightarrow> sn | _ \<Rightarrow> \<lparr>sn_revision = 0, sn_policies = [], sn_workspaces = []\<rparr>)"

definition cat_of :: "Snapshot \<Rightarrow> catalog" where
  "cat_of sn = \<lparr>ct_packages = lookup_by package_key (sn_policies sn),
     ct_spaces = lookup_by ws_name (sn_workspaces sn), ct_revision = sn_revision sn\<rparr>"

text \<open>What holds of every snapshot the store writes.\<close>

definition assignment_ok :: "PolicyPackage list \<Rightarrow> Workspace \<Rightarrow> bool" where
  "assignment_ok ps w = (validateWorkspace w = Inr () \<and> (ws_policy w = ''none'' \<or> hasPolicy ps (ws_policy w)))"

definition snapshot_ok :: "Snapshot \<Rightarrow> bool" where
  "snapshot_ok sn =
     (distinct (map package_key (sn_policies sn)) \<and> distinct (map ws_name (sn_workspaces sn)) \<and>
      (\<forall>v \<in> set (sn_policies sn). validatePolicyPackage v = Inr ()) \<and>
      (\<forall>w \<in> set (sn_workspaces sn). assignment_ok (sn_policies sn) w))"

subsection \<open>Lemmas on the changes\<close>

lemma same_package_key: "same_package v x \<longleftrightarrow> package_key x = package_key v"
  by (auto simp: same_package_def package_key_def)

lemma same_package_fun: "same_package v = (\<lambda>x. package_key x = package_key v)"
  by (simp add: fun_eq_iff same_package_key)

lemma package_key_update [simp]:
  "package_key (v\<lparr>pk_updated := now\<rparr>) = package_key v" "package_key (renewed now v q) = package_key v"
  "reference (v\<lparr>pk_updated := now\<rparr>) = reference v" "reference (renewed now v q) = reference v"
  "validatePolicyPackage (v\<lparr>pk_updated := now\<rparr>) = validatePolicyPackage v"
  "validatePolicyPackage (renewed now v q) = validatePolicyPackage v"
  by (simp_all add: package_key_def renewed_def reference_def validatePolicyPackage_def)

lemma validateWorkspace_update [simp]: "validateWorkspace (w\<lparr>ws_updated := now\<rparr>) = validateWorkspace w"
  by (simp add: validateWorkspace_def)

lemma hasPolicy_iff: "hasPolicy ps r \<longleftrightarrow> r \<in> reference ` set ps"
  by (auto simp: hasPolicy_def list_ex_iff)

lemma reference_key: "package_key v = package_key x \<Longrightarrow> reference v = reference x"
  by (simp add: package_key_def reference_def)

lemma hasPolicy_keys: "package_key ` set ps \<subseteq> package_key ` set qs \<Longrightarrow> hasPolicy ps r \<Longrightarrow> hasPolicy qs r"
  unfolding hasPolicy_iff image_iff using reference_key by blast

lemma assignment_ok_keys:
  "package_key ` set ps \<subseteq> package_key ` set qs \<Longrightarrow> assignment_ok ps w \<Longrightarrow> assignment_ok qs w"
  using hasPolicy_keys by (auto simp: assignment_ok_def)

lemma hasPolicy_catalog:
  "distinct (map package_key ps) \<Longrightarrow>
     hasPolicy ps r \<longleftrightarrow> (\<exists>k v. lookup_by package_key ps k = Some v \<and> reference v = r)"
proof -
  assume "distinct (map package_key ps)"
  then have "lookup_by package_key ps k = Some v \<longleftrightarrow> v \<in> set ps \<and> package_key v = k" for k v
    by (rule lookup_by_mem)
  then show ?thesis unfolding hasPolicy_iff image_iff by blast
qed

lemma try_cases: "r = Inr () \<or> (\<exists>e. r = Inl e)" for r :: "'e + unit"
  by (cases r) auto

lemma add_package_spec:
  assumes "snapshot_ok sn" and "validatePolicyPackage v = Inr ()"
  shows "case add_package now v sn of
      Inl _ \<Rightarrow> cat_create now v (cat_of sn) = None
    | Inr sn' \<Rightarrow> snapshot_ok sn' \<and> cat_create now v (cat_of sn) = Some (cat_of (sn'\<lparr>sn_revision := sn_revision sn' + 1\<rparr>))"
proof (cases "package_key v \<in> package_key ` set (sn_policies sn)")
  case True
  then have "lookup_by package_key (sn_policies sn) (package_key v) \<noteq> None" by (simp add: lookup_by_None)
  then show ?thesis
    using True by (auto simp: add_package_def list_ex_iff same_package_key cat_create_def cat_of_def image_iff)
next
  case False
  let ?ps = "sn_policies sn @ [v\<lparr>pk_updated := now\<rparr>]"
  have l: "lookup_by package_key ?ps = (lookup_by package_key (sn_policies sn))(package_key v \<mapsto> v\<lparr>pk_updated := now\<rparr>)"
    using False lookup_by_snoc [of package_key "v\<lparr>pk_updated := now\<rparr>"] by simp
  have new: "\<not> list_ex (same_package v) (sn_policies sn)"
    using False unfolding list_ex_iff same_package_key image_iff by metis
  have "add_package now v sn = Inr (sn\<lparr>sn_policies := ?ps\<rparr>)"
    using new by (simp add: add_package_def)
  moreover have "snapshot_ok (sn\<lparr>sn_policies := ?ps\<rparr>)"
    using assms False assignment_ok_keys [of "sn_policies sn" ?ps] by (auto simp: snapshot_ok_def)
  moreover have "package_key v \<notin> dom (ct_packages (cat_of sn))"
    using False by (auto simp: cat_of_def dom_def lookup_by_None dest: lookup_by_Some)
  ultimately show ?thesis using assms(2) l by (simp add: cat_create_def cat_of_def)
qed

lemma replace_package_spec:
  assumes "snapshot_ok sn" and "validatePolicyPackage v = Inr ()"
  shows "case replace_package now v sn of
      Inl _ \<Rightarrow> cat_step cy now (UpdateOp v) (cat_of sn) = None
    | Inr sn' \<Rightarrow> snapshot_ok sn' \<and>
        cat_step cy now (UpdateOp v) (cat_of sn) = Some (cat_of (sn'\<lparr>sn_revision := sn_revision sn' + 1\<rparr>))"
proof (cases "index_where (same_package v) (sn_policies sn)")
  case None
  then have "lookup_by package_key (sn_policies sn) (package_key v) = None"
    by (intro lookup_by_no_index) (simp add: same_package_fun)
  then show ?thesis using None by (simp add: replace_package_def cat_step_def cat_of_def)
next
  case (Some i)
  note i = Some [unfolded same_package_fun]
  let ?old = "sn_policies sn ! i"
  let ?ps = "(sn_policies sn)[i := renewed now v ?old]"
  have at: "i < length (sn_policies sn)" "package_key ?old = package_key v"
    using index_where_Some [OF i] by simp_all
  have l: "lookup_by package_key (sn_policies sn) (package_key v) = Some ?old" using i by (rule lookup_by_index)
  show ?thesis
  proof (cases "pk_signed ?old")
    case True
    then show ?thesis using Some l by (simp add: replace_package_def cat_step_def cat_of_def)
  next
    case False
    have keys: "map package_key ?ps = map package_key (sn_policies sn)"
      using at by (intro list_update_map_key) simp_all
    then have "package_key ` set (sn_policies sn) \<subseteq> package_key ` set ?ps" by (metis order_refl set_map)
    then have "\<forall>w \<in> set (sn_workspaces sn). assignment_ok ?ps w"
      using assms(1) assignment_ok_keys [of "sn_policies sn" ?ps] by (auto simp: snapshot_ok_def)
    moreover have "\<forall>x \<in> set ?ps. validatePolicyPackage x = Inr ()"
      using assms at by (auto simp: snapshot_ok_def set_list_update_iff)
    ultimately have "snapshot_ok (sn\<lparr>sn_policies := ?ps\<rparr>)"
      using assms(1) keys by (simp add: snapshot_ok_def)
    moreover have "lookup_by package_key ?ps = (lookup_by package_key (sn_policies sn))(package_key v \<mapsto> renewed now v ?old)"
      using lookup_by_update [OF i, of "renewed now v ?old"] by (simp add: fun_eq_iff)
    ultimately show ?thesis
      using Some False l assms(2) by (simp add: replace_package_def cat_step_def cat_of_def)
  qed
qed

lemma put_workspace_spec:
  assumes "snapshot_ok sn" and "validateWorkspace w = Inr ()"
  shows "case put_workspace now w sn of
      Inl _ \<Rightarrow> cat_step cy now (AssignOp w) (cat_of sn) = None
    | Inr sn' \<Rightarrow> snapshot_ok sn' \<and>
        cat_step cy now (AssignOp w) (cat_of sn) = Some (cat_of (sn'\<lparr>sn_revision := sn_revision sn' + 1\<rparr>))"
proof (cases "ws_policy w = ''none'' \<or> hasPolicy (sn_policies sn) (ws_policy w)")
  case False
  then show ?thesis
    using assms(1) hasPolicy_catalog [of "sn_policies sn" "ws_policy w"]
    by (simp add: put_workspace_def cat_step_def cat_of_def snapshot_ok_def)
next
  case True
  let ?w = "w\<lparr>ws_updated := now\<rparr>"
  have ok: "assignment_ok (sn_policies sn) ?w" using True assms(2) by (simp add: assignment_ok_def)
  have step: "cat_step cy now (AssignOp w) (cat_of sn) =
      Some ((cat_of sn)\<lparr>ct_spaces := (ct_spaces (cat_of sn))(ws_name w \<mapsto> ?w), ct_revision := ct_revision (cat_of sn) + 1\<rparr>)"
    using True assms hasPolicy_catalog [of "sn_policies sn" "ws_policy w"]
    by (simp add: cat_step_def cat_of_def snapshot_ok_def)
  show ?thesis
  proof (cases "index_where (\<lambda>x. ws_name x = ws_name w) (sn_workspaces sn)")
    case None
    then have "ws_name ?w \<notin> ws_name ` set (sn_workspaces sn)" by (auto simp: index_where_None)
    moreover from this have "snapshot_ok (sn\<lparr>sn_workspaces := sn_workspaces sn @ [?w]\<rparr>)"
      using assms(1) ok by (auto simp: snapshot_ok_def)
    ultimately show ?thesis
      using None True step lookup_by_snoc [of ws_name ?w] by (auto simp: put_workspace_def Let_def cat_of_def)
  next
    case (Some i)
    have at: "i < length (sn_workspaces sn)" "ws_name (sn_workspaces sn ! i) = ws_name w"
      using index_where_Some [OF Some] by simp_all
    have "map ws_name ((sn_workspaces sn)[i := ?w]) = map ws_name (sn_workspaces sn)"
      using at by (intro list_update_map_key) simp_all
    then have "snapshot_ok (sn\<lparr>sn_workspaces := (sn_workspaces sn)[i := ?w]\<rparr>)"
      using assms(1) ok at by (auto simp: snapshot_ok_def set_list_update_iff)
    moreover have "lookup_by ws_name ((sn_workspaces sn)[i := ?w]) = (lookup_by ws_name (sn_workspaces sn))(ws_name w \<mapsto> ?w)"
      using lookup_by_update [OF Some, of ?w] by (simp add: fun_eq_iff)
    ultimately show ?thesis using Some True step by (auto simp: put_workspace_def Let_def cat_of_def)
  qed
qed

subsection \<open>The store refines the catalog\<close>

definition all_io :: cp_io where "all_io = \<lparr>ci_mkdir = True, ci_write = True, ci_rename = True\<rparr>"

lemma readable_snapshot: "cp_readLocked cy s = Inr sn \<Longrightarrow> sn = snapshot_of s"
  by (auto simp: cp_readLocked_def snapshot_of_def split: cfile.splits)

lemma mutate_cases:
  assumes "mutate cy io f s = (s', r)"
  shows "r \<noteq> None \<and> s' = s \<or>
    r = None \<and> (\<exists>sn'. cp_readLocked cy s = Inr (snapshot_of s) \<and> f (snapshot_of s) = Inr sn' \<and>
      s' = s\<lparr>cp_file := CStored (sn'\<lparr>sn_revision := sn_revision sn' + 1\<rparr>)\<rparr>)"
  using assms
  by (auto simp: mutate_def cp_writeLocked_def split: if_splits sum.splits dest: readable_snapshot)

lemma mutate_fails:
  assumes "mutate cy all_io f s = (s', Some e)" and "Enabled s" and "cp_readLocked cy s = Inr sn"
  shows "\<exists>e. f (snapshot_of s) = Inl e"
  using assms readable_snapshot [OF assms(3)]
  by (auto simp: mutate_def cp_writeLocked_def all_io_def split: sum.splits)

definition changes :: "(Snapshot \<Rightarrow> config_error + Snapshot) \<Rightarrow> (catalog \<Rightarrow> catalog option) \<Rightarrow> Snapshot \<Rightarrow> bool" where
  "changes f g sn =
     (case f sn of
        Inl _ \<Rightarrow> g (cat_of sn) = None
      | Inr sn' \<Rightarrow> snapshot_ok sn' \<and> g (cat_of sn) = Some (cat_of (sn'\<lparr>sn_revision := sn_revision sn' + 1\<rparr>)))"

lemma snapshot_ok_revision [simp]: "snapshot_ok (sn\<lparr>sn_revision := n\<rparr>) = snapshot_ok sn"
  by (simp add: snapshot_ok_def)

lemma mutate_refines:
  assumes "snapshot_ok (snapshot_of s)" and "changes f g (snapshot_of s)" and "mutate cy io f s = (s', r)"
  shows "snapshot_ok (snapshot_of s') \<and>
    (if r = None then g (cat_of (snapshot_of s)) = Some (cat_of (snapshot_of s')) else s' = s) \<and>
    (io = all_io \<and> Enabled s \<and> is_ok (cp_readLocked cy s) \<longrightarrow> (r = None \<longleftrightarrow> g (cat_of (snapshot_of s)) \<noteq> None))"
proof (cases r)
  case None
  from mutate_cases [OF assms(3)] None obtain sn' where
    "f (snapshot_of s) = Inr sn'" "s' = s\<lparr>cp_file := CStored (sn'\<lparr>sn_revision := sn_revision sn' + 1\<rparr>)\<rparr>" by blast
  then show ?thesis using None assms(2) by (simp add: changes_def snapshot_of_def)
next
  case (Some e)
  then have "s' = s" using mutate_cases [OF assms(3)] by simp
  moreover have "g (cat_of (snapshot_of s)) = None" if "io = all_io" "Enabled s" "is_ok (cp_readLocked cy s)"
  proof -
    note pre = that
    obtain sn where "cp_readLocked cy s = Inr sn" using pre(3) by (auto simp: is_ok_iff)
    from mutate_fails [OF _ pre(2) this] obtain e' where "f (snapshot_of s) = Inl e'"
      using assms(3) Some pre(1) by blast
    then show ?thesis using assms(2) by (simp add: changes_def)
  qed
  ultimately show ?thesis using Some assms(1) by simp
qed

lemma create_refines:
  assumes "snapshot_ok (snapshot_of s)" and "CreatePolicy cy io now v s = (s', r)"
  shows "snapshot_ok (snapshot_of s') \<and>
    (if r = None then cat_create now v (cat_of (snapshot_of s)) = Some (cat_of (snapshot_of s')) else s' = s) \<and>
    (io = all_io \<and> Enabled s \<and> is_ok (cp_readLocked cy s) \<longrightarrow>
       (r = None \<longleftrightarrow> cat_create now v (cat_of (snapshot_of s)) \<noteq> None))"
proof (cases "validatePolicyPackage v = Inr ()")
  case True
  then show ?thesis
    using assms add_package_spec [OF assms(1) True, of now]
    by (intro mutate_refines [of s "add_package now v"]) (simp_all add: CreatePolicy_def changes_def)
next
  case False
  then obtain e where "validatePolicyPackage v = Inl e" using try_cases [of "validatePolicyPackage v"] by blast
  then show ?thesis using assms by (auto simp: CreatePolicy_def cat_create_def)
qed

lemma control_plane_refines_catalog_step:
  assumes "snapshot_ok (snapshot_of s)" and "cp_exec cy io now p s = (s', r)"
  shows "snapshot_ok (snapshot_of s') \<and>
    (if r = None then cat_step cy now p (cat_of (snapshot_of s)) = Some (cat_of (snapshot_of s')) else s' = s) \<and>
    (io = all_io \<and> Enabled s \<and> is_ok (cp_readLocked cy s) \<longrightarrow>
       (r = None \<longleftrightarrow> cat_step cy now p (cat_of (snapshot_of s)) \<noteq> None))"
proof (cases p)
  case (CreateOp v)
  then show ?thesis using create_refines [OF assms(1), where cy = cy and io = io and now = now and v = v] assms(2)
    by (simp add: cp_exec_def cat_step_def)
next
  case (ImportOp sg)
  then show ?thesis
    using create_refines [OF assms(1), where cy = cy and io = io and now = now] assms
    by (cases "bundle_Verify cy sg []") (auto simp: cp_exec_def cat_step_def CreateSignedPolicy_def)
next
  case (UpdateOp v)
  show ?thesis
  proof (cases "validatePolicyPackage v = Inr ()")
    case True
    then show ?thesis
      using assms UpdateOp replace_package_spec [OF assms(1) True, where now = now and cy = cy]
      by (intro mutate_refines [of s "replace_package now v"]) (simp_all add: cp_exec_def UpdatePolicy_def changes_def)
  next
    case False
    then obtain e where "validatePolicyPackage v = Inl e" using try_cases [of "validatePolicyPackage v"] by blast
    then show ?thesis using assms UpdateOp by (auto simp: cp_exec_def UpdatePolicy_def cat_step_def split: option.split)
  qed
next
  case (AssignOp w)
  show ?thesis
  proof (cases "validateWorkspace w = Inr ()")
    case True
    then show ?thesis
      using assms AssignOp put_workspace_spec [OF assms(1) True, where now = now and cy = cy]
      by (intro mutate_refines [of s "put_workspace now w"]) (simp_all add: cp_exec_def AssignWorkspace_def changes_def)
  next
    case False
    then obtain e where "validateWorkspace w = Inl e" using try_cases [of "validateWorkspace w"] by blast
    then show ?thesis using assms AssignOp by (auto simp: cp_exec_def AssignWorkspace_def cat_step_def)
  qed
qed

text \<open>
  C35. The control-plane store refines a catalog of policy packages by name and version and of
  workspace assignments by name: an operation that succeeds is the step of the catalog, with the
  revision counted up by one; one that fails changes nothing; when the file can be read and
  written, an operation succeeds exactly if the catalog has a step.  Identities stay unique, every
  stored package is valid, and every assignment names an installed package or \<open>none\<close>.
\<close>

theorem control_plane_refines_catalog:
  assumes "snapshot_ok (snapshot_of s)" and "cp_exec cy io now p s = (s', r)"
  shows "snapshot_ok (snapshot_of s') \<and>
    (if r = None then cat_step cy now p (cat_of (snapshot_of s)) = Some (cat_of (snapshot_of s')) else s' = s) \<and>
    (io = all_io \<and> Enabled s \<and> is_ok (cp_readLocked cy s) \<longrightarrow>
       (r = None \<longleftrightarrow> cat_step cy now p (cat_of (snapshot_of s)) \<noteq> None))"
  using control_plane_refines_catalog_step [OF assms] .

definition cp_runs :: "crypto \<Rightarrow> (cp_io \<times> int \<times> cp_op) list \<Rightarrow> cstore \<Rightarrow> cstore" where
  "cp_runs cy ps s = foldl (\<lambda>s (io, now, p). fst (cp_exec cy io now p s)) s ps"

definition authentic :: "crypto \<Rightarrow> PolicyPackage \<Rightarrow> bool" where
  "authentic cy v =
     (pk_signed v \<longrightarrow> (\<exists>sg b. pk_bundle v = Some sg \<and> bundle_Verify cy sg [] = Inr b \<and>
        bd_name b = pk_name v \<and> bd_version b = pk_version v \<and> bd_policy b = pk_policy v))"

definition genuine :: "crypto \<Rightarrow> catalog \<Rightarrow> bool" where
  "genuine cy c = (\<forall>k v. ct_packages c k = Some v \<longrightarrow> authentic cy v)"

definition keeps_signed :: "catalog \<Rightarrow> catalog \<Rightarrow> bool" where
  "keeps_signed c c' = (\<forall>k v. ct_packages c k = Some v \<longrightarrow> pk_signed v \<longrightarrow> ct_packages c' k = Some v)"

lemma cat_create_signed:
  "cat_create now v c = Some c' \<Longrightarrow> keeps_signed c c' \<and> (authentic cy v \<longrightarrow> genuine cy c \<longrightarrow> genuine cy c')"
  by (auto simp: cat_create_def keeps_signed_def genuine_def authentic_def split: if_splits)

lemma cat_step_signed:
  assumes "cat_step cy now p c = Some c'"
  shows "keeps_signed c c' \<and> ((\<forall>v. p = CreateOp v \<longrightarrow> \<not> pk_signed v) \<longrightarrow> genuine cy c \<longrightarrow> genuine cy c')"
proof (cases p)
  case (CreateOp v)
  then show ?thesis using assms cat_create_signed [of now v c c' cy] by (auto simp: cat_step_def authentic_def)
next
  case (ImportOp sg)
  then obtain b where b: "bundle_Verify cy sg [] = Inr b" "cat_create now (signed_package sg b) c = Some c'"
    using assms by (auto simp: cat_step_def split: sum.splits)
  then have "authentic cy (signed_package sg b)" by (simp add: authentic_def signed_package_def)
  then show ?thesis using cat_create_signed [OF b(2), of cy] by blast
next
  case (UpdateOp v)
  then obtain old where "ct_packages c (package_key v) = Some old" "\<not> pk_signed old"
    "c' = c\<lparr>ct_packages := (ct_packages c)(package_key v \<mapsto> renewed now v old), ct_revision := ct_revision c + 1\<rparr>"
    using assms by (auto simp: cat_step_def split: option.splits if_splits)
  then show ?thesis by (auto simp: keeps_signed_def genuine_def authentic_def renewed_def)
next
  case (AssignOp w)
  then show ?thesis using assms by (auto simp: cat_step_def keeps_signed_def genuine_def split: if_splits)
qed

text \<open>
  Signed packages are immutable and, unless a client creates a package that merely says it is
  signed, authentic: over every sequence of operations, whichever of them fail, a signed package
  stays as it is, and every signed package has an envelope that verifies and carries its policy.
\<close>

theorem signed_packages_immutable:
  assumes "snapshot_ok (snapshot_of s)"
  shows "keeps_signed (cat_of (snapshot_of s)) (cat_of (snapshot_of (cp_runs cy ps s))) \<and>
    ((\<forall>(io, now, p) \<in> set ps. \<forall>v. p = CreateOp v \<longrightarrow> \<not> pk_signed v) \<longrightarrow>
     genuine cy (cat_of (snapshot_of s)) \<longrightarrow> genuine cy (cat_of (snapshot_of (cp_runs cy ps s))))"
  using assms
proof (induction ps arbitrary: s)
  case Nil
  then show ?case by (simp add: cp_runs_def keeps_signed_def)
next
  case (Cons x ps)
  obtain io now p where x: "x = (io, now, p)" by (cases x)
  obtain s1 r where s1: "cp_exec cy io now p s = (s1, r)" by fastforce
  note step = control_plane_refines_catalog_step [OF Cons.prems s1]
  have one: "keeps_signed (cat_of (snapshot_of s)) (cat_of (snapshot_of s1)) \<and>
      ((\<forall>v. p = CreateOp v \<longrightarrow> \<not> pk_signed v) \<longrightarrow> genuine cy (cat_of (snapshot_of s)) \<longrightarrow>
       genuine cy (cat_of (snapshot_of s1)))"
  proof (cases r)
    case None
    then show ?thesis using step by (intro cat_step_signed [where now = now]) simp
  next
    case (Some e)
    then show ?thesis using step by (simp add: keeps_signed_def)
  qed
  have run: "cp_runs cy (x # ps) s = cp_runs cy ps s1" by (simp add: cp_runs_def x s1)
  have ok: "snapshot_ok (snapshot_of s1)" using step by blast
  have trans: "keeps_signed a b \<Longrightarrow> keeps_signed b c \<Longrightarrow> keeps_signed a c" for a b c
    by (simp add: keeps_signed_def)
  show ?case
  proof (intro conjI impI)
    show "keeps_signed (cat_of (snapshot_of s)) (cat_of (snapshot_of (cp_runs cy (x # ps) s)))"
      unfolding run by (rule trans [OF conjunct1 [OF one] conjunct1 [OF Cons.IH [OF ok]]])
    assume unsigned: "\<forall>(io, now, p) \<in> set (x # ps). \<forall>v. p = CreateOp v \<longrightarrow> \<not> pk_signed v"
      and gen: "genuine cy (cat_of (snapshot_of s))"
    have "\<forall>v. p = CreateOp v \<longrightarrow> \<not> pk_signed v" using unsigned by (simp add: x)
    then have "genuine cy (cat_of (snapshot_of s1))" using one gen by blast
    moreover have "\<forall>(io, now, p) \<in> set ps. \<forall>v. p = CreateOp v \<longrightarrow> \<not> pk_signed v" using unsigned by simp
    ultimately show "genuine cy (cat_of (snapshot_of (cp_runs cy (x # ps) s)))"
      unfolding run using Cons.IH [OF ok] by blast
  qed
qed

definition demo_package :: PolicyPackage where
  "demo_package = \<lparr>pk_name = ''safe'', pk_version = ''1.0.0'', pk_description = [], pk_policy = demo_policy,
     pk_signed = False, pk_signer = [], pk_bundle = None, pk_updated = 0\<rparr>"

definition demo_store :: cstore where
  "demo_store = \<lparr>cp_path = ''/c'', cp_file = CMissing\<rparr>"

lemma demo_store_ok: "snapshot_ok (snapshot_of demo_store)" "Enabled demo_store"
  "cp_readLocked cy demo_store = Inr (snapshot_of demo_store)"
  by (simp_all add: snapshot_ok_def snapshot_of_def demo_store_def Enabled_def cp_readLocked_def)

lemma demo_package_valid: "validatePolicyPackage (demo_package\<lparr>pk_signed := b, pk_bundle := g\<rparr>) = Inr ()"
proof -
  have "ident_ok ''safe'' \<and> semver ''1.0.0''" by code_simp
  then show ?thesis using demo_policy_wf by (simp add: validatePolicyPackage_def demo_package_def)
qed

lemma demo_create:
  "CreatePolicy cy all_io now (demo_package\<lparr>pk_signed := b, pk_bundle := g\<rparr>) demo_store =
     (demo_store\<lparr>cp_file := CStored \<lparr>sn_revision = 1,
        sn_policies = [demo_package\<lparr>pk_signed := b, pk_bundle := g, pk_updated := now\<rparr>], sn_workspaces = []\<rparr>\<rparr>, None)"
  using demo_package_valid [where b = b and g = g]
  by (simp add: CreatePolicy_def mutate_def Enabled_def cp_readLocked_def add_package_def cp_writeLocked_def
      all_io_def demo_store_def)

theorem control_plane_refines_catalog_witness:
  "\<exists>s'. cp_exec demo_crypto all_io 7 (CreateOp demo_package) demo_store = (s', None) \<and>
     ct_packages (cat_of (snapshot_of s')) (''safe'', ''1.0.0'') = Some (demo_package\<lparr>pk_updated := 7\<rparr>)"
proof -
  obtain s' r where s': "cp_exec demo_crypto all_io 7 (CreateOp demo_package) demo_store = (s', r)" by fastforce
  have "package_key demo_package = (''safe'', ''1.0.0'')" by (simp add: package_key_def demo_package_def)
  then have "cat_step demo_crypto 7 (CreateOp demo_package) (cat_of (snapshot_of demo_store)) =
      Some ((cat_of (snapshot_of demo_store))\<lparr>ct_packages := [(''safe'', ''1.0.0'') \<mapsto> demo_package\<lparr>pk_updated := 7\<rparr>],
        ct_revision := 1\<rparr>)"
    using demo_package_valid [where b = False and g = None]
    by (simp add: cat_step_def cat_create_def cat_of_def snapshot_of_def demo_store_def demo_package_def)
  then show ?thesis
    using control_plane_refines_catalog [OF demo_store_ok(1) s'] demo_store_ok(2,3) s' by auto
qed

theorem signed_packages_immutable_witness:
  "keeps_signed (cat_of (snapshot_of demo_store))
     (cat_of (snapshot_of (cp_runs demo_crypto [(all_io, 7, ImportOp demo_signed), (all_io, 8, UpdateOp demo_package)] demo_store))) \<and>
   genuine demo_crypto
     (cat_of (snapshot_of (cp_runs demo_crypto [(all_io, 7, ImportOp demo_signed), (all_io, 8, UpdateOp demo_package)] demo_store)))"
proof -
  have "genuine demo_crypto (cat_of (snapshot_of demo_store))"
    by (simp add: genuine_def cat_of_def snapshot_of_def demo_store_def)
  then show ?thesis
    using signed_packages_immutable [OF demo_store_ok(1), of demo_crypto
        "[(all_io, 7, ImportOp demo_signed), (all_io, 8, UpdateOp demo_package)]"] by simp
qed

subsection \<open>A package that only says it is signed\<close>

text \<open>
  \<open>CreatePolicy\<close> does not look at the envelope of the package it stores, \<open>readLocked\<close> does: a
  package with the signed flag and an envelope that does not verify is stored, and from then on
  every operation of the store fails, whatever the environment does.
\<close>

theorem forged_package_locks_store:
  assumes "Enabled s" and "cp_readLocked cy s = Inr sn" and "\<not> list_ex (same_package v) (sn_policies sn)"
    and "validatePolicyPackage v = Inr ()" and "pk_signed v" and "pk_bundle v = Some sg"
    and "bundle_Verify cy sg [] = Inl x"
  shows "\<exists>s'. CreatePolicy cy all_io now v s = (s', None) \<and> (\<exists>e. cp_Snapshot cy s' = Inl e) \<and>
    (\<forall>io now p. \<exists>e. cp_exec cy io now p s' = (s', Some e))"
proof -
  let ?sn = "sn\<lparr>sn_policies := sn_policies sn @ [v\<lparr>pk_updated := now\<rparr>], sn_revision := sn_revision sn + 1\<rparr>"
  let ?s = "s\<lparr>cp_file := CStored ?sn\<rparr>"
  have c: "CreatePolicy cy all_io now v s = (?s, None)"
    using assms by (simp add: CreatePolicy_def mutate_def add_package_def cp_writeLocked_def all_io_def)
  have "check_stored cy (v\<lparr>pk_updated := now\<rparr>) \<noteq> Inr ()" using assms by (simp add: check_stored_def)
  then have "try_all (check_stored cy) (sn_policies ?sn) \<noteq> Inr ()" by simp
  then obtain e where "try_all (check_stored cy) (sn_policies ?sn) = Inl e" using try_cases by blast
  then have r: "cp_readLocked cy ?s = Inl e" by (simp add: cp_readLocked_def)
  have m: "mutate cy io f ?s = (?s, Some e)" for io f
    using assms(1) r by (simp add: mutate_def Enabled_def)
  have "\<exists>e. cp_exec cy io now p ?s = (?s, Some e)" for io now p
    by (cases p; auto simp: cp_exec_def CreatePolicy_def UpdatePolicy_def CreateSignedPolicy_def AssignWorkspace_def m
        split: sum.split)
  moreover have "cp_Snapshot cy ?s = Inl e" using assms(1) r by (simp add: cp_Snapshot_def Enabled_def)
  ultimately show ?thesis using c by blast
qed

definition forged_package :: PolicyPackage where
  "forged_package = demo_package\<lparr>pk_signed := True, pk_bundle := Some (demo_signed\<lparr>sg_version := 2\<rparr>)\<rparr>"

theorem forged_package_locks_store_witness:
  "\<exists>s'. CreatePolicy demo_crypto all_io 7 forged_package demo_store = (s', None) \<and>
     (\<exists>e. cp_exec demo_crypto all_io 8 (CreateOp demo_package) s' = (s', Some e))"
proof -
  have "bundle_Verify demo_crypto (demo_signed\<lparr>sg_version := 2\<rparr>) [] = Inl (BundleVersion 2)"
    by (simp add: bundle_Verify_def)
  then show ?thesis
    using forged_package_locks_store [OF demo_store_ok(2,3), of forged_package "demo_signed\<lparr>sg_version := 2\<rparr>" demo_crypto _ 7]
      demo_package_valid [where b = True and g = "Some (demo_signed\<lparr>sg_version := 2\<rparr>)"]
    by (fastforce simp: forged_package_def snapshot_of_def demo_store_def)
qed

text \<open>The stored policy of a signed package is not compared with its envelope: after a change of
  the file alone, a store serves a policy that nobody signed.\<close>

lemma tampered_policy_is_served:
  assumes "bundle_Verify cy sg [] = Inr b" and "bd_policy b \<noteq> q"
    and "v = (signed_package sg b)\<lparr>pk_policy := q\<rparr>"
    and "s = \<lparr>cp_path = ''/c'', cp_file = CStored \<lparr>sn_revision = 1, sn_policies = [v], sn_workspaces = []\<rparr>\<rparr>"
  shows "cp_Snapshot cy s = Inr (snapshot_of s) \<and> pk_signed v \<and> \<not> authentic cy v"
  using assms
  by (auto simp: cp_Snapshot_def Enabled_def cp_readLocked_def check_stored_def signed_package_def snapshot_of_def
      authentic_def)

end
