(* ===== verification/Supervisor.thy ===== *)
theory Supervisor
  imports Run_Detail Audit_Log Control_Plane Sessions One_Shot
begin

text \<open>
  \<open>internal/supervisor/server.go\<close>: the HTTP handler of the local control plane.  The world is what
  the handler can change: the history index, the audit log, the pending challenges, the
  configuration store, the session leases, the credential broker and, behind the action handler
  and the registry client, the runtime.  A request carries its query values and its body as
  text; the JSON decoders are fields of the server.  Clock, random bytes, files that are only read and the
  calls that fail are the environment of a request.  An answer of \<open>None\<close> is a request that never
  returns.
\<close>

record Request =
  qr_action :: string
  qr_run :: string
  qr_workspace :: string
  qr_policy :: string
  qr_confirmation :: string
  qr_token :: string

record Response =
  re_ok :: bool
  re_state :: string
  re_message :: string
  re_capabilities :: "string list"
  re_warnings :: "string list"

record http_request =
  hq_method :: string
  hq_path :: string
  hq_auth :: string
  hq_query :: "string \<Rightarrow> string"
  hq_body :: string

datatype body =
    BResponse Response | BCapabilities | BHistory "History.Entry list" | BLeases "Lease list" | BLease Lease
  | BPolicies "PolicyPackage list" | BWorkspaces "Workspace list" | BBundles "Signed list" | BBrokerState bool
  | BCredLease CredLease | BAudit "AuditEntry list" | BDetail RunDetail | BChallenge ActionChallengeResponse
  | BRegistry "(string \<times> string) list" | BBundle Bundle | BStream sent bool | BSnapshot sent | BNativeStream "string list" bool
  | BNone

record reply =
  rp_status :: nat
  rp_body :: body

datatype server_error =
    SHistory history_error | SSession session_error | SConfig config_error | SBundle bundle_error
  | SToken token_error | SAudit audit_error | SNative native_error | SEvidence evidence_error | SDecode

record codecs =
  dc_prune :: "string \<Rightarrow> int option"
  dc_session :: "string \<Rightarrow> SessionRequest option"
  dc_policy :: "string \<Rightarrow> PolicyPackage option"
  dc_workspace :: "string \<Rightarrow> Workspace option"
  dc_signed :: "string \<Rightarrow> Signed option"
  dc_credential :: "string \<Rightarrow> CredRequest option"
  dc_challenge :: "string \<Rightarrow> (string \<times> string) option"
  dc_fetch :: "string \<Rightarrow> (string \<times> string) option"
  dc_request :: "string \<Rightarrow> Request option"
  dc_audit :: "string \<Rightarrow> AuditEntry option"
  dc_valid :: "string \<Rightarrow> bool"
  dc_values :: "string \<Rightarrow> string list"

record 'a registry_client =
  rg_list :: "'a \<Rightarrow> string + (string \<times> string) list"
  rg_fetch :: "string \<Rightarrow> string \<Rightarrow> 'a \<Rightarrow> string + Bundle"
  rg_revoke :: "string \<Rightarrow> string \<Rightarrow> 'a \<Rightarrow> 'a \<times> string option"

record 'a server =
  sv_token :: string
  sv_audit :: path
  sv_require_auth :: bool
  sv_cors :: string
  sv_sessions :: path
  sv_trusted :: "string list"
  sv_crypto :: crypto
  sv_broker :: "(string option \<Rightarrow> int \<Rightarrow> CredRequest \<Rightarrow> broker \<Rightarrow> broker \<times> (token_error + CredLease)) option"
  sv_actions :: "(Request \<Rightarrow> 'a \<Rightarrow> 'a \<times> (string + Response)) option"
  sv_registry :: "'a registry_client option"
  sv_codecs :: codecs
  sv_sort :: "History.Entry list \<Rightarrow> History.Entry list"
  sv_text :: "server_error \<Rightarrow> string"
  sv_stamp :: "int \<Rightarrow> string"

record 'a world =
  w_history :: Store
  w_audit :: logfile
  w_challenges :: challenges
  w_config :: "cstore option"
  w_sessions :: SessionStore
  w_broker :: broker
  w_runtime :: 'a

record env =
  en_now :: int
  en_random :: "string option"
  en_history :: io_env
  en_config :: cp_io
  en_session :: session_env
  en_audit :: audit_io
  en_native :: "path \<Rightarrow> nfile"
  en_record :: "path \<Rightarrow> record_file"
  en_files :: "path \<Rightarrow> logfile"
  en_rounds :: "round list"
  en_native_rounds :: "native_round list"
  en_load :: "path \<Rightarrow> Policy option"
  en_build :: "path \<Rightarrow> Manifest option"

subsection \<open>Answers and the audit log\<close>

definition answer :: "nat \<Rightarrow> bool \<Rightarrow> string \<Rightarrow> string \<Rightarrow> reply" where
  "answer status ok state message = \<lparr>rp_status = status,
     rp_body = BResponse \<lparr>re_ok = ok, re_state = state, re_message = message, re_capabilities = [], re_warnings = []\<rparr>\<rparr>"

definition refused :: "nat \<Rightarrow> string \<Rightarrow> reply" where
  "refused status message = answer status False ''refused'' message"

definition data :: "nat \<Rightarrow> body \<Rightarrow> reply" where
  "data status b = \<lparr>rp_status = status, rp_body = b\<rparr>"

definition unauthenticated :: reply where
  "unauthenticated = refused 401 ''bearer authentication required''"

definition authorized :: "'a server \<Rightarrow> http_request \<Rightarrow> bool" where
  "authorized sv rq =
     (sv_token sv \<noteq> [] \<and>
      (let v = trim_space (hq_auth rq) in
       prefix ''Bearer '' v \<and> trim_space (trim_prefix ''Bearer '' v) = sv_token sv))"

definition may_read :: "'a server \<Rightarrow> http_request \<Rightarrow> bool" where
  "may_read sv rq = (\<not> sv_require_auth sv \<or> authorized sv rq)"

definition recordAudit ::
  "'a server \<Rightarrow> env \<Rightarrow> string \<Rightarrow> string \<Rightarrow> Response \<Rightarrow> string \<Rightarrow> 'a world \<Rightarrow> 'a world" where
  "recordAudit sv en action runID r err w =
     (if blank (sv_audit sv) then w
      else w\<lparr>w_audit := fst (appendAudit (sv_stamp sv) (en_audit en) (sv_audit sv)
        \<lparr>au_time = en_now en, au_action = action, au_run = runID, au_state = re_state r, au_ok = re_ok r,
         au_message = re_message r, au_error = err\<rparr> (w_audit w))\<rparr>)"

definition resp :: "bool \<Rightarrow> string \<Rightarrow> string \<Rightarrow> Response" where
  "resp ok state message =
     \<lparr>re_ok = ok, re_state = state, re_message = message, re_capabilities = [], re_warnings = []\<rparr>"

text \<open>An answer that is also written to the audit log.\<close>

definition audited ::
  "'a server \<Rightarrow> env \<Rightarrow> string \<Rightarrow> string \<Rightarrow> nat \<Rightarrow> Response \<Rightarrow> string \<Rightarrow> 'a world \<Rightarrow> ('a world \<times> reply) option" where
  "audited sv en action runID status r err w =
     Some (recordAudit sv en action runID r err w, data status (BResponse r))"

subsection \<open>History and sessions\<close>

definition serve_history :: "'a server \<Rightarrow> http_request \<Rightarrow> 'a world \<Rightarrow> ('a world \<times> reply) option" where
  "serve_history sv rq w =
     (if \<not> may_read sv rq then Some (w, unauthenticated)
      else if hq_method rq \<noteq> ''GET'' then Some (w, answer 405 False [] ''history is read-only over this endpoint'')
      else (case history_List (sv_sort sv) (w_history w) of
              Inl e \<Rightarrow> Some (w, answer 500 False [] (sv_text sv (SHistory e)))
            | Inr es \<Rightarrow> Some (w, data 200 (BHistory es))))"

definition serve_prune :: "'a server \<Rightarrow> env \<Rightarrow> http_request \<Rightarrow> 'a world \<Rightarrow> ('a world \<times> reply) option" where
  "serve_prune sv en rq w =
     (if \<not> authorized sv rq then Some (w, unauthenticated)
      else if hq_method rq \<noteq> ''POST'' then Some (w, answer 405 False [] ''history pruning requires POST'')
      else (case dc_prune (sv_codecs sv) (take 8192 (hq_body rq)) of
              None \<Rightarrow> audited sv en ''history_prune'' [] 400 (resp False ''refused'' ''keep must be a non-negative integer'') [] w
            | Some keep \<Rightarrow>
                if keep < 0
                then audited sv en ''history_prune'' [] 400 (resp False ''refused'' ''keep must be a non-negative integer'') [] w
                else (case PruneKeepLatest (sv_sort sv) (en_history en) keep (w_history w) of
                        (h, removed, Some e) \<Rightarrow>
                          audited sv en ''history_prune'' [] 409 (resp False ''refused'' (sv_text sv (SHistory e)))
                            (sv_text sv (SHistory e)) (w\<lparr>w_history := h\<rparr>)
                      | (h, removed, None) \<Rightarrow>
                          audited sv en ''history_prune'' [] 200
                            (resp True ''pruned'' (''removed='' @ show_int removed @ '' keep='' @ show_int keep)) []
                            (w\<lparr>w_history := h\<rparr>))))"

definition serve_sessions :: "'a server \<Rightarrow> env \<Rightarrow> http_request \<Rightarrow> 'a world \<Rightarrow> ('a world \<times> reply) option" where
  "serve_sessions sv en rq w =
     (if \<not> authorized sv rq then Some (w, unauthenticated)
      else if sv_sessions sv = [] then Some (w, refused 501 ''session leases are unavailable'')
      else if hq_method rq = ''GET'' then
        (case session_List (en_session en) (w_sessions w) of
           None \<Rightarrow> None
         | Some (Inl e) \<Rightarrow> Some (w, refused 500 (sv_text sv (SSession e)))
         | Some (Inr ls) \<Rightarrow> Some (w, data 200 (BLeases ls)))
      else if hq_method rq \<noteq> ''POST'' then Some (w, answer 405 False [] ''sessions require GET or POST'')
      else (case dc_session (sv_codecs sv) (take 16384 (hq_body rq)) of
              None \<Rightarrow> Some (w, refused 400 ''invalid session request'')
            | Some r \<Rightarrow>
                (case session_Apply (en_session en) (w_sessions w) r (Some (en_now en)) of
                   None \<Rightarrow> None
                 | Some (s, Inl e) \<Rightarrow>
                     audited sv en (''session_'' @ sr_action r) (sr_run r) 409 (resp False ''refused'' (sv_text sv (SSession e)))
                       (sv_text sv (SSession e)) (w\<lparr>w_sessions := s\<rparr>)
                 | Some (s, Inr l) \<Rightarrow>
                     Some (recordAudit sv en (''session_'' @ sr_action r) (sr_run r) (resp True (sr_action r) (ls_id l)) []
                             (w\<lparr>w_sessions := s\<rparr>), data 200 (BLease l)))))"

subsection \<open>Configuration\<close>

definition config_on :: "'a world \<Rightarrow> cstore option" where
  "config_on w = (case w_config w of None \<Rightarrow> None | Some s \<Rightarrow> if Enabled s then Some s else None)"

definition configSnapshot :: "'a server \<Rightarrow> 'a world \<Rightarrow> config_error + Snapshot" where
  "configSnapshot sv w =
     (case config_on w of None \<Rightarrow> Inl ConfigDisabled | Some s \<Rightarrow> cp_Snapshot (sv_crypto sv) s)"

text \<open>\<open>createPolicy\<close>, \<open>updatePolicy\<close> and \<open>assignWorkspace\<close>: the operation on the store, and the audit
  entry of its success.\<close>

definition configured ::
  "'a server \<Rightarrow> env \<Rightarrow> cp_op \<Rightarrow> string \<Rightarrow> Response \<Rightarrow> 'a world \<Rightarrow> 'a world \<times> config_error option" where
  "configured sv en p action r w =
     (case config_on w of
        None \<Rightarrow> (w, Some ConfigDisabled)
      | Some s \<Rightarrow>
          (case cp_exec (sv_crypto sv) (en_config en) (en_now en) p s of
             (s', Some e) \<Rightarrow> (w\<lparr>w_config := Some s'\<rparr>, Some e)
           | (s', None) \<Rightarrow> (recordAudit sv en action [] r [] (w\<lparr>w_config := Some s'\<rparr>), None)))"

definition serve_policies :: "'a server \<Rightarrow> env \<Rightarrow> http_request \<Rightarrow> 'a world \<Rightarrow> ('a world \<times> reply) option" where
  "serve_policies sv en rq w =
     (if hq_method rq = ''GET'' then
        (if \<not> may_read sv rq then Some (w, unauthenticated)
         else (case configSnapshot sv w of
                 Inl e \<Rightarrow> Some (w, refused 501 (sv_text sv (SConfig e)))
               | Inr sn \<Rightarrow> Some (w, data 200 (BPolicies (sn_policies sn)))))
      else if hq_method rq \<noteq> ''POST'' \<and> hq_method rq \<noteq> ''PUT'' then
        Some (w, answer 405 False [] ''policies require GET, POST, or PUT'')
      else if \<not> authorized sv rq then Some (w, unauthenticated)
      else (case dc_policy (sv_codecs sv) (hq_body rq) of
              None \<Rightarrow> Some (w, refused 400 ''invalid policy package'')
            | Some v \<Rightarrow>
                let put = (hq_method rq = ''PUT'');
                    action = (if put then ''policy_update'' else ''policy_create'');
                    state = (if put then ''updated'' else ''created'')
                in (case configured sv en (if put then UpdateOp v else CreateOp v) action
                           (resp True state (reference v)) w of
                      (w', Some e) \<Rightarrow>
                        audited sv en action [] 409 (resp False ''refused'' (sv_text sv (SConfig e))) (sv_text sv (SConfig e)) w'
                    | (w', None) \<Rightarrow> Some (w', answer 201 True state (reference v)))))"

definition serve_workspaces :: "'a server \<Rightarrow> env \<Rightarrow> http_request \<Rightarrow> 'a world \<Rightarrow> ('a world \<times> reply) option" where
  "serve_workspaces sv en rq w =
     (if hq_method rq = ''GET'' then
        (if \<not> may_read sv rq then Some (w, unauthenticated)
         else (case configSnapshot sv w of
                 Inl e \<Rightarrow> Some (w, refused 501 (sv_text sv (SConfig e)))
               | Inr sn \<Rightarrow> Some (w, data 200 (BWorkspaces (sn_workspaces sn)))))
      else if hq_method rq \<noteq> ''POST'' then Some (w, answer 405 False [] ''workspaces require GET or POST'')
      else if \<not> authorized sv rq then Some (w, unauthenticated)
      else (case dc_workspace (sv_codecs sv) (hq_body rq) of
              None \<Rightarrow> Some (w, refused 400 ''invalid workspace assignment'')
            | Some v \<Rightarrow>
                (case configured sv en (AssignOp v) ''workspace_assign'' (resp True ''assigned'' (ws_name v)) w of
                   (w', Some e) \<Rightarrow>
                     audited sv en ''workspace_assign'' [] 409 (resp False ''refused'' (sv_text sv (SConfig e)))
                       (sv_text sv (SConfig e)) w'
                 | (w', None) \<Rightarrow> Some (w', answer 201 True ''assigned'' (ws_name v)))))"

definition importSignedPolicy :: "'a server \<Rightarrow> env \<Rightarrow> Signed \<Rightarrow> 'a world \<Rightarrow> 'a world \<times> config_error option" where
  "importSignedPolicy sv en sg w =
     (case config_on w of
        None \<Rightarrow> (w, Some ConfigDisabled)
      | Some s \<Rightarrow>
          (case bundle_Verify (sv_crypto sv) sg (sv_trusted sv) of
             Inl e \<Rightarrow> (w, Some (BundleRefused e))
           | Inr _ \<Rightarrow>
               (case CreateSignedPolicy (sv_crypto sv) (en_config en) (en_now en) sg s of
                  (s', r) \<Rightarrow> (w\<lparr>w_config := Some s'\<rparr>, r))))"

definition serve_bundles :: "'a server \<Rightarrow> env \<Rightarrow> http_request \<Rightarrow> 'a world \<Rightarrow> ('a world \<times> reply) option" where
  "serve_bundles sv en rq w =
     (if hq_method rq = ''GET'' then
        (if \<not> authorized sv rq then Some (w, unauthenticated)
         else (case configSnapshot sv w of
                 Inl e \<Rightarrow> Some (w, refused 501 (sv_text sv (SConfig e)))
               | Inr sn \<Rightarrow> Some (w, data 200 (BBundles (List.map_filter pk_bundle (sn_policies sn))))))
      else if hq_method rq \<noteq> ''POST'' then Some (w, answer 405 False [] ''policy bundles require POST'')
      else if \<not> authorized sv rq then Some (w, unauthenticated)
      else (case dc_signed (sv_codecs sv) (take 2097152 (hq_body rq)) of
              None \<Rightarrow> audited sv en ''policy_bundle_import'' [] 400 (resp False ''refused'' ''invalid signed policy bundle'') (sv_text sv SDecode) w
            | Some sg \<Rightarrow>
                (case importSignedPolicy sv en sg w of
                   (w', Some e) \<Rightarrow>
                     audited sv en ''policy_bundle_import'' [] 409 (resp False ''refused'' (sv_text sv (SConfig e)))
                       (sv_text sv (SConfig e)) w'
                 | (w', None) \<Rightarrow>
                     (let b = (case bundle_Verify (sv_crypto sv) sg [] of Inl _ \<Rightarrow> ''@'' | Inr x \<Rightarrow> bd_name x @ ''@'' @ bd_version x)
                      in audited sv en ''policy_bundle_import'' [] 201 (resp True ''created'' b) [] w'))))"


subsection \<open>Credentials, audit, run details and events\<close>

definition serve_leases :: "'a server \<Rightarrow> env \<Rightarrow> http_request \<Rightarrow> 'a world \<Rightarrow> ('a world \<times> reply) option" where
  "serve_leases sv en rq w =
     (if \<not> authorized sv rq then Some (w, unauthenticated)
      else if hq_method rq = ''GET'' then Some (w, data 200 (BBrokerState (sv_broker sv \<noteq> None)))
      else if hq_method rq \<noteq> ''POST'' then Some (w, answer 405 False [] ''credential leases require POST'')
      else (case sv_broker sv of
              None \<Rightarrow> audited sv en ''credential_lease'' [] 501 (resp False ''refused'' ''credential broker is unavailable'') [] w
            | Some issue \<Rightarrow>
                (case dc_credential (sv_codecs sv) (take 65536 (hq_body rq)) of
                   None \<Rightarrow> audited sv en ''credential_lease'' [] 400 (resp False ''refused'' ''invalid credential lease request'') [] w
                 | Some q \<Rightarrow>
                     if blank (cq_ref q)
                     then audited sv en ''credential_lease'' [] 400 (resp False ''refused'' ''invalid credential lease request'') [] w
                     else (case issue (en_random en) (en_now en) q (w_broker w) of
                             (b, Inl e) \<Rightarrow>
                               audited sv en ''credential_lease'' [] 409 (resp False ''refused'' (sv_text sv (SToken e)))
                                 (sv_text sv (SToken e)) (w\<lparr>w_broker := b\<rparr>)
                           | (b, Inr l) \<Rightarrow>
                               Some (recordAudit sv en ''credential_lease'' [] (resp True ''issued'' (cl_id l)) [] (w\<lparr>w_broker := b\<rparr>),
                                     data 201 (BCredLease l))))))"

text \<open>\<open>strconv.Atoi\<close>.\<close>

definition atoi :: "string \<Rightarrow> int option" where
  "atoi s =
     (let (neg, d) = (case s of c # cs \<Rightarrow> if c = CHR ''-'' then (True, cs) else if c = CHR ''+'' then (False, cs) else (False, s)
                      | [] \<Rightarrow> (False, s));
          v = (if neg then - int (digits_value d) else int (digits_value d))
      in if d = [] \<or> \<not> list_all is_digit d \<or> v < - (2 ^ 63) \<or> 2 ^ 63 \<le> v then None else Some v)"

definition audit_limit :: "string \<Rightarrow> nat option" where
  "audit_limit raw =
     (if blank raw then Some 100
      else (case atoi (trim_space raw) of
              None \<Rightarrow> None
            | Some v \<Rightarrow> if v < 1 then None else Some (if v > 500 then 500 else nat v)))"

definition serve_audit :: "'a server \<Rightarrow> http_request \<Rightarrow> 'a world \<Rightarrow> ('a world \<times> reply) option" where
  "serve_audit sv rq w =
     (if \<not> authorized sv rq then Some (w, unauthenticated)
      else if hq_method rq \<noteq> ''GET'' then Some (w, answer 405 False [] ''audit is read-only over this endpoint'')
      else (case audit_limit (hq_query rq ''limit'') of
              None \<Rightarrow> Some (w, answer 400 False [] ''audit limit must be a positive integer'')
            | Some n \<Rightarrow>
                (case readAudit (dc_audit (sv_codecs sv)) (sv_audit sv) n (w_audit w) of
                   Inl e \<Rightarrow> Some (w, answer 500 False [] (sv_text sv (SAudit e)))
                 | Inr es \<Rightarrow> Some (w, data 200 (BAudit es)))))"

text \<open>The record path of a run in the history: empty if the run is not there.\<close>

definition record_path :: "History.Entry list \<Rightarrow> string \<Rightarrow> path" where
  "record_path es runID = (case find (\<lambda>e. he_run e = runID) es of None \<Rightarrow> [] | Some e \<Rightarrow> he_record e)"

definition with_record ::
  "'a server \<Rightarrow> http_request \<Rightarrow> 'a world \<Rightarrow> string \<Rightarrow> (string \<Rightarrow> path \<Rightarrow> reply) \<Rightarrow> ('a world \<times> reply) option" where
  "with_record sv rq w missing k =
     (let runID = trim_space (hq_query rq ''run_id'') in
      if runID = [] then Some (w, answer 400 False [] ''run_id is required'')
      else (case history_List (sv_sort sv) (w_history w) of
              Inl e \<Rightarrow> Some (w, answer 500 False [] (sv_text sv (SHistory e)))
            | Inr es \<Rightarrow>
                if record_path es runID = [] then Some (w, answer 404 False [] missing)
                else Some (w, k runID (record_path es runID))))"

definition detail_reply :: "'a server \<Rightarrow> env \<Rightarrow> string \<Rightarrow> path \<Rightarrow> reply" where
  "detail_reply sv en runID p =
     (case NativeRecordForSupervisor (en_native en p) runID of
        Inl e \<Rightarrow> refused 409 (sv_text sv (SNative e))
      | Inr (Some native) \<Rightarrow> data 200 (BDetail (native_detail (en_load en) (en_build en) native))
      | Inr None \<Rightarrow>
          (case record_Read (en_record en p) of
             Inl e \<Rightarrow> answer 404 False [] (sv_text sv (SEvidence e))
           | Inr r \<Rightarrow> data 200 (BDetail (linux_detail r))))"

definition serve_detail :: "'a server \<Rightarrow> env \<Rightarrow> http_request \<Rightarrow> 'a world \<Rightarrow> ('a world \<times> reply) option" where
  "serve_detail sv en rq w =
     (if \<not> may_read sv rq then Some (w, unauthenticated)
      else if hq_method rq \<noteq> ''GET'' then Some (w, answer 405 False [] ''run detail is read-only over this endpoint'')
      else with_record sv rq w ''run not found in supervisor history'' (detail_reply sv en))"

text \<open>The response writer can stream; the offsets of a stream start at zero.\<close>

definition event_reply :: "'a server \<Rightarrow> env \<Rightarrow> http_request \<Rightarrow> string \<Rightarrow> path \<Rightarrow> reply" where
  "event_reply sv en rq runID p =
     (case NativeRecordForSupervisor (en_native en p) runID of
        Inl e \<Rightarrow> refused 409 (sv_text sv (SNative e))
      | Inr (Some native) \<Rightarrow>
          (case parseFollow (hq_query rq ''follow'') of
             None \<Rightarrow> answer 400 False [] ''follow must be true or false''
           | Some False \<Rightarrow>
               data 200 (BNativeStream (streamNativeEventSnapshot (dc_valid (sv_codecs sv)) (en_files en) native) True)
           | Some True \<Rightarrow>
               (let (out, ended) = streamNativeEventFollow (dc_valid (sv_codecs sv)) native 0 (en_native_rounds en)
                in data 200 (BNativeStream out ended)))
      | Inr None \<Rightarrow>
          (case record_Read (en_record en p) of
             Inl e \<Rightarrow> answer 404 False [] (sv_text sv (SEvidence e))
           | Inr r \<Rightarrow>
               (case parseFollow (hq_query rq ''follow'') of
                  None \<Rightarrow> answer 400 False [] ''follow must be true or false''
                | Some False \<Rightarrow>
                    data 200 (BSnapshot (streamEventSnapshot (dc_values (sv_codecs sv)) (en_files en) (EventLogPaths r)))
                | Some True \<Rightarrow>
                    (let (out, ended) = streamEventFollow (dc_valid (sv_codecs sv)) runID r (\<lambda>_. 0) (en_rounds en)
                     in data 200 (BStream out ended)))))"

definition serve_events :: "'a server \<Rightarrow> env \<Rightarrow> http_request \<Rightarrow> 'a world \<Rightarrow> ('a world \<times> reply) option" where
  "serve_events sv en rq w =
     (if \<not> authorized sv rq then Some (w, unauthenticated)
      else if hq_method rq \<noteq> ''GET'' then Some (w, answer 405 False [] ''events require GET'')
      else with_record sv rq w ''run not found in supervisor history; start it with the same --history path''
             (event_reply sv en rq))"

subsection \<open>Challenges, registry and actions\<close>

definition serve_challenges :: "'a server \<Rightarrow> env \<Rightarrow> http_request \<Rightarrow> 'a world \<Rightarrow> ('a world \<times> reply) option" where
  "serve_challenges sv en rq w =
     (if \<not> authorized sv rq then Some (w, unauthenticated)
      else if hq_method rq \<noteq> ''POST'' then Some (w, answer 405 False [] ''action challenges require POST'')
      else (case dc_challenge (sv_codecs sv) (take 8192 (hq_body rq)) of
              None \<Rightarrow> Some (w, refused 400 ''invalid action challenge request'')
            | Some (action, runID) \<Rightarrow>
                if supervisor_Validate action \<noteq> Inr () \<or> action \<notin> {''rollback'', ''recover'', ''commit''}
                then Some (w, refused 400 ''challenge requires rollback, recover, or commit'')
                else (case challenge_issue (Some (w_challenges w)) (en_random en) action runID (en_now en) of
                        (cs, Inl e) \<Rightarrow> Some (w\<lparr>w_challenges := the cs\<rparr>, refused 500 (sv_text sv (SToken e)))
                      | (cs, Inr c) \<Rightarrow> Some (w\<lparr>w_challenges := the cs\<rparr>, data 201 (BChallenge c)))))"

definition serve_registry :: "'a server \<Rightarrow> http_request \<Rightarrow> 'a world \<Rightarrow> ('a world \<times> reply) option" where
  "serve_registry sv rq w =
     (if \<not> authorized sv rq then Some (w, unauthenticated)
      else (case sv_registry sv of
              None \<Rightarrow> Some (w, answer 501 False ''unavailable'' ''trusted registry client is not configured'')
            | Some c \<Rightarrow>
                if hq_method rq \<noteq> ''GET'' then Some (w, answer 405 False [] ''registry listing requires GET'')
                else (case rg_list c (w_runtime w) of
                        Inl e \<Rightarrow> Some (w, refused 502 e)
                      | Inr es \<Rightarrow> Some (w, data 200 (BRegistry es)))))"

definition registry_request :: "'a server \<Rightarrow> http_request \<Rightarrow> (string \<times> string) option" where
  "registry_request sv rq =
     (case dc_fetch (sv_codecs sv) (take 8192 (hq_body rq)) of
        None \<Rightarrow> None
      | Some (name, version) \<Rightarrow> if blank name \<or> blank version then None else Some (name, version))"

definition serve_fetch :: "'a server \<Rightarrow> http_request \<Rightarrow> 'a world \<Rightarrow> ('a world \<times> reply) option" where
  "serve_fetch sv rq w =
     (if \<not> authorized sv rq then Some (w, unauthenticated)
      else (case sv_registry sv of
              None \<Rightarrow> Some (w, answer 501 False ''unavailable'' ''trusted registry client is not configured'')
            | Some c \<Rightarrow>
                if hq_method rq \<noteq> ''POST'' then Some (w, answer 405 False [] ''registry fetch requires POST'')
                else (case registry_request sv rq of
                        None \<Rightarrow> Some (w, refused 400 ''registry name and version are required'')
                      | Some (name, version) \<Rightarrow>
                          (case rg_fetch c name version (w_runtime w) of
                             Inl e \<Rightarrow> Some (w, refused 502 e)
                           | Inr b \<Rightarrow> Some (w, data 200 (BBundle b))))))"

definition serve_revoke :: "'a server \<Rightarrow> http_request \<Rightarrow> 'a world \<Rightarrow> ('a world \<times> reply) option" where
  "serve_revoke sv rq w =
     (if \<not> authorized sv rq then Some (w, unauthenticated)
      else (case sv_registry sv of
              None \<Rightarrow> Some (w, answer 501 False ''unavailable'' ''trusted registry client is not configured'')
            | Some c \<Rightarrow>
                if hq_method rq \<noteq> ''POST'' then Some (w, answer 405 False [] ''registry revoke requires POST'')
                else (case registry_request sv rq of
                        None \<Rightarrow> Some (w, refused 400 ''registry name and version are required'')
                      | Some (name, version) \<Rightarrow>
                          (case rg_revoke c name version (w_runtime w) of
                             (a, Some e) \<Rightarrow> Some (w\<lparr>w_runtime := a\<rparr>, refused 502 e)
                           | (a, None) \<Rightarrow> Some (w\<lparr>w_runtime := a\<rparr>, answer 200 True ''revoked'' (name @ ''@'' @ version))))))"

text \<open>The action handler, once a request has passed its checks.\<close>

definition run_action :: "'a server \<Rightarrow> env \<Rightarrow> Request \<Rightarrow> 'a world \<Rightarrow> ('a world \<times> reply) option" where
  "run_action sv en q w =
     (case sv_actions sv of
        None \<Rightarrow> audited sv en (qr_action q) (qr_run q) 501 (resp False ''refused'' ''runtime action handler is not connected'') [] w
      | Some f \<Rightarrow>
          (case f q (w_runtime w) of
             (a, Inl e) \<Rightarrow> audited sv en (qr_action q) (qr_run q) 409 (resp False ''refused'' e) e (w\<lparr>w_runtime := a\<rparr>)
           | (a, Inr r) \<Rightarrow> audited sv en (qr_action q) (qr_run q) 200 r [] (w\<lparr>w_runtime := a\<rparr>)))"

definition serve_actions :: "'a server \<Rightarrow> env \<Rightarrow> http_request \<Rightarrow> 'a world \<Rightarrow> ('a world \<times> reply) option" where
  "serve_actions sv en rq w =
     (if \<not> authorized sv rq then Some (w, unauthenticated)
      else if hq_method rq \<noteq> ''POST'' then Some (w, answer 405 False [] ''actions require POST'')
      else (case dc_request (sv_codecs sv) (hq_body rq) of
              None \<Rightarrow> Some (w, answer 400 False [] ''invalid action request'')
            | Some q \<Rightarrow>
                (case supervisor_Validate (qr_action q) of
                   Inl e \<Rightarrow> Some (w, answer 400 False [] (sv_text sv (SToken e)))
                 | Inr _ \<Rightarrow>
                     if qr_action q = ''status'' then run_action sv en q w
                     else (case challenge_consume (Some (w_challenges w)) (qr_token q) (qr_action q) (qr_run q) (en_now en) of
                             (cs, Inl e) \<Rightarrow>
                               audited sv en (qr_action q) (qr_run q) 409 (resp False ''refused'' (sv_text sv (SToken e)))
                                 (sv_text sv (SToken e)) (w\<lparr>w_challenges := the cs\<rparr>)
                           | (cs, Inr _) \<Rightarrow> run_action sv en q (w\<lparr>w_challenges := the cs\<rparr>)))))"

definition serve_capabilities :: "'a server \<Rightarrow> http_request \<Rightarrow> 'a world \<Rightarrow> ('a world \<times> reply) option" where
  "serve_capabilities sv rq w =
     (if \<not> may_read sv rq then Some (w, unauthenticated) else Some (w, data 200 BCapabilities))"

text \<open>The routes, and the preflight answer of the outer handler.\<close>

definition Handler :: "'a server \<Rightarrow> env \<Rightarrow> http_request \<Rightarrow> 'a world \<Rightarrow> ('a world \<times> reply) option" where
  "Handler sv en rq w =
     (let p = hq_path rq in
      if \<not> blank (sv_cors sv) \<and> hq_method rq = ''OPTIONS'' then Some (w, data 204 BNone)
      else if p = ''/health'' then Some (w, answer 200 True ''ready'' ''local supervisor; authenticated actions'')
      else if p = ''/v1/capabilities'' then serve_capabilities sv rq w
      else if p = ''/v1/history'' then serve_history sv rq w
      else if p = ''/v1/history/prune'' then serve_prune sv en rq w
      else if p = ''/v1/sessions'' then serve_sessions sv en rq w
      else if p = ''/v1/policies'' then serve_policies sv en rq w
      else if p = ''/v1/workspaces'' then serve_workspaces sv en rq w
      else if p = ''/v1/policy-bundles'' then serve_bundles sv en rq w
      else if p = ''/v1/credential-leases'' then serve_leases sv en rq w
      else if p = ''/v1/audit'' then serve_audit sv rq w
      else if p = ''/v1/run'' then serve_detail sv en rq w
      else if p = ''/v1/events'' then serve_events sv en rq w
      else if p = ''/v1/action-challenges'' then serve_challenges sv en rq w
      else if p = ''/v1/registry/policies'' then serve_registry sv rq w
      else if p = ''/v1/registry/policies/fetch'' then serve_fetch sv rq w
      else if p = ''/v1/registry/policies/revoke'' then serve_revoke sv rq w
      else if p = ''/v1/actions'' then serve_actions sv en rq w
      else Some (w, answer 404 False [] ''not found''))"

end
