(* ===== verification/Review.thy ===== *)
theory Review
  imports Coordinator Evidence Acceptance Checkpoint History Cgroup Supervisor
begin

text \<open>
  What happens to a run after the agent has ended: \<open>cmd/rewind/supervisor_actions.go\<close>,
  \<open>commit.go\<close>, and the commands \<open>rollback\<close> and \<open>recover\<close> with the persistence helpers of
  \<open>run.go\<close>.  They join the components: the record on its file, the coordinator, the manifests of the
  two trees, the conflict check and apply, the overlay, the history and the checkpoint graph.

  \<open>files\<close> is what lies on disk; \<open>host\<close> is the environment: how the calls of the operating system
  end, the clock, the hash.  Two fields of the plan that the record \<open>RunPlan\<close> leaves out,
  \<open>HistoryPath\<close> and \<open>CgroupPath\<close>, are looked up by the run identifier.  \<open>fatal\<close> ends the process;
  it is an error value here.
\<close>

record files =
  fl_ov :: ov_world
  fl_records :: "path \<Rightarrow> record_file"
  fl_history :: "path \<Rightarrow> hfile"
  fl_graphs :: "string \<Rightarrow> gfile"

record host =
  ht_cwd :: path
  ht_sha :: "string \<Rightarrow> string"
  ht_unreadable :: "segpath \<Rightarrow> bool"
  ht_apply :: apply_env
  ht_overlay :: ov_env
  ht_cgroup :: cg_env
  ht_scope_fails :: "act \<Rightarrow> bool"
  ht_sort :: "History.Entry list \<Rightarrow> History.Entry list"
  ht_io :: io_env
  ht_record_io :: "bool \<times> bool \<times> bool \<times> bool"
  ht_logs :: "path \<Rightarrow> logfile"
  ht_valid :: "string \<Rightarrow> bool"
  ht_glob :: "string \<Rightarrow> path list"
  ht_now :: int
  ht_graph_ok :: bool
  ht_natives :: "path \<Rightarrow> nfile"
  ht_plan_history :: "string \<Rightarrow> path"
  ht_plan_cgroup :: "string \<Rightarrow> path"

datatype review_error =
    RunIdMissing | HistoryError history_error | NotInHistory string | NativeError native_error | NativeUnavailable
  | RecordError evidence_error | NeedsConfirmation | UnsupportedAction string
  | NotSucceeded lstate | IncompleteEvidence "64 word" bool bool | CandidateError manifest_error
  | DestinationError manifest_error | Refused apply_error | CleanupError overlay_error
  | StateError lifecycle_error | ScopeFatal cgroup_error | RollbackErrors "cerr list" | GraphError check_error
  | Usage | LinuxOnly

abbreviation plan_id :: "RunPlan \<Rightarrow> string" where
  "plan_id p \<equiv> run_id (rp_run p)"

subsection \<open>Persistence\<close>

definition persistHistory :: "host \<Rightarrow> path \<Rightarrow> RunPlan \<Rightarrow> path \<Rightarrow> files \<Rightarrow> files \<times> review_error option" where
  "persistHistory h p plan recordPath w =
     (if blank p then (w, None)
      else (case Upsert (ht_sort h) (ht_io h)
              \<lparr>he_run = plan_id plan, he_backend = [], he_state = state_text (plan_state plan),
               he_workspace = l_lower (rp_layout plan), he_record = recordPath, he_upper = 0,
               he_created = created_at (rp_run plan), he_updated = updated_at (rp_run plan)\<rparr>
              \<lparr>hs_path = p, hs_file = fl_history w p\<rparr> of
              (s, r) \<Rightarrow> (w\<lparr>fl_history := (fl_history w)(p := hs_file s)\<rparr>, map_option HistoryError r)))"

definition graph_call ::
  "string \<Rightarrow> (Checkpoint.Store \<Rightarrow> Checkpoint.Store \<times> check_error option) \<Rightarrow> files \<Rightarrow> files \<times> review_error option" where
  "graph_call g f w =
     (if blank g then (w, None)
      else (case f (Open (fl_graphs w (trim_space g)) g) of
              (s, r) \<Rightarrow> (w\<lparr>fl_graphs := (fl_graphs w)(trim_space g := st_file s)\<rparr>, map_option GraphError r)))"

definition transitionCheckpoint :: "host \<Rightarrow> RunPlan \<Rightarrow> cstate \<Rightarrow> files \<Rightarrow> files \<times> review_error option" where
  "transitionCheckpoint h plan st w =
     graph_call (rp_graph plan) (\<lambda>s. Checkpoint.Transition (ht_now h) (ht_graph_ok h) s (rp_checkpoint plan) st) w"

definition rollbackCheckpoint :: "host \<Rightarrow> RunPlan \<Rightarrow> files \<Rightarrow> files \<times> review_error option" where
  "rollbackCheckpoint h plan w =
     graph_call (rp_graph plan) (\<lambda>s. Checkpoint.Rollback (ht_now h) (ht_graph_ok h) s (rp_checkpoint plan)) w"

definition write_record :: "host \<Rightarrow> path \<Rightarrow> RunRecord \<Rightarrow> files \<Rightarrow> files \<times> review_error option" where
  "write_record h p r w =
     (case ht_record_io h of (a, b, c, d) \<Rightarrow>
        (case record_Write a b c d p r (fl_records w p) of
           (f, e) \<Rightarrow> (w\<lparr>fl_records := (fl_records w)(p := f)\<rparr>, map_option RecordError e)))"

definition discoverEventPaths :: "host \<Rightarrow> path \<Rightarrow> path list" where
  "discoverEventPaths h p =
     (if blank p then []
      else p # sort (ht_glob h (trim_suffix (path_ext p) p @ ''-*.jsonl'')))"

definition persistRecordState ::
  "host \<Rightarrow> path \<Rightarrow> RunPlan \<Rightarrow> path \<Rightarrow> 64 word \<Rightarrow> bool \<Rightarrow> files \<Rightarrow> files \<times> review_error option" where
  "persistRecordState h p plan eventsPath dropped truncated w =
     (let eps = discoverEventPaths h eventsPath in
      case SummarizeEventsPaths (ht_sha h) (ht_valid h) (ht_logs h) eps of
        Inl e \<Rightarrow> (w, Some (RecordError e))
      | Inr ev \<Rightarrow> write_record h p \<lparr>rr_plan = plan, rr_path = eventsPath, rr_paths = eps,
                     rr_events = WithTruncated (WithDropped ev dropped) truncated\<rparr> w)"

definition persistedScope :: "host \<Rightarrow> path \<Rightarrow> review_error + bool" where
  "persistedScope h p =
     (if blank p then Inr False
      else and_then (map_err ScopeFatal (FromPath (ht_cgroup h) p)) (\<lambda>s. Inr (s \<noteq> [])))"

definition evidenceCompleteness :: "RunRecord \<Rightarrow> review_error + unit" where
  "evidenceCompleteness r =
     (let e = rr_events r in
      if ee_dropped e > 0 \<or> ee_truncated e \<or> \<not> ee_complete e
      then Inl (IncompleteEvidence (ee_dropped e) (ee_truncated e) (ee_complete e)) else Inr ())"
subsection \<open>The actions\<close>

text \<open>Continue after a step that may fail.\<close>

definition next_step :: "files \<times> review_error option \<Rightarrow> (files \<Rightarrow> files \<times> (review_error + 'a)) \<Rightarrow> files \<times> (review_error + 'a)" where
  "next_step x k = (case x of (w, None) \<Rightarrow> k w | (w, Some e) \<Rightarrow> (w, Inl e))"

definition manager :: "host \<Rightarrow> RunPlan \<Rightarrow> ov_env" where
  "manager h plan = (ht_overlay h)\<lparr>oe_backend := rp_backend plan, oe_owner := None\<rparr>"

text \<open>
  \<open>Coordinator.RollbackPlan\<close> with the manager as its overlay: the step \<open>RollsBack\<close> is the rollback
  of the layers, and fails if that does.
\<close>

definition rollback_run :: "host \<Rightarrow> bool \<Rightarrow> RunPlan \<Rightarrow> files \<Rightarrow> files \<times> RunPlan \<times> cerr list" where
  "rollback_run h scope plan w =
     (let (ov, r) = Overlay_Model.Rollback (manager h plan) (fl_ov w) (rp_layout plan);
          env = \<lparr>ce_fails = (\<lambda>tr a. if a = RollsBack then r \<noteq> None else ht_scope_fails h a),
                 ce_pid = 0, ce_gate = False, ce_now = ht_now h\<rparr>;
          (tr, p, es) = RollbackPlan \<lparr>co_overlay = True, co_starter = False, co_sensor = False, co_scope = scope,
                 co_network = False, co_refresher = False\<rparr> env [] (Some plan)
      in (if RollsBack \<in> set tr then w\<lparr>fl_ov := ov\<rparr> else w, the p, es))"

text \<open>\<open>graph\<close> tells the command line's variant, which also rolls back the checkpoint.\<close>

definition rollback_record ::
  "bool \<Rightarrow> host \<Rightarrow> path \<Rightarrow> RunRecord \<Rightarrow> files \<Rightarrow> files \<times> (review_error + RunPlan)" where
  "rollback_record graph h p r w =
     (case persistedScope h (ht_plan_cgroup h (plan_id (rr_plan r))) of
        Inl e \<Rightarrow> (w, Inl e)
      | Inr scope \<Rightarrow>
          (case rollback_run h scope (rr_plan r) w of (w1, plan, es) \<Rightarrow>
             if es \<noteq> [] then (w1, Inl (RollbackErrors es))
             else next_step (if graph then rollbackCheckpoint h plan w1 else (w1, None)) (\<lambda>w2.
               next_step (persistRecordState h p plan (rr_path r) (ee_dropped (rr_events r)) (ee_truncated (rr_events r)) w2) (\<lambda>w3.
               next_step (persistHistory h (ht_plan_history h (plan_id plan)) plan p w3) (\<lambda>w4. (w4, Inr plan))))))"

definition supervisorRollback :: "host \<Rightarrow> path \<Rightarrow> RunRecord \<Rightarrow> files \<Rightarrow> files \<times> (review_error + Response)" where
  "supervisorRollback h p r w =
     (case rollback_record False h p r w of
        (w', Inl e) \<Rightarrow> (w', Inl e)
      | (w', Inr plan) \<Rightarrow> (w', Inr (resp True (state_text (plan_state plan)) ''temporary layer discarded'')))"

definition handleRollback :: "host \<Rightarrow> bool \<Rightarrow> bool \<Rightarrow> path \<Rightarrow> files \<Rightarrow> files \<times> (review_error + RunPlan)" where
  "handleRollback h linux extra p w =
     (if \<not> linux then (w, Inl LinuxOnly)
      else if extra \<or> blank p then (w, Inl Usage)
      else (case record_Read (fl_records w p) of
              Inl e \<Rightarrow> (w, Inl (RecordError e))
            | Inr r \<Rightarrow> rollback_record True h p r w))"

definition commit_record :: "host \<Rightarrow> path \<Rightarrow> RunRecord \<Rightarrow> files \<Rightarrow> files \<times> (review_error + RunPlan \<times> Report)" where
  "commit_record h p r w =
     (let plan = rr_plan r; l = rp_layout plan; f = ov_fs (fl_ov w) in
      if plan_state plan \<noteq> Lifecycle.Succeeded then (w, Inl (NotSucceeded (plan_state plan)))
      else (case evidenceCompleteness r of
        Inl e \<Rightarrow> (w, Inl e)
      | Inr _ \<Rightarrow>
      (case Build (ht_cwd h) (ht_sha h) (ht_unreadable h) f (l_merged l) of
        Inl e \<Rightarrow> (w, Inl (CandidateError e))
      | Inr candidate \<Rightarrow>
      (case Build (ht_cwd h) (ht_sha h) (ht_unreadable h) f (l_lower l) of
        Inl e \<Rightarrow> (w, Inl (DestinationError e))
      | Inr destination \<Rightarrow>
      (case Acceptance.Apply (ht_apply h) f (rp_manifest plan) destination candidate (l_merged l) (l_lower l) of
        (f1, report, Some e) \<Rightarrow> (w\<lparr>fl_ov := (fl_ov w)\<lparr>ov_fs := f1\<rparr>\<rparr>, Inl (Refused e))
      | (f1, report, None) \<Rightarrow>
      (case Overlay_Model.Rollback (manager h plan) ((fl_ov w)\<lparr>ov_fs := f1\<rparr>) l of
        (ov, Some e) \<Rightarrow> (w\<lparr>fl_ov := ov\<rparr>, Inl (CleanupError e))
      | (ov, None) \<Rightarrow>
      (case Lifecycle.Transition (ht_now h) (Some (rp_run plan)) Committed of
        Inl e \<Rightarrow> (w\<lparr>fl_ov := ov\<rparr>, Inl (StateError e))
      | Inr run' \<Rightarrow>
         (let plan' = plan\<lparr>rp_run := run'\<rparr> in
          next_step (write_record h p (r\<lparr>rr_plan := plan'\<rparr>) (w\<lparr>fl_ov := ov\<rparr>)) (\<lambda>w2.
          next_step (persistHistory h (ht_plan_history h (plan_id plan')) plan' p w2) (\<lambda>w3.
            (w3, Inr (plan', report))))))))))))"

definition supervisorCommit :: "host \<Rightarrow> path \<Rightarrow> RunRecord \<Rightarrow> files \<Rightarrow> files \<times> (review_error + Response)" where
  "supervisorCommit h p r w =
     (case commit_record h p r w of
        (w', Inl e) \<Rightarrow> (w', Inl e)
      | (w', Inr (plan, report)) \<Rightarrow>
          (w', Inr (resp True (state_text (plan_state plan))
             (''committed '' @ show_nat (length (rep_changes report)) @ '' changes''))))"

definition handleCommit ::
  "host \<Rightarrow> bool \<Rightarrow> bool \<Rightarrow> bool \<Rightarrow> path \<Rightarrow> files \<Rightarrow> files \<times> (review_error + RunPlan \<times> Report)" where
  "handleCommit h linux extra confirm p w =
     (if \<not> linux then (w, Inl LinuxOnly)
      else if extra \<or> blank p then (w, Inl Usage)
      else if \<not> confirm then (w, Inl NeedsConfirmation)
      else (case record_Read (fl_records w p) of
              Inl e \<Rightarrow> (w, Inl (RecordError e))
            | Inr r \<Rightarrow> commit_record h p r w))"

definition historyEntry :: "host \<Rightarrow> path \<Rightarrow> files \<Rightarrow> string \<Rightarrow> review_error + History.Entry" where
  "historyEntry h p w runID =
     (case history_List (ht_sort h) \<lparr>hs_path = p, hs_file = fl_history w p\<rparr> of
        Inl e \<Rightarrow> Inl (HistoryError e)
      | Inr es \<Rightarrow>
          (case find (\<lambda>e. he_run e = runID) es of
             None \<Rightarrow> Inl (NotInHistory runID)
           | Some e \<Rightarrow> Inr e))"

text \<open>Native actions are those of the other platforms; on Linux they only return an error.\<close>

definition supervisorAction :: "host \<Rightarrow> path \<Rightarrow> Request \<Rightarrow> files \<Rightarrow> files \<times> (review_error + Response)" where
  "supervisorAction h historyPath q w =
     (if blank (qr_run q) then (w, Inl RunIdMissing)
      else (case historyEntry h historyPath w (qr_run q) of
        Inl e \<Rightarrow> (w, Inl e)
      | Inr entry \<Rightarrow>
          (let p = he_record entry in
           case NativeRecordForSupervisor (ht_natives h p) (qr_run q) of
             Inl e \<Rightarrow> (w, Inl (NativeError e))
           | Inr (Some n) \<Rightarrow> (w, Inl NativeUnavailable)
           | Inr None \<Rightarrow>
               (case record_Read (fl_records w p) of
                  Inl e \<Rightarrow> (w, Inl (RecordError e))
                | Inr r \<Rightarrow>
                    if qr_action q = ''status''
                    then (w, Inr (resp True (state_text (plan_state (rr_plan r))) (plan_id (rr_plan r))))
                    else if qr_action q = ''rollback'' \<or> qr_action q = ''recover'' then supervisorRollback h p r w
                    else if qr_action q = ''commit''
                    then (if qr_confirmation q \<noteq> ''COMMIT'' then (w, Inl NeedsConfirmation) else supervisorCommit h p r w)
                    else (w, Inl (UnsupportedAction (qr_action q)))))))"
subsection \<open>The steps of a commit\<close>

lemma next_step_Inr: "next_step x k = (w', Inr a) \<longleftrightarrow> (\<exists>w. x = (w, None) \<and> k w = (w', Inr a))"
  by (auto simp: next_step_def split: prod.splits option.splits)

definition reviewed :: "host \<Rightarrow> RunRecord \<Rightarrow> fs \<Rightarrow> Manifest \<Rightarrow> Manifest \<Rightarrow> bool" where
  "reviewed h r f destination candidate =
     (plan_state (rr_plan r) = Lifecycle.Succeeded \<and> evidenceCompleteness r = Inr () \<and>
      Build (ht_cwd h) (ht_sha h) (ht_unreadable h) f (l_merged (rp_layout (rr_plan r))) = Inr candidate \<and>
      Build (ht_cwd h) (ht_sha h) (ht_unreadable h) f (l_lower (rp_layout (rr_plan r))) = Inr destination \<and>
      can_apply (Check (rp_manifest (rr_plan r)) destination candidate))"

lemma Apply_refused: "\<not> can_apply (Check b d c) \<Longrightarrow> Acceptance.Apply env f b d c cr dr = (f, Check b d c, Some (Conflicts (rep_conflicts (Check b d c))))"
  by (simp add: Acceptance.Apply_def Let_def)

text \<open>A commit that changes anything or succeeds has passed every gate.\<close>

lemma commit_record_gates:
  assumes "commit_record h p r w = (w', x)" and "w' \<noteq> w \<or> is_ok x \<or> (\<exists>e. x = Inl (CleanupError e))"
  shows "\<exists>destination candidate. reviewed h r (ov_fs (fl_ov w)) destination candidate"
proof -
  have st: "plan_state (rr_plan r) = Lifecycle.Succeeded" and ev: "evidenceCompleteness r = Inr ()"
    using assms by (auto simp: commit_record_def evidenceCompleteness_def Let_def split: if_splits sum.splits)
  let ?l = "rp_layout (rr_plan r)" and ?f = "ov_fs (fl_ov w)"
  obtain c where c: "Build (ht_cwd h) (ht_sha h) (ht_unreadable h) ?f (l_merged ?l) = Inr c"
    using assms st ev by (cases "Build (ht_cwd h) (ht_sha h) (ht_unreadable h) ?f (l_merged ?l)")
      (auto simp: commit_record_def Let_def)
  obtain d where d: "Build (ht_cwd h) (ht_sha h) (ht_unreadable h) ?f (l_lower ?l) = Inr d"
    using assms st ev c by (cases "Build (ht_cwd h) (ht_sha h) (ht_unreadable h) ?f (l_lower ?l)")
      (auto simp: commit_record_def Let_def)
  have "can_apply (Check (rp_manifest (rr_plan r)) d c)"
    using assms st ev c d Apply_refused by (cases "can_apply (Check (rp_manifest (rr_plan r)) d c)")
      (auto simp: commit_record_def Let_def)
  then show ?thesis using st ev c d by (auto simp: reviewed_def)
qed

text \<open>The stages of a commit that went through.\<close>

lemma commit_record_Inr:
  assumes "commit_record h p r w = (w', Inr (plan', report))"
  obtains destination candidate f1 ov run' w2
  where "reviewed h r (ov_fs (fl_ov w)) destination candidate"
    and "Acceptance.Apply (ht_apply h) (ov_fs (fl_ov w)) (rp_manifest (rr_plan r)) destination candidate
           (l_merged (rp_layout (rr_plan r))) (l_lower (rp_layout (rr_plan r))) = (f1, report, None)"
    and "Overlay_Model.Rollback (manager h (rr_plan r)) ((fl_ov w)\<lparr>ov_fs := f1\<rparr>) (rp_layout (rr_plan r)) = (ov, None)"
    and "Lifecycle.Transition (ht_now h) (Some (rp_run (rr_plan r))) Committed = Inr run'"
    and "plan' = (rr_plan r)\<lparr>rp_run := run'\<rparr>"
    and "write_record h p (r\<lparr>rr_plan := plan'\<rparr>) (w\<lparr>fl_ov := ov\<rparr>) = (w2, None)"
    and "persistHistory h (ht_plan_history h (plan_id plan')) plan' p w2 = (w', None)"
proof -
  let ?l = "rp_layout (rr_plan r)" and ?f = "ov_fs (fl_ov w)"
  obtain d c where rev: "reviewed h r ?f d c" using commit_record_gates [OF assms] by auto
  note go = assms [unfolded commit_record_def Let_def, simplified rev [unfolded reviewed_def], simplified]
  obtain f1 rep where ap: "Acceptance.Apply (ht_apply h) ?f (rp_manifest (rr_plan r)) d c (l_merged ?l) (l_lower ?l) = (f1, rep, None)"
    using go by (auto split: prod.splits option.splits)
  obtain ov where ro: "Overlay_Model.Rollback (manager h (rr_plan r)) ((fl_ov w)\<lparr>ov_fs := f1\<rparr>) ?l = (ov, None)"
    using go ap by (auto split: prod.splits option.splits)
  obtain run' where tr: "Lifecycle.Transition (ht_now h) (Some (rp_run (rr_plan r))) Committed = Inr run'"
    using go ap ro by (auto split: sum.splits)
  obtain w2 where "plan' = (rr_plan r)\<lparr>rp_run := run'\<rparr>" "rep = report"
    "write_record h p (r\<lparr>rr_plan := plan'\<rparr>) (w\<lparr>fl_ov := ov\<rparr>) = (w2, None)"
    "persistHistory h (ht_plan_history h (plan_id plan')) plan' p w2 = (w', None)"
    using go by (simp only: ap ro tr prod.case option.case sum.case next_step_Inr) auto
  then show ?thesis using that [OF rev _ ro tr] ap by blast
qed
lemma write_record_None:
  "write_record h p r w = (w', None) \<longleftrightarrow> w' = w\<lparr>fl_records := (fl_records w)(p := StoredRecord r)\<rparr> \<and> p \<noteq> [] \<and>
     ht_record_io h = (True, True, True, True)"
  by (cases "ht_record_io h") (auto simp: write_record_def record_Write_def split: if_splits)

lemma persistHistory_keeps:
  "persistHistory h hp plan p w = (w', e) \<Longrightarrow>
     fl_ov w' = fl_ov w \<and> fl_records w' = fl_records w \<and> fl_graphs w' = fl_graphs w"
  by (auto simp: persistHistory_def split: if_splits prod.splits)

definition history_of :: "files \<Rightarrow> path \<Rightarrow> History.Store" where
  "history_of w p = \<lparr>hs_path = p, hs_file = fl_history w p\<rparr>"

lemma persistHistory_entry:
  assumes "persistHistory h hp plan p w = (w', None)" and "\<not> blank hp"
    and "newest_first (ht_sort h)" and "history_wf (history_of w hp)"
  shows "\<exists>e. entry_of_run (history_of w' hp) (plan_id plan) = Some e \<and> he_state e = state_text (plan_state plan) \<and>
    he_record e = p"
proof -
  define e where "e = \<lparr>he_run = plan_id plan, he_backend = [], he_state = state_text (plan_state plan),
     he_workspace = l_lower (rp_layout plan), he_record = p, he_upper = 0,
     he_created = created_at (rp_run plan), he_updated = updated_at (rp_run plan)\<rparr>"
  obtain s where u: "Upsert (ht_sort h) (ht_io h) e (history_of w hp) = (s, None)"
    and w': "w' = w\<lparr>fl_history := (fl_history w)(hp := hs_file s)\<rparr>"
    using assms(1,2) by (auto simp: persistHistory_def e_def history_of_def split: prod.splits)
  have "entry_of_run s (he_run e) = Some e" using upsert_entry [OF assms(3,4) u] .
  moreover have "entry_of_run (history_of w' hp) = entry_of_run s"
    by (simp add: w' history_of_def entry_of_run_def stored_entries_def)
  ultimately show ?thesis by (auto simp: e_def)
qed

lemma disjoint_layers:
  assumes "NewLayoutWithLower cwd root lower = Inr l" and "is_abs cwd"
    and "\<not> is_within (l_lower l) (l_root l)" and "\<not> is_within (l_root l) (l_lower l)"
  shows "is_abs (l_lower l)" "is_abs (l_merged l)" "\<not> is_within (l_lower l) (l_merged l)" "\<not> is_within (l_merged l) (l_lower l)"
    "prefix (csegs (l_lower l)) q \<Longrightarrow> \<not> prefix (csegs (l_upper l)) q \<and> \<not> prefix (csegs (l_work l)) q"
proof -
  note lf = layout_facts [OF assms(1,2)]
  have abs: "is_abs (l_root l)" "is_abs (l_lower l)"
    using layout_roots [OF assms(1)] abs_path_abs [OF assms(2)] by (simp_all add: abs_path_id)
  show "is_abs (l_lower l)" by (rule abs(2))
  have "l_merged l = path_join (clean (abs_path cwd root)) ''merged''"
    using assms(1) by (auto simp: NewLayoutWithLower_def NewLayout_def Let_def split: if_splits)
  then show m: "is_abs (l_merged l)" using abs_path_abs [OF assms(2)] by (simp add: path_join_abs)
  have dis: "\<not> prefix (csegs (l_lower l)) (csegs (l_root l))" "\<not> prefix (csegs (l_root l)) (csegs (l_lower l))"
    using assms(3,4) by (simp_all add: is_within_prefix abs)
  have seg: "\<not> prefix (csegs (l_lower l)) (csegs (l_root l) @ [x])" "\<not> prefix (csegs (l_root l) @ [x]) (csegs (l_lower l))" for x
    using dis by (metis prefix_snoc append_prefixD prefix_order.refl)+
  show "\<not> is_within (l_lower l) (l_merged l)" "\<not> is_within (l_merged l) (l_lower l)"
    using seg lf by (simp_all add: is_within_prefix abs m)
  have "\<not> prefix (csegs (l_root l) @ [x]) q" if "prefix (csegs (l_lower l)) q" for x
    using seg that prefix_same_cases by blast
  then show "prefix (csegs (l_lower l)) q \<Longrightarrow> \<not> prefix (csegs (l_upper l)) q \<and> \<not> prefix (csegs (l_work l)) q"
    using lf by simp
qed
subsection \<open>Committing\<close>

lemma Transition_state: "Lifecycle.Transition now (Some r) s = Inr r' \<Longrightarrow> run_state r' = s \<and> run_id r' = run_id r"
  by (auto simp: Lifecycle.Transition_def split: if_splits)

lemma commit_record_done:
  assumes "commit_record h p r w = (w', Inr (plan', report))"
  shows "fl_records w' p = StoredRecord (r\<lparr>rr_plan := plan'\<rparr>) \<and> plan_state plan' = Committed \<and> plan_id plan' = plan_id (rr_plan r) \<and>
    fl_graphs w' = fl_graphs w"
proof (rule commit_record_Inr [OF assms])
  fix destination candidate f1 ov run' w2
  assume tr: "Lifecycle.Transition (ht_now h) (Some (rp_run (rr_plan r))) Committed = Inr run'"
    and pl: "plan' = (rr_plan r)\<lparr>rp_run := run'\<rparr>"
    and wr: "write_record h p (r\<lparr>rr_plan := plan'\<rparr>) (w\<lparr>fl_ov := ov\<rparr>) = (w2, None)"
    and ph: "persistHistory h (ht_plan_history h (plan_id plan')) plan' p w2 = (w', None)"
  show ?thesis
    using Transition_state [OF tr] wr persistHistory_keeps [OF ph]
    by (simp add: pl write_record_None plan_state_def)
qed

text \<open>
  No link is in the way of a commit: not on the way to the runtime root, to a place that is changed
  in the workspace, or to the candidate's version of it in the merged view.
\<close>

definition clear_review :: "Layout \<Rightarrow> Report \<Rightarrow> fs \<Rightarrow> bool" where
  "clear_review l report f \<longleftrightarrow> plain_way f (csegs (l_root l)) \<and>
     (\<forall>c \<in> set (rep_changes report). clear_way f (l_lower l) c \<and> plain_way f (csegs (l_merged l) @ csegs (ch_path c)))"

lemma clear_review_no_links [simp]: "no_links f \<Longrightarrow> clear_review l report f"
  by (simp add: clear_review_def)

lemma commit_installs:
  assumes "Acceptance.Apply env (ov_fs ov) b d cand (l_merged l) (l_lower l) = (f1, report, None)"
    and "NewLayoutWithLower cwd root lower = Inr l" and "is_abs cwd" and "clear_review l report (ov_fs ov)"
    and "\<not> is_within (l_lower l) (l_root l)" and "\<not> is_within (l_root l) (l_lower l)"
    and "c \<in> set (rep_changes report)" and "ch_after c = Some e" and "e_type e = ''file''"
    and "\<forall>c' \<in> set (rep_changes report). c' \<noteq> c \<longrightarrow> \<not> hits (l_lower l) c' (target (l_lower l) c)"
  shows "\<exists>k s. fs_get (ov_fs ov) (csegs (l_merged l) @ csegs (ch_path c)) = Some (NFile k s) \<and>
     fs_get f1 (target (l_lower l) c) = Some (NFile (e_mode e) s)"
  using apply_installs_step [OF _ _ disjoint_layers(1,2,4,3) [OF assms(2,3,5,6)] assms(1) _ assms(8,9)]
    Apply_success(4) [OF assms(1)] assms(4,7,10) by (simp add: clear_review_def)

text \<open>What the operator asked for: the reviewed files are in the workspace, the layers are gone.\<close>

definition installed :: "Layout \<Rightarrow> Report \<Rightarrow> fs \<Rightarrow> fs \<Rightarrow> bool" where
  "installed l report f f' =
     (\<forall>c \<in> set (rep_changes report). \<forall>e. ch_after c = Some e \<longrightarrow> e_type e = ''file'' \<longrightarrow>
        (\<forall>c' \<in> set (rep_changes report). c' \<noteq> c \<longrightarrow> \<not> hits (l_lower l) c' (target (l_lower l) c)) \<longrightarrow>
        (\<exists>k s. fs_get f (csegs (l_merged l) @ csegs (ch_path c)) = Some (NFile k s) \<and>
           fs_get f' (target (l_lower l) c) = Some (NFile (e_mode e) s)))"

definition discarded :: "Layout \<Rightarrow> fs \<Rightarrow> bool" where
  "discarded l f = (\<forall>d \<in> {csegs (l_upper l), csegs (l_work l)}. \<forall>q. prefix d q \<longrightarrow> q \<noteq> d \<longrightarrow> fs_get f q = None)"

subsection \<open>A concrete run under review\<close>

definition review_tree :: fs where
  "review_tree = [([''w''], NDir 493), ([''w'', ''x''], NFile 420 ''1''), ([''r''], NDir 493), ([''r'', ''upper''], NDir 493),
     ([''r'', ''upper'', ''x''], NFile 420 ''2''), ([''r'', ''work''], NDir 493), ([''r'', ''merged''], NDir 493),
     ([''r'', ''merged'', ''x''], NFile 420 ''2'')]"

definition review_record :: RunRecord where
  "review_record = (demo_run_record Lifecycle.Succeeded)\<lparr>rr_events := \<lparr>ee_count = 0, ee_bytes = 0, ee_dropped = 0,
     ee_truncated = False, ee_sha = [], ee_complete = True\<rparr>\<rparr>"

definition review_files :: files where
  "review_files = \<lparr>fl_ov = \<lparr>ov_fs = review_tree, ov_cmds = [], ov_kills = 0\<rparr>,
     fl_records = (\<lambda>p. if p = ''/rec'' then StoredRecord review_record else NoRecord),
     fl_history = (\<lambda>p. if p = ''/h'' then HEntries [(demo_entry ''r'' 1)\<lparr>he_record := ''/rec''\<rparr>] else HMissing),
     fl_graphs = (\<lambda>_. Missing)\<rparr>"

definition review_host :: host where
  "review_host = \<lparr>ht_cwd = ''/'', ht_sha = (\<lambda>s. s), ht_unreadable = (\<lambda>_. False),
     ht_apply = \<lparr>env_umask = 18, env_copy_fails = (\<lambda>_. False), env_remove_fails = (\<lambda>_. False)\<rparr>,
     ht_overlay = demo_ov, ht_cgroup = demo_cg, ht_scope_fails = (\<lambda>_. False), ht_sort = by_update, ht_io = \<lparr>io_mkdir = True, io_write = True, io_rename = True\<rparr>,
     ht_record_io = (True, True, True, True), ht_logs = (\<lambda>_. LogMissing), ht_valid = (\<lambda>_. True), ht_glob = (\<lambda>_. []),
     ht_now = 9, ht_graph_ok = True, ht_natives = (\<lambda>_. NMissing), ht_plan_history = (\<lambda>_. ''/h''), ht_plan_cgroup = (\<lambda>_. [])\<rparr>"

lemma review_commits: "is_ok (snd (commit_record review_host ''/rec'' review_record review_files))"
  by code_simp

subsection \<open>Discarding\<close>

lemma reset_layers_frame:
  assumes "\<forall>p \<in> set ps. plain_way f (butlast (csegs p))" and "\<forall>p \<in> set ps. is_abs p \<and> csegs p \<noteq> []" and "reset_layers env f ps = (f', e)"
  shows "\<forall>q n. fs_get f q = Some n \<longrightarrow> (\<forall>p \<in> set ps. \<not> prefix (csegs p) q) \<longrightarrow> fs_get f' q = Some n"
  using assms
proof (induction ps arbitrary: f)
  case (Cons p ps)
  have pw: "plain_way f (butlast (csegs p))" using Cons.prems(1) by simp
  have rm: "\<And>q n. fs_get f q = Some n \<Longrightarrow> \<not> prefix (csegs p) q \<Longrightarrow> fs_get (RemoveAll f (csegs p)) q = Some n"
    using Cons.prems(2) RemoveAll_plain_way [OF pw] csegs_no_dotdot [of p] by auto
  show ?case
  proof (cases "oe_remove_ok env p \<and> make_dir env (RemoveAll f (csegs p)) p \<noteq> None")
    case True
    then obtain f2 where f2: "make_dir env (RemoveAll f (csegs p)) p = Some f2" by blast
    note one = reset_one [OF pw _ _ f2]
    have ways: "\<forall>p \<in> set ps. plain_way f2 (butlast (csegs p))"
      using Cons.prems(1,2) one plain_way_new [of f f2] by simp
    have "reset_layers env f2 ps = (f', e)" using Cons.prems(3) f2 True by (simp add: Let_def)
    from Cons.IH [OF ways _ this] one Cons.prems(2) show ?thesis by simp
  next
    case False
    then have "f' = f \<or> f' = RemoveAll f (csegs p)"
      using Cons.prems(3) by (auto simp: Let_def split: if_splits option.splits)
    then show ?thesis using rm by auto
  qed
qed simp

lemma Rollback_frame:
  assumes "NewLayoutWithLower cwd root lower = Inr l" and "is_abs cwd" and "plain_way (ov_fs w) (csegs (l_root l))"
    and "Overlay_Model.Rollback env w l = (w', r)" and "fs_get (ov_fs w) q = Some n"
    and "\<not> prefix (csegs (l_upper l)) q" and "\<not> prefix (csegs (l_work l)) q"
  shows "fs_get (ov_fs w') q = Some n"
proof (cases "ov_fs w' = ov_fs w")
  case False
  then have rs: "reset_layers env (ov_fs w) [l_upper l, l_work l] = (ov_fs w', r)"
    using Rollback_cases [OF assms(4)] by blast
  have "\<forall>p \<in> set [l_upper l, l_work l]. is_abs p \<and> csegs p \<noteq> []"
    using layout_facts [OF assms(1,2)] by simp
  moreover have "\<forall>p \<in> set [l_upper l, l_work l]. plain_way (ov_fs w) (butlast (csegs p))"
    using layout_facts [OF assms(1,2)] assms(3) by simp
  ultimately show ?thesis using reset_layers_frame [OF _ _ rs] assms(5-7) by simp
qed (use assms(5) in simp)

lemma graph_call_keeps:
  "graph_call g f w = (w', e) \<Longrightarrow> fl_ov w' = fl_ov w \<and> fl_records w' = fl_records w \<and> fl_history w' = fl_history w"
  by (auto simp: graph_call_def split: if_splits prod.splits)

lemma write_record_keeps:
  "write_record h p r w = (w', e) \<Longrightarrow> fl_ov w' = fl_ov w \<and> fl_history w' = fl_history w \<and> fl_graphs w' = fl_graphs w"
  by (cases "ht_record_io h") (auto simp: write_record_def split: prod.splits)

lemma persistRecordState_keeps:
  "persistRecordState h p plan ev d t w = (w', e) \<Longrightarrow>
     fl_ov w' = fl_ov w \<and> fl_history w' = fl_history w \<and> fl_graphs w' = fl_graphs w"
  using write_record_keeps by (fastforce simp: persistRecordState_def Let_def split: sum.splits)

text \<open>The tail of a rollback writes the graph, the record and the history, not the tree.\<close>

lemma rollback_record_cases:
  assumes "rollback_record g h p r w = (w', x)"
  shows "w' = w \<and> isl x \<or> (\<exists>scope w1 plan es. rollback_run h scope (rr_plan r) w = (w1, plan, es) \<and> fl_ov w' = fl_ov w1 \<and>
    (\<forall>plan'. x = Inr plan' \<longrightarrow> plan' = plan \<and> es = [] \<and>
      (\<exists>w2 w3. (if g then rollbackCheckpoint h plan w1 else (w1, None)) = (w2, None) \<and>
         persistRecordState h p plan (rr_path r) (ee_dropped (rr_events r)) (ee_truncated (rr_events r)) w2 = (w3, None) \<and>
         persistHistory h (ht_plan_history h (plan_id plan)) plan p w3 = (w', None))))"
proof (cases "persistedScope h (ht_plan_cgroup h (plan_id (rr_plan r)))")
  case (Inl e)
  then have "w' = w \<and> isl x" using assms by (auto simp: rollback_record_def)
  then show ?thesis by blast
next
  case (Inr scope)
  obtain w1 plan es where run: "rollback_run h scope (rr_plan r) w = (w1, plan, es)" by (metis prod_cases3)
  show ?thesis
  proof (cases "es = []")
    case False
    then show ?thesis using assms Inr run by (auto simp: rollback_record_def)
  next
    case True
    obtain w2 e2 where s2: "(if g then rollbackCheckpoint h plan w1 else (w1, None)) = (w2, e2)" by fastforce
    obtain w3 e3 where s3: "persistRecordState h p plan (rr_path r) (ee_dropped (rr_events r)) (ee_truncated (rr_events r)) w2 = (w3, e3)"
      by fastforce
    obtain w4 e4 where s4: "persistHistory h (ht_plan_history h (plan_id plan)) plan p w3 = (w4, e4)" by fastforce
    have ov: "fl_ov w2 = fl_ov w1" "fl_ov w3 = fl_ov w2" "fl_ov w4 = fl_ov w3"
      using s2 graph_call_keeps persistRecordState_keeps [OF s3] persistHistory_keeps [OF s4]
      by (auto simp: rollbackCheckpoint_def split: if_splits)
    have "next_step (w2, e2) (\<lambda>w2. next_step (persistRecordState h p plan (rr_path r) (ee_dropped (rr_events r)) (ee_truncated (rr_events r)) w2)
        (\<lambda>w3. next_step (persistHistory h (ht_plan_history h (plan_id plan)) plan p w3) (\<lambda>w4. (w4, Inr plan)))) = (w', x)"
      using assms Inr run True s2 by (simp add: rollback_record_def)
    then have "fl_ov w' = fl_ov w1" "\<And>plan'. x = Inr plan' \<Longrightarrow> plan' = plan \<and> e2 = None \<and> e3 = None \<and> e4 = None \<and> w' = w4"
      using s3 s4 ov by (cases e2; cases e3; cases e4; auto simp: next_step_def)+
    then show ?thesis using run True s2 s3 s4 by blast
  qed
qed

lemma rollback_run_ov:
  "rollback_run h scope plan w = (w1, plan', es) \<Longrightarrow>
     fl_ov w1 = fl_ov w \<or> (\<exists>r. Overlay_Model.Rollback (manager h plan) (fl_ov w) (rp_layout plan) = (fl_ov w1, r))"
  by (auto simp: rollback_run_def Let_def split: prod.splits if_splits)

lemma rollback_run_ok:
  assumes "rollback_run h scope plan w = (w1, plan', [])" and "live_plan plan"
  shows "plan_state plan' = Lifecycle.RolledBack \<and> plan_id plan' = plan_id plan \<and> rp_graph plan' = rp_graph plan \<and>
    (plan_state plan \<in> {Preparing, Lifecycle.RolledBack} \<or>
     Overlay_Model.Rollback (manager h plan) (fl_ov w) (rp_layout plan) = (fl_ov w1, None))"
proof -
  obtain ov r where ro: "Overlay_Model.Rollback (manager h plan) (fl_ov w) (rp_layout plan) = (ov, r)" by fastforce
  define env where "env = \<lparr>ce_fails = (\<lambda>tr a. if a = RollsBack then r \<noteq> None else ht_scope_fails h a),
                 ce_pid = 0, ce_gate = False, ce_now = ht_now h\<rparr>"
  define c where "c = \<lparr>co_overlay = True, co_starter = False, co_sensor = False, co_scope = scope,
                 co_network = False, co_refresher = False\<rparr>"
  obtain tr po es where rp: "RollbackPlan c env [] (Some plan) = (tr, po, es)" by (metis prod_cases3)
  have w1: "w1 = (if RollsBack \<in> set tr then w\<lparr>fl_ov := ov\<rparr> else w)" "plan' = the po" "es = []"
    using assms(1) ro rp by (simp_all add: rollback_run_def env_def c_def)
  have fails: "ce_fails env t RollsBack \<longleftrightarrow> r \<noteq> None" for t by (simp add: env_def)
  define q where "q = (if plan_state plan = Lifecycle.Running \<or> plan_state plan = Mounted
      then plan\<lparr>rp_run := (rp_run plan)\<lparr>run_state := Failed, updated_at := ce_now env\<rparr>\<rparr> else plan)"
  have q: "live_plan q" "plan_state q = (if plan_state plan = Lifecycle.Running \<or> plan_state plan = Mounted then Failed else plan_state plan)"
    "plan_id q = plan_id plan" "rp_graph q = rp_graph plan"
    using assms(2) by (simp_all add: q_def live_plan_def)
  have m: "(if plan_state plan = Lifecycle.Running \<or> plan_state plan = Mounted then move env plan Failed else (plan, [])) = (q, [])"
    using assms(2) by (auto simp: q_def move_ok)
  define ts where "ts = (if scope
          then (let (t1, d1) = act env [] Terminates; (t2, d2) = act env t1 ClosesScope in (t2, d1 @ d2)) else ([], []))"
  have eq: "RollbackPlan c env [] (Some plan) =
     (if plan_state q = Preparing then (let (p2, e2) = move env q Lifecycle.RolledBack in ([], Some p2, e2))
      else if plan_state q = Lifecycle.RolledBack then ([], Some q, [])
      else if plan_state q \<notin> {Failed, Lifecycle.Succeeded, Paused} then ([], Some q, [WrongState (plan_state q)])
      else (let (tr3, p3, e3) = undo env (fst ts) q {Failed, Lifecycle.Succeeded, Paused} in (tr3, Some p3, snd ts @ e3)))"
    by (simp add: RollbackPlan_def c_def m ts_def case_prod_beta)
  have "plan_state q \<in> {Preparing, Lifecycle.RolledBack, Failed, Lifecycle.Succeeded, Paused}"
  proof (rule ccontr)
    assume "\<not> ?thesis"
    then show False using rp w1(3) by (simp add: eq)
  qed
  then consider "plan_state q = Preparing" | "plan_state q = Lifecycle.RolledBack" | "plan_state q \<in> {Failed, Lifecycle.Succeeded, Paused}"
    by blast
  then show ?thesis
  proof cases
    case 1
    then have "plan_state plan = Preparing" using q(2) by (auto split: if_splits)
    moreover have "plan' = q\<lparr>rp_run := (rp_run q)\<lparr>run_state := Lifecycle.RolledBack, updated_at := ce_now env\<rparr>\<rparr>"
      using rp 1 w1(2) by (auto simp: eq move_ok q(1))
    ultimately show ?thesis using q by simp
  next
    case 2
    then have "plan_state plan = Lifecycle.RolledBack" "plan' = q" using q(2) rp w1(2) by (auto simp: eq split: if_splits)
    then show ?thesis using 2 q by simp
  next
    case 3
    obtain tr' p' e' where u: "undo env (fst ts) q {Failed, Lifecycle.Succeeded, Paused} = (tr', p', e')" by (metis prod_cases3)
    have "tr = tr'" "plan' = p'" "e' = []"
      using rp 3 u w1(2,3) by (auto simp: eq)
    moreover note undo_outcome [OF q(1) _ u]
    moreover have "plan_id p' = plan_id q \<and> rp_graph p' = rp_graph q"
      using u by (auto simp: undo_def act_def move_def Lifecycle.Transition_def split: if_splits sum.splits)
    ultimately show ?thesis using 3 fails q ro w1(1) by auto
  qed
qed
text \<open>
  A rollback of a recorded run, whatever happens in it, keeps every node of the workspace.  If it
  reports success the run is rolled back on record and in the history, and unless it was never
  mounted or was rolled back before, its writable layers are empty.
\<close>

theorem recorded_rollback_discards:
  assumes "rollback_record g h p r w = (w', x)" and "plan_id (rr_plan r) \<noteq> []"
    and "NewLayoutWithLower cwd root lower = Inr l" and "rp_layout (rr_plan r) = l" and "is_abs cwd"
    and "plain_way (ov_fs (fl_ov w)) (csegs (l_root l))" and "\<not> is_within (l_lower l) (l_root l)" and "\<not> is_within (l_root l) (l_lower l)"
  shows "(\<forall>q n. prefix (csegs (l_lower l)) q \<longrightarrow> fs_get (ov_fs (fl_ov w)) q = Some n \<longrightarrow> fs_get (ov_fs (fl_ov w')) q = Some n) \<and>
    (\<forall>plan. x = Inr plan \<longrightarrow> plan_state plan = Lifecycle.RolledBack \<and> plan_id plan = plan_id (rr_plan r) \<and>
       (\<exists>r'. fl_records w' p = StoredRecord r' \<and> rr_plan r' = plan) \<and>
       (plan_state (rr_plan r) \<notin> {Preparing, Lifecycle.RolledBack} \<longrightarrow> discarded l (ov_fs (fl_ov w'))))"
proof
  have run: "fl_ov w' = fl_ov w \<or> (\<exists>res. Overlay_Model.Rollback (manager h (rr_plan r)) (fl_ov w) l = (fl_ov w', res))"
    using rollback_record_cases [OF assms(1)] rollback_run_ov assms(4) by metis
  show "\<forall>q n. prefix (csegs (l_lower l)) q \<longrightarrow> fs_get (ov_fs (fl_ov w)) q = Some n \<longrightarrow> fs_get (ov_fs (fl_ov w')) q = Some n"
    using run Rollback_frame [OF assms(3,5,6)] disjoint_layers(5) [OF assms(3,5,7,8)] by metis
  show "\<forall>plan. x = Inr plan \<longrightarrow> plan_state plan = Lifecycle.RolledBack \<and> plan_id plan = plan_id (rr_plan r) \<and>
       (\<exists>r'. fl_records w' p = StoredRecord r' \<and> rr_plan r' = plan) \<and>
       (plan_state (rr_plan r) \<notin> {Preparing, Lifecycle.RolledBack} \<longrightarrow> discarded l (ov_fs (fl_ov w')))"
  proof (intro allI impI)
    fix plan assume x: "x = Inr plan"
    obtain scope w1 w2 w3 where rr: "rollback_run h scope (rr_plan r) w = (w1, plan, [])" "fl_ov w' = fl_ov w1"
      and pr: "persistRecordState h p plan (rr_path r) (ee_dropped (rr_events r)) (ee_truncated (rr_events r)) w2 = (w3, None)"
      and ph: "persistHistory h (ht_plan_history h (plan_id plan)) plan p w3 = (w', None)"
      using rollback_record_cases [OF assms(1)] x by fastforce
    have "live_plan (rr_plan r)" using assms(2) by (simp add: live_plan_def)
    note ok = rollback_run_ok [OF rr(1) this]
    have "\<exists>r'. fl_records w' p = StoredRecord r' \<and> rr_plan r' = plan"
      using pr persistHistory_keeps [OF ph]
      by (auto simp: persistRecordState_def Let_def write_record_None split: sum.splits)
    moreover have "discarded l (ov_fs (fl_ov w'))" if "plan_state (rr_plan r) \<notin> {Preparing, Lifecycle.RolledBack}"
      using ok that assms(4) rr(2) rollback_discards [OF assms(3,5,6)] by (auto simp: discarded_def)
    ultimately show "plan_state plan = Lifecycle.RolledBack \<and> plan_id plan = plan_id (rr_plan r) \<and>
       (\<exists>r'. fl_records w' p = StoredRecord r' \<and> rr_plan r' = plan) \<and>
       (plan_state (rr_plan r) \<notin> {Preparing, Lifecycle.RolledBack} \<longrightarrow> discarded l (ov_fs (fl_ov w')))"
      using ok by blast
  qed
qed

theorem recorded_rollback_discards_witness:
  "\<exists>w' plan. rollback_record False review_host ''/rec'' review_record review_files = (w', Inr plan) \<and>
     plan_state plan = Lifecycle.RolledBack \<and> discarded demo_plan_layout (ov_fs (fl_ov w'))"
proof -
  have "is_ok (snd (rollback_record False review_host ''/rec'' review_record review_files))" by code_simp
  then obtain w' plan where c: "rollback_record False review_host ''/rec'' review_record review_files = (w', Inr plan)"
    by (cases "rollback_record False review_host ''/rec'' review_record review_files") (auto simp: is_ok_iff)
  have l: "rp_layout (rr_plan review_record) = demo_plan_layout" "plan_id (rr_plan review_record) \<noteq> []"
    "plan_state (rr_plan review_record) = Lifecycle.Succeeded"
    by (simp_all add: review_record_def demo_run_record_def demo_plan_def plan_state_def)
  have "plain_way (ov_fs (fl_ov review_files)) (csegs (l_root demo_plan_layout))"
    by (rule plain_way_no_links) (simp add: no_links_def review_files_def review_tree_def)
  moreover have "\<not> is_within (l_lower demo_plan_layout) (l_root demo_plan_layout)"
    "\<not> is_within (l_root demo_plan_layout) (l_lower demo_plan_layout)" by code_simp+
  moreover have "is_abs ''/''" by code_simp
  ultimately show ?thesis
    using recorded_rollback_discards [OF c l(2) demo_common(4) l(1)] c l(3) by simp
qed

end
