(* ===== verification/Supervisor_Safety.thy ===== *)
theory Supervisor_Safety
  imports Supervisor
begin

text \<open>
  What the handler of \<open>Supervisor\<close> guarantees, over all its routes: a request without the bearer
  token does nothing, a change of the stores is on record, and an action runs only with a challenge
  that was handed out for it and is used once.
\<close>

subsection \<open>Who may do what\<close>

definition no_data :: "reply \<Rightarrow> bool" where
  "no_data r = ((\<exists>x. rp_body r = BResponse x) \<or> rp_body r = BNone)"

lemma no_data_simps [simp]: "no_data (answer s b t m)" "no_data (refused s m)" "no_data unauthenticated"
  "no_data (data s (BResponse x))" "no_data (data s BNone)"
  by (simp_all add: no_data_def answer_def refused_def unauthenticated_def data_def)

lemmas route_defs = serve_capabilities_def serve_history_def serve_prune_def serve_sessions_def serve_policies_def
  serve_workspaces_def serve_bundles_def serve_leases_def serve_audit_def serve_detail_def serve_events_def
  serve_challenges_def serve_registry_def serve_fetch_def serve_revoke_def serve_actions_def

text \<open>Routes that want a bearer token at once, and those that want it only with \<open>RequireAuth\<close> or for
  another method.\<close>

lemma closed_routes:
  assumes "\<not> authorized sv rq"
  shows "serve_prune sv en rq w = Some (w, unauthenticated)" "serve_sessions sv en rq w = Some (w, unauthenticated)"
    "serve_leases sv en rq w = Some (w, unauthenticated)" "serve_audit sv rq w = Some (w, unauthenticated)"
    "serve_events sv en rq w = Some (w, unauthenticated)" "serve_challenges sv en rq w = Some (w, unauthenticated)"
    "serve_registry sv rq w = Some (w, unauthenticated)" "serve_fetch sv rq w = Some (w, unauthenticated)"
    "serve_revoke sv rq w = Some (w, unauthenticated)" "serve_actions sv en rq w = Some (w, unauthenticated)"
  using assms by (simp_all add: route_defs)

definition harmless :: "'a server \<Rightarrow> 'a world \<Rightarrow> ('a world \<times> reply) option \<Rightarrow> bool" where
  "harmless sv w x = (\<exists>r. x = Some (w, r) \<and> (sv_require_auth sv \<longrightarrow> no_data r))"

lemma harmless_answers [simp]:
  "harmless sv w (Some (w, answer s b t m))" "harmless sv w (Some (w, refused s m))" "harmless sv w (Some (w, unauthenticated))"
  "harmless sv w (Some (w, data s BNone))"
  by (simp_all add: harmless_def)

lemma harmless_data: "\<not> sv_require_auth sv \<Longrightarrow> harmless sv w (Some (w, r))"
  by (simp add: harmless_def)

lemma open_routes:
  assumes "\<not> authorized sv rq"
  shows "harmless sv w (serve_capabilities sv rq w)" "harmless sv w (serve_history sv rq w)"
    "harmless sv w (serve_policies sv en rq w)" "harmless sv w (serve_workspaces sv en rq w)"
    "harmless sv w (serve_bundles sv en rq w)" "harmless sv w (serve_detail sv en rq w)"
  using assms
  by (simp_all add: route_defs may_read_def harmless_data with_record_def Let_def split: sum.split)

text \<open>
  Without the bearer token nothing happens: a request that does not carry it changes no part
  of the world, and if the server requires authentication for reading, the answer carries no data
  either, on every path and for every method.
\<close>

theorem unauthorized_changes_nothing:
  assumes "\<not> authorized sv rq"
  shows "\<exists>r. Handler sv en rq w = Some (w, r) \<and> (sv_require_auth sv \<longrightarrow> no_data r)"
proof -
  have "harmless sv w (Handler sv en rq w)"
    unfolding Handler_def Let_def using closed_routes [OF assms] open_routes [OF assms] by simp
  then show ?thesis by (simp add: harmless_def)
qed

subsection \<open>One audit entry for each change\<close>

definition appended :: "'a server \<Rightarrow> env \<Rightarrow> 'a world \<Rightarrow> 'a world \<Rightarrow> bool" where
  "appended sv en w w' =
     (\<exists>a. au_time a = en_now en \<and> w_audit w' = fst (appendAudit (sv_stamp sv) (en_audit en) (sv_audit sv) a (w_audit w)))"

lemma recordAudit_world [simp]:
  "w_history (recordAudit sv en a i r e w) = w_history w" "w_challenges (recordAudit sv en a i r e w) = w_challenges w"
  "w_config (recordAudit sv en a i r e w) = w_config w" "w_sessions (recordAudit sv en a i r e w) = w_sessions w"
  "w_broker (recordAudit sv en a i r e w) = w_broker w" "w_runtime (recordAudit sv en a i r e w) = w_runtime w"
  by (simp_all add: recordAudit_def)

lemma recordAudit_appends:
  "\<not> blank (sv_audit sv) \<Longrightarrow> w_audit w1 = w_audit w \<Longrightarrow> appended sv en w (recordAudit sv en a i r e w1)"
  unfolding appended_def recordAudit_def
  by (intro exI [of _ "\<lparr>au_time = en_now en, au_action = a, au_run = i, au_state = re_state r, au_ok = re_ok r,
         au_message = re_message r, au_error = e\<rparr>"]) simp

text \<open>A route keeps the changes of the world on record: what it changes of the stores is audited by
  one entry, and no route writes more than one.\<close>

definition same_stores :: "'a world \<Rightarrow> 'a world \<Rightarrow> bool" where
  "same_stores w w' = (w_history w' = w_history w \<and> w_config w' = w_config w \<and> w_sessions w' = w_sessions w \<and>
     w_broker w' = w_broker w)"

definition on_record :: "'a server \<Rightarrow> env \<Rightarrow> 'a world \<Rightarrow> ('a world \<times> reply) option \<Rightarrow> bool" where
  "on_record sv en w x =
     (\<forall>w' r. x = Some (w', r) \<longrightarrow>
        appended sv en w w' \<or> same_stores w w' \<and> w_audit w' = w_audit w)"

lemma on_record_same: "on_record sv en w (Some (w, r))" "on_record sv en w None"
  by (simp_all add: on_record_def same_stores_def)

lemma on_record_audited:
  "\<not> blank (sv_audit sv) \<Longrightarrow> w_audit w1 = w_audit w \<Longrightarrow> on_record sv en w (audited sv en a i s r e w1)"
  "\<not> blank (sv_audit sv) \<Longrightarrow> w_audit w1 = w_audit w \<Longrightarrow> on_record sv en w (Some (recordAudit sv en a i r e w1, b))"
  by (simp_all add: on_record_def audited_def recordAudit_appends)

lemma configured_cases:
  assumes "configured sv en p a r w = (w', e)" and "\<not> blank (sv_audit sv)"
  shows "e = None \<and> appended sv en w w' \<or> e \<noteq> None \<and> w_audit w' = w_audit w"
  using assms(1) recordAudit_appends [where w = w and sv = sv and en = en, OF assms(2)]
  by (auto simp: configured_def split: option.splits prod.splits)

lemma importSigned_audit: "importSignedPolicy sv en sg w = (w', e) \<Longrightarrow> w_audit w' = w_audit w"
  by (auto simp: importSignedPolicy_def split: option.splits sum.splits prod.splits)

lemma on_record_configured:
  assumes "\<not> blank (sv_audit sv)"
  shows "on_record sv en w (case configured sv en p a r w of
      (w', Some e) \<Rightarrow> audited sv en b i s (f e) (g e) w' | (w', None) \<Rightarrow> Some (w', rep))"
proof -
  obtain w' e where c: "configured sv en p a r w = (w', e)" by fastforce
  show ?thesis
  proof (cases e)
    case None
    then have "appended sv en w w'" using configured_cases [OF c assms] by simp
    then show ?thesis using c None by (simp add: on_record_def)
  next
    case (Some x)
    then have "w_audit w' = w_audit w" using configured_cases [OF c assms] by simp
    then show ?thesis using c Some assms by (simp add: on_record_audited)
  qed
qed

lemma on_record_routes:
  assumes "\<not> blank (sv_audit sv)"
  shows "on_record sv en w (serve_capabilities sv rq w)" "on_record sv en w (serve_history sv rq w)"
    "on_record sv en w (serve_prune sv en rq w)" "on_record sv en w (serve_sessions sv en rq w)"
    "on_record sv en w (serve_policies sv en rq w)" "on_record sv en w (serve_workspaces sv en rq w)"
    "on_record sv en w (serve_bundles sv en rq w)" "on_record sv en w (serve_leases sv en rq w)"
    "on_record sv en w (serve_audit sv rq w)" "on_record sv en w (serve_detail sv en rq w)"
    "on_record sv en w (serve_events sv en rq w)" "on_record sv en w (serve_challenges sv en rq w)"
    "on_record sv en w (serve_registry sv rq w)" "on_record sv en w (serve_fetch sv rq w)"
    "on_record sv en w (serve_revoke sv rq w)" "on_record sv en w (serve_actions sv en rq w)"
proof -
  note rules = on_record_same on_record_audited [OF assms]
  note splits = option.split sum.split prod.split
  have run: "on_record sv en w (run_action sv en q w1)" if "w_audit w1 = w_audit w" for q w1
    using that by (simp add: run_action_def rules split: splits)
  have conf: "on_record sv en w (configured_reply)" if "configured_reply = (case configured sv en p a r w of
      (w', Some e) \<Rightarrow> audited sv en b i s (f e) (g e) w' | (w', None) \<Rightarrow> Some (w', rep))"
    for configured_reply p a r b i s f g rep
    unfolding that by (rule on_record_configured [OF assms])
  show "on_record sv en w (serve_capabilities sv rq w)" "on_record sv en w (serve_history sv rq w)"
    "on_record sv en w (serve_audit sv rq w)"
    by (simp_all add: route_defs rules split: splits)
  show "on_record sv en w (serve_detail sv en rq w)" "on_record sv en w (serve_events sv en rq w)"
    by (simp_all add: route_defs rules with_record_def Let_def split: splits)
  show "on_record sv en w (serve_registry sv rq w)" "on_record sv en w (serve_fetch sv rq w)"
    by (simp_all add: route_defs rules split: splits)
  show "on_record sv en w (serve_revoke sv rq w)"
    by (simp add: route_defs rules split: splits) (simp add: on_record_def same_stores_def)
  show "on_record sv en w (serve_challenges sv en rq w)"
    by (simp add: route_defs rules split: splits) (simp add: on_record_def same_stores_def)
  show "on_record sv en w (serve_prune sv en rq w)"
    by (simp add: route_defs rules split: splits)
  show "on_record sv en w (serve_sessions sv en rq w)"
    by (simp add: route_defs rules split: splits)
  show "on_record sv en w (serve_leases sv en rq w)"
    by (simp add: route_defs rules split: splits)
  show "on_record sv en w (serve_actions sv en rq w)"
    by (simp add: route_defs rules run split: splits)
  show "on_record sv en w (serve_bundles sv en rq w)"
    using importSigned_audit [of sv en _ w] by (auto simp: serve_bundles_def rules Let_def split: splits)
  show "on_record sv en w (serve_policies sv en rq w)"
    by (simp add: serve_policies_def rules Let_def on_record_configured [OF assms] split: option.split sum.split)
  show "on_record sv en w (serve_workspaces sv en rq w)"
    by (simp add: serve_workspaces_def rules Let_def on_record_configured [OF assms] split: option.split sum.split)
qed

text \<open>The request whose action is run, if any.\<close>

definition executed :: "'a server \<Rightarrow> env \<Rightarrow> http_request \<Rightarrow> 'a world \<Rightarrow> Request option" where
  "executed sv en rq w =
     (if \<not> blank (sv_cors sv) \<and> hq_method rq = ''OPTIONS'' \<or> hq_path rq \<noteq> ''/v1/actions'' \<or> \<not> authorized sv rq \<or>
         hq_method rq \<noteq> ''POST'' \<or> sv_actions sv = None then None
      else (case dc_request (sv_codecs sv) (hq_body rq) of
              None \<Rightarrow> None
            | Some q \<Rightarrow>
                if supervisor_Validate (qr_action q) = Inr () \<and>
                   (qr_action q = ''status'' \<or>
                    is_ok (snd (challenge_consume (Some (w_challenges w)) (qr_token q) (qr_action q) (qr_run q) (en_now en))))
                then Some q else None))"

lemma executed_runs:
  assumes "executed sv en rq w = Some q"
  shows "Handler sv en rq w = run_action sv en q
    (if qr_action q = ''status'' then w
     else w\<lparr>w_challenges := the (fst (challenge_consume (Some (w_challenges w)) (qr_token q) (qr_action q) (qr_run q) (en_now en)))\<rparr>)"
proof -
  obtain cs e where c: "challenge_consume (Some (w_challenges w)) (qr_token q) (qr_action q) (qr_run q) (en_now en) = (cs, e)"
    by fastforce
  have h: "Handler sv en rq w = serve_actions sv en rq w" "authorized sv rq" "hq_method rq = ''POST''"
    "dc_request (sv_codecs sv) (hq_body rq) = Some q" "supervisor_Validate (qr_action q) = Inr ()"
    "qr_action q = ''status'' \<or> e = Inr ()"
    using assms c by (auto simp: executed_def Handler_def is_ok_iff split: if_splits option.splits)
  show ?thesis unfolding h(1) using h(2-) c by (auto simp: serve_actions_def)
qed

lemma run_action_appends:
  assumes "\<not> blank (sv_audit sv)" and "w_audit w1 = w_audit w" and "run_action sv en q w1 = Some (w', r)"
  shows "appended sv en w w'"
  using assms recordAudit_appends [where w = w and sv = sv and en = en, OF assms(1)]
  by (auto simp: run_action_def audited_def split: option.splits sum.splits prod.splits)


subsection \<open>Every action is confirmed once\<close>

text \<open>The challenge events of a request: the challenge an answer hands out, and the token an action
  request with a valid action presents.\<close>

definition presented :: "'a server \<Rightarrow> http_request \<Rightarrow> Request option" where
  "presented sv rq =
     (if \<not> blank (sv_cors sv) \<and> hq_method rq = ''OPTIONS'' \<or> hq_path rq \<noteq> ''/v1/actions'' \<or> \<not> authorized sv rq \<or>
         hq_method rq \<noteq> ''POST'' then None
      else (case dc_request (sv_codecs sv) (hq_body rq) of
              None \<Rightarrow> None
            | Some q \<Rightarrow>
                if supervisor_Validate (qr_action q) = Inr () \<and> qr_action q \<noteq> ''status'' \<and> qr_token q \<noteq> []
                then Some q else None))"

definition handed_out :: "reply \<Rightarrow> (actionChallenge, string \<times> string \<times> int) token_event list" where
  "handed_out r =
     (case rp_body r of
        BChallenge c \<Rightarrow> [Issued (cr_token c) \<lparr>ac_action = cr_action c, ac_run = cr_run c, ac_expires = cr_expires c\<rparr>]
      | _ \<Rightarrow> [])"

definition token_events ::
  "'a server \<Rightarrow> env \<Rightarrow> http_request \<Rightarrow> reply \<Rightarrow> (actionChallenge, string \<times> string \<times> int) token_event list" where
  "token_events sv en rq r =
     handed_out r @ (case presented sv rq of
                       None \<Rightarrow> []
                     | Some q \<Rightarrow> [Presented (qr_token q) (qr_action q, qr_run q, en_now en)])"

definition action_of :: "'a server \<Rightarrow> env \<Rightarrow> http_request \<Rightarrow> 'a world \<Rightarrow> (string \<times> string \<times> string \<times> int) list" where
  "action_of sv en rq w =
     (case executed sv en rq w of
        None \<Rightarrow> []
      | Some q \<Rightarrow> if qr_action q = ''status'' then [] else [(qr_token q, qr_action q, qr_run q, en_now en)])"

text \<open>Requests served one after the other, up to the first that never returns.\<close>

fun served ::
  "'a server \<Rightarrow> (env \<times> http_request) list \<Rightarrow> 'a world \<Rightarrow>
     (actionChallenge, string \<times> string \<times> int) token_event list \<times> (string \<times> string \<times> string \<times> int) list" where
  "served sv [] w = ([], [])"
| "served sv ((en, rq) # rs) w =
     (case Handler sv en rq w of
        None \<Rightarrow> ([], [])
      | Some (w', r) \<Rightarrow>
          (let (es, xs) = served sv rs w' in (token_events sv en rq r @ es, action_of sv en rq w @ xs)))"

definition keeps_tokens :: "'a world \<Rightarrow> ('a world \<times> reply) option \<Rightarrow> bool" where
  "keeps_tokens w x = (\<forall>w' r. x = Some (w', r) \<longrightarrow> w_challenges w' = w_challenges w \<and> (\<forall>c. rp_body r \<noteq> BChallenge c))"

lemma keeps_tokens_answers:
  "keeps_tokens w None" "w_challenges w1 = w_challenges w \<Longrightarrow> keeps_tokens w (Some (w1, answer s b t m))"
  "w_challenges w1 = w_challenges w \<Longrightarrow> keeps_tokens w (Some (w1, refused s m))"
  "keeps_tokens w (Some (w, unauthenticated))"
  "w_challenges w1 = w_challenges w \<Longrightarrow> (\<forall>c. bd \<noteq> BChallenge c) \<Longrightarrow> keeps_tokens w (Some (w1, data s bd))"
  "w_challenges w1 = w_challenges w \<Longrightarrow> keeps_tokens w (audited sv en a i s x e w1)"
  by (auto simp: keeps_tokens_def answer_def refused_def unauthenticated_def data_def audited_def)

lemma configured_tokens: "configured sv en p a r w = (w', e) \<Longrightarrow> w_challenges w' = w_challenges w"
  by (auto simp: configured_def split: option.splits prod.splits)

lemma importSigned_tokens: "importSignedPolicy sv en sg w = (w', e) \<Longrightarrow> w_challenges w' = w_challenges w"
  by (auto simp: importSignedPolicy_def split: option.splits sum.splits prod.splits)

lemma keeps_tokens_configured:
  "keeps_tokens w (case configured sv en p a r w of
      (w', Some e) \<Rightarrow> audited sv en b i s (f e) (g e) w' | (w', None) \<Rightarrow> Some (w', answer t x y z))"
  using configured_tokens [of sv en p a r w] by (auto simp: keeps_tokens_answers split: prod.split option.split)

lemma keeps_tokens_routes:
  "keeps_tokens w (serve_capabilities sv rq w)" "keeps_tokens w (serve_history sv rq w)"
  "keeps_tokens w (serve_prune sv en rq w)" "keeps_tokens w (serve_sessions sv en rq w)"
  "keeps_tokens w (serve_policies sv en rq w)" "keeps_tokens w (serve_workspaces sv en rq w)"
  "keeps_tokens w (serve_bundles sv en rq w)" "keeps_tokens w (serve_leases sv en rq w)"
  "keeps_tokens w (serve_audit sv rq w)" "keeps_tokens w (serve_detail sv en rq w)"
  "keeps_tokens w (serve_events sv en rq w)" "keeps_tokens w (serve_registry sv rq w)"
  "keeps_tokens w (serve_fetch sv rq w)" "keeps_tokens w (serve_revoke sv rq w)"
proof -
  note rules = keeps_tokens_answers
  note splits = option.split sum.split prod.split
  show "keeps_tokens w (serve_capabilities sv rq w)" "keeps_tokens w (serve_history sv rq w)"
    "keeps_tokens w (serve_audit sv rq w)" "keeps_tokens w (serve_registry sv rq w)"
    "keeps_tokens w (serve_fetch sv rq w)" "keeps_tokens w (serve_revoke sv rq w)" "keeps_tokens w (serve_prune sv en rq w)"
    "keeps_tokens w (serve_sessions sv en rq w)" "keeps_tokens w (serve_leases sv en rq w)"
    by (simp_all add: route_defs rules split: splits)
  have "\<forall>c. rp_body (detail_reply sv en i p) \<noteq> BChallenge c" "\<forall>c. rp_body (event_reply sv en rq i p) \<noteq> BChallenge c" for i p
    by (simp_all add: detail_reply_def event_reply_def answer_def refused_def data_def split: splits bool.split)
  then show "keeps_tokens w (serve_detail sv en rq w)" "keeps_tokens w (serve_events sv en rq w)"
    by (simp_all add: serve_detail_def serve_events_def with_record_def Let_def rules split: splits)
      (simp_all add: keeps_tokens_def)
  show "keeps_tokens w (serve_policies sv en rq w)"
    by (simp add: serve_policies_def rules Let_def keeps_tokens_configured split: option.split sum.split)
  show "keeps_tokens w (serve_workspaces sv en rq w)"
    by (simp add: serve_workspaces_def rules Let_def keeps_tokens_configured split: option.split sum.split)
  show "keeps_tokens w (serve_bundles sv en rq w)"
    using importSigned_tokens [of sv en _ w] by (auto simp: serve_bundles_def rules Let_def split: splits)
qed

definition after_tokens ::
  "(actionChallenge, string \<times> string \<times> int) token_event list \<Rightarrow> challenges \<Rightarrow> challenges" where
  "after_tokens es m = foldl (\<lambda>m e. case e of Issued t c \<Rightarrow> challenge_put t c m
     | Presented t q \<Rightarrow> fst (present_challenge t q m)) m es"

lemma accepted_append:
  "accepted challenge_put present_challenge m (es @ fs) =
     accepted challenge_put present_challenge m es @ accepted challenge_put present_challenge (after_tokens es m) fs"
  by (induction challenge_put present_challenge m es rule: accepted.induct)
    (auto simp: after_tokens_def Let_def split: prod.split)

lemma handed_out_none: "\<forall>c. rp_body r \<noteq> BChallenge c \<Longrightarrow> handed_out r = []"
  by (simp add: handed_out_def split: body.split)

text \<open>One request is the events of the challenge store, and runs only what the store accepts.\<close>

definition on_tokens :: "'a server \<Rightarrow> env \<Rightarrow> http_request \<Rightarrow> 'a world \<Rightarrow> 'a world \<Rightarrow> reply \<Rightarrow> bool" where
  "on_tokens sv en rq w w' r =
     (w_challenges w' = after_tokens (token_events sv en rq r) (w_challenges w) \<and>
      set (action_of sv en rq w) \<subseteq>
        set (accepted challenge_put present_challenge (w_challenges w) (token_events sv en rq r)) \<and>
      subseq (action_of sv en rq w)
        (accepted challenge_put present_challenge (w_challenges w) (token_events sv en rq r)))"

lemma on_tokens_kept:
  assumes "keeps_tokens w (Handler sv en rq w)" and "presented sv rq = None" and "Handler sv en rq w = Some (w', r)"
  shows "on_tokens sv en rq w w' r"
proof -
  have "executed sv en rq w = None \<or> action_of sv en rq w = []"
  proof (cases "executed sv en rq w")
    case (Some q)
    have "qr_action q = ''status''"
    proof (rule ccontr)
      assume "qr_action q \<noteq> ''status''"
      moreover have "qr_token q \<noteq> []"
        using Some calculation by (auto simp: executed_def challenge_consume_def split: if_splits option.splits)
      ultimately have "presented sv rq = Some q"
        using Some by (auto simp: executed_def presented_def split: if_splits option.splits)
      then show False using assms(2) by simp
    qed
    then show ?thesis using Some by (simp add: action_of_def)
  qed simp
  then have "action_of sv en rq w = []" by (auto simp: action_of_def)
  then show ?thesis
    using assms by (auto simp: on_tokens_def token_events_def keeps_tokens_def handed_out_none after_tokens_def)
qed

lemma run_action_tokens:
  "run_action sv en q w = Some (w', r) \<Longrightarrow> w_challenges w' = w_challenges w \<and> (\<forall>c. rp_body r \<noteq> BChallenge c)"
  by (auto simp: run_action_def audited_def data_def split: option.splits sum.splits prod.splits)

lemma on_tokens_challenges:
  assumes "serve_challenges sv en rq w = Some (w', r)"
  shows "w_challenges w' = after_tokens (handed_out r) (w_challenges w) \<and>
    accepted challenge_put present_challenge (w_challenges w) (handed_out r) = []"
  using assms
  by (auto simp: serve_challenges_def handed_out_def after_tokens_def challenge_issue_def answer_def refused_def
      unauthenticated_def data_def Let_def split: if_splits option.splits prod.splits sum.splits)

lemma presented_cases:
  "presented sv rq = Some q \<Longrightarrow>
     Handler sv en rq w = serve_actions sv en rq w \<and> authorized sv rq \<and> hq_method rq = ''POST'' \<and>
     dc_request (sv_codecs sv) (hq_body rq) = Some q \<and> supervisor_Validate (qr_action q) = Inr () \<and>
     qr_action q \<noteq> ''status'' \<and> qr_token q \<noteq> []"
  by (auto simp: presented_def Handler_def split: if_splits option.splits)

lemma consume_present:
  "challenge_consume (Some m) t a r n = (cs, e) \<Longrightarrow> present_challenge t (a, r, n) m = (the cs, is_ok e)"
  by (simp add: present_challenge_def)

text \<open>A request that presents a token: the store forgets it, and the action runs if it was accepted.\<close>

lemma on_tokens_presented:
  assumes "presented sv rq = Some q" and "Handler sv en rq w = Some (w', r)"
  shows "on_tokens sv en rq w w' r"
proof -
  note pre = presented_cases [OF assms(1), of en w]
  obtain cs e where c: "challenge_consume (Some (w_challenges w)) (qr_token q) (qr_action q) (qr_run q) (en_now en) = (cs, e)"
    by fastforce
  have h: "serve_actions sv en rq w = Some (w', r)" using assms(2) pre by simp
  have w': "w_challenges w' = the cs \<and> handed_out r = []"
  proof (cases e)
    case (Inl x)
    then show ?thesis using h pre c
      by (auto simp: serve_actions_def audited_def data_def handed_out_def)
  next
    case (Inr u)
    then have "run_action sv en q (w\<lparr>w_challenges := the cs\<rparr>) = Some (w', r)"
      using h pre c by (simp add: serve_actions_def)
    from run_action_tokens [OF this] show ?thesis by (simp add: handed_out_none)
  qed
  then have ev: "token_events sv en rq r = [Presented (qr_token q) (qr_action q, qr_run q, en_now en)]"
    using assms(1) by (simp add: token_events_def)
  have acc: "accepted challenge_put present_challenge (w_challenges w) (token_events sv en rq r) =
      (if is_ok e then [(qr_token q, qr_action q, qr_run q, en_now en)] else [])"
    using consume_present [OF c] by (simp add: ev)
  have "action_of sv en rq w \<in> {[], [(qr_token q, qr_action q, qr_run q, en_now en)]}" "\<not> is_ok e \<Longrightarrow> action_of sv en rq w = []"
    using pre c by (auto simp: action_of_def executed_def split: option.split)
  then show ?thesis
    using w' consume_present [OF c] acc by (auto simp: on_tokens_def ev after_tokens_def)
qed

text \<open>Without a token in it, a request leaves the pending challenges alone, unless it asks for one.\<close>

lemma actions_keep_tokens:
  assumes "\<not> (\<exists>q. dc_request (sv_codecs sv) (hq_body rq) = Some q \<and> supervisor_Validate (qr_action q) = Inr () \<and>
      qr_action q \<noteq> ''status'' \<and> qr_token q \<noteq> [] \<and> authorized sv rq \<and> hq_method rq = ''POST'')"
  shows "keeps_tokens w (serve_actions sv en rq w)"
proof -
  have run: "keeps_tokens w (run_action sv en q w1)" if "w_challenges w1 = w_challenges w" for q w1
    using that run_action_tokens [of sv en q w1] by (auto simp: keeps_tokens_def)
  have none: "challenge_consume (Some m) [] a i n = (Some m, Inl ChallengeRequired)" for m a i n
    by (simp add: challenge_consume_def)
  show ?thesis
  proof (cases "dc_request (sv_codecs sv) (hq_body rq)")
    case (Some q)
    consider "\<not> authorized sv rq" | "hq_method rq \<noteq> ''POST''" | "\<exists>e. supervisor_Validate (qr_action q) = Inl e"
      | "supervisor_Validate (qr_action q) = Inr ()" "qr_action q = ''status''"
      | "supervisor_Validate (qr_action q) = Inr ()" "qr_token q = []"
      using assms Some try_cases [of "supervisor_Validate (qr_action q)"] by blast
    then show ?thesis
      by cases (auto simp: serve_actions_def Some keeps_tokens_answers run none)
  qed (simp add: serve_actions_def keeps_tokens_answers)
qed

lemma handler_on_tokens:
  assumes "Handler sv en rq w = Some (w', r)"
  shows "on_tokens sv en rq w w' r"
proof (cases "presented sv rq")
  case (Some q)
  then show ?thesis using on_tokens_presented assms by blast
next
  case None
  show ?thesis
  proof (cases "hq_path rq = ''/v1/action-challenges'' \<and> \<not> (\<not> blank (sv_cors sv) \<and> hq_method rq = ''OPTIONS'')")
    case True
    then have "serve_challenges sv en rq w = Some (w', r)" using assms by (auto simp: Handler_def)
    moreover have "action_of sv en rq w = []" using True by (simp add: action_of_def executed_def)
    ultimately show ?thesis using on_tokens_challenges [of sv en rq w w' r] None by (simp add: on_tokens_def token_events_def)
  next
    case False
    have act: "keeps_tokens w (serve_actions sv en rq w)"
      if "hq_path rq = ''/v1/actions''" "\<not> (\<not> blank (sv_cors sv) \<and> hq_method rq = ''OPTIONS'')"
      using that None by (intro actions_keep_tokens) (auto simp: presented_def split: if_splits option.splits)
    have "keeps_tokens w (Handler sv en rq w)"
    proof (cases "\<not> blank (sv_cors sv) \<and> hq_method rq = ''OPTIONS''")
      case True
      then show ?thesis by (simp add: Handler_def keeps_tokens_answers)
    next
      case nocors: False
      then have "hq_path rq \<noteq> ''/v1/action-challenges''" using False by simp
      then show ?thesis
        unfolding Handler_def Let_def using nocors act by (simp add: keeps_tokens_routes keeps_tokens_answers)
    qed
    then show ?thesis using on_tokens_kept None assms by blast
  qed
qed

lemma served_accepted:
  "subseq (snd (served sv rs w)) (accepted challenge_put present_challenge (w_challenges w) (fst (served sv rs w)))"
proof (induction rs arbitrary: w)
  case (Cons x rs)
  obtain en rq where x: "x = (en, rq)" by fastforce
  show ?case
  proof (cases "Handler sv en rq w")
    case None
    then show ?thesis by (simp add: x)
  next
    case (Some y)
    then obtain w' r where h: "Handler sv en rq w = Some (w', r)" by (cases y) simp
    obtain es xs where rest: "served sv rs w' = (es, xs)" by fastforce
    have "on_tokens sv en rq w w' r" using handler_on_tokens h by blast
    then show ?thesis
      using Cons.IH [of w'] h rest
      by (simp add: x accepted_append on_tokens_def list_emb_append_mono)
  qed
qed simp

text \<open>
  An action runs only if it was asked for before, and once: over every sequence of requests
  to a supervisor without pending challenges, each rollback, recovery or commit that runs carries a
  token that an earlier answer handed out for that action and that run and that has not expired, and
  a token runs at most as many actions as it was handed out.
\<close>

theorem actions_run_once_per_challenge:
  assumes "w_challenges w = Map.empty"
  shows "length (filter (\<lambda>a. fst a = t) (snd (served sv rs w))) \<le> issues t (fst (served sv rs w)) \<and>
    (\<forall>(t, action, runID, now) \<in> set (snd (served sv rs w)).
       \<exists>c. Issued t c \<in> set (fst (served sv rs w)) \<and> ac_action c = action \<and> ac_run c = runID \<and> now < ac_expires c)"
proof
  let ?es = "fst (served sv rs w)"
  have sub: "subseq (snd (served sv rs w)) (accepted challenge_put present_challenge Map.empty ?es)"
    using served_accepted [of sv rs w] assms by simp
  have "length (filter (\<lambda>a. fst a = t) (snd (served sv rs w))) \<le>
      length (filter (\<lambda>a. fst a = t) (accepted challenge_put present_challenge Map.empty ?es))"
    using list_emb_length [OF subseq_filter [OF sub, of "\<lambda>a. fst a = t"]] .
  also have "\<dots> \<le> issues t ?es" using ch.accepted_at_most_issued [of t Map.empty ?es] by simp
  finally show "length (filter (\<lambda>a. fst a = t) (snd (served sv rs w))) \<le> issues t ?es" .
  show "\<forall>(t, action, runID, now) \<in> set (snd (served sv rs w)).
       \<exists>c. Issued t c \<in> set ?es \<and> ac_action c = action \<and> ac_run c = runID \<and> now < ac_expires c"
  proof (clarify)
    fix t action runID now assume "(t, action, runID, now) \<in> set (snd (served sv rs w))"
    then have "(t, action, runID, now) \<in> set (accepted challenge_put present_challenge Map.empty ?es)"
      by (rule list_emb_set [OF sub]) simp
    then show "\<exists>c. Issued t c \<in> set ?es \<and> ac_action c = action \<and> ac_run c = runID \<and> now < ac_expires c"
      by (auto dest!: ch.accepted_fits simp: challenge_fits_def)
  qed
qed

subsection \<open>Witnesses\<close>

definition demo_codecs :: codecs where
  "demo_codecs = \<lparr>dc_prune = (\<lambda>_. None), dc_session = (\<lambda>_. None), dc_policy = (\<lambda>_. None), dc_workspace = (\<lambda>_. None),
     dc_signed = (\<lambda>_. None), dc_credential = (\<lambda>_. None), dc_challenge = (\<lambda>_. Some (''commit'', ''r'')),
     dc_fetch = (\<lambda>_. None), dc_request = (\<lambda>s. Some \<lparr>qr_action = ''commit'', qr_run = ''r'', qr_workspace = [], qr_policy = [],
       qr_confirmation = ''COMMIT'', qr_token = s\<rparr>), dc_audit = (\<lambda>_. None), dc_valid = (\<lambda>_. True), dc_values = (\<lambda>_. [])\<rparr>"

text \<open>A server whose action counts, behind the token \<open>k\<close>.\<close>

definition demo_server :: "nat server" where
  "demo_server = \<lparr>sv_token = ''k'', sv_audit = ''/a'', sv_require_auth = True, sv_cors = [], sv_sessions = [],
     sv_trusted = [], sv_crypto = demo_crypto, sv_broker = None,
     sv_actions = Some (\<lambda>q n. (Suc n, Inr (resp True ''committed'' []))), sv_registry = None,
     sv_codecs = demo_codecs, sv_sort = by_update, sv_text = (\<lambda>_. ''refused''), sv_stamp = (\<lambda>_. ''0'')\<rparr>"

definition demo_world :: "nat world" where
  "demo_world = \<lparr>w_history = demo_history, w_audit = LogMissing, w_challenges = Map.empty, w_config = None,
     w_sessions = \<lparr>ss_path = [], ss_file = SMissing\<rparr>, w_broker = Map.empty, w_runtime = 0\<rparr>"

definition demo_env :: env where
  "demo_env = \<lparr>en_now = 5, en_random = Some ''x'', en_history = \<lparr>io_mkdir = True, io_write = True, io_rename = True\<rparr>,
     en_config = all_io, en_session = \<lparr>se_mkdir_ok = True, se_lock = (\<lambda>_. LockCreated), se_write_ok = True, se_clock = 5,
       se_random = None\<rparr>, en_audit = \<lparr>ai_mkdir = True, ai_open = True, ai_bytes = 4096\<rparr>, en_native = (\<lambda>_. NMissing),
     en_record = (\<lambda>_. NoRecord), en_files = (\<lambda>_. LogMissing), en_rounds = [], en_native_rounds = [],
     en_load = (\<lambda>_. None), en_build = (\<lambda>_. None)\<rparr>"

definition demo_http :: "string \<Rightarrow> string \<Rightarrow> string \<Rightarrow> http_request" where
  "demo_http auth p b = \<lparr>hq_method = ''POST'', hq_path = p, hq_auth = auth, hq_query = (\<lambda>_. []), hq_body = b\<rparr>"

lemma demo_authorized: "authorized demo_server (demo_http ''Bearer k'' p b)" "\<not> authorized demo_server (demo_http ''Bearer j'' p b)"
proof -
  have "trim_space ''Bearer k'' = ''Bearer k''" "trim_space ''k'' = ''k''" "trim_space ''Bearer j'' = ''Bearer j''" "trim_space ''j'' = ''j''"
    by (code_simp, code_simp, code_simp, code_simp)
  then show "authorized demo_server (demo_http ''Bearer k'' p b)" "\<not> authorized demo_server (demo_http ''Bearer j'' p b)"
    by (simp_all add: authorized_def demo_server_def demo_http_def trim_prefix_def Let_def)
qed

lemma demo_blank: "\<not> blank ''/a''" "blank []"
  by (code_simp, simp)

theorem unauthorized_changes_nothing_witness:
  "\<exists>r. Handler demo_server demo_env (demo_http ''Bearer j'' ''/v1/actions'' ''t'') demo_world = Some (demo_world, r) \<and> no_data r"
proof -
  have "sv_require_auth demo_server" by (simp add: demo_server_def)
  then show ?thesis
    using unauthorized_changes_nothing [OF demo_authorized(2) [of "''/v1/actions''" "''t''"], of demo_env demo_world] by auto
qed

definition issued_challenge :: actionChallenge where
  "issued_challenge = \<lparr>ac_action = ''commit'', ac_run = ''r'', ac_expires = 5 + actionChallengeTTL\<rparr>"

definition asked_world :: "nat world" where
  "asked_world = demo_world\<lparr>w_challenges := [hex_encode ''x'' \<mapsto> issued_challenge]\<rparr>"

lemma demo_issue:
  "Handler demo_server demo_env (demo_http ''Bearer k'' ''/v1/action-challenges'' []) demo_world =
     Some (asked_world, data 201 (BChallenge \<lparr>cr_token = hex_encode ''x'', cr_action = ''commit'', cr_run = ''r'',
       cr_expires = 5 + actionChallengeTTL\<rparr>))"
  using demo_authorized(1) [of "''/v1/action-challenges''" "[]"]
  by (simp add: Handler_def serve_challenges_def demo_http_def demo_server_def demo_codecs_def demo_blank
      supervisor_Validate_def challenge_issue_def demo_world_def demo_env_def challenge_put_def Let_def asked_world_def
      issued_challenge_def)

lemma demo_executed:
  "executed demo_server demo_env (demo_http ''Bearer k'' ''/v1/actions'' (hex_encode ''x'')) asked_world =
     Some \<lparr>qr_action = ''commit'', qr_run = ''r'', qr_workspace = [], qr_policy = [], qr_confirmation = ''COMMIT'',
       qr_token = hex_encode ''x''\<rparr>"
proof -
  have "hex_encode ''x'' \<noteq> []" by (simp add: hex_encode_def)
  then show ?thesis
    using demo_authorized(1) [of "''/v1/actions''" "hex_encode ''x''"]
    by (simp add: executed_def demo_http_def demo_server_def demo_codecs_def demo_blank supervisor_Validate_def
        challenge_consume_def asked_world_def issued_challenge_def demo_env_def actionChallengeTTL_def)
qed

theorem actions_run_once_per_challenge_witness:
  "snd (served demo_server [(demo_env, demo_http ''Bearer k'' ''/v1/action-challenges'' []),
     (demo_env, demo_http ''Bearer k'' ''/v1/actions'' (hex_encode ''x''))] demo_world) =
     [(hex_encode ''x'', ''commit'', ''r'', 5)] \<and>
   issues (hex_encode ''x'') (fst (served demo_server [(demo_env, demo_http ''Bearer k'' ''/v1/action-challenges'' []),
     (demo_env, demo_http ''Bearer k'' ''/v1/actions'' (hex_encode ''x''))] demo_world)) \<ge> 1"
proof -
  let ?rs = "[(demo_env, demo_http ''Bearer k'' ''/v1/action-challenges'' []),
     (demo_env, demo_http ''Bearer k'' ''/v1/actions'' (hex_encode ''x''))]"
  have "\<exists>w' r. Handler demo_server demo_env (demo_http ''Bearer k'' ''/v1/actions'' (hex_encode ''x'')) asked_world = Some (w', r)"
    using executed_runs [OF demo_executed] by (simp add: run_action_def demo_server_def audited_def)
  then obtain w' r where h: "Handler demo_server demo_env (demo_http ''Bearer k'' ''/v1/actions'' (hex_encode ''x'')) asked_world =
      Some (w', r)" by blast
  have "action_of demo_server demo_env (demo_http ''Bearer k'' ''/v1/action-challenges'' []) demo_world = []"
    by (simp add: action_of_def executed_def demo_http_def)
  then have s: "snd (served demo_server ?rs demo_world) = [(hex_encode ''x'', ''commit'', ''r'', 5)]"
    using demo_executed by (simp add: demo_issue h action_of_def) (simp add: demo_env_def)
  have "w_challenges demo_world = Map.empty" by (simp add: demo_world_def)
  from actions_run_once_per_challenge [OF this, of "hex_encode ''x''" demo_server ?rs] s show ?thesis by simp
qed


subsection \<open>The trusted keys\<close>

text \<open>An import through \<open>/v1/policy-bundles\<close> changes the configuration only for a trusted signer.\<close>

lemma import_needs_trust:
  assumes "serve_bundles sv en rq w = Some (w', r)" and "w_config w' \<noteq> w_config w"
  shows "\<exists>sg b. dc_signed (sv_codecs sv) (take 2097152 (hq_body rq)) = Some sg \<and>
    bundle_Verify (sv_crypto sv) sg (sv_trusted sv) = Inr b"
proof -
  have same: "w_config w1 = w_config w" if "importSignedPolicy sv en sg w = (w1, e)"
    "\<forall>b. bundle_Verify (sv_crypto sv) sg (sv_trusted sv) \<noteq> Inr b" for sg w1 e
    using that by (auto simp: importSignedPolicy_def split: option.splits sum.splits)
  show ?thesis
  proof (rule ccontr)
    assume no: "\<not> ?thesis"
    have "w_config w' = w_config w"
    proof (cases "dc_signed (sv_codecs sv) (take 2097152 (hq_body rq))")
      case None
      then show ?thesis
        using assms(1) by (auto simp: serve_bundles_def audited_def split: if_splits sum.splits)
    next
      case (Some sg)
      obtain w1 e where i: "importSignedPolicy sv en sg w = (w1, e)" by fastforce
      then have "w_config w1 = w_config w" using same no Some by blast
      then show ?thesis
        using assms(1) Some i by (auto simp: serve_bundles_def audited_def Let_def split: if_splits sum.splits option.splits)
    qed
    then show False using assms(2) by simp
  qed
qed

lemma create_stores:
  assumes "Enabled s" and "cp_readLocked cy s = Inr sn" and "\<not> list_ex (same_package v) (sn_policies sn)"
    and "validatePolicyPackage v = Inr ()"
  shows "CreatePolicy cy all_io now v s = (s\<lparr>cp_file := CStored (sn\<lparr>
    sn_policies := sn_policies sn @ [v\<lparr>pk_updated := now\<rparr>], sn_revision := sn_revision sn + 1\<rparr>)\<rparr>, None)"
  using assms by (simp add: CreatePolicy_def mutate_def add_package_def cp_writeLocked_def all_io_def)

text \<open>
  The list of trusted keys does not hold for \<open>/v1/policies\<close>: the envelope that an import
  through \<open>/v1/policy-bundles\<close> refuses, because its signer is not trusted, is stored as a signed
  package when a client posts it inside a policy package.
\<close>

theorem trusted_keys_are_bypassed:
  assumes "authorized sv rq" and "hq_method rq = ''POST''" and "hq_path rq = ''/v1/policies''"
    and "dc_policy (sv_codecs sv) (hq_body rq) = Some v" and "w_config w = Some s" and "Enabled s"
    and "cp_readLocked (sv_crypto sv) s = Inr sn" and "\<not> list_ex (same_package v) (sn_policies sn)"
    and "validatePolicyPackage v = Inr ()" and "en_config en = all_io"
    and "pk_signed v" and "pk_bundle v = Some sg" and "bundle_Verify (sv_crypto sv) sg (sv_trusted sv) = Inl Untrusted"
  shows "importSignedPolicy sv en sg w = (w, Some (BundleRefused Untrusted)) \<and>
    (\<exists>w' s' v'. Handler sv en rq w = Some (w', answer 201 True ''created'' (reference v)) \<and> w_config w' = Some s' \<and>
       v' \<in> set (sn_policies (snapshot_of s')) \<and> pk_signed v' \<and> pk_bundle v' = Some sg)"
proof
  have on: "config_on w = Some s" using assms(5,6) by (simp add: config_on_def)
  then show "importSignedPolicy sv en sg w = (w, Some (BundleRefused Untrusted))"
    using assms(13) by (simp add: importSignedPolicy_def)
  let ?s = "s\<lparr>cp_file := CStored (sn\<lparr>
    sn_policies := sn_policies sn @ [v\<lparr>pk_updated := en_now en\<rparr>], sn_revision := sn_revision sn + 1\<rparr>)\<rparr>"
  have "cp_exec (sv_crypto sv) (en_config en) (en_now en) (CreateOp v) s = (?s, None)"
    using create_stores [OF assms(6-9)] assms(10) by (simp add: cp_exec_def)
  then have c: "configured sv en (CreateOp v) ''policy_create'' (resp True ''created'' (reference v)) w =
      (recordAudit sv en ''policy_create'' [] (resp True ''created'' (reference v)) [] (w\<lparr>w_config := Some ?s\<rparr>), None)"
    by (simp add: configured_def on)
  let ?w = "recordAudit sv en ''policy_create'' [] (resp True ''created'' (reference v)) [] (w\<lparr>w_config := Some ?s\<rparr>)"
  have "Handler sv en rq w = Some (?w, answer 201 True ''created'' (reference v))"
    using assms(1-4) c by (simp add: Handler_def serve_policies_def Let_def)
  moreover have "w_config ?w = Some ?s" by simp
  moreover have "v\<lparr>pk_updated := en_now en\<rparr> \<in> set (sn_policies (snapshot_of ?s))" by (simp add: snapshot_of_def)
  ultimately show "\<exists>w' s' v'. Handler sv en rq w = Some (w', answer 201 True ''created'' (reference v)) \<and> w_config w' = Some s' \<and>
       v' \<in> set (sn_policies (snapshot_of s')) \<and> pk_signed v' \<and> pk_bundle v' = Some sg"
    using assms(11,12) by (intro exI [of _ ?w] exI [of _ ?s] exI [of _ "v\<lparr>pk_updated := en_now en\<rparr>"]) simp
qed

definition smuggled_package :: PolicyPackage where
  "smuggled_package = demo_package\<lparr>pk_signed := True, pk_bundle := Some demo_signed\<rparr>"

theorem trusted_keys_are_bypassed_witness:
  "\<exists>(sv :: nat server) w w' s' v'. sv_trusted sv = [demo_key] \<and>
     Handler sv demo_env (demo_http ''Bearer k'' ''/v1/policies'' []) w = Some (w', answer 201 True ''created'' (reference smuggled_package)) \<and>
     w_config w' = Some s' \<and> v' \<in> set (sn_policies (snapshot_of s')) \<and> pk_bundle v' = Some demo_signed"
proof -
  let ?sv = "demo_server\<lparr>sv_trusted := [demo_key], sv_codecs := demo_codecs\<lparr>dc_policy := \<lambda>_. Some smuggled_package\<rparr>\<rparr>"
  let ?w = "demo_world\<lparr>w_config := Some demo_store\<rparr>"
  have cy: "sv_crypto ?sv = demo_crypto" by (simp add: demo_server_def)
  have a: "authorized ?sv (demo_http ''Bearer k'' ''/v1/policies'' [])"
    using demo_authorized(1) [of "''/v1/policies''" "[]"] by (simp add: authorized_def)
  have u: "bundle_Verify (sv_crypto ?sv) demo_signed (sv_trusted ?sv) = Inl Untrusted"
  proof -
    have "\<forall>p. cy_marshal demo_crypto demo_bundle = Some p \<longrightarrow> cy_unmarshal demo_crypto p = Some demo_bundle"
      by (simp add: demo_crypto_def)
    from signed_bundle_untrusted [OF demo_signed demo_signs this, of "[demo_key]"]
    have "bundle_Verify demo_crypto demo_signed [demo_key] = Inl Untrusted"
      by (simp add: demo_crypto_def demo_key_def)
    then show ?thesis by (simp only: cy) simp
  qed
  have b: "hq_method (demo_http ''Bearer k'' ''/v1/policies'' []) = ''POST''"
    "hq_path (demo_http ''Bearer k'' ''/v1/policies'' []) = ''/v1/policies''" by (simp_all add: demo_http_def)
  have c: "dc_policy (sv_codecs ?sv) (hq_body (demo_http ''Bearer k'' ''/v1/policies'' [])) = Some smuggled_package"
    "w_config ?w = Some demo_store" "sv_trusted ?sv = [demo_key]" by simp_all
  have d: "\<not> list_ex (same_package smuggled_package) (sn_policies (snapshot_of demo_store))"
    by (simp add: snapshot_of_def demo_store_def)
  have e: "validatePolicyPackage smuggled_package = Inr ()" "pk_signed smuggled_package" "pk_bundle smuggled_package = Some demo_signed"
    using demo_package_valid [where b = True and g = "Some demo_signed"] by (simp_all add: smuggled_package_def)
  have f: "en_config demo_env = all_io" by (simp add: demo_env_def)
  from trusted_keys_are_bypassed [OF a b c(1,2) demo_store_ok(2,3) d e(1) f e(2,3) u] c(3) show ?thesis by blast
qed

text \<open>The requests to the registry leave no trace in the audit log.\<close>

lemma registry_requests_not_audited:
  "serve_registry sv rq w = Some (w', r) \<Longrightarrow> w_audit w' = w_audit w"
  "serve_fetch sv rq w = Some (w', r) \<Longrightarrow> w_audit w' = w_audit w"
  "serve_revoke sv rq w = Some (w', r) \<Longrightarrow> w_audit w' = w_audit w"
  by (auto simp: serve_registry_def serve_fetch_def serve_revoke_def split: if_splits option.splits sum.splits prod.splits)


end
