(* ===== verification/Review_Safety.thy ===== *)
theory Review_Safety
  imports Review Supervisor_Safety
begin

text \<open>
  The supervisor's handler with the real actions behind it: \<open>Supervisor\<close> composed with \<open>Review\<close>.
  What a request can change of the runs, and three places where the actions do not do what the
  documents say.
\<close>

subsection \<open>What an action may change\<close>

lemma supervisorAction_cases:
  assumes "supervisorAction h hp q w = (w', x)" and "w' \<noteq> w \<or> qr_action q = ''commit'' \<and> is_ok x"
  obtains entry r where "historyEntry h hp w (qr_run q) = Inr entry" and "record_Read (fl_records w (he_record entry)) = Inr r"
    and "qr_action q = ''rollback'' \<or> qr_action q = ''recover'' \<or> qr_action q = ''commit'' \<and> qr_confirmation q = ''COMMIT''"
    and "(w', x) = (if qr_action q = ''commit'' then supervisorCommit h (he_record entry) r w else supervisorRollback h (he_record entry) r w)"
proof -
  obtain entry where e: "historyEntry h hp w (qr_run q) = Inr entry" and b: "\<not> blank (qr_run q)"
    using assms by (cases "historyEntry h hp w (qr_run q)") (auto simp: supervisorAction_def is_ok_def Let_def split: if_splits)
  have n: "NativeRecordForSupervisor (ht_natives h (he_record entry)) (qr_run q) = Inr None"
    using assms e b by (auto simp: supervisorAction_def Let_def is_ok_def split: sum.splits option.splits)
  obtain r where r: "record_Read (fl_records w (he_record entry)) = Inr r"
    using assms e b n by (cases "record_Read (fl_records w (he_record entry))") (auto simp: supervisorAction_def is_ok_def Let_def)
  show ?thesis
    using assms e b n r that [OF e r] by (auto simp: supervisorAction_def is_ok_def Let_def split: if_splits)
qed

lemma supervisorCommit_fst: "supervisorCommit h p r w = (w', x) \<Longrightarrow> \<exists>y. commit_record h p r w = (w', y) \<and> is_ok y = is_ok x"
  by (auto simp: supervisorCommit_def is_ok_def split: prod.splits sum.splits)

lemma supervisorRollback_fst: "supervisorRollback h p r w = (w', x) \<Longrightarrow> \<exists>y. rollback_record False h p r w = (w', y) \<and> is_ok y = is_ok x"
  by (auto simp: supervisorRollback_def is_ok_def split: prod.splits sum.splits)

text \<open>
  An action changes something only for a run of the history whose record can be read; a commit
  moreover only with the confirmation, for a run that succeeded with complete evidence and whose
  changes do not conflict with the workspace.
\<close>

lemma action_gates:
  assumes "supervisorAction h hp q w = (w', x)" and "w' \<noteq> w"
  shows "\<exists>entry r. historyEntry h hp w (qr_run q) = Inr entry \<and> record_Read (fl_records w (he_record entry)) = Inr r \<and>
    (qr_action q = ''rollback'' \<or> qr_action q = ''recover'' \<or>
     qr_action q = ''commit'' \<and> qr_confirmation q = ''COMMIT'' \<and>
       (\<exists>destination candidate. reviewed h r (ov_fs (fl_ov w)) destination candidate))"
proof -
  obtain entry r where e: "historyEntry h hp w (qr_run q) = Inr entry" "record_Read (fl_records w (he_record entry)) = Inr r"
    and a: "qr_action q = ''rollback'' \<or> qr_action q = ''recover'' \<or> qr_action q = ''commit'' \<and> qr_confirmation q = ''COMMIT''"
    and x: "(w', x) = (if qr_action q = ''commit'' then supervisorCommit h (he_record entry) r w else supervisorRollback h (he_record entry) r w)"
    by (rule supervisorAction_cases [OF assms(1)]) (use assms(2) in blast)+
  have "\<exists>destination candidate. reviewed h r (ov_fs (fl_ov w)) destination candidate" if "qr_action q = ''commit''"
  proof -
    have "supervisorCommit h (he_record entry) r w = (w', x)" using x that by simp
    then obtain y where "commit_record h (he_record entry) r w = (w', y)" using supervisorCommit_fst by blast
    from commit_record_gates [OF this] assms(2) show ?thesis by blast
  qed
  then show ?thesis using e a by blast
qed

subsection \<open>Through the handler\<close>

definition connect :: "(review_error \<Rightarrow> string) \<Rightarrow> host \<Rightarrow> path \<Rightarrow> Request \<Rightarrow> files \<Rightarrow> files \<times> (string + Response)" where
  "connect txt h hp q w = (case supervisorAction h hp q w of (w', x) \<Rightarrow> (w', map_err txt x))"

definition keeps_runtime :: "'a world \<Rightarrow> ('a world \<times> reply) option \<Rightarrow> bool" where
  "keeps_runtime w x = (\<forall>w' r. x = Some (w', r) \<longrightarrow> w_runtime w' = w_runtime w)"

lemma keeps_runtime_simps [simp]:
  "keeps_runtime w None" "keeps_runtime w (Some (w1, r)) \<longleftrightarrow> w_runtime w1 = w_runtime w"
  "keeps_runtime w (audited sv en a i s x e w1) \<longleftrightarrow> w_runtime w1 = w_runtime w"
  by (auto simp: keeps_runtime_def audited_def recordAudit_def)

lemma configured_runtime: "configured sv en p a r w = (w', e) \<Longrightarrow> w_runtime w' = w_runtime w"
  by (auto simp: configured_def recordAudit_def split: option.splits prod.splits)

lemma importSigned_runtime: "importSignedPolicy sv en sg w = (w', e) \<Longrightarrow> w_runtime w' = w_runtime w"
  by (auto simp: importSignedPolicy_def split: option.splits sum.splits prod.splits)

text \<open>A registry on another host: revoking there changes nothing here.\<close>

definition remote_registry :: "'a server \<Rightarrow> bool" where
  "remote_registry sv = (\<forall>g. sv_registry sv = Some g \<longrightarrow> (\<forall>n v a. fst (rg_revoke g n v a) = a))"

lemma keeps_runtime_revoke: "remote_registry sv \<Longrightarrow> keeps_runtime w (serve_revoke sv rq w)"
  by (auto simp: serve_revoke_def remote_registry_def split: option.split prod.split) (metis fst_conv)+

lemma keeps_runtime_routes:
  "keeps_runtime w (serve_capabilities sv rq w)" "keeps_runtime w (serve_history sv rq w)"
  "keeps_runtime w (serve_prune sv en rq w)" "keeps_runtime w (serve_sessions sv en rq w)"
  "keeps_runtime w (serve_policies sv en rq w)" "keeps_runtime w (serve_workspaces sv en rq w)"
  "keeps_runtime w (serve_bundles sv en rq w)" "keeps_runtime w (serve_leases sv en rq w)"
  "keeps_runtime w (serve_audit sv rq w)" "keeps_runtime w (serve_detail sv en rq w)"
  "keeps_runtime w (serve_events sv en rq w)" "keeps_runtime w (serve_challenges sv en rq w)"
  "keeps_runtime w (serve_registry sv rq w)" "keeps_runtime w (serve_fetch sv rq w)"
proof -
  note splits = option.split sum.split prod.split
  show "keeps_runtime w (serve_capabilities sv rq w)" "keeps_runtime w (serve_history sv rq w)"
    "keeps_runtime w (serve_audit sv rq w)" "keeps_runtime w (serve_registry sv rq w)" "keeps_runtime w (serve_challenges sv en rq w)"
    "keeps_runtime w (serve_fetch sv rq w)" "keeps_runtime w (serve_prune sv en rq w)"
    "keeps_runtime w (serve_sessions sv en rq w)" "keeps_runtime w (serve_leases sv en rq w)"
    by (simp_all add: route_defs Let_def split: splits)
  show "keeps_runtime w (serve_detail sv en rq w)" "keeps_runtime w (serve_events sv en rq w)"
    by (simp_all add: serve_detail_def serve_events_def with_record_def Let_def split: splits)
  show "keeps_runtime w (serve_policies sv en rq w)" "keeps_runtime w (serve_workspaces sv en rq w)"
    using configured_runtime [of sv en _ _ _ w]
    by (auto simp: serve_policies_def serve_workspaces_def Let_def split: splits)
  show "keeps_runtime w (serve_bundles sv en rq w)"
    using importSigned_runtime [of sv en _ w] by (auto simp: serve_bundles_def Let_def split: splits)
qed

lemma runtime_changes_executed:
  assumes "Handler sv en rq w = Some (w', r)" and "w_runtime w' \<noteq> w_runtime w" and "remote_registry sv"
  shows "\<exists>q f. executed sv en rq w = Some q \<and> sv_actions sv = Some f \<and> w_runtime w' = fst (f q (w_runtime w))"
proof -
  have a: "hq_path rq = ''/v1/actions'' \<and> (blank (sv_cors sv) \<or> hq_method rq \<noteq> ''OPTIONS'')"
  proof (rule ccontr)
    assume "\<not> ?thesis"
    then have "keeps_runtime w (Handler sv en rq w)"
      unfolding Handler_def Let_def by (simp add: keeps_runtime_routes keeps_runtime_revoke [OF assms(3)])
    then show False using assms(1,2) by (simp add: keeps_runtime_def)
  qed
  then have h: "serve_actions sv en rq w = Some (w', r)" using assms(1) by (auto simp: Handler_def Let_def)
  obtain q where q: "authorized sv rq" "hq_method rq = ''POST''" "dc_request (sv_codecs sv) (hq_body rq) = Some q"
      "supervisor_Validate (qr_action q) = Inr ()"
    using h assms(2) by (auto simp: serve_actions_def split: if_splits option.splits sum.splits)
  obtain cs e where c: "challenge_consume (Some (w_challenges w)) (qr_token q) (qr_action q) (qr_run q) (en_now en) = (cs, e)"
    by fastforce
  define w1 where "w1 = (if qr_action q = ''status'' then w else w\<lparr>w_challenges := the cs\<rparr>)"
  have run: "run_action sv en q w1 = Some (w', r) \<and> (qr_action q = ''status'' \<or> is_ok e)"
    using h assms(2) q c
    by (cases e) (auto simp: serve_actions_def w1_def is_ok_def audited_def recordAudit_def split: if_splits)
  have rt: "w_runtime w1 = w_runtime w" by (simp add: w1_def)
  obtain f where f: "sv_actions sv = Some f"
    using run rt assms(2) by (cases "sv_actions sv") (auto simp: run_action_def audited_def recordAudit_def split: if_splits)
  have "w_runtime w' = fst (f q (w_runtime w))"
    using run rt f by (auto simp: run_action_def audited_def recordAudit_def split: prod.splits sum.splits if_splits)
  moreover have "executed sv en rq w = Some q"
    using a q c run f by (auto simp: executed_def)
  ultimately show ?thesis using f by blast
qed

lemma consumed_challenge:
  "challenge_consume (Some m) t a r n = (cs, Inr ()) \<Longrightarrow> \<exists>c. m t = Some c \<and> ac_action c = a \<and> ac_run c = r \<and> n < ac_expires c"
  by (auto simp: challenge_consume_def split: if_splits option.splits)

text \<open>
  C2. End to end: whatever request changes the runs carried the bearer token, and a one-time challenge
  that was handed out for this action and this run and has not expired; and if it is a commit it
  was confirmed and passed the review.
\<close>

theorem runs_change_only_by_challenge:
  assumes "Handler sv en rq w = Some (w', rep)" and "w_runtime w' \<noteq> w_runtime w"
    and "sv_actions sv = Some (connect txt h hp)" and "remote_registry sv"
  shows "authorized sv rq \<and> (\<exists>q c entry r. dc_request (sv_codecs sv) (hq_body rq) = Some q \<and>
     w_challenges w (qr_token q) = Some c \<and> ac_action c = qr_action q \<and> ac_run c = qr_run q \<and> en_now en < ac_expires c \<and>
     historyEntry h hp (w_runtime w) (qr_run q) = Inr entry \<and> record_Read (fl_records (w_runtime w) (he_record entry)) = Inr r \<and>
     (qr_action q = ''rollback'' \<or> qr_action q = ''recover'' \<or>
      qr_action q = ''commit'' \<and> qr_confirmation q = ''COMMIT'' \<and>
        (\<exists>destination candidate. reviewed h r (ov_fs (fl_ov (w_runtime w))) destination candidate)))"
proof -
  obtain q where q: "executed sv en rq w = Some q" "w_runtime w' = fst (connect txt h hp q (w_runtime w))"
    using runtime_changes_executed [OF assms(1,2,4)] assms(3) by auto
  have ex: "authorized sv rq" "dc_request (sv_codecs sv) (hq_body rq) = Some q"
    "qr_action q = ''status'' \<or> is_ok (snd (challenge_consume (Some (w_challenges w)) (qr_token q) (qr_action q) (qr_run q) (en_now en)))"
    using q(1) by (auto simp: executed_def split: if_splits option.splits)
  obtain a x where a: "supervisorAction h hp q (w_runtime w) = (a, x)" by fastforce
  then have "a \<noteq> w_runtime w" using q(2) assms(2) by (simp add: connect_def)
  from action_gates [OF a this] obtain entry r
    where g: "historyEntry h hp (w_runtime w) (qr_run q) = Inr entry" "record_Read (fl_records (w_runtime w) (he_record entry)) = Inr r"
      "qr_action q = ''rollback'' \<or> qr_action q = ''recover'' \<or>
       qr_action q = ''commit'' \<and> qr_confirmation q = ''COMMIT'' \<and>
         (\<exists>destination candidate. reviewed h r (ov_fs (fl_ov (w_runtime w))) destination candidate)"
    by blast
  obtain cs e where c: "challenge_consume (Some (w_challenges w)) (qr_token q) (qr_action q) (qr_run q) (en_now en) = (cs, e)"
    by fastforce
  then have "e = Inr ()" using ex(3) g(3) by (auto simp: is_ok_def split: sum.splits)
  from consumed_challenge [OF c [unfolded this]] show ?thesis using ex g by blast
qed

subsection \<open>Where the actions and the documents part\<close>

text \<open>
  The action works on whatever record lies at the path the history holds: it never compares the
  run of the record with the run of the request, to which the challenge was bound.  With one
  record path used for two runs, the commit of the first commits the second.
\<close>

theorem commit_ignores_run_of_record:
  assumes "\<not> blank (qr_run q)" and "qr_action q = ''commit''" and "qr_confirmation q = ''COMMIT''"
    and "historyEntry h hp w (qr_run q) = Inr entry" and "ht_natives h (he_record entry) = NMissing"
    and "record_Read (fl_records w (he_record entry)) = Inr r" and "plan_id (rr_plan r) \<noteq> qr_run q"
    and "commit_record h (he_record entry) r w = (w', Inr (plan, report))"
  shows "\<exists>rep. supervisorAction h hp q w = (w', Inr rep) \<and> plan_id plan = plan_id (rr_plan r) \<and> plan_id plan \<noteq> qr_run q \<and>
    plan_state plan = Committed"
  using assms commit_record_done [OF assms(8)]
  by (simp add: supervisorAction_def Let_def NativeRecordForSupervisor_def ReadNativeRecord_def supervisorCommit_def)

text \<open>
  The supervisor's rollback never touches the checkpoint graph; that of the command line succeeds
  only after the checkpoint and its descendants were rolled back.
\<close>

theorem supervisor_rollback_keeps_graph:
  assumes "supervisorRollback h p r w = (w', x)"
  shows "fl_graphs w' = fl_graphs w"
proof -
  obtain y where y: "rollback_record False h p r w = (w', y)" using supervisorRollback_fst [OF assms] by blast
  have run: "fl_graphs w1 = fl_graphs w" if "rollback_run h scope plan w = (w1, plan', es)" for scope plan w1 plan' es
    using that by (auto simp: rollback_run_def Let_def split: prod.splits if_splits)
  have st: "fl_graphs v = fl_graphs w1" if "persistRecordState h p plan ev d t w1 = (v, e)" for plan ev d t w1 v e
    using persistRecordState_keeps [OF that] by simp
  have ph: "fl_graphs v = fl_graphs w1" if "persistHistory h hp plan p w1 = (v, e)" for hp plan w1 v e
    using persistHistory_keeps [OF that] by simp
  show ?thesis
    using y by (auto simp: rollback_record_def next_step_def run st ph split: sum.splits prod.splits option.splits if_splits)
qed

text \<open>
  A commit is not atomic: when the unmount after the apply fails, the reviewed files are in the
  workspace while the record and the history still say that the run awaits its review.
\<close>

lemma Rollback_unmount_failed:
  assumes "Overlay_Model.Rollback env w l = (w', Some (RollbackUnmount e))"
  shows "ov_fs w' = ov_fs w"
proof (rule ccontr)
  assume "ov_fs w' \<noteq> ov_fs w"
  then have "reset_layers env (ov_fs w) [l_upper l, l_work l] = (ov_fs w', Some (RollbackUnmount e))"
    using Rollback_cases [OF assms] by blast
  then show False by (auto simp: Let_def split: if_splits option.splits)
qed

theorem failed_cleanup_leaves_half_commit:
  assumes "commit_record h p r w = (w', Inl (CleanupError (RollbackUnmount e)))"
    and "NewLayoutWithLower cwd root lower = Inr l" and "rp_layout (rr_plan r) = l" and "is_abs cwd"
    and "no_links (ov_fs (fl_ov w))" and "\<not> is_within (l_lower l) (l_root l)" and "\<not> is_within (l_root l) (l_lower l)"
  shows "fl_records w' = fl_records w \<and> fl_history w' = fl_history w \<and>
    (\<exists>report. can_apply report \<and> installed l report (ov_fs (fl_ov w)) (ov_fs (fl_ov w')))"
proof -
  let ?f = "ov_fs (fl_ov w)"
  obtain d c where rev: "reviewed h r ?f d c" using commit_record_gates [OF assms(1)] by auto
  note go = assms(1) [unfolded commit_record_def Let_def, simplified assms(3) rev [unfolded reviewed_def assms(3)], simplified]
  obtain f1 rep where ap: "Acceptance.Apply (ht_apply h) ?f (rp_manifest (rr_plan r)) d c (l_merged l) (l_lower l) = (f1, rep, None)"
    using go by (auto split: prod.splits option.splits)
  obtain ov r' where ro: "Overlay_Model.Rollback (manager h (rr_plan r)) ((fl_ov w)\<lparr>ov_fs := f1\<rparr>) l = (ov, r')" by fastforce
  have k: "write_record h p x y \<noteq> (z, Some (CleanupError u))" "persistHistory h hp pl p y \<noteq> (z, Some (CleanupError u))" for x y z u hp pl
    by (cases "ht_record_io h"; auto simp: write_record_def persistHistory_def split: prod.splits if_splits)+
  have "r' = Some (RollbackUnmount e) \<and> w' = w\<lparr>fl_ov := ov\<rparr>"
    using go ap ro k by (auto simp: next_step_def split: option.splits sum.splits prod.splits)
  moreover have "installed l rep ?f f1"
    using commit_installs [OF ap assms(2,4) clear_review_no_links [OF assms(5)] assms(6,7)] unfolding installed_def by blast
  ultimately show ?thesis
    using Rollback_unmount_failed [of "manager h (rr_plan r)" _ l ov e] ro Apply_success(2,4) [OF ap] by auto
qed
subsection \<open>Witnesses\<close>

definition run_server :: "files server" where
  "run_server = \<lparr>sv_token = ''k'', sv_audit = ''/a'', sv_require_auth = True, sv_cors = [], sv_sessions = [],
     sv_trusted = [], sv_crypto = demo_crypto, sv_broker = None,
     sv_actions = Some (connect (\<lambda>_. ''failed'') review_host ''/h''), sv_registry = None,
     sv_codecs = demo_codecs, sv_sort = by_update, sv_text = (\<lambda>_. ''refused''), sv_stamp = (\<lambda>_. ''0'')\<rparr>"

definition run_world :: "files world" where
  "run_world = \<lparr>w_history = demo_history, w_audit = LogMissing, w_challenges = [hex_encode ''x'' \<mapsto> issued_challenge],
     w_config = None, w_sessions = \<lparr>ss_path = [], ss_file = SMissing\<rparr>, w_broker = Map.empty, w_runtime = review_files\<rparr>"

definition commit_request :: Request where
  "commit_request = \<lparr>qr_action = ''commit'', qr_run = ''r'', qr_workspace = [], qr_policy = [],
     qr_confirmation = ''COMMIT'', qr_token = hex_encode ''x''\<rparr>"

lemma run_executed:
  "executed run_server demo_env (demo_http ''Bearer k'' ''/v1/actions'' (hex_encode ''x'')) run_world = Some commit_request"
proof -
  have t: "trim_space ''Bearer k'' = ''Bearer k''" "trim_space ''k'' = ''k''" by (code_simp, code_simp)
  have "hex_encode ''x'' \<noteq> []" by (simp add: hex_encode_def)
  then show ?thesis
    by (simp add: executed_def demo_http_def run_server_def demo_codecs_def demo_blank supervisor_Validate_def t authorized_def
        trim_prefix_def Let_def commit_request_def
        challenge_consume_def run_world_def issued_challenge_def demo_env_def actionChallengeTTL_def)
qed

lemma review_entry:
  "\<exists>e. historyEntry review_host ''/h'' review_files ''r'' = Inr e \<and> he_record e = ''/rec''"
  by (simp add: historyEntry_def history_List_def review_host_def review_files_def by_update_def demo_entry_def)

lemma review_action:
  "\<exists>w' plan report rep. commit_record review_host ''/rec'' review_record review_files = (w', Inr (plan, report)) \<and>
     supervisorAction review_host ''/h'' commit_request review_files = (w', Inr rep)"
proof -
  obtain w' plan report where c: "commit_record review_host ''/rec'' review_record review_files = (w', Inr (plan, report))"
    using review_commits by (cases "commit_record review_host ''/rec'' review_record review_files") (auto simp: is_ok_iff)
  obtain e where e: "historyEntry review_host ''/h'' review_files ''r'' = Inr e" "he_record e = ''/rec''"
    using review_entry by blast
  have "record_Read (fl_records review_files ''/rec'') = Inr review_record" "ht_natives review_host ''/rec'' = NMissing" "\<not> blank ''r''"
    by (simp add: record_Read_def review_files_def review_record_def demo_run_record_def, simp add: review_host_def, code_simp)
  then show ?thesis
    using c e by (simp add: supervisorAction_def commit_request_def Let_def NativeRecordForSupervisor_def ReadNativeRecord_def
        supervisorCommit_def)
qed

theorem runs_change_only_by_challenge_witness:
  "\<exists>w' rep. Handler run_server demo_env (demo_http ''Bearer k'' ''/v1/actions'' (hex_encode ''x'')) run_world = Some (w', rep) \<and>
     w_runtime w' \<noteq> w_runtime run_world \<and>
     authorized run_server (demo_http ''Bearer k'' ''/v1/actions'' (hex_encode ''x''))"
proof -
  let ?rq = "demo_http ''Bearer k'' ''/v1/actions'' (hex_encode ''x'')"
  obtain w1 plan report rep where c: "commit_record review_host ''/rec'' review_record review_files = (w1, Inr (plan, report))"
      "supervisorAction review_host ''/h'' commit_request review_files = (w1, Inr rep)"
    using review_action by blast
  have "fl_records w1 ''/rec'' = StoredRecord (review_record\<lparr>rr_plan := plan\<rparr>)" "plan_state plan = Committed"
    using commit_record_done [OF c(1)] by simp_all
  moreover have "fl_records review_files ''/rec'' = StoredRecord review_record" by (simp add: review_files_def)
  moreover have "plan_state (rr_plan review_record) = Lifecycle.Succeeded"
    by (simp add: review_record_def demo_run_record_def plan_state_def)
  ultimately have ne: "w1 \<noteq> review_files" by (metis RunRecord.surjective RunRecord.update_convs(1) RunRecord.select_convs(1) lstate.distinct record_file.inject)
  have a: "sv_actions run_server = Some (connect (\<lambda>_. ''failed'') review_host ''/h'')" "remote_registry run_server"
    by (simp_all add: run_server_def remote_registry_def)
  have "connect (\<lambda>_. ''failed'') review_host ''/h'' commit_request review_files = (w1, Inr rep)"
    using c(2) by (simp add: connect_def)
  moreover have "w_runtime run_world = review_files" by (simp add: run_world_def)
  ultimately obtain w' r where h: "Handler run_server demo_env ?rq run_world = Some (w', r)" "w_runtime w' = w1"
    using executed_runs [OF run_executed] a(1)
    by (auto simp: run_action_def audited_def recordAudit_def commit_request_def)
  have "w_runtime w' \<noteq> w_runtime run_world" using h(2) ne by (simp add: run_world_def)
  with runs_change_only_by_challenge [OF h(1) this a] h(1) show ?thesis by blast
qed

theorem commit_ignores_run_of_record_witness:
  "\<exists>w w' rep plan. supervisorAction review_host ''/h'' (commit_request\<lparr>qr_run := ''a''\<rparr>) w = (w', Inr rep) \<and>
     plan_id plan = ''r'' \<and> plan_state plan = Committed"
proof -
  let ?w = "review_files\<lparr>fl_history := (\<lambda>_. HEntries [(demo_entry ''a'' 1)\<lparr>he_record := ''/rec''\<rparr>])\<rparr>"
  have "is_ok (snd (commit_record review_host ''/rec'' review_record ?w))" by code_simp
  then obtain w' plan report where c: "commit_record review_host ''/rec'' review_record ?w = (w', Inr (plan, report))"
    by (cases "commit_record review_host ''/rec'' review_record ?w") (auto simp: is_ok_iff)
  obtain e where e: "historyEntry review_host ''/h'' ?w (qr_run (commit_request\<lparr>qr_run := ''a''\<rparr>)) = Inr e" "he_record e = ''/rec''"
    by (simp add: historyEntry_def history_List_def review_host_def by_update_def demo_entry_def)
  have "record_Read (fl_records ?w (he_record e)) = Inr review_record"
    using e(2) by (simp add: record_Read_def review_files_def review_record_def demo_run_record_def)
  moreover have "\<not> blank ''a''" by code_simp
  moreover have "plan_id (rr_plan review_record) = ''r''" by (simp add: review_record_def demo_run_record_def)
  ultimately show ?thesis
    using commit_ignores_run_of_record [of "commit_request\<lparr>qr_run := ''a''\<rparr>" review_host "''/h''" ?w e review_record w' plan report] e c
    by (fastforce simp: commit_request_def review_host_def)
qed

theorem supervisor_rollback_keeps_graph_witness:
  "fl_graphs (fst (supervisorRollback review_host ''/rec'' review_record review_files)) = fl_graphs review_files"
  by (rule supervisor_rollback_keeps_graph) (rule prod.collapse [symmetric])

definition busy_host :: host where
  "busy_host = review_host\<lparr>ht_overlay := demo_ov\<lparr>oe_run := (\<lambda>_. Some ''busy'')\<rparr>\<rparr>"

theorem failed_cleanup_leaves_half_commit_witness:
  "\<exists>w' e report. commit_record busy_host ''/rec'' review_record review_files = (w', Inl (CleanupError (RollbackUnmount e))) \<and>
     installed demo_plan_layout report (ov_fs (fl_ov review_files)) (ov_fs (fl_ov w')) \<and> fl_records w' = fl_records review_files"
proof -
  have "case snd (commit_record busy_host ''/rec'' review_record review_files) of Inl (CleanupError (RollbackUnmount e)) \<Rightarrow> True | _ \<Rightarrow> False"
    by code_simp
  then obtain w' e where c: "commit_record busy_host ''/rec'' review_record review_files = (w', Inl (CleanupError (RollbackUnmount e)))"
    by (cases "commit_record busy_host ''/rec'' review_record review_files") (auto split: sum.splits review_error.splits overlay_error.splits)
  have l: "rp_layout (rr_plan review_record) = demo_plan_layout"
    by (simp add: review_record_def demo_run_record_def demo_plan_def)
  have "no_links (ov_fs (fl_ov review_files))" by (simp add: no_links_def review_files_def review_tree_def)
  moreover have "\<not> is_within (l_lower demo_plan_layout) (l_root demo_plan_layout)"
    "\<not> is_within (l_root demo_plan_layout) (l_lower demo_plan_layout)" by code_simp+
  moreover have "is_abs ''/''" by code_simp
  ultimately show ?thesis using failed_cleanup_leaves_half_commit [OF c demo_common(4) l] c by blast
qed

end
