(* ===== verification/Run_Flow.thy ===== *)
theory Run_Flow
  imports Review
begin

text \<open>
  The command \<open>rewind run\<close> (\<open>cmd/rewind/run.go\<close>): what it checks before anything is changed, and the
  course of a run from the plan to its end.  The coordinator is that of \<open>Coordinator\<close>, with its trace
  of actions; the record, the history and the checkpoint graph are the \<open>files\<close> of \<open>Review\<close>.  \<open>fatal\<close>
  ends the process: it is an exit that names the place.  The kernel's capabilities are those of
  \<open>internal/capabilities/report.go\<close>.
\<close>

subsection \<open>Capabilities\<close>

record capability_report =
  cb_overlay :: bool
  cb_fuse :: bool
  cb_btf :: bool
  cb_landlock :: bool
  cb_bpf_lsm :: bool
  cb_cgroup :: bool
  cb_seccomp :: bool
  cb_netns :: bool
  cb_warnings :: "string list"

datatype capability_error = NoKernelOverlay | NoFuseOverlay | NoReadEnforcement | NoSeccomp | NoCgroup

text \<open>What the probe reads: files (\<open>None\<close> if they cannot be read) and commands on the path.\<close>

record probe_env =
  pb_read :: "path \<Rightarrow> string option"
  pb_exists :: "path \<Rightarrow> bool"
  pb_command :: "string \<Rightarrow> bool"

definition readTrimmed :: "probe_env \<Rightarrow> path \<Rightarrow> string" where
  "readTrimmed b p = (case pb_read b p of None \<Rightarrow> [] | Some s \<Rightarrow> trim_space s)"

definition containsWord :: "string \<Rightarrow> string \<Rightarrow> bool" where
  "containsWord v needle = list_ex (\<lambda>item. trim_space item = needle) (split_on CHR '','' v)"

definition Probe :: "probe_env \<Rightarrow> capability_report" where
  "Probe b =
     (let overlayfs = sublist ''overlay'' (readTrimmed b ''/proc/filesystems'');
          lsm = readTrimmed b ''/sys/kernel/security/lsm'';
          landlock = containsWord lsm ''landlock''; bpf = containsWord lsm ''bpf'';
          cgroup = (pb_exists b ''/sys/fs/cgroup/cgroup.controllers'' \<and> readTrimmed b ''/sys/fs/cgroup/cgroup.controllers'' \<noteq> []);
          fuse = pb_command b ''fuse-overlayfs''
      in \<lparr>cb_overlay = overlayfs, cb_fuse = fuse, cb_btf = pb_exists b ''/sys/kernel/btf/vmlinux'',
          cb_landlock = landlock, cb_bpf_lsm = bpf, cb_cgroup = cgroup,
          cb_seccomp = pb_exists b ''/proc/sys/kernel/seccomp/actions_avail'', cb_netns = pb_command b ''unshare'',
          cb_warnings =
            (if \<not> overlayfs \<and> \<not> fuse then [''no OverlayFS or fuse-overlayfs backend detected''] else []) @
            (if \<not> landlock \<and> \<not> bpf then [''no filesystem enforcement LSM detected''] else []) @
            (if \<not> cgroup then [''cgroup-v2 is unavailable; process scope would be PID fallback''] else [])\<rparr>)"

definition ValidateForProtectedRun :: "capability_report \<Rightarrow> string \<Rightarrow> bool \<Rightarrow> bool \<Rightarrow> capability_error + unit" where
  "ValidateForProtectedRun r b enforceRead denyRaw =
     (if b = ''kernel'' \<and> \<not> cb_overlay r then Inl NoKernelOverlay
      else if b = ''fuse'' \<and> \<not> cb_fuse r then Inl NoFuseOverlay
      else if enforceRead \<and> \<not> cb_landlock r \<and> \<not> cb_bpf_lsm r then Inl NoReadEnforcement
      else if denyRaw \<and> \<not> cb_seccomp r then Inl NoSeccomp
      else if \<not> cb_cgroup r then Inl NoCgroup
      else Inr ())"

subsection \<open>Arguments\<close>

record run_args =
  ra_workspace :: path
  ra_runtime :: path
  ra_policy :: path
  ra_record :: path
  ra_object :: path
  ra_roots :: string
  ra_overlay :: string
  ra_network :: string
  ra_agent :: string
  ra_outcome :: string
  ra_history :: path
  ra_graph :: string
  ra_node :: string
  ra_parents :: string
  ra_command :: "string list"

datatype run_refusal =
    RunUsage | RunAgent agent_error | RunOverlay string | RunOutcome string | RunPolicy | RunPlanError build_error
  | RunOwner | RunMaxBytes | RunRotateBytes | RunCapability capability_error | RunNetns

text \<open>What \<open>handleRun\<close> reads of the host: the policy file, the identity, two variables of the environment.\<close>

record invoke_env =
  iv_build :: build_env
  iv_fs :: fs
  iv_policy :: "path \<Rightarrow> Policy option"
  iv_euid :: int
  iv_ids :: "int \<times> int"
  iv_sudo_uid :: string
  iv_sudo_gid :: string
  iv_atoi :: "string \<Rightarrow> int option"
  iv_max_bytes :: string
  iv_rotate_bytes :: string
  iv_probe :: probe_env

definition splitCSV :: "string \<Rightarrow> string list" where
  "splitCSV v = filter (\<lambda>x. x \<noteq> []) (map trim_space (split_on CHR '','' v))"

definition validateOnSuccess :: "string \<Rightarrow> bool" where
  "validateOnSuccess v = (v = ''discard'' \<or> v = ''review'')"

definition agentOwner :: "invoke_env \<Rightarrow> (int \<times> int) option" where
  "agentOwner v =
     (if iv_euid v \<noteq> 0 then Some (iv_ids v)
      else (case (iv_atoi v (iv_sudo_uid v), iv_atoi v (iv_sudo_gid v)) of
              (Some u, Some g) \<Rightarrow> if u < 1 \<or> g < 1 then None else Some (u, g)
            | _ \<Rightarrow> None))"

text \<open>An unset variable is no limit; a set one must be a positive number.\<close>

definition configured_bytes :: "string \<Rightarrow> nat option" where
  "configured_bytes raw =
     (let v = trim_space raw in
      if v = [] then Some 0
      else (case parse_uint64 v of None \<Rightarrow> None | Some n \<Rightarrow> if n = 0 then None else Some n))"

definition run_plan :: "invoke_env \<Rightarrow> run_args \<Rightarrow> run_refusal + RunPlan" where
  "run_plan v a =
     (if ra_command a = [] \<or> blank (ra_workspace a) \<or> blank (ra_runtime a) \<or> blank (ra_policy a) \<or> blank (ra_record a)
      then Inl RunUsage
      else and_then (map_err RunAgent (agent_Resolve (ra_agent a))) (\<lambda>spec.
        and_then (map_err RunAgent (agent_Prepare spec (ra_command a))) (\<lambda>_.
        if ra_overlay a \<noteq> ''fuse'' \<and> ra_overlay a \<noteq> ''kernel'' then Inl (RunOverlay (ra_overlay a))
        else if \<not> validateOnSuccess (ra_outcome a) then Inl (RunOutcome (ra_outcome a))
        else (case iv_policy v (ra_policy a) of
          None \<Rightarrow> Inl RunPolicy
        | Some pol \<Rightarrow>
            and_then (map_err RunPlanError (plan_Build (iv_build v) (iv_fs v)
              \<lparr>cf_workspace = ra_workspace a, cf_runtime_root = ra_runtime a, cf_policy = pol,
               cf_runtime_roots = splitCSV (ra_roots a), cf_overlay_backend = ra_overlay a,
               cf_network_backend = ra_network a, cf_agent = as_kind spec, cf_graph = ra_graph a,
               cf_checkpoint = ra_node a, cf_parents = splitCSV (ra_parents a)\<rparr>)) (\<lambda>plan.
            if agentOwner v = None then Inl RunOwner
            else if configured_bytes (iv_max_bytes v) = None then Inl RunMaxBytes
            else if configured_bytes (iv_rotate_bytes v) = None then Inl RunRotateBytes
            else and_then (map_err RunCapability (ValidateForProtectedRun (Probe (iv_probe v)) (ra_overlay a)
                   (rp_landlock plan \<noteq> None) (np_raw_deny (rp_network plan)))) (\<lambda>_.
              if np_ns (rp_network plan) \<and> \<not> cb_netns (Probe (iv_probe v)) then Inl RunNetns
              else Inr plan))))))"
subsection \<open>The findings after the run\<close>

definition piiFindingKey :: "Finding \<Rightarrow> string" where
  "piiFindingKey x =
     f_path x @ ''|'' @ f_kind x @ ''|'' @ show_nat (f_line x) @ ''|'' @ show_nat (f_column x) @ ''|'' @ f_hash x"

definition new_findings :: "Finding list \<Rightarrow> Finding list \<Rightarrow> Finding list" where
  "new_findings old found = filter (\<lambda>x. piiFindingKey x \<notin> piiFindingKey ` set old) found"

text \<open>\<open>f\<close> is the tree when the agent has ended.\<close>

definition scanPIIAfterRun :: "build_env \<Rightarrow> fs \<Rightarrow> RunPlan \<Rightarrow> pii_error + RunPlan" where
  "scanPIIAfterRun b f plan =
     (if rp_pii_mode plan = [] \<or> rp_pii_mode plan = ModeOff then Inr plan
      else (case ScanPath (be_sha b) (be_find_all b) (be_unreadable b) f (l_merged (rp_layout plan)) of
              Inl e \<Rightarrow> Inl e
            | Inr found \<Rightarrow> Inr (plan\<lparr>rp_pii := rp_pii plan @ new_findings (rp_pii plan) found\<rparr>)))"

subsection \<open>The course of a run\<close>

datatype run_stage =
    AtCheckpoint | AtPrepare | AtBoundary | AtScope | AtConfigure | AtRecord | AtHistory | AtHelper | AtProxy
  | AtStart | AtRunningCheckpoint | AtRunningRecord | AtRunningHistory | AtWait | AtPiiScan
  | AtDiscard | AtDiscardRecord | AtDiscardCheckpoint | AtDiscardHistory
  | AtReviewRecord | AtReviewHistory | AtReviewCheckpoint

datatype run_exit = Fatal run_stage | Discarded RunPlan | ReadyForReview RunPlan

text \<open>
  The environment: which preparations fail, the coordinator and its environment, the sensor's
  counters and the journal as functions of what has been done so far, and the tree that is scanned
  in the end.
\<close>

record run_env =
  rn_host :: host
  rn_fails :: "run_stage \<Rightarrow> bool"
  rn_coord :: Coordinator
  rn_env :: coord_env
  rn_sensor :: "trace \<Rightarrow> 64 word \<times> bool"
  rn_logs :: "trace \<Rightarrow> path \<Rightarrow> logfile"
  rn_build :: build_env
  rn_tree :: fs

definition host_at :: "run_env \<Rightarrow> trace \<Rightarrow> host" where
  "host_at rn tr = (rn_host rn)\<lparr>ht_logs := rn_logs rn tr\<rparr>"

definition events_path :: "RunPlan \<Rightarrow> path" where
  "events_path plan = path_join (l_root (rp_layout plan)) ''events.jsonl''"

definition persist :: "run_env \<Rightarrow> run_args \<Rightarrow> RunPlan \<Rightarrow> trace \<Rightarrow> files \<Rightarrow> files \<times> review_error option" where
  "persist rn a plan tr w =
     (case rn_sensor rn tr of (d, t) \<Rightarrow> persistRecordState (host_at rn tr) (ra_record a) plan (events_path plan) d t w)"

definition persist_history :: "run_env \<Rightarrow> run_args \<Rightarrow> RunPlan \<Rightarrow> files \<Rightarrow> files \<times> review_error option" where
  "persist_history rn a plan w = persistHistory (rn_host rn) (ra_history a) plan (ra_record a) w"

definition rolled :: "run_env \<Rightarrow> trace \<Rightarrow> Handle \<Rightarrow> trace \<times> Handle \<times> cerr list" where
  "rolled rn tr h = (case Handle_Rollback (rn_env rn) tr (Some h) of (tr', ho, es) \<Rightarrow> (tr', the ho, es))"

text \<open>Stop here, rolling back, or go on.\<close>

definition or_rollback ::
  "run_env \<Rightarrow> run_stage \<Rightarrow> trace \<Rightarrow> Handle \<Rightarrow> files \<times> review_error option \<Rightarrow>
     (files \<Rightarrow> trace \<times> files \<times> run_exit) \<Rightarrow> trace \<times> files \<times> run_exit" where
  "or_rollback rn st tr h x k =
     (case x of
        (w, None) \<Rightarrow> k w
      | (w, Some _) \<Rightarrow> (fst (rolled rn tr h), w, Fatal st))"

definition or_stop ::
  "run_stage \<Rightarrow> trace \<Rightarrow> files \<times> review_error option \<Rightarrow> (files \<Rightarrow> trace \<times> files \<times> run_exit) \<Rightarrow> trace \<times> files \<times> run_exit" where
  "or_stop st tr x k = (case x of (w, None) \<Rightarrow> k w | (w, Some _) \<Rightarrow> (tr, w, Fatal st))"

definition run_review :: "run_env \<Rightarrow> run_args \<Rightarrow> trace \<Rightarrow> Handle \<Rightarrow> files \<Rightarrow> trace \<times> files \<times> run_exit" where
  "run_review rn a tr h w =
     or_rollback rn AtReviewRecord tr h (persist rn a (h_plan h) tr w) (\<lambda>w1.
     or_rollback rn AtReviewHistory tr h (persist_history rn a (h_plan h) w1) (\<lambda>w2.
     or_stop AtReviewCheckpoint tr (transitionCheckpoint (rn_host rn) (h_plan h) Checkpoint.Succeeded w2) (\<lambda>w3.
       (tr, w3, ReadyForReview (h_plan h)))))"

definition run_discard :: "run_env \<Rightarrow> run_args \<Rightarrow> trace \<Rightarrow> Handle \<Rightarrow> files \<Rightarrow> trace \<times> files \<times> run_exit" where
  "run_discard rn a tr h w =
     (case rolled rn tr h of (tr', h', es) \<Rightarrow>
        if es \<noteq> [] then (tr', fst (persist rn a (h_plan h') tr' w), Fatal AtDiscard)
        else
          or_stop AtDiscardRecord tr' (persist rn a (h_plan h') tr' w) (\<lambda>w1.
          or_stop AtDiscardCheckpoint tr' (rollbackCheckpoint (rn_host rn) (h_plan h') w1) (\<lambda>w2.
          or_stop AtDiscardHistory tr' (persist_history rn a (h_plan h') w2) (\<lambda>w3.
            (tr', w3, Discarded (h_plan h'))))))"

definition run_wait :: "run_env \<Rightarrow> run_args \<Rightarrow> trace \<Rightarrow> Handle \<Rightarrow> files \<Rightarrow> trace \<times> files \<times> run_exit" where
  "run_wait rn a tr h w =
     (case Handle_wait (rn_env rn) tr (Some h) True of (tr1, ho, es) \<Rightarrow>
        let h1 = the ho in
        if es \<noteq> [] then
          (let w1 = fst (rollbackCheckpoint (rn_host rn) (h_plan h1) w) in
           case rolled rn tr1 h1 of (tr2, h2, _) \<Rightarrow>
             (tr2, fst (persist_history rn a (h_plan h2) (fst (persist rn a (h_plan h2) tr2 w1))), Fatal AtWait))
        else
          (case scanPIIAfterRun (rn_build rn) (rn_tree rn) (h_plan h1) of
             Inl _ \<Rightarrow> (fst (rolled rn tr1 h1), w, Fatal AtPiiScan)
           | Inr plan \<Rightarrow>
               (let h2 = h1\<lparr>h_plan := plan\<rparr> in
                if ra_outcome a = ''discard'' then run_discard rn a tr1 h2 w else run_review rn a tr1 h2 w)))"

definition run_started :: "run_env \<Rightarrow> run_args \<Rightarrow> trace \<Rightarrow> Handle \<Rightarrow> files \<Rightarrow> trace \<times> files \<times> run_exit" where
  "run_started rn a tr h w =
     or_rollback rn AtRunningCheckpoint tr h (transitionCheckpoint (rn_host rn) (h_plan h) Checkpoint.Running w) (\<lambda>w1.
     or_rollback rn AtRunningRecord tr h (persist rn a (h_plan h) tr w1) (\<lambda>w2.
     or_rollback rn AtRunningHistory tr h (persist_history rn a (h_plan h) w2) (\<lambda>w3.
       run_wait rn a tr h w3)))"

definition run_agent :: "run_env \<Rightarrow> run_args \<Rightarrow> RunPlan \<Rightarrow> files \<Rightarrow> trace \<times> files \<times> run_exit" where
  "run_agent rn a plan w =
     (case Start (rn_coord rn) (rn_env rn) [] (Some plan) (ra_command a) (ra_object a) of (tr, po, ho, es) \<Rightarrow>
        if es \<noteq> [] then (tr, fst (persist rn a (the po) tr w), Fatal AtStart)
        else run_started rn a tr (the ho) w)"

definition add_checkpoint :: "host \<Rightarrow> RunPlan \<Rightarrow> files \<Rightarrow> files \<times> review_error option" where
  "add_checkpoint h plan w =
     (let g = rp_graph plan in
      if g = [] then (w, None)
      else (case Add (ht_now h) (ht_graph_ok h) (Open (fl_graphs w (trim_space g)) g)
                   \<lparr>n_id = rp_checkpoint plan, n_run = plan_id plan, n_parents = rp_parents plan,
                    n_state = cstate.OtherState [], n_created = 0, n_updated = 0\<rparr> of
              (s, r) \<Rightarrow> (w\<lparr>fl_graphs := (fl_graphs w)(trim_space g := st_file s)\<rparr>, map_option GraphError r)))"

text \<open>A preparation that only may fail.\<close>

definition needs :: "run_env \<Rightarrow> run_stage \<Rightarrow> files \<Rightarrow> trace \<times> files \<times> run_exit \<Rightarrow> trace \<times> files \<times> run_exit" where
  "needs rn st w k = (if rn_fails rn st then ([], w, Fatal st) else k)"

definition run_planned :: "run_env \<Rightarrow> run_args \<Rightarrow> RunPlan \<Rightarrow> files \<Rightarrow> trace \<times> files \<times> run_exit" where
  "run_planned rn a plan w =
     or_stop AtCheckpoint [] (add_checkpoint (rn_host rn) plan w) (\<lambda>w1.
     needs rn AtPrepare w1 (needs rn AtBoundary w1 (needs rn AtScope w1 (needs rn AtConfigure w1 (
     or_stop AtRecord [] (persistRecordState (host_at rn []) (ra_record a) plan (events_path plan) 0 False w1) (\<lambda>w2.
     or_stop AtHistory [] (persist_history rn a plan w2) (\<lambda>w3.
     needs rn AtHelper w3 (needs rn AtProxy w3 (run_agent rn a plan w3)))))))))"

definition handleRun :: "invoke_env \<Rightarrow> run_env \<Rightarrow> run_args \<Rightarrow> files \<Rightarrow> run_refusal + trace \<times> files \<times> run_exit" where
  "handleRun v rn a w = and_then (run_plan v a) (\<lambda>plan. Inr (run_planned rn a plan w))"
subsection \<open>The handle keeps its overlay\<close>

lemma kill_agent_overlay: "kill_agent env tr h = (tr', h', e) \<Longrightarrow> h_overlay h' = h_overlay h"
  by (auto simp: kill_agent_def act_def split: if_splits)

lemma clean_network_overlay: "clean_network env tr h = (tr', h', e) \<Longrightarrow> h_overlay h' = h_overlay h"
  by (auto simp: clean_network_def stopNetworkRefresh_def act_def split: if_splits)

lemma closeSensor_overlay: "closeSensor env tr h = (tr', h', e) \<Longrightarrow> h_overlay h' = h_overlay h"
  by (auto simp: closeSensor_def act_def split: if_splits)

lemma closeScope_overlay: "closeScope env tr h = (tr', h', e) \<Longrightarrow> h_overlay h' = h_overlay h"
  by (auto simp: closeScope_def act_def split: if_splits)

lemmas handle_overlay = kill_agent_overlay clean_network_overlay closeSensor_overlay closeScope_overlay

lemma started_overlay:
  "start_gate env tr h = (tr', h', []) \<Longrightarrow> h_overlay h' = h_overlay h"
  "start_sensor c env obj tr h = (tr', h', []) \<Longrightarrow> h_overlay h' = h_overlay h"
  "start_network c env obj tr h = (tr', h', []) \<Longrightarrow> h_overlay h' = h_overlay h"
  "start_scope c env obj tr h = (tr', h', []) \<Longrightarrow> h_overlay h' = h_overlay h"
  "start_agent c env obj tr h = (tr', h', []) \<Longrightarrow> h_overlay h' = h_overlay h"
proof -
  have f: "failAndRollback env tr h c \<noteq> (tr', h', [])" for tr h c tr' h'
    by (auto simp: failAndRollback_def split: prod.splits)
  show g: "start_gate env tr h = (tr', h', []) \<Longrightarrow> h_overlay h' = h_overlay h" for tr h tr' h'
    using f by (auto simp: start_gate_def act_def split: if_splits)
  show s: "start_sensor c env obj tr h = (tr', h', []) \<Longrightarrow> h_overlay h' = h_overlay h" for tr h tr' h'
    using f g by (auto simp: start_sensor_def act_def dest!: g split: if_splits)
  show n: "start_network c env obj tr h = (tr', h', []) \<Longrightarrow> h_overlay h' = h_overlay h" for tr h tr' h'
    using f by (auto simp: start_network_def act_def dest!: s split: if_splits)
  show p: "start_scope c env obj tr h = (tr', h', []) \<Longrightarrow> h_overlay h' = h_overlay h" for tr h tr' h'
    using f by (auto simp: start_scope_def act_def dest!: n split: if_splits)
  show "start_agent c env obj tr h = (tr', h', []) \<Longrightarrow> h_overlay h' = h_overlay h" for tr h tr' h'
    using f by (auto simp: start_agent_def act_def Let_def dest!: p split: if_splits prod.splits)
qed

lemma Handle_wait_handle:
  assumes "Handle_wait env tr (Some h) hook = (tr', ho, es)"
  shows "\<exists>h'. ho = Some h' \<and> h_overlay h' = h_overlay h"
  using assms
  by (auto simp: Handle_wait_def Let_def split: if_splits prod.splits dest!: handle_overlay)

text \<open>Rolling back calls the overlay's rollback last; the call's failure is an error of the whole.\<close>

lemma rolled_last:
  assumes "h_overlay h" and "rolled rn tr h = (tr', h', es)"
  shows "\<exists>xs. tr' = xs @ [RollsBack] \<and> (ce_fails (rn_env rn) xs RollsBack \<longrightarrow> es \<noteq> [])"
  using assms by (auto simp: rolled_def Handle_Rollback_def undo_def act_def Let_def split: prod.splits if_splits)

lemma rolled_trace: "h_overlay h \<Longrightarrow> rolled rn tr h = (tr', h', es) \<Longrightarrow> RollsBack \<in> set tr'"
  by (auto simp: rolled_def Handle_Rollback_def undo_def act_def Let_def split: prod.splits if_splits)
subsection \<open>No run leaves a mount behind\<close>

text \<open>
  The overlay is still mounted: mounting it succeeded, and every rollback of it since then failed.
\<close>

definition left_mounted :: "coord_env \<Rightarrow> trace \<Rightarrow> bool" where
  "left_mounted env tr \<longleftrightarrow> (\<exists>xs ys. tr = xs @ Mounts # ys \<and> \<not> ce_fails env xs Mounts \<and>
     (\<forall>us vs. ys = us @ RollsBack # vs \<longrightarrow> ce_fails env (xs @ Mounts # us) RollsBack))"

definition ended :: "coord_env \<Rightarrow> trace \<Rightarrow> run_exit \<Rightarrow> bool" where
  "ended env tr x \<longleftrightarrow>
     (\<exists>xs. tr = xs @ [RollsBack] \<and> (ce_fails env xs RollsBack \<longrightarrow> (\<exists>st. x = Fatal st))) \<or>
     x = Fatal AtReviewCheckpoint \<or> (\<exists>p. x = ReadyForReview p)"

lemma rolled_fst: "h_overlay h \<Longrightarrow> RollsBack \<in> set (fst (rolled rn tr h))"
  using rolled_trace by (metis prod.collapse)

lemma rolled_ended: "h_overlay h \<Longrightarrow> ended (rn_env rn) (fst (rolled rn tr h)) (Fatal st)"
  using rolled_last [of h rn tr] by (cases "rolled rn tr h") (auto simp: ended_def)

lemma or_rollback_ended:
  "h_overlay h \<Longrightarrow> or_rollback rn st tr h x k = (tr', w', y) \<Longrightarrow>
     (\<And>w. x = (w, None) \<Longrightarrow> k w = (tr', w', y) \<Longrightarrow> ended (rn_env rn) tr' y) \<Longrightarrow> ended (rn_env rn) tr' y"
  using rolled_ended [of h rn tr] by (auto simp: or_rollback_def split: prod.splits option.splits)

lemma run_review_ended:
  assumes "h_overlay h" and "run_review rn a tr h w = (tr', w', x)"
  shows "ended (rn_env rn) tr' x"
proof (rule or_rollback_ended [OF assms(1) assms(2) [unfolded run_review_def]])
  fix w1 assume "or_rollback rn AtReviewHistory tr h (persist_history rn a (h_plan h) w1)
     (\<lambda>w2. or_stop AtReviewCheckpoint tr (transitionCheckpoint (rn_host rn) (h_plan h) Checkpoint.Succeeded w2)
        (\<lambda>w3. (tr, w3, ReadyForReview (h_plan h)))) = (tr', w', x)"
  then show "ended (rn_env rn) tr' x"
    by (rule or_rollback_ended [OF assms(1)]) (auto simp: or_stop_def ended_def split: prod.splits option.splits)
qed

lemma run_discard_ended:
  assumes "h_overlay h" and "run_discard rn a tr h w = (tr', w', x)"
  shows "ended (rn_env rn) tr' x"
proof -
  obtain t h1 es where r: "rolled rn tr h = (t, h1, es)" by (metis prod_cases3)
  have "tr' = t \<and> (es \<noteq> [] \<longrightarrow> x = Fatal AtDiscard)"
    using assms(2) r by (auto simp: run_discard_def or_stop_def split: prod.splits option.splits if_splits)
  then show ?thesis using rolled_last [OF assms(1) r] by (auto simp: ended_def)
qed

lemma run_wait_ended:
  assumes "h_overlay h" and "run_wait rn a tr h w = (tr', w', x)"
  shows "ended (rn_env rn) tr' x"
proof -
  obtain tr1 ho es where wt: "Handle_wait (rn_env rn) tr (Some h) True = (tr1, ho, es)" by (metis prod_cases3)
  then obtain h1 where h1: "ho = Some h1" "h_overlay h1" using Handle_wait_handle assms(1) by fastforce
  show ?thesis
  proof (cases "es = []")
    case False
    obtain tr2 h2 e2 where r: "rolled rn tr1 h1 = (tr2, h2, e2)" by (metis prod_cases3)
    then have "tr' = fst (rolled rn tr1 h1) \<and> x = Fatal AtWait" using assms(2) wt h1(1) False by (auto simp: run_wait_def Let_def)
    then show ?thesis using rolled_ended [OF h1(2)] by simp
  next
    case True
    show ?thesis
    proof (cases "scanPIIAfterRun (rn_build rn) (rn_tree rn) (h_plan h1)")
      case (Inl e)
      then have "tr' = fst (rolled rn tr1 h1) \<and> x = Fatal AtPiiScan" using assms(2) wt h1(1) True by (auto simp: run_wait_def Let_def)
      then show ?thesis using rolled_ended [OF h1(2)] by simp
    next
      case (Inr plan)
      have ov: "h_overlay (h1\<lparr>h_plan := plan\<rparr>)" using h1(2) by simp
      have "(if ra_outcome a = ''discard'' then run_discard rn a tr1 (h1\<lparr>h_plan := plan\<rparr>) w
          else run_review rn a tr1 (h1\<lparr>h_plan := plan\<rparr>) w) = (tr', w', x)"
        using assms(2) wt h1(1) True Inr by (simp add: run_wait_def Let_def)
      then show ?thesis using run_discard_ended [OF ov] run_review_ended [OF ov] by metis
    qed
  qed
qed

lemma run_started_ended:
  assumes "h_overlay h" and "run_started rn a tr h w = (tr', w', x)"
  shows "ended (rn_env rn) tr' x"
  using assms(2) run_wait_ended [OF assms(1)] or_rollback_ended [OF assms(1)]
  unfolding run_started_def by metis

lemma Start_handle:
  assumes "Start c env tr (Some p) command obj = (tr', po, ho, [])"
  shows "\<exists>h. ho = Some h \<and> po = Some (h_plan h) \<and> h_overlay h"
  using assms by (fastforce simp: Start_def Let_def act_def split: if_splits prod.splits dest!: started_overlay(5))

lemma Start_failed:
  assumes "live_plan p" and "Start c env [] (Some p) command obj = (tr, po, ho, es)" and "es \<noteq> []"
    and "left_mounted env tr"
  shows "\<exists>xs. tr = xs @ [RollsBack]"
proof -
  have "tr \<noteq> []" "tr = [Mounts] \<Longrightarrow> \<not> ce_fails env [] Mounts"
    using assms(4) by (auto simp: left_mounted_def Cons_eq_append_conv)
  then obtain p' h where "po = Some p'" "ho = Some h"
    using assms(2,3) by (auto simp: Start_def Let_def act_def split: if_splits prod.splits)
  then show ?thesis using Start_started [OF assms(1), of c env "[]" command obj] assms(2,3)
    by (auto simp: started_def closed_failure_def unwind_def)
qed

lemma run_agent_ended:
  assumes "live_plan p" and "run_agent rn a p w = (tr, w', x)" and "left_mounted (rn_env rn) tr"
  shows "ended (rn_env rn) tr x"
proof -
  obtain tr1 po ho es where s: "Start (rn_coord rn) (rn_env rn) [] (Some p) (ra_command a) (ra_object a) = (tr1, po, ho, es)"
    by (metis prod_cases4)
  show ?thesis
  proof (cases "es = []")
    case True
    then show ?thesis using Start_handle [of "rn_coord rn" "rn_env rn" "[]" p] s assms(2) run_started_ended
      by (fastforce simp: run_agent_def)
  next
    case False
    then have "tr = tr1 \<and> x = Fatal AtStart" using s assms(2) by (auto simp: run_agent_def)
    then show ?thesis using Start_failed [OF assms(1) s False] assms(3) by (auto simp: ended_def)
  qed
qed

lemma left_mounted_last:
  assumes "left_mounted env tr" and "tr = xs @ [RollsBack]"
  shows "ce_fails env xs RollsBack"
proof -
  obtain us ys where t: "tr = us @ Mounts # ys" and f: "\<forall>vs ws. ys = vs @ RollsBack # ws \<longrightarrow> ce_fails env (us @ Mounts # vs) RollsBack"
    using assms(1) by (auto simp: left_mounted_def)
  have "ys \<noteq> []" using t assms(2) by auto
  then obtain zs where "ys = zs @ [RollsBack]" "xs = us @ Mounts # zs"
    using t assms(2) by (cases ys rule: rev_cases) auto
  then show ?thesis using f by blast
qed

text \<open>
  C6. Whatever fails on the way, the overlay is still mounted when the command ends (mounting it
  succeeded and no rollback of it did) in three cases only: the run is ready for review; the
  checkpoint could not be marked after the run was already recorded for review; or the command
  rolled the overlay back as the last thing it did, that call failed, and the command ended with an
  error.
\<close>

theorem run_leaves_mount_only_for_review:
  assumes "run_planned rn a plan w = (tr, w', x)" and "live_plan plan" and "left_mounted (rn_env rn) tr"
  shows "(\<exists>p. x = ReadyForReview p) \<or> x = Fatal AtReviewCheckpoint \<or>
    (\<exists>xs st. tr = xs @ [RollsBack] \<and> ce_fails (rn_env rn) xs RollsBack \<and> x = Fatal st)"
proof -
  have "tr \<noteq> []" using assms(3) by (auto simp: left_mounted_def)
  then have "\<exists>w3. run_agent rn a plan w3 = (tr, w', x)"
    using assms(1) by (auto simp: run_planned_def or_stop_def needs_def split: prod.splits option.splits if_splits)
  then have "ended (rn_env rn) tr x" using run_agent_ended [OF assms(2) _ assms(3)] by blast
  moreover have "ce_fails (rn_env rn) xs RollsBack" if "tr = xs @ [RollsBack]" for xs
    by (rule left_mounted_last [OF assms(3) that])
  ultimately show ?thesis unfolding ended_def by blast
qed
subsection \<open>What a finished run leaves on record\<close>

lemma or_rollback_exit:
  "or_rollback rn st tr h x k = (tr', w', y) \<Longrightarrow> (\<forall>s. y \<noteq> Fatal s) \<Longrightarrow> \<exists>w. x = (w, None) \<and> k w = (tr', w', y)"
  by (auto simp: or_rollback_def split: prod.splits option.splits)

lemma or_stop_exit:
  "or_stop st tr x k = (tr', w', y) \<Longrightarrow> (\<forall>s. y \<noteq> Fatal s) \<Longrightarrow> \<exists>w. x = (w, None) \<and> k w = (tr', w', y)"
  by (auto simp: or_stop_def split: prod.splits option.splits)

lemma run_review_exit:
  assumes "run_review rn a tr h w = (tr', w', ReadyForReview p)"
  shows "tr' = tr \<and> p = h_plan h \<and> (\<exists>w1. persist rn a p tr w = (w1, None) \<and> fl_records w' = fl_records w1)"
proof -
  obtain w1 where w1: "persist rn a (h_plan h) tr w = (w1, None)"
    and k: "or_rollback rn AtReviewHistory tr h (persist_history rn a (h_plan h) w1) (\<lambda>w2.
     or_stop AtReviewCheckpoint tr (transitionCheckpoint (rn_host rn) (h_plan h) Checkpoint.Succeeded w2) (\<lambda>w3.
       (tr, w3, ReadyForReview (h_plan h)))) = (tr', w', ReadyForReview p)"
    using or_rollback_exit [OF assms [unfolded run_review_def]] by auto
  obtain w2 where w2: "persist_history rn a (h_plan h) w1 = (w2, None)"
    and k2: "or_stop AtReviewCheckpoint tr (transitionCheckpoint (rn_host rn) (h_plan h) Checkpoint.Succeeded w2) (\<lambda>w3.
       (tr, w3, ReadyForReview (h_plan h))) = (tr', w', ReadyForReview p)"
    using or_rollback_exit [OF k] by auto
  obtain w3 where w3: "transitionCheckpoint (rn_host rn) (h_plan h) Checkpoint.Succeeded w2 = (w3, None)"
    and k3: "(tr, w3, ReadyForReview (h_plan h)) = (tr', w', ReadyForReview p)"
    using or_stop_exit [OF k2] by auto
  have "fl_records w2 = fl_records w1" using persistHistory_keeps w2 by (auto simp: persist_history_def)
  moreover have "fl_records w3 = fl_records w2" using graph_call_keeps w3 by (auto simp: transitionCheckpoint_def)
  ultimately show ?thesis using w1 k3 by auto
qed

lemma scan_keeps_run: "scanPIIAfterRun b f plan = Inr plan' \<Longrightarrow> rp_run plan' = rp_run plan \<and> rp_layout plan' = rp_layout plan"
  by (auto simp: scanPIIAfterRun_def split: if_splits sum.splits)

lemma wait_succeeds:
  assumes "Handle_wait env tr (Some h) hook = (tr', Some h', [])"
  shows "plan_state (h_plan h') = Lifecycle.Succeeded \<and> Waits \<in> set tr'"
proof -
  have m: "plan_state p' = s" if "move env p s = (p', [])" for p p' s
    using that Transition_state by (auto simp: move_def plan_state_def split: sum.splits)
  have tr: "\<exists>t. tr2 = tr1 @ t" if "clean_network env tr1 g = (tr2, g', e)" for tr1 tr2 g g' e
    using that by (auto simp: clean_network_def stopNetworkRefresh_def act_def split: if_splits)
  have sn: "\<exists>t. tr2 = tr1 @ t" if "closeSensor env tr1 g = (tr2, g', e)" for tr1 tr2 g g' e
    using that by (auto simp: closeSensor_def act_def split: if_splits)
  have sc: "\<exists>t. tr2 = tr1 @ t" if "closeScope env tr1 g = (tr2, g', e)" for tr1 tr2 g g' e
    using that by (auto simp: closeScope_def act_def split: if_splits prod.splits)
  show ?thesis
    using assms m
    by (auto simp: Handle_wait_def Let_def act_def split: if_splits prod.splits dest!: tr sn sc)
qed
lemma run_wait_review:
  assumes "run_wait rn a tr h w = (tr', w', ReadyForReview p)"
  shows "plan_state p = Lifecycle.Succeeded \<and> Waits \<in> set tr' \<and> ra_outcome a \<noteq> ''discard'' \<and>
    (\<exists>w1 w2. persist rn a p tr' w1 = (w2, None) \<and> fl_records w' = fl_records w2)"
proof -
  obtain tr1 ho es where wt: "Handle_wait (rn_env rn) tr (Some h) True = (tr1, ho, es)" by (metis prod_cases3)
  then obtain h1 where h1: "ho = Some h1" using Handle_wait_handle by blast
  have es: "es = []" using assms wt by (auto simp: run_wait_def Let_def split: prod.splits if_splits)
  obtain plan where pl: "scanPIIAfterRun (rn_build rn) (rn_tree rn) (h_plan h1) = Inr plan"
    using assms wt h1 es by (auto simp: run_wait_def Let_def split: sum.splits)
  have d: "(if ra_outcome a = ''discard'' then run_discard rn a tr1 (h1\<lparr>h_plan := plan\<rparr>) w
      else run_review rn a tr1 (h1\<lparr>h_plan := plan\<rparr>) w) = (tr', w', ReadyForReview p)"
    using assms wt h1 es pl by (simp add: run_wait_def Let_def)
  have "run_discard rn a t g v \<noteq> (tr', w', ReadyForReview p)" for t g v
    by (auto simp: run_discard_def or_stop_def split: prod.splits option.splits if_splits)
  then have o: "ra_outcome a \<noteq> ''discard''" and r: "run_review rn a tr1 (h1\<lparr>h_plan := plan\<rparr>) w = (tr', w', ReadyForReview p)"
    using d by (auto split: if_splits)
  note e = run_review_exit [OF r]
  have "plan_state p = Lifecycle.Succeeded"
    using e wait_succeeds [OF wt [unfolded h1 es]] scan_keeps_run [OF pl] by (simp add: plan_state_def)
  then show ?thesis using e o wait_succeeds [OF wt [unfolded h1 es]] by auto
qed

text \<open>An end that is not a failure before the agent is waited for.\<close>

fun late :: "run_exit \<Rightarrow> bool" where
  "late (Fatal s) = (s \<in> {AtWait, AtPiiScan, AtDiscard, AtDiscardRecord, AtDiscardCheckpoint, AtDiscardHistory,
     AtReviewRecord, AtReviewHistory, AtReviewCheckpoint})"
| "late _ = True"

lemma or_rollback_late:
  "or_rollback rn st tr h x k = (tr', w', y) \<Longrightarrow> late y \<Longrightarrow> \<not> late (Fatal st) \<Longrightarrow> \<exists>w. x = (w, None) \<and> k w = (tr', w', y)"
  by (auto simp: or_rollback_def split: prod.splits option.splits)

lemma run_planned_waits:
  assumes "run_planned rn a plan w = (tr, w', x)" and "late x"
  obtains tr1 po h w4 w5 w6 where "Start (rn_coord rn) (rn_env rn) [] (Some plan) (ra_command a) (ra_object a) = (tr1, po, Some h, [])"
    and "h_overlay h" and "po = Some (h_plan h)" and "persist rn a (h_plan h) tr1 w4 = (w5, None)"
    and "persist_history rn a (h_plan h) w5 = (w6, None)" and "run_wait rn a tr1 h w6 = (tr, w', x)"
proof -
  obtain w3 where ag: "run_agent rn a plan w3 = (tr, w', x)"
    using assms by (auto simp: run_planned_def or_stop_def needs_def split: prod.splits option.splits if_splits)
  obtain tr1 po ho where st: "Start (rn_coord rn) (rn_env rn) [] (Some plan) (ra_command a) (ra_object a) = (tr1, po, ho, [])"
    and go: "run_started rn a tr1 (the ho) w3 = (tr, w', x)"
    using ag assms(2) by (auto simp: run_agent_def split: prod.splits if_splits)
  obtain h where h: "ho = Some h" "po = Some (h_plan h)" "h_overlay h" using Start_handle [OF st] by blast
  have go: "run_started rn a tr1 h w3 = (tr, w', x)" using go h(1) by simp
  obtain w4 where k1: "or_rollback rn AtRunningRecord tr1 h (persist rn a (h_plan h) tr1 w4) (\<lambda>w2.
     or_rollback rn AtRunningHistory tr1 h (persist_history rn a (h_plan h) w2) (\<lambda>w3. run_wait rn a tr1 h w3)) = (tr, w', x)"
    using or_rollback_late [OF go [unfolded run_started_def] assms(2)] by auto
  obtain w5 where p: "persist rn a (h_plan h) tr1 w4 = (w5, None)"
    and k2: "or_rollback rn AtRunningHistory tr1 h (persist_history rn a (h_plan h) w5) (\<lambda>w3. run_wait rn a tr1 h w3) = (tr, w', x)"
    using or_rollback_late [OF k1 assms(2)] by auto
  show thesis
    using or_rollback_late [OF k2 assms(2)] that [of tr1 po h w4 w5] st h p by auto
qed

lemma run_planned_review:
  assumes "run_planned rn a plan w = (tr, w', ReadyForReview p)"
  shows "plan_state p = Lifecycle.Succeeded \<and> Waits \<in> set tr \<and> ra_outcome a \<noteq> ''discard'' \<and>
    (\<exists>w1 w2. persist rn a p tr w1 = (w2, None) \<and> fl_records w' = fl_records w2)"
proof (rule run_planned_waits [OF assms])
  fix tr1 h w6 assume "run_wait rn a tr1 h w6 = (tr, w', ReadyForReview p)"
  then show ?thesis by (rule run_wait_review)
qed simp

lemma persist_record:
  assumes "persist rn a plan tr w = (w', None)"
  shows "\<exists>r ev. fl_records w' (ra_record a) = StoredRecord r \<and> rr_plan r = plan \<and>
    rr_events r = WithTruncated (WithDropped ev (fst (rn_sensor rn tr))) (snd (rn_sensor rn tr))"
  using assms
  by (cases "rn_sensor rn tr") (auto simp: persist_def persistRecordState_def Let_def write_record_None split: sum.splits)

lemma lossy_evidence:
  "rr_events r = WithTruncated (WithDropped ev d) t \<Longrightarrow> d > 0 \<or> t \<Longrightarrow> isl (evidenceCompleteness r)"
  by (auto simp: evidenceCompleteness_def WithTruncated_def WithDropped_def Let_def)

lemma commit_needs_evidence: "isl (evidenceCompleteness r) \<Longrightarrow> \<exists>e. commit_record h p r w = (w, Inl e)"
  by (cases "evidenceCompleteness r") (auto simp: commit_record_def Let_def)

text \<open>
  C5. A run that ends for review is on record as succeeded, after the agent has ended; and if the sensor
  lost an event, dropped by the kernel or cut from the journal, no commit of the recorded run goes
  through or changes anything.
\<close>

theorem lossy_run_cannot_be_committed:
  assumes "run_planned rn a plan w = (tr, w', ReadyForReview p)"
  shows "plan_state p = Lifecycle.Succeeded \<and> Waits \<in> set tr \<and>
    (\<exists>r. fl_records w' (ra_record a) = StoredRecord r \<and> rr_plan r = p \<and>
       (fst (rn_sensor rn tr) > 0 \<or> snd (rn_sensor rn tr) \<longrightarrow>
          (\<forall>h v. \<exists>e. commit_record h (ra_record a) r v = (v, Inl e))))"
proof -
  obtain w1 w2 where pr: "persist rn a p tr w1 = (w2, None)" and rec: "fl_records w' = fl_records w2"
    and st: "plan_state p = Lifecycle.Succeeded" "Waits \<in> set tr"
    using run_planned_review [OF assms] by blast
  obtain r ev where "fl_records w2 (ra_record a) = StoredRecord r" "rr_plan r = p"
    "rr_events r = WithTruncated (WithDropped ev (fst (rn_sensor rn tr))) (snd (rn_sensor rn tr))"
    using persist_record [OF pr] by blast
  then show ?thesis using rec st lossy_evidence commit_needs_evidence by metis
qed
subsection \<open>An example\<close>

definition demo_run_args :: "string \<Rightarrow> run_args" where
  "demo_run_args outcome = \<lparr>ra_workspace = ''/w'', ra_runtime = ''/r'', ra_policy = ''/p'', ra_record = ''/rec2'', ra_object = ''sensor.o'',
     ra_roots = [], ra_overlay = ''kernel'', ra_network = [], ra_agent = [], ra_outcome = outcome, ra_history = ''/h'', ra_graph = [],
     ra_node = [], ra_parents = [], ra_command = [''agent'']\<rparr>"

definition demo_run_env :: "act set \<Rightarrow> 64 word \<Rightarrow> run_env" where
  "demo_run_env bad d = \<lparr>rn_host = review_host, rn_fails = (\<lambda>_. False), rn_coord = demo_coordinator, rn_env = demo_coord_env bad,
     rn_sensor = (\<lambda>_. (d, False)), rn_logs = (\<lambda>_ _. LogMissing), rn_build = demo_build, rn_tree = review_tree\<rparr>"

definition demo_run :: "act set \<Rightarrow> 64 word \<Rightarrow> string \<Rightarrow> trace \<times> files \<times> run_exit" where
  "demo_run bad d outcome = run_planned (demo_run_env bad d) (demo_run_args outcome) demo_ready_plan review_files"

text \<open>A sensor that does not attach, and an overlay that cannot be rolled back: it stays mounted, and the command fails.\<close>

lemma failed_attach: "(case demo_run {Attaches, RollsBack} 3 ''review'' of (tr, w, x) \<Rightarrow>
     tr = [Mounts, Starts, AddsPID, Prepares, StartsRefresh, Attaches, Kills, StopsRefresh, Terminates, ClosesScope, RollsBack] \<and>
     x = Fatal AtStart)"
  by code_simp

theorem run_leaves_mount_only_for_review_witness:
  "\<exists>tr w' x xs st. demo_run {Attaches, RollsBack} 3 ''review'' = (tr, w', x) \<and> tr = xs @ [RollsBack] \<and> x = Fatal st"
proof -
  let ?e = "rn_env (demo_run_env {Attaches, RollsBack} 3)"
  obtain tr w' x where r: "demo_run {Attaches, RollsBack} 3 ''review'' = (tr, w', x)" by (metis prod_cases3)
  have t: "tr = [] @ Mounts # [Starts, AddsPID, Prepares, StartsRefresh, Attaches, Kills, StopsRefresh, Terminates, ClosesScope, RollsBack]"
    "x = Fatal AtStart" using failed_attach r by simp_all
  have "ce_fails ?e zs RollsBack" "\<not> ce_fails ?e [] Mounts" for zs by (simp_all add: demo_run_env_def demo_coord_env_def)
  then have "left_mounted ?e tr" unfolding left_mounted_def using t(1) by blast
  from run_leaves_mount_only_for_review [OF r [unfolded demo_run_def] demo_live this] t(2) r show ?thesis by fastforce
qed

definition ready :: "run_exit \<Rightarrow> bool" where
  "ready x = (case x of ReadyForReview p \<Rightarrow> True | _ \<Rightarrow> False)"

lemma run_ready: "ready (snd (snd (demo_run {} 3 ''review'')))"
  by code_simp

theorem lossy_run_cannot_be_committed_witness:
  "\<exists>tr w' p r. demo_run {} 3 ''review'' = (tr, w', ReadyForReview p) \<and> fl_records w' ''/rec2'' = StoredRecord r \<and>
     (\<forall>h v. \<exists>e. commit_record h ''/rec2'' r v = (v, Inl e))"
proof -
  obtain tr w' p where r: "demo_run {} 3 ''review'' = (tr, w', ReadyForReview p)"
    using run_ready by (cases "demo_run {} 3 ''review''") (auto simp: ready_def split: run_exit.splits)
  have "fst (rn_sensor (demo_run_env {} 3) tr) > 0" "ra_record (demo_run_args ''review'') = ''/rec2''"
    by (simp_all add: demo_run_env_def demo_run_args_def)
  then show ?thesis using lossy_run_cannot_be_committed [OF r [unfolded demo_run_def]] r by auto
qed
subsection \<open>Ends that discard\<close>

lemma run_wait_AtPiiScan:
  assumes "h_overlay h" and "run_wait rn a tr h w = (tr', w', Fatal AtPiiScan)"
  shows "w' = w \<and> RollsBack \<in> set tr'"
proof -
  obtain tr1 ho es where wt: "Handle_wait (rn_env rn) tr (Some h) True = (tr1, ho, es)" by (metis prod_cases3)
  then obtain h1 where h1: "ho = Some h1" "h_overlay h1" using Handle_wait_handle assms(1) by fastforce
  have es: "es = []" using assms(2) wt by (auto simp: run_wait_def Let_def split: prod.splits if_splits)
  have n: "run_discard rn a t g v \<noteq> (tr', w', Fatal AtPiiScan)" for t g v
    by (auto simp: run_discard_def or_stop_def split: prod.splits option.splits if_splits)
  have n': "run_review rn a t g v \<noteq> (tr', w', Fatal AtPiiScan)" for t g v
    by (auto simp: run_review_def or_stop_def or_rollback_def split: prod.splits option.splits if_splits)
  show ?thesis
    using assms(2) wt h1 es n n' rolled_fst [OF h1(2), of rn tr1]
    by (auto simp: run_wait_def Let_def split: sum.splits if_splits)
qed

lemma Start_running:
  assumes "live_plan p" and "Start c env [] (Some p) command obj = (tr', po, Some h, [])"
  shows "plan_state (h_plan h) = Lifecycle.Running"
proof -
  have "po = Some (h_plan h)" using Start_handle [OF assms(2)] by auto
  then show ?thesis using Start_started [OF assms(1), of c env "[]" command obj] assms(2) by (auto simp: started_def)
qed

text \<open>
  When the scan for personal data after the run fails, the overlay is rolled back but nothing is
  written: the record still says that the run is running.
\<close>

theorem failed_scan_leaves_running_record:
  assumes "run_planned rn a plan w = (tr, w', Fatal AtPiiScan)" and "live_plan plan"
  shows "RollsBack \<in> set tr \<and>
    (\<exists>r. fl_records w' (ra_record a) = StoredRecord r \<and> plan_state (rr_plan r) = Lifecycle.Running)"
proof (rule run_planned_waits [OF assms(1)])
  fix tr1 po h w4 w5 w6
  assume st: "Start (rn_coord rn) (rn_env rn) [] (Some plan) (ra_command a) (ra_object a) = (tr1, po, Some h, [])"
    and ov: "h_overlay h" and p: "persist rn a (h_plan h) tr1 w4 = (w5, None)"
    and hi: "persist_history rn a (h_plan h) w5 = (w6, None)" and rw: "run_wait rn a tr1 h w6 = (tr, w', Fatal AtPiiScan)"
  have "fl_records w6 = fl_records w5" using persistHistory_keeps hi by (auto simp: persist_history_def)
  then show ?thesis
    using run_wait_AtPiiScan [OF ov rw] persist_record [OF p] Start_running [OF assms(2) st] by auto
qed simp

definition demo_scan_fails :: "trace \<times> files \<times> run_exit" where
  "demo_scan_fails = run_planned ((demo_run_env {} 0)\<lparr>rn_tree := []\<rparr>) (demo_run_args ''review'') demo_ready_plan review_files"

lemma failed_scan: "(case demo_scan_fails of (tr, w, x) \<Rightarrow> x = Fatal AtPiiScan)"
  by code_simp

theorem failed_scan_leaves_running_record_witness:
  "\<exists>tr w' r. demo_scan_fails = (tr, w', Fatal AtPiiScan) \<and> RollsBack \<in> set tr \<and>
     fl_records w' ''/rec2'' = StoredRecord r \<and> plan_state (rr_plan r) = Lifecycle.Running"
proof -
  obtain tr w' where r: "demo_scan_fails = (tr, w', Fatal AtPiiScan)" using failed_scan by (cases demo_scan_fails) auto
  from failed_scan_leaves_running_record [OF r [unfolded demo_scan_fails_def] demo_live] show ?thesis
    using r by (auto simp: demo_run_args_def)
qed

lemma run_discard_exit:
  assumes "h_overlay h" and "plan_state (h_plan h) = Lifecycle.Succeeded" and "run_discard rn a tr h w = (tr', w', Discarded p)"
  shows "RollsBack \<in> set tr' \<and> plan_state p = Lifecycle.RolledBack \<and>
    (\<exists>r. fl_records w' (ra_record a) = StoredRecord r \<and> rr_plan r = p)"
proof -
  obtain tr1 h1 es where r: "rolled rn tr h = (tr1, h1, es)" by (metis prod_cases3)
  have es: "es = []" using assms(3) r by (auto simp: run_discard_def split: if_splits prod.splits)
  obtain w1 where p: "persist rn a (h_plan h1) tr1 w = (w1, None)"
    and k: "or_stop AtDiscardCheckpoint tr1 (rollbackCheckpoint (rn_host rn) (h_plan h1) w1) (\<lambda>w2.
          or_stop AtDiscardHistory tr1 (persist_history rn a (h_plan h1) w2) (\<lambda>w3. (tr1, w3, Discarded (h_plan h1)))) = (tr', w', Discarded p)"
    using assms(3) r es or_stop_exit by (fastforce simp: run_discard_def)
  obtain w2 where g: "rollbackCheckpoint (rn_host rn) (h_plan h1) w1 = (w2, None)"
    and k2: "or_stop AtDiscardHistory tr1 (persist_history rn a (h_plan h1) w2) (\<lambda>w3. (tr1, w3, Discarded (h_plan h1))) = (tr', w', Discarded p)"
    using or_stop_exit [OF k] by auto
  obtain w3 where hi: "persist_history rn a (h_plan h1) w2 = (w3, None)" and e: "(tr1, w3, Discarded (h_plan h1)) = (tr', w', Discarded p)"
    using or_stop_exit [OF k2] by auto
  have keep: "fl_records w3 = fl_records w1"
    using persistHistory_keeps hi graph_call_keeps g by (auto simp: persist_history_def rollbackCheckpoint_def)
  have m: "plan_state p' = s" if "move env q s = (p', [])" for env q p' s
    using that Transition_state by (auto simp: move_def plan_state_def split: sum.splits)
  have kept: "h_plan g' = h_plan g" if "kill_agent env t g = (t', g', e) \<or> clean_network env t g = (t', g', e) \<or> closeSensor env t g = (t', g', e)"
    for env t g t' g' e
    using that by (auto simp: kill_agent_def clean_network_def stopNetworkRefresh_def closeSensor_def act_def split: if_splits)
  have ok: "plan_state (h_plan g) = Lifecycle.Succeeded \<Longrightarrow> fail_running env (h_plan g) = (h_plan g, [])" for env g
    by (simp add: fail_running_def)
  have "plan_state (h_plan h1) = Lifecycle.RolledBack"
  proof -
    obtain t1 g1 e1 where k: "kill_agent (rn_env rn) tr h = (t1, g1, e1)" by (metis prod_cases3)
    obtain t2 g2 e2 where c: "clean_network (rn_env rn) t1 g1 = (t2, g2, e2)" by (metis prod_cases3)
    obtain t3 g3 e3 where s: "closeSensor (rn_env rn) t2 g2 = (t3, g3, e3)" by (metis prod_cases3)
    have pl: "h_plan g3 = h_plan h" using kept k c s by metis
    then have f: "fail_running (rn_env rn) (h_plan g3) = (h_plan g3, [])" using ok assms(2) by simp
    obtain t4 e4 where sc: "end_scope (rn_env rn) t3 g3 = (t4, e4)" by fastforce
    obtain t6 p6 e6 where u: "undo (rn_env rn) t4 (h_plan g3) {Failed, Lifecycle.Succeeded, Paused} = (t6, p6, e6)" by (metis prod_cases3)
    have "h1 = g3\<lparr>h_plan := p6\<rparr> \<and> e6 = []"
      using r es k c s sc f u assms(1) by (simp add: rolled_def Handle_Rollback_def)
    moreover have "e6 = [] \<Longrightarrow> plan_state p6 = Lifecycle.RolledBack"
      using u pl assms(2) m by (auto simp: undo_def Let_def split: prod.splits if_splits)
    ultimately show ?thesis by simp
  qed
  then show ?thesis using rolled_trace [OF assms(1) r] persist_record [OF p] keep e by auto
qed

lemma run_wait_discard:
  assumes "h_overlay h" and "run_wait rn a tr h w = (tr', w', Discarded p)"
  shows "ra_outcome a = ''discard'' \<and> RollsBack \<in> set tr' \<and> plan_state p = Lifecycle.RolledBack \<and>
    (\<exists>r. fl_records w' (ra_record a) = StoredRecord r \<and> rr_plan r = p)"
proof -
  obtain tr1 ho es where wt: "Handle_wait (rn_env rn) tr (Some h) True = (tr1, ho, es)" by (metis prod_cases3)
  then obtain h1 where h1: "ho = Some h1" "h_overlay h1" using Handle_wait_handle assms(1) by fastforce
  have es: "es = []" using assms(2) wt by (auto simp: run_wait_def Let_def split: prod.splits if_splits)
  obtain plan where pl: "scanPIIAfterRun (rn_build rn) (rn_tree rn) (h_plan h1) = Inr plan"
    using assms(2) wt h1 es by (auto simp: run_wait_def Let_def split: sum.splits)
  have "run_review rn a t g v \<noteq> (tr', w', Discarded p)" for t g v
    by (auto simp: run_review_def or_stop_def or_rollback_def split: prod.splits option.splits if_splits)
  then have o: "ra_outcome a = ''discard''" and r: "run_discard rn a tr1 (h1\<lparr>h_plan := plan\<rparr>) w = (tr', w', Discarded p)"
    using assms(2) wt h1(1) es pl by (auto simp: run_wait_def Let_def split: if_splits)
  have "plan_state plan = Lifecycle.Succeeded"
    using wait_succeeds [OF wt [unfolded h1(1) es]] scan_keeps_run [OF pl] by (simp add: plan_state_def)
  then show ?thesis using run_discard_exit [OF _ _ r] h1(2) o by simp
qed

text \<open>
  C4. A run that ends discarded was asked to, has rolled its overlay back, and is on record as rolled
  back, so that no commit accepts it later.
\<close>

theorem discarded_run_stays_discarded:
  assumes "run_planned rn a plan w = (tr, w', Discarded p)"
  shows "ra_outcome a = ''discard'' \<and> RollsBack \<in> set tr \<and> plan_state p = Lifecycle.RolledBack \<and>
    (\<exists>r. fl_records w' (ra_record a) = StoredRecord r \<and> rr_plan r = p \<and>
       (\<forall>h v. \<exists>e. commit_record h (ra_record a) r v = (v, Inl e)))"
proof (rule run_planned_waits [OF assms])
  fix tr1 h w6 assume ov: "h_overlay h" and rw: "run_wait rn a tr1 h w6 = (tr, w', Discarded p)"
  have "plan_state (rr_plan r) = Lifecycle.RolledBack \<Longrightarrow> \<exists>e. commit_record g q r v = (v, Inl e)" for g q r v
    by (simp add: commit_record_def Let_def)
  then show ?thesis using run_wait_discard [OF ov rw] by blast
qed simp

definition discarded_exit :: "run_exit \<Rightarrow> bool" where
  "discarded_exit x = (case x of Discarded p \<Rightarrow> True | _ \<Rightarrow> False)"

lemma run_discarded: "discarded_exit (snd (snd (demo_run {} 0 ''discard'')))"
  by code_simp

theorem discarded_run_stays_discarded_witness:
  "\<exists>tr w' p r. demo_run {} 0 ''discard'' = (tr, w', Discarded p) \<and> fl_records w' ''/rec2'' = StoredRecord r \<and>
     (\<forall>h v. \<exists>e. commit_record h ''/rec2'' r v = (v, Inl e))"
proof -
  obtain tr w' p where r: "demo_run {} 0 ''discard'' = (tr, w', Discarded p)"
    using run_discarded by (cases "demo_run {} 0 ''discard''") (auto simp: discarded_exit_def split: run_exit.splits)
  from discarded_run_stays_discarded [OF r [unfolded demo_run_def]] show ?thesis using r by (auto simp: demo_run_args_def)
qed

text \<open>
  A value known before the run is reported again after it, although its file did not change: before
  the run it was found under the workspace, after it under the merged view, and the keys differ.
\<close>

theorem unchanged_value_reported_twice:
  "\<exists>plan. scanPIIAfterRun demo_build [([''w''], NDir 493), ([''w'', ''x''], NFile 420 ''1''), ([''r''], NDir 493), ([''r'', ''merged''], NDir 493),
      ([''r'', ''merged'', ''x''], NFile 420 ''1'')] demo_ready_plan = Inr plan \<and>
     map (\<lambda>x. (f_path x, f_kind x, f_hash x)) (rp_pii plan) = [(''/w/x'', ''ssn'', ''31''), (''/r/merged/x'', ''ssn'', ''31'')]"
proof -
  let ?t = "[([''w''], NDir 493), ([''w'', ''x''], NFile 420 ''1''), ([''r''], NDir 493), ([''r'', ''merged''], NDir 493),
      ([''r'', ''merged'', ''x''], NFile 420 ''1'')]"
  have "case scanPIIAfterRun demo_build ?t demo_ready_plan of Inl e \<Rightarrow> False | Inr plan \<Rightarrow>
     map (\<lambda>x. (f_path x, f_kind x, f_hash x)) (rp_pii plan) = [(''/w/x'', ''ssn'', ''31''), (''/r/merged/x'', ''ssn'', ''31'')]"
    by code_simp
  then show ?thesis by (auto split: sum.splits)
qed

end
