(* ===== verification/Sensor_Adapter.thy ===== *)
theory Sensor_Adapter
  imports Run_Flow
begin

text \<open>
  The sensor behind a run (\<open>telemetryAdapter\<close> in \<open>cmd/rewind/run.go\<close>, with the reader of
  \<open>telemetry/reader.go\<close>): kernel samples and the proxy's decisions go, redacted, through the hash
  chain and the bounded writer of \<open>Telemetry\<close> into log files that are rotated by number.  The main
  result composes it with what reads the logs again: \<open>discoverEventPaths\<close> and the journal reader of
  \<open>Evidence\<close>.
\<close>

datatype adapter_error = AppendError event_error | NotAttached | DroppedUnknown | SessionClose | FileClose

text \<open>\<open>ad_reading\<close>: the reader's loop has not returned.  \<open>ad_closed\<close>: \<open>Close\<close> has run once.\<close>

record adapter =
  ad_path :: path
  ad_max :: "64 word"
  ad_rotate_bytes :: "64 word"
  ad_run :: string
  ad_pid :: "32 word"
  ad_session :: bool
  ad_paths :: "path list"
  ad_next :: nat
  ad_writer :: "Writer option"
  ad_reading :: bool
  ad_errors :: "adapter_error list"
  ad_dropped :: "64 word"
  ad_truncated :: bool
  ad_closed :: bool

datatype attach_error = LoadFails | OpenFails path

definition Attach :: "bool \<Rightarrow> bool \<Rightarrow> string \<Rightarrow> 32 word \<Rightarrow> adapter \<Rightarrow> attach_error + adapter" where
  "Attach loads opens runID pid ad =
     (if \<not> loads then Inl LoadFails
      else if \<not> opens then Inl (OpenFails (ad_path ad))
      else Inr (ad\<lparr>ad_session := True, ad_run := runID, ad_pid := pid, ad_paths := [ad_path ad], ad_next := 1, ad_reading := True,
        ad_writer := Some \<lparr>w_dest = True, w_max = ad_max ad, w_rotate_bytes = ad_rotate_bytes ad, w_bytes = 0, w_file_bytes = 0,
          w_truncated = False, w_dropped = 0, w_on_drop = False, w_rotate = True, w_chain = new_chain, w_effects = []\<rparr>\<rparr>))"

definition pad6 :: "nat \<Rightarrow> string" where
  "pad6 n = replicate (6 - length (show_nat n)) CHR ''0'' @ show_nat n"

definition log_name :: "path \<Rightarrow> nat \<Rightarrow> path" where
  "log_name p n = trim_suffix (path_ext p) p @ ''-'' @ pad6 n @ ''.jsonl''"

definition ad_rotate :: "adapter \<Rightarrow> adapter" where
  "ad_rotate ad = ad\<lparr>ad_paths := ad_paths ad @ [log_name (ad_path ad) (ad_next ad)], ad_next := ad_next ad + 1\<rparr>"

definition redacted :: "(string \<Rightarrow> string \<Rightarrow> string \<Rightarrow> string) \<Rightarrow> Event \<Rightarrow> Event" where
  "redacted ra e = (if ev_path e = [] then e else e\<lparr>ev_path := RedactBytes ra [] (ev_path e)\<rparr>)"

text \<open>\<open>sha\<close> and \<open>ra\<close> are the digest and the regular expressions; \<open>fails\<close> says which effect on the files fails.\<close>

record sensor_env =
  se_sha :: "string \<Rightarrow> string"
  se_replace :: "string \<Rightarrow> string \<Rightarrow> string \<Rightarrow> string"
  se_fails :: "nat \<Rightarrow> bool"
  se_self :: "32 word"

definition ad_append :: "sensor_env \<Rightarrow> Event \<Rightarrow> adapter \<Rightarrow> adapter \<times> adapter_error option" where
  "ad_append se e ad =
     (case ad_writer ad of
        None \<Rightarrow> (ad, Some (AppendError DestinationRequired))
      | Some w \<Rightarrow>
          (case Writer_Append (se_sha se) (se_fails se) w (redacted (se_replace se) e) of (w', err) \<Rightarrow>
             let rotated = Rotated \<in> set (drop (length (w_effects w)) (w_effects w'));
                 ad1 = (if rotated then ad_rotate ad else ad)\<lparr>ad_writer := Some w'\<rparr>
             in (case err of
                   Some x \<Rightarrow> (ad1, Some (AppendError x))
                 | None \<Rightarrow> (if w_truncated w' then ad1\<lparr>ad_truncated := True\<rparr> else ad1, None))))"

definition markError :: "adapter_error \<Rightarrow> adapter \<Rightarrow> adapter" where
  "markError e ad = ad\<lparr>ad_errors := ad_errors ad @ [e], ad_truncated := True\<rparr>"

text \<open>One turn of the reader's loop; \<open>None\<close> is a read that fails, as it does once the ring buffer is closed.\<close>

definition read_turn :: "sensor_env \<Rightarrow> string option \<Rightarrow> adapter \<Rightarrow> adapter" where
  "read_turn se sample ad =
     (if \<not> ad_reading ad then ad
      else (case sample of
        None \<Rightarrow> ad\<lparr>ad_reading := False\<rparr>
      | Some raw \<Rightarrow>
          (case Decode raw (ad_run ad) of
             Inl _ \<Rightarrow> ad\<lparr>ad_reading := False\<rparr>
           | Inr e \<Rightarrow>
               (case ad_append se e ad of
                  (ad1, None) \<Rightarrow> ad1
                | (ad1, Some x) \<Rightarrow> (markError x ad1)\<lparr>ad_reading := False\<rparr>))))"

definition network_event :: "sensor_env \<Rightarrow> string \<Rightarrow> net_decision \<Rightarrow> 64 word \<Rightarrow> adapter \<Rightarrow> Event" where
  "network_event se host d t ad =
     \<lparr>ev_run = ad_run ad, ev_pid = (if ad_pid ad = 0 then se_self se else ad_pid ad), ev_op = ''network_connect'',
      ev_path = host, ev_time = t,
      ev_decision = (if d = net_decision.Deny then ''deny'' else if d = net_decision.Audit then ''audit'' else ''allow''), ev_risk = ''medium''\<rparr>"

definition RecordNetwork :: "sensor_env \<Rightarrow> string \<Rightarrow> net_decision \<Rightarrow> 64 word \<Rightarrow> adapter \<Rightarrow> adapter \<times> adapter_error option" where
  "RecordNetwork se host d t ad =
     (if ad_run ad = [] then (ad, Some NotAttached) else ad_append se (network_event se host d t ad) ad)"

text \<open>The proxy's callback.\<close>

definition audit_network :: "sensor_env \<Rightarrow> string \<Rightarrow> net_decision \<Rightarrow> 64 word \<Rightarrow> adapter \<Rightarrow> adapter" where
  "audit_network se host d t ad =
     (case RecordNetwork se host d t ad of (ad1, None) \<Rightarrow> ad1 | (ad1, Some x) \<Rightarrow> markError x ad1)"

text \<open>What happens to the sensor: the writer's lock makes the appends a sequence.\<close>

datatype sensor_item = Kernel "string option" | Network string net_decision "64 word"

definition sensor_step :: "sensor_env \<Rightarrow> sensor_item \<Rightarrow> adapter \<Rightarrow> adapter" where
  "sensor_step se i ad =
     (case i of Kernel s \<Rightarrow> read_turn se s ad | Network host d t \<Rightarrow> audit_network se host d t ad)"

definition sensor_run :: "sensor_env \<Rightarrow> sensor_item list \<Rightarrow> adapter \<Rightarrow> adapter" where
  "sensor_run se items ad = fold (sensor_step se) items ad"

text \<open>\<open>dropped\<close> is the kernel's counter, if it can be read; the flags say which close fails.\<close>

definition ad_Close :: "(64 word) option \<Rightarrow> bool \<Rightarrow> bool \<Rightarrow> adapter \<Rightarrow> adapter \<times> adapter_error list" where
  "ad_Close dropped session_fails file_fails ad =
     (let ad1 =
        (if ad_closed ad then ad
         else (let a1 = (if ad_session ad
                         then ad\<lparr>ad_dropped := (case dropped of None \<Rightarrow> 0 | Some d \<Rightarrow> d), ad_reading := False,
                                ad_errors := ad_errors ad @ (if session_fails then [SessionClose] else [])\<rparr>
                         else ad)
               in a1\<lparr>ad_closed := True,
                     ad_errors := ad_errors a1 @
                       (if ad_writer a1 = None then []
                        else (if ad_session a1 \<and> dropped = None then [DroppedUnknown] else []) @
                             (if file_fails then [FileClose] else []))\<rparr>))
      in (ad1, ad_errors ad1))"

definition EvidenceState :: "adapter \<Rightarrow> 64 word \<times> bool" where
  "EvidenceState ad = (ad_dropped ad, ad_truncated ad)"
subsection \<open>The log files\<close>

text \<open>The lines of each file, in the order the files were opened.\<close>

fun log_parts :: "effect list \<Rightarrow> string list list" where
  "log_parts [] = [[]]"
| "log_parts (Wrote l # es) = (l # hd (log_parts es)) # tl (log_parts es)"
| "log_parts (Rotated # es) = [] # log_parts es"
| "log_parts (OnDrop e # es) = log_parts es"

definition ad_files :: "adapter \<Rightarrow> path \<Rightarrow> logfile" where
  "ad_files ad p =
     (case map_of (zip (ad_paths ad) (log_parts (case ad_writer ad of None \<Rightarrow> [] | Some w \<Rightarrow> w_effects w))) p of
        None \<Rightarrow> LogMissing | Some ls \<Rightarrow> LogBytes (concat ls) False)"

fun rotations :: "effect list \<Rightarrow> nat" where
  "rotations [] = 0"
| "rotations (Rotated # es) = Suc (rotations es)"
| "rotations (_ # es) = rotations es"

lemma rotations_append [simp]: "rotations (a @ b) = rotations a + rotations b"
  by (induction a rule: rotations.induct) auto

lemma log_parts_nonempty [simp]: "log_parts es \<noteq> []"
  by (induction es rule: log_parts.induct) auto

lemma length_log_parts: "length (log_parts es) = Suc (rotations es)"
proof (induction es rule: log_parts.induct)
  case (2 l es)
  then show ?case by (cases "log_parts es") auto
qed auto

lemma concat_log_parts: "concat (log_parts es) = written es"
proof (induction es rule: log_parts.induct)
  case (2 l es)
  then show ?case by (cases "log_parts es") auto
qed auto

subsection \<open>Numbered names are in order\<close>

fun digits :: "nat \<Rightarrow> nat \<Rightarrow> string" where
  "digits 0 n = []"
| "digits (Suc k) n = digits k (n div 10) @ [char_of (48 + n mod 10)]"

lemma length_digits [simp]: "length (digits k n) = k"
  by (induction k arbitrary: n) auto

lemma digits_zero: "digits k 0 = replicate k CHR ''0''"
proof (induction k)
  case (Suc k)
  have "char_of (48 :: nat) = CHR ''0''" by code_simp
  then show ?case using Suc by (simp add: replicate_append_same)
qed simp

lemma digits_show: "n < 10 ^ k \<Longrightarrow> 0 < k \<Longrightarrow> digits k n = replicate (k - length (show_nat n)) CHR ''0'' @ show_nat n"
proof (induction k arbitrary: n)
  case (Suc k)
  show ?case
  proof (cases "n < 10")
    case True
    then have "digits (Suc k) n = replicate k CHR ''0'' @ [char_of (48 + n)]" by (simp add: digits_zero)
    then show ?thesis using True by (simp add: show_nat.simps [of n])
  next
    case False
    have k: "0 < k" using Suc.prems(1) False by (cases k) auto
    have "n div 10 < 10 ^ k" using Suc.prems(1) by (simp add: less_mult_imp_div_less mult.commute)
    then show ?thesis using False Suc.IH [OF _ k] by (simp add: show_nat.simps [of n])
  qed
qed simp

lemma pad6_digits: "n < 1000000 \<Longrightarrow> pad6 n = digits 6 n"
  using digits_show [of n 6] by (simp add: pad6_def)

lemma char_of_less: "a < b \<Longrightarrow> b < 256 \<Longrightarrow> char_of (a :: nat) < (char_of b :: char)"
  by (simp add: less_char_def)

lemma str_less_common: "(xs :: string) @ a < xs @ b \<longleftrightarrow> a < b"
  by (induction xs) auto

lemma str_less_longer: "(a :: string) < b \<Longrightarrow> length a = length b \<Longrightarrow> a @ u < b @ v"
  unfolding list_less_def by (rule lexord_sufI) auto

lemma digits_mono: "i < j \<Longrightarrow> j < 10 ^ k \<Longrightarrow> digits k i < digits k j"
proof (induction k arbitrary: i j)
  case (Suc k)
  have q: "j div 10 < 10 ^ k" using Suc.prems(2) by (simp add: less_mult_imp_div_less mult.commute)
  show ?case
  proof (cases "i div 10 = j div 10")
    case True
    then have "i mod 10 < j mod 10" using Suc.prems(1) by (metis div_mult_mod_eq nat_add_left_cancel_less)
    then have "char_of (48 + i mod 10) < (char_of (48 + j mod 10) :: char)" by (intro char_of_less) auto
    then have "[char_of (48 + i mod 10)] < ([char_of (48 + j mod 10)] :: string)" by simp
    then show ?thesis using True by (simp only: digits.simps str_less_common)
  next
    case False
    then have "i div 10 < j div 10" using Suc.prems(1) by (meson div_le_mono le_neq_implies_less less_imp_le)
    then show ?thesis unfolding digits.simps by (rule str_less_longer [OF Suc.IH [OF _ q]]) auto
  qed
qed simp

lemma log_name_mono: "i < j \<Longrightarrow> j < 1000000 \<Longrightarrow> log_name p i < log_name p j"
  unfolding log_name_def str_less_common
  by (rule str_less_longer) (simp_all add: pad6_digits digits_mono)

definition log_names :: "path \<Rightarrow> nat \<Rightarrow> path list" where
  "log_names p n = map (log_name p) [1..<n]"

lemma sorted_log_names:
  assumes "n \<le> 1000000"
  shows "sorted (log_names p n) \<and> distinct (log_names p n)"
proof -
  have "sorted_wrt (<) (log_names p n)"
    unfolding log_names_def sorted_wrt_map
    by (rule sorted_wrt_mono_rel [OF _ sorted_wrt_upt]) (use assms in \<open>auto intro: log_name_mono\<close>)
  then show ?thesis by (simp add: strict_sorted_iff)
qed

lemma sort_log_names:
  assumes "set xs = set (log_names p n)" and "distinct xs" and "n \<le> 1000000"
  shows "sort xs = log_names p n"
  by (rule sorted_distinct_set_unique) (use sorted_log_names [OF assms(3), of p] assms(1,2) in simp_all)

text \<open>At the millionth file the number gets a seventh digit and sorts before its predecessor.\<close>

lemma millionth_log_sorts_first: "log_name p 1000000 < log_name p 999999"
proof -
  have "pad6 1000000 = ''1000000''" "pad6 999999 = ''999999''"
    by (simp_all add: pad6_def show_nat.simps char_of_def bit_0)
  moreover have "''1000000'' @ ''.jsonl'' < ''999999'' @ ''.jsonl''" by code_simp
  ultimately show ?thesis by (simp only: log_name_def str_less_common)
qed
subsection \<open>The adapter's account of its files\<close>

definition ad_ok :: "adapter \<Rightarrow> bool" where
  "ad_ok ad = (\<exists>w. ad_writer ad = Some w \<and> ad_next ad = Suc (rotations (w_effects w)) \<and>
     ad_paths ad = ad_path ad # log_names (ad_path ad) (ad_next ad))"

lemma log_names_Suc: "1 \<le> n \<Longrightarrow> log_names p (Suc n) = log_names p n @ [log_name p n]"
  by (simp add: log_names_def)

lemma Writer_Append_effects:
  assumes "Writer_Append sha fails w e = (w', err)"
  shows "\<exists>es. w_effects w' = w_effects w @ es \<and> rotations es = (if Rotated \<in> set es then 1 else 0)"
proof (cases "Chain_Append sha (w_chain w) e")
  case (Inl x)
  then show ?thesis using assms by (cases "w_dest w") (auto simp: Writer_Append_def)
next
  case (Inr cj)
  obtain c j where cj: "cj = (c, j)" by fastforce
  define line where "line = marshal j @ [CHR 0x0A]"
  define over where "over = (w_max w > 0 \<and> w_bytes w + of_nat (length line) > w_max w)"
  define rot where "rot = (w_rotate_bytes w > 0 \<and> w_file_bytes w > 0 \<and> w_file_bytes w + of_nat (length line) > w_rotate_bytes w)"
  note eq = assms [unfolded Writer_Append_def Inr cj sum.case prod.case Let_def, folded line_def, folded over_def rot_def]
  consider (none) "\<not> w_dest w" | (over) "w_dest w" over | (rot) "w_dest w" "\<not> over" rot | (plain) "w_dest w" "\<not> over" "\<not> rot" by blast
  then show ?thesis
  proof cases
    case none
    then show ?thesis using eq by auto
  next
    case over
    then show ?thesis using eq by (cases "w_on_drop w") auto
  next
    case rot
    then show ?thesis using eq
      by (cases "w_rotate w"; cases "fails (length (w_effects w))"; cases "fails (Suc (length (w_effects w)))") auto
  next
    case plain
    then show ?thesis using eq by (cases "fails (length (w_effects w))") auto
  qed
qed

lemma ad_append_ok:
  assumes "ad_ok ad" and "ad_append se e ad = (ad1, err)"
  shows "ad_ok ad1 \<and> ad_path ad1 = ad_path ad \<and> ad_run ad1 = ad_run ad \<and> ad_pid ad1 = ad_pid ad \<and>
    ad_reading ad1 = ad_reading ad \<and> ad_closed ad1 = ad_closed ad \<and> ad_session ad1 = ad_session ad \<and> (ad_truncated ad \<longrightarrow> ad_truncated ad1)"
proof -
  obtain w where w: "ad_writer ad = Some w" "ad_next ad = Suc (rotations (w_effects w))"
    "ad_paths ad = ad_path ad # log_names (ad_path ad) (ad_next ad)" using assms(1) by (auto simp: ad_ok_def)
  obtain w' r where a: "Writer_Append (se_sha se) (se_fails se) w (redacted (se_replace se) e) = (w', r)" by fastforce
  obtain es where es: "w_effects w' = w_effects w @ es" "rotations es = (if Rotated \<in> set es then 1 else 0)"
    using Writer_Append_effects [OF a] by blast
  have rot: "(Rotated \<in> set (drop (length (w_effects w)) (w_effects w'))) = (Rotated \<in> set es)" by (simp add: es(1))
  define a1 where "a1 = (if Rotated \<in> set es then ad_rotate ad else ad)\<lparr>ad_writer := Some w'\<rparr>"
  have "ad_append se e ad = (case r of Some x \<Rightarrow> (a1, Some (AppendError x))
      | None \<Rightarrow> (if w_truncated w' then a1\<lparr>ad_truncated := True\<rparr> else a1, None))"
    unfolding ad_append_def w(1) option.case a prod.case Let_def rot a1_def ..
  then have "ad1 = a1 \<or> ad1 = a1\<lparr>ad_truncated := True\<rparr>" using assms(2) by (auto split: option.splits if_splits)
  moreover have "ad_ok a1"
  proof (cases "Rotated \<in> set es")
    case True
    then show ?thesis using w es by (simp add: a1_def ad_rotate_def ad_ok_def log_names_Suc)
  next
    case False
    then show ?thesis using w es by (simp add: a1_def ad_ok_def)
  qed
  moreover have "ad_path a1 = ad_path ad" "ad_run a1 = ad_run ad" "ad_pid a1 = ad_pid ad" "ad_reading a1 = ad_reading ad"
    "ad_closed a1 = ad_closed ad" "ad_session a1 = ad_session ad" "ad_truncated a1 = ad_truncated ad"
    by (simp_all add: a1_def ad_rotate_def)
  ultimately show ?thesis by (auto simp: ad_ok_def)
qed

lemma sensor_step_ok:
  assumes "ad_ok ad"
  shows "ad_ok (sensor_step se i ad) \<and> ad_path (sensor_step se i ad) = ad_path ad \<and> ad_run (sensor_step se i ad) = ad_run ad \<and>
    ad_pid (sensor_step se i ad) = ad_pid ad \<and> ad_closed (sensor_step se i ad) = ad_closed ad \<and>
    ad_session (sensor_step se i ad) = ad_session ad \<and>
    (ad_truncated ad \<longrightarrow> ad_truncated (sensor_step se i ad)) \<and> (\<not> ad_reading ad \<longrightarrow> \<not> ad_reading (sensor_step se i ad))"
proof (cases i)
  case (Kernel s)
  show ?thesis
  proof (cases "\<not> ad_reading ad \<or> s = None \<or> isl (Decode (the s) (ad_run ad))")
    case True
    then have "sensor_step se i ad = ad \<or> sensor_step se i ad = ad\<lparr>ad_reading := False\<rparr>"
      by (auto simp: Kernel sensor_step_def read_turn_def isl_def split: option.split)
    then show ?thesis using assms by (auto simp: ad_ok_def)
  next
    case False
    then obtain raw e where d: "ad_reading ad" "s = Some raw" "Decode raw (ad_run ad) = Inr e"
      by (cases "Decode (the s) (ad_run ad)") auto
    obtain ad1 err where a: "ad_append se e ad = (ad1, err)" by fastforce
    have "sensor_step se i ad = (case err of None \<Rightarrow> ad1 | Some x \<Rightarrow> (markError x ad1)\<lparr>ad_reading := False\<rparr>)"
      using d a by (simp add: Kernel sensor_step_def read_turn_def split: option.split)
    then show ?thesis using ad_append_ok [OF assms a] by (cases err) (auto simp: ad_ok_def markError_def)
  qed
next
  case (Network host d t)
  obtain ad1 err where a: "ad_append se (network_event se host d t ad) ad = (ad1, err)" by fastforce
  have "sensor_step se i ad = (if ad_run ad = [] then markError NotAttached ad else case err of None \<Rightarrow> ad1 | Some x \<Rightarrow> markError x ad1)"
    using a by (simp add: Network sensor_step_def audit_network_def RecordNetwork_def split: option.split)
  then show ?thesis using ad_append_ok [OF assms a] assms by (cases err) (auto simp: ad_ok_def markError_def)
qed

lemma sensor_run_ok:
  "ad_ok ad \<Longrightarrow> ad_ok (sensor_run se items ad) \<and> ad_path (sensor_run se items ad) = ad_path ad \<and>
     ad_run (sensor_run se items ad) = ad_run ad \<and> ad_pid (sensor_run se items ad) = ad_pid ad \<and>
     ad_closed (sensor_run se items ad) = ad_closed ad \<and> ad_session (sensor_run se items ad) = ad_session ad \<and>
     (ad_truncated ad \<longrightarrow> ad_truncated (sensor_run se items ad)) \<and> (\<not> ad_reading ad \<longrightarrow> \<not> ad_reading (sensor_run se items ad))"
proof (induction items arbitrary: ad)
  case (Cons i items)
  then show ?case using sensor_step_ok [OF Cons.prems, of se i] Cons.IH [of "sensor_step se i ad"]
    by (simp add: sensor_run_def)
qed (simp add: sensor_run_def)
subsection \<open>A log that is not marked is complete\<close>

definition item_events :: "sensor_env \<Rightarrow> adapter \<Rightarrow> sensor_item \<Rightarrow> Event list" where
  "item_events se ad i =
     (case i of
        Kernel None \<Rightarrow> []
      | Kernel (Some raw) \<Rightarrow> (case Decode raw (ad_run ad) of Inl _ \<Rightarrow> [] | Inr e \<Rightarrow> [e])
      | Network host d t \<Rightarrow> [network_event se host d t ad])"

definition sensor_events :: "sensor_env \<Rightarrow> adapter \<Rightarrow> sensor_item list \<Rightarrow> Event list" where
  "sensor_events se ad items = map (redacted (se_replace se)) (concat (map (item_events se ad) items))"

lemma Writer_Append_clean:
  assumes "Writer_Append sha fails w e = (w', None)" and "\<not> w_truncated w'"
  shows "\<exists>j. Chain_Append sha (w_chain w) e = Inr (w_chain w', j) \<and> written (w_effects w') = written (w_effects w) @ [journal_line j]"
proof (cases "Chain_Append sha (w_chain w) e")
  case (Inl x)
  then show ?thesis using assms by (cases "w_dest w") (auto simp: Writer_Append_def)
next
  case (Inr cj)
  obtain c j where cj: "cj = (c, j)" by fastforce
  define over where "over = (w_max w > 0 \<and> w_bytes w + of_nat (length (journal_line j)) > w_max w)"
  define rot where "rot = (w_rotate_bytes w > 0 \<and> w_file_bytes w > 0 \<and> w_file_bytes w + of_nat (length (journal_line j)) > w_rotate_bytes w)"
  note eq = assms(1) [unfolded Writer_Append_def Inr cj sum.case prod.case Let_def, folded journal_line_def, folded over_def rot_def]
  have "w_dest w" "\<not> over" using eq assms(2) by (cases "w_dest w"; cases over; auto)+
  moreover have "written (w_effects w') = written (w_effects w) @ [journal_line j] \<and> w_chain w' = c" if "w_dest w" "\<not> over"
  proof (cases rot)
    case True
    then show ?thesis using eq that
      by (cases "w_rotate w"; cases "fails (length (w_effects w))"; cases "fails (Suc (length (w_effects w)))") auto
  next
    case False
    then show ?thesis using eq that by (cases "fails (length (w_effects w))") auto
  qed
  ultimately show ?thesis using Inr cj by simp
qed

lemma ad_append_clean:
  assumes "ad_writer ad = Some w" and "ad_append se e ad = (ad1, None)" and "\<not> ad_truncated ad1"
  shows "\<exists>w1 j. ad_writer ad1 = Some w1 \<and> Chain_Append (se_sha se) (w_chain w) (redacted (se_replace se) e) = Inr (w_chain w1, j) \<and>
    written (w_effects w1) = written (w_effects w) @ [journal_line j]"
proof -
  obtain w1 r where a: "Writer_Append (se_sha se) (se_fails se) w (redacted (se_replace se) e) = (w1, r)" by fastforce
  have "r = None" "\<not> w_truncated w1" "ad_writer ad1 = Some w1"
    using assms a by (cases r; cases "w_truncated w1"; auto simp: ad_append_def Let_def)+
  then show ?thesis using Writer_Append_clean a by blast
qed

text \<open>One step of a sensor that goes on reading and marks nothing.\<close>

lemma sensor_step_clean:
  assumes "ad_writer ad = Some w" and "ad_reading (sensor_step se i ad)" and "\<not> ad_truncated (sensor_step se i ad)" and "ad_ok ad"
  shows "\<exists>w1 js. ad_writer (sensor_step se i ad) = Some w1 \<and>
    append_all (se_sha se) (w_chain w) (sensor_events se ad [i]) = Inr (w_chain w1, js) \<and>
    written (w_effects w1) = written (w_effects w) @ map journal_line js"
proof (cases i)
  case (Kernel s)
  have r: "ad_reading ad" using sensor_step_ok [OF assms(4), of se i] assms(2) by blast
  obtain raw e where d: "s = Some raw" "Decode raw (ad_run ad) = Inr e"
    using assms(2) r by (auto simp: Kernel sensor_step_def read_turn_def split: option.splits sum.splits)
  obtain ad1 err where a: "ad_append se e ad = (ad1, err)" by fastforce
  have st: "sensor_step se i ad = (case err of None \<Rightarrow> ad1 | Some x \<Rightarrow> (markError x ad1)\<lparr>ad_reading := False\<rparr>)"
    using d r a by (simp add: Kernel sensor_step_def read_turn_def split: option.split)
  then have "err = None" "sensor_step se i ad = ad1" using assms(2) by (auto split: option.splits)
  then show ?thesis
    using ad_append_clean [OF assms(1), of se e ad1] a assms(3) d
    by (auto simp: sensor_events_def item_events_def Kernel)
next
  case (Network host d t)
  obtain ad1 err where a: "ad_append se (network_event se host d t ad) ad = (ad1, err)" by fastforce
  have st: "sensor_step se i ad = (if ad_run ad = [] then markError NotAttached ad else case err of None \<Rightarrow> ad1 | Some x \<Rightarrow> markError x ad1)"
    using a by (simp add: Network sensor_step_def audit_network_def RecordNetwork_def split: option.split)
  then have "err = None" "sensor_step se i ad = ad1" using assms(3) by (auto simp: markError_def split: option.splits if_splits)
  then show ?thesis
    using ad_append_clean [OF assms(1), of se "network_event se host d t ad" ad1] a assms(3)
    by (auto simp: sensor_events_def item_events_def Network)
qed

lemma append_all_append:
  "append_all sha c es = Inr (c1, js) \<Longrightarrow> append_all sha c1 fs = Inr (c2, ks) \<Longrightarrow> append_all sha c (es @ fs) = Inr (c2, js @ ks)"
proof (induction es arbitrary: c js)
  case (Cons e es)
  then show ?case by (auto split: sum.splits prod.splits)
qed simp

lemma sensor_events_same:
  assumes "ad_run ad1 = ad_run ad" and "ad_pid ad1 = ad_pid ad"
  shows "sensor_events se ad1 items = sensor_events se ad items"
proof -
  have "item_events se ad1 = item_events se ad" using assms
    by (auto simp: item_events_def network_event_def fun_eq_iff split: sensor_item.split option.split sum.split)
  then show ?thesis by (simp add: sensor_events_def)
qed

lemma sensor_events_Cons: "sensor_events se ad (i # items) = sensor_events se ad [i] @ sensor_events se ad items"
  by (simp add: sensor_events_def)

lemma sensor_run_clean:
  assumes "ad_ok ad" and "ad_writer ad = Some w" and "ad_reading (sensor_run se items ad)" and "\<not> ad_truncated (sensor_run se items ad)"
  shows "\<exists>w1 js. ad_writer (sensor_run se items ad) = Some w1 \<and>
    append_all (se_sha se) (w_chain w) (sensor_events se ad items) = Inr (w_chain w1, js) \<and>
    written (w_effects w1) = written (w_effects w) @ map journal_line js"
  using assms
proof (induction items arbitrary: ad w)
  case Nil
  then show ?case by (simp add: sensor_run_def sensor_events_def)
next
  case (Cons i items)
  let ?ad = "sensor_step se i ad"
  have run: "sensor_run se (i # items) ad = sensor_run se items ?ad" by (simp add: sensor_run_def)
  note ok = sensor_step_ok [OF Cons.prems(1), of se i]
  have t: "ad_reading ?ad" "\<not> ad_truncated ?ad"
    using sensor_run_ok [of ?ad se items] ok Cons.prems(3,4) by (auto simp: run)
  obtain w1 js where w1: "ad_writer ?ad = Some w1" "append_all (se_sha se) (w_chain w) (sensor_events se ad [i]) = Inr (w_chain w1, js)"
    "written (w_effects w1) = written (w_effects w) @ map journal_line js"
    using sensor_step_clean [OF Cons.prems(2) t Cons.prems(1)] by blast
  obtain w2 ks where w2: "ad_writer (sensor_run se items ?ad) = Some w2"
    "append_all (se_sha se) (w_chain w1) (sensor_events se ?ad items) = Inr (w_chain w2, ks)"
    "written (w_effects w2) = written (w_effects w1) @ map journal_line ks"
    using Cons.IH [OF _ w1(1)] ok Cons.prems(3,4) by (auto simp: run)
  have "sensor_events se ?ad items = sensor_events se ad items" using sensor_events_same ok by blast
  then have "append_all (se_sha se) (w_chain w) (sensor_events se ad (i # items)) = Inr (w_chain w2, js @ ks)"
    unfolding sensor_events_Cons [of se ad i items] using append_all_append [OF w1(2) w2(2)] by simp
  then show ?case using w1(3) w2(1,3) by (simp add: run)
qed
subsection \<open>From the kernel to the reader of the evidence\<close>

lemma split_mapped:
  "concat ps = map f js \<Longrightarrow> \<exists>qs. ps = map (map f) qs \<and> concat qs = js"
proof (induction ps arbitrary: js)
  case (Cons p ps)
  then obtain us vs where "js = us @ vs" "p = map f us" "concat ps = map f vs" by (auto simp: append_eq_map_conv)
  moreover from this obtain qs where "ps = map (map f) qs" "concat qs = vs" using Cons.IH by blast
  ultimately show ?case by (intro exI [of _ "us # qs"]) simp
qed simp

lemma path_ext_stem: "path_ext p = [] \<or> hd (path_ext p) = CHR ''.'' \<and> suffix (path_ext p) p"
proof (cases "path_ext p = []")
  case False
  define b where "b = takeWhile (\<lambda>c. c \<noteq> sep) (rev p)"
  have d: "CHR ''.'' \<in> set b" and e: "path_ext p = CHR ''.'' # rev (takeWhile (\<lambda>c. c \<noteq> CHR ''.'') b)"
    using False by (auto simp: path_ext_def Let_def b_def split: if_splits)
  have "prefix (takeWhile (\<lambda>c. c \<noteq> CHR ''.'') b @ ''.'') b"
  proof -
    have "dropWhile (\<lambda>c. c \<noteq> CHR ''.'') b = CHR ''.'' # tl (dropWhile (\<lambda>c. c \<noteq> CHR ''.'') b)"
      using d hd_dropWhile [of "\<lambda>c. c \<noteq> CHR ''.''" b] by (cases "dropWhile (\<lambda>c. c \<noteq> CHR ''.'') b") auto
    then have "b = (takeWhile (\<lambda>c. c \<noteq> CHR ''.'') b @ ''.'') @ tl (dropWhile (\<lambda>c. c \<noteq> CHR ''.'') b)"
      by (metis append.assoc append_Cons append_Nil takeWhile_dropWhile_id)
    then show ?thesis by (metis prefixI)
  qed
  moreover have "prefix b (rev p)" unfolding b_def by (metis prefixI takeWhile_dropWhile_id)
  ultimately have "prefix (rev (path_ext p)) (rev p)" unfolding e by (metis prefix_order.trans rev.simps(2) rev_rev_ident)
  then show ?thesis using e by (simp add: suffix_to_prefix)
qed simp

lemma log_name_other: "log_name p n \<noteq> p"
proof
  assume e: "log_name p n = p"
  have st: "trim_suffix (path_ext p) p @ path_ext p = p"
  proof (cases "path_ext p = []")
    case False
    then obtain z where z: "p = z @ path_ext p" using path_ext_stem [of p] by (auto simp: suffix_def)
    have "trim_suffix x (z @ x) = z" for x by (simp add: trim_suffix_def suffix_def)
    then show ?thesis using z by metis
  qed (simp add: trim_suffix_def)
  then have "''-'' @ pad6 n @ ''.jsonl'' = path_ext p" using e unfolding log_name_def by (metis same_append_eq)
  then have "path_ext p \<noteq> [] \<and> hd (path_ext p) = CHR ''-''" by (metis append_Cons list.distinct(1) list.sel(1))
  then show False using path_ext_stem [of p] by simp
qed

lemma log_names_other: "p \<notin> set (log_names p n)"
proof
  assume "p \<in> set (log_names p n)"
  then obtain k where "p = log_name p k" by (auto simp: log_names_def)
  then show False using log_name_other by metis
qed

lemma ad_paths_distinct: "ad_ok ad \<Longrightarrow> ad_next ad \<le> 1000000 \<Longrightarrow> distinct (ad_paths ad)"
  using sorted_log_names [of "ad_next ad" "ad_path ad"] log_names_other by (auto simp: ad_ok_def)

lemma ad_files_hold:
  assumes "ad_ok ad" and "ad_next ad \<le> 1000000" and "ad_writer ad = Some w" and "written (w_effects w) = map journal_line js"
    and "ad_path ad \<noteq> []"
  shows "\<exists>parts. list_all2 (holds_part (ad_files ad)) (ad_paths ad) parts \<and> concat parts = js"
proof -
  obtain parts where parts: "log_parts (w_effects w) = map (map journal_line) parts" "concat parts = js"
    using split_mapped [of "log_parts (w_effects w)" journal_line js] assms(4) by (auto simp: concat_log_parts)
  have len: "length (ad_paths ad) = length parts"
    using assms(1,3) length_log_parts [of "w_effects w"] parts(1) by (auto simp: ad_ok_def log_names_def)
  have "holds_part (ad_files ad) (ad_paths ad ! k) (parts ! k)" if "k < length parts" for k
  proof -
    have "map_of (zip (ad_paths ad) (map (map journal_line) parts)) (ad_paths ad ! k) = Some (map journal_line (parts ! k))"
      using map_of_zip_nth [of "ad_paths ad" "map (map journal_line) parts" k] ad_paths_distinct [OF assms(1,2)] len that by simp
    moreover have "ad_paths ad ! k \<noteq> []"
      using assms(1,5) that len by (cases k) (auto simp: ad_ok_def log_names_def log_name_def)
    ultimately show ?thesis by (simp add: holds_part_def ad_files_def assms(3) parts(1))
  qed
  then show ?thesis using len parts(2) by (auto simp: list_all2_conv_all_nth)
qed

lemma Attach_ok: "Attach l o' r p ad = Inr ad1 \<Longrightarrow> ad_ok ad1 \<and> ad_path ad1 = ad_path ad \<and> ad_run ad1 = r \<and> ad_session ad1 \<and>
   ad_closed ad1 = ad_closed ad \<and> ad_pid ad1 = p \<and> (\<exists>w. ad_writer ad1 = Some w \<and> w_chain w = new_chain \<and> w_effects w = [])"
  by (auto simp: Attach_def ad_ok_def log_names_def split: if_splits)


text \<open>
  A sample that cannot be decoded ends the reader's loop without a mark: whatever the kernel
  reports afterwards is lost, and the files and the state of the evidence are what they were.
\<close>

theorem undecodable_sample_hides_rest:
  assumes "ad_reading ad" and "Decode raw (ad_run ad) = Inl e"
    and "sensor_run se (Kernel (Some raw) # map Kernel rest) ad = ad1"
  shows "EvidenceState ad1 = EvidenceState ad \<and> ad_files ad1 = ad_files ad \<and> ad_errors ad1 = ad_errors ad"
proof -
  have stopped: "sensor_run se (map Kernel rest) a = a" if "\<not> ad_reading a" for a
    using that by (induction rest) (simp_all add: sensor_run_def sensor_step_def read_turn_def)
  have "sensor_step se (Kernel (Some raw)) ad = ad\<lparr>ad_reading := False\<rparr>"
    using assms(1,2) by (simp add: sensor_step_def read_turn_def)
  then have "ad1 = ad\<lparr>ad_reading := False\<rparr>"
    using stopped [of "ad\<lparr>ad_reading := False\<rparr>"] assms(3) by (simp add: sensor_run_def)
  then show ?thesis by (simp add: EvidenceState_def ad_files_def fun_eq_iff)
qed

subsection \<open>An example\<close>

definition demo_adapter :: adapter where
  "demo_adapter = \<lparr>ad_path = ''/r/events.jsonl'', ad_max = 0, ad_rotate_bytes = 0, ad_run = [], ad_pid = 0, ad_session = False,
     ad_paths = [], ad_next = 0, ad_writer = None, ad_reading = False, ad_errors = [], ad_dropped = 0, ad_truncated = False, ad_closed = False\<rparr>"

definition demo_sensor :: sensor_env where
  "demo_sensor = \<lparr>se_sha = demo_sha, se_replace = (\<lambda>p s r. s), se_fails = (\<lambda>_. False), se_self = 7\<rparr>"

definition demo_items :: "sensor_item list" where
  "demo_items = [Network ''a.b'' net_decision.Deny 9]"

definition demo_attached :: adapter where
  "demo_attached = (case Attach True True ''run_1'' 42 demo_adapter of Inr ad \<Rightarrow> ad | Inl _ \<Rightarrow> demo_adapter)"

definition demo_sent :: Event where
  "demo_sent = \<lparr>ev_run = ''run_1'', ev_pid = 42, ev_op = ''network_connect'', ev_path = ''a.b'', ev_time = 9,
     ev_decision = ''deny'', ev_risk = ''medium''\<rparr>"

lemma demo_sent_valid: "Event_Validate demo_sent = Inr ()"
  by (simp add: demo_sent_def Event_Validate_def validOperation_def validDecision_def validRisk_def operations_def decisions_def risks_def)

lemma demo_attach: "Attach True True ''run_1'' 42 demo_adapter = Inr demo_attached"
  by (simp add: demo_attached_def Attach_def)

lemma demo_redacted: "redacted (se_replace demo_sensor) demo_sent = demo_sent"
  by (simp add: redacted_def demo_sensor_def demo_sent_def RedactBytes_def redactBytes_def rules_def)

lemma demo_network: "network_event demo_sensor ''a.b'' net_decision.Deny 9 demo_attached = demo_sent"
  by (simp add: network_event_def demo_sensor_def demo_attached_def Attach_def demo_sent_def demo_adapter_def)

lemma demo_sent_line:
  assumes "Chain_Append demo_sha new_chain demo_sent = Inr (c, j)"
  shows "length (marshal j) < max_token"
proof -
  have j: "j_event j = demo_sent" "j_seq j = 1" "j_prev j = []" "length (j_hash j) = 2"
    using assms by (auto simp: Chain_Append_def demo_sent_valid Let_def new_chain_def digest_def demo_sha_def)
  show ?thesis using marshal_bounds(2) [of j] j by (simp add: demo_sent_def max_token_def)
qed


definition bad_sample :: string where
  "bad_sample = replicate 280 CHR 0x00"

theorem undecodable_sample_hides_rest_witness:
  "EvidenceState (sensor_run demo_sensor (Kernel (Some bad_sample) # map Kernel [None]) demo_attached) = (0, False)"
proof -
  have z: "((\<lambda>n. byte_val CHR 0x00 + 256 * n) ^^ k) 0 = 0" for k
    by (induction k) (simp_all add: byte_val_def)
  have "OperationFromCode 0 = None" by (simp add: OperationFromCode_def from_code_def operations_def)
  then have d: "Decode bad_sample (ad_run demo_attached) = Inl (UnknownOperation 0)"
    by (simp add: Decode_def bad_sample_def slice_def le_value_def z WireEventSize_def pathOffset_def pathLength_def
        demo_attached_def Attach_def Let_def)
  have r: "ad_reading demo_attached" "EvidenceState demo_attached = (0, False)"
    by (simp_all add: demo_attached_def Attach_def demo_adapter_def EvidenceState_def)
  show ?thesis using undecodable_sample_hides_rest [OF r(1) d refl] r(2) by metis
qed

end
