(* ===== verification/Registry.thy ===== *)
theory Registry
  imports Policy_Bundle Fs_Model "HOL-Library.Product_Lexorder"
begin

text \<open>
  \<open>internal/registry\<close>: the reference store of signed policy envelopes on the file system, its HTTP
  handler, and the client.  The root of the store is an absolute path; the JSON codec of an envelope
  is a pair of functions.  A store operation works on the file system of \<open>Fs_Model\<close>; the calls of
  the operating system that fail for other reasons than the tree itself are the flag \<open>io\<close>.
\<close>

record reg_env =
  rv_crypto :: crypto
  rv_marshal :: "Signed \<Rightarrow> string"
  rv_unmarshal :: "string \<Rightarrow> Signed option"
  rv_umask :: fmode
  rv_io :: bool

datatype reg_error =
    RegKey | RegRefused bundle_error | RegIo | RegPermission | RegNotFound | RegDecode
  | RegCorrupt bundle_error | RegRoot

definition reg_segs :: "path \<Rightarrow> string \<Rightarrow> string \<Rightarrow> segpath option" where
  "reg_segs root name version =
     (if blank root \<or> blank name \<or> blank version \<or> path_base name \<noteq> name \<or> path_base version \<noteq> version then None
      else Some (csegs (path_join root (name @ [sep] @ version @ ''.json''))))"

definition marker :: "segpath \<Rightarrow> segpath" where
  "marker p = butlast p @ [''.revoked'', last p]"

definition write_at :: "reg_env \<Rightarrow> fs \<Rightarrow> segpath \<Rightarrow> string \<Rightarrow> fs \<times> reg_error option" where
  "write_at rv f p content =
     (if \<not> rv_io rv then (f, Some RegIo)
      else (case MkdirAll (rv_umask rv) 448 f (butlast p) of
              None \<Rightarrow> (f, Some RegIo)
            | Some f1 \<Rightarrow>
                (case replace_file f1 p (384 AND NOT (rv_umask rv)) content of
                   None \<Rightarrow> (f1, Some RegIo)
                 | Some f2 \<Rightarrow> (f2, None))))"

definition reg_Put :: "reg_env \<Rightarrow> path \<Rightarrow> string \<Rightarrow> string \<Rightarrow> Signed \<Rightarrow> fs \<Rightarrow> fs \<times> reg_error option" where
  "reg_Put rv root name version sg f =
     (case bundle_Verify (rv_crypto rv) sg [] of
        Inl e \<Rightarrow> (f, Some (RegRefused e))
      | Inr _ \<Rightarrow>
          (case reg_segs root name version of
             None \<Rightarrow> (f, Some RegKey)
           | Some p \<Rightarrow> write_at rv f p (rv_marshal rv sg @ [CHR 0x0A])))"

definition reg_revoked :: "path \<Rightarrow> string \<Rightarrow> string \<Rightarrow> fs \<Rightarrow> bool" where
  "reg_revoked root name version f =
     (case reg_segs root name version of None \<Rightarrow> False | Some p \<Rightarrow> stat_node f (marker p) \<noteq> None)"

definition reg_Get :: "reg_env \<Rightarrow> path \<Rightarrow> string \<Rightarrow> string \<Rightarrow> fs \<Rightarrow> reg_error + Signed" where
  "reg_Get rv root name version f =
     (if reg_revoked root name version f then Inl RegPermission
      else (case reg_segs root name version of
              None \<Rightarrow> Inl RegKey
            | Some p \<Rightarrow>
                (case stat_node f p of
                   None \<Rightarrow> Inl RegNotFound
                 | Some (NFile m content) \<Rightarrow>
                     if \<not> rv_io rv then Inl RegIo
                     else (case rv_unmarshal rv content of
                             None \<Rightarrow> Inl RegDecode
                           | Some sg \<Rightarrow>
                               (case bundle_Verify (rv_crypto rv) sg [] of
                                  Inl e \<Rightarrow> Inl (RegCorrupt e)
                                | Inr _ \<Rightarrow> Inr sg))
                 | Some _ \<Rightarrow> Inl RegIo)))"

definition reg_Revoke :: "reg_env \<Rightarrow> path \<Rightarrow> string \<Rightarrow> string \<Rightarrow> fs \<Rightarrow> fs \<times> reg_error option" where
  "reg_Revoke rv root name version f =
     (case reg_Get rv root name version f of
        Inl e \<Rightarrow> (f, Some e)
      | Inr _ \<Rightarrow>
          (case reg_segs root name version of
             None \<Rightarrow> (f, Some RegKey)
           | Some p \<Rightarrow> write_at rv f (marker p) (''revoked'' @ [CHR 0x0A])))"

text \<open>What \<open>List\<close> makes of one file below the root.\<close>

definition listed :: "path \<Rightarrow> segpath \<Rightarrow> fs \<Rightarrow> segpath \<times> node \<Rightarrow> (string \<times> string) list" where
  "listed root r f x =
     (case (strip_common r (fst x), is_dir (snd x)) of
        (([], [a, b]), False) \<Rightarrow>
          if path_ext b \<noteq> ''.json'' \<or> suffix ''.tmp'' b \<or> prefix ''.'' a \<or> reg_revoked root a (trim_suffix ''.json'' b) f
          then [] else [(a, trim_suffix ''.json'' b)]
      | _ \<Rightarrow> [])"

definition reg_List :: "reg_env \<Rightarrow> path \<Rightarrow> fs \<Rightarrow> reg_error + (string \<times> string) list" where
  "reg_List rv root f =
     (if blank root then Inl RegRoot
      else (case lstat_node f (csegs root) of
              Some (NDir m) \<Rightarrow>
                if \<not> rv_io rv then Inl RegIo
                else (case phys_last f (csegs root) of
                        None \<Rightarrow> Inr []
                      | Some r \<Rightarrow> Inr (sort (concat (map (listed root r f) f))))
            | _ \<Rightarrow> Inr []))"

subsection \<open>The handler\<close>

record reg_request =
  rr_method :: string
  rr_url :: string
  rr_auth :: string
  rr_body :: "Signed option"

datatype reg_body = RText string | REntries "(string \<times> string) list" | REnvelope Signed | REmpty

definition url_prefix :: string where "url_prefix = ''/v1/registry/policies/''"

definition serve_item :: "reg_env \<Rightarrow> path \<Rightarrow> bool \<Rightarrow> string \<Rightarrow> fs \<Rightarrow> fs \<times> nat \<times> reg_body" where
  "serve_item rv root del rest f =
     (case split_on sep rest of
        [name, file] \<Rightarrow>
          (let version = trim_suffix ''.json'' file in
           if del then
             (case reg_Revoke rv root name version f of
                (f', None) \<Rightarrow> (f', 204, REmpty)
              | (f', Some RegNotFound) \<Rightarrow> (f', 404, RText ''404 page not found'')
              | (f', Some _) \<Rightarrow> (f', 409, RText ''registry revoke failed''))
           else
             (case reg_Get rv root name version f of
                Inr sg \<Rightarrow> (f, 200, REnvelope sg)
              | Inl RegPermission \<Rightarrow> (f, 410, RText ''policy revoked'')
              | Inl RegNotFound \<Rightarrow> (f, 404, RText ''404 page not found'')
              | Inl _ \<Rightarrow> (f, 500, RText ''registry read failed'')))
      | _ \<Rightarrow> (f, 404, RText ''404 page not found''))"

text \<open>The body of a request is the envelope it decodes to, within the limit of 4 MiB.\<close>

definition reg_Handler :: "reg_env \<Rightarrow> path \<Rightarrow> string \<Rightarrow> reg_request \<Rightarrow> fs \<Rightarrow> fs \<times> nat \<times> reg_body" where
  "reg_Handler rv root bearer rq f =
     (if bearer \<noteq> [] \<and> rr_auth rq \<noteq> ''Bearer '' @ bearer then (f, 401, RText ''unauthorized'')
      else if rr_url rq = ''/v1/registry/policies'' \<and> rr_method rq = ''GET'' then
        (case reg_List rv root f of
           Inl e \<Rightarrow> (f, 500, RText ''registry list failed'')
         | Inr es \<Rightarrow> (f, 200, REntries es))
      else if rr_url rq = ''/v1/registry/policies'' \<and> rr_method rq = ''POST'' then
        (case rr_body rq of
           None \<Rightarrow> (f, 400, RText ''invalid envelope'')
         | Some sg \<Rightarrow>
             (case bundle_Verify (rv_crypto rv) sg [] of
                Inl e \<Rightarrow> (f, 400, RText ''unverified envelope'')
              | Inr b \<Rightarrow>
                  (case reg_Put rv root (bd_name b) (bd_version b) sg f of
                     (f', Some e) \<Rightarrow> (f', 500, RText ''store failed'')
                   | (f', None) \<Rightarrow> (f', 201, REmpty))))
      else if prefix url_prefix (rr_url rq) \<and> (rr_method rq = ''GET'' \<or> rr_method rq = ''DELETE'') then
        serve_item rv root (rr_method rq = ''DELETE'') (drop (length url_prefix) (rr_url rq)) f
      else (f, 404, RText ''404 page not found''))"

subsection \<open>The client\<close>

text \<open>One call of the client: no answer, an answer whose body cannot be read, or a status and a body.\<close>

datatype call_result = CallFailed | ReadFailed | Answered nat string

datatype client_error =
    EndpointInvalid | EndpointPlain | Cancelled | LastCall | LastRead
  | LastStatus nat string | EnvelopeRequired | KeyRequired | EnvelopeDecode | EnvelopeRefused bundle_error
  | ListingDecode

record client =
  cl_endpoint :: string
  cl_bearer :: string
  cl_attempts :: int
  cl_trusted :: "string list"

text \<open>\<open>parse\<close> is \<open>url.Parse\<close>: scheme and host.\<close>

definition endpoint_ok :: "(string \<Rightarrow> (string \<times> string) option) \<Rightarrow> client \<Rightarrow> client_error + unit" where
  "endpoint_ok parse c =
     (case parse (rev (dropWhile (\<lambda>x. x = sep) (rev (cl_endpoint c)))) of
        None \<Rightarrow> Inl EndpointInvalid
      | Some (scheme, host) \<Rightarrow>
          if scheme = [] \<or> host = [] then Inl EndpointInvalid
          else if scheme \<noteq> ''https'' \<and> \<not> prefix ''127.0.0.1'' host \<and> \<not> prefix ''localhost'' host then Inl EndpointPlain
          else Inr ())"

definition call_error :: "call_result \<Rightarrow> client_error + string" where
  "call_error r =
     (case r of
        CallFailed \<Rightarrow> Inl LastCall
      | ReadFailed \<Rightarrow> Inl LastRead
      | Answered status b \<Rightarrow> if 200 \<le> status \<and> status < 300 then Inr b else Inl (LastStatus status (trim_space b)))"

text \<open>\<open>n\<close> attempts are left, \<open>i\<close> are done; the wait after an attempt ends early if the context is done.\<close>

fun attempts_loop :: "(nat \<Rightarrow> call_result) \<Rightarrow> (nat \<Rightarrow> bool) \<Rightarrow> nat \<Rightarrow> nat \<Rightarrow> client_error + string" where
  "attempts_loop call stopped i 0 = Inl LastCall"
| "attempts_loop call stopped i (Suc n) =
     (case call_error (call i) of
        Inr b \<Rightarrow> Inr b
      | Inl e \<Rightarrow> if n = 0 then Inl e else if stopped i then Inl Cancelled else attempts_loop call stopped (Suc i) n)"

text \<open>\<open>url.PathEscape\<close> of a segment, and the decoding of a request path by the server.\<close>

definition url_plain :: "char \<Rightarrow> bool" where
  "url_plain c = (c \<in> set (''ABCDEFGHIJKLMNOPQRSTUVWXYZabcdefghijklmnopqrstuvwxyz0123456789'' @ ''-_.~$&+:=@''))"

definition upper_hex :: "nat \<Rightarrow> char" where
  "upper_hex n = ''0123456789ABCDEF'' ! n"

definition path_escape :: "string \<Rightarrow> string" where
  "path_escape s = concat (map (\<lambda>c. if url_plain c then [c]
     else [CHR ''%'', upper_hex (of_char c div 16), upper_hex (of_char c mod 16)]) s)"

definition hex_value :: "char \<Rightarrow> nat option" where
  "hex_value c = map_of (zip (''0123456789ABCDEFabcdef'') ([0..<16] @ [10..<16])) c"

fun url_unescape :: "string \<Rightarrow> string option" where
  "url_unescape [] = Some []"
| "url_unescape (c # s) =
     (if c \<noteq> CHR ''%'' then map_option (\<lambda>t. c # t) (url_unescape s)
      else (case s of
              a # b # t \<Rightarrow>
                (case (hex_value a, hex_value b) of
                   (Some x, Some y) \<Rightarrow> map_option (\<lambda>t. char_of (16 * x + y) # t) (url_unescape t)
                 | _ \<Rightarrow> None)
            | _ \<Rightarrow> None))"

text \<open>\<open>send method path body\<close> performs one call, given the number of the attempt.\<close>

type_synonym transport = "string \<Rightarrow> string \<Rightarrow> string \<Rightarrow> nat \<Rightarrow> call_result"

definition client_do ::
  "(string \<Rightarrow> (string \<times> string) option) \<Rightarrow> transport \<Rightarrow> (nat \<Rightarrow> bool) \<Rightarrow> client \<Rightarrow> string \<Rightarrow> string \<Rightarrow> string \<Rightarrow>
     client_error + string" where
  "client_do parse send stopped c verb url body =
     and_then (endpoint_ok parse c) (\<lambda>_.
       attempts_loop (send verb url body) stopped 0 (if cl_attempts c \<le> 0 then 3 else nat (cl_attempts c)))"

definition item_url :: "string \<Rightarrow> string \<Rightarrow> string" where
  "item_url name version = url_prefix @ path_escape name @ [sep] @ path_escape version"

definition client_Publish ::
  "reg_env \<Rightarrow> (string \<Rightarrow> (string \<times> string) option) \<Rightarrow> transport \<Rightarrow> (nat \<Rightarrow> bool) \<Rightarrow> client \<Rightarrow> Signed \<Rightarrow> client_error + unit" where
  "client_Publish rv parse send stopped c sg =
     (if sg_version sg = 0 \<or> sg_payload sg = [] \<or> sg_signature sg = [] then Inl EnvelopeRequired
      else and_then (client_do parse send stopped c ''POST'' ''/v1/registry/policies'' (rv_marshal rv sg)) (\<lambda>_. Inr ()))"

definition client_Fetch ::
  "reg_env \<Rightarrow> (string \<Rightarrow> (string \<times> string) option) \<Rightarrow> transport \<Rightarrow> (nat \<Rightarrow> bool) \<Rightarrow> client \<Rightarrow>
     string \<Rightarrow> string \<Rightarrow> client_error + Bundle" where
  "client_Fetch rv parse send stopped c name version =
     (if blank name \<or> blank version then Inl KeyRequired
      else and_then (client_do parse send stopped c ''GET'' (item_url name version) []) (\<lambda>b.
        case rv_unmarshal rv b of
          None \<Rightarrow> Inl EnvelopeDecode
        | Some sg \<Rightarrow> map_err EnvelopeRefused (bundle_Verify (rv_crypto rv) sg (cl_trusted c))))"

definition client_List ::
  "(string \<Rightarrow> (string \<times> string) list option) \<Rightarrow> (string \<Rightarrow> (string \<times> string) option) \<Rightarrow> transport \<Rightarrow>
     (nat \<Rightarrow> bool) \<Rightarrow> client \<Rightarrow> client_error + (string \<times> string) list" where
  "client_List decode parse send stopped c =
     and_then (client_do parse send stopped c ''GET'' ''/v1/registry/policies'' []) (\<lambda>b.
       case decode b of None \<Rightarrow> Inl ListingDecode | Some es \<Rightarrow> Inr es)"

definition client_Revoke ::
  "(string \<Rightarrow> (string \<times> string) option) \<Rightarrow> transport \<Rightarrow> (nat \<Rightarrow> bool) \<Rightarrow> client \<Rightarrow>
     string \<Rightarrow> string \<Rightarrow> client_error + unit" where
  "client_Revoke parse send stopped c name version =
     (if blank name \<or> blank version then Inl KeyRequired
      else and_then (client_do parse send stopped c ''DELETE'' (item_url name version) []) (\<lambda>_. Inr ()))"

text \<open>
  The client talking to a registry whose files are \<open>f\<close>: the path is decoded, the token of the client
  becomes the header, and \<open>enc\<close> writes an answer.
\<close>

definition deliver ::
  "reg_env \<Rightarrow> path \<Rightarrow> string \<Rightarrow> (reg_body \<Rightarrow> string) \<Rightarrow> client \<Rightarrow> fs \<Rightarrow> transport" where
  "deliver rv root secret enc c f verb url body i =
     (case url_unescape url of
        None \<Rightarrow> Answered 400 ''400 Bad Request''
      | Some u \<Rightarrow>
          (case reg_Handler rv root secret
                  \<lparr>rr_method = verb, rr_url = u,
                   rr_auth = (if cl_bearer c = [] then [] else ''Bearer '' @ cl_bearer c),
                   rr_body = rv_unmarshal rv body\<rparr> f of
             (_, status, b) \<Rightarrow> Answered status (enc b)))"
subsection \<open>Where an envelope lies\<close>

definition leaf :: "string \<Rightarrow> string" where
  "leaf version = (if version = [sep] then ''.json'' else version @ ''.json'')"

lemma base_plain: "path_base x = x \<Longrightarrow> x \<noteq> [sep] \<Longrightarrow> sep \<notin> set x"
proof -
  assume b: "path_base x = x" and n: "x \<noteq> [sep]"
  have "sep \<notin> set (path_base x) \<or> path_base x = [sep]"
    unfolding path_base_def Let_def by (auto dest!: set_takeWhileD)
  then show "sep \<notin> set x" using b n by simp
qed

lemma segs_leaf: "path_base version = version \<Longrightarrow> segs (version @ ''.json'') = [leaf version]"
proof (cases "version = [sep]")
  case False
  assume "path_base version = version"
  then have "sep \<notin> set (version @ ''.json'')" using base_plain False by auto
  then show ?thesis using False by (simp add: segs_def split_on_id leaf_def append_eq_Cons_conv)
qed (simp add: segs_def leaf_def)

lemma csegs_join: "is_abs a \<Longrightarrow> csegs (path_join a b) = norm_segs True (segs a @ segs b)"
proof -
  assume a: "is_abs a"
  then have n: "a \<noteq> []" "is_abs (a @ sep # b)" by (auto simp: is_abs_def prefix_def)
  then have "csegs (a @ sep # b) = norm_segs True (segs a @ segs b)"
    by (simp add: csegs_def parse_path_def segs_append_sep)
  then show ?thesis using n by (simp add: path_join_def)
qed

lemma csegs_join_dotdot: "is_abs a \<Longrightarrow> csegs (path_join a dotdot) = butlast (csegs a)"
proof -
  assume a: "is_abs a"
  have "dotdot \<notin> set (csegs a)" using csegs_no_dotdot [OF a] .
  then have r: "rev (norm_step True (rev (csegs a)) dotdot) = butlast (csegs a)"
    by (cases "csegs a" rule: rev_cases) (auto simp: norm_step_def)
  have "segs dotdot = [dotdot]" by (simp add: segs_def)
  then have "csegs (path_join a dotdot) = rev (norm_step True (foldl (norm_step True) [] (segs a)) dotdot)"
    by (simp add: csegs_join [OF a] norm_segs_def)
  moreover have "rev (csegs a) = foldl (norm_step True) [] (segs a)"
    using a by (simp add: csegs_def parse_path_def norm_segs_def)
  ultimately show ?thesis using r by simp
qed

lemma leaf_not_dotdot: "leaf v \<noteq> dotdot"
  by (auto simp: leaf_def append_eq_Cons_conv)

text \<open>An envelope lies in the directory of its name, which the name \<open>..\<close> moves out of the root.\<close>

lemma reg_segs_Some:
  assumes "is_abs root"
  shows "reg_segs root name version = Some p \<longleftrightarrow>
    \<not> blank root \<and> \<not> blank name \<and> \<not> blank version \<and> path_base name = name \<and> path_base version = version \<and>
    p = csegs (path_join root name) @ [leaf version]"
proof -
  have "segs (name @ [sep] @ version @ ''.json'') = segs name @ [leaf version]" if "path_base version = version"
    using segs_leaf [OF that] by (simp add: segs_append_sep)
  then have "csegs (path_join root (name @ [sep] @ version @ ''.json'')) = csegs (path_join root name) @ [leaf version]"
    if "path_base version = version"
    using that leaf_not_dotdot by (simp add: csegs_join [OF assms] norm_segs_def norm_step_def)
  then show ?thesis by (auto simp: reg_segs_def)
qed

lemma csegs_join_name:
  "is_abs root \<Longrightarrow> path_base name = name \<Longrightarrow> name \<noteq> dotdot \<Longrightarrow>
     csegs (path_join root name) = csegs root @ (if name = dot \<or> name = [sep] then [] else [name])"
proof -
  assume a: "is_abs root" and b: "path_base name = name" and d: "name \<noteq> dotdot"
  have ne: "name \<noteq> []" using b by (auto simp: path_base_def)
  have "segs name = (if name = dot \<or> name = [sep] then [] else [name])"
  proof (cases "name = [sep]")
    case False
    then show ?thesis using base_plain [OF b False] ne by (simp add: segs_def split_on_id)
  qed (simp add: segs_def)
  then show ?thesis using csegs_join_plain [OF a, of name] d by auto
qed

lemma reg_segs_no_dotdot:
  "is_abs root \<Longrightarrow> reg_segs root name version = Some p \<Longrightarrow> dotdot \<notin> set p \<and> p \<noteq> []"
  using csegs_no_dotdot [OF path_join_abs [of root name]] leaf_not_dotdot [of version, symmetric] by (auto simp: reg_segs_Some)

lemma marker_no_dotdot: "p \<noteq> [] \<Longrightarrow> dotdot \<notin> set p \<Longrightarrow> dotdot \<notin> set (marker p) \<and> marker p \<noteq> []"
  by (auto simp: marker_def dest: in_set_butlastD)

lemma marker_neq: "p \<noteq> [] \<Longrightarrow> marker p \<noteq> p"
  by (cases p rule: rev_cases) (auto simp: marker_def)
subsection \<open>Writing\<close>

definition fs_kept :: "fs \<Rightarrow> fs \<Rightarrow> bool" where
  "fs_kept f f' = (no_links f' \<and> (\<forall>q. fs_get f q \<noteq> None \<longrightarrow> fs_get f' q \<noteq> None))"

lemma fs_kept_trans: "fs_kept f g \<Longrightarrow> fs_kept g h \<Longrightarrow> fs_kept f h"
  by (auto simp: fs_kept_def)

lemma reg_replace_file_put:
  assumes "no_links f" and "dotdot \<notin> set p" and "replace_file f p m c = Some f'"
  shows "f' = fs_put p (NFile m c) f"
  using assms phys_last_no_links [of f p] by (auto simp: replace_file_def split: option.splits node.splits if_splits)

text \<open>A write touches its file and missing directories above it, and removes nothing.\<close>

definition touched :: "fs \<Rightarrow> fs \<Rightarrow> segpath \<Rightarrow> bool" where
  "touched f f' p = (fs_kept f f' \<and> (\<forall>q. fs_get f' q \<noteq> fs_get f q \<longrightarrow> prefix q p))"

lemma touched_refl: "no_links f \<Longrightarrow> touched f f p"
  by (simp add: touched_def fs_kept_def)

lemma write_at_effect:
  assumes "no_links f" and "dotdot \<notin> set p" and "write_at rv f p c = (f', r)"
  shows "touched f f' p \<and> (r = None \<longrightarrow> fs_get f' p = Some (NFile (384 AND NOT (rv_umask rv)) c))"
proof -
  have bl: "dotdot \<notin> set (butlast p)" using assms(2) by (auto dest: in_set_butlastD)
  show ?thesis
  proof (cases "rv_io rv \<and> MkdirAll (rv_umask rv) 448 f (butlast p) \<noteq> None")
    case False
    then have "f' = f" "r \<noteq> None" using assms(3) by (auto simp: write_at_def split: option.splits if_splits)
    then show ?thesis using touched_refl [OF assms(1)] by auto
  next
    case True
    then obtain f1 where f1: "MkdirAll (rv_umask rv) 448 f (butlast p) = Some f1" by blast
    note g = MkdirAll_grown [OF plain_way_no_links [OF assms(1)] bl f1]
    have new: "prefix q p" if "fs_get f1 q \<noteq> fs_get f q" for q
    proof (cases "fs_get f q")
      case None
      then have "prefix q (butlast p)" using that g by (cases "fs_get f1 q") (auto simp: grown_def)
      then show ?thesis using prefixeq_butlast [of p] prefix_order.order_trans by blast
    next
      case (Some n)
      then show ?thesis using that g by (auto simp: grown_def)
    qed
    have kept: "no_links f1" by (rule MkdirAll_no_links [OF assms(1) f1])
    have keep: "\<And>q. fs_get f q \<noteq> None \<Longrightarrow> fs_get f1 q \<noteq> None"
      using g by (auto simp: grown_def)
    show ?thesis
    proof (cases "replace_file f1 p (384 AND NOT (rv_umask rv)) c")
      case None
      then have "f' = f1" "r \<noteq> None" using assms(3) f1 True by (auto simp: write_at_def)
      then show ?thesis using kept keep new by (auto simp: touched_def fs_kept_def)
    next
      case (Some f2)
      then have "f' = f2" "r = None" using assms(3) f1 True by (auto simp: write_at_def)
      moreover have "f2 = fs_put p (NFile (384 AND NOT (rv_umask rv)) c) f1"
        using reg_replace_file_put [OF kept assms(2) Some] .
      ultimately show ?thesis using kept keep new by (simp add: touched_def fs_kept_def)
    qed
  qed
qed

lemma reg_revoked_iff:
  assumes "is_abs root" and "no_links f" and "reg_segs root name version = Some p"
  shows "reg_revoked root name version f \<longleftrightarrow> fs_get f (marker p) \<noteq> None"
  using assms(2,3) reg_segs_no_dotdot [OF assms(1,3)] marker_no_dotdot [of p] stat_node_no_links [of f "marker p"]
  by (simp add: reg_revoked_def)

lemma reg_Put_cases:
  assumes "is_abs root" and "no_links f" and "reg_Put rv root name version sg f = (f', r)"
  obtains "f' = f" "r \<noteq> None"
  | p b where "reg_segs root name version = Some p" "bundle_Verify (rv_crypto rv) sg [] = Inr b" "touched f f' p"
      "r = None \<Longrightarrow> fs_get f' p = Some (NFile (384 AND NOT (rv_umask rv)) (rv_marshal rv sg @ [CHR 0x0A]))"
proof (cases "bundle_Verify (rv_crypto rv) sg []")
  case (Inl e)
  then show ?thesis using assms(3) that(1) by (auto simp: reg_Put_def)
next
  case (Inr b)
  show ?thesis
  proof (cases "reg_segs root name version")
    case None
    then show ?thesis using assms(3) Inr that(1) by (auto simp: reg_Put_def)
  next
    case (Some p)
    then have "write_at rv f p (rv_marshal rv sg @ [CHR 0x0A]) = (f', r)" using assms(3) Inr by (simp add: reg_Put_def)
    from write_at_effect [OF assms(2) conjunct1 [OF reg_segs_no_dotdot [OF assms(1) Some]] this]
    show ?thesis using that(2) [OF Some Inr] by simp
  qed
qed

lemma reg_Revoke_cases:
  assumes "is_abs root" and "no_links f" and "reg_Revoke rv root name version f = (f', r)"
  obtains e where "f' = f" "r = Some e" "reg_Get rv root name version f = Inl e"
  | p sg where "reg_segs root name version = Some p" "reg_Get rv root name version f = Inr sg" "touched f f' (marker p)"
      "r = None \<Longrightarrow> fs_get f' (marker p) \<noteq> None"
proof (cases "reg_Get rv root name version f")
  case (Inl e)
  then show ?thesis using assms(3) that(1) by (auto simp: reg_Revoke_def)
next
  case (Inr sg)
  then obtain p where p: "reg_segs root name version = Some p"
    by (auto simp: reg_Get_def split: if_splits option.splits)
  note n = marker_no_dotdot [of p] reg_segs_no_dotdot [OF assms(1) p]
  have "write_at rv f (marker p) (''revoked'' @ [CHR 0x0A]) = (f', r)" using assms(3) Inr p by (simp add: reg_Revoke_def)
  from write_at_effect [OF assms(2) _ this] n show ?thesis using that(2) [OF p Inr] by simp
qed
subsection \<open>The directories above a written file\<close>

lemma mkdir_from_append:
  "mkdir_from m f here (xs @ ys) = Some f' \<Longrightarrow>
     \<exists>f1. mkdir_from m f here xs = Some f1 \<and> mkdir_from m f1 (here @ xs) ys = Some f'"
proof (induction xs arbitrary: f here)
  case (Cons x xs)
  then show ?case by (fastforce split: option.splits if_splits)
qed simp

lemma MkdirAll_dirs:
  assumes "no_links f" and "dotdot \<notin> set p" and "MkdirAll u m f p = Some f'" and "prefix xs p" and "xs \<noteq> []"
  shows "\<exists>k. fs_get f' xs = Some (NDir k)"
proof -
  obtain ys where p: "p = xs @ ys" using assms(4) by (auto simp: prefix_def)
  obtain f1 where f1: "mkdir_from (m AND NOT u) f [] xs = Some f1" "mkdir_from (m AND NOT u) f1 xs ys = Some f'"
    using mkdir_from_append [of _ f "[]" xs ys f'] assms(3) p by (auto simp: MkdirAll_def)
  have d: "dotdot \<notin> set xs" using assms(2) p by simp
  obtain k where k: "fs_get f1 xs = Some (NDir k)"
    using mkdir_from_dir [OF plain_way_no_links [OF assms(1)] _ f1(1)] d assms(5) by auto
  have "no_links f1" by (rule mkdir_from_no_links [OF assms(1) f1(1)])
  from mkdir_from_grown [OF plain_way_no_links [OF this] _ f1(2)] assms(2) p k show ?thesis by (auto simp: grown_def)
qed

lemma write_at_dirs:
  assumes "no_links f" and "dotdot \<notin> set p" and "write_at rv f p c = (f', None)"
    and "prefix xs (butlast p)" and "xs \<noteq> []"
  shows "\<exists>k. fs_get f' xs = Some (NDir k)"
proof -
  have bl: "dotdot \<notin> set (butlast p)" using assms(2) by (auto dest: in_set_butlastD)
  obtain f1 where f1: "MkdirAll (rv_umask rv) 448 f (butlast p) = Some f1"
    and r: "replace_file f1 p (384 AND NOT (rv_umask rv)) c = Some f'"
    using assms(3) by (auto simp: write_at_def split: if_splits option.splits)
  have "no_links f1" using MkdirAll_no_links [OF assms(1) f1] .
  from reg_replace_file_put [OF this assms(2) r] have f': "f' = fs_put p (NFile (384 AND NOT (rv_umask rv)) c) f1" .
  have "xs \<noteq> p" using assms(4,5) by (metis append_butlast_last_id prefix_length_le butlast.simps(1)
        length_append_singleton not_less_eq_eq order_refl prefix_Nil)
  then show ?thesis using MkdirAll_dirs [OF assms(1) bl f1 assms(4,5)] f' by simp
qed

subsection \<open>Publishing and reading back\<close>

lemma strip_common_append [simp]: "strip_common xs (xs @ ys) = ([], ys)"
  by (induction xs) (cases ys, auto)

lemma path_ext_json: "path_ext (v @ ''.json'') = ''.json''"
  by (simp add: path_ext_def Let_def)

lemma trim_suffix_append [simp]: "trim_suffix s (v @ s) = v"
  by (auto simp: trim_suffix_def suffix_def)

lemma reg_Put_get:
  assumes "is_abs root" and "no_links f" and "rv_io rv"
    and "rv_unmarshal rv (rv_marshal rv sg @ [CHR 0x0A]) = Some sg"
    and "reg_Put rv root name version sg f = (f', None)" and "\<not> reg_revoked root name version f"
  shows "reg_Get rv root name version f' = Inr sg \<and> no_links f'"
proof -
  obtain p b where p: "reg_segs root name version = Some p" and b: "bundle_Verify (rv_crypto rv) sg [] = Inr b"
    and t: "touched f f' p" and w: "fs_get f' p = Some (NFile (384 AND NOT (rv_umask rv)) (rv_marshal rv sg @ [CHR 0x0A]))"
    using reg_Put_cases [OF assms(1,2,5)] by metis
  note pd = reg_segs_no_dotdot [OF assms(1) p]
  have nl: "no_links f'" using t by (simp add: touched_def fs_kept_def)
  have "\<not> prefix (marker p) p"
    using pd by (auto simp: marker_def prefix_def butlast_append dest: arg_cong [of _ _ length])
  then have "fs_get f' (marker p) = fs_get f (marker p)" using t by (auto simp: touched_def)
  then have "\<not> reg_revoked root name version f'"
    using assms(6) reg_revoked_iff [OF assms(1,2) p] reg_revoked_iff [OF assms(1) nl p] by simp
  then show ?thesis
    using p pd nl w b assms(3,4) by (simp add: reg_Get_def stat_node_no_links)
qed

lemma reg_Put_listed:
  assumes "is_abs root" and "no_links f" and "rv_io rv"
    and "reg_Put rv root name version sg f = (f', None)" and "\<not> reg_revoked root name version f'"
    and "\<not> prefix dot name" and "name \<noteq> [sep]" and "version \<noteq> [sep]"
  shows "\<exists>es. reg_List rv root f' = Inr es \<and> (name, version) \<in> set es"
proof -
  obtain p where p: "reg_segs root name version = Some p" and t: "touched f f' p"
    and w: "\<exists>m c. fs_get f' p = Some (NFile m c)"
    using reg_Put_cases [OF assms(1,2,4)] by metis
  have wr: "write_at rv f p (rv_marshal rv sg @ [CHR 0x0A]) = (f', None)"
    using assms(4) p by (simp add: reg_Put_def split: sum.splits)
  have nd: "name \<noteq> dotdot" "name \<noteq> dot" using assms(6) by auto
  have ps: "p = csegs root @ [name, version @ ''.json'']" and rb: "\<not> blank root"
    using p csegs_join_name [OF assms(1) _ nd(1)] nd assms(7,8) by (auto simp: reg_segs_Some [OF assms(1)] leaf_def)
  have nl: "no_links f'" using t by (simp add: touched_def fs_kept_def)
  have dd: "dotdot \<notin> set (csegs root)" using csegs_no_dotdot [OF assms(1)] .
  have ln: "\<exists>k. lstat_node f' (csegs root) = Some (NDir k)"
  proof (cases "csegs root = []")
    case False
    have "prefix (csegs root) (butlast p)" by (simp add: ps butlast_append)
    then have "\<exists>k. fs_get f' (csegs root) = Some (NDir k)"
      using write_at_dirs [OF assms(2) conjunct1 [OF reg_segs_no_dotdot [OF assms(1) p]] wr _ False] by simp
    then show ?thesis using False phys_last_no_links [OF nl dd] by (simp add: lstat_node_def)
  qed (simp add: lstat_node_def phys_last_def)
  obtain m c where pf: "(p, NFile m c) \<in> set f'" using w fs_get_Some_in by metis
  have "(name, version) \<in> set (listed root (csegs root) f' (p, NFile m c))"
    using assms(5,6) by (simp add: listed_def ps path_ext_json suffix_def)
  then have "(name, version) \<in> set (sort (concat (map (listed root (csegs root) f') f')))"
    using pf by auto
  then show ?thesis
    using ln rb assms(3) phys_last_no_links [OF nl dd] by (auto simp: reg_List_def)
qed
text \<open>An envelope that was stored is read back as it is, and the listing names it.\<close>

theorem stored_envelope_reads_back:
  assumes "is_abs root" and "no_links f" and "rv_io rv"
    and "rv_unmarshal rv (rv_marshal rv sg @ [CHR 0x0A]) = Some sg"
    and "reg_Put rv root name version sg f = (f', None)" and "\<not> reg_revoked root name version f"
    and "\<not> prefix dot name" and "name \<noteq> [sep]" and "version \<noteq> [sep]"
  shows "reg_Get rv root name version f' = Inr sg \<and>
    (\<exists>es. reg_List rv root f' = Inr es \<and> (name, version) \<in> set es)"
proof -
  note g = reg_Put_get [OF assms(1-6)]
  then have "\<not> reg_revoked root name version f'" by (auto simp: reg_Get_def split: if_splits)
  with g reg_Put_listed [OF assms(1-3,5) _ assms(7-9)] show ?thesis by simp
qed

subsection \<open>Sequences of requests\<close>

definition served :: "reg_env \<Rightarrow> path \<Rightarrow> string \<Rightarrow> reg_request list \<Rightarrow> fs \<Rightarrow> fs" where
  "served rv root secret rqs f = fold (\<lambda>rq f. fst (reg_Handler rv root secret rq f)) rqs f"

lemma reg_Put_kept: "is_abs root \<Longrightarrow> no_links f \<Longrightarrow> fs_kept f (fst (reg_Put rv root name version sg f))"
  by (rule reg_Put_cases [of root f rv name version sg "fst (reg_Put rv root name version sg f)"
      "snd (reg_Put rv root name version sg f)"]) (auto simp: touched_def fs_kept_def)

lemma reg_Revoke_kept: "is_abs root \<Longrightarrow> no_links f \<Longrightarrow> fs_kept f (fst (reg_Revoke rv root name version f))"
  by (rule reg_Revoke_cases [of root f rv name version "fst (reg_Revoke rv root name version f)"
      "snd (reg_Revoke rv root name version f)"]) (auto simp: touched_def fs_kept_def)

lemma serve_item_fst:
  "fst (serve_item rv root del rest f) =
     (case split_on sep rest of
        [name, file] \<Rightarrow> (if del then fst (reg_Revoke rv root name (trim_suffix ''.json'' file) f) else f)
      | _ \<Rightarrow> f)"
  by (simp add: serve_item_def Let_def split: list.split option.split prod.split sum.split reg_error.split)

lemma reg_Handler_fst:
  "fst (reg_Handler rv root secret rq f) \<in>
     {f} \<union> {fst (reg_Put rv root (bd_name b) (bd_version b) sg f) | b sg. rr_body rq = Some sg \<and> bundle_Verify (rv_crypto rv) sg [] = Inr b}
     \<union> {fst (serve_item rv root True (drop (length url_prefix) (rr_url rq)) f)}"
proof -
  have g: "fst (serve_item rv root False rest f) = f" for rest
    by (simp add: serve_item_fst split: list.split)
  show ?thesis
    using g by (auto simp: reg_Handler_def split: sum.split option.split prod.split)
qed

lemma reg_Handler_kept: "is_abs root \<Longrightarrow> no_links f \<Longrightarrow> fs_kept f (fst (reg_Handler rv root secret rq f))"
proof -
  assume a: "is_abs root" "no_links f"
  have "fs_kept f f" using a(2) by (simp add: fs_kept_def)
  moreover have "fs_kept f (fst (serve_item rv root True rest f))" for rest
    using a \<open>fs_kept f f\<close> by (simp add: serve_item_fst reg_Revoke_kept split: list.split)
  ultimately show ?thesis using reg_Handler_fst [of rv root secret rq f] reg_Put_kept [OF a] by auto
qed

lemma served_kept: "is_abs root \<Longrightarrow> no_links f \<Longrightarrow> fs_kept f (served rv root secret rqs f)"
proof (induction rqs arbitrary: f)
  case (Cons rq rqs)
  note k = reg_Handler_kept [OF Cons.prems, of rv secret rq]
  then have "no_links (fst (reg_Handler rv root secret rq f))" by (simp add: fs_kept_def)
  from Cons.IH [OF Cons.prems(1) this] fs_kept_trans [OF k] show ?case by (simp add: served_def)
qed (simp add: served_def fs_kept_def)

lemma revoked_kept:
  "is_abs root \<Longrightarrow> no_links f \<Longrightarrow> fs_kept f f' \<Longrightarrow> reg_revoked root name version f \<Longrightarrow> reg_revoked root name version f'"
  by (cases "reg_segs root name version")
    (auto simp: reg_revoked_iff fs_kept_def, auto simp: reg_revoked_def)

lemma reg_List_not_revoked:
  "reg_List rv root f = Inr es \<Longrightarrow> (name, version) \<in> set es \<Longrightarrow> \<not> reg_revoked root name version f"
  by (auto simp: reg_List_def listed_def split: if_splits option.splits node.splits prod.splits list.splits bool.splits)

lemma revoked_after_requests:
  assumes "is_abs root" and "no_links f" and "reg_Revoke rv root name version f = (f', None)"
  shows "reg_revoked root name version (served rv root secret rqs f')"
proof -
  obtain p where p: "reg_segs root name version = Some p" and t: "touched f f' (marker p)" "fs_get f' (marker p) \<noteq> None"
    using reg_Revoke_cases [OF assms] by (metis option.distinct(1))
  then have nl: "no_links f'" by (simp add: touched_def fs_kept_def)
  then have "reg_revoked root name version f'" using reg_revoked_iff [OF assms(1) nl p] t by simp
  then show ?thesis using revoked_kept [OF assms(1) nl served_kept [OF assms(1) nl]] by blast
qed

text \<open>
  C38. A revocation is permanent: whatever requests the registry serves afterwards, the policy is
  answered as revoked and is not listed; publishing it again does not bring it back.
\<close>

theorem revocation_is_permanent:
  assumes "is_abs root" and "no_links f" and "reg_Revoke rv root name version f = (f', None)"
  shows "reg_Get rv root name version (served rv root secret rqs f') = Inl RegPermission \<and>
    (\<forall>es. reg_List rv root (served rv root secret rqs f') = Inr es \<longrightarrow> (name, version) \<notin> set es)"
  using revoked_after_requests [OF assms] by (auto simp: reg_Get_def dest: reg_List_not_revoked)
text \<open>Publishing and revoking stay below the root, unless the policy is named \<open>..\<close>.\<close>

lemma touched_below:
  "touched f f' (r @ xs) \<Longrightarrow> fs_get f' q \<noteq> fs_get f q \<Longrightarrow> prefix r q \<or> prefix q r"
  using prefix_append [of q r xs] by (auto simp: touched_def)

theorem store_changes_stay_below_root:
  assumes "is_abs root" and "no_links f" and "name \<noteq> dotdot"
    and "f' = fst (reg_Put rv root name version sg f) \<or> f' = fst (reg_Revoke rv root name version f)"
    and "fs_get f' q \<noteq> fs_get f q"
  shows "prefix (csegs root) q \<or> prefix q (csegs root)"
proof -
  have seg: "\<exists>xs. p = csegs root @ xs \<and> xs \<noteq> []" if "reg_segs root name version = Some p" for p
    using that csegs_join_name [OF assms(1) _ assms(3)] by (auto simp: reg_segs_Some [OF assms(1)])
  then have mark: "\<exists>xs. marker p = csegs root @ xs" if "reg_segs root name version = Some p" for p
    using that by (fastforce simp: marker_def butlast_append)
  have "f' = f \<or> (\<exists>p. reg_segs root name version = Some p \<and> (touched f f' p \<or> touched f f' (marker p)))"
    using assms(4)
    by (metis reg_Put_cases [OF assms(1,2)] reg_Revoke_cases [OF assms(1,2)] prod.collapse)
  then show ?thesis using assms(5) seg mark touched_below by metis
qed

text \<open>A policy named \<open>..\<close> that carries any valid signature is stored beside the root.\<close>

theorem policy_named_dotdot_leaves_root:
  assumes "is_abs root" and "no_links f" and "rr_method rq = ''POST''" and "rr_url rq = ''/v1/registry/policies''"
    and "rr_body rq = Some sg" and "bundle_Verify (rv_crypto rv) sg [] = Inr b" and "bd_name b = dotdot"
    and "reg_Handler rv root secret rq f = (f', 201, answer)"
  shows "\<exists>m c. fs_get f' (butlast (csegs root) @ [leaf (bd_version b)]) = Some (NFile m c)"
proof -
  have "reg_Put rv root dotdot (bd_version b) sg f = (f', None)"
    using assms(3-8) by (auto simp: reg_Handler_def split: if_splits prod.splits option.splits)
  then obtain p m c where "reg_segs root dotdot (bd_version b) = Some p" "fs_get f' p = Some (NFile m c)"
    using reg_Put_cases [OF assms(1,2)] by metis
  then show ?thesis by (auto simp: reg_segs_Some [OF assms(1)] csegs_join_dotdot [OF assms(1)])
qed

subsection \<open>The client and the server\<close>

lemma hex_value_all: "\<forall>n \<in> set [0..<16]. hex_value (upper_hex n) = Some n"
  by code_simp

lemma hex_value_upper: "n < 16 \<Longrightarrow> hex_value (upper_hex n) = Some n"
  using hex_value_all by simp

lemma unescape_plain: "CHR ''%'' \<notin> set p \<Longrightarrow> url_unescape (p @ t) = map_option (\<lambda>s. p @ s) (url_unescape t)"
  by (induction p; cases "url_unescape t") auto

lemma unescape_escape: "url_unescape (path_escape s @ t) = map_option (\<lambda>u. s @ u) (url_unescape t)"
proof (induction s)
  case (Cons c s)
  have "(of_char c :: nat) < 256" by (rule nat_of_char_less_256)
  then have n: "of_char c div 16 < (16 :: nat)" "of_char c mod 16 < (16 :: nat)" by arith+
  have "\<not> url_plain CHR ''%''" by (simp add: url_plain_def)
  then show ?case
    using Cons n by (cases "url_unescape t") (auto simp: path_escape_def hex_value_upper)
qed (cases "url_unescape t"; simp add: path_escape_def)

lemma unescape_item: "url_unescape (item_url name version) = Some (url_prefix @ name @ [sep] @ version)"
proof -
  have "CHR ''%'' \<notin> set url_prefix" by (simp add: url_prefix_def)
  then show ?thesis
    using unescape_escape [of version "[]"] unescape_escape [of name "sep # path_escape version"]
    by (simp add: item_url_def unescape_plain)
qed

lemma attempts_loop_Inr:
  "attempts_loop call stopped i n = Inr b \<longleftrightarrow>
     (\<exists>k < n. call_error (call (i + k)) = Inr b \<and> (\<forall>j < k. isl (call_error (call (i + j))) \<and> \<not> stopped (i + j)))"
proof (induction n arbitrary: i)
  case (Suc n)
  show ?case
  proof (cases "call_error (call i)")
    case (Inl e)
    then show ?thesis
      using Suc.IH [of "Suc i"] by (auto simp: Ex_less_Suc2 All_less_Suc2)
  next
    case (Inr c)
    then have "\<not> isl (call_error (call i))" by simp
    then show ?thesis using Inr by (auto simp: Ex_less_Suc2 All_less_Suc2)
  qed
qed simp
definition admitted :: "string \<Rightarrow> client \<Rightarrow> bool" where
  "admitted secret c = (secret = [] \<or> cl_bearer c = secret)"

lemma split_on_two: "sep \<notin> set a \<Longrightarrow> sep \<notin> set b \<Longrightarrow> split_on sep (a @ sep # b) = [a, b]"
  by (simp add: split_on_append_sep split_on_id)

lemma serve_item_plain:
  assumes "sep \<notin> set name" and "sep \<notin> set file"
  shows "serve_item rv root False (name @ sep # file) f =
    (case reg_Get rv root name (trim_suffix ''.json'' file) f of
       Inr sg \<Rightarrow> (f, 200, REnvelope sg)
     | Inl RegPermission \<Rightarrow> (f, 410, RText ''policy revoked'')
     | Inl RegNotFound \<Rightarrow> (f, 404, RText ''404 page not found'')
     | Inl _ \<Rightarrow> (f, 500, RText ''registry read failed''))"
  using split_on_two [OF assms] by (simp add: serve_item_def Let_def)

lemma handler_item:
  assumes "bearer = [] \<or> rr_auth rq = ''Bearer '' @ bearer" and "rr_url rq = url_prefix @ rest"
    and "rr_method rq = ''GET'' \<or> rr_method rq = ''DELETE''"
  shows "reg_Handler rv root bearer rq f = serve_item rv root (rr_method rq = ''DELETE'') rest f"
proof -
  have "url_prefix @ rest \<noteq> ''/v1/registry/policies''"
    by (auto simp: url_prefix_def dest: arg_cong [of _ _ length])
  then show ?thesis using assms by (auto simp: reg_Handler_def)
qed

text \<open>What the client gets for the name and version of an item.\<close>

lemma deliver_get:
  assumes "sep \<notin> set name" and "sep \<notin> set version"
  shows "deliver rv root secret enc c f ''GET'' (item_url name version) [] i =
    (if \<not> admitted secret c then Answered 401 (enc (RText ''unauthorized''))
     else case serve_item rv root False (name @ sep # version) f of (_, status, b) \<Rightarrow> Answered status (enc b))"
proof (cases "admitted secret c")
  case True
  define rq where "rq = \<lparr>rr_method = ''GET'', rr_url = url_prefix @ name @ [sep] @ version,
    rr_auth = (if cl_bearer c = [] then [] else ''Bearer '' @ cl_bearer c), rr_body = rv_unmarshal rv []\<rparr>"
  have "deliver rv root secret enc c f ''GET'' (item_url name version) [] i =
      (case reg_Handler rv root secret rq f of (_, status, b) \<Rightarrow> Answered status (enc b))"
    by (simp add: deliver_def unescape_item rq_def)
  moreover have "reg_Handler rv root secret rq f = serve_item rv root False (name @ sep # version) f"
    using True by (subst handler_item [of _ _ "name @ [sep] @ version"]) (auto simp: rq_def admitted_def)
  ultimately show ?thesis using True by simp
next
  case False
  then show ?thesis by (auto simp: deliver_def unescape_item reg_Handler_def admitted_def)
qed

lemma fetch_status:
  assumes "sep \<notin> set name" and "sep \<notin> set version" and "\<not> suffix ''.json'' version"
  shows "deliver rv root secret enc c f ''GET'' (item_url name version) [] i =
    (if \<not> admitted secret c then Answered 401 (enc (RText ''unauthorized''))
     else case reg_Get rv root name version f of
       Inr sg \<Rightarrow> Answered 200 (enc (REnvelope sg))
     | Inl RegPermission \<Rightarrow> Answered 410 (enc (RText ''policy revoked''))
     | Inl RegNotFound \<Rightarrow> Answered 404 (enc (RText ''404 page not found''))
     | Inl _ \<Rightarrow> Answered 500 (enc (RText ''registry read failed'')))"
  using assms(3)
  by (simp add: deliver_get [OF assms(1,2)] serve_item_plain [OF assms(1,2)] trim_suffix_def
      split: sum.split reg_error.split)


lemma client_do_fails:
  assumes "\<And>i. isl (call_error (send verb url body i))"
  shows "isl (client_do parse send stopped c verb url body)"
proof (cases "client_do parse send stopped c verb url body")
  case (Inr b)
  then obtain n where "attempts_loop (send verb url body) stopped 0 n = Inr b"
    by (cases "endpoint_ok parse c") (auto simp: client_do_def)
  then obtain k where "call_error (send verb url body k) = Inr b" by (auto simp: attempts_loop_Inr)
  then show ?thesis using assms [of k] by simp
qed simp

text \<open>Once a policy is revoked, no client gets it any more, whatever is requested in between.\<close>

theorem revoked_policy_is_not_fetched:
  assumes "is_abs root" and "no_links f" and "reg_Revoke rv root name version f = (f', None)"
    and "sep \<notin> set name" and "sep \<notin> set version" and "\<not> suffix ''.json'' version"
  shows "isl (client_Fetch rv parse (deliver rv root secret enc c (served rv root secret rqs f')) stopped c name version)"
proof -
  have "reg_Get rv root name version (served rv root secret rqs f') = Inl RegPermission"
    using revoked_after_requests [OF assms(1-3)] by (simp add: reg_Get_def)
  then have "isl (call_error (deliver rv root secret enc c (served rv root secret rqs f') ''GET'' (item_url name version) [] i))" for i
    by (simp add: fetch_status [OF assms(4-6)] call_error_def)
  then have "isl (client_do parse (deliver rv root secret enc c (served rv root secret rqs f')) stopped c ''GET'' (item_url name version) [])"
    by (rule client_do_fails)
  then show ?thesis by (auto simp: client_Fetch_def isl_def)
qed

text \<open>
  A version that ends in \<open>.json\<close> loses the ending on its way through the handler: the request of
  the client to revoke it revokes the version without the ending.
\<close>

theorem revoking_json_version_hits_other:
  assumes "admitted secret c" and "sep \<notin> set name" and "sep \<notin> set w"
    and "url_unescape (item_url name (w @ ''.json'')) = Some (rr_url rq)" and "rr_method rq = ''DELETE''"
    and "rr_auth rq = (if cl_bearer c = [] then [] else ''Bearer '' @ cl_bearer c)"
  shows "fst (reg_Handler rv root secret rq f) = fst (reg_Revoke rv root name w f)"
proof -
  have u: "rr_url rq = url_prefix @ (name @ [sep] @ w @ ''.json'')" using assms(4) by (simp add: unescape_item)
  have "secret = [] \<or> rr_auth rq = ''Bearer '' @ secret" using assms(1,6) by (auto simp: admitted_def)
  from handler_item [OF this u] assms(5)
  have "reg_Handler rv root secret rq f = serve_item rv root True (name @ [sep] @ w @ ''.json'') f" by simp
  then show ?thesis using split_on_two [OF assms(2), of "w @ ''.json''"] assms(3) by (simp add: serve_item_fst)
qed

text \<open>The client sends its token in clear to any host whose name begins with \<open>localhost\<close>.\<close>

theorem plain_http_to_foreign_host:
  "endpoint_ok (\<lambda>_. Some (''http'', ''localhost.example.com'')) \<lparr>cl_endpoint = ''http://localhost.example.com'',
     cl_bearer = token, cl_attempts = 0, cl_trusted = []\<rparr> = Inr ()"
  by (simp add: endpoint_ok_def)
subsection \<open>A concrete registry\<close>

definition demo_reg :: reg_env where
  "demo_reg = \<lparr>rv_crypto = demo_crypto, rv_marshal = (\<lambda>_. ''E''),
     rv_unmarshal = (\<lambda>s. if prefix ''E'' s then Some demo_signed else None), rv_umask = 18, rv_io = True\<rparr>"

definition demo_files :: fs where
  "demo_files = [([''r'', ''safe'', ''1.0.0.json''], NFile 384 [CHR ''E'', CHR 0x0A]),
     ([''r'', ''safe''], NDir 448), ([''r''], NDir 448)]"

lemma demo_verified: "bundle_Verify demo_crypto demo_signed [] = Inr demo_bundle"
  using signed_bundle_untrusted [OF demo_signed demo_signs] by (simp add: demo_crypto_def)

lemma demo_segs:
  "reg_segs ''/r'' ''safe'' ''1.0.0'' = Some [''r'', ''safe'', ''1.0.0.json'']"
  "reg_segs ''/r/s'' ''..'' ''1.0.0'' = Some [''r'', ''1.0.0.json'']"
  by code_simp+

lemma demo_write:
  "fst (write_at demo_reg [] [''r'', ''safe'', ''1.0.0.json''] [CHR ''E'', CHR 0x0A]) = demo_files \<and>
   snd (write_at demo_reg [] [''r'', ''safe'', ''1.0.0.json''] [CHR ''E'', CHR 0x0A]) = None"
  by code_simp

lemma demo_put: "reg_Put demo_reg ''/r'' ''safe'' ''1.0.0'' demo_signed [] = (demo_files, None)"
  using demo_write demo_verified demo_segs
  by (simp add: reg_Put_def demo_reg_def prod_eq_iff)

lemma demo_codec:
  "rv_unmarshal demo_reg (rv_marshal demo_reg demo_signed @ [CHR 0x0A]) = Some demo_signed" "rv_io demo_reg"
  by (simp_all add: demo_reg_def)

lemma demo_clean0: "no_links []"
  by (simp add: no_links_def)

lemma demo_clean: "\<not> reg_revoked ''/r'' ''safe'' ''1.0.0'' []" "is_abs ''/r''" "is_abs ''/r/s''"
  by code_simp+

lemma demo_get: "reg_Get demo_reg ''/r'' ''safe'' ''1.0.0'' demo_files = Inr demo_signed \<and> no_links demo_files"
  using reg_Put_get [OF demo_clean(2) demo_clean0 demo_codec(2,1) demo_put demo_clean(1)] .

lemma demo_revoke: "\<exists>f'. reg_Revoke demo_reg ''/r'' ''safe'' ''1.0.0'' demo_files = (f', None)"
proof -
  have "snd (write_at demo_reg demo_files (marker [''r'', ''safe'', ''1.0.0.json'']) (''revoked'' @ [CHR 0x0A])) = None"
    by code_simp
  then show ?thesis using demo_get demo_segs by (cases "write_at demo_reg demo_files (marker [''r'', ''safe'', ''1.0.0.json'']) (''revoked'' @ [CHR 0x0A])") (simp add: reg_Revoke_def)
qed

theorem stored_envelope_reads_back_witness:
  "reg_Get demo_reg ''/r'' ''safe'' ''1.0.0'' demo_files = Inr demo_signed \<and>
    (\<exists>es. reg_List demo_reg ''/r'' demo_files = Inr es \<and> (''safe'', ''1.0.0'') \<in> set es)"
  using stored_envelope_reads_back [OF demo_clean(2) demo_clean0 demo_codec(2,1) demo_put demo_clean(1)] by simp

theorem revocation_is_permanent_witness:
  "\<exists>f'. reg_Get demo_reg ''/r'' ''safe'' ''1.0.0''
     (served demo_reg ''/r'' [] [\<lparr>rr_method = ''POST'', rr_url = ''/v1/registry/policies'', rr_auth = [], rr_body = Some demo_signed\<rparr>] f')
     = Inl RegPermission"
  using demo_revoke revocation_is_permanent [OF demo_clean(2) conjunct2 [OF demo_get]] by blast

theorem store_changes_stay_below_root_witness: "prefix (csegs ''/r'') [''r'', ''safe''] \<or> prefix [''r'', ''safe''] (csegs ''/r'')"
proof -
  have "demo_files = fst (reg_Put demo_reg ''/r'' ''safe'' ''1.0.0'' demo_signed [])" using demo_put by simp
  then have "demo_files = fst (reg_Put demo_reg ''/r'' ''safe'' ''1.0.0'' demo_signed []) \<or>
      demo_files = fst (reg_Revoke demo_reg ''/r'' ''safe'' ''1.0.0'' [])" by blast
  moreover have "fs_get demo_files [''r'', ''safe''] \<noteq> fs_get [] [''r'', ''safe'']" by code_simp
  ultimately show ?thesis
    using store_changes_stay_below_root [OF demo_clean(2) demo_clean0, of "''safe''" demo_files demo_reg "''1.0.0''" demo_signed] by simp
qed

definition dotdot_bundle :: Bundle where "dotdot_bundle = demo_bundle\<lparr>bd_name := dotdot\<rparr>"

definition dotdot_reg :: reg_env where
  "dotdot_reg = demo_reg\<lparr>rv_crypto := demo_crypto\<lparr>cy_unmarshal := \<lambda>_. Some dotdot_bundle\<rparr>\<rparr>"

lemma dotdot_verified: "bundle_Verify (rv_crypto dotdot_reg) demo_signed [] = Inr dotdot_bundle"
  using demo_verified unfolding bundle_Verify_Inr
  by (auto simp: dotdot_reg_def dotdot_bundle_def keyID_def demo_crypto_def demo_bundle_def)

definition dotdot_request :: reg_request where
  "dotdot_request = \<lparr>rr_method = ''POST'', rr_url = ''/v1/registry/policies'', rr_auth = [], rr_body = Some demo_signed\<rparr>"

theorem policy_named_dotdot_leaves_root_witness:
  "\<exists>f' m c. reg_Handler dotdot_reg ''/r/s'' [] dotdot_request [] = (f', 201, REmpty) \<and>
     fs_get f' [''r'', ''1.0.0.json''] = Some (NFile m c)"
proof -
  have "write_at dotdot_reg f p x = write_at demo_reg f p x" for f p x
    by (simp add: write_at_def dotdot_reg_def demo_reg_def cong: option.case_cong)
  moreover have "snd (write_at demo_reg [] [''r'', ''1.0.0.json''] [CHR ''E'', CHR 0x0A]) = None" by code_simp
  ultimately obtain f' where w: "write_at dotdot_reg [] [''r'', ''1.0.0.json''] [CHR ''E'', CHR 0x0A] = (f', None)"
    by (metis prod.collapse)
  have b: "bd_name dotdot_bundle = dotdot" "bd_version dotdot_bundle = ''1.0.0''"
    by (simp_all add: dotdot_bundle_def demo_bundle_def)
  have "rv_marshal dotdot_reg demo_signed = ''E''" by (simp add: dotdot_reg_def demo_reg_def)
  then have "reg_Put dotdot_reg ''/r/s'' dotdot ''1.0.0'' demo_signed [] = (f', None)"
    using w dotdot_verified demo_segs by (simp add: reg_Put_def)
  then have h: "reg_Handler dotdot_reg ''/r/s'' [] dotdot_request [] = (f', 201, REmpty)"
    using dotdot_verified b by (simp add: reg_Handler_def dotdot_request_def)
  have "csegs ''/r/s'' = [''r'', ''s'']" "leaf ''1.0.0'' = ''1.0.0.json''" by code_simp+
  then show ?thesis
    using policy_named_dotdot_leaves_root [OF demo_clean(3) demo_clean0 _ _ _ dotdot_verified b(1) h] h b
    by (simp add: dotdot_request_def)
qed

definition demo_client :: client where
  "demo_client = \<lparr>cl_endpoint = ''https://registry.example.com'', cl_bearer = ''t'', cl_attempts = 0, cl_trusted = []\<rparr>"


theorem revoked_policy_is_not_fetched_witness:
  "\<exists>f'. isl (client_Fetch demo_reg (\<lambda>_. Some (''https'', ''registry.example.com''))
     (deliver demo_reg ''/r'' ''t'' (\<lambda>_. ''E'') demo_client (served demo_reg ''/r'' ''t'' [dotdot_request] f'))
     (\<lambda>_. False) demo_client ''safe'' ''1.0.0'')"
proof -
  have "\<not> suffix ''.json'' ''1.0.0''" by code_simp
  then show ?thesis
    using demo_revoke revoked_policy_is_not_fetched [OF demo_clean(2) conjunct2 [OF demo_get], of demo_reg "''safe''" "''1.0.0''"] by fastforce
qed

theorem revoking_json_version_hits_other_witness:
  "fst (reg_Handler demo_reg ''/r'' [] \<lparr>rr_method = ''DELETE'', rr_url = url_prefix @ ''safe/1.0.0.json'', rr_auth = [], rr_body = None\<rparr> demo_files)
     = fst (reg_Revoke demo_reg ''/r'' ''safe'' ''1.0.0'' demo_files)"
  by (rule revoking_json_version_hits_other [of "[]" "demo_client\<lparr>cl_bearer := []\<rparr>"])
    (simp_all add: admitted_def unescape_item)

end
