(* ===== verification/Seccomp.thy ===== *)
theory Seccomp
  imports Go_Base "HOL-Library.Word"
begin

unbundle bit_operations_syntax

text \<open>
  The two system call filters of \<open>seccomp/rawsocket_linux.go\<close>: the programs that are handed to the
  kernel, instruction by instruction, and what they decide.  The machine that runs them is the
  kernel's; it is an argument, with the documented meaning of the five instructions used here as the
  hypothesis \<open>bpf_laws\<close>.  The numbers of the system calls depend on the architecture and are
  arguments, too.
\<close>

subsection \<open>Constants of the kernel's interface\<close>

definition BPF_LD :: "16 word" where "BPF_LD = 0x00"
definition BPF_W :: "16 word" where "BPF_W = 0x00"
definition BPF_ABS :: "16 word" where "BPF_ABS = 0x20"
definition BPF_ALU :: "16 word" where "BPF_ALU = 0x04"
definition BPF_AND :: "16 word" where "BPF_AND = 0x50"
definition BPF_JMP :: "16 word" where "BPF_JMP = 0x05"
definition BPF_JA :: "16 word" where "BPF_JA = 0x00"
definition BPF_JEQ :: "16 word" where "BPF_JEQ = 0x10"
definition BPF_K :: "16 word" where "BPF_K = 0x00"
definition BPF_RET :: "16 word" where "BPF_RET = 0x06"

lemmas bpf_codes = BPF_LD_def BPF_W_def BPF_ABS_def BPF_ALU_def BPF_AND_def BPF_JMP_def BPF_JA_def BPF_JEQ_def BPF_K_def BPF_RET_def

definition AF_INET :: "32 word" where "AF_INET = 2"
definition AF_INET6 :: "32 word" where "AF_INET6 = 10"
definition AF_PACKET :: "32 word" where "AF_PACKET = 17"
definition SOCK_RAW :: "32 word" where "SOCK_RAW = 3"
definition EPERM :: "32 word" where "EPERM = 1"
definition seccompRetAllow :: "32 word" where "seccompRetAllow = 0x7fff0000"
definition seccompRetErrno :: "32 word" where "seccompRetErrno = 0x00050000"
definition seccompDataNR :: "32 word" where "seccompDataNR = 0"
definition seccompDataArgs :: "32 word" where "seccompDataArgs = 16"
definition sockTypeMask :: "32 word" where "sockTypeMask = 0xf"

lemmas sock_codes = AF_INET_def AF_INET6_def AF_PACKET_def SOCK_RAW_def EPERM_def seccompRetAllow_def seccompRetErrno_def
  seccompDataNR_def seccompDataArgs_def sockTypeMask_def

subsection \<open>Filters\<close>

record SockFilter =
  sf_code :: "16 word"
  sf_jt :: "8 word"
  sf_jf :: "8 word"
  sf_k :: "32 word"

definition stmt :: "16 word \<Rightarrow> 32 word \<Rightarrow> SockFilter" where
  "stmt c k = \<lparr>sf_code = c, sf_jt = 0, sf_jf = 0, sf_k = k\<rparr>"

definition jump :: "16 word \<Rightarrow> 8 word \<Rightarrow> 8 word \<Rightarrow> 32 word \<Rightarrow> SockFilter" where
  "jump c t f k = \<lparr>sf_code = c, sf_jt = t, sf_jf = f, sf_k = k\<rparr>"

datatype seccomp_error = FilterEmpty | NoNewPrivileges | FilterRejected

text \<open>The result is the program that is active from then on.\<close>

definition installFilter :: "bool \<Rightarrow> bool \<Rightarrow> SockFilter list \<Rightarrow> seccomp_error + SockFilter list" where
  "installFilter no_new_privs accepted filters =
     (if filters = [] then Inl FilterEmpty
      else if \<not> no_new_privs then Inl NoNewPrivileges
      else if \<not> accepted then Inl FilterRejected
      else Inr filters)"

definition raw_socket_filters :: "32 word \<Rightarrow> SockFilter list" where
  "raw_socket_filters SYS_SOCKET =
     [stmt (BPF_LD OR BPF_W OR BPF_ABS) seccompDataNR,
      jump (BPF_JMP OR BPF_JEQ OR BPF_K) 0 7 SYS_SOCKET,
      stmt (BPF_LD OR BPF_W OR BPF_ABS) seccompDataArgs,
      jump (BPF_JMP OR BPF_JEQ OR BPF_K) 6 0 AF_PACKET,
      jump (BPF_JMP OR BPF_JEQ OR BPF_K) 5 0 AF_INET6,
      jump (BPF_JMP OR BPF_JEQ OR BPF_K) 0 3 AF_INET,
      stmt (BPF_LD OR BPF_W OR BPF_ABS) (seccompDataArgs + 4),
      stmt (BPF_ALU OR BPF_AND OR BPF_K) sockTypeMask,
      jump (BPF_JMP OR BPF_JEQ OR BPF_K) 1 0 SOCK_RAW,
      stmt (BPF_RET OR BPF_K) seccompRetAllow,
      stmt (BPF_RET OR BPF_K) (seccompRetErrno OR EPERM)]"

definition deny_network_filters :: "32 word \<Rightarrow> 32 word \<Rightarrow> SockFilter list" where
  "deny_network_filters SYS_SOCKET SYS_CONNECT =
     [stmt (BPF_LD OR BPF_W OR BPF_ABS) seccompDataNR,
      jump (BPF_JMP OR BPF_JEQ OR BPF_K) 0 6 SYS_SOCKET,
      stmt (BPF_LD OR BPF_W OR BPF_ABS) seccompDataArgs,
      jump (BPF_JMP OR BPF_JEQ OR BPF_K) 3 0 AF_PACKET,
      jump (BPF_JMP OR BPF_JEQ OR BPF_K) 2 0 AF_INET,
      jump (BPF_JMP OR BPF_JEQ OR BPF_K) 1 0 AF_INET6,
      stmt (BPF_JMP OR BPF_JA) 1,
      stmt (BPF_RET OR BPF_K) (seccompRetErrno OR EPERM),
      stmt (BPF_LD OR BPF_W OR BPF_ABS) seccompDataNR,
      jump (BPF_JMP OR BPF_JEQ OR BPF_K) 0 1 SYS_CONNECT,
      stmt (BPF_RET OR BPF_K) (seccompRetErrno OR EPERM),
      stmt (BPF_RET OR BPF_K) seccompRetAllow]"

definition InstallDenyRawSockets :: "bool \<Rightarrow> bool \<Rightarrow> 32 word \<Rightarrow> seccomp_error + SockFilter list" where
  "InstallDenyRawSockets no_new_privs accepted SYS_SOCKET =
     installFilter no_new_privs accepted (raw_socket_filters SYS_SOCKET)"

definition InstallDenyNetwork :: "bool \<Rightarrow> bool \<Rightarrow> 32 word \<Rightarrow> 32 word \<Rightarrow> seccomp_error + SockFilter list" where
  "InstallDenyNetwork no_new_privs accepted SYS_SOCKET SYS_CONNECT =
     installFilter no_new_privs accepted (deny_network_filters SYS_SOCKET SYS_CONNECT)"

subsection \<open>The machine\<close>

text \<open>
  What a filter sees of a system call (\<open>struct seccomp_data\<close>, little endian): its number, the
  architecture, the instruction pointer and six arguments of 64 bits, at the offsets 0, 4, 8 and 16.
\<close>

record seccomp_data =
  sd_nr :: "32 word"
  sd_arch :: "32 word"
  sd_ip :: "64 word"
  sd_args :: "64 word list"

definition low_half :: "64 word \<Rightarrow> 32 word" where "low_half v = ucast v"
definition high_half :: "64 word \<Rightarrow> 32 word" where "high_half v = ucast (drop_bit 32 v)"

definition word_at :: "seccomp_data \<Rightarrow> nat \<Rightarrow> 32 word" where
  "word_at d off =
     (if off = 0 then sd_nr d else if off = 4 then sd_arch d
      else if off = 8 then low_half (sd_ip d) else if off = 12 then high_half (sd_ip d)
      else (let a = sd_args d ! ((off - 16) div 8) in if off mod 8 = 0 then low_half a else high_half a))"

type_synonym machine = "SockFilter list \<Rightarrow> seccomp_data \<Rightarrow> nat \<Rightarrow> 32 word \<Rightarrow> 32 word"

text \<open>One instruction at \<open>pc\<close> with the accumulator \<open>a\<close>; \<open>run\<close> goes on from there.\<close>

definition bpf_step :: "machine \<Rightarrow> SockFilter list \<Rightarrow> seccomp_data \<Rightarrow> nat \<Rightarrow> 32 word \<Rightarrow> 32 word" where
  "bpf_step run P d pc a =
     (let i = P ! pc in
      if sf_code i = 0x06 then sf_k i
      else if sf_code i = 0x20 then run P d (pc + 1) (word_at d (unat (sf_k i)))
      else if sf_code i = 0x54 then run P d (pc + 1) (a AND sf_k i)
      else if sf_code i = 0x05 then run P d (pc + 1 + unat (sf_k i)) a
      else if a = sf_k i then run P d (pc + 1 + unat (sf_jt i)) a
      else run P d (pc + 1 + unat (sf_jf i)) a)"

definition known_code :: "SockFilter \<Rightarrow> bool" where
  "known_code i = (sf_code i \<in> {0x06, 0x20, 0x54, 0x05, 0x15})"

definition bpf_laws :: "machine \<Rightarrow> bool" where
  "bpf_laws run = (\<forall>P d pc a. pc < length P \<longrightarrow> known_code (P ! pc) \<longrightarrow> run P d pc a = bpf_step run P d pc a)"

text \<open>A machine that has the laws, to evaluate programs.\<close>

function bpf_exec :: machine where
  "bpf_exec P d pc a =
     (if pc < length P
      then (let i = P ! pc in
        if sf_code i = 0x06 then sf_k i
        else if sf_code i = 0x20 then bpf_exec P d (pc + 1) (word_at d (unat (sf_k i)))
        else if sf_code i = 0x54 then bpf_exec P d (pc + 1) (a AND sf_k i)
        else if sf_code i = 0x05 then bpf_exec P d (pc + 1 + unat (sf_k i)) a
        else if a = sf_k i then bpf_exec P d (pc + 1 + unat (sf_jt i)) a
        else bpf_exec P d (pc + 1 + unat (sf_jf i)) a)
      else 0)"
  by pat_completeness auto
termination by (relation "measure (\<lambda>(P, d, pc, a). length P - pc)") auto

lemma bpf_exec_laws: "bpf_laws bpf_exec"
  by (auto simp: bpf_laws_def bpf_step_def Let_def bpf_exec.simps [of _ _ "_ :: nat"])
declare bpf_exec.simps [simp del]

subsection \<open>What the filters decide\<close>

definition denied :: "32 word" where "denied = seccompRetErrno OR EPERM"

definition domain_of :: "seccomp_data \<Rightarrow> 32 word" where "domain_of d = low_half (sd_args d ! 0)"

definition type_of_socket :: "seccomp_data \<Rightarrow> 32 word" where "type_of_socket d = low_half (sd_args d ! 1)"

lemma run_step:
  assumes "bpf_laws run" and "pc < length P"
  shows "P ! pc = stmt 0x20 k \<Longrightarrow> run P d pc a = run P d (pc + 1) (word_at d (unat k))"
    "P ! pc = stmt 0x54 k \<Longrightarrow> run P d pc a = run P d (pc + 1) (a AND k)"
    "P ! pc = stmt 0x05 k \<Longrightarrow> run P d pc a = run P d (pc + 1 + unat k) a"
    "P ! pc = stmt 0x06 k \<Longrightarrow> run P d pc a = k"
    "P ! pc = jump 0x15 t f k \<Longrightarrow> run P d pc a = (if a = k then run P d (pc + 1 + unat t) a else run P d (pc + 1 + unat f) a)"
  using assms by (simp_all add: bpf_laws_def known_code_def stmt_def jump_def bpf_step_def)

lemma deny_network_runs:
  assumes "bpf_laws run" and P: "P = deny_network_filters s c"
  shows "run P d 0 a = run P d 1 (sd_nr d)" "run P d 1 a = (if a = s then run P d 2 a else run P d 8 a)"
    "run P d 2 a = run P d 3 (domain_of d)" "run P d 3 a = (if a = AF_PACKET then run P d 7 a else run P d 4 a)"
    "run P d 4 a = (if a = AF_INET then run P d 7 a else run P d 5 a)"
    "run P d 5 a = (if a = AF_INET6 then run P d 7 a else run P d 6 a)" "run P d 6 a = run P d 8 a" "run P d 7 a = denied"
    "run P d 8 a = run P d 9 (sd_nr d)" "run P d 9 a = (if a = c then run P d 10 a else run P d 11 a)" "run P d 10 a = denied"
    "run P d 11 a = seccompRetAllow"
proof -
  note s = run_step [OF assms(1), of _ P] and D = P deny_network_filters_def bpf_codes sock_codes domain_of_def denied_def
  show "run P d 0 a = run P d 1 (sd_nr d)" by (subst s(1) [of _ 0]) (simp_all add: D word_at_def)
  show "run P d 1 a = (if a = s then run P d 2 a else run P d 8 a)" by (subst s(5) [of _ 0 6 s]) (simp_all add: D flip: numeral_2_eq_2)
  show "run P d 2 a = run P d 3 (domain_of d)" by (subst s(1) [of _ 16]) (simp_all add: D word_at_def)
  show "run P d 3 a = (if a = AF_PACKET then run P d 7 a else run P d 4 a)" by (subst s(5) [of _ 3 0 17]) (simp_all add: D flip: numeral_2_eq_2)
  show "run P d 4 a = (if a = AF_INET then run P d 7 a else run P d 5 a)" by (subst s(5) [of _ 2 0 2]) (simp_all add: D flip: numeral_2_eq_2)
  show "run P d 5 a = (if a = AF_INET6 then run P d 7 a else run P d 6 a)" by (subst s(5) [of _ 1 0 10]) (simp_all add: D flip: numeral_2_eq_2)
  show "run P d 6 a = run P d 8 a" by (subst s(3) [of _ 1]) (simp_all add: D flip: numeral_2_eq_2)
  show "run P d 7 a = denied" using s(4) [where pc = 7 and k = "0x50001" and d = d and a = a] by (simp add: D)
  show "run P d 8 a = run P d 9 (sd_nr d)" by (subst s(1) [of _ 0]) (simp_all add: D word_at_def)
  show "run P d 9 a = (if a = c then run P d 10 a else run P d 11 a)" by (subst s(5) [of _ 0 1 c]) (simp_all add: D flip: numeral_2_eq_2)
  show "run P d 10 a = denied" using s(4) [where pc = 10 and k = "0x50001" and d = d and a = a] by (simp add: D)
  show "run P d 11 a = seccompRetAllow" using s(4) [where pc = 11 and k = "0x7fff0000" and d = d and a = a] by (simp add: D)
qed

lemma raw_socket_runs:
  assumes "bpf_laws run" and P: "P = raw_socket_filters s"
  shows "run P d 0 a = run P d 1 (sd_nr d)" "run P d 1 a = (if a = s then run P d 2 a else run P d 9 a)"
    "run P d 2 a = run P d 3 (domain_of d)" "run P d 3 a = (if a = AF_PACKET then run P d 10 a else run P d 4 a)"
    "run P d 4 a = (if a = AF_INET6 then run P d 10 a else run P d 5 a)"
    "run P d 5 a = (if a = AF_INET then run P d 6 a else run P d 9 a)" "run P d 6 a = run P d 7 (high_half (sd_args d ! 0))"
    "run P d 7 a = run P d 8 (a AND sockTypeMask)" "run P d 8 a = (if a = SOCK_RAW then run P d 10 a else run P d 9 a)"
    "run P d 9 a = seccompRetAllow" "run P d 10 a = denied"
proof -
  note s = run_step [OF assms(1), of _ P] and D = P raw_socket_filters_def bpf_codes sock_codes domain_of_def denied_def
  show "run P d 0 a = run P d 1 (sd_nr d)" by (subst s(1) [of _ 0]) (simp_all add: D word_at_def)
  show "run P d 1 a = (if a = s then run P d 2 a else run P d 9 a)" by (subst s(5) [of _ 0 7 s]) (simp_all add: D flip: numeral_2_eq_2)
  show "run P d 2 a = run P d 3 (domain_of d)" by (subst s(1) [of _ 16]) (simp_all add: D word_at_def)
  show "run P d 3 a = (if a = AF_PACKET then run P d 10 a else run P d 4 a)" by (subst s(5) [of _ 6 0 17]) (simp_all add: D flip: numeral_2_eq_2)
  show "run P d 4 a = (if a = AF_INET6 then run P d 10 a else run P d 5 a)" by (subst s(5) [of _ 5 0 10]) (simp_all add: D flip: numeral_2_eq_2)
  show "run P d 5 a = (if a = AF_INET then run P d 6 a else run P d 9 a)" by (subst s(5) [of _ 0 3 2]) (simp_all add: D flip: numeral_2_eq_2)
  show "run P d 6 a = run P d 7 (high_half (sd_args d ! 0))" by (subst s(1) [of _ 20]) (simp_all add: D word_at_def)
  show "run P d 7 a = run P d 8 (a AND sockTypeMask)" by (subst s(2) [of _ 15]) (simp_all add: D flip: numeral_2_eq_2)
  show "run P d 8 a = (if a = SOCK_RAW then run P d 10 a else run P d 9 a)" by (subst s(5) [of _ 1 0 3]) (simp_all add: D flip: numeral_2_eq_2)
  show "run P d 9 a = seccompRetAllow" using s(4) [where pc = 9 and k = "0x7fff0000" and d = d and a = a] by (simp add: D)
  show "run P d 10 a = denied" using s(4) [where pc = 10 and k = "0x50001" and d = d and a = a] by (simp add: D)
qed

text \<open>
  C40. The network filter refuses exactly the creation of packet and Internet sockets, and every connect.
\<close>

theorem deny_network_decides:
  assumes "bpf_laws run" and "InstallDenyNetwork True True SYS_SOCKET SYS_CONNECT = Inr P"
  shows "run P d 0 0 =
    (if sd_nr d = SYS_CONNECT \<or> sd_nr d = SYS_SOCKET \<and> domain_of d \<in> {AF_PACKET, AF_INET, AF_INET6}
     then denied else seccompRetAllow)"
proof -
  have P: "P = deny_network_filters SYS_SOCKET SYS_CONNECT"
    using assms(2) by (simp add: InstallDenyNetwork_def installFilter_def deny_network_filters_def)
  show ?thesis by (simp add: deny_network_runs [OF assms(1) P] del: One_nat_def)
qed

lemma deny_raw_runs:
  assumes "bpf_laws run" and "InstallDenyRawSockets True True SYS_SOCKET = Inr P"
  shows "run P d 0 0 =
    (if sd_nr d = SYS_SOCKET \<and> (domain_of d \<in> {AF_PACKET, AF_INET6} \<or>
          domain_of d = AF_INET \<and> high_half (sd_args d ! 0) AND sockTypeMask = SOCK_RAW)
     then denied else seccompRetAllow)"
proof -
  have P: "P = raw_socket_filters SYS_SOCKET"
    using assms(2) by (simp add: InstallDenyRawSockets_def installFilter_def raw_socket_filters_def)
  show ?thesis by (simp add: raw_socket_runs [OF assms(1) P] del: One_nat_def)
qed

text \<open>
  The filter against raw sockets refuses packet sockets, but it looks for the type of an IPv4 socket in
  the upper half of the domain instead of the second argument: raw IPv4 sockets, which it is named
  after, are allowed; and IPv6 streams, which are meant to remain available, are refused.
\<close>

theorem raw_ipv4_passes_ipv6_fails:
  assumes "bpf_laws run" and "InstallDenyRawSockets True True SYS_SOCKET = Inr P" and "sd_nr d = SYS_SOCKET"
  shows "(sd_args d ! 0 = 17 \<longrightarrow> run P d 0 0 = denied) \<and> (sd_args d ! 0 = 2 \<longrightarrow> run P d 0 0 = seccompRetAllow) \<and>
    (sd_args d ! 0 = 10 \<longrightarrow> run P d 0 0 = denied)"
proof -
  have h: "high_half 2 = 0" "low_half 2 = 2" "low_half 10 = 10" "low_half 17 = 17" by (simp_all add: high_half_def low_half_def)
  show ?thesis
    using assms(3) unfolding deny_raw_runs [OF assms(1,2)] domain_of_def by (auto simp: h sock_codes)
qed

subsection \<open>Examples\<close>

text \<open>On x86-64 \<open>socket\<close> is 41 and \<open>connect\<close> 42; the call asks for a socket of the domain and type.\<close>

definition socket_call :: "64 word \<Rightarrow> 64 word \<Rightarrow> seccomp_data" where
  "socket_call domain type = \<lparr>sd_nr = 41, sd_arch = 0xC000003E, sd_ip = 0, sd_args = [domain, type, 0, 0, 0, 0]\<rparr>"

theorem deny_network_decides_witness:
  "bpf_exec (deny_network_filters 41 42) (socket_call 2 1) 0 0 = denied \<and>
   bpf_exec (deny_network_filters 41 42) (socket_call 1 1) 0 0 = seccompRetAllow"
proof -
  have i: "InstallDenyNetwork True True 41 42 = Inr (deny_network_filters 41 42)"
    by (simp add: InstallDenyNetwork_def installFilter_def deny_network_filters_def)
  show ?thesis
    by (simp add: deny_network_decides [OF bpf_exec_laws i] socket_call_def domain_of_def low_half_def sock_codes)
qed

theorem raw_ipv4_passes_ipv6_fails_witness:
  "type_of_socket (socket_call 2 3) = SOCK_RAW \<and> bpf_exec (raw_socket_filters 41) (socket_call 2 3) 0 0 = seccompRetAllow \<and>
   bpf_exec (raw_socket_filters 41) (socket_call 10 1) 0 0 = denied"
proof -
  have i: "InstallDenyRawSockets True True 41 = Inr (raw_socket_filters 41)"
    by (simp add: InstallDenyRawSockets_def installFilter_def raw_socket_filters_def)
  have n: "sd_nr (socket_call a b) = 41" "sd_args (socket_call a b) ! 0 = a" for a b by (simp_all add: socket_call_def)
  show ?thesis
    using raw_ipv4_passes_ipv6_fails [OF bpf_exec_laws i n(1)]
    by (simp add: n(2)) (simp add: type_of_socket_def socket_call_def low_half_def SOCK_RAW_def)
qed

end
