(* ===== verification/Bundle.thy ===== *)
theory Bundle
  imports Sensor_Adapter Run_Detail
begin

text \<open>
  Evidence archives (\<open>bundle/bundle.go\<close>): \<open>Create\<close> packs the record and the event logs of a run with an
  index and a list of digests, \<open>Verify\<close> checks such an archive without unpacking it.  An archive is the
  list of entries its tar stream holds; gzip, tar, JSON and SHA-256 are arguments.
\<close>

record Artifact =
  at_name :: string
  at_bytes :: int
  at_sha :: string

record Metadata =
  md_version :: int
  md_run :: string
  md_state :: string
  md_created :: int
  md_events :: EventEvidence
  md_artifacts :: "Artifact list"

record codec =
  bc_sha :: "string \<Rightarrow> string"
  bc_encode :: "Metadata \<Rightarrow> string"
  bc_decode :: "string \<Rightarrow> Metadata option"
  bc_record :: "string \<Rightarrow> RunRecord option"

record tar_entry =
  te_name :: string
  te_regular :: bool
  te_data :: string

text \<open>\<open>ATar es ok\<close>: the entries that can be read; without \<open>ok\<close> the stream breaks off with an error after them.\<close>

datatype archive = AMissing | ANotGzip | ATar "tar_entry list" bool

datatype bundle_error =
    NoRunId | RecordOutside | EventOutside path | StatArtifact string | BundleMkdir | BundleTemp | BundleWrite | BundleRename
  | BundleOpen | BundleGzip | BundleTar | UnsafePath string | NotRegular string | DuplicateEntry string | NoIndex
  | BadMetadata | BadIndex | BadRecord | RunMismatch string string | BadSumLine string | UnsafeSum string | BadSumDigest string
  | DuplicateSum string | ArtifactCount nat nat | SumCount nat nat | UnsafeArtifact string | DuplicateArtifact string
  | MissingArtifact string | ArtifactMismatch string | SumMismatch string | NoRecordArtifact

subsection \<open>Writing an archive\<close>

record pack_env =
  pe_cwd :: path
  pe_files :: "path \<Rightarrow> string option"
  pe_mkdir :: bool
  pe_temp :: bool
  pe_write :: bool
  pe_rename :: bool

definition bundle_within :: "path \<Rightarrow> path \<Rightarrow> bool" where
  "bundle_within root p = (case rel_path (clean root) (clean p) of None \<Rightarrow> False | Some r \<Rightarrow> \<not> escapes r)"

text \<open>The sources: the name in the archive and the file.\<close>

fun event_sources :: "path \<Rightarrow> path \<Rightarrow> nat \<Rightarrow> path list \<Rightarrow> bundle_error + (string \<times> path) list" where
  "event_sources cwd root k [] = Inr []"
| "event_sources cwd root k (p # ps) =
     (if p = [] then event_sources cwd root (k + 1) ps
      else if \<not> bundle_within root (abs_path cwd p) then Inl (EventOutside p)
      else and_then (event_sources cwd root (k + 1) ps) (\<lambda>ss. Inr ((''events/'' @ pad6 k @ ''.jsonl'', abs_path cwd p) # ss)))"

definition describe :: "codec \<Rightarrow> (path \<Rightarrow> string option) \<Rightarrow> string \<times> path \<Rightarrow> bundle_error + Artifact" where
  "describe bc files item =
     (case files (snd item) of
        None \<Rightarrow> Inl (StatArtifact (fst item))
      | Some c \<Rightarrow> Inr \<lparr>at_name = fst item, at_bytes = int (length c), at_sha = hex_encode (bc_sha bc c)\<rparr>)"

fun describe_all :: "codec \<Rightarrow> (path \<Rightarrow> string option) \<Rightarrow> (string \<times> path) list \<Rightarrow> bundle_error + Artifact list" where
  "describe_all bc files [] = Inr []"
| "describe_all bc files (i # is) =
     and_then (describe bc files i) (\<lambda>a. and_then (describe_all bc files is) (\<lambda>as. Inr (a # as)))"

definition checksums_text :: "Artifact list \<Rightarrow> string" where
  "checksums_text as = concat (map (\<lambda>a. at_sha a @ ''  '' @ at_name a @ [CHR 0x0A]) as)"

definition addBytes :: "string \<Rightarrow> string \<Rightarrow> tar_entry" where
  "addBytes name d = \<lparr>te_name = name, te_regular = True, te_data = d\<rparr>"

definition addFile :: "(path \<Rightarrow> string option) \<Rightarrow> string \<times> path \<Rightarrow> tar_entry" where
  "addFile files item = addBytes (fst item) (case files (snd item) of None \<Rightarrow> [] | Some c \<Rightarrow> c)"

definition writeArchive :: "codec \<Rightarrow> pack_env \<Rightarrow> Metadata \<Rightarrow> (string \<times> path) list \<Rightarrow> archive \<Rightarrow> archive \<times> bundle_error option" where
  "writeArchive bc pe md ss old =
     (if \<not> pe_mkdir pe then (old, Some BundleMkdir)
      else if \<not> pe_temp pe then (old, Some BundleTemp)
      else if \<not> pe_write pe then (old, Some BundleWrite)
      else if \<not> pe_rename pe then (old, Some BundleRename)
      else (ATar (map (addFile (pe_files pe)) ss @
              [addBytes ''bundle.json'' (bc_encode bc md @ [CHR 0x0A]), addBytes ''SHA256SUMS'' (checksums_text (md_artifacts md))]) True,
            None))"

definition Create ::
  "codec \<Rightarrow> pack_env \<Rightarrow> path \<Rightarrow> path \<Rightarrow> RunRecord \<Rightarrow> archive \<Rightarrow> archive \<times> (bundle_error + Metadata)" where
  "Create bc pe recordPath runtimeRoot r old =
     (let root = abs_path (pe_cwd pe) runtimeRoot; rp = abs_path (pe_cwd pe) recordPath in
      if run_id (rp_run (rr_plan r)) = [] then (old, Inl NoRunId)
      else if \<not> bundle_within root rp then (old, Inl RecordOutside)
      else (case event_sources (pe_cwd pe) root 0 (EventLogPaths r) of
        Inl e \<Rightarrow> (old, Inl e)
      | Inr es \<Rightarrow>
          (let ss = (''record.json'', rp) # es in
           case describe_all bc (pe_files pe) ss of
             Inl e \<Rightarrow> (old, Inl e)
           | Inr as \<Rightarrow>
               (let md = \<lparr>md_version = 1, md_run = run_id (rp_run (rr_plan r)), md_state = state_text (run_state (rp_run (rr_plan r))),
                          md_created = created_at (rp_run (rr_plan r)), md_events = rr_events r, md_artifacts = as\<rparr> in
                case writeArchive bc pe md ss old of
                  (a, Some e) \<Rightarrow> (a, Inl e)
                | (a, None) \<Rightarrow> (a, Inr md)))))"

subsection \<open>Verifying an archive\<close>

definition safeArchiveName :: "string \<Rightarrow> bool" where
  "safeArchiveName name =
     (let c = clean name in
      c = name \<and> c \<noteq> ''.'' \<and> \<not> is_abs c \<and> \<not> prefix ''../'' c \<and> \<not> sublist ''/../'' c)"

fun parse_lines :: "(string \<times> string) list \<Rightarrow> string list \<Rightarrow> bundle_error + (string \<times> string) list" where
  "parse_lines acc [] = Inr acc"
| "parse_lines acc (l # ls) =
     (case str_fields l of
        [d, name] \<Rightarrow>
          (if length d \<noteq> 64 then Inl (BadSumLine l)
           else if \<not> safeArchiveName name then Inl (UnsafeSum name)
           else if \<not> is_hex d then Inl (BadSumDigest name)
           else if map_of acc name \<noteq> None then Inl (DuplicateSum name)
           else parse_lines ((name, d) # acc) ls)
      | _ \<Rightarrow> Inl (BadSumLine l))"

definition parseChecksums :: "string \<Rightarrow> bundle_error + (string \<times> string) list" where
  "parseChecksums v = parse_lines [] (split_on CHR 0x0A (trim_space v))"

record observed =
  ob_files :: "(string \<times> int \<times> string) list"
  ob_index :: string
  ob_sums :: string
  ob_record :: string

definition observe :: "codec \<Rightarrow> tar_entry \<Rightarrow> observed \<Rightarrow> bundle_error + observed" where
  "observe bc t ob =
     (if \<not> safeArchiveName (te_name t) then Inl (UnsafePath (te_name t))
      else if \<not> te_regular t then Inl (NotRegular (te_name t))
      else if map_of (ob_files ob) (te_name t) \<noteq> None then Inl (DuplicateEntry (te_name t))
      else if te_name t = ''bundle.json'' then Inr (ob\<lparr>ob_index := te_data t\<rparr>)
      else if te_name t = ''SHA256SUMS'' then Inr (ob\<lparr>ob_sums := te_data t\<rparr>)
      else Inr (ob\<lparr>ob_record := (if te_name t = ''record.json'' then te_data t else ob_record ob),
                   ob_files := (te_name t, int (length (te_data t)), hex_encode (bc_sha bc (te_data t))) # ob_files ob\<rparr>))"

fun observe_all :: "codec \<Rightarrow> tar_entry list \<Rightarrow> observed \<Rightarrow> bundle_error + observed" where
  "observe_all bc [] ob = Inr ob"
| "observe_all bc (t # ts) ob = and_then (observe bc t ob) (observe_all bc ts)"

fun check_artifacts :: "observed \<Rightarrow> (string \<times> string) list \<Rightarrow> string list \<Rightarrow> Artifact list \<Rightarrow> bundle_error + string list" where
  "check_artifacts ob sums seen [] = Inr seen"
| "check_artifacts ob sums seen (a # as) =
     (if \<not> safeArchiveName (at_name a) then Inl (UnsafeArtifact (at_name a))
      else if at_name a \<in> set seen then Inl (DuplicateArtifact (at_name a))
      else (case map_of (ob_files ob) (at_name a) of
        None \<Rightarrow> Inl (MissingArtifact (at_name a))
      | Some (n, h) \<Rightarrow>
          (if n \<noteq> at_bytes a \<or> h \<noteq> at_sha a then Inl (ArtifactMismatch (at_name a))
           else if (case map_of sums (at_name a) of None \<Rightarrow> [] | Some d \<Rightarrow> d) \<noteq> at_sha a then Inl (SumMismatch (at_name a))
           else check_artifacts ob sums (at_name a # seen) as)))"

definition nothing_observed :: observed where
  "nothing_observed = \<lparr>ob_files = [], ob_index = [], ob_sums = [], ob_record = []\<rparr>"

definition bundle_verify :: "codec \<Rightarrow> archive \<Rightarrow> bundle_error + Metadata" where
  "bundle_verify bc a =
     (case a of
        AMissing \<Rightarrow> Inl BundleOpen
      | ANotGzip \<Rightarrow> Inl BundleGzip
      | ATar ts ok \<Rightarrow>
          and_then (observe_all bc ts nothing_observed) (\<lambda>ob.
          if \<not> ok then Inl BundleTar
          else if ob_index ob = [] \<or> ob_sums ob = [] then Inl NoIndex
          else (case bc_decode bc (ob_index ob) of
            None \<Rightarrow> Inl BadMetadata
          | Some md \<Rightarrow>
              if md_version md \<noteq> 1 \<or> md_run md = [] then Inl BadIndex
              else (case bc_record bc (ob_record ob) of
                None \<Rightarrow> Inl BadRecord
              | Some r \<Rightarrow>
                  if run_id (rp_run (rr_plan r)) \<noteq> md_run md then Inl (RunMismatch (md_run md) (run_id (rp_run (rr_plan r))))
                  else and_then (parseChecksums (ob_sums ob)) (\<lambda>sums.
                    if length (md_artifacts md) \<noteq> length (ob_files ob)
                    then Inl (ArtifactCount (length (md_artifacts md)) (length (ob_files ob)))
                    else if length sums \<noteq> length (md_artifacts md)
                    then Inl (SumCount (length sums) (length (md_artifacts md)))
                    else and_then (check_artifacts ob sums [] (md_artifacts md)) (\<lambda>seen.
                      if ''record.json'' \<notin> set seen then Inl NoRecordArtifact else Inr md))))))"

subsection \<open>What a verified archive holds\<close>

definition is_index :: "string \<Rightarrow> bool" where
  "is_index n = (n = ''bundle.json'' \<or> n = ''SHA256SUMS'')"

definition payload :: "tar_entry list \<Rightarrow> tar_entry list" where
  "payload ts = filter (\<lambda>t. \<not> is_index (te_name t)) ts"

definition fingerprint :: "codec \<Rightarrow> tar_entry \<Rightarrow> string \<times> int \<times> string" where
  "fingerprint bc t = (te_name t, int (length (te_data t)), hex_encode (bc_sha bc (te_data t)))"

definition record_data :: "tar_entry list \<Rightarrow> string \<Rightarrow> string" where
  "record_data ts d = foldl (\<lambda>d t. if te_name t = ''record.json'' then te_data t else d) d ts"

lemma observe_Inr:
  "observe bc t ob = Inr ob' \<longleftrightarrow> safeArchiveName (te_name t) \<and> te_regular t \<and> map_of (ob_files ob) (te_name t) = None \<and>
     ob' = (if te_name t = ''bundle.json'' then ob\<lparr>ob_index := te_data t\<rparr>
            else if te_name t = ''SHA256SUMS'' then ob\<lparr>ob_sums := te_data t\<rparr>
            else ob\<lparr>ob_record := (if te_name t = ''record.json'' then te_data t else ob_record ob), ob_files := fingerprint bc t # ob_files ob\<rparr>)"
  by (cases "map_of (ob_files ob) (te_name t)") (auto simp: observe_def fingerprint_def)

lemma observe_all_Inr:
  assumes "observe_all bc ts ob = Inr ob'"
  shows "(\<forall>t \<in> set ts. te_regular t \<and> safeArchiveName (te_name t)) \<and> ob_files ob' = rev (map (fingerprint bc) (payload ts)) @ ob_files ob \<and>
    (distinct (map fst (ob_files ob)) \<longrightarrow> distinct (map fst (ob_files ob'))) \<and> ob_record ob' = record_data ts (ob_record ob)"
  using assms
proof (induction ts arbitrary: ob)
  case (Cons t ts)
  then obtain ob1 where o: "observe bc t ob = Inr ob1" and a: "observe_all bc ts ob1 = Inr ob'" by (auto simp: and_then_Inr)
  note ih = Cons.IH [OF a] and o = o [unfolded observe_Inr]
  have nt: "te_name t \<notin> fst ` set (ob_files ob)" and sr: "te_regular t" "safeArchiveName (te_name t)"
    using o by (simp_all add: map_of_eq_None_iff)
  have ob1: "ob_files ob1 = (if is_index (te_name t) then ob_files ob else fingerprint bc t # ob_files ob)"
    "ob_record ob1 = (if te_name t = ''record.json'' then te_data t else ob_record ob)"
    using o by (auto simp: is_index_def)
  have "distinct (map fst (ob_files ob)) \<Longrightarrow> distinct (map fst (ob_files ob1))" using nt by (simp add: ob1 fingerprint_def)
  then have "distinct (map fst (ob_files ob)) \<Longrightarrow> distinct (map fst (ob_files ob'))" using ih by blast
  moreover have "ob_files ob' = rev (map (fingerprint bc) (payload (t # ts))) @ ob_files ob" using ih by (simp add: ob1 payload_def)
  moreover have "ob_record ob' = record_data (t # ts) (ob_record ob)" using ih by (simp add: ob1 record_data_def)
  ultimately show ?case using ih sr by simp
qed (simp add: payload_def record_data_def)

lemma check_artifacts_Inr:
  assumes "check_artifacts ob sums seen as = Inr seen'"
  shows "seen' = rev (map at_name as) @ seen \<and> (distinct seen \<longrightarrow> distinct seen') \<and>
    (\<forall>a \<in> set as. safeArchiveName (at_name a) \<and> map_of (ob_files ob) (at_name a) = Some (at_bytes a, at_sha a) \<and>
       (map_of sums (at_name a) = Some (at_sha a) \<or> map_of sums (at_name a) = None \<and> at_sha a = []))"
  using assms
  by (induction as arbitrary: seen) (auto split: if_splits option.splits prod.splits)

lemma bundle_verify_Inr:
  assumes "bundle_verify bc a = Inr md"
  obtains ts ob r sums seen where "a = ATar ts True" and "observe_all bc ts nothing_observed = Inr ob"
    and "bc_decode bc (ob_index ob) = Some md" and "md_version md = 1" and "md_run md \<noteq> []"
    and "bc_record bc (ob_record ob) = Some r" and "run_id (rp_run (rr_plan r)) = md_run md"
    and "parseChecksums (ob_sums ob) = Inr sums" and "length (md_artifacts md) = length (ob_files ob)"
    and "check_artifacts ob sums [] (md_artifacts md) = Inr seen" and "''record.json'' \<in> set seen"
  using assms
  by (auto simp: bundle_verify_def and_then_Inr split: archive.splits if_splits option.splits)

lemma record_data_mem:
  "record_data ts d = d \<and> (\<forall>t \<in> set ts. te_name t \<noteq> ''record.json'') \<or> (\<exists>t \<in> set ts. te_name t = ''record.json'' \<and> record_data ts d = te_data t)"
proof (induction ts arbitrary: d)
  case (Cons t ts)
  then show ?case using Cons.IH [of "if te_name t = ''record.json'' then te_data t else d"]
    by (auto simp: record_data_def)
qed (simp add: record_data_def)


subsection \<open>The list of digests reads back\<close>

definition plain_chars :: string where
  "plain_chars = ''0123456789abcdefABCDEFevnts/.jlonrc''"

definition digit_chars :: string where
  "digit_chars = ''0123456789''"

lemma plain_subsets: "set digit_chars \<subseteq> set plain_chars" "set hex_chars \<subseteq> set plain_chars"
  by (simp_all add: digit_chars_def hex_chars_def plain_chars_def)

lemma no_break: "CHR 0x0A \<notin> set plain_chars" "CHR ''/'' \<notin> set digit_chars" "CHR ''0'' \<in> set digit_chars"
  by (simp_all add: plain_chars_def digit_chars_def)

lemma space_len_none:
  assumes h: "\<And>e. e \<in> set encs \<Longrightarrow> e \<noteq> [] \<and> hd e \<noteq> c"
  shows "space_len encs (c # s) = 0"
proof -
  have "\<not> prefix e (c # s)" if "e \<in> set encs" for e using h [OF that] by (cases e) auto
  then have "find (\<lambda>e. prefix e (c # s)) encs = None" by (auto simp: find_None_iff)
  then show ?thesis by (simp add: space_len_def)
qed

lemma plain_not_head:
  "list_all (\<lambda>e. e \<noteq> [] \<and> list_all (\<lambda>c. hd e \<noteq> c \<and> last e \<noteq> c) plain_chars) space_encodings"
  by (simp add: plain_chars_def space_encodings_def)

lemma plain_not_space:
  assumes "c \<in> set plain_chars"
  shows "space_len space_encodings (c # s) = 0" and "space_len (map rev space_encodings) (c # s) = 0"
proof -
  have "\<forall>e \<in> set space_encodings. e \<noteq> [] \<and> hd e \<noteq> c \<and> last e \<noteq> c"
    using plain_not_head assms by (auto simp: list_all_iff)
  then have "\<forall>e \<in> set space_encodings. e \<noteq> [] \<and> hd e \<noteq> c" "\<forall>e \<in> set (map rev space_encodings). e \<noteq> [] \<and> hd e \<noteq> c"
    by (auto simp: hd_rev)
  then show "space_len space_encodings (c # s) = 0" "space_len (map rev space_encodings) (c # s) = 0"
    by (blast intro: space_len_none)+
qed

lemma show_nat_digits: "set (show_nat n) \<subseteq> set digit_chars"
proof (induction n rule: show_nat.induct)
  case (1 n)
  have "list_all (\<lambda>k. char_of (48 + k) \<in> set digit_chars) [0 ..< 10 :: nat]" by code_simp
  then have d: "char_of (48 + k) \<in> set digit_chars" if "k < 10" for k :: nat using that by (simp only: list_all_iff set_upt) simp
  show ?case using "1.IH" d [of n] d [of "n mod 10"] by (simp add: show_nat.simps [of n])
qed

lemma pad6_plain: "set (pad6 n) \<subseteq> set digit_chars"
  using show_nat_digits [of n] no_break(3) by (auto simp: pad6_def)

lemma pad6_inj: "pad6 a = pad6 b \<Longrightarrow> a < 1000000 \<Longrightarrow> b < 1000000 \<Longrightarrow> a = b"
proof -
  assume e: "pad6 a = pad6 b" and l: "a < 1000000" "b < 1000000"
  have m: "digits 6 i < digits 6 j" if "i < j" "j < 1000000" for i j using that digits_mono [of i j 6] by simp
  have "digits 6 a = digits 6 b" using e unfolding pad6_digits [OF l(1)] pad6_digits [OF l(2)] .
  then have "\<not> a < b" "\<not> b < a" using m [of a b] m [of b a] l by auto
  then show ?thesis by simp
qed

lemma is_hex_plain: "is_hex s \<Longrightarrow> set s \<subseteq> set plain_chars"
  using plain_subsets(2) by (auto simp: is_hex_def list_all_iff)

lemma space_len_breaks:
  "space_len space_encodings (CHR 0x20 # s) = 1" "space_len (map rev space_encodings) (CHR 0x0A # s) = 1"
  by (simp_all add: space_len_def space_encodings_def)

lemma fields_plain: "set w \<subseteq> set plain_chars \<Longrightarrow> str_fields_from acc (w @ s) = str_fields_from (rev w @ acc) s"
proof (induction w arbitrary: acc)
  case (Cons c w)
  have "str_fields_from acc ((c # w) @ s) = str_fields_from (c # acc) (w @ s)"
    using plain_not_space(1) [of c "w @ s"] Cons.prems by (subst str_fields_from.simps) simp
  then show ?case using Cons by simp
qed simp

lemma fields_digest_line:
  assumes "set d \<subseteq> set plain_chars" "d \<noteq> []" "set n \<subseteq> set plain_chars" "n \<noteq> []"
  shows "str_fields (d @ ''  '' @ n) = [d, n]"
proof -
  have n: "str_fields_from [] n = [n]"
    using fields_plain [OF assms(3), of "[]" "[]"] assms(4) by (simp add: str_fields_from.simps [of "rev n" "[]"])
  have "str_fields_from (rev d) (''  '' @ n) = d # str_fields_from [] ('' '' @ n)"
    using assms(2) by (subst str_fields_from.simps) (simp add: space_len_breaks)
  also have "str_fields_from [] ('' '' @ n) = str_fields_from [] n"
    by (subst str_fields_from.simps) (simp add: space_len_breaks)
  finally show ?thesis using fields_plain [OF assms(1), of "[]" "''  '' @ n"] n by (simp add: str_fields_def)
qed

lemma trim_line_break:
  assumes "x \<noteq> []" "hd x \<in> set plain_chars" "last x \<in> set plain_chars"
  shows "trim_space (x @ [CHR 0x0A]) = x"
proof -
  obtain c y where x: "x = c # y" using assms(1) by (cases x) auto
  obtain d z where r: "rev x = d # z" using assms(1) by (cases "rev x") auto
  have d: "d \<in> set plain_chars" using r assms(3) by (metis hd_rev list.sel(1))
  have "trim_left (x @ [CHR 0x0A]) = x @ [CHR 0x0A]"
    using plain_not_space(1) [of c] assms(2) by (simp add: x trim_left_def strip_spaces.simps)
  moreover have "strip_spaces (map rev space_encodings) (CHR 0x0A # rev x) = strip_spaces (map rev space_encodings) (rev x)"
    by (subst strip_spaces.simps) (simp add: space_len_breaks)
  moreover have "strip_spaces (map rev space_encodings) (rev x) = rev x"
    using plain_not_space(2) [OF d] by (simp add: r strip_spaces.simps)
  ultimately show ?thesis by (simp add: trim_space_def trim_right_def)
qed

text \<open>An artifact whose line in the list of digests reads back.\<close>

definition listable :: "Artifact \<Rightarrow> bool" where
  "listable a = (set (at_name a) \<subseteq> set plain_chars \<and> safeArchiveName (at_name a) \<and> is_hex (at_sha a) \<and> length (at_sha a) = 64)"

definition digest_line :: "Artifact \<Rightarrow> string" where
  "digest_line a = at_sha a @ ''  '' @ at_name a"

lemma safe_nonempty [simp]: "\<not> safeArchiveName []"
proof -
  have "clean [] = ''.''" by code_simp
  then show ?thesis by (simp add: safeArchiveName_def)
qed

lemma listable_parts:
  assumes "listable a"
  shows "set (at_sha a) \<subseteq> set plain_chars" "at_sha a \<noteq> []" "at_name a \<noteq> []" "CHR 0x0A \<notin> set (digest_line a)"
    "str_fields (digest_line a) = [at_sha a, at_name a]"
proof -
  show p: "set (at_sha a) \<subseteq> set plain_chars"
    using assms by (intro is_hex_plain) (simp add: listable_def)
  show n: "at_sha a \<noteq> []" "at_name a \<noteq> []" using assms by (auto simp: listable_def)
  show "CHR 0x0A \<notin> set (digest_line a)" using no_break(1) p assms by (auto simp: digest_line_def listable_def)
  show "str_fields (digest_line a) = [at_sha a, at_name a]"
    using fields_digest_line [OF p n(1) _ n(2)] assms by (simp add: digest_line_def listable_def)
qed

lemma parse_listed:
  assumes "\<forall>a \<in> set as. listable a" "distinct (map at_name as)" "\<forall>a \<in> set as. map_of acc (at_name a) = None"
  shows "parse_lines acc (map digest_line as) = Inr (rev (map (\<lambda>a. (at_name a, at_sha a)) as) @ acc)"
  using assms
proof (induction as arbitrary: acc)
  case (Cons a as)
  have "parse_lines acc (map digest_line (a # as)) = parse_lines ((at_name a, at_sha a) # acc) (map digest_line as)"
    using Cons.prems listable_parts(5) [of a] by (simp add: listable_def)
  also have "\<dots> = Inr (rev (map (\<lambda>a. (at_name a, at_sha a)) as) @ (at_name a, at_sha a) # acc)"
    using Cons.prems by (intro Cons.IH) (auto simp: image_iff)
  finally show ?case by simp
qed simp

lemma checksums_lines: "as \<noteq> [] \<Longrightarrow> checksums_text as = join_with [CHR 0x0A] (map digest_line as) @ [CHR 0x0A]"
proof (induction as)
  case (Cons a as)
  then show ?case by (cases as) (simp_all add: checksums_text_def digest_line_def)
qed simp

lemma parse_checksums_text:
  assumes "\<forall>a \<in> set as. listable a" "distinct (map at_name as)" "as \<noteq> []"
  shows "parseChecksums (checksums_text as) = Inr (rev (map (\<lambda>a. (at_name a, at_sha a)) as))"
proof -
  let ?t = "join_with [CHR 0x0A] (map digest_line as)"
  obtain a as' where c: "as = a # as'" using assms(3) by (cases as) auto
  obtain b bs where r: "as = bs @ [b]" using assms(3) by (cases as rule: rev_cases) auto
  have "a \<in> set as" "b \<in> set as" using c arg_cong [OF r, of set] by auto
  then have a: "listable a" and b: "listable b" using assms(1) by blast+
  have h: "?t \<noteq> [] \<and> hd ?t = hd (at_sha a)"
    using listable_parts(2) [OF a] by (cases as') (simp_all add: c digest_line_def)
  have "?t = (if bs = [] then [] else join_with [CHR 0x0A] (map digest_line bs) @ [CHR 0x0A]) @ digest_line b"
    by (simp add: r join_with_append)
  then have l: "last ?t = last (at_name b)" using listable_parts(3) [OF b] by (simp add: digest_line_def)
  have "trim_space (?t @ [CHR 0x0A]) = ?t"
  proof (rule trim_line_break)
    show "?t \<noteq> []" using h by simp
    show "hd ?t \<in> set plain_chars" using h listable_parts(1,2) [OF a] by (metis hd_in_set subsetD)
    show "last ?t \<in> set plain_chars" using l b listable_parts(3) [OF b] by (metis last_in_set listable_def subsetD)
  qed
  then have "parseChecksums (checksums_text as) = parse_lines [] (split_on CHR 0x0A ?t)"
    by (simp add: parseChecksums_def checksums_lines [OF assms(3)])
  also have "split_on CHR 0x0A ?t = map digest_line as"
    using assms listable_parts(4) by (intro split_join) auto
  finally show ?thesis using parse_listed [OF assms(1,2), of "[]"] by simp
qed

subsection \<open>A created archive verifies\<close>

definition event_name :: "nat \<Rightarrow> string" where
  "event_name k = ''events/'' @ pad6 k @ ''.jsonl''"

definition plain_name :: "string list \<Rightarrow> bool" where
  "plain_name xs = (xs \<noteq> [] \<and> (\<forall>x \<in> set xs. plain_seg x \<and> x \<noteq> dotdot))"

lemma safe_plain_name:
  assumes "plain_name xs"
  shows "safeArchiveName (join_with [sep] xs)"
proof -
  let ?n = "join_with [sep] xs"
  have ne: "xs \<noteq> []" and p: "\<forall>x \<in> set xs. plain_seg x" "dotdot \<notin> set xs" "\<forall>x \<in> set xs. x \<noteq> []"
    using assms by (auto simp: plain_name_def plain_seg_def)
  have d: "dropWhile (\<lambda>x. x = dotdot) xs = xs" using ne p(2) by (cases xs) auto
  then have can: "canonical (False, xs)" using p(1,2) by (simp add: canonical_def)
  have r: "render (False, xs) = ?n" using ne by (simp add: render_def)
  have parse: "parse_path ?n = (False, xs)" using parse_render [OF can] r by simp
  then have c: "clean ?n = ?n" by (simp add: clean_def r)
  have s: "segs ?n = xs" using p(1) by (rule segs_join)
  have abs: "\<not> is_abs ?n" using parse by (simp add: parse_path_def)
  have "segs ''.'' = []" by (simp add: segs_def)
  then have nd: "?n \<noteq> ''.''" using s ne by metis
  have up: False if "?n = u @ ''../'' @ v" "u = [] \<or> last u = sep" for u v
  proof -
    have "segs (''../'' @ v) = dotdot # segs v" using segs_append_sep [of dotdot v] by (simp add: segs_def)
    moreover have "segs ?n = segs u @ segs (''../'' @ v)"
    proof (cases u rule: rev_cases)
      case (snoc w y)
      then have "?n = w @ sep # (''../'' @ v)" using that by simp
      then have "segs ?n = segs w @ segs (''../'' @ v)" using segs_append_sep [of w "''../'' @ v"] by simp
      moreover have "segs u = segs w" using that(2) snoc segs_append_sep [of w "[]"] by (simp add: segs_def)
      ultimately show ?thesis by simp
    qed (simp add: that segs_def)
    ultimately show False using s p(2) by (metis in_set_conv_decomp)
  qed
  have "\<not> prefix ''../'' ?n" using up [of "[]"] by (auto simp: prefix_def)
  moreover have "\<not> sublist ''/../'' ?n"
  proof
    assume "sublist ''/../'' ?n"
    then obtain u v where "?n = u @ ''/../'' @ v" by (auto simp: sublist_def)
    then show False using up [of "u @ [sep]" v] by simp
  qed
  ultimately show ?thesis using c abs nd by (simp add: safeArchiveName_def)
qed

lemma safe_event_name: "safeArchiveName (event_name k)"
proof -
  have "sep \<notin> set (pad6 k)" using pad6_plain [of k] no_break(2) by blast
  then have "plain_name [''events'', pad6 k @ ''.jsonl'']"
    by (auto simp: plain_name_def plain_seg_def)
  from safe_plain_name [OF this] show ?thesis by (simp add: event_name_def)
qed

lemma safe_record_name: "safeArchiveName ''record.json''"
  using safe_plain_name [of "[''record.json'']"] by (simp add: plain_name_def plain_seg_def)

lemma safe_index_names: "safeArchiveName ''bundle.json''" "safeArchiveName ''SHA256SUMS''"
  using safe_plain_name [of "[''bundle.json'']"] safe_plain_name [of "[''SHA256SUMS'']"]
  by (simp_all add: plain_name_def plain_seg_def)

lemma event_name_plain: "set (event_name k) \<subseteq> set plain_chars"
proof -
  have "set ''events/'' \<subseteq> set plain_chars" "set ''.jsonl'' \<subseteq> set plain_chars" by (simp_all add: plain_chars_def)
  then show ?thesis using pad6_plain [of k] plain_subsets(1) by (simp only: event_name_def set_append) blast
qed

lemma event_name_inj: "event_name a = event_name b \<Longrightarrow> a < 1000000 \<Longrightarrow> b < 1000000 \<Longrightarrow> a = b"
  by (rule pad6_inj) (simp_all add: event_name_def)

lemma event_name_other: "event_name k \<noteq> ''record.json'' \<and> \<not> is_index (event_name k)"
  by (simp add: event_name_def is_index_def)

lemma event_sources_names:
  assumes "event_sources cwd root k ps = Inr ss" "k + length ps \<le> 1000000"
  shows "distinct (map fst ss) \<and> (\<forall>s \<in> set ss. \<exists>i. k \<le> i \<and> i < 1000000 \<and> fst s = event_name i)"
  using assms
proof (induction ps arbitrary: k ss)
  case (Cons p ps)
  show ?case
  proof (cases "p = []")
    case True
    then have "event_sources cwd root (k + 1) ps = Inr ss" "k + 1 + length ps \<le> 1000000" using Cons.prems by simp_all
    from Cons.IH [OF this] show ?thesis by (meson add_leD1)
  next
    case False
    then obtain tl where tl: "event_sources cwd root (k + 1) ps = Inr tl" and ss: "ss = (event_name k, abs_path cwd p) # tl"
      using Cons.prems(1) by (auto simp: and_then_Inr event_name_def split: if_splits)
    have ih: "distinct (map fst tl)" "\<forall>s \<in> set tl. \<exists>i. k + 1 \<le> i \<and> i < 1000000 \<and> fst s = event_name i"
      using Cons.IH [OF tl] Cons.prems(2) by auto
    have k: "k < 1000000" using Cons.prems(2) by simp
    have "event_name k \<notin> fst ` set tl"
    proof
      assume "event_name k \<in> fst ` set tl"
      then obtain i where "k + 1 \<le> i" "i < 1000000" "event_name k = event_name i" using ih(2) by auto
      then show False using event_name_inj [of k i] k by simp
    qed
    then show ?thesis using ih k by (fastforce simp: ss)
  qed
qed simp

lemma describe_all_Inr:
  "describe_all bc files ss = Inr as \<Longrightarrow>
    map at_name as = map fst ss \<and> map (\<lambda>a. (at_name a, at_bytes a, at_sha a)) as = map (fingerprint bc \<circ> addFile files) ss \<and>
    (\<forall>s \<in> set ss. files (snd s) \<noteq> None)"
  by (induction ss arbitrary: as) (auto simp: and_then_Inr describe_def fingerprint_def addFile_def addBytes_def split: option.splits)

lemma observe_all_append: "observe_all bc (ts @ us) ob = and_then (observe_all bc ts ob) (observe_all bc us)"
  by (induction ts arbitrary: ob) (auto simp: and_then_def split: sum.split)

lemma observe_all_files:
  assumes "\<forall>s \<in> set ss. safeArchiveName (fst s) \<and> \<not> is_index (fst s) \<and> map_of (ob_files ob) (fst s) = None" "distinct (map fst ss)"
  shows "observe_all bc (map (addFile files) ss) ob =
    Inr (ob\<lparr>ob_record := record_data (map (addFile files) ss) (ob_record ob),
            ob_files := rev (map (fingerprint bc \<circ> addFile files) ss) @ ob_files ob\<rparr>)"
  using assms
proof (induction ss arbitrary: ob)
  case (Cons s ss)
  let ?t = "addFile files s"
  let ?ob = "ob\<lparr>ob_record := (if te_name ?t = ''record.json'' then te_data ?t else ob_record ob), ob_files := fingerprint bc ?t # ob_files ob\<rparr>"
  have o: "observe bc ?t ob = Inr ?ob"
    using Cons.prems(1) by (simp add: observe_Inr is_index_def addFile_def addBytes_def)
  have "\<forall>s' \<in> set ss. map_of (ob_files ?ob) (fst s') = None"
    using Cons.prems by (fastforce simp: fingerprint_def addFile_def addBytes_def image_iff)
  then have "observe_all bc (map (addFile files) ss) ?ob =
    Inr (?ob\<lparr>ob_record := record_data (map (addFile files) ss) (ob_record ?ob),
             ob_files := rev (map (fingerprint bc \<circ> addFile files) ss) @ ob_files ?ob\<rparr>)"
    using Cons.prems by (intro Cons.IH) auto
  then show ?case by (simp add: o record_data_def)
qed (simp add: record_data_def)

lemma listed_artifacts_check:
  assumes "\<forall>a \<in> set as. safeArchiveName (at_name a) \<and> map_of (ob_files ob) (at_name a) = Some (at_bytes a, at_sha a) \<and>
      map_of sums (at_name a) = Some (at_sha a)"
    and "distinct (map at_name as)" "set (map at_name as) \<inter> set seen = {}"
  shows "check_artifacts ob sums seen as = Inr (rev (map at_name as) @ seen)"
  using assms by (induction as arbitrary: seen) auto

lemma observe_index:
  assumes "map_of fs ''bundle.json'' = None" "map_of fs ''SHA256SUMS'' = None"
  shows "observe_all bc [addBytes ''bundle.json'' i, addBytes ''SHA256SUMS'' s] \<lparr>ob_files = fs, ob_index = i0, ob_sums = s0, ob_record = r\<rparr> =
    Inr \<lparr>ob_files = fs, ob_index = i, ob_sums = s, ob_record = r\<rparr>"
  using assms safe_index_names by (simp add: observe_def addBytes_def)

lemma Create_Inr:
  assumes "Create bc pe recordPath runtimeRoot r old = (a, Inr md)"
  obtains es where "event_sources (pe_cwd pe) (abs_path (pe_cwd pe) runtimeRoot) 0 (EventLogPaths r) = Inr es"
    and "describe_all bc (pe_files pe) ((''record.json'', abs_path (pe_cwd pe) recordPath) # es) = Inr (md_artifacts md)"
    and "md_version md = 1" and "md_run md = run_id (rp_run (rr_plan r))" and "md_run md \<noteq> []"
    and "a = ATar (map (addFile (pe_files pe)) ((''record.json'', abs_path (pe_cwd pe) recordPath) # es) @
      [addBytes ''bundle.json'' (bc_encode bc md @ [CHR 0x0A]), addBytes ''SHA256SUMS'' (checksums_text (md_artifacts md))]) True"
  using assms
  by (auto simp: Create_def writeArchive_def Let_def split: if_splits sum.splits prod.splits option.splits)

lemma fingerprint_named: "fst (fingerprint bc (addFile files s)) = fst s"
  by (simp add: fingerprint_def addFile_def addBytes_def)

definition archived_name :: "string \<Rightarrow> bool" where
  "archived_name n = (n = ''record.json'' \<or> (\<exists>i. n = event_name i))"

lemma archived_name_parts:
  assumes "archived_name n"
  shows "safeArchiveName n" "\<not> is_index n" "set n \<subseteq> set plain_chars"
proof -
  have "set ''record.json'' \<subseteq> set plain_chars" "\<not> is_index ''record.json''" by (simp_all add: plain_chars_def is_index_def)
  then show "safeArchiveName n" "\<not> is_index n" "set n \<subseteq> set plain_chars"
    using assms safe_event_name safe_record_name event_name_other event_name_plain unfolding archived_name_def by metis+
qed

lemma source_listable:
  assumes "a \<in> set as" "describe_all bc files ss = Inr as" "\<forall>s \<in> set ss. archived_name (fst s)"
    and "\<forall>s. length (bc_sha bc s) = 32"
  shows "listable a"
proof -
  have "(at_name a, at_bytes a, at_sha a) \<in> set (map (fingerprint bc \<circ> addFile files) ss)"
    using assms(1) describe_all_Inr [OF assms(2)] by (metis (no_types, lifting) image_eqI set_map)
  then obtain s where s: "s \<in> set ss" "at_name a = fst s" "at_sha a = hex_encode (bc_sha bc (te_data (addFile files s)))"
    by (auto simp: fingerprint_def addFile_def addBytes_def)
  have "archived_name (at_name a)" using assms(3) s(1,2) by simp
  then show ?thesis using archived_name_parts [of "at_name a"] assms(4) s(3) by (simp add: listable_def)
qed

lemma record_data_first:
  assumes "\<forall>s \<in> set es. fst s \<noteq> ''record.json''"
  shows "record_data (map (addFile files) ((''record.json'', p) # es)) [] = te_data (addFile files (''record.json'', p))"
proof -
  have "\<forall>t \<in> set (map (addFile files) es). te_name t \<noteq> ''record.json''" using assms by (simp add: addFile_def addBytes_def)
  then show ?thesis using record_data_mem [of "map (addFile files) es" "te_data (addFile files (''record.json'', p))"]
    by (auto simp: record_data_def addFile_def addBytes_def)
qed

lemma observe_created:
  fixes bc files es p i s
  defines "ss \<equiv> (''record.json'', p) # es"
  defines "fs \<equiv> rev (map (fingerprint bc \<circ> addFile files) ss)"
  assumes an: "\<forall>s \<in> set ss. archived_name (fst s)" and dist: "distinct (map fst ss)"
  shows "observe_all bc (map (addFile files) ss @ [addBytes ''bundle.json'' i, addBytes ''SHA256SUMS'' s]) nothing_observed =
    Inr \<lparr>ob_files = fs, ob_index = i, ob_sums = s, ob_record = te_data (addFile files (''record.json'', p))\<rparr>"
proof -
  let ?r = "te_data (addFile files (''record.json'', p))"
  have "\<forall>s \<in> set es. fst s \<noteq> ''record.json''" using dist by (force simp: ss_def image_iff)
  note rec = record_data_first [OF this, of files p, folded ss_def]
  have "\<forall>s \<in> set ss. safeArchiveName (fst s) \<and> \<not> is_index (fst s) \<and> map_of (ob_files nothing_observed) (fst s) = None"
    using an archived_name_parts by (simp add: nothing_observed_def)
  then have "observe_all bc (map (addFile files) ss) nothing_observed =
      Inr (nothing_observed\<lparr>ob_record := record_data (map (addFile files) ss) (ob_record nothing_observed),
        ob_files := fs @ ob_files nothing_observed\<rparr>)"
    unfolding fs_def using dist by (rule observe_all_files)
  also have "\<dots> = Inr \<lparr>ob_files = fs, ob_index = [], ob_sums = [], ob_record = ?r\<rparr>"
    by (simp add: nothing_observed_def rec)
  finally have files: "observe_all bc (map (addFile files) ss) nothing_observed = \<dots>" .
  have fn: "map fst fs = rev (map fst ss)" by (simp add: fs_def rev_map fingerprint_named)
  have "\<not> is_index n" if "n \<in> set (map fst fs)" for n
    using that an archived_name_parts(2) unfolding fn set_rev set_map by blast
  then have "''bundle.json'' \<notin> set (map fst fs)" "''SHA256SUMS'' \<notin> set (map fst fs)"
    unfolding is_index_def by metis+
  then have m: "map_of fs ''bundle.json'' = None" "map_of fs ''SHA256SUMS'' = None"
    unfolding map_of_eq_None_iff set_map by blast+
  show ?thesis unfolding observe_all_append files and_then_simps by (rule observe_index [OF m])
qed

lemma created_artifacts_check:
  assumes trip: "map (\<lambda>a. (at_name a, at_bytes a, at_sha a)) as = rev (ob_files ob)"
    and dist: "distinct (map at_name as)" and lst: "\<forall>a \<in> set as. listable a"
  shows "check_artifacts ob (rev (map (\<lambda>a. (at_name a, at_sha a)) as)) [] as = Inr (rev (map at_name as) @ [])"
proof (rule listed_artifacts_check)
  show "set (map at_name as) \<inter> set [] = {}" by simp
  have "map fst (rev (ob_files ob)) = map at_name as" unfolding trip [symmetric] by simp
  then have "map fst (ob_files ob) = rev (map at_name as)" by (metis rev_map rev_rev_ident)
  then have df: "distinct (map fst (ob_files ob))" using dist by (simp only: distinct_rev)
  have ds: "distinct (map fst (rev (map (\<lambda>a. (at_name a, at_sha a)) as)))"
    using dist unfolding rev_map [symmetric] distinct_rev map_map comp_def fst_conv .
  show "\<forall>a \<in> set as. safeArchiveName (at_name a) \<and> map_of (ob_files ob) (at_name a) = Some (at_bytes a, at_sha a) \<and>
    map_of (rev (map (\<lambda>a. (at_name a, at_sha a)) as)) (at_name a) = Some (at_sha a)"
  proof
    fix a assume m: "a \<in> set as"
    have "(at_name a, at_bytes a, at_sha a) \<in> set (rev (ob_files ob))" using m unfolding trip [symmetric] by simp
    then have i: "(at_name a, at_bytes a, at_sha a) \<in> set (ob_files ob)" by (simp only: set_rev)
    have "(at_name a, at_sha a) \<in> set (rev (map (\<lambda>a. (at_name a, at_sha a)) as))" using m by simp
    then show "safeArchiveName (at_name a) \<and> map_of (ob_files ob) (at_name a) = Some (at_bytes a, at_sha a) \<and>
      map_of (rev (map (\<lambda>a. (at_name a, at_sha a)) as)) (at_name a) = Some (at_sha a)"
      using lst m map_of_is_SomeI [OF df i] map_of_is_SomeI [OF ds] unfolding listable_def by blast
  qed
qed (rule dist)

lemma bundle_verify_created:
  fixes bc files es p md
  defines "ss \<equiv> (''record.json'', p) # es"
  assumes d: "describe_all bc files ss = Inr (md_artifacts md)" and md: "md_version md = 1" "md_run md \<noteq> []"
    and an: "\<forall>s \<in> set ss. archived_name (fst s)" and dist: "distinct (map fst ss)" and sha: "\<forall>s. length (bc_sha bc s) = 32"
    and dec: "bc_decode bc (bc_encode bc md @ [CHR 0x0A]) = Some md"
    and rec: "\<forall>c. files p = Some c \<longrightarrow> (\<exists>r. bc_record bc c = Some r \<and> run_id (rp_run (rr_plan r)) = md_run md)"
  shows "bundle_verify bc (ATar (map (addFile files) ss @
    [addBytes ''bundle.json'' (bc_encode bc md @ [CHR 0x0A]), addBytes ''SHA256SUMS'' (checksums_text (md_artifacts md))]) True) = Inr md"
proof -
  let ?as = "md_artifacts md" and ?fs = "rev (map (fingerprint bc \<circ> addFile files) ss)"
  let ?ob = "\<lparr>ob_files = ?fs, ob_index = bc_encode bc md @ [CHR 0x0A], ob_sums = checksums_text ?as, ob_record = te_data (addFile files (''record.json'', p))\<rparr>"
  note obs = observe_created [OF an [unfolded ss_def] dist [unfolded ss_def], folded ss_def]
  note D = describe_all_Inr [OF d]
  have names: "map at_name ?as = map fst ss" using D by blast
  have trip: "map (\<lambda>a. (at_name a, at_bytes a, at_sha a)) ?as = rev (ob_files ?ob)" using D by simp
  have ds: "distinct (map at_name ?as)" using dist names by simp
  have lst: "\<forall>a \<in> set ?as. listable a" using source_listable [OF _ d an sha] by blast
  have ne: "?as \<noteq> []" using names by (auto simp: ss_def)
  note sums = parse_checksums_text [OF lst ds ne]
  note seen = created_artifacts_check [OF trip ds lst]
  obtain c where "files p = Some c" using D by (auto simp: ss_def)
  then obtain r where r: "bc_record bc (ob_record ?ob) = Some r" "run_id (rp_run (rr_plan r)) = md_run md"
    using rec by (auto simp: addFile_def addBytes_def)
  have len: "length ?as = length ?fs" using arg_cong [OF trip, of length] by simp
  have mem: "''record.json'' \<in> set (rev (map at_name ?as) @ [])" unfolding names by (simp add: ss_def)
  have snz: "checksums_text ?as \<noteq> []" using checksums_lines [OF ne] by simp
  show ?thesis
    unfolding bundle_verify_def archive.case obs and_then_simps
    using dec md r sums seen len mem snz by simp
qed

text \<open>
  C27. What \<open>Create\<close> writes, \<open>Verify\<close> accepts, and it returns the index that \<open>Create\<close> returned: for a run with at most
  a million event logs, a digest of 32 bytes, a codec that reads its own index back, and a record file
  that is the record of the run.
\<close>

theorem created_archive_verifies:
  assumes "Create bc pe recordPath runtimeRoot r old = (a, Inr md)"
    and "length (EventLogPaths r) \<le> 1000000"
    and "\<forall>s. length (bc_sha bc s) = 32"
    and "bc_decode bc (bc_encode bc md @ [CHR 0x0A]) = Some md"
    and "\<forall>c. pe_files pe (abs_path (pe_cwd pe) recordPath) = Some c \<longrightarrow>
      (\<exists>r'. bc_record bc c = Some r' \<and> run_id (rp_run (rr_plan r')) = run_id (rp_run (rr_plan r)))"
  shows "bundle_verify bc a = Inr md"
proof -
  let ?rp = "abs_path (pe_cwd pe) recordPath"
  obtain es where es: "event_sources (pe_cwd pe) (abs_path (pe_cwd pe) runtimeRoot) 0 (EventLogPaths r) = Inr es"
    and d: "describe_all bc (pe_files pe) ((''record.json'', ?rp) # es) = Inr (md_artifacts md)"
    and md: "md_version md = 1" "md_run md = run_id (rp_run (rr_plan r))" "md_run md \<noteq> []"
    and a: "a = ATar (map (addFile (pe_files pe)) ((''record.json'', ?rp) # es) @
      [addBytes ''bundle.json'' (bc_encode bc md @ [CHR 0x0A]), addBytes ''SHA256SUMS'' (checksums_text (md_artifacts md))]) True"
    by (rule Create_Inr [OF assms(1)])
  have en: "distinct (map fst es)" "\<forall>s \<in> set es. \<exists>i. fst s = event_name i"
    using event_sources_names [OF es] assms(2) by auto
  then have an: "\<forall>s \<in> set ((''record.json'', ?rp) # es). archived_name (fst s)" by (auto simp: archived_name_def)
  have "''record.json'' \<notin> fst ` set es" using en(2) event_name_other by fastforce
  then have "distinct (map fst ((''record.json'', ?rp) # es))" using en(1) by simp
  from bundle_verify_created [OF d md(1,3) an this assms(3,4)] show ?thesis using assms(5) md(2) by (simp only: a)
qed

subsection \<open>An example\<close>

definition zero_sha :: "string \<Rightarrow> string" where
  "zero_sha s = replicate 32 CHR 0x00"

definition sample_files :: "path \<Rightarrow> string option" where
  "sample_files p = (if p = ''/var/run1.json'' then Some ''r'' else if p = ''/var/run1.jsonl'' then Some ''e'' else None)"

definition sample_record :: RunRecord where
  "sample_record = review_record\<lparr>rr_path := ''/var/run1.jsonl'', rr_paths := []\<rparr>"

definition sample_artifacts :: "Artifact list" where
  "sample_artifacts =
     [\<lparr>at_name = ''record.json'', at_bytes = 1, at_sha = hex_encode (zero_sha ''r'')\<rparr>,
      \<lparr>at_name = event_name 0, at_bytes = 1, at_sha = hex_encode (zero_sha ''e'')\<rparr>]"

definition sample_index :: Metadata where
  "sample_index = \<lparr>md_version = 1, md_run = run_id (rp_run (rr_plan sample_record)),
     md_state = state_text (run_state (rp_run (rr_plan sample_record))), md_created = created_at (rp_run (rr_plan sample_record)),
     md_events = rr_events sample_record, md_artifacts = sample_artifacts\<rparr>"

definition sample_codec :: codec where
  "sample_codec = \<lparr>bc_sha = zero_sha, bc_encode = (\<lambda>_. ''{}''), bc_decode = (\<lambda>_. Some sample_index), bc_record = (\<lambda>_. Some sample_record)\<rparr>"

definition sample_pack :: pack_env where
  "sample_pack = \<lparr>pe_cwd = ''/'', pe_files = sample_files, pe_mkdir = True, pe_temp = True, pe_write = True, pe_rename = True\<rparr>"

lemma sample_paths:
  "abs_path ''/'' ''/var'' = ''/var''" "abs_path ''/'' ''/var/run1.json'' = ''/var/run1.json''"
  "abs_path ''/'' ''/var/run1.jsonl'' = ''/var/run1.jsonl''" "bundle_within ''/var'' ''/var/run1.json''"
  "bundle_within ''/var'' ''/var/run1.jsonl''"
  by code_simp+

lemma sample_id: "run_id (rp_run (rr_plan sample_record)) \<noteq> []"
  by code_simp

lemma sample_created:
  "\<exists>a. Create sample_codec sample_pack ''/var/run1.json'' ''/var'' sample_record AMissing = (a, Inr sample_index)"
proof -
  have ev: "EventLogPaths sample_record = [''/var/run1.jsonl'']" by (simp add: sample_record_def EventLogPaths_def)
  show ?thesis
    using sample_id by (simp add: Create_def ev sample_pack_def sample_paths describe_def sample_files_def sample_codec_def
      sample_index_def sample_artifacts_def event_name_def writeArchive_def)
qed

lemma created_archive_verifies_witness:
  "\<exists>a. Create sample_codec sample_pack ''/var/run1.json'' ''/var'' sample_record AMissing = (a, Inr sample_index) \<and>
    bundle_verify sample_codec a = Inr sample_index"
proof -
  obtain a where c: "Create sample_codec sample_pack ''/var/run1.json'' ''/var'' sample_record AMissing = (a, Inr sample_index)"
    using sample_created by blast
  have "length (EventLogPaths sample_record) \<le> 1000000" by (simp add: sample_record_def EventLogPaths_def)
  from created_archive_verifies [OF c this] c show ?thesis by (auto simp: sample_codec_def zero_sha_def)
qed

lemma sample_verifies: "\<exists>a. bundle_verify sample_codec a = Inr sample_index"
proof -
  let ?ss = "[(''record.json'', ''/var/run1.json''), (event_name 0, ''/var/run1.jsonl'')]"
  have d: "describe_all sample_codec sample_files ?ss = Inr (md_artifacts sample_index)"
    by (simp add: describe_def sample_files_def sample_codec_def sample_index_def sample_artifacts_def)
  have "\<forall>s \<in> set ?ss. archived_name (fst s)" "distinct (map fst ?ss)"
    using event_name_other [of 0] by (auto simp: archived_name_def)
  then show ?thesis
    using bundle_verify_created [OF d] sample_id by (auto simp: sample_index_def sample_codec_def zero_sha_def)
qed


text \<open>
  Duplicates of the two index entries are not detected, the last one counts; and the name of the
  parent directory passes for safe.
\<close>

lemma duplicate_index_accepted:
  "observe_all bc [addBytes ''bundle.json'' x, addBytes ''bundle.json'' y] nothing_observed = Inr (nothing_observed\<lparr>ob_index := y\<rparr>)"
  using safe_index_names by (simp add: observe_def addBytes_def nothing_observed_def)

lemma parent_name_is_safe: "safeArchiveName ''..''"
  by code_simp

end
