(* ===== verification/Evidence_Transfer.thy ===== *)
theory Evidence_Transfer
  imports Go_Base64 Go_Path History "HOL-Library.Char_ord"
begin

text \<open>
  Archives at rest and in transit: the encrypted envelope (\<open>bundle/encryption.go\<close>), \<open>Publish\<close> and \<open>Fetch\<close>
  (\<open>bundle/publish.go\<close>, \<open>bundle/fetch.go\<close>) and the object store client (\<open>retention/object.go\<close>).  AES-GCM,
  SHA-256, JSON and the parser of URLs are arguments, and the network is a function from requests to
  replies.
\<close>

record disk = io_env +
  dk_left :: "string option"

definition set_file :: "path \<Rightarrow> string \<Rightarrow> (path \<Rightarrow> string option) \<Rightarrow> path \<Rightarrow> string option" where
  "set_file p d f = f(p \<mapsto> d)"

subsection \<open>Raw base64\<close>

text \<open>\<open>RawStdEncoding\<close> leaves the padding out, and refuses it.\<close>

definition raw_encode :: "string \<Rightarrow> string" where
  "raw_encode s = takeWhile (\<lambda>c. c \<noteq> pad) (b64_encode s)"

definition raw_decode :: "string \<Rightarrow> string option" where
  "raw_decode s =
     (let t = filter (\<lambda>c. c \<noteq> CHR 0x0A \<and> c \<noteq> CHR 0x0D) s in
      if pad \<in> set t \<or> length t mod 4 = 1 then None
      else b64_quads (t @ replicate ((4 - length t mod 4) mod 4) pad))"

subsection \<open>The encrypted envelope\<close>

record EncryptedEnvelope =
  ev_version :: int
  ev_algorithm :: string
  ev_nonce :: string
  ev_ciphertext :: string
  ev_plain_sha :: string
  ev_cipher_sha :: string

text \<open>Sealing and opening take the key, the nonce and the text; \<open>cr_nonce\<close> is what the random source gives.\<close>

record crypt =
  cr_sha :: "string \<Rightarrow> string"
  cr_nonce_size :: nat
  cr_nonce :: "string option"
  cr_seal :: "string \<Rightarrow> string \<Rightarrow> string \<Rightarrow> string"
  cr_open :: "string \<Rightarrow> string \<Rightarrow> string \<Rightarrow> string option"
  cr_encode :: "EncryptedEnvelope \<Rightarrow> string"
  cr_decode :: "string \<Rightarrow> EncryptedEnvelope option"

text \<open>\<open>NoncePanic\<close>: the cipher panics when it is given a nonce of the wrong length.\<close>

datatype crypt_error =
    KeyLength | NonceSource | EnvelopeDecode | EnvelopeUnsupported | NonceDecode | CiphertextDecode | CiphertextDigest
  | NoncePanic | Unauthentic | PlaintextDigest | InputMissing | InputSize | OutputMkdir | OutputWrite | OutputRename

definition encryptedVersion :: int where "encryptedVersion = 1"

definition maxEncryptedBytes :: int where "maxEncryptedBytes = 134217728"

definition EncryptBytes :: "crypt \<Rightarrow> string \<Rightarrow> string \<Rightarrow> crypt_error + EncryptedEnvelope" where
  "EncryptBytes cr plaintext key =
     (if length key \<noteq> 32 then Inl KeyLength
      else (case cr_nonce cr of
        None \<Rightarrow> Inl NonceSource
      | Some nonce \<Rightarrow>
          (let ciphertext = cr_seal cr key nonce plaintext in
           Inr \<lparr>ev_version = encryptedVersion, ev_algorithm = ''AES-256-GCM'', ev_nonce = raw_encode nonce,
                ev_ciphertext = raw_encode ciphertext, ev_plain_sha = hex_encode (cr_sha cr plaintext),
                ev_cipher_sha = hex_encode (cr_sha cr ciphertext)\<rparr>)))"

definition DecryptBytes :: "crypt \<Rightarrow> string \<Rightarrow> string \<Rightarrow> crypt_error + string" where
  "DecryptBytes cr d key =
     (if length key \<noteq> 32 then Inl KeyLength
      else (case cr_decode cr d of
        None \<Rightarrow> Inl EnvelopeDecode
      | Some env \<Rightarrow>
          if ev_version env \<noteq> encryptedVersion \<or> ev_algorithm env \<noteq> ''AES-256-GCM'' then Inl EnvelopeUnsupported
          else (case raw_decode (ev_nonce env) of
            None \<Rightarrow> Inl NonceDecode
          | Some nonce \<Rightarrow>
              (case raw_decode (ev_ciphertext env) of
                None \<Rightarrow> Inl CiphertextDecode
              | Some ciphertext \<Rightarrow>
                  if hex_encode (cr_sha cr ciphertext) \<noteq> ev_cipher_sha env then Inl CiphertextDigest
                  else if length nonce \<noteq> cr_nonce_size cr then Inl NoncePanic
                  else (case cr_open cr key nonce ciphertext of
                    None \<Rightarrow> Inl Unauthentic
                  | Some plaintext \<Rightarrow>
                      if hex_encode (cr_sha cr plaintext) \<noteq> ev_plain_sha env then Inl PlaintextDigest
                      else Inr plaintext)))))"

definition readBounded :: "(path \<Rightarrow> string option) \<Rightarrow> path \<Rightarrow> int \<Rightarrow> crypt_error + string" where
  "readBounded f p limit =
     (case f (clean p) of
        None \<Rightarrow> Inl InputMissing
      | Some d \<Rightarrow> if d = [] \<or> limit < int (length d) then Inl InputSize else Inr d)"

definition atomicWrite ::
  "disk \<Rightarrow> path \<Rightarrow> string \<Rightarrow> (path \<Rightarrow> string option) \<Rightarrow> (path \<Rightarrow> string option) \<times> crypt_error option" where
  "atomicWrite dk p d f =
     (if \<not> io_mkdir dk then (f, Some OutputMkdir)
      else (let tmp = p @ ''.tmp'' in
        if \<not> io_write dk then (f(tmp := dk_left dk), Some OutputWrite)
        else if \<not> io_rename dk then (f(tmp \<mapsto> d), Some OutputRename)
        else (f(tmp := None, p \<mapsto> d), None)))"

definition EncryptFile ::
  "crypt \<Rightarrow> disk \<Rightarrow> path \<Rightarrow> path \<Rightarrow> string \<Rightarrow> (path \<Rightarrow> string option) \<Rightarrow> (path \<Rightarrow> string option) \<times> (crypt_error + EncryptedEnvelope)" where
  "EncryptFile cr dk inputPath outputPath key f =
     (case readBounded f inputPath maxEncryptedBytes of
        Inl e \<Rightarrow> (f, Inl e)
      | Inr plaintext \<Rightarrow>
          (case EncryptBytes cr plaintext key of
             Inl e \<Rightarrow> (f, Inl e)
           | Inr env \<Rightarrow>
               (case atomicWrite dk outputPath (cr_encode cr env @ [CHR 0x0A]) f of
                  (f', Some e) \<Rightarrow> (f', Inl e)
                | (f', None) \<Rightarrow> (f', Inr env))))"

definition DecryptFile ::
  "crypt \<Rightarrow> disk \<Rightarrow> path \<Rightarrow> path \<Rightarrow> string \<Rightarrow> (path \<Rightarrow> string option) \<Rightarrow> (path \<Rightarrow> string option) \<times> crypt_error option" where
  "DecryptFile cr dk inputPath outputPath key f =
     (case readBounded f inputPath (maxEncryptedBytes + 1) of
        Inl e \<Rightarrow> (f, Some e)
      | Inr d \<Rightarrow>
          (case DecryptBytes cr d key of
             Inl e \<Rightarrow> (f, Some e)
           | Inr plaintext \<Rightarrow> atomicWrite dk outputPath plaintext f))"

subsection \<open>Requests\<close>

record web_url =
  wu_scheme :: string
  wu_host :: string
  wu_hostname :: string
  wu_path :: path

record web_request =
  wr_method :: string
  wr_url :: web_url
  wr_headers :: "(string \<times> string) list"
  wr_body :: "string option"

text \<open>A reply has a status, a body, whether reading the body fails, and the digest header.\<close>

record web_reply =
  wp_status :: int
  wp_body :: string
  wp_broken :: bool
  wp_digest :: string

datatype transfer_error =
    ArgumentsRequired | NotAbsolute | HttpsRequired | ArchiveMissing | ArchiveSize | SendFailed | BadStatus int string
  | ReadFailed | ReplySize | DigestMismatch | OutputRequired | ObjectKeyRequired | PutSize | SaveMkdir | SaveWrite | SaveRename

definition maxPublishBytes :: int where "maxPublishBytes = 201326592"

definition isLoopback :: "string \<Rightarrow> bool" where
  "isLoopback host = (let h = trim_space (to_lower host) in h = ''127.0.0.1'' \<or> h = ''localhost'' \<or> h = ''::1'')"

definition accepted_status :: "int \<Rightarrow> bool" where
  "accepted_status code \<longleftrightarrow> 200 \<le> code \<and> code < 300"

definition endpoint_url :: "(string \<Rightarrow> web_url option) \<Rightarrow> bool \<Rightarrow> string \<Rightarrow> transfer_error + web_url" where
  "endpoint_url parse allowInsecure endpoint =
     (case parse endpoint of
        None \<Rightarrow> Inl NotAbsolute
      | Some u \<Rightarrow>
          if wu_scheme u = [] \<or> wu_host u = [] then Inl NotAbsolute
          else if wu_scheme u \<noteq> ''https'' \<and> (\<not> allowInsecure \<or> wu_scheme u \<noteq> ''http'' \<or> \<not> isLoopback (wu_hostname u)) then Inl HttpsRequired
          else Inr u)"

definition bearer_header :: "string \<Rightarrow> (string \<times> string) list" where
  "bearer_header bearer = (if blank bearer then [] else [(''Authorization'', ''Bearer '' @ bearer)])"

text \<open>\<open>Publish\<close>: the requests sent, and the result.\<close>

definition publish_request ::
  "(string \<Rightarrow> string) \<Rightarrow> web_url \<Rightarrow> path \<Rightarrow> string \<Rightarrow> string \<Rightarrow> string \<Rightarrow> web_request" where
  "publish_request sha target archivePath bearer signature payload =
     (let lower = to_lower archivePath in
      \<lparr>wr_method = ''POST'', wr_url = target,
       wr_headers =
         [(''Content-Type'', if suffix ''.json'' lower \<or> suffix ''.enc'' lower then ''application/json'' else ''application/gzip''),
          (''X-Rewind-Bundle-SHA256'', hex_encode (sha payload))] @
         (if blank signature then [] else [(''X-Rewind-Bundle-Signature'', signature)]) @ bearer_header bearer,
       wr_body = Some payload\<rparr>)"

definition Publish ::
  "(string \<Rightarrow> string) \<Rightarrow> (string \<Rightarrow> web_url option) \<Rightarrow> (path \<Rightarrow> string option) \<Rightarrow> (web_request \<Rightarrow> web_reply option) \<Rightarrow>
   path \<Rightarrow> string \<Rightarrow> string \<Rightarrow> string \<Rightarrow> bool \<Rightarrow> web_request list \<times> (transfer_error + string)" where
  "Publish sha parse files send archivePath endpoint bearer signature allowInsecure =
     (if blank archivePath \<or> blank endpoint then ([], Inl ArgumentsRequired)
      else (case endpoint_url parse allowInsecure endpoint of
        Inl e \<Rightarrow> ([], Inl e)
      | Inr target \<Rightarrow>
          (case files archivePath of
             None \<Rightarrow> ([], Inl ArchiveMissing)
           | Some payload \<Rightarrow>
               if payload = [] \<or> maxPublishBytes < int (length payload) then ([], Inl ArchiveSize)
               else (let rq = publish_request sha target archivePath bearer signature payload in
                 case send rq of
                   None \<Rightarrow> ([rq], Inl SendFailed)
                 | Some reply \<Rightarrow>
                     (let body = trim_space (take 4096 (wp_body reply)) in
                      ([rq], if \<not> accepted_status (wp_status reply) then Inl (BadStatus (wp_status reply) body) else Inr body))))))"

subsection \<open>Downloads\<close>

text \<open>
  A file is written next to the output, renamed, and removed when that fails: only the output can change.
\<close>

definition save :: "io_env \<Rightarrow> path \<Rightarrow> string \<Rightarrow> (path \<Rightarrow> string option) \<Rightarrow> (path \<Rightarrow> string option) \<times> transfer_error option" where
  "save io output d f =
     (if \<not> io_mkdir io then (f, Some SaveMkdir)
      else if \<not> io_write io then (f, Some SaveWrite)
      else if \<not> io_rename io then (f, Some SaveRename)
      else (f(output \<mapsto> d), None))"

definition fetch_data ::
  "(string \<Rightarrow> string) \<Rightarrow> (web_request \<Rightarrow> web_reply option) \<Rightarrow> web_url \<Rightarrow> string \<Rightarrow> string \<Rightarrow> transfer_error + string" where
  "fetch_data sha send target bearer expectedSHA =
     (case send \<lparr>wr_method = ''GET'', wr_url = target, wr_headers = bearer_header bearer, wr_body = None\<rparr> of
        None \<Rightarrow> Inl SendFailed
      | Some reply \<Rightarrow>
          if \<not> accepted_status (wp_status reply) then Inl (BadStatus (wp_status reply) [])
          else if wp_broken reply then Inl ReadFailed
          else if wp_body reply = [] \<or> maxPublishBytes < int (length (wp_body reply)) then Inl ReplySize
          else (let expected = to_lower (trim_space expectedSHA) in
                if expected \<noteq> [] \<and> expected \<noteq> hex_encode (sha (wp_body reply)) then Inl DigestMismatch else Inr (wp_body reply)))"

definition Fetch ::
  "(string \<Rightarrow> string) \<Rightarrow> (string \<Rightarrow> web_url option) \<Rightarrow> (web_request \<Rightarrow> web_reply option) \<Rightarrow> io_env \<Rightarrow>
   string \<Rightarrow> string \<Rightarrow> string \<Rightarrow> path \<Rightarrow> bool \<Rightarrow> (path \<Rightarrow> string option) \<Rightarrow> (path \<Rightarrow> string option) \<times> transfer_error option" where
  "Fetch sha parse send io endpoint bearer expectedSHA output allowInsecure f =
     (case endpoint_url parse allowInsecure endpoint of
        Inl e \<Rightarrow> (f, Some e)
      | Inr target \<Rightarrow>
          if blank output then (f, Some OutputRequired)
          else (case fetch_data sha send target bearer expectedSHA of
                  Inl e \<Rightarrow> (f, Some e)
                | Inr d \<Rightarrow> save io output d f))"

subsection \<open>The object store\<close>

record Client =
  oc_endpoint :: string
  oc_bearer :: string
  oc_attempts :: int

definition MaxObjectBytes :: int where "MaxObjectBytes = 201326592"

definition attempts :: "Client \<Rightarrow> nat" where
  "attempts c = nat (if oc_attempts c < 1 then 3 else if oc_attempts c > 6 then 6 else oc_attempts c)"

definition retryable :: "web_reply option \<Rightarrow> bool" where
  "retryable r = (case r of None \<Rightarrow> True | Some p \<Rightarrow> wp_status p = 429 \<or> 500 \<le> wp_status p)"

definition succeeded :: "web_reply option \<Rightarrow> bool" where
  "succeeded r = (case r of None \<Rightarrow> False | Some p \<Rightarrow> accepted_status (wp_status p))"

definition object_request ::
  "(string \<Rightarrow> string) \<Rightarrow> (string \<Rightarrow> web_url option) \<Rightarrow> Client \<Rightarrow> string \<Rightarrow> string \<Rightarrow> string option \<Rightarrow> transfer_error + web_request" where
  "object_request sha parse c verb key d =
     (if blank key then Inl ObjectKeyRequired
      else and_then (endpoint_url parse True (trim_space (oc_endpoint c))) (\<lambda>target.
        Inr \<lparr>wr_method = verb, wr_url = target\<lparr>wu_path := path_join (wu_path target) key\<rparr>,
             wr_headers = (if oc_bearer c = [] then [] else [(''Authorization'', ''Bearer '' @ oc_bearer c)]) @
               (case d of None \<Rightarrow> []
                | Some b \<Rightarrow> [(''Content-Type'', ''application/octet-stream''), (''X-Rewind-Object-SHA256'', hex_encode (sha b))]),
             wr_body = d\<rparr>))"

text \<open>The attempts from number \<open>k\<close> on: the number of requests sent in the end, and the last reply.\<close>

function attempt_from :: "(nat \<Rightarrow> web_reply option) \<Rightarrow> nat \<Rightarrow> nat \<Rightarrow> nat \<times> web_reply option" where
  "attempt_from reply n k =
     (if succeeded (reply k) \<or> \<not> retryable (reply k) \<or> n \<le> k + 1 then (k + 1, reply k) else attempt_from reply n (k + 1))"
  by pat_completeness auto
termination
  by (relation "measure (\<lambda>(_, n, k). n - k)") auto

declare attempt_from.simps [simp del]

definition reply_error :: "web_reply option \<Rightarrow> transfer_error" where
  "reply_error r = (case r of None \<Rightarrow> SendFailed | Some p \<Rightarrow> BadStatus (wp_status p) (trim_space (take 2048 (wp_body p))))"

text \<open>The network answers the \<open>k\<close>-th attempt of a request; the results count the requests sent.\<close>

definition object_Put ::
  "(string \<Rightarrow> string) \<Rightarrow> (string \<Rightarrow> web_url option) \<Rightarrow> (web_request \<Rightarrow> nat \<Rightarrow> web_reply option) \<Rightarrow> Client \<Rightarrow> string \<Rightarrow> string \<Rightarrow>
   nat \<times> transfer_error option" where
  "object_Put sha parse send c key d =
     (if d = [] \<or> MaxObjectBytes < int (length d) then (0, Some PutSize)
      else (case object_request sha parse c ''PUT'' key (Some d) of
        Inl e \<Rightarrow> (0, Some e)
      | Inr rq \<Rightarrow> (let (n, r) = attempt_from (send rq) (attempts c) 0 in (n, if succeeded r then None else Some (reply_error r)))))"

definition PutFile ::
  "(string \<Rightarrow> string) \<Rightarrow> (string \<Rightarrow> web_url option) \<Rightarrow> (web_request \<Rightarrow> nat \<Rightarrow> web_reply option) \<Rightarrow> Client \<Rightarrow>
   (path \<Rightarrow> string option) \<Rightarrow> string \<Rightarrow> path \<Rightarrow> nat \<times> transfer_error option" where
  "PutFile sha parse send c files key filename =
     (case files filename of None \<Rightarrow> (0, Some ArchiveMissing) | Some d \<Rightarrow> object_Put sha parse send c key d)"

definition object_body :: "(string \<Rightarrow> string) \<Rightarrow> web_reply \<Rightarrow> transfer_error + string" where
  "object_body sha p =
     (if wp_broken p then Inl ReadFailed
      else if wp_body p = [] \<or> MaxObjectBytes < int (length (wp_body p)) then Inl ReplySize
      else (let expected = trim_space (wp_digest p) in
            if expected \<noteq> [] \<and> to_lower expected \<noteq> to_lower (hex_encode (sha (wp_body p))) then Inl DigestMismatch
            else Inr (wp_body p)))"

definition object_Get ::
  "(string \<Rightarrow> string) \<Rightarrow> (string \<Rightarrow> web_url option) \<Rightarrow> (web_request \<Rightarrow> nat \<Rightarrow> web_reply option) \<Rightarrow> Client \<Rightarrow> string \<Rightarrow>
   nat \<times> (transfer_error + string)" where
  "object_Get sha parse send c key =
     (case object_request sha parse c ''GET'' key None of
        Inl e \<Rightarrow> (0, Inl e)
      | Inr rq \<Rightarrow>
          (case attempt_from (send rq) (attempts c) 0 of
             (n, Some p) \<Rightarrow> (n, if succeeded (Some p) then object_body sha p else Inl (reply_error (Some p)))
           | (n, None) \<Rightarrow> (n, Inl (reply_error None))))"

definition GetFile ::
  "(string \<Rightarrow> string) \<Rightarrow> (string \<Rightarrow> web_url option) \<Rightarrow> (web_request \<Rightarrow> nat \<Rightarrow> web_reply option) \<Rightarrow> io_env \<Rightarrow> Client \<Rightarrow>
   string \<Rightarrow> path \<Rightarrow> string \<Rightarrow> (path \<Rightarrow> string option) \<Rightarrow> (path \<Rightarrow> string option) \<times> transfer_error option" where
  "GetFile sha parse send io c key filename expectedDigest f =
     (if blank filename then (f, Some OutputRequired)
      else (case snd (object_Get sha parse send c key) of
        Inl e \<Rightarrow> (f, Some e)
      | Inr d \<Rightarrow>
          (let expected = trim_space expectedDigest in
           if expected \<noteq> [] \<and> to_lower expected \<noteq> to_lower (hex_encode (sha d)) then (f, Some DigestMismatch)
           else save io filename d f)))"

subsection \<open>Raw base64 reads back\<close>

text \<open>The digits of the encoding and its padding.\<close>

lemma raw_encode_short:
  "raw_encode [] = []"
  "raw_encode [a] = take 2 (b64_encode [a])" "b64_encode [a] = take 2 (b64_encode [a]) @ [pad, pad]" "length (b64_encode [a]) = 4"
  "raw_encode [a, b] = take 3 (b64_encode [a, b])" "b64_encode [a, b] = take 3 (b64_encode [a, b]) @ [pad]" "length (b64_encode [a, b]) = 4"
  by (simp_all add: raw_encode_def Let_def byte_digits)

lemma raw_encode_long:
  "raw_encode (a # b # c # s) = take 4 (b64_encode (a # b # c # s)) @ raw_encode s"
  "b64_encode (a # b # c # s) = take 4 (b64_encode (a # b # c # s)) @ b64_encode s" "4 \<le> length (b64_encode (a # b # c # s))"
  by (simp_all add: raw_encode_def Let_def byte_digits)

lemma length_raw_encode_parts [simp]:
  "length (raw_encode []) = 0" "length (raw_encode [a]) = 2" "length (raw_encode [a, b]) = 3"
  "length (raw_encode (a # b # c # s)) = 4 + length (raw_encode s)"
  unfolding raw_encode_short(1,2,5) raw_encode_long(1)
  using raw_encode_short(4) [of a] raw_encode_short(7) [of a b] raw_encode_long(3) [of a b c s] by (simp_all del: b64_encode.simps)

definition padding :: "nat \<Rightarrow> string" where
  "padding n = replicate ((4 - n mod 4) mod 4) pad"

lemma padding_simps: "padding 0 = []" "padding 2 = [pad, pad]" "padding 3 = [pad]" "padding (4 + n) = padding n"
proof -
  have "replicate 2 pad = [pad, pad]" by (simp add: numeral_2_eq_2)
  then show "padding 0 = []" "padding 2 = [pad, pad]" "padding 3 = [pad]" "padding (4 + n) = padding n" by (simp_all add: padding_def)
qed

lemma raw_encode_parts: "b64_encode s = raw_encode s @ padding (length (raw_encode s)) \<and> length (raw_encode s) mod 4 \<noteq> 1"
proof (induction s rule: b64_encode.induct)
  case (2 a)
  have "padding (length (raw_encode [a])) = [pad, pad]" "length (raw_encode [a]) mod 4 \<noteq> 1"
    by (simp_all add: padding_simps)
  then show ?case using raw_encode_short(3) [of a, folded raw_encode_short(2)] by (simp only:) simp
next
  case (3 a b)
  have "padding (length (raw_encode [a, b])) = [pad]" "length (raw_encode [a, b]) mod 4 \<noteq> 1"
    by (simp_all add: padding_simps)
  then show ?case using raw_encode_short(6) [of a b, folded raw_encode_short(5)] by (simp only:) simp
next
  case (4 a b c s)
  have "padding (length (raw_encode (a # b # c # s))) = padding (length (raw_encode s))"
    "length (raw_encode (a # b # c # s)) mod 4 = length (raw_encode s) mod 4" by (simp_all add: padding_simps)
  then show ?case using raw_encode_long(1,2) [of a b c s] 4 by (metis append.assoc)
qed (simp add: raw_encode_short padding_simps)

lemma raw_encode_set: "c \<in> set (raw_encode s) \<Longrightarrow> c \<noteq> pad \<and> c \<noteq> CHR 0x0A \<and> c \<noteq> CHR 0x0D"
  using b64_encode_plain [of c s] by (auto simp: raw_encode_def dest: set_takeWhileD)

lemma raw_round_trip [simp]: "raw_decode (raw_encode s) = Some s"
proof -
  have f: "filter (\<lambda>c. c \<noteq> CHR 0x0A \<and> c \<noteq> CHR 0x0D) (raw_encode s) = raw_encode s"
    by (intro filter_True ballI) (use raw_encode_set in blast)
  have "pad \<notin> set (raw_encode s)" using raw_encode_set by blast
  then show ?thesis
    using raw_encode_parts [of s] b64_quads_encode [of s] by (simp add: raw_decode_def f padding_def)
qed

lemma length_raw_encode: "4 * length s \<le> 3 * length (raw_encode s)"
  by (induction s rule: b64_encode.induct) simp_all

subsection \<open>Encrypted archives\<close>

lemma EncryptBytes_Inr:
  assumes "EncryptBytes cr p key = Inr env"
  obtains n where "length key = 32" and "cr_nonce cr = Some n" and "ev_version env = encryptedVersion"
    and "ev_algorithm env = ''AES-256-GCM''" and "ev_nonce env = raw_encode n" and "ev_ciphertext env = raw_encode (cr_seal cr key n p)"
    and "ev_plain_sha env = hex_encode (cr_sha cr p)" and "ev_cipher_sha env = hex_encode (cr_sha cr (cr_seal cr key n p))"
  using assms by (auto simp: EncryptBytes_def Let_def split: if_splits option.splits)

lemma readBounded_Inr: "readBounded f p limit = Inr d \<longleftrightarrow> f (clean p) = Some d \<and> d \<noteq> [] \<and> int (length d) \<le> limit"
  by (auto simp: readBounded_def split: option.splits)

lemma EncryptFile_Inr:
  assumes "EncryptFile cr dk i out key f = (f1, Inr env)"
  obtains p where "f (clean i) = Some p" and "p \<noteq> []" and "int (length p) \<le> maxEncryptedBytes" and "EncryptBytes cr p key = Inr env"
    and "f1 = f(out @ ''.tmp'' := None, out \<mapsto> cr_encode cr env @ [CHR 0x0A])"
  using assms by (auto simp: EncryptFile_def atomicWrite_def readBounded_Inr Let_def split: sum.splits prod.splits option.splits if_splits)

lemma DecryptBytes_Inr:
  assumes "DecryptBytes cr d key = Inr p"
  obtains env n c where "cr_decode cr d = Some env" and "raw_decode (ev_nonce env) = Some n" and "raw_decode (ev_ciphertext env) = Some c"
    and "cr_open cr key n c = Some p" and "hex_encode (cr_sha cr p) = ev_plain_sha env" and "length n = cr_nonce_size cr"
  using assms by (auto simp: DecryptBytes_def split: if_splits option.splits)

text \<open>
  C29. What \<open>EncryptFile\<close> wrote, \<open>DecryptFile\<close> turns back into the bytes that were encrypted, under the same key
  and for an envelope that is not over the size it reads: opening undoes sealing, the nonce has the
  length the cipher wants, and the codec reads its own envelope.
\<close>

theorem encrypted_archive_decrypts:
  assumes "EncryptFile cr dk i out key f = (f1, Inr env)"
    and "\<forall>n. cr_nonce cr = Some n \<longrightarrow> length n = cr_nonce_size cr"
    and "\<forall>k n p. cr_open cr k n (cr_seal cr k n p) = Some p"
    and "cr_decode cr (cr_encode cr env @ [CHR 0x0A]) = Some env"
    and "int (length (cr_encode cr env)) \<le> maxEncryptedBytes"
    and "clean out = out" and "io_mkdir dk' \<and> io_write dk' \<and> io_rename dk'"
  shows "\<exists>p. f (clean i) = Some p \<and> DecryptFile cr dk' out out' key f1 = (f1(out' @ ''.tmp'' := None, out' \<mapsto> p), None)"
proof -
  obtain p where p: "f (clean i) = Some p" "EncryptBytes cr p key = Inr env"
    and f1: "f1 = f(out @ ''.tmp'' := None, out \<mapsto> cr_encode cr env @ [CHR 0x0A])"
    using assms(1) by (rule EncryptFile_Inr)
  have "readBounded f1 out (maxEncryptedBytes + 1) = Inr (cr_encode cr env @ [CHR 0x0A])"
    using assms(5,6) by (simp add: readBounded_Inr f1)
  moreover obtain n where "length key = 32" "cr_nonce cr = Some n" "ev_version env = encryptedVersion"
    "ev_algorithm env = ''AES-256-GCM''" "ev_nonce env = raw_encode n" "ev_ciphertext env = raw_encode (cr_seal cr key n p)"
    "ev_plain_sha env = hex_encode (cr_sha cr p)" "ev_cipher_sha env = hex_encode (cr_sha cr (cr_seal cr key n p))"
    using p(2) by (rule EncryptBytes_Inr)
  then have "DecryptBytes cr (cr_encode cr env @ [CHR 0x0A]) key = Inr p"
    using assms(2-4) by (simp add: DecryptBytes_def)
  ultimately show ?thesis using p(1) assms(7) by (simp add: DecryptFile_def atomicWrite_def Let_def)
qed

text \<open>
  Decrypting never damages the output: nothing but the output and its temporary file changes, a
  failure leaves the output as it was, and a success leaves a text there whose sealing is what the
  envelope holds and whose digest is the one it states.
\<close>

theorem decryption_installs_only_authentic:
  assumes "DecryptFile cr dk i out key f = (f', r)"
    and "\<forall>k n c p. cr_open cr k n c = Some p \<longrightarrow> c = cr_seal cr k n p"
  shows "(\<forall>q. q \<noteq> out \<and> q \<noteq> out @ ''.tmp'' \<longrightarrow> f' q = f q) \<and> (r \<noteq> None \<longrightarrow> f' out = f out) \<and>
    (r = None \<longrightarrow> (\<exists>d env n p. f (clean i) = Some d \<and> cr_decode cr d = Some env \<and> f' out = Some p \<and>
       raw_decode (ev_ciphertext env) = Some (cr_seal cr key n p) \<and> hex_encode (cr_sha cr p) = ev_plain_sha env))"
proof (cases "readBounded f i (maxEncryptedBytes + 1)")
  case (Inr d)
  then have d: "f (clean i) = Some d" by (simp add: readBounded_Inr)
  show ?thesis
  proof (cases "DecryptBytes cr d key")
    case (Inl e)
    then show ?thesis using assms(1) \<open>readBounded f i _ = Inr d\<close> by (auto simp: DecryptFile_def)
  next
    case (Inr p)
    then obtain env n c where "cr_decode cr d = Some env" "raw_decode (ev_ciphertext env) = Some c" "cr_open cr key n c = Some p"
      "hex_encode (cr_sha cr p) = ev_plain_sha env"
      by (rule DecryptBytes_Inr)
    moreover from this have "c = cr_seal cr key n p" using assms(2) by blast
    moreover have "atomicWrite dk out p f = (f', r)" using assms(1) \<open>readBounded f i _ = Inr d\<close> Inr by (simp add: DecryptFile_def)
    ultimately show ?thesis using d by (auto simp: atomicWrite_def Let_def split: if_splits)
  qed
qed (use assms(1) in \<open>auto simp: DecryptFile_def\<close>)

text \<open>
  Two limits.  An archive of more than 96 MiB is encrypted without complaint, but its envelope is over
  what \<open>DecryptFile\<close> reads.  And an envelope whose nonce has the wrong length makes the cipher panic,
  before anything is authenticated.
\<close>

theorem large_archive_cannot_be_decrypted:
  assumes "EncryptFile cr dk i out key f = (f1, Inr env)" and "f (clean i) = Some p" and "100663296 < int (length p)"
    and "\<forall>k n q. length q \<le> length (cr_seal cr k n q)"
    and "length (ev_ciphertext env) \<le> length (cr_encode cr env)" and "clean out = out"
  shows "DecryptFile cr dk' out out' key f1 = (f1, Some InputSize)"
proof -
  obtain p' where p: "f (clean i) = Some p'" "EncryptBytes cr p' key = Inr env"
    and f1: "f1 = f(out @ ''.tmp'' := None, out \<mapsto> cr_encode cr env @ [CHR 0x0A])"
    using assms(1) by (rule EncryptFile_Inr)
  have pp: "p' = p" using p(1) assms(2) by simp
  obtain n where "ev_ciphertext env = raw_encode (cr_seal cr key n p)"
    using p(2) unfolding pp by (rule EncryptBytes_Inr)
  then have "4 * int (length (cr_seal cr key n p)) \<le> 3 * int (length (ev_ciphertext env))"
    using length_raw_encode [of "cr_seal cr key n p"] by simp
  moreover have "int (length p) \<le> int (length (cr_seal cr key n p))" using assms(4) by simp
  moreover have "int (length (ev_ciphertext env)) \<le> int (length (cr_encode cr env))" using assms(5) by simp
  ultimately have "maxEncryptedBytes + 1 < int (length (cr_encode cr env @ [CHR 0x0A]))"
    using assms(3) by (simp add: maxEncryptedBytes_def)
  then show ?thesis using assms(6) by (simp add: DecryptFile_def readBounded_def f1)
qed

lemma short_nonce_panics:
  assumes "EncryptBytes cr p key = Inr env" "length n \<noteq> cr_nonce_size cr" "cr_decode cr d = Some (env\<lparr>ev_nonce := raw_encode n\<rparr>)"
  shows "DecryptBytes cr d key = Inl NoncePanic"
  using assms(1)
proof (rule EncryptBytes_Inr)
qed (use assms(2,3) in \<open>simp add: DecryptBytes_def\<close>)

subsection \<open>Attempts\<close>

lemma attempts_bounds: "1 \<le> attempts c" "attempts c \<le> 6"
  by (auto simp: attempts_def)

text \<open>
  The attempts: each but the last failed in a way that is worth another one, and the last one succeeded, or is not
  worth another one, or is the last there is.
\<close>

lemma attempt_from_spec:
  assumes "attempt_from reply n k = (m, r)" "k < n"
  shows "k < m \<and> m \<le> n \<and> r = reply (m - 1) \<and> (\<forall>i. k \<le> i \<and> i < m - 1 \<longrightarrow> \<not> succeeded (reply i) \<and> retryable (reply i)) \<and>
    (succeeded r \<or> \<not> retryable r \<or> m = n)"
  using assms
proof (induction reply n k rule: attempt_from.induct)
  case (1 reply n k)
  show ?case
  proof (cases "succeeded (reply k) \<or> \<not> retryable (reply k) \<or> n \<le> k + 1")
    case True
    then have "m = k + 1" "r = reply k" using "1.prems"(1) by (simp_all add: attempt_from.simps [of reply n k])
    then show ?thesis using True "1.prems"(2) by auto
  next
    case False
    then have "attempt_from reply n (k + 1) = (m, r)" using "1.prems"(1) by (simp add: attempt_from.simps [of reply n k])
    moreover have "k + 1 < n" using False by simp
    ultimately have ih: "k + 1 < m \<and> m \<le> n \<and> r = reply (m - 1) \<and>
        (\<forall>i. k + 1 \<le> i \<and> i < m - 1 \<longrightarrow> \<not> succeeded (reply i) \<and> retryable (reply i)) \<and> (succeeded r \<or> \<not> retryable r \<or> m = n)"
      by (rule "1.IH" [OF False])
    have "\<not> succeeded (reply i) \<and> retryable (reply i)" if "k \<le> i" "i < m - 1" for i
      using that ih False by (cases "i = k") simp_all
    moreover have "k < m" using ih by simp
    ultimately show ?thesis using ih by blast
  qed
qed

subsection \<open>Downloads replace only verified files\<close>

lemma endpoint_url_Inr:
  "endpoint_url parse allow e = Inr u \<longleftrightarrow> parse e = Some u \<and> wu_scheme u \<noteq> [] \<and> wu_host u \<noteq> [] \<and>
     (wu_scheme u = ''https'' \<or> allow \<and> wu_scheme u = ''http'' \<and> isLoopback (wu_hostname u))"
  by (auto simp: endpoint_url_def split: option.splits)

lemma save_cases: "save io p d f = (f', r) \<Longrightarrow> (r = None \<and> f' = f(p \<mapsto> d)) \<or> (r \<noteq> None \<and> f' = f)"
  by (auto simp: save_def split: if_splits)

text \<open>
  A download that fails leaves every file as it was; one that succeeds replaces the output alone, by the
  body of a successful reply of at most 192 MiB from an HTTPS endpoint, or from a loopback one when that
  was allowed, and the body has the digest that was asked for.
\<close>

theorem fetch_installs_only_verified:
  assumes "Fetch sha parse send io endpoint bearer expectedSHA output allow f = (f', r)"
  shows "(r \<noteq> None \<longrightarrow> f' = f) \<and>
    (r = None \<longrightarrow> (\<exists>u rq reply. parse endpoint = Some u \<and> wr_url rq = u \<and> send rq = Some reply \<and> accepted_status (wp_status reply) \<and>
       (wu_scheme u = ''https'' \<or> allow \<and> wu_scheme u = ''http'' \<and> isLoopback (wu_hostname u)) \<and>
       wp_body reply \<noteq> [] \<and> int (length (wp_body reply)) \<le> maxPublishBytes \<and>
       (to_lower (trim_space expectedSHA) \<noteq> [] \<longrightarrow> hex_encode (sha (wp_body reply)) = to_lower (trim_space expectedSHA)) \<and>
       f' = f(output \<mapsto> wp_body reply)))"
proof (cases "r = None")
  case True
  then obtain u d where u: "endpoint_url parse allow endpoint = Inr u" and d: "fetch_data sha send u bearer expectedSHA = Inr d"
    and s: "save io output d f = (f', None)"
    using assms by (auto simp: Fetch_def split: sum.splits if_splits)
  let ?rq = "\<lparr>wr_method = ''GET'', wr_url = u, wr_headers = bearer_header bearer, wr_body = None\<rparr>"
  obtain reply where "send ?rq = Some reply" "accepted_status (wp_status reply)" "d = wp_body reply" "wp_body reply \<noteq> []"
    "int (length (wp_body reply)) \<le> maxPublishBytes"
    "to_lower (trim_space expectedSHA) \<noteq> [] \<longrightarrow> hex_encode (sha (wp_body reply)) = to_lower (trim_space expectedSHA)"
    using d by (auto simp: fetch_data_def Let_def split: option.splits if_splits)
  then show ?thesis using u save_cases [OF s] True
    by (intro conjI impI exI [of _ u] exI [of _ ?rq] exI [of _ reply]) (auto simp: endpoint_url_Inr)
next
  case False
  then show ?thesis using assms by (auto simp: Fetch_def split: sum.splits if_splits dest: save_cases)
qed

lemma object_body_Inr:
  "object_body sha p = Inr d \<longleftrightarrow> \<not> wp_broken p \<and> d = wp_body p \<and> d \<noteq> [] \<and> int (length d) \<le> MaxObjectBytes \<and>
     (trim_space (wp_digest p) \<noteq> [] \<longrightarrow> to_lower (trim_space (wp_digest p)) = to_lower (hex_encode (sha d)))"
  by (auto simp: object_body_def Let_def)

lemma object_Get_Inr:
  assumes "object_Get sha parse send c key = (m, Inr d)"
  obtains rq p where "object_request sha parse c ''GET'' key None = Inr rq" and "1 \<le> m" and "m \<le> attempts c"
    and "send rq (m - 1) = Some p" and "accepted_status (wp_status p)" and "object_body sha p = Inr d"
    and "\<forall>i < m - 1. \<not> succeeded (send rq i) \<and> retryable (send rq i)"
proof -
  obtain rq p where rq: "object_request sha parse c ''GET'' key None = Inr rq" and a: "attempt_from (send rq) (attempts c) 0 = (m, Some p)"
    and p: "succeeded (Some p)" "object_body sha p = Inr d"
    using assms by (auto simp: object_Get_def split: sum.splits prod.splits option.splits if_splits)
  have "0 < attempts c" using attempts_bounds(1) [of c] by simp
  from attempt_from_spec [OF a this] have s: "0 < m" "m \<le> attempts c" "send rq (m - 1) = Some p"
    "\<forall>i < m - 1. \<not> succeeded (send rq i) \<and> retryable (send rq i)" by auto
  have "accepted_status (wp_status p)" using p(1) by (simp add: succeeded_def)
  then show thesis using rq p(2) s by (intro that) auto
qed

text \<open>
  C30. A restored object: a failure leaves every file as it was; a success replaces the output alone, by the body
  of the first successful reply, which came within the attempts, after failures that were all worth
  another one, and which has the digest its header and the operator name.
\<close>

theorem restore_installs_only_verified:
  assumes "GetFile sha parse send io c key filename expected f = (f', r)"
  shows "(r \<noteq> None \<longrightarrow> f' = f) \<and>
    (r = None \<longrightarrow> (\<exists>rq k p. object_request sha parse c ''GET'' key None = Inr rq \<and> k < attempts c \<and> send rq k = Some p \<and>
       accepted_status (wp_status p) \<and> (\<forall>i < k. \<not> succeeded (send rq i) \<and> retryable (send rq i)) \<and>
       object_body sha p = Inr (wp_body p) \<and>
       (trim_space expected \<noteq> [] \<longrightarrow> to_lower (trim_space expected) = to_lower (hex_encode (sha (wp_body p)))) \<and>
       f' = f(filename \<mapsto> wp_body p)))"
proof (cases "r = None")
  case True
  then obtain m d where g: "object_Get sha parse send c key = (m, Inr d)"
    and e: "trim_space expected \<noteq> [] \<longrightarrow> to_lower (trim_space expected) = to_lower (hex_encode (sha d))"
    and s: "save io filename d f = (f', None)"
    using assms by (cases "object_Get sha parse send c key") (auto simp: GetFile_def Let_def split: sum.splits if_splits)
  obtain rq p where *: "object_request sha parse c ''GET'' key None = Inr rq" "1 \<le> m" "m \<le> attempts c" "send rq (m - 1) = Some p"
    "accepted_status (wp_status p)" "object_body sha p = Inr d" "\<forall>i < m - 1. \<not> succeeded (send rq i) \<and> retryable (send rq i)"
    using g by (rule object_Get_Inr)
  have "d = wp_body p" using *(6) by (simp add: object_body_Inr)
  moreover have "m - 1 < attempts c" using *(2,3) by simp
  moreover have "f' = f(filename \<mapsto> d)" using save_cases [OF s] by simp
  ultimately show ?thesis using * e True by blast
next
  case False
  then show ?thesis using assms by (auto simp: GetFile_def Let_def split: sum.splits if_splits dest: save_cases)
qed

text \<open>
  Storing and restoring: when a server accepted an object, and answers a request for its URL with the bytes
  it accepted, with no digest or the right one, then the file is restored byte for byte, also under the digest of
  the object.
\<close>

theorem stored_object_restores:
  assumes "object_Put sha parse send c key d = (m, None)" and "\<not> blank filename"
    and "object_request sha parse c ''PUT'' key (Some d) = Inr put"
    and "\<forall>rq. wr_method rq = ''GET'' \<and> wr_url rq = wr_url put \<longrightarrow> (\<exists>p. send rq 0 = Some p \<and> accepted_status (wp_status p) \<and>
       \<not> wp_broken p \<and> wp_body p = d \<and> (trim_space (wp_digest p) = [] \<or> trim_space (wp_digest p) = hex_encode (sha d)))"
    and "trim_space expected = [] \<or> trim_space expected = hex_encode (sha d)"
    and "io_mkdir io \<and> io_write io \<and> io_rename io"
  shows "GetFile sha parse send io c key filename expected f = (f(filename \<mapsto> d), None)"
proof -
  have size: "d \<noteq> []" "int (length d) \<le> MaxObjectBytes" using assms(1) by (auto simp: object_Put_def split: if_splits)
  obtain rq where rq: "object_request sha parse c ''GET'' key None = Inr rq" "wr_method rq = ''GET''" "wr_url rq = wr_url put"
    using assms(3) by (auto simp: object_request_def split: if_splits)
  obtain p where p: "send rq 0 = Some p" "accepted_status (wp_status p)" "object_body sha p = Inr d"
    using assms(4) rq(2,3) size by (metis object_body_Inr)
  then have "attempt_from (send rq) (attempts c) 0 = (1, Some p)" by (simp add: attempt_from.simps succeeded_def)
  then have "object_Get sha parse send c key = (1, Inr d)" using p rq(1) by (simp add: object_Get_def succeeded_def)
  then show ?thesis using assms(2,5,6) by (auto simp: GetFile_def save_def Let_def)
qed

lemma put_sends_boundedly:
  assumes "object_Put sha parse send c key d = (m, r)"
  shows "m \<le> 6 \<and> (r = None \<longrightarrow> 1 \<le> m \<and> (\<exists>rq. object_request sha parse c ''PUT'' key (Some d) = Inr rq \<and> succeeded (send rq (m - 1))))"
proof (cases "m = 0")
  case True
  then show ?thesis using assms attempt_from_spec [of _ "attempts c" 0] attempts_bounds [of c]
    by (fastforce simp: object_Put_def split: if_splits sum.splits prod.splits)
next
  case False
  then obtain rq q where rq: "object_request sha parse c ''PUT'' key (Some d) = Inr rq" and a: "attempt_from (send rq) (attempts c) 0 = (m, q)"
    and r: "r = (if succeeded q then None else Some (reply_error q))"
    using assms by (auto simp: object_Put_def split: if_splits sum.splits prod.splits)
  have "0 < attempts c" using attempts_bounds(1) [of c] by simp
  from attempt_from_spec [OF a this] show ?thesis using rq r attempts_bounds(2) [of c] by auto
qed

text \<open>A key can name an object outside of the path of the endpoint, since the joined path is cleaned.\<close>

lemma object_key_leaves_endpoint: "path_join ''/tenant/a'' ''../b/x'' = ''/tenant/b/x''"
  by code_simp

subsection \<open>Examples\<close>

text \<open>A cipher that puts the nonce in front of the text, and a codec that stores the encoded text alone.\<close>

definition demo_envelope :: "string \<Rightarrow> EncryptedEnvelope" where
  "demo_envelope c = \<lparr>ev_version = 1, ev_algorithm = ''AES-256-GCM'', ev_nonce = raw_encode ''n'', ev_ciphertext = c,
     ev_plain_sha = [], ev_cipher_sha = []\<rparr>"

definition demo_crypt :: crypt where
  "demo_crypt = \<lparr>cr_sha = (\<lambda>_. []), cr_nonce_size = 1, cr_nonce = Some ''n'', cr_seal = (\<lambda>k n p. n @ p),
     cr_open = (\<lambda>k n c. if take (length n) c = n then Some (drop (length n) c) else None),
     cr_encode = ev_ciphertext, cr_decode = (\<lambda>s. Some (demo_envelope (butlast s)))\<rparr>"

definition demo_disk :: disk where
  "demo_disk = \<lparr>io_mkdir = True, io_write = True, io_rename = True, dk_left = None\<rparr>"

definition demo_key :: string where "demo_key = replicate 32 CHR ''k''"

lemma demo_encrypts:
  assumes "p \<noteq> []" "int (length p) \<le> maxEncryptedBytes"
  shows "EncryptFile demo_crypt demo_disk ''/in'' ''/out'' demo_key [''/in'' \<mapsto> p] =
    ([''/in'' \<mapsto> p, ''/out'' \<mapsto> raw_encode (''n'' @ p) @ [CHR 0x0A]], Inr (demo_envelope (raw_encode (''n'' @ p))))"
proof -
  have "clean ''/in'' = ''/in''" by code_simp
  moreover have "hex_encode [] = []" by (simp add: hex_encode_def)
  ultimately show ?thesis
    using assms by (auto simp: EncryptFile_def readBounded_def EncryptBytes_def demo_crypt_def demo_key_def demo_envelope_def encryptedVersion_def
        atomicWrite_def demo_disk_def fun_eq_iff)
qed

lemma encrypted_archive_decrypts_witness:
  "\<exists>f1. fst (EncryptFile demo_crypt demo_disk ''/in'' ''/out'' demo_key [''/in'' \<mapsto> ''text'']) = f1 \<and>
     snd (DecryptFile demo_crypt demo_disk ''/out'' ''/back'' demo_key f1) = None \<and>
     fst (DecryptFile demo_crypt demo_disk ''/out'' ''/back'' demo_key f1) ''/back'' = Some ''text''"
proof -
  have "length (raw_encode (''n'' @ ''text'')) \<le> length (b64_encode (''n'' @ ''text''))"
    unfolding raw_encode_def by (rule length_takeWhile_le)
  also have "\<dots> \<le> 8" by (simp add: length_b64_encode)
  finally have l: "int (length (raw_encode (''n'' @ ''text''))) \<le> maxEncryptedBytes" by (simp add: maxEncryptedBytes_def)
  have c: "clean ''/out'' = ''/out''" by code_simp
  have ok: "io_mkdir demo_disk \<and> io_write demo_disk \<and> io_rename demo_disk" by (simp add: demo_disk_def)
  have laws: "\<forall>n. cr_nonce demo_crypt = Some n \<longrightarrow> length n = cr_nonce_size demo_crypt"
    "\<forall>k n p. cr_open demo_crypt k n (cr_seal demo_crypt k n p) = Some p"
    "cr_decode demo_crypt (cr_encode demo_crypt (demo_envelope c) @ [CHR 0x0A]) = Some (demo_envelope c)" for c
    by (simp_all add: demo_crypt_def demo_envelope_def)
  have i: "clean ''/in'' = ''/in''" by code_simp
  have "int (length ''text'') \<le> maxEncryptedBytes" by (simp add: maxEncryptedBytes_def)
  note e = demo_encrypts [OF _ this, simplified]
  have "int (length (cr_encode demo_crypt (demo_envelope (raw_encode (''n'' @ ''text''))))) \<le> maxEncryptedBytes"
    using l by (simp add: demo_crypt_def demo_envelope_def)
  from encrypted_archive_decrypts [OF e laws this [simplified] c ok] i e show ?thesis by auto
qed

lemma decryption_installs_only_authentic_witness:
  "snd (DecryptFile demo_crypt demo_disk ''/in'' ''/out'' ''short'' [''/in'' \<mapsto> ''x'', ''/out'' \<mapsto> ''old'']) \<noteq> None \<and>
   fst (DecryptFile demo_crypt demo_disk ''/in'' ''/out'' ''short'' [''/in'' \<mapsto> ''x'', ''/out'' \<mapsto> ''old'']) ''/out'' = Some ''old''"
proof -
  let ?f = "[''/in'' \<mapsto> ''x'', ''/out'' \<mapsto> ''old'']"
  obtain f' r where d: "DecryptFile demo_crypt demo_disk ''/in'' ''/out'' ''short'' ?f = (f', r)" by fastforce
  have "\<forall>k n c p. cr_open demo_crypt k n c = Some p \<longrightarrow> c = cr_seal demo_crypt k n p"
    by (auto simp: demo_crypt_def) (metis append_take_drop_id)
  note * = decryption_installs_only_authentic [OF d this]
  have "clean ''/in'' = ''/in''" by code_simp
  then have "r \<noteq> None" using d by (auto simp: DecryptFile_def readBounded_def maxEncryptedBytes_def DecryptBytes_def)
  then show ?thesis using * d by simp
qed

definition large_text :: string where "large_text = replicate 100663297 CHR ''x''"

lemma large_text_parts: "large_text \<noteq> []" "int (length large_text) = 100663297"
  by (simp_all add: large_text_def)

lemma large_archive_cannot_be_decrypted_witness:
  "\<exists>f1 env. EncryptFile demo_crypt demo_disk ''/in'' ''/out'' demo_key [''/in'' \<mapsto> large_text] = (f1, Inr env) \<and>
    DecryptFile demo_crypt demo_disk ''/out'' ''/back'' demo_key f1 = (f1, Some InputSize)"
proof -
  have "int (length large_text) \<le> maxEncryptedBytes" by (simp add: large_text_parts maxEncryptedBytes_def)
  note e = demo_encrypts [OF large_text_parts(1) this]
  have c: "clean ''/out'' = ''/out''" "clean ''/in'' = ''/in''" by code_simp+
  have "\<forall>k n q. length q \<le> length (cr_seal demo_crypt k n q)" by (simp add: demo_crypt_def)
  from large_archive_cannot_be_decrypted [OF e _ _ this _ c(1)] e c(2) show ?thesis
    by (auto simp: large_text_parts demo_crypt_def demo_envelope_def)
qed

definition demo_url :: web_url where
  "demo_url = \<lparr>wu_scheme = ''https'', wu_host = ''h'', wu_hostname = ''h'', wu_path = ''/p''\<rparr>"

definition demo_reply :: web_reply where
  "demo_reply = \<lparr>wp_status = 200, wp_body = ''body'', wp_broken = False, wp_digest = []\<rparr>"

definition demo_io :: io_env where
  "demo_io = \<lparr>io_mkdir = True, io_write = True, io_rename = True\<rparr>"

lemma fetch_installs_only_verified_witness:
  "fst (Fetch (\<lambda>s. s) (\<lambda>_. Some demo_url) (\<lambda>_. Some demo_reply) demo_io ''u'' [] ''00'' ''/o'' False [''/o'' \<mapsto> ''old'']) = [''/o'' \<mapsto> ''old'']"
proof -
  let ?F = "Fetch (\<lambda>s. s) (\<lambda>_. Some demo_url) (\<lambda>_. Some demo_reply) demo_io ''u'' [] ''00'' ''/o'' False [''/o'' \<mapsto> ''old'']"
  obtain f' r where f: "?F = (f', r)" by fastforce
  have "\<not> Option.is_none (snd ?F)" by code_simp
  then show ?thesis using fetch_installs_only_verified [OF f] f by (auto simp: Option.is_none_def)
qed

definition demo_client :: Client where
  "demo_client = \<lparr>oc_endpoint = ''u'', oc_bearer = [], oc_attempts = 0\<rparr>"

text \<open>A server that fails twice before it answers.\<close>

definition demo_server :: "web_request \<Rightarrow> nat \<Rightarrow> web_reply option" where
  "demo_server rq k = (if k = 0 then None else if k = 1 then Some (demo_reply\<lparr>wp_status := 503\<rparr>) else Some demo_reply)"

lemma demo_restores: "snd (GetFile (\<lambda>s. s) (\<lambda>_. Some demo_url) demo_server demo_io demo_client ''k'' ''/o'' [] Map.empty) = None"
  by code_simp

lemma restore_installs_only_verified_witness:
  "fst (GetFile (\<lambda>s. s) (\<lambda>_. Some demo_url) demo_server demo_io demo_client ''k'' ''/o'' [] Map.empty) ''/o'' \<noteq> None"
proof -
  obtain f' where "GetFile (\<lambda>s. s) (\<lambda>_. Some demo_url) demo_server demo_io demo_client ''k'' ''/o'' [] Map.empty = (f', None)"
    using demo_restores by (metis prod.collapse)
  from restore_installs_only_verified [OF this] this show ?thesis by auto
qed

lemma stored_object_restores_witness:
  "GetFile (\<lambda>s. s) (\<lambda>_. Some demo_url) (\<lambda>_ _. Some demo_reply) demo_io demo_client ''k'' ''/o'' [] Map.empty = ([''/o'' \<mapsto> ''body''], None)"
proof -
  have p: "\<exists>m. object_Put (\<lambda>s. s) (\<lambda>_. Some demo_url) (\<lambda>_ _. Some demo_reply) demo_client ''k'' ''body'' = (m, None)"
  proof -
    have "snd (object_Put (\<lambda>s. s) (\<lambda>_. Some demo_url) (\<lambda>_ _. Some demo_reply) demo_client ''k'' ''body'') = None" by code_simp
    then show ?thesis by (metis prod.collapse)
  qed
  have b: "\<not> blank ''/o''" "is_ok (object_request (\<lambda>s. s) (\<lambda>_. Some demo_url) demo_client ''PUT'' ''k'' (Some ''body''))" by code_simp+
  then obtain put where "object_request (\<lambda>s. s) (\<lambda>_. Some demo_url) demo_client ''PUT'' ''k'' (Some ''body'') = Inr put"
    by (auto simp: is_ok_iff)
  moreover have "trim_space [] = []" by (simp add: trim_space_def trim_left_def trim_right_def)
  ultimately show ?thesis
    using stored_object_restores [of "\<lambda>s. s" "\<lambda>_. Some demo_url" "\<lambda>_ _. Some demo_reply" demo_client "''k''" "''body''" _ "''/o''" put "[]" demo_io Map.empty] p b(1)
    by (auto simp: demo_reply_def accepted_status_def demo_io_def)
qed

end
