(* ===== verification/Review_Patch.thy ===== *)
theory Review_Patch
  imports History Acceptance
begin

text \<open>
  Patches for a review (\<open>export/bundle.go\<close>, \<open>export/patch.go\<close>, \<open>export/gitpatch.go\<close>) and the adapter that applies
  a reviewed candidate to a Git branch (\<open>branch/adapter.go\<close>).  Git is an environment that answers
  commands; each function returns the commands it ran with its result.
\<close>

definition nl :: char where "nl = CHR 0x0A"

subsection \<open>The export bundle\<close>

record ExportBundle =
  xb_version :: int
  xb_run :: string
  xb_created :: int
  xb_before :: Manifest
  xb_after :: Manifest
  xb_changes :: "Change list"

datatype export_error =
    ExportRunId | ExportPath | ExportMkdir | ExportWrite | ExportRename | RootsRequired | NotRegularFile string
  | UnsafePatchPath string | PatchRead string | PatchBinary string | GitDiffFailed

definition export_Build :: "string \<Rightarrow> Manifest \<Rightarrow> Manifest \<Rightarrow> int \<Rightarrow> export_error + ExportBundle" where
  "export_Build runID before after now =
     (if runID = [] then Inl ExportRunId
      else Inr \<lparr>xb_version = 1, xb_run = runID, xb_created = now, xb_before = before, xb_after = after,
             xb_changes = Compare before after\<rparr>)"

text \<open>Writing goes through a temporary file that is renamed or removed, so only the file at the path can change.\<close>

definition write_whole :: "io_env \<Rightarrow> path \<Rightarrow> string \<Rightarrow> (path \<Rightarrow> string option) \<Rightarrow> (path \<Rightarrow> string option) \<times> export_error option" where
  "write_whole io p d f =
     (if \<not> io_mkdir io then (f, Some ExportMkdir)
      else if \<not> io_write io then (f, Some ExportWrite)
      else if \<not> io_rename io then (f, Some ExportRename)
      else (f(p \<mapsto> d), None))"

definition export_Write ::
  "(ExportBundle \<Rightarrow> string) \<Rightarrow> io_env \<Rightarrow> path \<Rightarrow> path \<Rightarrow> ExportBundle \<Rightarrow> (path \<Rightarrow> string option) \<Rightarrow> (path \<Rightarrow> string option) \<times> export_error option" where
  "export_Write encode io cwd p b f =
     (if p = [] then (f, Some ExportPath) else write_whole io (abs_path cwd p) (encode b @ [nl]) f)"

definition WritePatch ::
  "io_env \<Rightarrow> path \<Rightarrow> path \<Rightarrow> string \<Rightarrow> (path \<Rightarrow> string option) \<Rightarrow> (path \<Rightarrow> string option) \<times> export_error option" where
  "WritePatch io cwd p pt f =
     (if blank p then (f, Some ExportPath) else write_whole io (abs_path cwd p) pt f)"

subsection \<open>The unified patch\<close>

text \<open>What \<open>os.Stat\<close> and \<open>os.ReadFile\<close> find at a path.\<close>

datatype source_file = SAbsent | SIrregular | SUnreadable | SBytes string

definition safePatchPath :: "string \<Rightarrow> bool" where
  "safePatchPath p = (let c = clean p in c \<noteq> ''.'' \<and> c \<noteq> [] \<and> c \<noteq> ''..'' \<and> \<not> prefix ''../'' c \<and> \<not> prefix ''/'' c)"

definition readTextFile :: "(path \<Rightarrow> source_file) \<Rightarrow> path \<Rightarrow> string \<Rightarrow> export_error + string" where
  "readTextFile src root relative =
     (case src (path_join root relative) of
        SAbsent \<Rightarrow> Inl (PatchRead relative)
      | SIrregular \<Rightarrow> Inl (NotRegularFile relative)
      | SUnreadable \<Rightarrow> Inl (PatchRead relative)
      | SBytes v \<Rightarrow> if CHR 0x00 \<in> set v then Inl (PatchBinary relative) else Inr v)"

definition patchLines :: "string \<Rightarrow> string list" where
  "patchLines v = (if v = [] then [] else split_on nl (trim_suffix [nl] v))"

definition lineStart :: "nat \<Rightarrow> nat" where
  "lineStart n = (if n = 0 then 0 else 1)"

definition patch_header :: "Change \<Rightarrow> nat \<Rightarrow> nat \<Rightarrow> string list" where
  "patch_header c m n =
     (let p = ch_path c;
          from_name = (if ch_kind c = Created then ''/dev/null'' else ''a/'' @ p);
          to_name = (if ch_kind c = Deleted then ''/dev/null'' else ''b/'' @ p) in
      [''diff --git a/'' @ p @ '' b/'' @ p, ''--- '' @ from_name, ''+++ '' @ to_name,
       ''@@ -'' @ show_nat (lineStart m) @ '','' @ show_nat m @ '' +'' @ show_nat (lineStart n) @ '','' @ show_nat n @ '' @@''])"

definition writeFilePatch :: "Change \<Rightarrow> string \<Rightarrow> string \<Rightarrow> string" where
  "writeFilePatch c before after =
     (let old = patchLines before; new = patchLines after in
      concat (map (\<lambda>l. l @ [nl]) (patch_header c (length old) (length new) @ map ((#) CHR ''-'') old @ map ((#) CHR ''+'') new)))"

definition change_patch :: "(path \<Rightarrow> source_file) \<Rightarrow> path \<Rightarrow> path \<Rightarrow> Change \<Rightarrow> export_error + string" where
  "change_patch src beforeRoot afterRoot c =
     (if (case ch_before c of None \<Rightarrow> False | Some e \<Rightarrow> e_type e \<noteq> ''file'') \<or> (case ch_after c of None \<Rightarrow> False | Some e \<Rightarrow> e_type e \<noteq> ''file'')
      then Inl (NotRegularFile (ch_path c))
      else if \<not> safePatchPath (ch_path c) then Inl (UnsafePatchPath (ch_path c))
      else and_then (if ch_kind c \<noteq> Created then readTextFile src beforeRoot (ch_path c) else Inr []) (\<lambda>before.
           and_then (if ch_kind c \<noteq> Deleted then readTextFile src afterRoot (ch_path c) else Inr []) (\<lambda>after.
           Inr (writeFilePatch c before after))))"

fun change_patches :: "(path \<Rightarrow> source_file) \<Rightarrow> path \<Rightarrow> path \<Rightarrow> Change list \<Rightarrow> export_error + string" where
  "change_patches src b a [] = Inr []"
| "change_patches src b a (c # cs) =
     and_then (change_patch src b a c) (\<lambda>p. and_then (change_patches src b a cs) (\<lambda>ps. Inr (p @ ps)))"

definition UnifiedPatch :: "(path \<Rightarrow> source_file) \<Rightarrow> ExportBundle \<Rightarrow> path \<Rightarrow> path \<Rightarrow> export_error + string" where
  "UnifiedPatch src b beforeRoot afterRoot =
     (if blank beforeRoot \<or> blank afterRoot then Inl RootsRequired
      else change_patches src beforeRoot afterRoot (xb_changes b))"

subsection \<open>Git's own patch\<close>

function replace_all :: "string \<Rightarrow> string \<Rightarrow> string \<Rightarrow> string" where
  "replace_all old new s =
     (case s of
        [] \<Rightarrow> []
      | c # cs \<Rightarrow> if old \<noteq> [] \<and> prefix old s then new @ replace_all old new (drop (length old) s) else c # replace_all old new cs)"
  by pat_completeness auto
termination
  by (relation "measure (\<lambda>(old, new, s). length s)") (auto simp: neq_Nil_conv)

declare replace_all.simps [simp del]

definition rewrite_line :: "string \<Rightarrow> string" where
  "rewrite_line line =
     (if \<not> prefix ''diff --git '' line then line
      else (case str_fields line of
        [d, g, x, y] \<Rightarrow>
          (let x1 = (if prefix ''b/'' x \<and> prefix ''b/'' y then ''a/'' @ trim_prefix ''b/'' x else x);
               y1 = (if prefix ''a/'' x1 \<and> prefix ''a/'' y then ''b/'' @ trim_prefix ''a/'' y else y) in
           join_with '' '' [d, g, x1, y1])
      | _ \<Rightarrow> line))"

definition rewriteGitRoots :: "string \<Rightarrow> path \<Rightarrow> path \<Rightarrow> string" where
  "rewriteGitRoots pt before after =
     (let b = trim_prefix ''/'' before; a = trim_prefix ''/'' after;
          p1 = replace_all (''a/'' @ b @ ''/'') ''a/'' pt;
          p2 = replace_all (''b/'' @ b @ ''/'') ''a/'' p1;
          p3 = replace_all (''a/'' @ a @ ''/'') ''b/'' p2;
          p4 = replace_all (''b/'' @ a @ ''/'') ''b/'' p3 in
      join_with [nl] (map rewrite_line (split_on nl p4)))"

definition HasChanges :: "string \<Rightarrow> bool" where
  "HasChanges pt = (\<not> blank pt)"

datatype git_command =
    GTop | GBranch | GStatus | GDiff path path | GCheck string | GApply string | GAdd | GCommit string | GHead

datatype lstat = LAbsent | LError | LDir | LOther

record git_env =
  ge_top :: "string option"
  ge_real :: "path \<Rightarrow> path option"
  ge_branch :: "string option"
  ge_status :: "string option"
  ge_diff :: "path \<Rightarrow> path \<Rightarrow> string option"
  ge_lstat :: "path \<Rightarrow> lstat"
  ge_check :: "string \<Rightarrow> bool"
  ge_apply :: "string \<Rightarrow> bool"
  ge_add :: bool
  ge_commit :: "string \<Rightarrow> bool"
  ge_head :: "string option"

definition GitPatch :: "git_env \<Rightarrow> path \<Rightarrow> path \<Rightarrow> path \<Rightarrow> export_error + string" where
  "GitPatch ge cwd beforeRoot afterRoot =
     (let before = abs_path cwd beforeRoot; after = abs_path cwd afterRoot in
      case ge_diff ge before after of None \<Rightarrow> Inl GitDiffFailed | Some out \<Rightarrow> Inr (rewriteGitRoots out before after))"

definition safe_git_path :: "path \<Rightarrow> bool" where
  "safe_git_path p = (p \<noteq> ''.'' \<and> p \<noteq> ''..'' \<and> \<not> prefix ''../'' p \<and> \<not> is_abs p)"

definition patch_one :: "git_env \<Rightarrow> path \<Rightarrow> path \<Rightarrow> path \<Rightarrow> git_command list \<times> (export_error + string)" where
  "patch_one ge beforeRoot afterRoot relative =
     (let b = path_join beforeRoot relative; a = path_join afterRoot relative; lb = ge_lstat ge b; la = ge_lstat ge a in
      if lb = LError \<or> la = LError then ([], Inl (PatchRead relative))
      else if lb = LAbsent \<and> la = LAbsent \<or> lb = LDir \<or> la = LDir then ([], Inr [])
      else (let x = (if lb = LAbsent then ''/dev/null'' else b); y = (if la = LAbsent then ''/dev/null'' else a) in
        ([GDiff x y],
         case ge_diff ge x y of
           None \<Rightarrow> Inl GitDiffFailed
         | Some out \<Rightarrow>
             (let p = rewriteGitRoots out beforeRoot afterRoot in
              Inr (if blank p then [] else if suffix [nl] p then p else p @ [nl])))))"

fun patch_paths :: "git_env \<Rightarrow> path \<Rightarrow> path \<Rightarrow> path list \<Rightarrow> git_command list \<times> (export_error + string)" where
  "patch_paths ge b a [] = ([], Inr [])"
| "patch_paths ge b a (p # ps) =
     (case patch_one ge b a p of
        (gs, Inl e) \<Rightarrow> (gs, Inl e)
      | (gs, Inr t) \<Rightarrow>
          (case patch_paths ge b a ps of
             (hs, Inl e) \<Rightarrow> (gs @ hs, Inl e)
           | (hs, Inr ts) \<Rightarrow> (gs @ hs, Inr (t @ ts))))"

definition GitPatchPaths :: "git_env \<Rightarrow> path \<Rightarrow> path \<Rightarrow> path list \<Rightarrow> git_command list \<times> (export_error + string)" where
  "GitPatchPaths ge beforeRoot afterRoot paths =
     (case find (\<lambda>p. \<not> safe_git_path p) (map clean paths) of
        Some p \<Rightarrow> ([], Inl (UnsafePatchPath p))
      | None \<Rightarrow> patch_paths ge beforeRoot afterRoot (sort (remdups (map clean paths))))"

subsection \<open>The branch adapter\<close>

record BranchReport =
  br_repo :: path
  br_branch :: string
  br_changes :: "Change list"
  br_applied :: bool
  br_commit :: string

datatype branch_error =
    GitRepository | NotGitRoot | GitBranchUnread | WrongBranch string string | GitStatusUnread | DirtyWorktree
  | CandidateConflicts "string list" | GitMetadata string | CandidatePatch export_error | PatchPreflight | PatchApply
  | CommitMessage | GitStage | GitCommitFailed | GitHeadUnread

definition no_report :: BranchReport where
  "no_report = \<lparr>br_repo = [], br_branch = [], br_changes = [], br_applied = False, br_commit = []\<rparr>"

definition is_git_root :: "git_env \<Rightarrow> path \<Rightarrow> string \<Rightarrow> bool" where
  "is_git_root ge repoRoot resolved =
     (ge_real ge repoRoot \<noteq> None \<and> ge_real ge (clean (trim_space resolved)) \<noteq> None \<and>
      ge_real ge repoRoot = ge_real ge (clean (trim_space resolved)))"

definition git_metadata :: "string \<Rightarrow> bool" where
  "git_metadata p = (p = ''.git'' \<or> prefix ''.git/'' p)"

definition commit_applied ::
  "git_env \<Rightarrow> string \<Rightarrow> BranchReport \<Rightarrow> git_command list \<times> BranchReport \<times> branch_error option" where
  "commit_applied ge message rep =
     (if blank message then ([], rep, Some CommitMessage)
      else if \<not> ge_add ge then ([GAdd], rep, Some GitStage)
      else if \<not> ge_commit ge message then ([GAdd, GCommit message], rep, Some GitCommitFailed)
      else (case ge_head ge of
        None \<Rightarrow> ([GAdd, GCommit message, GHead], rep, Some GitHeadUnread)
      | Some h \<Rightarrow> ([GAdd, GCommit message, GHead], rep\<lparr>br_commit := trim_space h\<rparr>, None)))"

definition apply_patch ::
  "git_env \<Rightarrow> string \<Rightarrow> bool \<Rightarrow> string \<Rightarrow> BranchReport \<Rightarrow> git_command list \<times> BranchReport \<times> branch_error option" where
  "apply_patch ge message commit pt rep =
     (if \<not> HasChanges pt then ([], rep, None)
      else if \<not> ge_check ge pt then ([GCheck pt], no_report, Some PatchPreflight)
      else if \<not> ge_apply ge pt then ([GCheck pt, GApply pt], no_report, Some PatchApply)
      else (let rep' = rep\<lparr>br_applied := True\<rparr> in
        if \<not> commit then ([GCheck pt, GApply pt], rep', None)
        else (let (gs, r) = commit_applied ge message rep' in ([GCheck pt, GApply pt] @ gs, r))))"

definition branch_Apply ::
  "git_env \<Rightarrow> path \<Rightarrow> Manifest \<Rightarrow> Manifest \<Rightarrow> Manifest \<Rightarrow> path \<Rightarrow> path \<Rightarrow> string \<Rightarrow> string \<Rightarrow> bool \<Rightarrow>
   git_command list \<times> BranchReport \<times> branch_error option" where
  "branch_Apply ge cwd base destination candidate candidateRoot repo branchName message commit =
     (let repoRoot = abs_path cwd repo in
      case ge_top ge of None \<Rightarrow> ([GTop], no_report, Some GitRepository)
      | Some resolved \<Rightarrow>
        if \<not> is_git_root ge repoRoot resolved then ([GTop], no_report, Some NotGitRoot)
        else (case ge_branch ge of None \<Rightarrow> ([GTop, GBranch], no_report, Some GitBranchUnread)
        | Some out \<Rightarrow>
          (let current = trim_space out in
           if current = [] \<or> current \<noteq> branchName then ([GTop, GBranch], no_report, Some (WrongBranch branchName current))
           else (case ge_status ge of None \<Rightarrow> ([GTop, GBranch, GStatus], no_report, Some GitStatusUnread)
           | Some status \<Rightarrow>
             if \<not> blank status then ([GTop, GBranch, GStatus], no_report, Some DirtyWorktree)
             else (let report = Check base destination candidate;
                       rep = \<lparr>br_repo = repoRoot, br_branch = branchName, br_changes = rep_changes report, br_applied = False, br_commit = []\<rparr>;
                       paths = map ch_path (rep_changes report) in
               if \<not> can_apply report then ([GTop, GBranch, GStatus], rep, Some (CandidateConflicts (rep_conflicts report)))
               else (case find git_metadata paths of
                 Some p \<Rightarrow> ([GTop, GBranch, GStatus], no_report, Some (GitMetadata p))
               | None \<Rightarrow>
                 (case GitPatchPaths ge repoRoot candidateRoot paths of
                   (ds, Inl e) \<Rightarrow> ([GTop, GBranch, GStatus] @ ds, no_report, Some (CandidatePatch e))
                 | (ds, Inr pt) \<Rightarrow>
                   (let (gs, r) = apply_patch ge message commit pt rep in ([GTop, GBranch, GStatus] @ ds @ gs, r)))))))))"

subsection \<open>What a unified patch carries\<close>

text \<open>Reading the patch of one file: the lines it takes out and those it puts in.\<close>

definition read_file_patch :: "string \<Rightarrow> string list \<times> string list" where
  "read_file_patch p =
     (let body = drop 4 (split_on nl p) in
      (map tl (takeWhile (prefix ''-'') body), map tl (takeWhile (prefix ''+'') (dropWhile (prefix ''-'') body))))"

lemma split_terminated:
  "\<forall>l \<in> set ls. nl \<notin> set l \<Longrightarrow> split_on nl (concat (map (\<lambda>l. l @ [nl]) ls)) = ls @ [[]]"
  by (induction ls) (simp_all add: split_on_append_sep)

lemma patchLines_no_nl: "l \<in> set (patchLines v) \<Longrightarrow> nl \<notin> set l"
  using split_on_no_sep by (auto simp: patchLines_def split: if_splits)

lemma patchLines_content: "join_with [nl] (patchLines v) = trim_suffix [nl] v"
  by (simp add: patchLines_def trim_suffix_def)

lemma show_nat_no_nl: "nl \<notin> set (show_nat n)"
proof (induction n rule: show_nat.induct)
  case (1 n)
  have d: "char_of (48 + k) \<noteq> nl" if "k < 10" for k :: nat
  proof
    assume "char_of (48 + k) = nl"
    then have "(of_char (char_of (48 + k) :: char) :: nat) = of_char nl" by simp
    then show False using that by (simp add: nl_def)
  qed
  show ?case using "1.IH" d [of n] d [of "n mod 10"] by (auto simp: show_nat.simps [of n])
qed

lemma header_no_nl: "nl \<notin> set (ch_path c) \<Longrightarrow> l \<in> set (patch_header c m n) \<Longrightarrow> nl \<notin> set l"
  using show_nat_no_nl by (auto simp: patch_header_def Let_def nl_def split: if_splits)

lemma length_header [simp]: "length (patch_header c m n) = 4"
  by (simp add: patch_header_def Let_def)

lemma takeWhile_marked:
  "takeWhile (prefix [c]) (map ((#) c) xs @ ys) = map ((#) c) xs @ takeWhile (prefix [c]) ys"
  "dropWhile (prefix [c]) (map ((#) c) xs @ ys) = dropWhile (prefix [c]) ys"
  by (induction xs) auto

lemma read_written_patch:
  assumes "nl \<notin> set (ch_path c)"
  shows "read_file_patch (writeFilePatch c before after) = (patchLines before, patchLines after)"
proof -
  let ?o = "patchLines before" and ?n = "patchLines after"
  have "\<forall>l \<in> set (patch_header c (length ?o) (length ?n) @ map ((#) CHR ''-'') ?o @ map ((#) CHR ''+'') ?n). nl \<notin> set l"
    using header_no_nl [OF assms] patchLines_no_nl by (auto simp: nl_def)
  from split_terminated [OF this] have "drop 4 (split_on nl (writeFilePatch c before after)) = map ((#) CHR ''-'') ?o @ map ((#) CHR ''+'') ?n @ [[]]"
    by (simp add: writeFilePatch_def Let_def)
  moreover have "takeWhile (prefix ''-'') (map ((#) CHR ''+'') xs @ [[]]) = []" "dropWhile (prefix ''-'') (map ((#) CHR ''+'') xs @ [[]]) = map ((#) CHR ''+'') xs @ [[]]" for xs
    by (cases xs; simp)+
  ultimately show ?thesis by (simp add: read_file_patch_def Let_def takeWhile_marked comp_def)
qed

text \<open>The content of a changed file on one side, where the change has one.\<close>

definition side_content :: "(path \<Rightarrow> source_file) \<Rightarrow> path \<Rightarrow> bool \<Rightarrow> Change \<Rightarrow> string \<Rightarrow> bool" where
  "side_content src root present c v = (if present then src (path_join root (ch_path c)) = SBytes v \<and> CHR 0x00 \<notin> set v else v = [])"

lemma readTextFile_Inr: "readTextFile src root p = Inr v \<longleftrightarrow> src (path_join root p) = SBytes v \<and> CHR 0x00 \<notin> set v"
  by (auto simp: readTextFile_def split: source_file.splits if_splits)

definition regular_change :: "Change \<Rightarrow> bool" where
  "regular_change c = ((\<forall>e. ch_before c = Some e \<longrightarrow> e_type e = ''file'') \<and> (\<forall>e. ch_after c = Some e \<longrightarrow> e_type e = ''file''))"

lemma change_patch_Inr:
  assumes "change_patch src b a c = Inr p"
  obtains before after where "p = writeFilePatch c before after" and "regular_change c" and "safePatchPath (ch_path c)"
    and "side_content src b (ch_kind c \<noteq> Created) c before" and "side_content src a (ch_kind c \<noteq> Deleted) c after"
  using assms
  by (auto simp: change_patch_def regular_change_def side_content_def readTextFile_Inr split: if_splits option.splits)

lemma change_patches_Inr:
  assumes "change_patches src b a cs = Inr t"
  shows "\<exists>ps. t = concat ps \<and> list_all2 (\<lambda>c p. change_patch src b a c = Inr p) cs ps"
  using assms
proof (induction cs arbitrary: t)
  case (Cons c cs)
  then obtain p ts where p: "change_patch src b a c = Inr p" "change_patches src b a cs = Inr ts" "t = p @ ts" by auto
  obtain ps where "ts = concat ps" "list_all2 (\<lambda>c p. change_patch src b a c = Inr p) cs ps" using Cons.IH [OF p(2)] by blast
  then show ?case using p by (intro exI [of _ "p # ps"]) simp
qed simp

text \<open>The patch of a change carries the old and the new content up to a newline at the end.\<close>

definition carries :: "(path \<Rightarrow> source_file) \<Rightarrow> path \<Rightarrow> path \<Rightarrow> Change \<Rightarrow> string \<Rightarrow> bool" where
  "carries src beforeRoot afterRoot c p = (\<exists>before after.
     side_content src beforeRoot (ch_kind c \<noteq> Created) c before \<and> side_content src afterRoot (ch_kind c \<noteq> Deleted) c after \<and>
     join_with [nl] (fst (read_file_patch p)) = trim_suffix [nl] before \<and>
     join_with [nl] (snd (read_file_patch p)) = trim_suffix [nl] after)"

lemma change_patch_carries:
  assumes "change_patch src b a c = Inr p" "nl \<notin> set (ch_path c)"
  shows "regular_change c \<and> safePatchPath (ch_path c) \<and> carries src b a c p"
  using assms(1)
proof (rule change_patch_Inr)
  fix before after
  assume p: "p = writeFilePatch c before after" and s: "side_content src b (ch_kind c \<noteq> Created) c before"
    "side_content src a (ch_kind c \<noteq> Deleted) c after" and r: "regular_change c" "safePatchPath (ch_path c)"
  have "read_file_patch p = (patchLines before, patchLines after)" unfolding p by (rule read_written_patch [OF assms(2)])
  then have "carries src b a c p" unfolding carries_def using s by (metis fst_conv snd_conv patchLines_content)
  then show ?thesis using r by blast
qed

text \<open>
  A unified patch covers every change of the bundle, in order, and nothing else: each is a change of a
  regular text file under a safe path, and the patch of it carries the lines of the old and of the new
  content, which determine both up to a newline at the end.
\<close>

theorem unified_patch_carries_content:
  assumes "UnifiedPatch src bundle beforeRoot afterRoot = Inr text" and "\<forall>c \<in> set (xb_changes bundle). nl \<notin> set (ch_path c)"
  shows "\<exists>ps. text = concat ps \<and> list_all2 (\<lambda>c p. regular_change c \<and> safePatchPath (ch_path c) \<and> carries src beforeRoot afterRoot c p)
    (xb_changes bundle) ps"
proof -
  have "change_patches src beforeRoot afterRoot (xb_changes bundle) = Inr text"
    using assms(1) by (simp add: UnifiedPatch_def split: if_splits)
  then obtain ps where ps: "text = concat ps" "list_all2 (\<lambda>c p. change_patch src beforeRoot afterRoot c = Inr p) (xb_changes bundle) ps"
    using change_patches_Inr by blast
  have "list_all2 (\<lambda>c p. nl \<notin> set (ch_path c) \<and> change_patch src beforeRoot afterRoot c = Inr p) (xb_changes bundle) ps"
    using ps(2) assms(2) by (auto simp: list_all2_conv_all_nth)
  then have "list_all2 (\<lambda>c p. regular_change c \<and> safePatchPath (ch_path c) \<and> carries src beforeRoot afterRoot c p) (xb_changes bundle) ps"
    by (rule list_all2_mono) (use change_patch_carries in blast)
  then show ?thesis using ps(1) by blast
qed

text \<open>
  What the patch does not carry: whether the content ends in a newline, and the mode of the file.
\<close>

lemma final_newline_is_lost:
  assumes "v \<noteq> []" "\<not> suffix [nl] v"
  shows "writeFilePatch c before (v @ [nl]) = writeFilePatch c before v"
proof -
  have "patchLines (v @ [nl]) = patchLines v" using assms by (simp add: patchLines_def trim_suffix_def)
  then show ?thesis by (simp add: writeFilePatch_def)
qed

lemma mode_change_is_lost:
  "ch_after c = Some e \<Longrightarrow> change_patch src b a (c\<lparr>ch_after := Some (e\<lparr>e_mode := m\<rparr>)\<rparr>) = change_patch src b a c"
  by (simp add: change_patch_def writeFilePatch_def patch_header_def Let_def)

subsection \<open>The branch changes only after every check\<close>

definition mutating :: "git_command \<Rightarrow> bool" where
  "mutating g = (case g of GApply _ \<Rightarrow> True | GAdd \<Rightarrow> True | GCommit _ \<Rightarrow> True | _ \<Rightarrow> False)"

lemma patch_one_reads: "fst (patch_one ge b a p) = gs \<Longrightarrow> g \<in> set gs \<Longrightarrow> \<not> mutating g"
  by (auto simp: patch_one_def Let_def mutating_def split: if_splits)

lemma patch_paths_reads: "fst (patch_paths ge b a ps) = gs \<Longrightarrow> g \<in> set gs \<Longrightarrow> \<not> mutating g"
proof (induction ps arbitrary: gs)
  case (Cons p ps)
  obtain g1 r1 where 1: "patch_one ge b a p = (g1, r1)" by fastforce
  obtain g2 r2 where 2: "patch_paths ge b a ps = (g2, r2)" by fastforce
  have "gs = g1 \<or> gs = g1 @ g2" using Cons.prems(1) 1 2 by (auto split: sum.splits)
  then show ?case using Cons.IH [of g2] Cons.prems(2) patch_one_reads [of ge b a p g1] 1 2 by auto
qed simp

lemma GitPatchPaths_reads: "GitPatchPaths ge b a ps = (gs, r) \<Longrightarrow> g \<in> set gs \<Longrightarrow> \<not> mutating g"
  using patch_paths_reads [of ge b a "sort (remdups (map clean ps))" gs g] by (auto simp: GitPatchPaths_def split: option.splits)

lemma apply_patch_checked:
  assumes "apply_patch ge message commit pt rep = (gs, rep', r)" "g \<in> set gs" "mutating g"
  shows "HasChanges pt \<and> ge_check ge pt \<and> prefix [GCheck pt, GApply pt] gs"
  using assms by (auto simp: apply_patch_def mutating_def Let_def split: if_splits prod.splits)

lemma branch_Apply_mutating:
  assumes "branch_Apply ge cwd base destination candidate candidateRoot repo branchName message commit = (gs, rep, r)"
    and "g \<in> set gs" "mutating g"
  obtains resolved out status ds pt gs' where "ge_top ge = Some resolved" and "is_git_root ge (abs_path cwd repo) resolved"
    and "ge_branch ge = Some out" and "trim_space out = branchName" and "branchName \<noteq> []" and "ge_status ge = Some status" and "blank status"
    and "can_apply (Check base destination candidate)"
    and "find git_metadata (map ch_path (rep_changes (Check base destination candidate))) = None"
    and "GitPatchPaths ge (abs_path cwd repo) candidateRoot (map ch_path (rep_changes (Check base destination candidate))) = (ds, Inr pt)"
    and "HasChanges pt" and "ge_check ge pt" and "gs = [GTop, GBranch, GStatus] @ ds @ gs'" and "prefix [GCheck pt, GApply pt] gs'"
proof -
  let ?paths = "map ch_path (Compare base candidate)"
  let ?rep = "\<lparr>br_repo = abs_path cwd repo, br_branch = branchName, br_changes = Compare base candidate, br_applied = False, br_commit = []\<rparr>"
  have n: "gs \<noteq> [GTop]" "gs \<noteq> [GTop, GBranch]" "gs \<noteq> [GTop, GBranch, GStatus]"
    using assms(2,3) by (auto simp: mutating_def)
  obtain resolved out status where 1: "ge_top ge = Some resolved" "is_git_root ge (abs_path cwd repo) resolved" "ge_branch ge = Some out"
    "trim_space out = branchName" "branchName \<noteq> []" "ge_status ge = Some status" "blank status"
    "can_apply (Check base destination candidate)" "find git_metadata ?paths = None"
    using assms(1) n by (auto simp: branch_Apply_def Let_def split: option.splits if_splits)
  obtain ds q where d: "GitPatchPaths ge (abs_path cwd repo) candidateRoot ?paths = (ds, q)" by (rule prod.exhaust)
  note eq = assms(1) [unfolded branch_Apply_def Let_def, simplified 1 d, simplified]
  note ds = GitPatchPaths_reads [OF d]
  have start: "g \<notin> set [GTop, GBranch, GStatus]" using assms(3) by (auto simp: mutating_def)
  obtain pt where q: "q = Inr pt"
  proof (cases q)
    case (Inl e)
    then have "gs = [GTop, GBranch, GStatus] @ ds" using eq 1 d by simp
    then show thesis using assms(2,3) ds start by auto
  qed
  obtain gs' rr where a: "apply_patch ge message commit pt ?rep = (gs', rr)" by (rule prod.exhaust)
  have gs: "gs = [GTop, GBranch, GStatus] @ ds @ gs'" using eq 1 a d by (simp add: q)
  then have "g \<in> set gs'" using assms(2,3) ds start by auto
  then have "HasChanges pt \<and> ge_check ge pt \<and> prefix [GCheck pt, GApply pt] gs'"
    using apply_patch_checked [of ge message commit pt ?rep gs'] a assms(3) by (cases rr) auto
  then show thesis using 1 d gs by (intro that [of resolved out status ds pt gs']) (simp_all add: q)
qed

text \<open>
  C15. The repository is changed only after every check passed: the path is the root of the repository, the
  named branch is checked out, the work tree is clean, the candidate merges without a conflict, no
  change is below \<open>.git\<close>, and Git accepted the very patch that is then applied, which was built
  from exactly the changed paths.  All commands before only read.
\<close>

theorem branch_changes_only_after_checks:
  assumes "branch_Apply ge cwd base destination candidate candidateRoot repo branchName message commit = (gs, rep, r)"
    and "g \<in> set gs" and "mutating g"
  shows "\<exists>ds pt gs'. gs = [GTop, GBranch, GStatus] @ ds @ GCheck pt # GApply pt # gs' \<and>
    (\<forall>d \<in> set ds. \<not> mutating d) \<and> ge_check ge pt \<and>
    GitPatchPaths ge (abs_path cwd repo) candidateRoot (map ch_path (rep_changes (Check base destination candidate))) = (ds, Inr pt) \<and>
    can_apply (Check base destination candidate) \<and>
    (\<forall>c \<in> set (rep_changes (Check base destination candidate)). \<not> git_metadata (ch_path c)) \<and>
    (\<exists>top. ge_top ge = Some top \<and> is_git_root ge (abs_path cwd repo) top) \<and>
    ge_branch ge \<noteq> None \<and> trim_space (the (ge_branch ge)) = branchName \<and> branchName \<noteq> [] \<and>
    ge_status ge \<noteq> None \<and> blank (the (ge_status ge))"
proof -
  from assms obtain resolved out status ds pt gs' where *: "ge_branch ge = Some out" "trim_space out = branchName" "branchName \<noteq> []"
    "ge_status ge = Some status" "blank status" "can_apply (Check base destination candidate)"
    "find git_metadata (map ch_path (rep_changes (Check base destination candidate))) = None"
    "GitPatchPaths ge (abs_path cwd repo) candidateRoot (map ch_path (rep_changes (Check base destination candidate))) = (ds, Inr pt)"
    "ge_check ge pt" "gs = [GTop, GBranch, GStatus] @ ds @ gs'" "prefix [GCheck pt, GApply pt] gs'"
    "ge_top ge = Some resolved" "is_git_root ge (abs_path cwd repo) resolved"
    by (rule branch_Apply_mutating)
  obtain tl where "gs' = GCheck pt # GApply pt # tl" using *(11) by (auto simp: prefix_def)
  moreover have "\<forall>d \<in> set ds. \<not> mutating d" using GitPatchPaths_reads [OF *(8)] by blast
  moreover have "\<forall>c \<in> set (rep_changes (Check base destination candidate)). \<not> git_metadata (ch_path c)"
    using *(7) by (auto simp: find_None_iff)
  ultimately show ?thesis using * by auto
qed

text \<open>The message of a commit is checked only when the patch is applied already.\<close>

lemma blank_message_leaves_patch_applied:
  assumes "HasChanges pt" "ge_check ge pt" "ge_apply ge pt" "blank message"
  shows "apply_patch ge message True pt rep = ([GCheck pt, GApply pt], rep\<lparr>br_applied := True\<rparr>, Some CommitMessage)"
  using assms by (simp add: apply_patch_def commit_applied_def Let_def)

subsection \<open>Examples\<close>

definition file_entry :: "string \<Rightarrow> string \<Rightarrow> Entry" where
  "file_entry p h = \<lparr>e_path = p, e_type = ''file'', e_mode = 420, e_size = 1, e_sha = h, e_link = []\<rparr>"

definition demo_change :: Change where
  "demo_change = \<lparr>ch_path = ''x'', ch_kind = Modified, ch_before = Some (file_entry ''x'' ''1''), ch_after = Some (file_entry ''x'' ''2'')\<rparr>"

definition demo_sources :: "path \<Rightarrow> source_file" where
  "demo_sources p = (if p = ''/l/x'' then SBytes ''a'' else if p = ''/m/x'' then SBytes ''b'' else SAbsent)"

definition demo_bundle_of :: "Change list \<Rightarrow> ExportBundle" where
  "demo_bundle_of cs = \<lparr>xb_version = 1, xb_run = ''r'', xb_created = 0, xb_before = \<lparr>m_version = 1, m_entries = []\<rparr>,
     xb_after = \<lparr>m_version = 1, m_entries = []\<rparr>, xb_changes = cs\<rparr>"

lemma unified_patch_carries_content_witness:
  "\<exists>t ps. UnifiedPatch demo_sources (demo_bundle_of [demo_change]) ''/l'' ''/m'' = Inr t \<and> t = concat ps \<and> length ps = 1"
proof -
  let ?U = "UnifiedPatch demo_sources (demo_bundle_of [demo_change]) ''/l'' ''/m''"
  have "is_ok ?U" by code_simp
  then obtain t where u: "?U = Inr t" by (auto simp: is_ok_iff)
  have "\<forall>c \<in> set (xb_changes (demo_bundle_of [demo_change])). nl \<notin> set (ch_path c)"
    by (simp add: demo_bundle_of_def demo_change_def nl_def)
  then obtain ps where "t = concat ps" "length (xb_changes (demo_bundle_of [demo_change])) = length ps"
    using unified_patch_carries_content [OF u] by (auto dest: list_all2_lengthD)
  then show ?thesis using u by (intro exI [of _ t] exI [of _ ps]) (simp add: demo_bundle_of_def)
qed

definition demo_git :: git_env where
  "demo_git = \<lparr>ge_top = Some ''/repo'', ge_real = Some, ge_branch = Some ''main'', ge_status = Some [],
     ge_diff = (\<lambda>_ _. Some ''diff''), ge_lstat = (\<lambda>_. LOther), ge_check = (\<lambda>_. True), ge_apply = (\<lambda>_. True),
     ge_add = True, ge_commit = (\<lambda>_. True), ge_head = Some ''c1''\<rparr>"

definition tree_of :: "string \<Rightarrow> Manifest" where
  "tree_of h = \<lparr>m_version = 1, m_entries = [file_entry ''x'' h]\<rparr>"

lemma branch_changes_only_after_checks_witness:
  "\<exists>ds pt gs'. fst (branch_Apply demo_git ''/'' (tree_of ''1'') (tree_of ''1'') (tree_of ''2'') ''/m'' ''/repo'' ''main'' ''msg'' True) =
    [GTop, GBranch, GStatus] @ ds @ GCheck pt # GApply pt # gs' \<and> can_apply (Check (tree_of ''1'') (tree_of ''1'') (tree_of ''2''))"
proof -
  let ?B = "branch_Apply demo_git ''/'' (tree_of ''1'') (tree_of ''1'') (tree_of ''2'') ''/m'' ''/repo'' ''main'' ''msg'' True"
  obtain gs rep r where b: "?B = (gs, rep, r)" by (cases ?B) auto
  have "GAdd \<in> set (fst ?B)" by code_simp
  then have "GAdd \<in> set gs" by (simp add: b)
  moreover have "mutating GAdd" by (simp add: mutating_def)
  ultimately show ?thesis using branch_changes_only_after_checks [OF b] b by fastforce
qed

end
