(* ===== verification/Policy_Learn.thy ===== *)
theory Policy_Learn
  imports Evidence "HOL-Library.Product_Lexorder" "HOL-Library.Multiset"
begin

text \<open>
  Policy suggestions (\<open>policylearn/learn.go\<close>): \<open>Learn\<close> counts the files that were read according to an event
  log and leaves out what looks like a secret, a virtual file or a broad directory; \<open>Render\<close> prints the
  rest as a policy in audit mode, \<open>WriteSuggestion\<close> writes it to a new file.  The JSON decoder and
  the YAML printer are arguments.  A table is an association list.
\<close>

record Candidate =
  cd_path :: string
  cd_count :: nat
  cd_ops :: "string list"

record LearnReport =
  lr_candidates :: "Candidate list"
  lr_skipped :: "(string \<times> nat) list"
  lr_reads :: nat

record observedEvent =
  oe_op :: string
  oe_path :: string

datatype learn_error = NilStream | LearnDecode nat | LearnRead | OutputExists | OutputCheck | OutputWrite

definition DefaultMaxPaths :: int where "DefaultMaxPaths = 128"

definition learn_token :: int where "learn_token = 1048576"

subsection \<open>Which paths may be learned\<close>

definition secret_suffixes :: "string list" where
  "secret_suffixes = [''.env'', ''.pem'', ''.key'', ''.p12'', ''.pfx'', ''.crt'', ''.secret'', ''.token'']"

definition secretLike :: "string \<Rightarrow> bool" where
  "secretLike value =
     (let lower = to_lower value in
      lower \<in> set [''.ssh'', ''credentials'', ''credential'', ''secrets'', ''secret''] \<or>
      (\<exists>s \<in> set secret_suffixes. lower = s \<or> suffix s lower) \<or>
      prefix ''id_rsa'' lower \<or> prefix ''id_ed25519'' lower)"

definition virtual_roots :: "string list" where
  "virtual_roots = [''/proc'', ''/sys'', ''/dev'', ''/run'']"

definition normalize :: "string \<Rightarrow> string + string" where
  "normalize raw =
     (let v = trim_space (replace_char CHR 0x5C sep raw) in
      if v = [] then Inl ''empty_path''
      else (let value = clean v in
        if value = ''.'' \<or> value = ''/'' then Inl ''broad_path''
        else (let parts = split_on sep (trim_prefix ''/'' value) in
          if length parts < 2 then Inl ''broad_path''
          else if (\<exists>r \<in> set virtual_roots. to_lower value = r \<or> prefix (r @ ''/'') (to_lower value)) then Inl ''virtual_path''
          else if (\<exists>part \<in> set parts. secretLike part) then Inl ''secret_like''
          else Inr value)))"

subsection \<open>Counting\<close>

definition bump :: "string \<Rightarrow> nat \<Rightarrow> (string \<times> nat) list \<Rightarrow> (string \<times> nat) list" where
  "bump k n m = (case map_of m k of None \<Rightarrow> m @ [(k, n)] | Some _ \<Rightarrow> map (\<lambda>(k', c). (k', if k' = k then c + n else c)) m)"

definition count_op :: "string \<Rightarrow> Candidate \<Rightarrow> Candidate" where
  "count_op op c = c\<lparr>cd_count := cd_count c + 1, cd_ops := (if op \<in> set (cd_ops c) then cd_ops c else sort (cd_ops c @ [op]))\<rparr>"

definition count_read :: "string \<Rightarrow> string \<Rightarrow> Candidate list \<Rightarrow> Candidate list" where
  "count_read op p cs =
     (if find (\<lambda>c. cd_path c = p) cs = None then cs @ [count_op op \<lparr>cd_path = p, cd_count = 0, cd_ops = []\<rparr>]
      else map (\<lambda>c. if cd_path c = p then count_op op c else c) cs)"

definition learn_event :: "observedEvent \<Rightarrow> LearnReport \<Rightarrow> LearnReport" where
  "learn_event e r =
     (if oe_op e \<noteq> ''openat'' \<and> oe_op e \<noteq> ''read'' then r
      else (case normalize (oe_path e) of
        Inl reason \<Rightarrow> r\<lparr>lr_reads := lr_reads r + 1, lr_skipped := bump reason 1 (lr_skipped r)\<rparr>
      | Inr p \<Rightarrow> r\<lparr>lr_reads := lr_reads r + 1, lr_candidates := count_read (oe_op e) p (lr_candidates r)\<rparr>))"

fun learn_lines :: "(string \<Rightarrow> observedEvent option) \<Rightarrow> bool \<Rightarrow> nat \<Rightarrow> LearnReport \<Rightarrow> string list \<Rightarrow> learn_error + LearnReport" where
  "learn_lines decode broken n r [] = (if broken then Inl LearnRead else Inr r)"
| "learn_lines decode broken n r (l # ls) =
     (if int (length (if last l = newline then butlast l else l)) \<ge> learn_token then Inl LearnRead
      else (case decode (scanned_line l) of
              None \<Rightarrow> Inl (LearnDecode (n + 1))
            | Some e \<Rightarrow> learn_lines decode broken (n + 1) (learn_event e r) ls))"

definition rank :: "Candidate \<Rightarrow> int \<times> string" where
  "rank c = (- int (cd_count c), cd_path c)"

definition ranked :: "int \<Rightarrow> LearnReport \<Rightarrow> LearnReport" where
  "ranked maxPaths r =
     (let all = sort_key rank (lr_candidates r); k = nat maxPaths in
      if k < length all
      then r\<lparr>lr_candidates := take k all, lr_skipped := bump ''path_limit'' (length all - k) (lr_skipped r)\<rparr>
      else r\<lparr>lr_candidates := all\<rparr>)"

definition Learn :: "(string \<Rightarrow> observedEvent option) \<Rightarrow> (string \<times> bool) option \<Rightarrow> int \<Rightarrow> learn_error + LearnReport" where
  "Learn decode stream maxPaths =
     (case stream of
        None \<Rightarrow> Inl NilStream
      | Some (s, broken) \<Rightarrow>
          (let limit = (if maxPaths \<le> 0 then DefaultMaxPaths else maxPaths) in
           and_then (learn_lines decode broken 0 \<lparr>lr_candidates = [], lr_skipped = [], lr_reads = 0\<rparr> (raw_lines s))
             (\<lambda>r. Inr (ranked limit r))))"

subsection \<open>The suggestion\<close>

record suggestedPolicy =
  sp_read_mode :: string
  sp_read_allow :: "string list"
  sp_write_mode :: string
  sp_write_scope :: string
  sp_network_mode :: string

definition suggested :: "LearnReport \<Rightarrow> suggestedPolicy" where
  "suggested r = \<lparr>sp_read_mode = ''audit'', sp_read_allow = map cd_path (lr_candidates r), sp_write_mode = ''rollback'',
     sp_write_scope = ''workspace'', sp_network_mode = ''audit''\<rparr>"

definition skipped_line :: "(string \<times> nat) list \<Rightarrow> string" where
  "skipped_line m =
     (if m = [] then []
      else ''# Skipped observations: '' @
        join_with '', '' (map (\<lambda>k. k @ ''='' @ show_nat (the (map_of m k))) (sort (map fst m))) @ [newline])"

definition Render_suggestion :: "(suggestedPolicy \<Rightarrow> string option) \<Rightarrow> LearnReport \<Rightarrow> string option" where
  "Render_suggestion yaml r =
     (case yaml (suggested r) of
        None \<Rightarrow> None
      | Some body \<Rightarrow>
          Some (''# RewindBPF policy learn suggestion. Review every path before use.'' @ [newline] @
                ''# This file defaults to audit; switch read.mode to enforce intentionally.'' @ [newline] @
                body @ skipped_line (lr_skipped r)))"

text \<open>Standard output and the files; a path that cannot be examined is one of \<open>denied\<close>.\<close>

record sinks =
  sk_out :: string
  sk_files :: "path \<Rightarrow> string option"

definition WriteSuggestion :: "(path \<Rightarrow> bool) \<Rightarrow> (path \<Rightarrow> bool) \<Rightarrow> path \<Rightarrow> string \<Rightarrow> sinks \<Rightarrow> sinks \<times> learn_error option" where
  "WriteSuggestion denied unwritable p d sk =
     (if p = ''-'' then (if unwritable p then (sk, Some OutputWrite) else (sk\<lparr>sk_out := sk_out sk @ d\<rparr>, None))
      else if denied p then (sk, Some OutputCheck)
      else if sk_files sk p \<noteq> None then (sk, Some OutputExists)
      else if unwritable p then (sk, Some OutputWrite)
      else (sk\<lparr>sk_files := (sk_files sk)(p \<mapsto> d)\<rparr>, None))"

subsection \<open>What is learned\<close>

text \<open>A path that may be suggested: clean, below a directory, not virtual, and no part of it looks like a secret.\<close>

definition suggestible :: "string \<Rightarrow> bool" where
  "suggestible p \<longleftrightarrow> clean p = p \<and> 2 \<le> length (split_on sep (trim_prefix ''/'' p)) \<and>
     (\<forall>part \<in> set (split_on sep (trim_prefix ''/'' p)). \<not> secretLike part) \<and>
     (\<forall>r \<in> set virtual_roots. to_lower p \<noteq> r \<and> \<not> prefix (r @ ''/'') (to_lower p))"

lemma normalize_Inr: "normalize raw = Inr p \<Longrightarrow> suggestible p"
  by (auto simp: normalize_def suggestible_def Let_def split: if_splits)

lemma normalize_Inl: "normalize raw = Inl reason \<Longrightarrow> reason \<noteq> ''path_limit''"
  by (auto simp: normalize_def Let_def split: if_splits)

definition read_ops :: "string list" where "read_ops = [''openat'', ''read'']"

definition is_read :: "observedEvent \<Rightarrow> bool" where "is_read e \<longleftrightarrow> oe_op e \<in> set read_ops"

definition counted :: "Candidate \<Rightarrow> bool" where
  "counted c \<longleftrightarrow> suggestible (cd_path c) \<and> 0 < cd_count c \<and> cd_ops c \<noteq> [] \<and> set (cd_ops c) \<subseteq> set read_ops \<and>
     distinct (cd_ops c) \<and> sorted (cd_ops c)"

definition tally :: "LearnReport \<Rightarrow> bool" where
  "tally r \<longleftrightarrow> distinct (map cd_path (lr_candidates r)) \<and> (\<forall>c \<in> set (lr_candidates r). counted c) \<and>
     distinct (map fst (lr_skipped r)) \<and> ''path_limit'' \<notin> fst ` set (lr_skipped r) \<and>
     sum_list (map cd_count (lr_candidates r)) + sum_list (map snd (lr_skipped r)) = lr_reads r"

lemma map_of_key: "map_of m k = Some c \<Longrightarrow> k \<in> fst ` set m"
  by (metis domI dom_map_of_conv_image_fst)

lemma sort_Nil_iff: "sort xs = [] \<longleftrightarrow> xs = []"
  by (metis length_0_conv length_sort)

lemma bump_keys: "fst ` set (bump k n m) = insert k (fst ` set m)"
  by (force simp: bump_def map_of_eq_None_iff split: option.split dest: map_of_SomeD)

lemma map_fst_bump: "map fst (bump k n m) = (if k \<in> fst ` set m then map fst m else map fst m @ [k])"
  by (auto simp: bump_def map_of_eq_None_iff comp_def split: option.split prod.split dest: map_of_key)

lemma sum_bump: "distinct (map fst m) \<Longrightarrow> sum_list (map snd (bump k n m)) = sum_list (map snd m) + n"
proof (cases "map_of m k")
  case (Some c)
  assume "distinct (map fst m)"
  then have "sum_list (map snd (map (\<lambda>(k', c). (k', if k' = k then c + n else c)) m)) = sum_list (map snd m) + (if k \<in> fst ` set m then n else 0)"
    by (induction m) (auto simp: image_iff)
  moreover have "k \<in> fst ` set m" using Some by (rule map_of_key)
  ultimately show ?thesis using Some by (simp add: bump_def)
qed (simp add: bump_def)

lemma count_op_simps [simp]: "cd_path (count_op op c) = cd_path c" "cd_count (count_op op c) = cd_count c + 1"
  by (simp_all add: count_op_def)

lemma find_path_None: "find (\<lambda>c. cd_path c = p) cs = None \<longleftrightarrow> p \<notin> cd_path ` set cs"
  by (auto simp: find_None_iff)

lemma map_path_count_read:
  "map cd_path (count_read op p cs) = (if p \<in> cd_path ` set cs then map cd_path cs else map cd_path cs @ [p])"
  by (auto simp: count_read_def find_path_None)

lemma sum_count_read: "distinct (map cd_path cs) \<Longrightarrow> sum_list (map cd_count (count_read op p cs)) = sum_list (map cd_count cs) + 1"
proof (cases "p \<in> cd_path ` set cs")
  case True
  assume "distinct (map cd_path cs)"
  then have "sum_list (map cd_count (map (\<lambda>c. if cd_path c = p then count_op op c else c) cs)) =
      sum_list (map cd_count cs) + (if p \<in> cd_path ` set cs then 1 else 0)"
    by (induction cs) (auto simp: image_iff)
  then show ?thesis using True by (simp add: count_read_def find_path_None)
qed (simp add: count_read_def find_path_None)

lemma counted_count_op: "counted c \<Longrightarrow> op \<in> set read_ops \<Longrightarrow> counted (count_op op c)"
  by (auto simp: counted_def count_op_def sort_Nil_iff)

lemma counted_count_read:
  assumes "\<forall>c \<in> set cs. counted c" "suggestible p" "op \<in> set read_ops"
  shows "\<forall>c \<in> set (count_read op p cs). counted c"
proof -
  have "counted (count_op op \<lparr>cd_path = p, cd_count = 0, cd_ops = []\<rparr>)"
    using assms(2,3) by (simp add: counted_def count_op_def)
  then show ?thesis using assms counted_count_op by (auto simp: count_read_def)
qed

lemma tally_event: "tally r \<Longrightarrow> tally (learn_event e r)"
proof (cases "is_read e")
  case True
  assume t: "tally r"
  have op: "oe_op e \<in> set read_ops" using True by (simp add: is_read_def)
  show ?thesis
  proof (cases "normalize (oe_path e)")
    case (Inl reason)
    have "learn_event e r = r\<lparr>lr_reads := lr_reads r + 1, lr_skipped := bump reason 1 (lr_skipped r)\<rparr>"
      using op Inl by (auto simp: learn_event_def read_ops_def)
    then show ?thesis
      using t sum_bump [of "lr_skipped r" reason 1] normalize_Inl [OF Inl] by (auto simp: tally_def map_fst_bump bump_keys)
  next
    case (Inr p)
    have "learn_event e r = r\<lparr>lr_reads := lr_reads r + 1, lr_candidates := count_read (oe_op e) p (lr_candidates r)\<rparr>"
      using op Inr by (auto simp: learn_event_def read_ops_def)
    then show ?thesis
      using t counted_count_read [OF _ normalize_Inr [OF Inr] op] sum_count_read [of "lr_candidates r" "oe_op e" p]
      by (auto simp: tally_def map_path_count_read)
  qed
qed (simp add: learn_event_def is_read_def read_ops_def)

lemma reads_event: "lr_reads (learn_event e r) = lr_reads r + (if is_read e then 1 else 0)"
  by (auto simp: learn_event_def is_read_def read_ops_def split: sum.split)

lemma learn_lines_Inr:
  assumes "learn_lines decode broken n r ls = Inr r'"
  shows "\<exists>es. map (decode \<circ> scanned_line) ls = map Some es \<and> (tally r \<longrightarrow> tally r') \<and>
    lr_reads r' = lr_reads r + length (filter is_read es)"
  using assms
proof (induction ls arbitrary: n r)
  case (Cons l ls)
  then obtain e where e: "decode (scanned_line l) = Some e" and l: "learn_lines decode broken (n + 1) (learn_event e r) ls = Inr r'"
    by (auto split: if_splits option.splits)
  obtain es where "map (decode \<circ> scanned_line) ls = map Some es" "tally (learn_event e r) \<longrightarrow> tally r'"
    "lr_reads r' = lr_reads (learn_event e r) + length (filter is_read es)"
    using Cons.IH [OF l] by blast
  then show ?case using e tally_event [of r e] by (intro exI [of _ "e # es"]) (simp add: reads_event comp_def)
qed (auto split: if_splits)

definition limit_of :: "int \<Rightarrow> nat" where
  "limit_of maxPaths = nat (if maxPaths \<le> 0 then DefaultMaxPaths else maxPaths)"

lemma ranked_cases:
  "ranked m r = r\<lparr>lr_candidates := take (nat m) (sort_key rank (lr_candidates r)),
     lr_skipped := (if nat m < length (lr_candidates r) then bump ''path_limit'' (length (lr_candidates r) - nat m) (lr_skipped r) else lr_skipped r)\<rparr>"
  by (simp add: ranked_def Let_def)

lemma Learn_Inr:
  assumes "Learn decode stream maxPaths = Inr rep"
  obtains s broken r where "stream = Some (s, broken)" and "rep = ranked (int (limit_of maxPaths)) r"
    and "learn_lines decode broken 0 \<lparr>lr_candidates = [], lr_skipped = [], lr_reads = 0\<rparr> (raw_lines s) = Inr r"
  using assms by (auto simp: Learn_def limit_of_def DefaultMaxPaths_def Let_def split: option.splits if_splits)

lemma tally_empty: "tally \<lparr>lr_candidates = [], lr_skipped = [], lr_reads = 0\<rparr>"
  by (simp add: tally_def)


text \<open>
  Every read is accounted for: each line of the log decodes, and the number of reads is the number of
  opens and reads among them, which is the sum of the counts of all paths found, of which the
  suggestion is the head, and of the reads skipped for a reason; the paths over the limit are
  counted, and none of them was read more often than one that is kept.
\<close>

theorem learning_accounts_for_every_read:
  assumes "Learn decode (Some (s, broken)) maxPaths = Inr rep"
  shows "\<exists>all es skipped. lr_candidates rep = take (limit_of maxPaths) all \<and> map (decode \<circ> scanned_line) (raw_lines s) = map Some es \<and>
    lr_reads rep = length (filter is_read es) \<and> lr_reads rep = sum_list (map cd_count all) + sum_list (map snd skipped) \<and>
    lr_skipped rep = (if limit_of maxPaths < length all then bump ''path_limit'' (length all - limit_of maxPaths) skipped else skipped) \<and>
    ''path_limit'' \<notin> fst ` set skipped \<and>
    (\<forall>c \<in> set (drop (limit_of maxPaths) all). \<forall>k \<in> set (lr_candidates rep). cd_count c \<le> cd_count k)"
proof -
  obtain r where rep: "rep = ranked (int (limit_of maxPaths)) r"
    and l: "learn_lines decode broken 0 \<lparr>lr_candidates = [], lr_skipped = [], lr_reads = 0\<rparr> (raw_lines s) = Inr r"
    using assms by (rule Learn_Inr) simp
  let ?all = "sort_key rank (lr_candidates r)" and ?k = "limit_of maxPaths"
  obtain es where es: "map (decode \<circ> scanned_line) (raw_lines s) = map Some es" and t: "tally r"
    and reads: "lr_reads r = length (filter is_read es)"
    using learn_lines_Inr [OF l] tally_empty by auto
  have "sum_list (map cd_count ?all) = sum_list (map cd_count (lr_candidates r))"
    by (metis mset_map mset_sort sum_mset_sum_list)
  then have "lr_reads r = sum_list (map cd_count ?all) + sum_list (map snd (lr_skipped r))" using t by (simp add: tally_def)
  moreover have "cd_count c \<le> cd_count k" if "c \<in> set (drop ?k ?all)" "k \<in> set (take ?k ?all)" for c k
  proof -
    have "sorted (map rank (take ?k ?all) @ map rank (drop ?k ?all))"
      unfolding map_append [symmetric] append_take_drop_id by simp
    then have "rank k \<le> rank c" using that unfolding sorted_append by auto
    then show ?thesis by (auto simp: rank_def less_eq_prod_def)
  qed
  ultimately show ?thesis
    using es t reads unfolding rep ranked_cases
    by (intro exI [of _ ?all] exI [of _ es] exI [of _ "lr_skipped r"]) (simp add: tally_def)
qed

definition read_log :: "string list \<Rightarrow> string \<Rightarrow> observedEvent option" where
  "read_log ps l = (let i = length l in if i < length ps then Some \<lparr>oe_op = ''openat'', oe_path = ps ! i\<rparr> else None)"


lemma learning_accounts_for_every_read_witness:
  "\<exists>rep. Learn (read_log [''src/a.go'', ''src/b.go'']) (Some (newline # ''x'', False)) 1 = Inr rep \<and> lr_reads rep = 2 \<and>
    (\<exists>all. lr_candidates rep = take (limit_of 1) all)"
proof -
  let ?L = "Learn (read_log [''src/a.go'', ''src/b.go'']) (Some (newline # ''x'', False)) 1"
  have "(case ?L of Inl _ \<Rightarrow> False | Inr rep \<Rightarrow> lr_reads rep = 2)" by code_simp
  then obtain rep where "?L = Inr rep" "lr_reads rep = 2" by (cases ?L) auto
  then show ?thesis using learning_accounts_for_every_read by blast
qed

text \<open>
  The limits of the filter: a file whose name has pattern characters is suggested as it is, and the
  policy then allows everything the pattern matches; and names like \<open>.env.local\<close> do not look like a secret.
\<close>

theorem learned_name_is_pattern:
  "(case Learn (read_log [''src/**'']) (Some ([newline], False)) 0 of Inl _ \<Rightarrow> False | Inr rep \<Rightarrow> sp_read_allow (suggested rep) = [''src/**'']) \<and>
    Match ''src/**'' ''src/.env'' \<and> secretLike ''.env'' \<and> suggestible ''app/.env.local''"
  by code_simp

end
