(* ===== verification/Release.thy ===== *)
theory Release
  imports Policy_Bundle Go_Path "HOL-Library.Word"
begin

text \<open>
  Detached signatures (\<open>release/signature.go\<close>) and the check of a native helper before it may be used
  (\<open>platform/helper_manifest.go\<close>).  Ed25519 and SHA-256 are those of \<open>Policy_Bundle\<close>, JSON is an argument.
\<close>

subsection \<open>Detached signatures\<close>

record Signature =
  rs_version :: int
  rs_key :: string
  rs_public :: string
  rs_digest :: string
  rs_signature :: string

datatype release_error =
    ReleaseKeyLength | ReleasePublicKey | ReleaseVersion int | ReleaseKeyDecode | ReleaseKeyMismatch | ReleaseChecksum
  | ReleaseSignatureDecode | ReleaseSignatureFailed | ReleaseUntrusted

definition SignatureVersion :: int where "SignatureVersion = 1"

definition release_Sign :: "crypto \<Rightarrow> string \<Rightarrow> string \<Rightarrow> release_error + Signature" where
  "release_Sign cy payload private =
     (if length private \<noteq> PrivateKeySize then Inl ReleaseKeyLength
      else (let public = cy_public cy private in
        if length public \<noteq> PublicKeySize then Inl ReleasePublicKey
        else Inr \<lparr>rs_version = SignatureVersion, rs_key = keyID cy public, rs_public = b64_encode public,
               rs_digest = hex_encode (cy_sha cy payload), rs_signature = b64_encode (cy_sign cy private payload)\<rparr>))"

definition release_Verify :: "crypto \<Rightarrow> string \<Rightarrow> Signature \<Rightarrow> string list \<Rightarrow> release_error option" where
  "release_Verify cy payload sg trusted =
     (if rs_version sg \<noteq> SignatureVersion then Some (ReleaseVersion (rs_version sg))
      else (case decodeKey (rs_public sg) PublicKeySize of
        None \<Rightarrow> Some ReleaseKeyDecode
      | Some public \<Rightarrow>
          if rs_key sg \<noteq> keyID cy public then Some ReleaseKeyMismatch
          else if length (rs_digest sg) \<noteq> 64 \<or> rs_digest sg \<noteq> hex_encode (cy_sha cy payload) then Some ReleaseChecksum
          else (case decodeKey (rs_signature sg) SignatureSize of
            None \<Rightarrow> Some ReleaseSignatureDecode
          | Some signature \<Rightarrow>
              if \<not> cy_verify cy public payload signature then Some ReleaseSignatureFailed
              else if trusted \<noteq> [] \<and> \<not> list_ex (\<lambda>k. length k = PublicKeySize \<and> k = public) trusted then Some ReleaseUntrusted
              else None)))"

fun verify_each :: "crypto \<Rightarrow> string \<Rightarrow> Signature \<Rightarrow> release_error option \<Rightarrow> string list \<Rightarrow> release_error option" where
  "verify_each cy payload sg prev [] = (case prev of None \<Rightarrow> Some ReleaseUntrusted | Some e \<Rightarrow> Some e)"
| "verify_each cy payload sg prev (k # ks) =
     (case release_Verify cy payload sg [k] of None \<Rightarrow> None | Some e \<Rightarrow> verify_each cy payload sg (Some e) ks)"

definition VerifyAny :: "crypto \<Rightarrow> string \<Rightarrow> Signature \<Rightarrow> string list \<Rightarrow> release_error option" where
  "VerifyAny cy payload sg trusted =
     (if trusted = [] then release_Verify cy payload sg [] else verify_each cy payload sg None trusted)"

lemma release_Verify_None:
  "release_Verify cy payload sg trusted = None \<longleftrightarrow>
     (rs_version sg = SignatureVersion \<and> rs_digest sg = hex_encode (cy_sha cy payload) \<and> length (cy_sha cy payload) = 32 \<and>
      (\<exists>public signature. b64_decode (rs_public sg) = Some public \<and> length public = PublicKeySize \<and> rs_key sg = keyID cy public \<and>
         b64_decode (rs_signature sg) = Some signature \<and> length signature = SignatureSize \<and> cy_verify cy public payload signature \<and>
         (trusted = [] \<or> public \<in> set trusted)))"
  by (cases "decodeKey (rs_public sg) PublicKeySize"; cases "decodeKey (rs_signature sg) SignatureSize")
    (auto simp: release_Verify_def decodeKey_Some decodeKey_def list_ex_iff split: option.splits if_splits)

text \<open>What \<open>Sign\<close> makes, \<open>Verify\<close> accepts, without pinned keys or with the key of the signer among them.\<close>

theorem release_signature_verifies:
  assumes "signs cy private" and "release_Sign cy payload private = Inr sg" and "length (cy_sha cy payload) = 32"
    and "trusted = [] \<or> cy_public cy private \<in> set trusted"
  shows "release_Verify cy payload sg trusted = None"
  using assms by (auto simp: release_Verify_None release_Sign_def signs_def Let_def split: if_splits)

lemma verify_each_None: "verify_each cy payload sg prev ks = None \<longleftrightarrow> (\<exists>k \<in> set ks. release_Verify cy payload sg [k] = None)"
  by (induction ks arbitrary: prev) (auto split: option.splits)

text \<open>
  Trying the keys of a rotating trust set one by one accepts exactly what one check against the whole set
  accepts: a signature of the payload under a key of the set, or under any key when the set is empty.
\<close>

theorem rotating_trust_set_agrees:
  "(VerifyAny cy payload sg trusted = None) = (release_Verify cy payload sg trusted = None)"
  by (auto simp: VerifyAny_def verify_each_None release_Verify_None)

subsection \<open>The native helper\<close>

record HelperManifest =
  hm_version :: int
  hm_platform :: string
  hm_name :: string
  hm_helper :: path
  hm_sha :: string
  hm_signature :: path

datatype helper_reason =
    TargetsOther string | HelperUnavailable | HelperDirectory | HelperNotExecutable | HelperUnreadable | HelperChecksum
  | SignatureMissing | SignatureUnreadable | SignatureUndecodable | SignatureRefused release_error | GateFailed

record HelperVerification =
  hv_manifest :: HelperManifest
  hv_platform :: bool
  hv_checksum :: bool
  hv_signature :: bool
  hv_verified :: bool
  hv_reasons :: "helper_reason list"

datatype helper_error =
    ManifestUnreadable | ManifestUndecodable | ManifestVersion int | ManifestPlatform | ManifestName | ManifestHelper

text \<open>The execute bits of a mode are octal 111, which is 73.  The host: its system, its working directory, its files with their permissions, and the JSON decoders.\<close>

record helper_file =
  hf_dir :: bool
  hf_perm :: "32 word"
  hf_bytes :: "string option"

record helper_host =
  hh_goos :: string
  hh_cwd :: path
  hh_files :: "path \<Rightarrow> helper_file option"
  hh_manifest :: "string \<Rightarrow> HelperManifest option"
  hh_signature :: "string \<Rightarrow> Signature option"

definition read_bytes :: "helper_host \<Rightarrow> path \<Rightarrow> string option" where
  "read_bytes hh p = (case hh_files hh p of None \<Rightarrow> None | Some h \<Rightarrow> if hf_dir h then None else hf_bytes h)"

definition path_dir :: "path \<Rightarrow> path" where
  "path_dir p = clean (rev (dropWhile (\<lambda>c. c \<noteq> sep) (rev p)))"

definition read_manifest :: "helper_host \<Rightarrow> path \<Rightarrow> helper_error + HelperManifest" where
  "read_manifest hh manifestAbs =
     (case read_bytes hh manifestAbs of
        None \<Rightarrow> Inl ManifestUnreadable
      | Some d \<Rightarrow>
          (case hh_manifest hh d of
             None \<Rightarrow> Inl ManifestUndecodable
           | Some m0 \<Rightarrow>
               if hm_version m0 \<noteq> 1 then Inl (ManifestVersion (hm_version m0))
               else (let m = m0\<lparr>hm_platform := to_lower (trim_space (hm_platform m0)), hm_name := trim_space (hm_name m0)\<rparr> in
                 if hm_platform m \<noteq> ''darwin'' \<and> hm_platform m \<noteq> ''windows'' then Inl ManifestPlatform
                 else if hm_name m = [] then Inl ManifestName
                 else if blank (hm_helper m) then Inl ManifestHelper
                 else Inr (m\<lparr>hm_helper := clean (abs_path (hh_cwd hh) (hm_helper m))\<rparr>))))"

text \<open>The signature: whether it is valid, and the reason when it is not.\<close>

definition check_signature :: "crypto \<Rightarrow> helper_host \<Rightarrow> path \<Rightarrow> string \<Rightarrow> HelperManifest \<Rightarrow> string list \<Rightarrow> bool \<times> helper_reason list" where
  "check_signature cy hh manifestAbs helperBytes m trusted =
     (if blank (hm_signature m) then (trusted = [], if trusted \<noteq> [] then [SignatureMissing] else [])
      else (let p0 = hm_signature m; p = abs_path (hh_cwd hh) (if is_abs p0 then p0 else path_join (path_dir manifestAbs) p0) in
        case read_bytes hh (clean p) of
          None \<Rightarrow> (False, [SignatureUnreadable])
        | Some d \<Rightarrow>
            (case hh_signature hh d of
               None \<Rightarrow> (False, [SignatureUndecodable])
             | Some sg \<Rightarrow>
                 (case release_Verify cy helperBytes sg trusted of
                    Some e \<Rightarrow> (False, [SignatureRefused e])
                  | None \<Rightarrow> (True, [])))))"

definition VerifyNativeHelper :: "crypto \<Rightarrow> helper_host \<Rightarrow> string \<Rightarrow> string list \<Rightarrow> helper_error + HelperVerification" where
  "VerifyNativeHelper cy hh manifestPath trusted =
     (let manifestAbs = abs_path (hh_cwd hh) (trim_space manifestPath) in
      and_then (read_manifest hh manifestAbs) (\<lambda>m.
        let v = \<lparr>hv_manifest = m, hv_platform = (hm_platform m = hh_goos hh), hv_checksum = False, hv_signature = False,
                 hv_verified = False, hv_reasons = []\<rparr>;
            stop = (\<lambda>r. Inr (v\<lparr>hv_reasons := [r]\<rparr>)) in
        if \<not> hv_platform v then stop (TargetsOther (hm_platform m))
        else (case hh_files hh (hm_helper m) of
          None \<Rightarrow> stop HelperUnavailable
        | Some info \<Rightarrow>
            if hf_dir info then stop HelperDirectory
            else if hh_goos hh \<noteq> ''windows'' \<and> and (hf_perm info) 73 = 0 then stop HelperNotExecutable
            else (case hf_bytes info of
              None \<Rightarrow> stop HelperUnreadable
            | Some helperBytes \<Rightarrow>
                (let expected = to_lower (trim_space (hm_sha m));
                     ck = (expected \<noteq> [] \<and> expected = hex_encode (cy_sha cy helperBytes));
                     (sg, why) = check_signature cy hh manifestAbs helperBytes m trusted;
                     reasons = (if ck then [] else [HelperChecksum]) @ why;
                     ok = (ck \<and> sg) in
                 Inr (v\<lparr>hv_checksum := ck, hv_signature := sg, hv_verified := ok,
                        hv_reasons := (if \<not> ok \<and> reasons = [] then [GateFailed] else reasons)\<rparr>))))))"

text \<open>
  C24. A helper that passes the gate is for this system, its bytes have the digest the manifest names, they are
  executable, and when keys are pinned the bytes are signed under one of them; a helper that does not
  pass is returned with a reason.
\<close>

theorem verified_helper_is_trusted:
  assumes "VerifyNativeHelper cy hh manifestPath trusted = Inr v"
  shows "(hv_verified v \<longrightarrow> hm_platform (hv_manifest v) = hh_goos hh \<and>
      (\<exists>info d. hh_files hh (hm_helper (hv_manifest v)) = Some info \<and> \<not> hf_dir info \<and> hf_bytes info = Some d \<and>
        hex_encode (cy_sha cy d) = to_lower (trim_space (hm_sha (hv_manifest v))) \<and>
        (hh_goos hh \<noteq> ''windows'' \<longrightarrow> and (hf_perm info) 73 \<noteq> 0) \<and>
        (trusted \<noteq> [] \<or> \<not> blank (hm_signature (hv_manifest v)) \<longrightarrow> (\<exists>sg. release_Verify cy d sg trusted = None)))) \<and>
    (\<not> hv_verified v \<longrightarrow> hv_reasons v \<noteq> [])"
proof -
  have sig: "\<exists>sg. release_Verify cy d sg trusted = None"
    if "check_signature cy hh p d m trusted = (True, why)" "trusted \<noteq> [] \<or> \<not> blank (hm_signature m)" for p d m why
    using that by (auto simp: check_signature_def Let_def split: if_splits option.splits)
  show ?thesis
    using assms sig
    by (auto simp: VerifyNativeHelper_def Let_def and_then_Inr split: if_splits option.splits prod.splits)
qed

subsection \<open>Examples\<close>

lemma release_signature_verifies_witness:
  "\<exists>sg. release_Sign demo_crypto (replicate 32 CHR ''x'') demo_key = Inr sg \<and>
    release_Verify demo_crypto (replicate 32 CHR ''x'') sg [cy_public demo_crypto demo_key] = None"
proof -
  let ?p = "replicate 32 CHR ''x''"
  have "\<exists>sg. release_Sign demo_crypto ?p demo_key = Inr sg"
    using demo_signs by (simp add: release_Sign_def signs_def Let_def demo_key_def PrivateKeySize_def)
  then obtain sg where s: "release_Sign demo_crypto ?p demo_key = Inr sg" by blast
  have "length (cy_sha demo_crypto ?p) = 32" by (simp add: demo_crypto_def)
  from release_signature_verifies [OF demo_signs s this] s show ?thesis by auto
qed

definition demo_helper :: HelperManifest where
  "demo_helper = \<lparr>hm_version = 1, hm_platform = ''darwin'', hm_name = ''h'', hm_helper = ''/h'', hm_sha = ''61'', hm_signature = []\<rparr>"

definition demo_host :: helper_host where
  "demo_host = \<lparr>hh_goos = ''darwin'', hh_cwd = ''/'',
     hh_files = (\<lambda>p. if p = ''/m'' then Some \<lparr>hf_dir = False, hf_perm = 420, hf_bytes = Some ''m''\<rparr>
                     else if p = ''/h'' then Some \<lparr>hf_dir = False, hf_perm = 493, hf_bytes = Some ''a''\<rparr> else None),
     hh_manifest = (\<lambda>_. Some demo_helper), hh_signature = (\<lambda>_. None)\<rparr>"

lemma verified_helper_is_trusted_witness:
  "\<exists>v. VerifyNativeHelper demo_crypto demo_host ''/m'' [] = Inr v \<and> hv_verified v \<and> hm_platform (hv_manifest v) = ''darwin''"
proof -
  let ?V = "VerifyNativeHelper demo_crypto demo_host ''/m'' []"
  have "(case ?V of Inl _ \<Rightarrow> False | Inr v \<Rightarrow> hv_verified v)" by code_simp
  then obtain v where "?V = Inr v" "hv_verified v" by (cases ?V) auto
  then show ?thesis using verified_helper_is_trusted [of demo_crypto demo_host "''/m''" "[]" v] by (simp add: demo_host_def)
qed

end
