(* ===== verification/Session_Drivers.thy ===== *)
theory Session_Drivers
  imports Sessions Evidence_Transfer
begin

text \<open>
  The other stores of session leases: the table of an SQLite database (\<open>session/sqlite.go\<close>) and the
  client of a remote supervisor (\<open>session/remote.go\<close>).  The table is the list of its rows; the SQL
  statements of the source are written out as operations on it, and which of them fail is an argument.
\<close>

subsection \<open>The SQLite store\<close>

datatype sql_error = Protocol session_error | SqlBegin | SqlDelete | SqlSelect | SqlWrite | SqlCommit

record sql_env =
  sq_begin :: bool
  sq_delete :: bool
  sq_select :: bool
  sq_write :: bool
  sq_commit :: bool
  sq_clock :: int
  sq_random :: "string option"

text \<open>\<open>DELETE ... WHERE expires_at <= now\<close>, \<open>DELETE ... WHERE run_id = run\<close>, \<open>UPDATE ... WHERE run_id = run\<close>.\<close>

definition delete_expired :: "int \<Rightarrow> Lease list \<Rightarrow> Lease list" where
  "delete_expired now rows = filter (\<lambda>l. \<not> ls_expires l \<le> now) rows"

definition delete_run :: "string \<Rightarrow> Lease list \<Rightarrow> Lease list" where
  "delete_run run rows = filter (\<lambda>l. ls_run l \<noteq> run) rows"

definition update_run :: "string \<Rightarrow> (Lease \<Rightarrow> Lease) \<Rightarrow> Lease list \<Rightarrow> Lease list" where
  "update_run run f rows = map (\<lambda>l. if ls_run l = run then f l else l) rows"

definition select_run :: "string \<Rightarrow> Lease list \<Rightarrow> Lease option" where
  "select_run run rows = find (\<lambda>l. ls_run l = run) rows"

text \<open>Writing and committing: a failure rolls the transaction back, and the table is as before.\<close>

definition commit :: "sql_env \<Rightarrow> Lease list \<Rightarrow> Lease list \<Rightarrow> Lease \<Rightarrow> Lease list \<times> (sql_error + Lease)" where
  "commit sq tbl rows l =
     (if \<not> sq_write sq then (tbl, Inl SqlWrite) else if \<not> sq_commit sq then (tbl, Inl SqlCommit) else (rows, Inr l))"

definition sql_id :: "sql_env \<Rightarrow> sql_error + string" where
  "sql_id sq = (case sq_random sq of None \<Rightarrow> Inl (Protocol SessionRandom) | Some b \<Rightarrow> Inr (hex_encode b))"

definition sql_action :: "sql_env \<Rightarrow> Lease list \<Rightarrow> SessionRequest \<Rightarrow> int \<Rightarrow> int \<Rightarrow> Lease list \<Rightarrow> Lease list \<times> (sql_error + Lease)" where
  "sql_action sq tbl r now ttl live =
     (let current = select_run (sr_run r) live;
          foreign = (case current of None \<Rightarrow> True | Some l \<Rightarrow> ls_owner l \<noteq> sr_owner r) in
      if sr_action r = ''acquire'' \<and> current \<noteq> None \<and> foreign
      then (tbl, Inl (Protocol (OwnedBy (ls_owner (the current)) (ls_expires (the current)))))
      else if sr_action r = ''heartbeat'' \<and> foreign then (tbl, Inl (Protocol HeartbeatRefused))
      else if sr_action r = ''release'' \<and> foreign then (tbl, Inl (Protocol ReleaseRefused))
      else if sr_action r \<notin> {''acquire'', ''heartbeat'', ''takeover'', ''release''} then (tbl, Inl (Protocol (BadAction (sr_action r))))
      else if sr_action r = ''release'' then commit sq tbl (delete_run (sr_run r) live) (the current)
      else if sr_action r = ''acquire'' \<and> current \<noteq> None
      then commit sq tbl (update_run (sr_run r) (renew now ttl) live) (renew now ttl (the current))
      else (case sql_id sq of
        Inl e \<Rightarrow> (tbl, Inl e)
      | Inr i \<Rightarrow>
          (let l = fresh_lease r i now ttl in
           commit sq tbl (if current \<noteq> None then update_run (sr_run r) (\<lambda>_. l) live else live @ [l]) l)))"

definition sql_Apply :: "sql_env \<Rightarrow> Lease list \<Rightarrow> SessionRequest \<Rightarrow> int option \<Rightarrow> Lease list \<times> (sql_error + Lease)" where
  "sql_Apply sq tbl r when =
     (let now = (case when of None \<Rightarrow> sq_clock sq | Some t \<Rightarrow> t); ttl = ttl_of (sr_ttl r) in
      if blank (sr_run r) \<or> blank (sr_owner r) then (tbl, Inl (Protocol SessionFields))
      else if ttl > max_ttl then (tbl, Inl (Protocol TtlTooLong))
      else if \<not> sq_begin sq then (tbl, Inl SqlBegin)
      else if \<not> sq_delete sq then (tbl, Inl SqlDelete)
      else if \<not> sq_select sq then (tbl, Inl SqlSelect)
      else sql_action sq tbl r now ttl (delete_expired now tbl))"

definition sql_List :: "sql_env \<Rightarrow> Lease list \<Rightarrow> Lease list \<times> (sql_error + Lease list)" where
  "sql_List sq tbl =
     (if \<not> sq_delete sq then (tbl, Inl SqlDelete)
      else (let rows = delete_expired (sq_clock sq) tbl in
        (rows, if \<not> sq_select sq then Inl SqlSelect else Inr (sort_key ls_created rows))))"

subsection \<open>The remote store\<close>

record RemoteStore =
  rm_endpoint :: string
  rm_bearer :: string
  rm_attempts :: int

datatype remote_error = EndpointRequired | EndpointInsecure | RemoteFailed transfer_error | RemoteDecode

definition remote_endpoint :: "RemoteStore \<Rightarrow> string" where
  "remote_endpoint s = rev (dropWhile (\<lambda>c. c = CHR ''/'') (rev (trim_space (rm_endpoint s))))"

definition remote_attempts :: "RemoteStore \<Rightarrow> nat" where
  "remote_attempts s = nat (if rm_attempts s < 1 then 3 else if rm_attempts s > 6 then 6 else rm_attempts s)"

record remote_request =
  rq_method :: string
  rq_url :: string
  rq_json :: bool
  rq_bearer :: string
  rq_body :: string

definition session_request :: "RemoteStore \<Rightarrow> string \<Rightarrow> string option \<Rightarrow> remote_request" where
  "session_request s verb value =
     \<lparr>rq_method = verb, rq_url = remote_endpoint s @ ''/v1/sessions'', rq_json = (value \<noteq> None), rq_bearer = rm_bearer s,
      rq_body = (case value of None \<Rightarrow> [] | Some d \<Rightarrow> d)\<rparr>"

text \<open>\<open>do\<close>: the number of requests sent, and what was decoded.\<close>

definition remote_do ::
  "(remote_request \<Rightarrow> nat \<Rightarrow> web_reply option) \<Rightarrow> (string \<Rightarrow> 'a option) \<Rightarrow> RemoteStore \<Rightarrow> string \<Rightarrow> string option \<Rightarrow> nat \<times> (remote_error + 'a)"
where
  "remote_do send decode s verb value =
     (let e = remote_endpoint s in
      if e = [] then (0, Inl EndpointRequired)
      else if \<not> prefix ''https://'' e \<and> \<not> prefix ''http://127.0.0.1'' e \<and> \<not> prefix ''http://localhost'' e then (0, Inl EndpointInsecure)
      else (let (n, r) = attempt_from (send (session_request s verb value)) (remote_attempts s) 0 in
        (n, if succeeded r
            then (case decode (wp_body (the r)) of None \<Rightarrow> Inl RemoteDecode | Some v \<Rightarrow> Inr v)
            else Inl (RemoteFailed (case r of None \<Rightarrow> SendFailed | Some p \<Rightarrow> BadStatus (wp_status p) [])))))"

definition remote_Apply ::
  "(remote_request \<Rightarrow> nat \<Rightarrow> web_reply option) \<Rightarrow> (SessionRequest \<Rightarrow> string) \<Rightarrow> (string \<Rightarrow> Lease option) \<Rightarrow> RemoteStore \<Rightarrow>
   SessionRequest \<Rightarrow> nat \<times> (remote_error + Lease)" where
  "remote_Apply send encode decode s r = remote_do send decode s ''POST'' (Some (encode r))"

definition remote_List ::
  "(remote_request \<Rightarrow> nat \<Rightarrow> web_reply option) \<Rightarrow> (string \<Rightarrow> Lease list option) \<Rightarrow> RemoteStore \<Rightarrow> nat \<times> (remote_error + Lease list)" where
  "remote_List send decode s = remote_do send decode s ''GET'' None"

subsection \<open>The table agrees with the file\<close>

definition faultless :: "sql_env \<Rightarrow> bool" where
  "faultless sq \<longleftrightarrow> sq_begin sq \<and> sq_delete sq \<and> sq_select sq \<and> sq_write sq \<and> sq_commit sq"

lemma delete_expired_live: "delete_expired now rows = filter (\<lambda>l. now < ls_expires l) rows"
  by (simp add: delete_expired_def not_le)

lemma select_index:
  "select_run run rows = map_option ((!) rows) (index_where (\<lambda>l. ls_run l = run) rows)"
proof (cases "index_where (\<lambda>l. ls_run l = run) rows")
  case None
  then have "select_run run rows = None" by (simp add: select_run_def find_None_iff index_where_None)
  then show ?thesis using None by simp
next
  case (Some i)
  then show ?thesis using index_where_Some [OF Some] by (auto simp: select_run_def find_Some_iff)
qed

lemma update_index:
  assumes "distinct (map ls_run rows)" "index_where (\<lambda>l. ls_run l = run) rows = Some i"
  shows "update_run run f rows = rows[i := f (rows ! i)]"
proof (rule nth_equalityI)
  note i = index_where_Some [OF assms(2)]
  fix j assume "j < length (update_run run f rows)"
  then have j: "j < length rows" by (simp add: update_run_def)
  have "ls_run (rows ! j) = run \<longleftrightarrow> j = i"
    using assms(1) i j nth_eq_iff_index_eq [of "map ls_run rows" i j] by auto
  then show "update_run run f rows ! j = rows[i := f (rows ! i)] ! j" using i j by (auto simp: update_run_def nth_list_update)
qed (simp add: update_run_def)

lemma delete_index:
  assumes "distinct (map ls_run rows)" "index_where (\<lambda>l. ls_run l = run) rows = Some i"
  shows "delete_run run rows = take i rows @ drop (Suc i) rows"
proof -
  have i: "i < length rows" "ls_run (rows ! i) = run" using index_where_Some [OF assms(2)] by auto
  have r: "rows = take i rows @ rows ! i # drop (Suc i) rows" using i(1) by (rule id_take_nth_drop)
  then have "distinct (map ls_run (take i rows @ rows ! i # drop (Suc i) rows))" using assms(1) by simp
  then have n: "run \<notin> ls_run ` set (take i rows)" "run \<notin> ls_run ` set (drop (Suc i) rows)" using i(2) by auto
  have "delete_run run (take i rows) = take i rows" "delete_run run (drop (Suc i) rows) = drop (Suc i) rows"
    using n by (auto simp: delete_run_def image_iff intro!: filter_True)
  then show ?thesis using i(2) by (subst r) (simp add: delete_run_def)
qed

lemma delete_index_None: "index_where (\<lambda>l. ls_run l = run) rows = None \<Longrightarrow> select_run run rows = None"
  by (simp add: select_index)

text \<open>
  C31. The SQLite store keeps to the protocol of the local file: on the same leases, at the same time and with the same
  random identifier, every request but a heartbeat leaves the same leases and gives the same answer, errors
  included, when no call of either store fails.
\<close>

theorem sqlite_store_agrees_with_file:
  assumes "ss_file s = SLeases tbl" and "distinct (map ls_run tbl)" and "ss_path s \<noteq> []" and "lockFile env s = Some None"
    and "se_mkdir_ok env" and "se_write_ok env" and "faultless sq" and "sq_clock sq = se_clock env" and "sq_random sq = se_random env"
    and "sr_action r \<noteq> ''heartbeat''"
  shows "\<exists>res. session_Apply env s r when = Some (s\<lparr>ss_file := SLeases (fst (sql_Apply sq tbl r when))\<rparr>, res) \<and>
    snd (sql_Apply sq tbl r when) = map_err Protocol res"
proof -
  have id: "s\<lparr>ss_file := SLeases tbl\<rparr> = s" using assms(1) by (cases s) simp
  define now where "now = (case when of None \<Rightarrow> se_clock env | Some t \<Rightarrow> t)"
  define ttl where "ttl = ttl_of (sr_ttl r)"
  define live where "live = filter (\<lambda>l. now < ls_expires l) tbl"
  define ix where "ix = index_where (\<lambda>l. ls_run l = sr_run r) live"
  have dl: "distinct (map ls_run live)" using assms(2) by (simp add: live_def distinct_map_filter)
  have cur: "select_run (sr_run r) live = map_option ((!) live) ix" by (simp add: select_index ix_def)
  have upd: "update_run (sr_run r) f live = live[i := f (live ! i)]" "delete_run (sr_run r) live = take i live @ drop (Suc i) live" if "ix = Some i" for f i
    using update_index [OF dl] delete_index [OF dl] that by (simp_all add: ix_def)
  have w: "session_write env s ls = (s\<lparr>ss_file := SLeases ls\<rparr>, None)" for ls using assms(3,5,6) by (simp add: session_write_def)
  have c: "commit sq tbl ls l = (ls, Inr l)" for ls l using assms(7) by (simp add: commit_def faultless_def)
  have n: "sql_id sq = map_err Protocol (newID env)" using assms(9) by (simp add: sql_id_def newID_def split: option.split)
  have act: "\<exists>res. apply_action env s r now ttl live ix = (s\<lparr>ss_file := SLeases (fst (sql_action sq tbl r now ttl live))\<rparr>, res) \<and>
      snd (sql_action sq tbl r now ttl live) = map_err Protocol res"
    using assms(10) upd
    by (cases ix; cases "newID env") (auto simp: apply_action_def sql_action_def cur w c n stored_def id Let_def map_err_def)
  have la: "listAt s now = Inr live" using assms(1,3) by (simp add: listAt_def live_def)
  have "session_Apply env s r when = (if blank (sr_run r) \<or> blank (sr_owner r) then Some (s, Inl SessionFields)
      else if ttl > max_ttl then Some (s, Inl TtlTooLong) else Some (apply_action env s r now ttl live ix))"
    unfolding session_Apply_def Let_def now_def [symmetric] ttl_def [symmetric] by (simp add: la assms(4) flip: ix_def)
  moreover have "sql_Apply sq tbl r when = (if blank (sr_run r) \<or> blank (sr_owner r) then (tbl, Inl (Protocol SessionFields))
      else if ttl > max_ttl then (tbl, Inl (Protocol TtlTooLong)) else sql_action sq tbl r now ttl live)"
    using assms(7) unfolding sql_Apply_def Let_def assms(8) now_def [symmetric] ttl_def [symmetric] delete_expired_live live_def [symmetric]
    by (simp add: faultless_def)
  ultimately show ?thesis using act id by auto
qed

text \<open>
  A heartbeat is where they differ: the local store renews the lease, the SQLite store replaces it by a new one, with
  another identifier and another time of creation.
\<close>

lemma sqlite_heartbeat_replaces_lease:
  assumes "faultless sq" "sr_action r = ''heartbeat''" "select_run (sr_run r) live = Some l" "ls_owner l = sr_owner r" "sq_random sq = Some b"
  shows "sql_action sq tbl r now ttl live = (update_run (sr_run r) (\<lambda>_. fresh_lease r (hex_encode b) now ttl) live,
    Inr (fresh_lease r (hex_encode b) now ttl))"
  using assms by (simp add: sql_action_def sql_id_def commit_def faultless_def Let_def)

subsection \<open>Ownership in the table\<close>

lemma update_run_runs: "(\<And>l. ls_run l = run \<Longrightarrow> ls_run (f l) = run) \<Longrightarrow> map ls_run (update_run run f rows) = map ls_run rows"
  by (auto simp: update_run_def)

lemma select_run_Some: "select_run run rows = Some l \<Longrightarrow> l \<in> set rows \<and> ls_run l = run"
  by (auto simp: select_run_def find_Some_iff)

lemma select_run_None: "select_run run rows = None \<longleftrightarrow> run \<notin> ls_run ` set rows"
  by (auto simp: select_run_def find_None_iff)

lemma sql_action_cases:
  assumes "sql_action sq tbl r now ttl live = (rows, res)"
  obtains (unchanged) e where "res = Inl e" "rows = tbl"
  | (released) l where "res = Inr l" "rows = delete_run (sr_run r) live" "sr_action r = ''release''" "select_run (sr_run r) live = Some l" "ls_owner l = sr_owner r"
  | (renewed) l where "res = Inr (renew now ttl l)" "rows = update_run (sr_run r) (renew now ttl) live" "sr_action r = ''acquire''"
      "select_run (sr_run r) live = Some l" "ls_owner l = sr_owner r"
  | (replaced) l i where "res = Inr (fresh_lease r i now ttl)" "rows = update_run (sr_run r) (\<lambda>_. fresh_lease r i now ttl) live"
      "select_run (sr_run r) live = Some l" "sr_action r = ''takeover'' \<or> sr_action r = ''heartbeat'' \<and> ls_owner l = sr_owner r"
  | (added) i where "res = Inr (fresh_lease r i now ttl)" "rows = live @ [fresh_lease r i now ttl]" "select_run (sr_run r) live = None"
      "sr_action r = ''takeover'' \<or> sr_action r = ''acquire''"
  using assms
  by (cases "select_run (sr_run r) live"; cases "sql_id sq")
    (auto simp: sql_action_def commit_def Let_def split: if_splits)

text \<open>
  Whatever fails, a table with one lease per run keeps one lease per run, a request changes the lease of its own run only,
  and the lease of another owner that has not expired is replaced by nothing but a takeover; a request that
  fails leaves the table as it was.
\<close>

theorem sqlite_leases_are_exclusive:
  assumes "sql_Apply sq tbl r (Some now) = (rows, res)" and "distinct (map ls_run tbl)"
  shows "distinct (map ls_run rows) \<and> (\<not> is_ok res \<longrightarrow> rows = tbl) \<and>
    (\<forall>l \<in> set tbl. now < ls_expires l \<and> l \<notin> set rows \<longrightarrow>
       ls_run l = sr_run r \<and> (ls_owner l = sr_owner r \<or> sr_action r = ''takeover''))"
proof (cases "rows = tbl")
  case True
  have "\<not> is_ok res \<longrightarrow> rows = tbl" using True by simp
  then show ?thesis using True assms(2) by simp
next
  case False
  define live where "live = delete_expired now tbl"
  have a: "sql_action sq tbl r now (ttl_of (sr_ttl r)) live = (rows, res)"
    using assms(1) False by (auto simp: sql_Apply_def live_def Let_def split: if_splits)
  have dl: "distinct (map ls_run live)" using assms(2) by (simp add: live_def delete_expired_def distinct_map_filter)
  have lv: "l \<in> set live" if "l \<in> set tbl" "now < ls_expires l" for l using that by (simp add: live_def delete_expired_def)
  have one: "l = k" if "select_run (sr_run r) live = Some k" "l \<in> set live" "ls_run l = sr_run r" for l k
    using select_run_Some [OF that(1)] that(2,3) dl by (metis distinct_map inj_onD)
  have keep: "l \<in> set (update_run (sr_run r) f live)" "l \<in> set (delete_run (sr_run r) live)"
    if "l \<in> set live" "ls_run l \<noteq> sr_run r" for l f using that by (force simp: update_run_def delete_run_def)+
  have upd: "ls_run l = sr_run r \<and> (\<forall>k. select_run (sr_run r) live = Some k \<longrightarrow> l = k)"
    if "l \<in> set tbl" "now < ls_expires l" "l \<notin> set rows" "rows = update_run (sr_run r) f live \<or> rows = delete_run (sr_run r) live" for l f
    using that lv keep one by blast
  from a show ?thesis
  proof (cases rule: sql_action_cases)
    case (unchanged e)
    then show ?thesis using False by simp
  next
    case (released k)
    have "distinct (map ls_run rows)" using dl by (simp add: released delete_run_def distinct_map_filter)
    then show ?thesis using released upd by (simp add: is_ok_iff) blast
  next
    case (renewed k)
    have "map ls_run rows = map ls_run live" unfolding renewed by (rule update_run_runs) (simp add: renew_def)
    then have "distinct (map ls_run rows)" using dl by simp
    then show ?thesis using renewed upd by (simp add: is_ok_iff) blast
  next
    case (replaced k i)
    have "map ls_run rows = map ls_run live" unfolding replaced by (rule update_run_runs) (simp add: fresh_lease_def)
    then have "distinct (map ls_run rows)" using dl by simp
    then show ?thesis using replaced upd by (simp add: is_ok_iff) blast
  next
    case (added i)
    have "distinct (map ls_run rows)" using added dl by (simp add: select_run_None fresh_lease_def)
    then show ?thesis using added lv by (auto simp: is_ok_iff)
  qed
qed

subsection \<open>Requests of the remote store\<close>

text \<open>
  The client sends at most six requests, all of them the same and none to an endpoint that is neither HTTPS nor starts like a
  loopback one, and what it returns was decoded from the first reply that accepted the request.
\<close>

theorem remote_requests_are_bounded:
  assumes "remote_do send decode s verb value = (n, res)"
  shows "n \<le> 6 \<and> (0 < n \<longrightarrow> prefix ''https://'' (remote_endpoint s) \<or> prefix ''http://127.0.0.1'' (remote_endpoint s) \<or>
      prefix ''http://localhost'' (remote_endpoint s)) \<and>
    (\<forall>v. res = Inr v \<longrightarrow> 0 < n \<and> (\<exists>p. send (session_request s verb value) (n - 1) = Some p \<and> accepted_status (wp_status p) \<and>
       decode (wp_body p) = Some v \<and> (\<forall>i < n - 1. \<not> succeeded (send (session_request s verb value) i))))"
proof (cases "n = 0")
  case True
  have "0 < remote_attempts s" by (auto simp: remote_attempts_def)
  then have "attempt_from f (remote_attempts s) 0 \<noteq> (0, q)" for f q using attempt_from_spec [of f _ 0 0 q] by blast
  then show ?thesis using assms True by (auto simp: remote_do_def Let_def split: if_splits prod.splits)
next
  case False
  let ?f = "send (session_request s verb value)"
  obtain q where q: "attempt_from ?f (remote_attempts s) 0 = (n, q)"
    and r: "res = (if succeeded q then (case decode (wp_body (the q)) of None \<Rightarrow> Inl RemoteDecode | Some v \<Rightarrow> Inr v)
      else Inl (RemoteFailed (case q of None \<Rightarrow> SendFailed | Some p \<Rightarrow> BadStatus (wp_status p) [])))"
    and e: "prefix ''https://'' (remote_endpoint s) \<or> prefix ''http://127.0.0.1'' (remote_endpoint s) \<or> prefix ''http://localhost'' (remote_endpoint s)"
    using assms False by (auto simp: remote_do_def Let_def split: if_splits prod.splits)
  have b: "0 < remote_attempts s" "remote_attempts s \<le> 6" by (auto simp: remote_attempts_def)
  have sp: "n \<le> 6" "q = ?f (n - 1)" "\<forall>i < n - 1. \<not> succeeded (?f i)"
    using attempt_from_spec [OF q b(1)] b(2) by auto
  have "\<exists>p. ?f (n - 1) = Some p \<and> accepted_status (wp_status p) \<and> decode (wp_body p) = Some v" if "res = Inr v" for v
    using that r sp(2) by (cases q) (auto simp: succeeded_def split: if_splits option.splits)
  then show ?thesis using sp(1,3) e False by blast
qed

text \<open>The test for loopback endpoints is on a prefix, which a foreign host can have.\<close>

lemma remote_plain_http_to_foreign_host:
  "remote_endpoint \<lparr>rm_endpoint = ''http://localhost.evil.example/'', rm_bearer = ''t'', rm_attempts = 1\<rparr> = ''http://localhost.evil.example''"
  by code_simp

subsection \<open>Examples\<close>

definition held_lease :: Lease where
  "held_lease = \<lparr>ls_id = ''i'', ls_run = ''r'', ls_owner = ''ann'', ls_created = 0, ls_updated = 0, ls_expires = 50\<rparr>"

definition demo_sql :: sql_env where
  "demo_sql = \<lparr>sq_begin = True, sq_delete = True, sq_select = True, sq_write = True, sq_commit = True, sq_clock = 10, sq_random = Some ''z''\<rparr>"

definition demo_session :: session_env where
  "demo_session = \<lparr>se_mkdir_ok = True, se_lock = (\<lambda>_. LockCreated), se_write_ok = True, se_clock = 10, se_random = Some ''z''\<rparr>"

definition demo_store :: SessionStore where
  "demo_store = \<lparr>ss_path = ''/s'', ss_file = SLeases [held_lease]\<rparr>"

definition demo_takeover :: SessionRequest where
  "demo_takeover = \<lparr>sr_action = ''takeover'', sr_run = ''r'', sr_owner = ''bob'', sr_ttl = 1\<rparr>"

lemma sqlite_store_agrees_with_file_witness:
  "\<exists>res. session_Apply demo_session demo_store demo_takeover None =
    Some (demo_store\<lparr>ss_file := SLeases (fst (sql_Apply demo_sql [held_lease] demo_takeover None))\<rparr>, res)"
proof -
  have "\<not> blank ''/s''" by code_simp
  then have "lockFile demo_session demo_store = Some None"
    by (simp add: lockFile_def demo_session_def demo_store_def poll.simps lock_try_def)
  then show ?thesis
    using sqlite_store_agrees_with_file [of demo_store "[held_lease]" demo_session demo_sql demo_takeover None]
    by (auto simp: demo_store_def demo_session_def demo_sql_def demo_takeover_def faultless_def)
qed

lemma sqlite_leases_are_exclusive_witness:
  "distinct (map ls_run (fst (sql_Apply demo_sql [held_lease] demo_takeover (Some 10))))"
  using sqlite_leases_are_exclusive [of demo_sql "[held_lease]" demo_takeover 10] by (metis (no_types) distinct_singleton list.simps(8,9) prod.collapse)

lemma remote_requests_are_bounded_witness:
  "fst (remote_do (\<lambda>_ _. None) (\<lambda>b. Some b) \<lparr>rm_endpoint = ''https://h'', rm_bearer = [], rm_attempts = 9\<rparr> ''GET'' None) \<le> 6"
  using remote_requests_are_bounded [of "\<lambda>_ _. None" "\<lambda>b. Some b"] by (metis prod.collapse)

end
