(* ===== verification/Macos_Backend.thy ===== *)
theory Macos_Backend
  imports Acceptance
begin

text \<open>
  The transaction on a native macOS host (\<open>platform/macos_backend.go\<close>): the workspace is cloned into
  a view below a disposable runtime root, a run works on the view, and the changes are accepted into
  the workspace or the runtime root is removed.  The copy is made by an external command, which is an
  argument; so are the system calls that fail.
\<close>

record mac_env =
  mc_cwd :: "path option"
  mc_apply :: apply_env
  mc_sha :: "string \<Rightarrow> string"
  mc_unread :: "segpath \<Rightarrow> bool"
  mc_lstat_fails :: "segpath \<Rightarrow> bool"
  mc_list_fails :: "segpath \<Rightarrow> bool"
  mc_kept :: "segpath \<Rightarrow> (segpath \<Rightarrow> bool) option"
  mc_temp :: "path option"
  mc_clone :: "fs \<Rightarrow> segpath \<Rightarrow> segpath \<Rightarrow> fs \<times> bool"

datatype mac_error =
    AbsFailed
  | NotDirectory path
  | EvalFailed path
  | NotSeparate
  | RuntimeNotReal path
  | RuntimeUnlisted
  | RuntimeNotEmpty path
  | RuntimeInspect
  | CreateRoot
  | CreateView
  | CloneFailed
  | TempFailed
  | ManifestFailed manifest_error
  | TransactionGone
  | DestinationDiffers
  | AcceptFailed apply_error
  | CleanupFailed
  | DiscardFailed
  | UnsafeRuntime
  | LinkedRuntime
  | ViewUnavailable

record MacOSTransaction =
  mt_workspace :: path
  mt_runtime :: path
  mt_view :: path
  mt_base :: Manifest
  mt_discarded :: bool
  mt_accepted :: bool

subsection \<open>Paths\<close>

text \<open>\<open>filepath.Abs\<close> needs the working directory for a relative path only.\<close>

definition go_abs :: "mac_env \<Rightarrow> path \<Rightarrow> path option" where
  "go_abs env p = (if is_abs p then Some (clean p) else map_option (\<lambda>d. abs_path d p) (mc_cwd env))"

definition render_abs :: "segpath \<Rightarrow> path" where
  "render_abs q = sep # join_with [sep] q"

definition within :: "path \<Rightarrow> path \<Rightarrow> bool" where
  "within root candidate =
     (if root = candidate then True
      else (case rel_path root candidate of None \<Rightarrow> False | Some r \<Rightarrow> r \<noteq> dotdot \<and> \<not> prefix (dotdot @ [sep]) r))"

definition resolveDirectory :: "mac_env \<Rightarrow> fs \<Rightarrow> path \<Rightarrow> mac_error + path" where
  "resolveDirectory env f value =
     (case go_abs env (trim_space value) of
        None \<Rightarrow> Inl AbsFailed
      | Some p \<Rightarrow>
          if \<not> stat_dir f (csegs p) then Inl (NotDirectory p)
          else (case phys f (csegs p) of None \<Rightarrow> Inl (EvalFailed p) | Some q \<Rightarrow> Inr (render_abs q)))"

text \<open>\<open>os.RemoveAll\<close>: one that fails leaves the nodes that the environment keeps.\<close>

definition remove_all :: "mac_env \<Rightarrow> fs \<Rightarrow> path \<Rightarrow> fs \<times> bool" where
  "remove_all env f p =
     (case mc_kept env (csegs p) of
        None \<Rightarrow> (RemoveAll f (csegs p), True)
      | Some keep \<Rightarrow>
          (case phys_last f (csegs p) of
             None \<Rightarrow> (f, False)
           | Some q \<Rightarrow> (filter (\<lambda>kv. prefix q (fst kv) \<longrightarrow> keep (fst kv)) f, False)))"

text \<open>\<open>os.ReadDir\<close> of a directory: the nodes right below it.\<close>

definition dir_entries :: "fs \<Rightarrow> segpath \<Rightarrow> (segpath \<times> node) list" where
  "dir_entries f p =
     (case phys f p of None \<Rightarrow> [] | Some q \<Rightarrow> filter (\<lambda>kv. fst kv \<noteq> [] \<and> butlast (fst kv) = q) f)"

subsection \<open>Preparing\<close>

definition prepare_root :: "mac_env \<Rightarrow> fs \<Rightarrow> path \<Rightarrow> mac_error + fs" where
  "prepare_root env f root =
     (if mc_lstat_fails env (csegs root) then Inl RuntimeInspect
      else (case lstat_node f (csegs root) of
        Some n \<Rightarrow>
          if \<not> is_dir n then Inl (RuntimeNotReal root)
          else if mc_list_fails env (csegs root) then Inl RuntimeUnlisted
          else if dir_entries f (csegs root) \<noteq> [] then Inl (RuntimeNotEmpty root)
          else Inr f
      | None \<Rightarrow>
          (case MkdirAll (env_umask (mc_apply env)) 448 f (csegs root) of
             None \<Rightarrow> Inl CreateRoot
           | Some f' \<Rightarrow> Inr f')))"

definition view_of :: "path \<Rightarrow> path" where
  "view_of root = path_join root ''view''"

definition mac_build :: "mac_env \<Rightarrow> fs \<Rightarrow> path \<Rightarrow> manifest_error + Manifest" where
  "mac_build env f p = Build (case mc_cwd env of None \<Rightarrow> [] | Some d \<Rightarrow> d) (mc_sha env) (mc_unread env) f p"

definition cloneWorkspace :: "mac_env \<Rightarrow> fs \<Rightarrow> path \<Rightarrow> path \<Rightarrow> fs \<times> bool" where
  "cloneWorkspace env f source destination = mc_clone env f (csegs source) (csegs destination)"

definition PrepareAt :: "mac_env \<Rightarrow> fs \<Rightarrow> path \<Rightarrow> path \<Rightarrow> fs \<times> (mac_error + MacOSTransaction)" where
  "PrepareAt env f workspace runtimeRoot =
     (case resolveDirectory env f workspace of
        Inl e \<Rightarrow> (f, Inl e)
      | Inr source \<Rightarrow>
     (case go_abs env runtimeRoot of
        None \<Rightarrow> (f, Inl AbsFailed)
      | Some root \<Rightarrow>
      if root = [sep] \<or> within source root \<or> within root source then (f, Inl NotSeparate)
      else (case prepare_root env f root of
        Inl e \<Rightarrow> (f, Inl e)
      | Inr f1 \<Rightarrow>
      let view = view_of root in
     (case MkdirAll (env_umask (mc_apply env)) 448 f1 (csegs view) of
        None \<Rightarrow> (f1, Inl CreateView)
      | Some f2 \<Rightarrow>
     (case cloneWorkspace env f2 source view of
        (f3, False) \<Rightarrow> (fst (remove_all env f3 root), Inl CloneFailed)
      | (f3, True) \<Rightarrow>
     (case mac_build env f3 source of
        Inl e \<Rightarrow> (fst (remove_all env f3 root), Inl (ManifestFailed e))
      | Inr base \<Rightarrow>
          (f3, Inr \<lparr>mt_workspace = source, mt_runtime = root, mt_view = view, mt_base = base,
                    mt_discarded = False, mt_accepted = False\<rparr>)))))))"

text \<open>\<open>os.MkdirTemp\<close> makes a new directory, whose name the environment chooses.\<close>

definition Prepare :: "mac_env \<Rightarrow> fs \<Rightarrow> path \<Rightarrow> fs \<times> (mac_error + MacOSTransaction)" where
  "Prepare env f workspace =
     (case mc_temp env of
        None \<Rightarrow> (f, Inl TempFailed)
      | Some root \<Rightarrow>
          (case PrepareAt env (fs_put (csegs root) (NDir 448) f) workspace root of
             (f1, Inl e) \<Rightarrow> (fst (remove_all env f1 root), Inl e)
           | (f1, Inr t) \<Rightarrow> (f1, Inr t)))"

subsection \<open>The operations of a transaction\<close>

definition mac_Diff :: "mac_env \<Rightarrow> fs \<Rightarrow> MacOSTransaction \<Rightarrow> mac_error + Change list" where
  "mac_Diff env f t =
     (if mt_discarded t \<or> mt_accepted t then Inl TransactionGone
      else (case mac_build env f (mt_view t) of
        Inl e \<Rightarrow> Inl (ManifestFailed e)
      | Inr after \<Rightarrow> Inr (Compare (mt_base t) after)))"

definition Discard :: "mac_env \<Rightarrow> fs \<Rightarrow> MacOSTransaction \<Rightarrow> fs \<times> MacOSTransaction \<times> mac_error option" where
  "Discard env f t =
     (if mt_discarded t \<or> mt_accepted t then (f, t, None)
      else (case remove_all env f (mt_runtime t) of
        (f1, False) \<Rightarrow> (f1, t, Some DiscardFailed)
      | (f1, True) \<Rightarrow> (f1, t\<lparr>mt_discarded := True\<rparr>, None)))"

definition Recover :: "mac_env \<Rightarrow> fs \<Rightarrow> MacOSTransaction \<Rightarrow> fs \<times> MacOSTransaction \<times> mac_error option" where
  "Recover env f t = Discard env f t"

definition Accept :: "mac_env \<Rightarrow> fs \<Rightarrow> MacOSTransaction \<Rightarrow> path \<Rightarrow> fs \<times> MacOSTransaction \<times> mac_error option" where
  "Accept env f t destination =
     (if mt_discarded t \<or> mt_accepted t then (f, t, Some TransactionGone)
      else (case resolveDirectory env f destination of
        Inl e \<Rightarrow> (f, t, Some e)
      | Inr dest \<Rightarrow>
      if dest \<noteq> mt_workspace t then (f, t, Some DestinationDiffers)
      else (case mac_build env f dest of
        Inl e \<Rightarrow> (f, t, Some (ManifestFailed e))
      | Inr current \<Rightarrow>
     (case mac_build env f (mt_view t) of
        Inl e \<Rightarrow> (f, t, Some (ManifestFailed e))
      | Inr candidate \<Rightarrow>
     (case Apply (mc_apply env) f (mt_base t) current candidate (mt_view t) dest of
        (f1, _, Some e) \<Rightarrow> (f1, t, Some (AcceptFailed e))
      | (f1, _, None) \<Rightarrow>
     (case remove_all env f1 (mt_runtime t) of
        (f2, False) \<Rightarrow> (f2, t, Some CleanupFailed)
      | (f2, True) \<Rightarrow> (f2, t\<lparr>mt_accepted := True\<rparr>, None)))))))"

subsection \<open>The operations on a recorded run\<close>

definition DiscardMacOSRuntime :: "mac_env \<Rightarrow> fs \<Rightarrow> path \<Rightarrow> path \<Rightarrow> fs \<times> mac_error option" where
  "DiscardMacOSRuntime env f runtimeRoot workspace =
     (case go_abs env runtimeRoot of
        None \<Rightarrow> (f, Some AbsFailed)
      | Some root \<Rightarrow>
     (case go_abs env workspace of
        None \<Rightarrow> (f, Some AbsFailed)
      | Some ws \<Rightarrow>
      if root = [sep] \<or> within root ws \<or> within ws root then (f, Some UnsafeRuntime)
      else if mc_lstat_fails env (csegs root) then (f, Some RuntimeInspect)
      else (case lstat_node f (csegs root) of
        Some (NLink _ _) \<Rightarrow> (f, Some LinkedRuntime)
      | _ \<Rightarrow> (case remove_all env f root of
               (f1, True) \<Rightarrow> (f1, None) | (f1, False) \<Rightarrow> (f1, Some CleanupFailed)))))"

definition AcceptMacOSRuntime ::
  "mac_env \<Rightarrow> fs \<Rightarrow> path \<Rightarrow> path \<Rightarrow> Manifest \<Rightarrow> fs \<times> Change list \<times> mac_error option" where
  "AcceptMacOSRuntime env f workspace runtimeRoot base =
     (case resolveDirectory env f workspace of
        Inl e \<Rightarrow> (f, [], Some e)
      | Inr ws \<Rightarrow>
     (case go_abs env runtimeRoot of
        None \<Rightarrow> (f, [], Some AbsFailed)
      | Some root \<Rightarrow>
      if root = [sep] \<or> within root ws \<or> within ws root then (f, [], Some UnsafeRuntime)
      else if mc_lstat_fails env (csegs root) then (f, [], Some RuntimeInspect)
      else (case lstat_node f (csegs root) of
        Some (NLink _ _) \<Rightarrow> (f, [], Some LinkedRuntime)
      | _ \<Rightarrow>
      let view = view_of root in
      if stat_node f (csegs view) = None then (f, [], Some ViewUnavailable)
      else
       let t = \<lparr>mt_workspace = ws, mt_runtime = root, mt_view = view, mt_base = base,
                mt_discarded = False, mt_accepted = False\<rparr> in
     (case mac_build env f view of
        Inl e \<Rightarrow> (f, [], Some (ManifestFailed e))
      | Inr candidate \<Rightarrow>
          let changes = Compare base candidate in
         (case Accept env f t ws of (f1, _, e) \<Rightarrow> (f1, changes, e))))))"
subsection \<open>Lemmas\<close>

lemma within_is_within [simp]: "within = is_within"
  by (auto simp: within_def is_within_def escapes_def fun_eq_iff split: option.split)

definition cwd_ok :: "mac_env \<Rightarrow> bool" where
  "cwd_ok env \<longleftrightarrow> (\<forall>d. mc_cwd env = Some d \<longrightarrow> is_abs d)"

lemma go_abs_abs: "cwd_ok env \<Longrightarrow> go_abs env p = Some q \<Longrightarrow> is_abs q"
  by (auto simp: go_abs_def cwd_ok_def abs_path_def path_join_abs split: if_splits)

lemma is_abs_render [simp]: "is_abs (render_abs q)"
  by (simp add: render_abs_def)

lemma csegs_render: "(\<And>x. x \<in> set q \<Longrightarrow> plain_seg x \<and> x \<noteq> dotdot) \<Longrightarrow> csegs (render_abs q) = q"
  by (simp add: render_abs_def csegs_def parse_path_def segs_join norm_segs_def)
    (subst norm_fold_id; force simp: segs_join)

lemma resolveDirectory_Inr:
  assumes "no_links f" and "cwd_ok env" and "resolveDirectory env f v = Inr p"
  shows "\<exists>q. go_abs env (trim_space v) = Some q \<and> is_abs p \<and> csegs p = csegs q \<and> stat_dir f (csegs p)"
proof -
  obtain q where q: "go_abs env (trim_space v) = Some q" "stat_dir f (csegs q)"
    using assms(3) by (auto simp: resolveDirectory_def split: option.splits if_splits)
  have a: "is_abs q" using go_abs_abs [OF assms(2) q(1)] .
  note dd = csegs_no_dotdot [OF a]
  have p: "p = render_abs (csegs q)"
    using assms(3) q phys_no_links [OF assms(1) dd] by (simp add: resolveDirectory_def)
  have "csegs p = csegs q" unfolding p using csegs_plain dd by (intro csegs_render) auto
  then show ?thesis using q p by auto
qed

text \<open>Without symbolic links a removal only removes nodes at or below its path, and a successful one all of them.\<close>

lemma remove_all_no_links:
  assumes "no_links f" and "is_abs p" and "remove_all env f p = (f', ok)"
  shows "no_links f' \<and> (\<forall>q. \<not> prefix (csegs p) q \<longrightarrow> fs_get f' q = fs_get f q) \<and>
     (ok \<longrightarrow> (\<forall>q. prefix (csegs p) q \<longrightarrow> fs_get f' q = None))"
proof -
  note dd = csegs_no_dotdot [OF assms(2)]
  have part: "fs_get (filter (\<lambda>kv. prefix r (fst kv) \<longrightarrow> keep (fst kv)) f) q = fs_get f q" if "\<not> prefix r q" for r q keep
    using that map_of_filter_keys [of "\<lambda>k. prefix r k \<longrightarrow> keep k" f q] by (simp add: fs_get_def)
  have nl: "no_links (filter P f)" for P using assms(1) by (auto simp: no_links_def)
  show ?thesis
  proof (cases "mc_kept env (csegs p)")
    case None
    then have "f' = fs_remove (csegs p) f" using assms(3) RemoveAll_no_links [OF assms(1) dd] by (simp add: remove_all_def)
    then show ?thesis using assms(1) by simp
  next
    case (Some keep)
    then have "f' = filter (\<lambda>kv. prefix (csegs p) (fst kv) \<longrightarrow> keep (fst kv)) f \<and> \<not> ok"
      using assms(3) phys_last_no_links [OF assms(1) dd] by (auto simp: remove_all_def)
    then show ?thesis using part nl by auto
  qed
qed

lemma separate_roots:
  assumes "is_abs a" and "is_abs b" and "\<not> is_within a b" and "\<not> is_within b a" and "prefix (csegs a) q"
  shows "\<not> prefix (csegs b) q"
  using assms prefix_same_cases by (auto simp: is_within_prefix)

lemma remove_all_True:
  "no_links f \<Longrightarrow> is_abs p \<Longrightarrow> remove_all env f p = (f', True) \<Longrightarrow> mc_kept env (csegs p) = None \<and> f' = fs_remove (csegs p) f"
  by (auto simp: remove_all_def RemoveAll_no_links csegs_no_dotdot split: option.splits)

lemma remove_all_again:
  assumes "no_links f" and "is_abs p" and "remove_all env f p = (f', True)"
  shows "remove_all env f' p = (f', True)"
proof -
  have "fs_remove q (fs_remove q f) = fs_remove q f" for q by (auto simp: fs_remove_def intro: filter_cong)
  with remove_all_True [OF assms] assms(1,2) show ?thesis by (simp add: remove_all_def RemoveAll_no_links csegs_no_dotdot)
qed

lemma lstat_no_links: "no_links f \<Longrightarrow> dotdot \<notin> set p \<Longrightarrow> lstat_node f p \<noteq> Some (NLink m t)"
  by (auto simp: lstat_node_def phys_last_no_links dest: no_links_get)

lemma DiscardMacOSRuntime_no_links:
  assumes "no_links f" and "cwd_ok env" and "go_abs env root = Some r" and "go_abs env ws = Some w"
  shows "DiscardMacOSRuntime env f root ws =
     (if r = [sep] \<or> is_within r w \<or> is_within w r then (f, Some UnsafeRuntime)
      else if mc_lstat_fails env (csegs r) then (f, Some RuntimeInspect)
      else (case remove_all env f r of (f1, True) \<Rightarrow> (f1, None) | (f1, False) \<Rightarrow> (f1, Some CleanupFailed)))"
  using lstat_no_links [OF assms(1) csegs_no_dotdot [OF go_abs_abs [OF assms(2,3)]]] assms(3,4)
  by (auto simp: DiscardMacOSRuntime_def split: option.split node.split)

subsection \<open>Discarding\<close>

text \<open>
  Discarding a recorded run keeps the workspace: in a file system without symbolic links, whatever
  fails, every node that is not below the runtime root is kept, the workspace among them; when it
  succeeds, nothing is left of the runtime root, and discarding again succeeds and changes nothing.
\<close>

theorem discarded_runtime_keeps_workspace:
  assumes "no_links f" and "cwd_ok env" and "go_abs env root = Some r" and "go_abs env ws = Some w"
    and "DiscardMacOSRuntime env f root ws = (f', e)"
  shows "(\<forall>q. \<not> prefix (csegs r) q \<longrightarrow> fs_get f' q = fs_get f q) \<and> (\<forall>q. prefix (csegs w) q \<longrightarrow> fs_get f' q = fs_get f q) \<and>
     (e = None \<longrightarrow> (\<forall>q. prefix (csegs r) q \<longrightarrow> fs_get f' q = None) \<and> DiscardMacOSRuntime env f' root ws = (f', None))"
proof (cases "f' = f \<and> e \<noteq> None")
  case False
  note a = go_abs_abs [OF assms(2,3)] go_abs_abs [OF assms(2,4)]
  note D = DiscardMacOSRuntime_no_links [OF _ assms(2-4)]
  have nw: "\<not> is_within r w" "\<not> is_within w r" and gates: "r \<noteq> [sep]" "\<not> mc_lstat_fails env (csegs r)"
    using assms(5) False by (auto simp: D [OF assms(1)] split: if_splits)
  obtain ok where rm: "remove_all env f r = (f', ok)" and ok: "ok = (e = None)"
    using assms(5) False by (auto simp: D [OF assms(1)] split: if_splits prod.splits bool.splits)
  note r = remove_all_no_links [OF assms(1) a(1) rm]
  have "DiscardMacOSRuntime env f' root ws = (f', None)" if "e = None"
    using remove_all_again [OF assms(1) a(1)] rm ok that nw gates r by (simp add: D)
  with r separate_roots [OF a(2,1) nw(2,1)] ok show ?thesis by blast
qed auto
subsection \<open>Accepting\<close>

lemma Accept_None:
  assumes "Accept env f t dest = (f', t', None)"
  obtains d current candidate f1 rep where "\<not> mt_discarded t" and "\<not> mt_accepted t"
    and "resolveDirectory env f dest = Inr d" and "d = mt_workspace t"
    and "mac_build env f d = Inr current" and "mac_build env f (mt_view t) = Inr candidate"
    and "Apply (mc_apply env) f (mt_base t) current candidate (mt_view t) d = (f1, rep, None)"
    and "remove_all env f1 (mt_runtime t) = (f', True)" and "t' = t\<lparr>mt_accepted := True\<rparr>"
  using assms by (auto simp: Accept_def split: if_splits sum.splits prod.splits option.splits bool.splits)

lemma Apply_no_links:
  "no_links f \<Longrightarrow> is_abs dr \<Longrightarrow> Apply env f b d cand cr dr = (f', rep, r) \<Longrightarrow> no_links f'"
  using apply_changes_no_links by (auto simp: Apply_def Let_def split: if_splits sum.splits prod.splits)

text \<open>The transactions that \<open>PrepareAt\<close> makes: the view lies in the runtime root, which is apart from the workspace.\<close>

definition sound_tx :: "MacOSTransaction \<Rightarrow> bool" where
  "sound_tx t \<longleftrightarrow> is_abs (mt_workspace t) \<and> is_abs (mt_runtime t) \<and> mt_view t = view_of (mt_runtime t) \<and>
     \<not> is_within (mt_workspace t) (mt_runtime t) \<and> \<not> is_within (mt_runtime t) (mt_workspace t)"

lemma view_of_csegs:
  assumes "is_abs r"
  shows "csegs (view_of r) = csegs r @ [''view'']"
proof -
  have "segs ''view'' = [''view'']" by code_simp
  with csegs_join_plain [OF assms, of "''view''"] show ?thesis by (simp add: view_of_def)
qed

lemma sound_tx_view:
  assumes "sound_tx t"
  shows "is_abs (mt_view t)" and "\<not> is_within (mt_view t) (mt_workspace t)" and "\<not> is_within (mt_workspace t) (mt_view t)"
proof -
  show a: "is_abs (mt_view t)" using assms by (simp add: sound_tx_def view_of_def path_join_abs)
  have v: "csegs (mt_view t) = csegs (mt_runtime t) @ [''view'']" using assms by (simp add: sound_tx_def view_of_csegs)
  then have p: "prefix (csegs (mt_runtime t)) (csegs (mt_view t))" by simp
  have s: "\<not> prefix (csegs (mt_workspace t)) (csegs (mt_runtime t))" "\<not> prefix (csegs (mt_runtime t)) (csegs (mt_workspace t))"
    and aw: "is_abs (mt_workspace t)" using assms by (auto simp: sound_tx_def is_within_prefix)
  show "\<not> is_within (mt_view t) (mt_workspace t)" using s p a aw prefix_order.trans by (auto simp: is_within_prefix)
  show "\<not> is_within (mt_workspace t) (mt_view t)" using s p a aw prefix_same_cases by (auto simp: is_within_prefix)
qed
lemma go_abs_clean: "cwd_ok env \<Longrightarrow> go_abs env p = Some q \<Longrightarrow> clean q = q"
  by (auto simp: go_abs_def cwd_ok_def abs_path_def path_join_def split: if_splits)

text \<open>
  An accepted transaction is installed: when \<open>Accept\<close> succeeds, no path that the view changed was
  changed in the workspace since it was cloned, every changed file has the content of the view and the
  recorded mode in the workspace, what lies outside of both roots is kept, and nothing is left of the
  runtime root.
\<close>

theorem accepted_view_is_installed:
  assumes "no_links f" and "sound_tx t" and "Accept env f t dest = (f', t', None)"
  shows "\<exists>current candidate.
      mac_build env f (mt_workspace t) = Inr current \<and> mac_build env f (mt_view t) = Inr candidate \<and>
      can_apply (Check (mt_base t) current candidate) \<and> mt_accepted t' \<and>
      (\<forall>c \<in> set (Compare (mt_base t) candidate). \<forall>e. ch_after c = Some e \<longrightarrow> e_type e = ''file'' \<longrightarrow>
         (\<forall>c' \<in> set (Compare (mt_base t) candidate). c' \<noteq> c \<longrightarrow> \<not> hits (mt_workspace t) c' (target (mt_workspace t) c)) \<longrightarrow>
         (\<exists>k s. fs_get f (csegs (mt_view t) @ csegs (ch_path c)) = Some (NFile k s) \<and>
                fs_get f' (target (mt_workspace t) c) = Some (NFile (e_mode e) s))) \<and>
      (\<forall>q n. fs_get f q = Some n \<longrightarrow> \<not> prefix (csegs (mt_workspace t)) q \<longrightarrow> \<not> prefix (csegs (mt_runtime t)) q \<longrightarrow> fs_get f' q = Some n) \<and>
      (\<forall>q. prefix (csegs (mt_runtime t)) q \<longrightarrow> fs_get f' q = None)"
proof -
  obtain d current candidate f1 rep where d: "d = mt_workspace t"
    and b: "mac_build env f d = Inr current" "mac_build env f (mt_view t) = Inr candidate"
    and ap: "Apply (mc_apply env) f (mt_base t) current candidate (mt_view t) d = (f1, rep, None)"
    and rm: "remove_all env f1 (mt_runtime t) = (f', True)" and t': "t' = t\<lparr>mt_accepted := True\<rparr>"
    using assms(3) by (rule Accept_None)
  note v = sound_tx_view [OF assms(2)]
  have w: "is_abs (mt_workspace t)" "is_abs (mt_runtime t)" using assms(2) by (auto simp: sound_tx_def)
  have out: "\<not> prefix (csegs (mt_runtime t)) (target (mt_workspace t) c)" for c
    using assms(2) separate_roots [OF w] by (auto simp: sound_tx_def target_def)
  note nl = Apply_no_links [OF assms(1) w(1) ap [unfolded d]]
  note r = remove_all_no_links [OF nl w(2) rm]
  have cw: "\<forall>c \<in> set (Compare (mt_base t) candidate). clear_way f (mt_workspace t) c" using assms(1) by simp
  note step = apply_installs_step [OF cw plain_way_no_links [OF assms(1)] w(1) v ap [unfolded d]]
  note frame = Apply_frame [OF cw w(1) ap [unfolded d]]
  have "fs_get f' q = Some n" if "fs_get f q = Some n" "\<not> prefix (csegs (mt_workspace t)) q" "\<not> prefix (csegs (mt_runtime t)) q" for q n
    using frame hits_inside that r by metis
  moreover have "\<exists>k s. fs_get f (csegs (mt_view t) @ csegs (ch_path c)) = Some (NFile k s) \<and>
      fs_get f' (target (mt_workspace t) c) = Some (NFile (e_mode e) s)"
    if "c \<in> set (Compare (mt_base t) candidate)" "ch_after c = Some e" "e_type e = ''file''"
      "\<forall>c' \<in> set (Compare (mt_base t) candidate). c' \<noteq> c \<longrightarrow> \<not> hits (mt_workspace t) c' (target (mt_workspace t) c)" for c e
    using step [OF that] out r by metis
  moreover have "can_apply (Check (mt_base t) current candidate)" by (rule Apply_success(2) [OF ap])
  ultimately show ?thesis using b d t' r by auto
qed

text \<open>A conflict leaves the file system and the transaction as they were.\<close>

lemma conflict_keeps_transaction:
  "Accept env f t dest = (f', t', Some (AcceptFailed (Conflicts ps))) \<Longrightarrow>
     mac_build env f (mt_workspace t) = Inr current \<Longrightarrow> mac_build env f (mt_view t) = Inr candidate \<Longrightarrow>
     \<not> can_apply (Check (mt_base t) current candidate) \<Longrightarrow> f' = f \<and> t' = t"
  by (auto simp: Accept_def Apply_def Let_def split: if_splits sum.splits prod.splits option.splits bool.splits)

subsection \<open>Recorded runs\<close>

lemma PrepareAt_Inr:
  assumes "cwd_ok env" and "no_links f" and "PrepareAt env f ws root = (f', Inr t)"
  shows "sound_tx t \<and> \<not> mt_discarded t \<and> \<not> mt_accepted t \<and> clean (mt_runtime t) = mt_runtime t \<and> mt_runtime t \<noteq> [sep]"
proof -
  obtain source r where s: "resolveDirectory env f ws = Inr source" and r: "go_abs env root = Some r"
    and g: "r \<noteq> [sep]" "\<not> is_within source r" "\<not> is_within r source"
    and t: "mt_workspace t = source" "mt_runtime t = r" "mt_view t = view_of r" "\<not> mt_discarded t" "\<not> mt_accepted t"
    using assms(3)
    by (auto simp: PrepareAt_def Let_def split: sum.splits option.splits if_splits prod.splits bool.splits)
  show ?thesis
    using resolveDirectory_Inr [OF assms(2,1) s] go_abs_abs [OF assms(1) r] go_abs_clean [OF assms(1) r] g t
    by (auto simp: sound_tx_def)
qed

lemma mac_build_stat: "mac_build env f p = Inr m \<Longrightarrow> is_abs p \<Longrightarrow> stat_node f (csegs p) \<noteq> None"
  by (auto simp: mac_build_def Build_def abs_path_def Let_def split: option.splits if_splits)

text \<open>
  A recorded run is accepted like a live one: for a transaction that \<open>PrepareAt\<close> made, the operation
  on its record, with whatever happened to the file system since, does to it what the live
  transaction would do, and returns the difference that the reviewer saw.
\<close>

theorem recorded_accept_is_live_accept:
  assumes "cwd_ok env" and "no_links f0" and "PrepareAt env f0 ws root = (f1, Inr t)"
    and "no_links f" and "resolveDirectory env f (mt_workspace t) = Inr (mt_workspace t)"
    and "\<not> mc_lstat_fails env (csegs (mt_runtime t))" and "mac_Diff env f t = Inr changes"
  shows "AcceptMacOSRuntime env f (mt_workspace t) (mt_runtime t) (mt_base t) =
     (case Accept env f t (mt_workspace t) of (f', _, e) \<Rightarrow> (f', changes, e))"
proof -
  note P = PrepareAt_Inr [OF assms(1-3)]
  then have a: "is_abs (mt_runtime t)" "mt_view t = view_of (mt_runtime t)" by (auto simp: sound_tx_def)
  obtain candidate where c: "mac_build env f (mt_view t) = Inr candidate" "changes = Compare (mt_base t) candidate"
    using assms(7) P by (auto simp: mac_Diff_def split: sum.splits)
  have v: "stat_node f (csegs (view_of (mt_runtime t))) \<noteq> None"
    using mac_build_stat [OF c(1)] sound_tx_view(1) [of t] P a(2) by simp
  have l: "lstat_node f (csegs (mt_runtime t)) \<noteq> Some (NLink m x)" for m x
    by (rule lstat_no_links [OF assms(4) csegs_no_dotdot [OF a(1)]])
  have t: "\<lparr>mt_workspace = mt_workspace t, mt_runtime = mt_runtime t, mt_view = view_of (mt_runtime t), mt_base = mt_base t,
      mt_discarded = False, mt_accepted = False\<rparr> = t"
    using P a by (cases t) simp
  have "go_abs env (mt_runtime t) = Some (mt_runtime t)" using a P by (simp add: go_abs_def)
  then have "AcceptMacOSRuntime env f (mt_workspace t) (mt_runtime t) (mt_base t) =
     (case Accept env f \<lparr>mt_workspace = mt_workspace t, mt_runtime = mt_runtime t, mt_view = view_of (mt_runtime t), mt_base = mt_base t,
         mt_discarded = False, mt_accepted = False\<rparr> (mt_workspace t) of (f', _, e) \<Rightarrow> (f', changes, e))"
    using assms(5,6) P c v l a(2) unfolding AcceptMacOSRuntime_def
    by (auto simp: sound_tx_def Let_def split: option.split node.split)
  then show ?thesis by (simp only: t)
qed
subsection \<open>Preparing keeps what is there\<close>

text \<open>The copying command, as documented: it creates nodes at and below its destination and no others.\<close>

definition confined_clone :: "mac_env \<Rightarrow> bool" where
  "confined_clone env \<longleftrightarrow> (\<forall>f s d f' ok. no_links f \<longrightarrow> mc_clone env f s d = (f', ok) \<longrightarrow>
     no_links f' \<and> (\<forall>q. \<not> prefix d q \<longrightarrow> fs_get f' q = fs_get f q))"

definition kept_outside :: "segpath \<Rightarrow> fs \<Rightarrow> fs \<Rightarrow> bool" where
  "kept_outside r f f' \<longleftrightarrow> no_links f' \<and> (\<forall>q n. fs_get f q = Some n \<longrightarrow> \<not> prefix r q \<longrightarrow> fs_get f' q = Some n) \<and>
     (\<forall>q n. fs_get f q = None \<longrightarrow> fs_get f' q = Some n \<longrightarrow> prefix q r \<or> prefix r q)"

lemma kept_outside_refl: "no_links f \<Longrightarrow> kept_outside r f f"
  by (simp add: kept_outside_def)

lemma kept_outside_trans: "kept_outside r f g \<Longrightarrow> kept_outside r g h \<Longrightarrow> kept_outside r f h"
  unfolding kept_outside_def by (metis option.exhaust)

lemma kept_outside_step:
  "no_links f' \<Longrightarrow> (\<And>q. \<not> prefix r q \<Longrightarrow> fs_get f' q = fs_get f q) \<Longrightarrow> kept_outside r f f'"
  unfolding kept_outside_def by (metis option.distinct(1))

lemma kept_outside_grown:
  assumes "grown m f f' p" and "no_links f'" and "p = r \<or> p = r @ [x]"
  shows "kept_outside r f f'"
proof -
  have "prefix q r \<or> prefix r q" if "prefix q p" for q using assms(3) that by (auto simp: prefix_snoc)
  with assms(1,2) show ?thesis unfolding kept_outside_def grown_def by blast
qed

text \<open>
  Whatever fails, preparing a run keeps every node outside of the runtime root and adds nodes only
  on the way to it and in it.
\<close>

theorem prepare_keeps_outside:
  assumes "no_links f" and "cwd_ok env" and "confined_clone env" and "go_abs env root = Some r"
    and "PrepareAt env f ws root = (f', res)"
  shows "kept_outside (csegs r) f f'"
proof -
  have a: "is_abs r" by (rule go_abs_abs [OF assms(2,4)])
  note dd = csegs_no_dotdot [OF a]
  have v: "csegs (view_of r) = csegs r @ [''view'']" using a by (rule view_of_csegs)
  have dv: "dotdot \<notin> set (csegs (view_of r))" using dd by (simp add: v)
  have root: "kept_outside (csegs r) f f1" if "prepare_root env f r = Inr f1" for f1
    using that kept_outside_grown [OF MkdirAll_grown [OF plain_way_no_links [OF assms(1)] dd] MkdirAll_no_links [OF assms(1)] disjI1 [OF refl]]
      kept_outside_refl [OF assms(1)]
    by (auto simp: prepare_root_def split: if_splits option.splits)
  have view: "kept_outside (csegs r) f1 f2"
    if "no_links f1" "MkdirAll u 448 f1 (csegs (view_of r)) = Some f2" for u f1 f2
    using MkdirAll_grown [OF plain_way_no_links [OF that(1)] dv that(2)] MkdirAll_no_links [OF that] by (rule kept_outside_grown) (simp add: v)
  have clone: "kept_outside (csegs r) f2 f3" if "no_links f2" "cloneWorkspace env f2 s (view_of r) = (f3, ok)" for f2 f3 s ok
  proof -
    have "no_links f3 \<and> (\<forall>q. \<not> prefix (csegs r @ [''view'']) q \<longrightarrow> fs_get f3 q = fs_get f2 q)"
      using assms(3) that unfolding confined_clone_def cloneWorkspace_def v by blast
    then show ?thesis by (intro kept_outside_step) (auto dest: append_prefixD)
  qed
  have rm: "kept_outside (csegs r) f3 (fst (remove_all env f3 r))" if "no_links f3" for f3
    using remove_all_no_links [OF that a surjective_pairing] by (intro kept_outside_step) auto
  have nl: "kept_outside (csegs r) g h \<Longrightarrow> no_links h" for g h by (simp add: kept_outside_def)
  have steps: "kept_outside (csegs r) f f3"
    if "prepare_root env f r = Inr f1" "MkdirAll u 448 f1 (csegs (view_of r)) = Some f2"
      "cloneWorkspace env f2 s (view_of r) = (f3, ok)" for f1 f2 f3 u s ok
    using root [OF that(1)] view [OF _ that(2)] clone [OF _ that(3)] nl kept_outside_trans by metis
  have undone: "kept_outside (csegs r) f (fst (remove_all env f3 r))" if "kept_outside (csegs r) f f3" for f3
    using that rm nl kept_outside_trans by metis
  show ?thesis
    using assms(4,5) kept_outside_refl [OF assms(1)] root steps undone
    unfolding PrepareAt_def Let_def
    by (auto split: sum.splits option.splits if_splits prod.splits bool.splits)
qed
subsection \<open>The life of a transaction\<close>

text \<open>
  What may happen between the preparation and an acceptance: the agent changes the view and whatever
  else is in the runtime root, and the transaction is discarded, recovered, or refused for an acceptance.
\<close>

inductive mac_work :: "mac_env \<Rightarrow> fs \<times> MacOSTransaction \<Rightarrow> fs \<times> MacOSTransaction \<Rightarrow> bool" for env where
  agent: "\<not> mt_discarded t \<Longrightarrow> no_links f' \<Longrightarrow> (\<And>q. \<not> prefix (csegs (mt_runtime t)) q \<Longrightarrow> fs_get f' q = fs_get f q) \<Longrightarrow>
    mac_work env (f, t) (f', t)"
| discard: "Discard env f t = (f', t', e) \<Longrightarrow> mac_work env (f, t) (f', t')"
| recover: "Recover env f t = (f', t', e) \<Longrightarrow> mac_work env (f, t) (f', t')"
| refuse: "Accept env f t d = (f', t', Some e) \<Longrightarrow> (\<And>a. e \<noteq> AcceptFailed a) \<Longrightarrow> e \<noteq> CleanupFailed \<Longrightarrow> mac_work env (f, t) (f', t')"

inductive_cases mac_workE: "mac_work env (f, t) (f', t')"

definition untouched :: "fs \<Rightarrow> MacOSTransaction \<Rightarrow> fs \<Rightarrow> MacOSTransaction \<Rightarrow> bool" where
  "untouched f0 t0 f t \<longleftrightarrow> no_links f \<and> t\<lparr>mt_discarded := False\<rparr> = t0 \<and>
     (\<forall>q. \<not> prefix (csegs (mt_runtime t0)) q \<longrightarrow> fs_get f q = fs_get f0 q) \<and>
     (mt_discarded t \<longrightarrow> (\<forall>q. prefix (csegs (mt_runtime t0)) q \<longrightarrow> fs_get f q = None))"

lemma Discard_untouched:
  assumes "is_abs (mt_runtime t0)" and "\<not> mt_accepted t0" and "untouched f0 t0 f t" and "Discard env f t = (f', t', e)"
  shows "untouched f0 t0 f' t'"
proof (cases "mt_discarded t \<or> mt_accepted t")
  case True
  then show ?thesis using assms(3,4) by (simp add: Discard_def)
next
  case False
  obtain ok where rm: "remove_all env f (mt_runtime t) = (f', ok)" and t': "t' = (if ok then t\<lparr>mt_discarded := True\<rparr> else t)"
    using assms(4) False by (auto simp: Discard_def split: prod.splits bool.splits)
  have u: "no_links f" "t\<lparr>mt_discarded := False\<rparr> = t0" and same: "mt_runtime t = mt_runtime t0"
    using assms(3) by (auto simp: untouched_def)
  from remove_all_no_links [OF u(1) _ rm] assms(1,3) same t' False show ?thesis by (auto simp: untouched_def)
qed

lemma Accept_refused:
  "Accept env f t d = (f', t', Some e) \<Longrightarrow> (\<And>a. e \<noteq> AcceptFailed a) \<Longrightarrow> e \<noteq> CleanupFailed \<Longrightarrow> f' = f \<and> t' = t"
  by (auto simp: Accept_def split: if_splits sum.splits prod.splits option.splits bool.splits)

lemma mac_work_untouched:
  assumes "is_abs (mt_runtime t0)" and "\<not> mt_accepted t0" and "(mac_work env)\<^sup>*\<^sup>* (f, t) (f', t')" and "untouched f0 t0 f t"
  shows "untouched f0 t0 f' t'"
  using assms(3,4)
proof (induction "(f', t')" arbitrary: f' t' rule: rtranclp_induct)
  case (step y)
  obtain g s where y: "y = (g, s)" by (rule prod.exhaust)
  have u: "untouched f0 t0 g s" using step.hyps(3) step.prems y by blast
  from step.hyps(2)[unfolded y] show ?case
  proof (rule mac_workE)
    show "untouched f0 t0 f' t'" if "Discard env g s = (f', t', e)" for e
      by (rule Discard_untouched [OF assms(1,2) u that])
    show "untouched f0 t0 f' t'" if "Recover env g s = (f', t', e)" for e
      using that unfolding Recover_def by (rule Discard_untouched [OF assms(1,2) u])
    show "untouched f0 t0 f' t'" if "Accept env g s d = (f', t', Some e)" "\<And>a. e \<noteq> AcceptFailed a" "e \<noteq> CleanupFailed" for d e
      using Accept_refused [OF that] u by simp
  qed (use u in \<open>auto simp: untouched_def\<close>)
qed simp

text \<open>
  Nothing reaches the workspace before it is accepted: from a transaction that \<open>PrepareAt\<close> made on,
  whatever the agent writes below the runtime root and however often the transaction is discarded or
  recovered, with or without an error, or an acceptance refused, the workspace is as it was before the run; once it is
  discarded, nothing is left of the runtime root.
\<close>

theorem unaccepted_run_keeps_workspace:
  assumes "no_links f0" and "cwd_ok env" and "confined_clone env"
    and "PrepareAt env f0 ws root = (f, Inr t)" and "(mac_work env)\<^sup>*\<^sup>* (f, t) (f', t')"
  shows "(\<forall>q n. prefix (csegs (mt_workspace t)) q \<longrightarrow> fs_get f0 q = Some n \<longrightarrow> fs_get f' q = Some n) \<and>
     (mt_discarded t' \<longrightarrow> (\<forall>q. prefix (csegs (mt_runtime t)) q \<longrightarrow> fs_get f' q = None))"
proof -
  note P = PrepareAt_Inr [OF assms(2,1,4)]
  then have s: "is_abs (mt_workspace t)" "is_abs (mt_runtime t)" "\<not> is_within (mt_workspace t) (mt_runtime t)"
    "\<not> is_within (mt_runtime t) (mt_workspace t)" by (auto simp: sound_tx_def)
  have "go_abs env root = Some (mt_runtime t)"
    using assms(4) by (auto simp: PrepareAt_def Let_def split: sum.splits option.splits if_splits prod.splits bool.splits)
  from prepare_keeps_outside [OF assms(1-3) this assms(4)]
  have k: "no_links f" "fs_get f q = Some n" if "fs_get f0 q = Some n" "\<not> prefix (csegs (mt_runtime t)) q" for q n
    using that by (auto simp: kept_outside_def)
  have nl: "no_links f" using prepare_keeps_outside [OF assms(1-3) \<open>go_abs env root = _\<close> assms(4)] by (simp add: kept_outside_def)
  have "untouched f t f t" using P nl by (cases t) (simp add: untouched_def)
  with mac_work_untouched [OF s(2) _ assms(5)] P have "untouched f t f' t'" by blast
  then show ?thesis using k separate_roots [OF s] unfolding untouched_def by metis
qed
subsection \<open>The contract of a transaction\<close>

text \<open>
  The interface \<open>Transaction\<close> of \<open>platform/backend.go\<close>, as its callers rely on it: an operation that
  succeeds closes the transaction, one that fails leaves it open, and a closed one does nothing.
\<close>

locale backend_transaction =
  fixes live :: "'t \<Rightarrow> bool"
    and drop_tx :: "'f \<Rightarrow> 't \<Rightarrow> 'f \<times> 't \<times> 'e option"
    and install :: "'f \<Rightarrow> 't \<Rightarrow> path \<Rightarrow> 'f \<times> 't \<times> 'e option"
  assumes drop_closed: "\<not> live t \<Longrightarrow> drop_tx f t = (f, t, None)"
    and install_closed: "\<not> live t \<Longrightarrow> \<exists>e. install f t d = (f, t, Some e)"
    and drop_done: "live t \<Longrightarrow> drop_tx f t = (f', t', e) \<Longrightarrow> (if e = None then \<not> live t' else t' = t)"
    and install_done: "live t \<Longrightarrow> install f t d = (f', t', e) \<Longrightarrow> (if e = None then \<not> live t' else t' = t)"

datatype tx_op = Drop | Install path

text \<open>A sequence of operations, with the successes of the acceptances.\<close>

fun tx_run :: "('f \<Rightarrow> 't \<Rightarrow> 'f \<times> 't \<times> 'e option) \<Rightarrow> ('f \<Rightarrow> 't \<Rightarrow> path \<Rightarrow> 'f \<times> 't \<times> 'e option) \<Rightarrow>
    tx_op list \<Rightarrow> 'f \<Rightarrow> 't \<Rightarrow> 'f \<times> 't \<times> bool list" where
  "tx_run drp ins [] f t = (f, t, [])"
| "tx_run drp ins (Drop # ops) f t = (case drp f t of (f1, t1, _) \<Rightarrow> tx_run drp ins ops f1 t1)"
| "tx_run drp ins (Install d # ops) f t =
     (case ins f t d of (f1, t1, e) \<Rightarrow> (case tx_run drp ins ops f1 t1 of (f2, t2, bs) \<Rightarrow> (f2, t2, (e = None) # bs)))"

context backend_transaction
begin

lemma closed_is_inert:
  "\<not> live t \<Longrightarrow> tx_run drop_tx install ops f t = (f', t', bs) \<Longrightarrow> f' = f \<and> t' = t \<and> True \<notin> set bs"
proof (induction ops arbitrary: bs)
  case (Cons x ops)
  show ?case
  proof (cases x)
    case Drop
    then show ?thesis using Cons.IH [OF Cons.prems(1), of bs] Cons.prems drop_closed [of t f] by simp
  next
    case (Install d)
    obtain e where e: "install f t d = (f, t, Some e)" using install_closed [OF Cons.prems(1)] by blast
    obtain bs1 where "tx_run drop_tx install ops f t = (f', t', bs1)" "bs = False # bs1"
      using Cons.prems(2) Install e by (auto split: prod.splits)
    then show ?thesis using Cons.IH [OF Cons.prems(1)] by simp
  qed
qed simp

lemma installed_once:
  "tx_run drop_tx install ops f t = (f', t', bs) \<Longrightarrow> length (filter (\<lambda>b. b) bs) \<le> 1"
proof (induction ops arbitrary: f t bs)
  case (Cons x ops)
  show ?case
  proof (cases x)
    case Drop
    then show ?thesis using Cons by (auto split: prod.splits)
  next
    case (Install d)
    obtain f1 t1 e where i: "install f t d = (f1, t1, e)" by (rule prod_cases3)
    obtain bs1 where r: "tx_run drop_tx install ops f1 t1 = (f', t', bs1)" and bs: "bs = (e = None) # bs1"
      using Cons.prems Install i by (auto split: prod.splits)
    show ?thesis
    proof (cases "e = None")
      case True
      then have "\<not> live t1" using i install_closed [of t f d] install_done [of t f d f1 t1 e] by (cases "live t") auto
      then have "True \<notin> set bs1" using closed_is_inert [OF _ r] by blast
      then have "filter (\<lambda>b. b) bs1 = []" by (induction bs1) auto
      then show ?thesis using bs by simp
    qed (use Cons.IH [OF r] bs in auto)
  qed
qed simp

end

interpretation mac_tx: backend_transaction "\<lambda>t. \<not> mt_discarded t \<and> \<not> mt_accepted t" "Discard env" "Accept env" for env
proof
  show "Discard env f t = (f, t, None)" if "\<not> (\<not> mt_discarded t \<and> \<not> mt_accepted t)" for f t
    using that by (auto simp: Discard_def)
  show "\<exists>e. Accept env f t d = (f, t, Some e)" if "\<not> (\<not> mt_discarded t \<and> \<not> mt_accepted t)" for f t d
    using that by (auto simp: Accept_def)
  show "if e = None then \<not> (\<not> mt_discarded t' \<and> \<not> mt_accepted t') else t' = t"
    if "\<not> mt_discarded t \<and> \<not> mt_accepted t" "Discard env f t = (f', t', e)" for f t f' t' e
    using that by (auto simp: Discard_def split: prod.splits bool.splits)
  show "if e = None then \<not> (\<not> mt_discarded t' \<and> \<not> mt_accepted t') else t' = t"
    if "\<not> mt_discarded t \<and> \<not> mt_accepted t" "Accept env f t d = (f', t', e)" for f t d f' t' e
    using that by (auto simp: Accept_def split: if_splits sum.splits prod.splits option.splits bool.splits)
qed

text \<open>
  A transaction is accepted at most once: in any sequence of discards and acceptances, with whatever
  destinations and failures, at most one acceptance succeeds.
\<close>

theorem transaction_accepted_once:
  assumes "tx_run (Discard env) (Accept env) ops f t = (f', t', bs)"
  shows "length (filter (\<lambda>b. b) bs) \<le> 1"
  using assms by (rule mac_tx.installed_once)

subsection \<open>Roots behind symbolic links\<close>

definition clone_tree :: "fs \<Rightarrow> segpath \<Rightarrow> segpath \<Rightarrow> fs \<times> bool" where
  "clone_tree f s d = (map (\<lambda>kv. (d @ drop (length s) (fst kv), snd kv)) (filter (\<lambda>kv. prefix s (fst kv) \<and> fst kv \<noteq> s) f) @ f, True)"

definition mac_demo :: mac_env where
  "mac_demo = \<lparr>mc_cwd = Some ''/'', mc_apply = demo_env, mc_sha = (\<lambda>c. c), mc_unread = (\<lambda>_. False), mc_lstat_fails = (\<lambda>_. False),
     mc_list_fails = (\<lambda>_. False), mc_kept = (\<lambda>_. None), mc_temp = None, mc_clone = clone_tree\<rparr>"

text \<open>
  \<open>PrepareAt\<close> resolves the workspace and not the runtime root, so a root reached through a symbolic
  link may lie in the workspace, which is then cloned into itself.
\<close>

lemma prepare_accepts_root_in_workspace:
  "case PrepareAt mac_demo [([''private''], NDir 493), ([''private'', ''ws''], NDir 493), ([''tmp''], NLink 511 ''/private'')] ''/private/ws'' ''/tmp/ws/rt'' of
     (f', Inr t) \<Rightarrow> phys f' (csegs (mt_runtime t)) = Some [''private'', ''ws'', ''rt''] \<and> mt_workspace t = ''/private/ws''
   | (f', Inl e) \<Rightarrow> False"
  by code_simp

text \<open>\<open>DiscardMacOSRuntime\<close> resolves neither, so it may remove a workspace that lies in the root.\<close>

lemma discard_removes_linked_workspace:
  "stat_dir [([''private''], NDir 493), ([''private'', ''rt''], NDir 493), ([''private'', ''rt'', ''ws''], NDir 493), ([''tmp''], NLink 511 ''/private'')]
       (csegs ''/private/rt/ws'') \<and>
   (case DiscardMacOSRuntime mac_demo [([''private''], NDir 493), ([''private'', ''rt''], NDir 493), ([''private'', ''rt'', ''ws''], NDir 493),
           ([''tmp''], NLink 511 ''/private'')] ''/tmp/rt'' ''/private/rt/ws'' of
      (f', e) \<Rightarrow> e = None \<and> fs_get f' [''private'', ''rt'', ''ws''] = None)"
  by code_simp

subsection \<open>Witnesses\<close>

definition mac_ws :: fs where
  "mac_ws = [([''ws''], NDir 493), ([''ws'', ''a''], NFile 420 ''A'')]"

definition mac_view :: fs where
  "mac_view = [([''rt'', ''view'', ''a''], NFile 420 ''A''), ([''rt'', ''view''], NDir 448), ([''rt''], NDir 448),
     ([''ws''], NDir 493), ([''ws'', ''a''], NFile 420 ''A'')]"

definition mac_tx :: MacOSTransaction where
  "mac_tx = \<lparr>mt_workspace = ''/ws'', mt_runtime = ''/rt'', mt_view = ''/rt/view'', mt_base = mk_manifest [file_entry ''a'' ''41''],
     mt_discarded = False, mt_accepted = False\<rparr>"

definition mac_done :: fs where
  "mac_done = [([''ws'', ''a''], NFile 420 ''B''), ([''ws''], NDir 493)]"

definition mac_edited :: fs where
  "mac_edited = fs_put [''rt'', ''view'', ''a''] (NFile 420 ''B'') mac_view"

lemma mac_demo_eval:
  "PrepareAt mac_demo mac_ws ''/ws'' ''/rt'' = (mac_view, Inr mac_tx)"
  "Accept mac_demo mac_edited mac_tx ''/ws'' = (mac_done, mac_tx\<lparr>mt_accepted := True\<rparr>, None)"
  "csegs ''/ws'' = [''ws'']" "csegs ''/rt'' = [''rt'']" "csegs ''/rt/view'' = [''rt'', ''view'']"
  "is_within ''/ws'' ''/rt'' = False" "is_within ''/rt'' ''/ws'' = False" "view_of ''/rt'' = ''/rt/view''"
  "go_abs mac_demo ''/rt'' = Some ''/rt''" "go_abs mac_demo ''/ws'' = Some ''/ws''"
  "DiscardMacOSRuntime mac_demo mac_view ''/rt'' ''/ws'' = (mac_ws, None)"
  "Discard mac_demo mac_edited mac_tx = (mac_ws, mac_tx\<lparr>mt_discarded := True\<rparr>, None)"
  "resolveDirectory mac_demo mac_edited ''/ws'' = Inr ''/ws''"
  "is_ok (mac_Diff mac_demo mac_edited mac_tx)"
  by code_simp+
lemma mac_no_links: "no_links mac_ws" "no_links mac_view" "no_links mac_edited" "cwd_ok mac_demo"
  by (auto simp: no_links_def mac_ws_def mac_view_def mac_edited_def fs_put_def cwd_ok_def mac_demo_def)

lemma mac_confined: "confined_clone mac_demo"
proof -
  have "map_of (map (\<lambda>kv. (d @ drop (length s) (fst kv), snd kv)) g @ f) q = map_of f q" if "\<not> prefix d q" for s d q and f g :: fs
    using that by (induction g) (auto simp: prefix_def)
  moreover have "no_links (map (\<lambda>kv. (d @ drop (length s) (fst kv), snd kv)) (filter P f) @ f)" if "no_links f" for f s d P
    using that unfolding no_links_def by fastforce
  ultimately show ?thesis
    by (auto simp: confined_clone_def mac_demo_def clone_tree_def fs_get_def simp del: map_of_append)
qed

lemma discarded_runtime_keeps_workspace_witness:
  "fs_get mac_ws [''ws'', ''a''] = fs_get mac_view [''ws'', ''a''] \<and> DiscardMacOSRuntime mac_demo mac_ws ''/rt'' ''/ws'' = (mac_ws, None)"
  using discarded_runtime_keeps_workspace [OF mac_no_links(2,4) mac_demo_eval(9,10,11)] by (simp add: mac_demo_eval)

lemma prepare_keeps_outside_witness: "fs_get mac_view [''ws'', ''a''] = Some (NFile 420 ''A'')"
  using prepare_keeps_outside [OF mac_no_links(1,4) mac_confined mac_demo_eval(9,1)]
  by (simp add: kept_outside_def mac_demo_eval) (simp add: mac_ws_def fs_get_def)

lemma mac_sound: "sound_tx mac_tx"
  by (simp add: sound_tx_def mac_tx_def mac_demo_eval)

lemma accepted_view_is_installed_witness:
  "\<exists>current candidate. mac_build mac_demo mac_edited ''/ws'' = Inr current \<and> can_apply (Check (mt_base mac_tx) current candidate) \<and>
     fs_get mac_done [''rt'', ''view''] = None"
  using accepted_view_is_installed [OF mac_no_links(3) mac_sound mac_demo_eval(2)]
  by (auto simp: mac_tx_def mac_demo_eval)

lemma recorded_accept_is_live_accept_witness:
  "\<exists>changes. AcceptMacOSRuntime mac_demo mac_edited ''/ws'' ''/rt'' (mt_base mac_tx) = (mac_done, changes, None)"
proof -
  obtain changes where c: "mac_Diff mac_demo mac_edited mac_tx = Inr changes" using mac_demo_eval(14) by (auto simp: is_ok_iff)
  have t: "mt_workspace mac_tx = ''/ws''" "mt_runtime mac_tx = ''/rt''" by (simp_all add: mac_tx_def)
  have "\<not> mc_lstat_fails mac_demo p" for p by (simp add: mac_demo_def)
  from recorded_accept_is_live_accept [OF mac_no_links(4,1) mac_demo_eval(1) mac_no_links(3) _ this c]
  show ?thesis by (simp add: t mac_demo_eval)
qed

lemma unaccepted_run_keeps_workspace_witness:
  "fs_get mac_ws [''ws'', ''a''] = Some (NFile 420 ''A'') \<and> fs_get mac_ws [''rt'', ''view''] = None"
proof -
  have "fs_get mac_edited q = fs_get mac_view q" if "\<not> prefix (csegs (mt_runtime mac_tx)) q" for q
    using that by (auto simp: mac_edited_def mac_tx_def mac_demo_eval)
  then have "mac_work mac_demo (mac_view, mac_tx) (mac_edited, mac_tx)"
    by (intro mac_work.agent) (simp_all add: mac_no_links mac_tx_def)
  moreover have "mac_work mac_demo (mac_edited, mac_tx) (mac_ws, mac_tx\<lparr>mt_discarded := True\<rparr>)"
    using mac_demo_eval(12) by (rule mac_work.discard)
  ultimately have "(mac_work mac_demo)\<^sup>*\<^sup>* (mac_view, mac_tx) (mac_ws, mac_tx\<lparr>mt_discarded := True\<rparr>)"
    by (rule converse_rtranclp_into_rtranclp [OF _ r_into_rtranclp])
  from unaccepted_run_keeps_workspace [OF mac_no_links(1,4) mac_confined mac_demo_eval(1) this]
  have "\<forall>q n. prefix [''ws''] q \<longrightarrow> fs_get mac_ws q = Some n \<longrightarrow> fs_get mac_ws q = Some n"
    "\<forall>q. prefix [''rt''] q \<longrightarrow> fs_get mac_ws q = None" by (simp_all add: mac_tx_def mac_demo_eval)
  then show ?thesis by (simp add: mac_ws_def fs_get_def)
qed

lemma transaction_accepted_once_witness:
  "tx_run (Discard mac_demo) (Accept mac_demo) [Install ''/ws'', Install ''/ws''] mac_edited mac_tx =
     (mac_done, mac_tx\<lparr>mt_accepted := True\<rparr>, [True, False]) \<and> length (filter (\<lambda>b. b) [True, False]) \<le> 1"
proof -
  have "tx_run (Discard mac_demo) (Accept mac_demo) [Install ''/ws'', Install ''/ws''] mac_edited mac_tx =
     (mac_done, mac_tx\<lparr>mt_accepted := True\<rparr>, [True, False])" by code_simp
  from transaction_accepted_once [OF this] this show ?thesis by simp
qed

end
