(* ===== verification/Native_Run.thy ===== *)
theory Native_Run
  imports Run_Flow Native_Record Policy_Engine Pii_Scan Lifecycle Macos_Backend
begin

text \<open>
  The native runs of the command line on macOS (\<open>cmd/rewind/native_darwin.go\<close>): the paths the policy
  denies are moved out of the view before the agent starts and put back afterwards, and a recorded run
  is committed or rolled back.  The file system is that of the transaction (\<open>Macos_Backend\<close>).
\<close>

subsection \<open>Renaming\<close>

text \<open>\<open>os.Rename\<close>: the tree at a place is moved to another, which is no directory.\<close>

definition move_tree :: "segpath \<Rightarrow> segpath \<Rightarrow> fs \<Rightarrow> fs" where
  "move_tree s d f = map (\<lambda>kv. if prefix s (fst kv) then (d @ drop (length s) (fst kv), snd kv) else kv) (fs_remove d f)"

definition os_rename :: "fs \<Rightarrow> segpath \<Rightarrow> segpath \<Rightarrow> fs option" where
  "os_rename f p q =
     (case (phys_last f p, phys_last f q) of
        (Some s, Some d) \<Rightarrow>
          (case fs_get f s of
             None \<Rightarrow> None
           | Some n \<Rightarrow>
               if s = d then (if is_dir n then None else Some f)
               else if d = [] \<or> \<not> stat_dir f (butlast d) then None
               else (case fs_get f d of
                       None \<Rightarrow> if prefix s d then None else Some (move_tree s d f)
                     | Some m \<Rightarrow> if is_dir m \<or> is_dir n then None else Some (move_tree s d f)))
      | _ \<Rightarrow> None)"

subsection \<open>Hiding and restoring\<close>

record hiddenNativePath =
  hd_original :: path
  hd_hidden :: path

datatype hide_error = HideAbs | HideRoot | HideEscapes path | HideInspect | HideDir | HideRename path
  | RestoreInspect | RestoreRemove | RestoreDir | RestoreRename

text \<open>
  One round of the loop of \<open>hideNativePaths\<close>.  A failing \<open>Lstat\<close> is one that fails for another reason
  than that nothing is there.
\<close>

definition hide_path ::
  "mac_env \<Rightarrow> (segpath \<Rightarrow> bool) \<Rightarrow> path \<Rightarrow> path \<Rightarrow> fs \<Rightarrow> hiddenNativePath list \<Rightarrow> path \<Rightarrow> fs \<times> (hide_error + hiddenNativePath list)"
where
  "hide_path env stuck view hroot f res path =
     (case go_abs env path of
        None \<Rightarrow> (f, Inl HideAbs)
      | Some p \<Rightarrow>
     (case rel_path view p of
        None \<Rightarrow> (f, Inl (HideEscapes p))
      | Some rel \<Rightarrow>
      if escapes rel \<or> rel = dot then (f, Inl (HideEscapes p))
      else if mc_lstat_fails env (csegs p) then (f, Inl HideInspect)
      else if lstat_node f (csegs p) = None then (f, Inr res)
      else if list_ex (\<lambda>h. hd_original h = p \<or> within (hd_original h) p) res then (f, Inr res)
      else
       let targ = path_join hroot rel in
     (case MkdirAll (env_umask (mc_apply env)) 448 f (butlast (csegs targ)) of
        None \<Rightarrow> (f, Inl HideDir)
      | Some f1 \<Rightarrow>
     (if stuck (csegs p) then (f1, Inl (HideRename rel))
      else (case os_rename f1 (csegs p) (csegs targ) of
        None \<Rightarrow> (f1, Inl (HideRename rel))
      | Some f2 \<Rightarrow> (f2, Inr (res @ [\<lparr>hd_original = p, hd_hidden = targ\<rparr>])))))))"

fun hide_paths ::
  "mac_env \<Rightarrow> (segpath \<Rightarrow> bool) \<Rightarrow> path \<Rightarrow> path \<Rightarrow> fs \<Rightarrow> hiddenNativePath list \<Rightarrow> path list \<Rightarrow> fs \<times> (hide_error + hiddenNativePath list)"
where
  "hide_paths env stuck view hroot f res [] = (f, Inr res)"
| "hide_paths env stuck view hroot f res (p # ps) =
     (case hide_path env stuck view hroot f res p of
        (f1, Inl e) \<Rightarrow> (f1, Inl e)
      | (f1, Inr res1) \<Rightarrow> hide_paths env stuck view hroot f1 res1 ps)"

text \<open>\<open>srt\<close> sorts by length; the order of paths of one length is left open by \<open>sort.Slice\<close>.\<close>

definition hideNativePaths ::
  "(path list \<Rightarrow> path list) \<Rightarrow> mac_env \<Rightarrow> (segpath \<Rightarrow> bool) \<Rightarrow> fs \<Rightarrow> path \<Rightarrow> path \<Rightarrow> path list \<Rightarrow> fs \<times> (hide_error + hiddenNativePath list)"
where
  "hideNativePaths srt env stuck f view runtimeRoot paths =
     (case go_abs env view of
        None \<Rightarrow> (f, Inl HideAbs)
      | Some v \<Rightarrow>
          let hroot = path_join runtimeRoot ''hidden'' in
         (case MkdirAll (env_umask (mc_apply env)) 448 f (csegs hroot) of
            None \<Rightarrow> (f, Inl HideRoot)
          | Some f1 \<Rightarrow> hide_paths env stuck v hroot f1 [] (srt paths)))"

definition restore_path :: "mac_env \<Rightarrow> (segpath \<Rightarrow> bool) \<Rightarrow> fs \<Rightarrow> hiddenNativePath \<Rightarrow> fs \<times> hide_error option" where
  "restore_path env stuck f h =
     (if mc_lstat_fails env (csegs (hd_hidden h)) then (f, Some RestoreInspect)
      else if lstat_node f (csegs (hd_hidden h)) = None then (f, None)
      else (case remove_all env f (hd_original h) of
        (f1, False) \<Rightarrow> (f1, Some RestoreRemove)
      | (f1, True) \<Rightarrow>
     (case MkdirAll (env_umask (mc_apply env)) 448 f1 (butlast (csegs (hd_original h))) of
        None \<Rightarrow> (f1, Some RestoreDir)
      | Some f2 \<Rightarrow>
     (if stuck (csegs (hd_hidden h)) then (f2, Some RestoreRename)
      else (case os_rename f2 (csegs (hd_hidden h)) (csegs (hd_original h)) of
        None \<Rightarrow> (f2, Some RestoreRename)
      | Some f3 \<Rightarrow> (f3, None))))))"

fun restore_paths :: "mac_env \<Rightarrow> (segpath \<Rightarrow> bool) \<Rightarrow> fs \<Rightarrow> hiddenNativePath list \<Rightarrow> fs \<times> hide_error option" where
  "restore_paths env stuck f [] = (f, None)"
| "restore_paths env stuck f (h # hs) =
     (case restore_path env stuck f h of
        (f1, Some e) \<Rightarrow> (f1, Some e)
      | (f1, None) \<Rightarrow> restore_paths env stuck f1 hs)"

definition restoreNativePaths :: "mac_env \<Rightarrow> (segpath \<Rightarrow> bool) \<Rightarrow> fs \<Rightarrow> hiddenNativePath list \<Rightarrow> fs \<times> hide_error option" where
  "restoreNativePaths env stuck f hs = restore_paths env stuck f (rev hs)"
subsection \<open>Moving a tree\<close>

definition apart :: "segpath \<Rightarrow> segpath \<Rightarrow> bool" where
  "apart a b \<longleftrightarrow> \<not> prefix a b \<and> \<not> prefix b a"

lemma apart_sym: "apart a b \<Longrightarrow> apart b a"
  by (simp add: apart_def)

lemma apart_prefix: "apart a b \<Longrightarrow> prefix a q \<Longrightarrow> \<not> prefix b q \<and> \<not> prefix q b"
  unfolding apart_def by (metis prefix_same_cases prefix_order.trans)

lemma apart_below: "apart a b \<Longrightarrow> apart (a @ x) (b @ y)"
  unfolding apart_def by (metis prefixI prefix_same_cases prefix_order.trans)

lemma apart_extend: "apart x y \<Longrightarrow> apart (a @ x) (a @ y)"
  by (simp add: apart_def)

lemma prefix_drop: "prefix a q \<Longrightarrow> a @ drop (length a) q = q"
  by (auto simp: prefix_def)

lemma move_key:
  assumes "apart s d" and "\<not> prefix d k"
  shows "(if prefix s k then d @ drop (length s) k else k) = q \<longleftrightarrow>
     (if prefix d q then k = s @ drop (length d) q else \<not> prefix s q \<and> k = q)"
  using assms by (auto simp: apart_def prefix_def)

lemma move_get:
  assumes "apart s d"
  shows "fs_get (move_tree s d f) q =
     (if prefix d q then fs_get f (s @ drop (length d) q) else if prefix s q then None else fs_get f q)"
proof (induction f)
  case Nil
  then show ?case by (simp add: move_tree_def fs_remove_def fs_get_def)
next
  case (Cons a f)
  obtain k n where a: "a = (k, n)" by (cases a)
  show ?case
  proof (cases "prefix d k")
    case True
    have "fs_get (a # f) (s @ drop (length d) q) = fs_get f (s @ drop (length d) q)"
      using apart_prefix [OF apart_sym [OF assms] True] a by (auto simp: fs_get_def)
    moreover have "move_tree s d (a # f) = move_tree s d f" using True a by (simp add: move_tree_def fs_remove_def)
    moreover have "fs_get (a # f) q = fs_get f q" if "\<not> prefix d q" using that True a by (auto simp: fs_get_def)
    ultimately show ?thesis using Cons by simp
  next
    case False
    let ?k = "if prefix s k then d @ drop (length s) k else k"
    have "move_tree s d (a # f) = (?k, n) # move_tree s d f"
      using False a by (simp add: move_tree_def fs_remove_def)
    then have L: "fs_get (move_tree s d (a # f)) q = (if ?k = q then Some n else fs_get (move_tree s d f) q)"
      by (simp add: fs_get_def)
    have R: "fs_get (a # f) x = (if k = x then Some n else fs_get f x)" for x using a by (simp add: fs_get_def)
    show ?thesis unfolding L move_key [OF assms False] R Cons by (cases "prefix d q"; cases "prefix s q") simp_all
  qed
qed

lemma move_no_links: "no_links f \<Longrightarrow> no_links (move_tree s d f)"
  unfolding no_links_def move_tree_def fs_remove_def by fastforce

lemma rename_no_links:
  assumes "no_links f" and "dotdot \<notin> set s" and "dotdot \<notin> set d" and "os_rename f s d = Some f'" and "s \<noteq> d"
  shows "f' = move_tree s d f" and "fs_get f s \<noteq> None"
  using assms(4,5) phys_last_no_links [OF assms(1,2)] phys_last_no_links [OF assms(1,3)]
  by (auto simp: os_rename_def split: option.splits if_splits)

lemma mkdir_keeps:
  assumes "no_links f" and "dotdot \<notin> set p" and "MkdirAll u m f p = Some f'"
  shows "no_links f'" and "fs_get f q \<noteq> None \<Longrightarrow> fs_get f' q = fs_get f q" and "\<not> prefix q p \<Longrightarrow> fs_get f' q = fs_get f q"
proof -
  have g: "grown (m AND NOT u) f f' p" by (rule MkdirAll_grown [OF plain_way_no_links [OF assms(1)] assms(2,3)])
  show "no_links f'" by (rule MkdirAll_no_links [OF assms(1,3)])
  show "fs_get f q \<noteq> None \<Longrightarrow> fs_get f' q = fs_get f q" using g by (auto simp: grown_def)
  show "\<not> prefix q p \<Longrightarrow> fs_get f' q = fs_get f q"
    using g unfolding grown_def by (cases "fs_get f q"; cases "fs_get f' q") fastforce+
qed

text \<open>A tree is moved to a place whose directory is made first.\<close>

definition shift :: "mac_env \<Rightarrow> fs \<Rightarrow> segpath \<Rightarrow> segpath \<Rightarrow> fs option" where
  "shift env f s d = (case MkdirAll (env_umask (mc_apply env)) 448 f (butlast d) of None \<Rightarrow> None | Some f1 \<Rightarrow> os_rename f1 s d)"

lemma shift_facts:
  assumes "no_links f" and "dotdot \<notin> set s" and "dotdot \<notin> set d" and "apart s d" and "shift env f s d = Some f'"
  shows "no_links f'" and "\<And>x. fs_get f' (d @ x) = fs_get f (s @ x)" and "\<And>q. prefix s q \<Longrightarrow> fs_get f' q = None"
    and "\<And>q. \<not> prefix s q \<Longrightarrow> \<not> prefix q d \<Longrightarrow> \<not> prefix d q \<Longrightarrow> fs_get f' q = fs_get f q"
    and "\<And>q n. \<not> prefix s q \<Longrightarrow> \<not> prefix d q \<Longrightarrow> fs_get f q = Some n \<Longrightarrow> fs_get f' q = Some n"
proof -
  obtain f1 where m: "MkdirAll (env_umask (mc_apply env)) 448 f (butlast d) = Some f1" and r: "os_rename f1 s d = Some f'"
    using assms(5) by (auto simp: shift_def split: option.splits)
  have dd: "dotdot \<notin> set (butlast d)" using assms(3) by (auto dest: in_set_butlastD)
  note k = mkdir_keeps [OF assms(1) dd m]
  have "s \<noteq> d" using assms(4) by (auto simp: apart_def)
  note f' = rename_no_links(1) [OF k(1) assms(2,3) r this] and get = move_get [OF assms(4), of f1]
  have bl: "prefix q (butlast d) \<Longrightarrow> prefix q d" for q by (metis prefix_order.trans prefixeq_butlast)
  show "no_links f'" unfolding f' by (rule move_no_links [OF k(1)])
  show "fs_get f' (d @ x) = fs_get f (s @ x)" for x
    using k(3) [of "s @ x"] apart_prefix [OF assms(4), of "s @ x"] bl unfolding f' get by auto
  show "fs_get f' q = None" if "prefix s q" for q
    using that apart_prefix [OF assms(4) that] unfolding f' get by auto
  show "fs_get f' q = fs_get f q" if "\<not> prefix s q" "\<not> prefix q d" "\<not> prefix d q" for q
    using that k(3) bl unfolding f' get by auto
  show "fs_get f' q = Some n" if "\<not> prefix s q" "\<not> prefix d q" "fs_get f q = Some n" for q n
    using that k(2) unfolding f' get by auto
qed
subsection \<open>What hiding does\<close>

text \<open>
  The trees at the relative places \<open>rs\<close> were moved from the view \<open>V\<close> to the hidden root \<open>H\<close>; all else
  in the view is as it was in \<open>f0\<close>.
\<close>

definition moved_out :: "segpath \<Rightarrow> segpath \<Rightarrow> fs \<Rightarrow> fs \<Rightarrow> segpath list \<Rightarrow> bool" where
  "moved_out V H f0 f rs \<longleftrightarrow> no_links f \<and> distinct rs \<and> (\<forall>r \<in> set rs. \<forall>r' \<in> set rs. r \<noteq> r' \<longrightarrow> apart r r') \<and>
     (\<forall>q. prefix V q \<longrightarrow> fs_get f q = (if \<exists>r \<in> set rs. prefix (V @ r) q then None else fs_get f0 q)) \<and>
     (\<forall>r \<in> set rs. \<forall>x. fs_get f (H @ r @ x) = fs_get f0 (V @ r @ x)) \<and> (\<forall>r \<in> set rs. fs_get f0 (V @ r) \<noteq> None)"

definition place :: "segpath \<Rightarrow> segpath \<Rightarrow> hiddenNativePath \<Rightarrow> segpath \<Rightarrow> bool" where
  "place V H h r \<longleftrightarrow> is_abs (hd_original h) \<and> is_abs (hd_hidden h) \<and> csegs (hd_original h) = V @ r \<and> csegs (hd_hidden h) = H @ r"

definition listed :: "segpath \<Rightarrow> segpath \<Rightarrow> hiddenNativePath list \<Rightarrow> segpath list \<Rightarrow> bool" where
  "listed V H hs rs \<longleftrightarrow> list_all2 (place V H) hs rs"

lemma listed_left: "listed V H hs rs \<Longrightarrow> h \<in> set hs \<Longrightarrow> \<exists>r \<in> set rs. place V H h r"
  unfolding listed_def by (induction hs rs rule: list_all2_induct) (auto simp: place_def)

lemma listed_right: "listed V H hs rs \<Longrightarrow> r \<in> set rs \<Longrightarrow> \<exists>h \<in> set hs. place V H h r"
  unfolding listed_def by (induction hs rs rule: list_all2_induct) (auto simp: place_def)

definition gone :: "segpath \<Rightarrow> fs \<Rightarrow> segpath list \<Rightarrow> path \<Rightarrow> bool" where
  "gone V f0 rs p \<longleftrightarrow> prefix V (csegs p) \<and> ((\<exists>r \<in> set rs. prefix (V @ r) (csegs p)) \<or> fs_get f0 (csegs p) = None)"

lemma gone_mono: "gone V f0 rs p \<Longrightarrow> set rs \<subseteq> set rs' \<Longrightarrow> gone V f0 rs' p"
  by (auto simp: gone_def)

lemma moved_one:
  assumes inv: "moved_out V H f0 f rs" and VH: "apart V H" and dd: "dotdot \<notin> set (V @ r)" "dotdot \<notin> set (H @ r)"
    and new: "\<And>r'. r' \<in> set rs \<Longrightarrow> apart r r'" and there: "fs_get f (V @ r) \<noteq> None" and sh: "shift env f (V @ r) (H @ r) = Some f'"
  shows "moved_out V H f0 f' (rs @ [r])"
proof -
  have nl: "no_links f" using inv by (simp add: moved_out_def)
  have ap: "apart (V @ r) (H @ r)" using VH by (rule apart_below)
  note s = shift_facts [OF nl dd ap sh]
  have A: "fs_get f q = (if \<exists>r \<in> set rs. prefix (V @ r) q then None else fs_get f0 q)" if "prefix V q" for q
    using inv that by (simp add: moved_out_def)
  have B: "fs_get f (H @ r' @ x) = fs_get f0 (V @ r' @ x)" if "r' \<in> set rs" for r' x using inv that by (simp add: moved_out_def)
  have nh: "\<not> prefix (V @ r') (V @ r @ x)" if "r' \<in> set rs" for r' x
    using apart_prefix [OF apart_extend [OF new [OF that]], of V "V @ r @ x"] by simp
  have same: "fs_get f (V @ r @ x) = fs_get f0 (V @ r @ x)" for x using A [of "V @ r @ x"] nh by auto
  have "fs_get f' q = (if \<exists>r' \<in> set (rs @ [r]). prefix (V @ r') q then None else fs_get f0 q)" if "prefix V q" for q
  proof (cases "prefix (V @ r) q")
    case True
    then show ?thesis using s(3) by auto
  next
    case False
    have "\<not> prefix q (H @ r)" "\<not> prefix (H @ r) q"
      using apart_prefix [OF VH that] by (auto dest: prefix_order.trans append_prefixD) (metis VH apart_def prefixI prefix_order.trans prefix_same_cases that)
    then show ?thesis using s(4) False A [OF that] by auto
  qed
  moreover have "fs_get f' (H @ r' @ x) = fs_get f0 (V @ r' @ x)" if "r' \<in> set (rs @ [r])" for r' x
  proof (cases "r' = r")
    case True
    then show ?thesis using s(2) [of x] same by simp
  next
    case False
    then have r': "r' \<in> set rs" using that by simp
    have "apart (H @ r) (H @ r')" using new [OF r'] by (rule apart_extend)
    then have "\<not> prefix (H @ r' @ x) (H @ r) \<and> \<not> prefix (H @ r) (H @ r' @ x)"
      using apart_prefix [OF apart_sym, of "H @ r" "H @ r'" "H @ r' @ x"] by auto
    moreover have "\<not> prefix (V @ r) (H @ r' @ x)" using apart_prefix [OF apart_sym [OF VH], of "H @ r' @ x"] by (auto dest: append_prefixD)
    ultimately show ?thesis using s(4) [of "H @ r' @ x"] B [OF r'] by simp
  qed
  moreover have "fs_get f0 (V @ r) \<noteq> None" using there same [of "[]"] by simp
  moreover have "r \<notin> set rs" using new [of r] by (auto simp: apart_def)
  ultimately show ?thesis using inv s(1) new apart_sym [OF new] unfolding moved_out_def by auto
qed
lemma shorter_prefix:
  assumes "is_abs p" and "clean p = p" and "is_abs o'" and "clean o' = o'" and "prefix (csegs p) (csegs o')" and "csegs p \<noteq> csegs o'"
  shows "length p < length o'"
proof -
  obtain ys where ys: "csegs o' = csegs p @ ys" "ys \<noteq> []" using assms(5,6) by (auto simp: prefix_def)
  have "p = sep # join_with [sep] (csegs p)" "o' = sep # join_with [sep] (csegs o')" using assms(1-4) clean_abs by metis+
  moreover have "length (join_with [sep] (csegs p)) < length (join_with [sep] (csegs p @ ys))"
  proof (cases "csegs p = []")
    case True
    have "\<forall>x \<in> set ys. x \<noteq> []" using csegs_plain [of _ o'] ys by (auto simp: plain_seg_def)
    then show ?thesis using True ys(2) join_with_eq_Nil [of ys "[sep]"] by simp
  qed (use ys(2) in \<open>simp add: join_with_append\<close>)
  ultimately show ?thesis using ys(1) by (metis length_Cons not_less_eq)
qed

lemma relative_segments:
  assumes "is_abs v" and "is_abs p" and "is_abs h" and "rel_path v p = Some rel" and "\<not> escapes rel" and "rel \<noteq> dot"
  shows "\<exists>r. csegs p = csegs v @ r \<and> csegs (path_join h rel) = csegs h @ r \<and> dotdot \<notin> set r"
proof -
  have "is_within v p" using assms(4,5) by (simp add: is_within_def)
  then have pre: "prefix (csegs v) (csegs p)" using assms(1,2) by (simp add: is_within_prefix)
  define r where "r = drop (length (csegs v)) (csegs p)"
  have p: "csegs p = csegs v @ r" using pre by (auto simp: r_def prefix_def)
  have "rel = join_with [sep] r" using rel_path_prefix [OF assms(1,2) pre] assms(4,6) by (auto simp: r_def split: if_splits)
  moreover have "\<forall>x \<in> set r. plain_seg x" using csegs_plain [of _ p] p by auto
  ultimately have "segs rel = r" by (simp add: segs_join)
  moreover have "dotdot \<notin> set r" using csegs_no_dotdot [OF assms(2)] p by auto
  ultimately show ?thesis using csegs_join_plain [OF assms(3), of rel] p by auto
qed

lemma hide_path_Inr:
  assumes "go_abs env p = Some p" and "hide_path env stuck v h f res p = (f', Inr res')"
  obtains rel where "rel_path v p = Some rel" and "\<not> escapes rel" and "rel \<noteq> dot"
    and "(lstat_node f (csegs p) = None \<and> f' = f \<and> res' = res) \<or>
      (f' = f \<and> res' = res \<and> (\<exists>x \<in> set res. hd_original x = p \<or> within (hd_original x) p)) \<or>
      (lstat_node f (csegs p) \<noteq> None \<and> (\<forall>x \<in> set res. \<not> within (hd_original x) p) \<and>
       shift env f (csegs p) (csegs (path_join h rel)) = Some f' \<and> res' = res @ [\<lparr>hd_original = p, hd_hidden = path_join h rel\<rparr>])"
proof -
  obtain rel where rel: "rel_path v p = Some rel" "\<not> escapes rel" "rel \<noteq> dot"
    using assms by (auto simp: hide_path_def split: option.splits if_splits)
  have hp: "(if mc_lstat_fails env (csegs p) then (f, Inl HideInspect)
      else if lstat_node f (csegs p) = None then (f, Inr res)
      else if list_ex (\<lambda>h. hd_original h = p \<or> within (hd_original h) p) res then (f, Inr res)
      else (case MkdirAll (env_umask (mc_apply env)) 448 f (butlast (csegs (path_join h rel))) of
          None \<Rightarrow> (f, Inl HideDir)
        | Some f1 \<Rightarrow>
            (if stuck (csegs p) then (f1, Inl (HideRename rel))
             else (case os_rename f1 (csegs p) (csegs (path_join h rel)) of
                None \<Rightarrow> (f1, Inl (HideRename rel))
              | Some f2 \<Rightarrow> (f2, Inr (res @ [\<lparr>hd_original = p, hd_hidden = path_join h rel\<rparr>])))))) = (f', Inr res')"
    using assms rel unfolding hide_path_def Let_def by (simp only: option.case if_False simp_thms)
  show ?thesis
  proof (rule that [OF rel])
  qed (use hp in \<open>auto simp: shift_def list_ex_iff split: if_splits option.splits\<close>)
qed

lemma hide_step:
  assumes inv: "moved_out (csegs v) (csegs h) f0 f rs" and li: "listed (csegs v) (csegs h) res rs"
    and VH: "apart (csegs v) (csegs h)" and a: "is_abs v" "is_abs h" "is_abs p" "clean p = p"
    and ord: "\<And>x. x \<in> set res \<Longrightarrow> clean (hd_original x) = hd_original x \<and> length (hd_original x) \<le> length p"
    and hp: "hide_path env stuck v h f res p = (f', Inr res')"
  shows "\<exists>rs'. moved_out (csegs v) (csegs h) f0 f' rs' \<and> listed (csegs v) (csegs h) res' rs' \<and> set rs \<subseteq> set rs' \<and> gone (csegs v) f0 rs' p \<and>
     (\<forall>x \<in> set res'. x \<in> set res \<or> hd_original x = p)"
proof -
  have nl: "no_links f" using inv by (simp add: moved_out_def)
  have ga: "go_abs env p = Some p" using a by (simp add: go_abs_def)
  obtain rel where rel: "rel_path v p = Some rel" "\<not> escapes rel" "rel \<noteq> dot"
    and alt: "(lstat_node f (csegs p) = None \<and> f' = f \<and> res' = res) \<or>
      (f' = f \<and> res' = res \<and> (\<exists>x \<in> set res. hd_original x = p \<or> within (hd_original x) p)) \<or>
      (lstat_node f (csegs p) \<noteq> None \<and> (\<forall>x \<in> set res. \<not> within (hd_original x) p) \<and>
       shift env f (csegs p) (csegs (path_join h rel)) = Some f' \<and> res' = res @ [\<lparr>hd_original = p, hd_hidden = path_join h rel\<rparr>])"
    using hide_path_Inr [OF ga hp] by blast
  obtain r where r: "csegs p = csegs v @ r" "csegs (path_join h rel) = csegs h @ r" "dotdot \<notin> set r"
    using relative_segments [OF a(1,3,2) rel] by blast
  have dd: "dotdot \<notin> set (csegs v @ r)" "dotdot \<notin> set (csegs h @ r)" using csegs_no_dotdot a r(3) by auto
  have "csegs p \<noteq> []" using VH r(1) by (cases "csegs v") (auto simp: apart_def)
  then have ls: "lstat_node f (csegs p) = fs_get f (csegs p)"
    using phys_last_no_links [OF nl, of "csegs p"] dd r(1) by (auto simp: lstat_node_def)
  consider (absent) "fs_get f (csegs p) = None" "f' = f" "res' = res"
    | (nested) x where "x \<in> set res" "hd_original x = p \<or> within (hd_original x) p" "f' = f" "res' = res"
    | (moved) "fs_get f (csegs p) \<noteq> None" "\<forall>x \<in> set res. \<not> within (hd_original x) p"
        "shift env f (csegs p) (csegs (path_join h rel)) = Some f'" "res' = res @ [\<lparr>hd_original = p, hd_hidden = path_join h rel\<rparr>]"
    using alt unfolding ls by (elim disjE conjE bexE) simp_all
  then show ?thesis
  proof cases
    case absent
    have "fs_get f (csegs p) = (if \<exists>r' \<in> set rs. prefix (csegs v @ r') (csegs p) then None else fs_get f0 (csegs p))"
      using inv r(1) by (simp add: moved_out_def)
    with absent(1) have "gone (csegs v) f0 rs p" using r(1) by (simp add: gone_def split: if_splits)
    then show ?thesis using absent inv li by blast
  next
    case nested
    obtain r' where r': "r' \<in> set rs" "csegs (hd_original x) = csegs v @ r'" "is_abs (hd_original x)"
      using listed_left [OF li nested(1)] by (auto simp: place_def)
    have "prefix (csegs v @ r') (csegs p)" using nested(2) r'(2,3) a(3) by (auto simp: is_within_prefix)
    then have "gone (csegs v) f0 rs p" using r' r(1) by (auto simp: gone_def)
    then show ?thesis using nested inv li by blast
  next
    case moved
    have new: "apart r r'" if r': "r' \<in> set rs" for r'
    proof -
      obtain x where x: "x \<in> set res" "csegs (hd_original x) = csegs v @ r'" "is_abs (hd_original x)"
        using listed_right [OF li r'] by (auto simp: place_def)
      have n: "\<not> prefix r' r" using moved(2) x a(3) r(1) by (auto simp: is_within_prefix)
      moreover have "\<not> prefix r r'"
      proof
        assume "prefix r r'"
        then have "length p < length (hd_original x)"
          using shorter_prefix [OF a(3,4) x(3)] ord [OF x(1)] x(2) r(1) n by auto
        then show False using ord [OF x(1)] by simp
      qed
      ultimately show ?thesis by (simp add: apart_def)
    qed
    have "moved_out (csegs v) (csegs h) f0 f' (rs @ [r])"
      by (rule moved_one [OF inv VH dd new]) (use moved r in auto)
    moreover have "listed (csegs v) (csegs h) res' (rs @ [r])"
      using li moved(4) r a path_join_abs [OF a(2)] by (simp add: listed_def place_def list_all2_appendI)
    moreover have "gone (csegs v) f0 (rs @ [r]) p" using r(1) by (auto simp: gone_def)
    ultimately show ?thesis using moved(4) by (intro exI [of _ "rs @ [r]"]) auto
  qed
qed

lemma hide_paths_moved_out:
  assumes "moved_out (csegs v) (csegs h) f0 f rs" and "listed (csegs v) (csegs h) res rs" and "apart (csegs v) (csegs h)"
    and "is_abs v" and "is_abs h" and "\<forall>p \<in> set ps. is_abs p \<and> clean p = p" and "sorted (map length ps)"
    and "\<forall>x \<in> set res. clean (hd_original x) = hd_original x \<and> (\<forall>p \<in> set ps. length (hd_original x) \<le> length p)"
    and "hide_paths env stuck v h f res ps = (f', Inr res')"
  shows "\<exists>rs'. moved_out (csegs v) (csegs h) f0 f' rs' \<and> listed (csegs v) (csegs h) res' rs' \<and> set rs \<subseteq> set rs' \<and>
     (\<forall>p \<in> set ps. gone (csegs v) f0 rs' p)"
  using assms
proof (induction ps arbitrary: f res rs)
  case (Cons p ps)
  obtain f1 res1 where s: "hide_path env stuck v h f res p = (f1, Inr res1)" and rest: "hide_paths env stuck v h f1 res1 ps = (f', Inr res')"
    using Cons.prems(9) by (auto split: prod.splits sum.splits)
  obtain rs1 where r1: "moved_out (csegs v) (csegs h) f0 f1 rs1" "listed (csegs v) (csegs h) res1 rs1" "set rs \<subseteq> set rs1" "gone (csegs v) f0 rs1 p"
    "\<forall>x \<in> set res1. x \<in> set res \<or> hd_original x = p"
    using hide_step [OF Cons.prems(1-5) _ _ _ s] Cons.prems(6,8) by auto
  have "\<forall>x \<in> set res1. clean (hd_original x) = hd_original x \<and> (\<forall>p \<in> set ps. length (hd_original x) \<le> length p)"
    using r1(5) Cons.prems(6-8) by auto
  from Cons.IH [OF r1(1,2) Cons.prems(3-5) _ _ this rest] Cons.prems(6,7) obtain rs2
    where "moved_out (csegs v) (csegs h) f0 f' rs2" "listed (csegs v) (csegs h) res' rs2" "set rs1 \<subseteq> set rs2" "\<forall>p \<in> set ps. gone (csegs v) f0 rs2 p"
    by auto
  then show ?case using r1(3,4) gone_mono by (intro exI [of _ rs2]) auto
qed auto
subsection \<open>What restoring does\<close>

lemma restore_step:
  assumes nl: "no_links g" and VH: "apart V H" and pl: "place V H h r" and there: "fs_get g (H @ r) \<noteq> None" and ne: "H @ r \<noteq> []"
    and rp: "restore_path env stuck g h = (g', None)"
  shows "no_links g'" and "\<And>x. fs_get g' (V @ r @ x) = fs_get g (H @ r @ x)"
    and "\<And>r' x. apart r r' \<Longrightarrow> fs_get g' (H @ r' @ x) = fs_get g (H @ r' @ x)"
    and "\<And>r' x. apart r r' \<Longrightarrow> fs_get g' (V @ r' @ x) = fs_get g (V @ r' @ x)"
proof -
  have a: "is_abs (hd_original h)" "is_abs (hd_hidden h)" and c: "csegs (hd_original h) = V @ r" "csegs (hd_hidden h) = H @ r"
    using pl by (auto simp: place_def)
  have dd: "dotdot \<notin> set (H @ r)" "dotdot \<notin> set (V @ r)" using csegs_no_dotdot [OF a(1)] csegs_no_dotdot [OF a(2)] c by auto
  have ls: "lstat_node g (csegs (hd_hidden h)) \<noteq> None"
    using phys_last_no_links [OF nl, of "H @ r"] dd there ne c by (auto simp: lstat_node_def)
  obtain g1 where rm: "remove_all env g (hd_original h) = (g1, True)" and sh: "shift env g1 (H @ r) (V @ r) = Some g'"
    using rp ls c by (auto simp: restore_path_def shift_def split: if_splits prod.splits bool.splits option.splits)
  note R = remove_all_no_links [OF nl a(1) rm, unfolded c]
  then have nl1: "no_links g1" by blast
  have HV: "apart (H @ r) (V @ r)" using apart_sym [OF VH] by (rule apart_below)
  note S = shift_facts [OF nl1 dd HV sh]
  have h: "\<not> prefix (V @ r) (H @ x)" "\<not> prefix (H @ x) (V @ r)" "\<not> prefix (H @ r) (V @ x)" for x
    using apart_below [OF VH, of r x] apart_below [OF VH, of x r] by (auto simp: apart_def)
  show "no_links g'" by (rule S(1))
  show "fs_get g' (V @ r @ x) = fs_get g (H @ r @ x)" for x using S(2) [of x] R h(1) by simp
  show "fs_get g' (H @ r' @ x) = fs_get g (H @ r' @ x)" if "apart r r'" for r' x
  proof -
    have "\<not> prefix (H @ r) (H @ r' @ x)" using apart_below [OF that, of "[]" x] by (simp add: apart_def)
    then show ?thesis using S(4) [of "H @ r' @ x"] R h by simp
  qed
  show "fs_get g' (V @ r' @ x) = fs_get g (V @ r' @ x)" if "apart r r'" for r' x
  proof -
    have "\<not> prefix (V @ r) (V @ r' @ x)" "\<not> prefix (V @ r' @ x) (V @ r)"
      using apart_below [OF that, of "[]" x] by (auto simp: apart_def)
    then show ?thesis using S(4) [of "V @ r' @ x"] R h by simp
  qed
qed

lemma restore_paths_back:
  assumes "list_all2 (place V H) hs rs" and "no_links g" and "apart V H" and "H \<noteq> []" and "distinct rs"
    and "\<forall>r \<in> set (rs @ ds). \<forall>r' \<in> set (rs @ ds). r \<noteq> r' \<longrightarrow> apart r r'" and "set rs \<inter> set ds = {}"
    and "\<forall>r \<in> set rs. \<forall>x. fs_get g (H @ r @ x) = fs_get f0 (V @ r @ x)" and "\<forall>r \<in> set rs. fs_get f0 (V @ r) \<noteq> None"
    and "\<forall>r \<in> set ds. \<forall>x. fs_get g (V @ r @ x) = fs_get f0 (V @ r @ x)"
    and "restore_paths env stuck g hs = (g', None)"
  shows "\<forall>r \<in> set (rs @ ds). \<forall>x. fs_get g' (V @ r @ x) = fs_get f0 (V @ r @ x)"
  using assms
proof (induction hs rs arbitrary: g ds rule: list_all2_induct)
  case (Cons h hs r rs)
  obtain g1 where s: "restore_path env stuck g h = (g1, None)" and rest: "restore_paths env stuck g1 hs = (g', None)"
    using Cons.prems(10) by (auto split: prod.splits option.splits)
  have there: "fs_get g (H @ r) \<noteq> None"
    using Cons.prems(7,8) by (metis append_Nil2 list.set_intros(1))
  note S = restore_step [OF Cons.prems(1,2) Cons.hyps(1) there _ s]
  have ap: "apart r r'" if "r' \<in> set (rs @ ds)" for r'
    using that Cons.prems(4,5,6) by auto
  have "\<forall>r' \<in> set (rs @ r # ds). \<forall>x. fs_get g' (V @ r' @ x) = fs_get f0 (V @ r' @ x)"
  proof (rule Cons.IH [OF S(1) Cons.prems(2,3) _ _ _ _ _ _ rest])
    show "\<forall>r' \<in> set rs. \<forall>x. fs_get g1 (H @ r' @ x) = fs_get f0 (V @ r' @ x)"
      using S(3) ap Cons.prems(3,7) by simp
    show "\<forall>r' \<in> set (r # ds). \<forall>x. fs_get g1 (V @ r' @ x) = fs_get f0 (V @ r' @ x)"
      using S(2,4) ap Cons.prems(3,7,9) by simp
  qed (use Cons.prems in auto)
  then show ?case by auto
qed simp

subsection \<open>Denied paths\<close>

definition sorts_by_length :: "(path list \<Rightarrow> path list) \<Rightarrow> bool" where
  "sorts_by_length srt \<longleftrightarrow> (\<forall>ps. set (srt ps) = set ps \<and> sorted (map length (srt ps)))"

lemma view_facts:
  assumes "is_abs root"
  shows "clean (view_of root) = view_of root" and "is_abs (view_of root)" and "csegs (view_of root) = csegs root @ [''view'']"
    and "is_abs (path_join root ''hidden'')" and "csegs (path_join root ''hidden'') = csegs root @ [''hidden'']"
    and "apart (csegs (view_of root)) (csegs (path_join root ''hidden''))"
proof -
  have sg: "segs ''hidden'' = [''hidden'']" by code_simp
  show "clean (view_of root) = view_of root" "is_abs (view_of root)" "is_abs (path_join root ''hidden'')"
    using assms path_join_abs by (auto simp: view_of_def path_join_def)
  show cv: "csegs (view_of root) = csegs root @ [''view'']" and ch: "csegs (path_join root ''hidden'') = csegs root @ [''hidden'']"
    using assms csegs_join_plain [of root "''hidden''"] sg by (simp_all add: view_of_csegs)
  show "apart (csegs (view_of root)) (csegs (path_join root ''hidden''))" by (simp add: cv ch apart_def)
qed

lemma hideNativePaths_moved_out:
  assumes "no_links f" and "sorts_by_length srt" and "is_abs root" and "\<forall>p \<in> set paths. is_abs p \<and> clean p = p"
    and "hideNativePaths srt env stuck f (view_of root) root paths = (f1, Inr hs)"
  obtains fH rs where "\<And>q. prefix (csegs (view_of root)) q \<Longrightarrow> fs_get fH q = fs_get f q"
    and "moved_out (csegs (view_of root)) (csegs (path_join root ''hidden'')) fH f1 rs"
    and "listed (csegs (view_of root)) (csegs (path_join root ''hidden'')) hs rs"
    and "\<forall>p \<in> set paths. gone (csegs (view_of root)) fH rs p"
proof -
  let ?v = "view_of root" and ?h = "path_join root ''hidden''"
  note vf = view_facts [OF assms(3)]
  obtain fH where m: "MkdirAll (env_umask (mc_apply env)) 448 f (csegs ?h) = Some fH"
    and hp: "hide_paths env stuck ?v ?h fH [] (srt paths) = (f1, Inr hs)"
    using assms(5) vf(1,2) by (auto simp: hideNativePaths_def go_abs_def Let_def split: option.splits)
  note k = mkdir_keeps [OF assms(1) csegs_no_dotdot [OF vf(4)] m]
  have fV: "fs_get fH q = fs_get f q" if "prefix (csegs ?v) q" for q
    using k(3) apart_prefix [OF vf(6) that] by blast
  have "moved_out (csegs ?v) (csegs ?h) fH fH []" using k(1) by (simp add: moved_out_def)
  from hide_paths_moved_out [OF this _ vf(6,2,4) _ _ _ hp] assms(2,4) obtain rs
    where "moved_out (csegs ?v) (csegs ?h) fH f1 rs" "listed (csegs ?v) (csegs ?h) hs rs" "\<forall>p \<in> set paths. gone (csegs ?v) fH rs p"
    by (auto simp: listed_def sorts_by_length_def)
  with fV show ?thesis by (rule that)
qed

text \<open>
  C22. Denied paths are hidden from the agent and come back as they were: after \<open>hideNativePaths\<close> there is no
  node at or below a denied path, and whatever the agent then does to the view (without leaving symbolic
  links), a successful \<open>restoreNativePaths\<close> puts every hidden tree back at its place with its content.
\<close>

theorem hidden_paths_come_back:
  assumes "wf_fs f" and "no_links f" and "sorts_by_length srt" and "is_abs root" and "\<forall>p \<in> set paths. is_abs p \<and> clean p = p"
    and "hideNativePaths srt env stuck f (view_of root) root paths = (f1, Inr hs)"
    and "no_links f2" and "\<And>q. \<not> prefix (csegs (view_of root)) q \<Longrightarrow> fs_get f2 q = fs_get f1 q"
    and "restoreNativePaths env stuck' f2 hs = (f3, None)"
  shows "(\<forall>p \<in> set paths. \<forall>q. prefix (csegs p) q \<longrightarrow> fs_get f1 q = None) \<and>
     (\<forall>h \<in> set hs. \<forall>q. prefix (csegs (hd_original h)) q \<longrightarrow> fs_get f3 q = fs_get f q)"
proof -
  let ?v = "view_of root" and ?h = "path_join root ''hidden''"
  note VH = view_facts(6) [OF assms(4)] and cv = view_facts(3) [OF assms(4)] and ch = view_facts(5) [OF assms(4)]
  obtain fH rs where fV: "\<And>q. prefix (csegs ?v) q \<Longrightarrow> fs_get fH q = fs_get f q" and mo: "moved_out (csegs ?v) (csegs ?h) fH f1 rs"
    and li: "listed (csegs ?v) (csegs ?h) hs rs" and go: "\<forall>p \<in> set paths. gone (csegs ?v) fH rs p"
    by (rule hideNativePaths_moved_out [OF assms(2-6)]) (rule that)
  have "fs_get f1 q = None" if p: "p \<in> set paths" and q: "prefix (csegs p) q" for p q
  proof -
    have V: "prefix (csegs ?v) (csegs p)" using go p by (auto simp: gone_def)
    then have Vq: "prefix (csegs ?v) q" using q by (rule prefix_order.trans)
    have "csegs p \<noteq> []" using V cv by auto
    then have "fs_get fH (csegs p) = None \<Longrightarrow> fs_get f q = None"
      using wf_fs_ancestors [OF assms(1) _ q] fV [OF V] by (cases "fs_get f q") auto
    moreover have "fs_get f1 q = (if \<exists>r \<in> set rs. prefix (csegs ?v @ r) q then None else fs_get fH q)"
      using mo Vq by (simp add: moved_out_def)
    moreover have "(\<exists>r \<in> set rs. prefix (csegs ?v @ r) q) \<or> fs_get fH (csegs p) = None"
    proof (cases "fs_get fH (csegs p) = None")
      case False
      then obtain r where "r \<in> set rs" "prefix (csegs ?v @ r) (csegs p)" using go p by (auto simp: gone_def)
      then show ?thesis using q by (meson prefix_order.trans)
    qed simp
    ultimately show ?thesis using fV [OF Vq] by auto
  qed
  moreover have "fs_get f3 q = fs_get f q" if h: "h \<in> set hs" and q: "prefix (csegs (hd_original h)) q" for h q
  proof -
    have "\<forall>r \<in> set (rev rs @ []). \<forall>x. fs_get f3 (csegs ?v @ r @ x) = fs_get fH (csegs ?v @ r @ x)"
    proof (rule restore_paths_back [OF _ assms(7) VH])
      show "list_all2 (place (csegs ?v) (csegs ?h)) (rev hs) (rev rs)" using li by (simp add: listed_def)
      show "restore_paths env stuck' f2 (rev hs) = (f3, None)" using assms(9) by (simp add: restoreNativePaths_def)
      have "\<not> prefix (csegs ?v) (csegs ?h @ x)" for x using apart_below [OF VH, of "[]" x] by (simp add: apart_def)
      then show "\<forall>r \<in> set (rev rs). \<forall>x. fs_get f2 (csegs ?h @ r @ x) = fs_get fH (csegs ?v @ r @ x)"
        using mo assms(8) by (simp add: moved_out_def)
    qed (use mo ch in \<open>auto simp: moved_out_def\<close>)
    moreover obtain r where r: "r \<in> set rs" "csegs (hd_original h) = csegs ?v @ r"
      using listed_left [OF li h] by (auto simp: place_def)
    moreover obtain x where "q = csegs ?v @ r @ x" using q r(2) by (auto simp: prefix_def)
    ultimately show ?thesis using fV by simp
  qed
  ultimately show ?thesis by blast
qed
subsection \<open>The paths a policy denies\<close>

fun unique_from :: "string set \<Rightarrow> string list \<Rightarrow> string list" where
  "unique_from seen [] = []"
| "unique_from seen (x # xs) = (if x \<in> seen then unique_from seen xs else x # unique_from (insert x seen) xs)"

definition uniqueStrings :: "string list \<Rightarrow> string list" where
  "uniqueStrings xs = unique_from {} xs"

lemma unique_from_set: "set (unique_from seen xs) = set xs - seen"
  by (induction seen xs rule: unique_from.induct) auto

lemma uniqueStrings_set [simp]: "set (uniqueStrings xs) = set xs"
  by (simp add: uniqueStrings_def unique_from_set)

datatype deny_error = DenyManifest manifest_error | DenyScan pii_error

definition denied_entry :: "ReadPolicy \<Rightarrow> string \<Rightarrow> bool" where
  "denied_entry rd candidate \<longleftrightarrow> ex_decision (Explain rd candidate) = ''deny'' \<or> ex_decision (Explain rd (sep # candidate)) = ''deny''"

definition nativeDenyPaths ::
  "mac_env \<Rightarrow> (string \<Rightarrow> string \<Rightarrow> (nat \<times> nat) list) \<Rightarrow> Policy \<Rightarrow> fs \<Rightarrow> path \<Rightarrow> deny_error + path list" where
  "nativeDenyPaths env find_all pol f view =
     (let rd = pol_read pol in
      if rd_mode rd \<noteq> ModeEnforce then Inr []
      else (case mac_build env f view of
        Inl e \<Rightarrow> Inl (DenyManifest e)
      | Inr snapshot \<Rightarrow>
          let paths = map (\<lambda>e. path_join view (e_path e)) (filter (\<lambda>e. denied_entry rd (e_path e)) (m_entries snapshot)) in
          if pii_mode (rd_pii rd) = ModeEnforce then
            (case ScanPath (mc_sha env) find_all (mc_unread env) f view of
               Inl e \<Rightarrow> Inl (DenyScan e)
             | Inr findings \<Rightarrow> Inr (uniqueStrings (paths @ map f_path findings)))
          else Inr (uniqueStrings paths)))"

lemma mac_build_entries:
  assumes "no_links f" and "is_abs v" and "csegs v \<noteq> []" and "mac_build env f v = Inr m"
  shows "set (m_entries m) = (\<lambda>(rel, n). entry_of (mc_sha env) rel n) ` set (walk f (csegs v))"
proof -
  have a: "abs_path cwd v = clean v" for cwd using assms(2) by (simp add: abs_path_def)
  have "phys f (csegs v) = Some (csegs v)" "phys_last f (csegs v) = Some (csegs v)"
    using phys_no_links [OF assms(1)] phys_last_no_links [OF assms(1)] csegs_no_dotdot [OF assms(2)] by auto
  then show ?thesis
    using assms(3,4)
    by (auto simp: mac_build_def Build_def a walk_root_def stat_node_def lstat_node_def Let_def split: option.splits if_splits node.splits)
qed

lemma view_path:
  assumes "is_abs v" and "rel_ok rel"
  shows "is_abs (path_join v (join_with [sep] rel))" and "clean (path_join v (join_with [sep] rel)) = path_join v (join_with [sep] rel)"
    and "csegs (path_join v (join_with [sep] rel)) = csegs v @ rel"
proof -
  show "is_abs (path_join v (join_with [sep] rel))" using assms(1) by (rule path_join_abs)
  have "v \<noteq> []" using assms(1) by (auto simp: is_abs_def)
  then show "clean (path_join v (join_with [sep] rel)) = path_join v (join_with [sep] rel)" by (simp add: path_join_def)
  have "segs (join_with [sep] rel) = rel" using assms(2) by (intro segs_join) (simp add: rel_ok_def seg_ok_def)
  then show "csegs (path_join v (join_with [sep] rel)) = csegs v @ rel"
    using csegs_join_plain [OF assms(1), of "join_with [sep] rel"] assms(2) by (auto simp: rel_ok_def seg_ok_def)
qed

lemma nativeDenyPaths_entry:
  assumes "wf_fs f" and "no_links f" and "is_abs v" and "csegs v \<noteq> []" and "nativeDenyPaths env fa pol f v = Inr paths"
    and "rd_mode (pol_read pol) = ModeEnforce" and "fs_get f (csegs v @ rel) = Some n" and "rel \<noteq> []"
    and "denied_entry (pol_read pol) (join_with [sep] rel)"
  shows "path_join v (join_with [sep] rel) \<in> set paths"
proof -
  obtain m where m: "mac_build env f v = Inr m"
    and p: "set (map (\<lambda>e. path_join v (e_path e)) (filter (\<lambda>e. denied_entry (pol_read pol) (e_path e)) (m_entries m))) \<subseteq> set paths"
    using assms(5,6) by (auto simp: nativeDenyPaths_def Let_def split: sum.splits if_splits)
  have "(rel, n) \<in> set (walk f (csegs v))" using assms(7,8) fs_get_Some_in by (auto simp: walk_set)
  then have "entry_of (mc_sha env) rel n \<in> set (m_entries m)"
    using mac_build_entries [OF assms(2-4) m] by force
  with p assms(9) show ?thesis by force
qed

lemma nativeDenyPaths_clean:
  assumes "wf_fs f" and "no_links f" and "is_abs v" and "csegs v \<noteq> []" and "nativeDenyPaths env fa pol f v = Inr paths"
    and "stat_dir f (csegs v)" and "p \<in> set paths"
  shows "is_abs p \<and> clean p = p"
proof -
  have ok: "rel_ok rel" if "(csegs v @ rel, n) \<in> set f" for rel n using assms(1) that by (auto simp: wf_fs_def rel_ok_def)
  obtain m where m: "mac_build env f v = Inr m"
    using assms(5,7) by (auto simp: nativeDenyPaths_def Let_def split: sum.splits if_splits)
  have alt: "(\<exists>e \<in> set (m_entries m). p = path_join v (e_path e)) \<or>
      (\<exists>xs. ScanPath (mc_sha env) fa (mc_unread env) f v = Inr xs \<and> (\<exists>x \<in> set xs. p = f_path x))"
    using assms(5,7) m by (auto simp: nativeDenyPaths_def Let_def split: sum.splits if_splits)
  from alt show ?thesis
  proof (elim disjE bexE exE conjE)
    fix e assume e: "e \<in> set (m_entries m)" and p: "p = path_join v (e_path e)"
    from e obtain rel n where "(rel, n) \<in> set (walk f (csegs v))" "e_path e = join_with [sep] rel"
      using mac_build_entries [OF assms(2-4) m] by auto
    then show ?thesis using view_path [OF assms(3) walk_rel_ok [OF assms(1)]] p by metis
  next
    fix xs x assume x: "ScanPath (mc_sha env) fa (mc_unread env) f v = Inr xs" "x \<in> set xs" "p = f_path x"
    have "lstat_node f (csegs v) = stat_node f (csegs v)"
      using phys_no_links [OF assms(2)] phys_last_no_links [OF assms(2)] csegs_no_dotdot [OF assms(3)] by (simp add: lstat_node_def stat_node_def)
    then have "scanDir (mc_sha env) fa (mc_unread env) f v = Inr xs"
      using x(1) assms(6) by (auto simp: ScanPath_def stat_dir_def split: option.splits node.splits)
    from scanDir_paths [OF this x(2)] x(3) obtain rel k c where "(csegs v @ rel, NFile k c) \<in> set f" "p = path_join v (join_with [sep] rel)"
      by blast
    then show ?thesis using view_path [OF assms(3) ok] by metis
  qed
qed
subsection \<open>The commands\<close>

text \<open>
  The files a command works on: the tree of the workspace and the runtime root, the record, its history and
  its event log, which are kept apart from the tree.  \<open>nv_agent\<close> is what the agent does to the tree and
  its exit code if it fails; the other fields are the outcomes of the calls that may fail.
\<close>

record native_world =
  nw_fs :: fs
  nw_record :: nfile
  nw_history :: Store
  nw_events :: "NativeEvent list"

record native_env =
  nv_mac :: mac_env
  nv_find :: "string \<Rightarrow> string \<Rightarrow> (nat \<times> nat) list"
  nv_srt :: "path list \<Rightarrow> path list"
  nv_policy :: "path \<Rightarrow> Policy option"
  nv_stuck :: "segpath \<Rightarrow> bool"
  nv_stuck_back :: "segpath \<Rightarrow> bool"
  nv_random :: "string option"
  nv_stamp :: string
  nv_run_stamp :: string
  nv_now :: int
  nv_seatbelt :: bool
  nv_agent :: "fs \<Rightarrow> fs \<times> int option"
  nv_io :: "string \<Rightarrow> native_io"
  nv_append :: "string \<Rightarrow> bool"
  nv_order :: "History.Entry list \<Rightarrow> History.Entry list"
  nv_history :: io_env

record native_args =
  na_command :: "string list"
  na_workspace :: path
  na_runtime :: path
  na_policy :: path
  na_record :: path
  na_history :: path
  na_success :: string
  na_roots :: string

datatype native_stage = NUsage | NOnSuccess | NPath | NRecordInside | NWorkspace | NReadRoots | NPolicy | NNetwork | NWriteScope
  | NResources | NPrepare mac_error | NRunId | NBase | NRecordWrite | NDeny deny_error | NHide hide_error | NSeatbelt
  | NRestore hide_error | NAgent int | NCandidate | NDiscard mac_error | NRecordRead native_error | NCommitted | NConfirm
  | NState string | NEvent | NAccept mac_error

datatype native_stop = NDone | NFatal native_stage

text \<open>\<open>filepath.EvalSymlinks\<close>; for a relative path the result is given from the root.\<close>

definition EvalSymlinks :: "mac_env \<Rightarrow> fs \<Rightarrow> path \<Rightarrow> path option" where
  "EvalSymlinks env f p =
     (case go_abs env p of
        None \<Rightarrow> None
      | Some a \<Rightarrow> if stat_node f (csegs a) = None then None else map_option render_abs (phys f (csegs a)))"

definition withinNative :: "path \<Rightarrow> path \<Rightarrow> bool" where
  "withinNative root candidate =
     (if root = candidate then True
      else (case rel_path root candidate of None \<Rightarrow> False | Some r \<Rightarrow> r \<noteq> dotdot \<and> \<not> prefix (dotdot @ [sep]) r))"

definition read_root_ok :: "mac_env \<Rightarrow> fs \<Rightarrow> path \<Rightarrow> string \<Rightarrow> bool" where
  "read_root_ok env f ws root =
     (trim_space root = [] \<or>
      (case EvalSymlinks env f (trim_space root) of
         None \<Rightarrow> True
       | Some r \<Rightarrow> \<not> withinNative r ws \<and> \<not> withinNative ws r))"

definition validateNativeReadRoots :: "mac_env \<Rightarrow> fs \<Rightarrow> path \<Rightarrow> string list \<Rightarrow> bool" where
  "validateNativeReadRoots env f workspace roots =
     (case EvalSymlinks env f workspace of None \<Rightarrow> False | Some ws \<Rightarrow> list_all (read_root_ok env f ws) roots)"

definition appendNativeEvent :: "native_env \<Rightarrow> NativeEvent \<Rightarrow> native_world \<Rightarrow> native_world \<times> bool" where
  "appendNativeEvent env ev w =
     (if nv_append env (ne_operation ev) then (w\<lparr>nw_events := nw_events w @ [ev]\<rparr>, True) else (w, False))"

definition native_event :: "native_env \<Rightarrow> string \<Rightarrow> path \<Rightarrow> string \<Rightarrow> int \<Rightarrow> NativeEvent" where
  "native_event env operation p decision code =
     \<lparr>ne_operation = operation, ne_path = p, ne_decision = decision, ne_time = nv_stamp env, ne_exit = code\<rparr>"

text \<open>An event whose failure the source ignores.\<close>

definition noted :: "native_env \<Rightarrow> string \<Rightarrow> path \<Rightarrow> string \<Rightarrow> int \<Rightarrow> native_world \<Rightarrow> native_world" where
  "noted env operation p decision code w = fst (appendNativeEvent env (native_event env operation p decision code) w)"

definition writeNativeRecordWithHistory :: "native_env \<Rightarrow> path \<Rightarrow> NativeRecord \<Rightarrow> native_world \<Rightarrow> native_world \<times> native_error option" where
  "writeNativeRecordWithHistory env p r w =
     (case WriteNativeRecord (nv_io env (nr_state r)) (nv_now env) r (nw_record w) of
        (f, Some e) \<Rightarrow> (w\<lparr>nw_record := f\<rparr>, Some e)
      | (f, None) \<Rightarrow>
          let w1 = w\<lparr>nw_record := f\<rparr> in
          if nr_history r = [] then (w1, None)
          else (case PersistNativeHistoryAt (nv_order env) (nv_history env) (nv_now env) p r (nw_history w1) of
            (s, e) \<Rightarrow> (w1\<lparr>nw_history := s\<rparr>, map_option NativeHistory e)))"

definition handleNativeRollback :: "native_env \<Rightarrow> path \<Rightarrow> native_world \<Rightarrow> native_world \<times> native_stop" where
  "handleNativeRollback env p w =
     (if blank p then (w, NFatal NUsage)
      else (case ReadNativeRecord (nw_record w) of
        Inl e \<Rightarrow> (w, NFatal (NRecordRead e))
      | Inr r \<Rightarrow>
      if nr_state r = ''committed'' then (w, NFatal NCommitted)
      else (case DiscardMacOSRuntime (nv_mac env) (nw_fs w) (nr_runtime r) (nr_workspace r) of
        (f, Some e) \<Rightarrow> (w\<lparr>nw_fs := f\<rparr>, NFatal (NDiscard e))
      | (f, None) \<Rightarrow>
     (case appendNativeEvent env (native_event env ''rollback'' [] ''rollback'' 0) (w\<lparr>nw_fs := f\<rparr>) of
        (w1, False) \<Rightarrow> (w1, NFatal NEvent)
      | (w1, True) \<Rightarrow>
     (case writeNativeRecordWithHistory env p (r\<lparr>nr_state := ''rolled_back''\<rparr>) w1 of
        (w2, Some e) \<Rightarrow> (w2, NFatal NRecordWrite)
      | (w2, None) \<Rightarrow> (w2, NDone))))))"

definition handleNativeCommit :: "native_env \<Rightarrow> bool \<Rightarrow> path \<Rightarrow> native_world \<Rightarrow> native_world \<times> native_stop" where
  "handleNativeCommit env confirm p w =
     (if blank p then (w, NFatal NUsage)
      else if \<not> confirm then (w, NFatal NConfirm)
      else (case ReadNativeRecord (nw_record w) of
        Inl e \<Rightarrow> (w, NFatal (NRecordRead e))
      | Inr r \<Rightarrow>
      if nr_state r \<noteq> ''succeeded'' then (w, NFatal (NState (nr_state r)))
      else (case appendNativeEvent env (native_event env ''commit_attempt'' [] ''pending'' 0) w of
        (w1, False) \<Rightarrow> (w1, NFatal NEvent)
      | (w1, True) \<Rightarrow>
     (case AcceptMacOSRuntime (nv_mac env) (nw_fs w1) (nr_workspace r) (nr_runtime r) (nr_base r) of
        (f, _, Some e) \<Rightarrow> (w1\<lparr>nw_fs := f\<rparr>, NFatal (NAccept e))
      | (f, chs, None) \<Rightarrow>
     (case appendNativeEvent env (native_event env ''commit'' [] ''allow'' 0) (w1\<lparr>nw_fs := f\<rparr>) of
        (w2, False) \<Rightarrow> (w2, NFatal NEvent)
      | (w2, True) \<Rightarrow>
     (case writeNativeRecordWithHistory env p (r\<lparr>nr_changes := chs, nr_state := ''committed''\<rparr>) w2 of
        (w3, Some e) \<Rightarrow> (w3, NFatal NRecordWrite)
      | (w3, None) \<Rightarrow> (w3, NDone)))))))"
text \<open>The refusals of \<open>handleNativeRun\<close>: the paths and the policy of a run that may go on.\<close>

definition native_paths :: "native_env \<Rightarrow> native_args \<Rightarrow> fs \<Rightarrow> native_stage + path \<times> path \<times> path \<times> path" where
  "native_paths env a f =
     (let m = nv_mac env in
      if na_command a = [] \<or> blank (na_workspace a) \<or> blank (na_runtime a) \<or> blank (na_policy a) \<or> blank (na_record a) then Inl NUsage
      else if na_success a \<noteq> ''discard'' \<and> na_success a \<noteq> ''review'' then Inl NOnSuccess
      else (case (go_abs m (na_record a), go_abs m (na_runtime a)) of
        (Some rec, Some rt) \<Rightarrow>
          if withinNative (clean rt) (clean rec) then Inl NRecordInside
          else (case (if trim_space (na_history a) = [] then Some [] else go_abs m (trim_space (na_history a))) of
            None \<Rightarrow> Inl NPath
          | Some hist \<Rightarrow>
         (case EvalSymlinks m f (na_workspace a) of
            None \<Rightarrow> Inl NWorkspace
          | Some ws \<Rightarrow>
              if \<not> validateNativeReadRoots m f ws (splitCSV (na_roots a)) then Inl NReadRoots
              else Inr (rec, rt, hist, ws)))
      | _ \<Rightarrow> Inl NPath))"

definition native_policy :: "native_env \<Rightarrow> native_args \<Rightarrow> native_stage + Policy" where
  "native_policy env a =
     (case nv_policy env (na_policy a) of
        None \<Rightarrow> Inl NPolicy
      | Some v \<Rightarrow>
          if net_mode (pol_network v) = ModeEnforce then Inl NNetwork
          else if wr_scope (pol_write v) = ''system'' then Inl NWriteScope
          else if pids_max (pol_resources v) \<noteq> [] \<or> memory_max (pol_resources v) \<noteq> [] \<or> cpu_max (pol_resources v) \<noteq> [] then Inl NResources
          else Inr v)"

text \<open>\<open>_ = tx.Discard(...)\<close> followed by \<open>fatal\<close>.\<close>

definition discarded :: "native_env \<Rightarrow> MacOSTransaction \<Rightarrow> native_world \<Rightarrow> native_world" where
  "discarded env t w = w\<lparr>nw_fs := fst (Discard (nv_mac env) (nw_fs w) t)\<rparr>"

text \<open>After the agent: what is hidden is restored, and the run fails, is discarded or is left for review.\<close>

definition native_finish ::
  "native_env \<Rightarrow> native_args \<Rightarrow> path \<Rightarrow> MacOSTransaction \<Rightarrow> NativeRecord \<Rightarrow> native_world \<Rightarrow> native_world \<times> native_stop" where
  "native_finish env a rec t r w =
     (case mac_build (nv_mac env) (nw_fs w) (mt_view t) of
        Inl e \<Rightarrow> (discarded env t w, NFatal NCandidate)
      | Inr after \<Rightarrow>
          let r1 = r\<lparr>nr_changes := Compare (nr_base r) after\<rparr>;
              final = (\<lambda>r w. case writeNativeRecordWithHistory env rec r w of
                 (w', Some e) \<Rightarrow> (w', NFatal NRecordWrite) | (w', None) \<Rightarrow> (w', NDone)) in
          if na_success a = ''discard'' then
            (case Discard (nv_mac env) (nw_fs w) t of
               (f, _, Some e) \<Rightarrow> (w\<lparr>nw_fs := f\<rparr>, NFatal (NDiscard e))
             | (f, _, None) \<Rightarrow>
                 final (r1\<lparr>nr_state := ''discarded''\<rparr>) (noted env ''exit'' [] ''discard'' 0 (w\<lparr>nw_fs := f\<rparr>)))
          else final (r1\<lparr>nr_state := ''succeeded''\<rparr>) (noted env ''exit'' [] ''review'' 0 w))"

definition native_agent ::
  "native_env \<Rightarrow> native_args \<Rightarrow> path \<Rightarrow> MacOSTransaction \<Rightarrow> NativeRecord \<Rightarrow> hiddenNativePath list \<Rightarrow> native_world \<Rightarrow> native_world \<times> native_stop" where
  "native_agent env a rec t r hidden w0 =
     (let r1 = r\<lparr>nr_state := ''running''\<rparr>;
          w1 = fst (writeNativeRecordWithHistory env rec r1 w0);
          w2 = noted env ''execve'' (hd (na_command a)) ''allow'' 0 w1;
          (f, exit_code) = nv_agent env (nw_fs w2) in
      case restoreNativePaths (nv_mac env) (nv_stuck_back env) f hidden of
        (f1, Some e) \<Rightarrow> (discarded env t (w2\<lparr>nw_fs := f1\<rparr>), NFatal (NRestore e))
      | (f1, None) \<Rightarrow>
     (case exit_code of
        Some code \<Rightarrow>
          let r2 = r1\<lparr>nr_state := ''failed'', nr_exit := code\<rparr>;
              w3 = noted env ''exit'' [] ''rollback'' code (w2\<lparr>nw_fs := f1\<rparr>) in
          (fst (writeNativeRecordWithHistory env rec r2 (discarded env t w3)), NFatal (NAgent code))
      | None \<Rightarrow> native_finish env a rec t r1 (w2\<lparr>nw_fs := f1\<rparr>)))"

definition native_protect ::
  "native_env \<Rightarrow> native_args \<Rightarrow> path \<Rightarrow> Policy \<Rightarrow> MacOSTransaction \<Rightarrow> NativeRecord \<Rightarrow> native_world \<Rightarrow> native_world \<times> native_stop" where
  "native_protect env a rec v t r w =
     (case nativeDenyPaths (nv_mac env) (nv_find env) v (nw_fs w) (mt_view t) of
        Inl e \<Rightarrow> (discarded env t w, NFatal (NDeny e))
      | Inr paths \<Rightarrow>
          let r1 = r\<lparr>nr_hidden := paths\<rparr>;
              w1 = foldl (\<lambda>w p. noted env ''read_policy'' p ''deny'' 0 w) w paths in
         (case hideNativePaths (nv_srt env) (nv_mac env) (nv_stuck env) (nw_fs w1) (mt_view t) (mt_runtime t) paths of
            (f, Inl e) \<Rightarrow> (discarded env t (w1\<lparr>nw_fs := f\<rparr>), NFatal (NHide e))
          | (f, Inr hidden) \<Rightarrow>
              if \<not> nv_seatbelt env \<or> blank (hd (na_command a)) then (discarded env t (w1\<lparr>nw_fs := f\<rparr>), NFatal NSeatbelt)
              else native_agent env a rec t r1 hidden (w1\<lparr>nw_fs := f\<rparr>)))"

definition native_record :: "native_env \<Rightarrow> native_args \<Rightarrow> string \<Rightarrow> path \<Rightarrow> path \<Rightarrow> path \<Rightarrow> path \<Rightarrow> MacOSTransaction \<Rightarrow> Manifest \<Rightarrow> NativeRecord" where
  "native_record env a i rec rt hist ws t base =
     \<lparr>nr_version = 0, nr_run = i, nr_platform = ''darwin'', nr_backend = ''apfs-clone-seatbelt'', nr_workspace = ws, nr_runtime = rt,
      nr_history = hist, nr_view = mt_view t, nr_policy = na_policy a, nr_hidden = [], nr_command = na_command a,
      nr_state = ''prepared'', nr_exit = 0, nr_base = base, nr_changes = [], nr_events_path = rec @ ''.events.jsonl'',
      nr_events = [], nr_created = Some (nv_now env), nr_updated = None\<rparr>"

definition handleNativeRun :: "native_env \<Rightarrow> native_args \<Rightarrow> native_world \<Rightarrow> native_world \<times> native_stop" where
  "handleNativeRun env a w =
     (case native_paths env a (nw_fs w) of
        Inl e \<Rightarrow> (w, NFatal e)
      | Inr (rec, rt, hist, ws) \<Rightarrow>
     (case native_policy env a of
        Inl e \<Rightarrow> (w, NFatal e)
      | Inr v \<Rightarrow>
     (case PrepareAt (nv_mac env) (nw_fs w) ws rt of
        (f, Inl e) \<Rightarrow> (w\<lparr>nw_fs := f\<rparr>, NFatal (NPrepare e))
      | (f, Inr t) \<Rightarrow>
          let w1 = w\<lparr>nw_fs := f\<rparr> in
         (case runid_New (nv_run_stamp env) (nv_random env) of
            Inl e \<Rightarrow> (discarded env t w1, NFatal NRunId)
          | Inr i \<Rightarrow>
         (case mac_build (nv_mac env) f ws of
            Inl e \<Rightarrow> (discarded env t w1, NFatal NBase)
          | Inr base \<Rightarrow>
              let r = native_record env a i rec rt hist ws t base in
             (case writeNativeRecordWithHistory env rec r w1 of
                (w2, Some e) \<Rightarrow> (discarded env t w2, NFatal NRecordWrite)
              | (w2, None) \<Rightarrow> native_protect env a rec v t r (noted env ''prepare'' [] ''allow'' 0 w2)))))))"
subsection \<open>What a run may touch\<close>

lemma kept_mkdir:
  assumes "no_links f" and "dotdot \<notin> set p" and "MkdirAll u m f p = Some f'" and "prefix p x" and "prefix r x"
  shows "kept_outside r f f'"
proof -
  have "prefix q r \<or> prefix r q" if "prefix q p" for q
    using that assms(4,5) by (meson prefix_order.trans prefix_same_cases)
  with MkdirAll_grown [OF plain_way_no_links [OF assms(1)] assms(2,3)] MkdirAll_no_links [OF assms(1,3)] show ?thesis unfolding kept_outside_def grown_def by blast
qed

lemma kept_rename:
  assumes "no_links f" and "dotdot \<notin> set s" and "dotdot \<notin> set d" and "os_rename f s d = Some f'" and "apart s d"
    and "prefix r s" and "prefix r d"
  shows "kept_outside r f f'"
proof -
  have "s \<noteq> d" using assms(5) by (auto simp: apart_def)
  then have f': "f' = move_tree s d f" by (rule rename_no_links(1) [OF assms(1-4)])
  have "fs_get f' q = fs_get f q" if "\<not> prefix r q" for q
    using that assms(6,7) prefix_order.trans unfolding f' move_get [OF assms(5)] by metis
  then show ?thesis using move_no_links [OF assms(1)] unfolding f' by (intro kept_outside_step)
qed

lemma kept_remove:
  "no_links f \<Longrightarrow> is_abs p \<Longrightarrow> remove_all env f p = (f', b) \<Longrightarrow> prefix r (csegs p) \<Longrightarrow> kept_outside r f f'"
  using remove_all_no_links [of f p env f' b] by (intro kept_outside_step) (auto dest: prefix_order.trans)

lemma kept_links: "kept_outside r f f' \<Longrightarrow> no_links f'"
  by (simp add: kept_outside_def)

lemma hide_path_frame:
  assumes "no_links f" and "cwd_ok env" and a: "is_abs v" "is_abs h" and VH: "apart (csegs v) (csegs h)"
    and R: "prefix R (csegs v)" "prefix R (csegs h)" and pl: "\<forall>x \<in> set res. \<exists>r. place (csegs v) (csegs h) x r"
    and hp: "hide_path env stuck v h f res path = (f', z)"
  shows "kept_outside R f f' \<and> (\<forall>res'. z = Inr res' \<longrightarrow> (\<forall>x \<in> set res'. \<exists>r. place (csegs v) (csegs h) x r))"
proof (cases "f' = f \<and> (is_ok z \<longrightarrow> z = Inr res)")
  case True
  then show ?thesis using kept_outside_refl [OF assms(1)] pl by auto
next
  case False
  obtain p rel f1 where p: "go_abs env path = Some p" and rel: "rel_path v p = Some rel" "\<not> escapes rel" "rel \<noteq> dot"
    and m: "MkdirAll (env_umask (mc_apply env)) 448 f (butlast (csegs (path_join h rel))) = Some f1"
    and alt: "(f' = f1 \<and> \<not> is_ok z) \<or> (os_rename f1 (csegs p) (csegs (path_join h rel)) = Some f' \<and>
        z = Inr (res @ [\<lparr>hd_original = p, hd_hidden = path_join h rel\<rparr>]))"
    using hp False by (auto simp: hide_path_def Let_def split: option.splits if_splits)
  have ap: "is_abs p" by (rule go_abs_abs [OF assms(2) p])
  obtain r where r: "csegs p = csegs v @ r" "csegs (path_join h rel) = csegs h @ r" "dotdot \<notin> set r"
    using relative_segments [OF a(1) ap a(2) rel] by blast
  have dd: "dotdot \<notin> set (csegs v @ r)" "dotdot \<notin> set (csegs h @ r)" using csegs_no_dotdot a r(3) by auto
  then have db: "dotdot \<notin> set (butlast (csegs h @ r))" by (auto dest: in_set_butlastD)
  have k1: "kept_outside R f f1"
    by (rule kept_mkdir [OF assms(1) db m [unfolded r(2)] prefixeq_butlast]) (use R in auto)
  have pl1: "place (csegs v) (csegs h) \<lparr>hd_original = p, hd_hidden = path_join h rel\<rparr> r"
    using r ap path_join_abs [OF a(2)] by (simp add: place_def)
  from alt show ?thesis
  proof
    assume rn: "os_rename f1 (csegs p) (csegs (path_join h rel)) = Some f' \<and> z = Inr (res @ [\<lparr>hd_original = p, hd_hidden = path_join h rel\<rparr>])"
    then have "kept_outside R f1 f'"
      using kept_rename [OF kept_links [OF k1] dd _ apart_below [OF VH]] R r by auto
    then show ?thesis using kept_outside_trans [OF k1] rn pl pl1 by auto
  qed (use k1 in \<open>auto simp: is_ok_iff\<close>)
qed

lemma hide_paths_frame:
  assumes "no_links f" and "cwd_ok env" and "is_abs v" and "is_abs h" and "apart (csegs v) (csegs h)"
    and "prefix R (csegs v)" and "prefix R (csegs h)" and "\<forall>x \<in> set res. \<exists>r. place (csegs v) (csegs h) x r"
    and "hide_paths env stuck v h f res ps = (f', z)"
  shows "kept_outside R f f' \<and> (\<forall>res'. z = Inr res' \<longrightarrow> (\<forall>x \<in> set res'. \<exists>r. place (csegs v) (csegs h) x r))"
  using assms(1,8,9)
proof (induction ps arbitrary: f res)
  case (Cons p ps)
  obtain f1 z1 where s: "hide_path env stuck v h f res p = (f1, z1)" by (cases "hide_path env stuck v h f res p")
  note F = hide_path_frame [OF Cons.prems(1) assms(2-7) Cons.prems(2) s]
  show ?case
  proof (cases z1)
    case (Inr res1)
    then have rest: "hide_paths env stuck v h f1 res1 ps = (f', z)" using Cons.prems(3) s by simp
    from F Inr have k: "kept_outside R f f1" and pl: "\<forall>x \<in> set res1. \<exists>r. place (csegs v) (csegs h) x r" by auto
    from Cons.IH [OF kept_links [OF k] pl rest] kept_outside_trans [OF k] show ?thesis by blast
  qed (use F Cons.prems(3) s in auto)
qed (auto simp: kept_outside_refl)

lemma hide_frame:
  assumes "no_links f" and "cwd_ok env" and "is_abs root"
    and "hideNativePaths srt env stuck f (view_of root) root paths = (f', z)"
  shows "kept_outside (csegs root) f f' \<and>
     (\<forall>hs. z = Inr hs \<longrightarrow> (\<forall>x \<in> set hs. \<exists>r. place (csegs (view_of root)) (csegs (path_join root ''hidden'')) x r))"
proof (cases "f' = f \<and> \<not> is_ok z")
  case True
  then show ?thesis using kept_outside_refl [OF assms(1)] by auto
next
  case False
  let ?v = "view_of root" and ?h = "path_join root ''hidden''"
  note vf = view_facts [OF assms(3)]
  obtain fH where m: "MkdirAll (env_umask (mc_apply env)) 448 f (csegs ?h) = Some fH"
    and hp: "hide_paths env stuck ?v ?h fH [] (srt paths) = (f', z)"
    using assms(4) vf(1,2) False by (auto simp: hideNativePaths_def go_abs_def Let_def split: option.splits)
  have R: "prefix (csegs root) (csegs ?v)" "prefix (csegs root) (csegs ?h)" by (simp_all add: vf(3,5))
  have k: "kept_outside (csegs root) f fH"
    by (rule kept_mkdir [OF assms(1) csegs_no_dotdot [OF vf(4)] m prefix_order.refl R(2)])
  from hide_paths_frame [OF kept_links [OF k] assms(2) vf(2,4,6) R _ hp] kept_outside_trans [OF k] show ?thesis by auto
qed

lemma restore_frame:
  assumes "no_links f" and "apart V H" and "prefix R V" and "prefix R H" and "\<forall>x \<in> set hs. \<exists>r. place V H x r"
    and "restore_paths env stuck f hs = (f', e)"
  shows "kept_outside R f f'"
  using assms(1,5,6)
proof (induction hs arbitrary: f)
  case (Cons x hs)
  obtain f1 e1 where s: "restore_path env stuck f x = (f1, e1)" by (cases "restore_path env stuck f x")
  obtain r where pl: "place V H x r" using Cons.prems(2) by auto
  have a: "is_abs (hd_original x)" "is_abs (hd_hidden x)" and c: "csegs (hd_original x) = V @ r" "csegs (hd_hidden x) = H @ r"
    using pl by (auto simp: place_def)
  have dd: "dotdot \<notin> set (H @ r)" "dotdot \<notin> set (V @ r)" using csegs_no_dotdot [OF a(1)] csegs_no_dotdot [OF a(2)] c by auto
  then have db: "dotdot \<notin> set (butlast (V @ r))" by (auto dest: in_set_butlastD)
  have HV: "apart (H @ r) (V @ r)" using apart_sym [OF assms(2)] by (rule apart_below)
  have R: "prefix R (V @ r)" "prefix R (H @ r)" using assms(3,4) by auto
  have rm: "kept_outside R f g" if "remove_all env f (hd_original x) = (g, b)" for g b
    using kept_remove [OF Cons.prems(1) a(1) that] R c by simp
  have mk: "kept_outside R f g1" if "kept_outside R f g" "MkdirAll u m g (butlast (V @ r)) = Some g1" for g g1 u m
    using kept_mkdir [OF kept_links [OF that(1)] db that(2) prefixeq_butlast R(1)] kept_outside_trans [OF that(1)] by blast
  have mv: "kept_outside R f g1" if "kept_outside R f g" "os_rename g (H @ r) (V @ r) = Some g1" for g g1
    using kept_rename [OF kept_links [OF that(1)] dd that(2) HV R(2,1)] kept_outside_trans [OF that(1)] by blast
  have "f1 = f \<or> (\<exists>g b. remove_all env f (hd_original x) = (g, b) \<and> (f1 = g \<or>
      (\<exists>g1. MkdirAll (env_umask (mc_apply env)) 448 g (butlast (V @ r)) = Some g1 \<and>
        (f1 = g1 \<or> os_rename g1 (H @ r) (V @ r) = Some f1))))"
    using s by (auto simp: restore_path_def c split: if_splits prod.splits bool.splits option.splits)
  then have k: "kept_outside R f f1"
    using kept_outside_refl [OF Cons.prems(1)] rm mk mv by (elim disjE exE conjE) blast+
  show ?case
  proof (cases e1)
    case None
    then have "restore_paths env stuck f1 hs = (f', e)" using Cons.prems(3) s by simp
    with Cons.IH [OF kept_links [OF k]] Cons.prems(2) kept_outside_trans [OF k] show ?thesis by auto
  qed (use k s Cons.prems(3) in auto)
qed (auto simp: kept_outside_refl)
lemma nw_fs_noted [simp]: "nw_fs (noted env operation p decision code w) = nw_fs w"
  by (simp add: noted_def appendNativeEvent_def)

lemma nw_fs_append: "appendNativeEvent env ev w = (w', ok) \<Longrightarrow> nw_fs w' = nw_fs w \<and> nw_record w' = nw_record w"
  by (auto simp: appendNativeEvent_def split: if_splits)

lemma nw_fs_write: "writeNativeRecordWithHistory env p r w = (w', e) \<Longrightarrow> nw_fs w' = nw_fs w"
  by (auto simp: writeNativeRecordWithHistory_def Let_def split: prod.splits option.splits if_splits)

lemma nw_fs_write_fst [simp]: "nw_fs (fst (writeNativeRecordWithHistory env p r w)) = nw_fs w"
  using nw_fs_write [OF surjective_pairing] .

lemma nw_fs_read_policy [simp]: "nw_fs (foldl (\<lambda>w p. noted env operation p decision code w) w ps) = nw_fs w"
  by (induction ps arbitrary: w) simp_all

lemma Discard_frame:
  assumes "no_links f" and "is_abs (mt_runtime t)" and "Discard env f t = (f', t', e)"
  shows "kept_outside (csegs (mt_runtime t)) f f'"
proof (cases "f' = f")
  case False
  then obtain b where "remove_all env f (mt_runtime t) = (f', b)"
    using assms(3) by (auto simp: Discard_def split: if_splits prod.splits bool.splits)
  then show ?thesis by (rule kept_remove [OF assms(1,2)]) simp
qed (use kept_outside_refl [OF assms(1)] in simp)

lemma discarded_frame:
  assumes "kept_outside (csegs (mt_runtime t)) f (nw_fs w)" and "is_abs (mt_runtime t)"
  shows "kept_outside (csegs (mt_runtime t)) f (nw_fs (discarded env t w))"
proof -
  obtain f' t' e where D: "Discard (nv_mac env) (nw_fs w) t = (f', t', e)" by (rule prod_cases3)
  from kept_outside_trans [OF assms(1) Discard_frame [OF kept_links [OF assms(1)] assms(2) D]] D show ?thesis
    by (simp add: discarded_def)
qed

text \<open>The agent is confined to its view, as its sandbox documents, and leaves no symbolic links.\<close>

definition confined_agent :: "native_env \<Rightarrow> path \<Rightarrow> bool" where
  "confined_agent env root \<longleftrightarrow> (\<forall>f f' c. no_links f \<longrightarrow> nv_agent env f = (f', c) \<longrightarrow>
     no_links f' \<and> (\<forall>q. \<not> prefix (csegs (view_of root)) q \<longrightarrow> fs_get f' q = fs_get f q))"

lemma native_finish_frame:
  assumes "kept_outside (csegs (mt_runtime t)) f (nw_fs w)" and "is_abs (mt_runtime t)" and "native_finish env a rec t r w = (w', s)"
  shows "kept_outside (csegs (mt_runtime t)) f (nw_fs w')"
proof -
  have D: "kept_outside (csegs (mt_runtime t)) f g" if "Discard (nv_mac env) (nw_fs w) t = (g, t', e)" for g t' e
    using kept_outside_trans [OF assms(1) Discard_frame [OF kept_links [OF assms(1)] assms(2) that]] .
  consider "w' = discarded env t w" | "nw_fs w' = nw_fs w" | g t' e where "Discard (nv_mac env) (nw_fs w) t = (g, t', e)" "nw_fs w' = g"
    using assms(3)
    by (auto simp: native_finish_def Let_def split: sum.splits if_splits prod.splits option.splits dest!: nw_fs_write)
  then show ?thesis using assms(1) D discarded_frame [OF assms(1,2)] by cases auto
qed

lemma native_agent_frame:
  assumes k: "kept_outside (csegs (mt_runtime t)) f (nw_fs w)" and a: "is_abs (mt_runtime t)"
    and ag: "confined_agent env (mt_runtime t)"
    and pl: "\<forall>x \<in> set hs. \<exists>r. place (csegs (view_of (mt_runtime t))) (csegs (path_join (mt_runtime t) ''hidden'')) x r"
    and run: "native_agent env args rec t r hs w = (w', s)"
  shows "kept_outside (csegs (mt_runtime t)) f (nw_fs w')"
proof -
  let ?R = "csegs (mt_runtime t)" and ?r1 = "r\<lparr>nr_state := ''running''\<rparr>"
  note vf = view_facts [OF a]
  define w2 where "w2 = noted env ''execve'' (hd (na_command args)) ''allow'' 0 (fst (writeNativeRecordWithHistory env rec ?r1 w))"
  have w2: "nw_fs w2 = nw_fs w" by (simp add: w2_def)
  obtain g c where g: "nv_agent env (nw_fs w2) = (g, c)" by (cases "nv_agent env (nw_fs w2)")
  obtain g1 e where g1: "restoreNativePaths (nv_mac env) (nv_stuck_back env) g hs = (g1, e)"
    by (cases "restoreNativePaths (nv_mac env) (nv_stuck_back env) g hs")
  have "no_links g \<and> (\<forall>q. \<not> prefix (csegs (view_of (mt_runtime t))) q \<longrightarrow> fs_get g q = fs_get (nw_fs w2) q)"
    using ag g kept_links [OF k] unfolding confined_agent_def w2 by blast
  then have kg: "kept_outside ?R (nw_fs w) g" unfolding w2 by (intro kept_outside_step) (auto simp: vf(3) dest: append_prefixD)
  have "kept_outside ?R g g1"
    using restore_frame [OF kept_links [OF kg] vf(6), of ?R "rev hs"] g1 pl by (simp add: vf(3,5) restoreNativePaths_def)
  with kept_outside_trans [OF k kept_outside_trans [OF kg]] have kg1: "kept_outside ?R f g1" by blast
  have eq: "native_agent env args rec t r hs w =
     (case e of Some x \<Rightarrow> (discarded env t (w2\<lparr>nw_fs := g1\<rparr>), NFatal (NRestore x))
      | None \<Rightarrow> (case c of
          Some code \<Rightarrow> (fst (writeNativeRecordWithHistory env rec (?r1\<lparr>nr_state := ''failed'', nr_exit := code\<rparr>)
              (discarded env t (noted env ''exit'' [] ''rollback'' code (w2\<lparr>nw_fs := g1\<rparr>)))), NFatal (NAgent code))
        | None \<Rightarrow> native_finish env args rec t ?r1 (w2\<lparr>nw_fs := g1\<rparr>)))"
    unfolding native_agent_def Let_def w2_def [symmetric] by (simp only: g g1 prod.case)
  have d: "kept_outside ?R f (nw_fs (discarded env t (w2\<lparr>nw_fs := g1\<rparr>)))"
    by (rule discarded_frame [OF _ a]) (simp add: kg1)
  have d2: "kept_outside ?R f (nw_fs (discarded env t (noted env ''exit'' [] ''rollback'' code (w2\<lparr>nw_fs := g1\<rparr>))))" for code
    by (rule discarded_frame [OF _ a]) (simp add: kg1)
  show ?thesis
  proof (cases e)
    case (Some x)
    then show ?thesis using run d unfolding eq by auto
  next
    case None
    show ?thesis
    proof (cases c)
      case (Some code)
      then show ?thesis using run d2 None unfolding eq by auto
    next
      case c: None
      have "native_finish env args rec t ?r1 (w2\<lparr>nw_fs := g1\<rparr>) = (w', s)" using run None c unfolding eq by simp
      then show ?thesis by (rule native_finish_frame [rotated 2]) (use kg1 a in simp_all)
    qed
  qed
qed

lemma native_protect_frame:
  assumes k: "kept_outside (csegs (mt_runtime t)) f (nw_fs w)" and a: "is_abs (mt_runtime t)" and cwd: "cwd_ok (nv_mac env)"
    and v: "mt_view t = view_of (mt_runtime t)" and ag: "confined_agent env (mt_runtime t)"
    and run: "native_protect env args rec pol t r w = (w', s)"
  shows "kept_outside (csegs (mt_runtime t)) f (nw_fs w')"
proof (cases "nativeDenyPaths (nv_mac env) (nv_find env) pol (nw_fs w) (mt_view t)")
  case (Inl e)
  then show ?thesis using run discarded_frame [OF k a] by (auto simp: native_protect_def)
next
  case (Inr paths)
  let ?w1 = "foldl (\<lambda>w p. noted env ''read_policy'' p ''deny'' 0 w) w paths"
  obtain g z where h: "hideNativePaths (nv_srt env) (nv_mac env) (nv_stuck env) (nw_fs w) (mt_view t) (mt_runtime t) paths = (g, z)"
    by (cases "hideNativePaths (nv_srt env) (nv_mac env) (nv_stuck env) (nw_fs w) (mt_view t) (mt_runtime t) paths")
  note F = hide_frame [OF kept_links [OF k] cwd a h [unfolded v]]
  have kg: "kept_outside (csegs (mt_runtime t)) f (nw_fs (?w1\<lparr>nw_fs := g\<rparr>))"
    using kept_outside_trans [OF k conjunct1 [OF F]] by simp
  show ?thesis
  proof (cases "z")
    case (Inl e)
    then show ?thesis using run Inr h discarded_frame [OF kg a] by (auto simp: native_protect_def Let_def)
  next
    case z: (Inr hs)
    have "w' = discarded env t (?w1\<lparr>nw_fs := g\<rparr>) \<or> native_agent env args rec t (r\<lparr>nr_hidden := paths\<rparr>) hs (?w1\<lparr>nw_fs := g\<rparr>) = (w', s)"
      using run Inr h z by (auto simp: native_protect_def Let_def split: if_splits)
    then show ?thesis
    proof
      assume "native_agent env args rec t (r\<lparr>nr_hidden := paths\<rparr>) hs (?w1\<lparr>nw_fs := g\<rparr>) = (w', s)"
      with F z show ?thesis by (intro native_agent_frame [OF kg a ag]) auto
    qed (use discarded_frame [OF kg a] in simp)
  qed
qed
lemma EvalSymlinks_no_links:
  assumes "no_links f" and "cwd_ok env" and "EvalSymlinks env f p = Some q"
  shows "is_abs q" and "clean q = q"
proof -
  obtain a where a: "go_abs env p = Some a" and q: "Some q = map_option render_abs (phys f (csegs a))"
    using assms(3) by (auto simp: EvalSymlinks_def split: option.splits if_splits)
  note aa = go_abs_abs [OF assms(2) a]
  have "q = render_abs (csegs a)" using q phys_no_links [OF assms(1) csegs_no_dotdot [OF aa]] by simp
  moreover have "clean a = render_abs (csegs a)" using clean_abs [OF aa] by (simp add: render_abs_def)
  ultimately have "q = clean a" by simp
  then show "is_abs q" "clean q = q" using aa by simp_all
qed

lemma native_paths_Inr:
  "native_paths env a f = Inr (rec, rt, hist, ws) \<Longrightarrow>
     go_abs (nv_mac env) (na_runtime a) = Some rt \<and> EvalSymlinks (nv_mac env) f (na_workspace a) = Some ws \<and> na_command a \<noteq> [] \<and>
     (na_success a = ''discard'' \<or> na_success a = ''review'')"
  by (auto simp: native_paths_def Let_def split: if_splits option.splits)

lemma PrepareAt_separate:
  assumes "cwd_ok env" and "no_links f" and "PrepareAt env f ws rt = (f', res)" and "is_abs ws" and "clean ws = ws" and "trim_space ws = ws"
    and "is_abs rt" and "clean rt = rt" and "f' \<noteq> f \<or> is_ok res"
  shows "\<not> prefix (csegs rt) (csegs ws) \<and> \<not> prefix (csegs ws) (csegs rt)"
proof -
  obtain source where s: "resolveDirectory env f ws = Inr source" using assms(3,9) by (auto simp: PrepareAt_def split: sum.splits)
  have "go_abs env ws = Some ws" "go_abs env rt = Some rt" using assms(4,5,7,8) by (simp_all add: go_abs_def)
  then have "is_abs source" "csegs source = csegs ws" using resolveDirectory_Inr [OF assms(2,1) s] assms(6) by auto
  moreover have "\<not> is_within source rt \<and> \<not> is_within rt source"
  proof (rule ccontr)
    assume "\<not> (\<not> is_within source rt \<and> \<not> is_within rt source)"
    then have "PrepareAt env f ws rt = (f, Inl NotSeparate)" using s \<open>go_abs env rt = Some rt\<close> by (auto simp: PrepareAt_def)
    then show False using assms(3,9) by simp
  qed
  ultimately show ?thesis using assms(7) by (simp add: is_within_prefix)
qed

lemma handleNativeRun_frame:
  assumes nl: "no_links (nw_fs w)" and cwd: "cwd_ok (nv_mac env)" and cl: "confined_clone (nv_mac env)" and ag: "confined_agent env rt"
    and np: "native_paths env a (nw_fs w) = Inr (rec, rt, hist, ws)" and run: "handleNativeRun env a w = (w', s)"
    and P: "PrepareAt (nv_mac env) (nw_fs w) ws rt = (f, res)"
  shows "nw_fs w' = nw_fs w \<or> (nw_fs w' = f \<and> \<not> is_ok res) \<or> (is_ok res \<and> kept_outside (csegs rt) (nw_fs w) (nw_fs w'))"
proof (cases "native_policy env a")
  case (Inl e)
  then show ?thesis using run np by (simp add: handleNativeRun_def)
next
  case pol: (Inr v)
  note pr = native_paths_Inr [OF np]
  have g: "go_abs (nv_mac env) (na_runtime a) = Some rt" using pr by blast
  have art: "is_abs rt" "go_abs (nv_mac env) rt = Some rt"
    using go_abs_abs [OF cwd g] go_abs_clean [OF cwd g] by (simp_all add: go_abs_def)
  note k = prepare_keeps_outside [OF nl cwd cl art(2) P]
  show ?thesis
  proof (cases res)
    case (Inl e)
    then show ?thesis using run np pol P by (auto simp: handleNativeRun_def)
  next
    case t: (Inr t)
    have tx: "mt_runtime t = rt" "mt_view t = view_of rt"
      using P t art(2) by (auto simp: PrepareAt_def Let_def split: sum.splits option.splits if_splits prod.splits bool.splits)
    have k1: "kept_outside (csegs (mt_runtime t)) (nw_fs w) (nw_fs (w\<lparr>nw_fs := f\<rparr>))" using k tx by simp
    have d: "kept_outside (csegs rt) (nw_fs w) (nw_fs (discarded env t w1))" if "nw_fs w1 = f" for w1
      using discarded_frame [of t "nw_fs w" w1 env] k1 tx art that by simp
    have "(\<exists>w1. nw_fs w1 = f \<and> w' = discarded env t w1) \<or> (\<exists>r w2. nw_fs w2 = f \<and> native_protect env a rec v t r w2 = (w', s))"
    proof (cases "runid_New (nv_run_stamp env) (nv_random env)")
      case (Inl e)
      then have "w' = discarded env t (w\<lparr>nw_fs := f\<rparr>)" using run np pol P t by (simp add: handleNativeRun_def)
      then show ?thesis by (intro disjI1 exI [of _ "w\<lparr>nw_fs := f\<rparr>"]) simp
    next
      case i: (Inr i)
      show ?thesis
      proof (cases "mac_build (nv_mac env) f ws")
        case (Inl e)
        then have "w' = discarded env t (w\<lparr>nw_fs := f\<rparr>)" using run np pol P t i by (simp add: handleNativeRun_def)
        then show ?thesis by (intro disjI1 exI [of _ "w\<lparr>nw_fs := f\<rparr>"]) simp
      next
        case b: (Inr base)
        let ?r = "native_record env a i rec rt hist ws t base"
        obtain w2 e where wr: "writeNativeRecordWithHistory env rec ?r (w\<lparr>nw_fs := f\<rparr>) = (w2, e)"
          by (cases "writeNativeRecordWithHistory env rec ?r (w\<lparr>nw_fs := f\<rparr>)")
        have "nw_fs w2 = f" using nw_fs_write [OF wr] by simp
        moreover have "(w', s) = (case e of Some x \<Rightarrow> (discarded env t w2, NFatal NRecordWrite)
            | None \<Rightarrow> native_protect env a rec v t ?r (noted env ''prepare'' [] ''allow'' 0 w2))"
          using run np pol P t i b wr by (simp add: handleNativeRun_def)
        ultimately show ?thesis
        proof (cases e)
          case None
          then show ?thesis
            using \<open>nw_fs w2 = f\<close> \<open>(w', s) = _\<close> by (intro disjI2 exI [of _ ?r] exI [of _ "noted env ''prepare'' [] ''allow'' 0 w2"]) simp
        qed auto
      qed
    qed
    then consider w1 where "nw_fs w1 = f" "w' = discarded env t w1"
      | r w2 where "nw_fs w2 = f" "native_protect env a rec v t r w2 = (w', s)" by blast
    then have "kept_outside (csegs rt) (nw_fs w) (nw_fs w')"
    proof cases
      case 1
      then show ?thesis using d by simp
    next
      case 2
      have "kept_outside (csegs (mt_runtime t)) (nw_fs w) (nw_fs w2)" using 2(1) k tx by simp
      from native_protect_frame [OF this _ cwd _ _ 2(2)] tx art ag show ?thesis by simp
    qed
    then show ?thesis using t by simp
  qed
qed

subsection \<open>The commands on a recorded run\<close>

lemma write_stores:
  "writeNativeRecordWithHistory env p r w = (w', None) \<Longrightarrow>
     nw_record w' = NStored (r\<lparr>nr_version := NativeRecordVersion, nr_updated := Some (nv_now env)\<rparr>)"
  by (auto simp: writeNativeRecordWithHistory_def WriteNativeRecord_def Let_def split: prod.splits option.splits if_splits)

lemma read_stored: "ReadNativeRecord f = Inr r \<longleftrightarrow> f = NStored r \<and> nr_version r = NativeRecordVersion"
  by (auto simp: ReadNativeRecord_def split: nfile.splits if_splits)

text \<open>
  A commit is confirmed and reviewed: \<open>rewind native commit\<close> changes the tree only if it is confirmed and
  the record says that the run succeeded; when it succeeds, it did to the tree what accepting the
  recorded transaction does, and the record holds the accepted changes and says committed.
\<close>

theorem native_commit_is_reviewed:
  assumes "handleNativeCommit env confirm p w = (w', s)"
  shows "(nw_fs w' \<noteq> nw_fs w \<longrightarrow> confirm \<and> (\<exists>r. nw_record w = NStored r \<and> nr_state r = ''succeeded'')) \<and>
     (s = NDone \<longrightarrow> (\<exists>r chs r'. nw_record w = NStored r \<and> nr_state r = ''succeeded'' \<and>
        AcceptMacOSRuntime (nv_mac env) (nw_fs w) (nr_workspace r) (nr_runtime r) (nr_base r) = (nw_fs w', chs, None) \<and>
        nw_record w' = NStored r' \<and> nr_state r' = ''committed'' \<and> nr_changes r' = chs))"
proof (cases "confirm \<and> (\<exists>r. ReadNativeRecord (nw_record w) = Inr r \<and> nr_state r = ''succeeded'')")
  case False
  then have "w' = w \<and> s \<noteq> NDone" using assms by (auto simp: handleNativeCommit_def split: if_splits sum.splits)
  then show ?thesis by simp
next
  case True
  then obtain r where r: "nw_record w = NStored r" "nr_state r = ''succeeded''" and rd: "ReadNativeRecord (nw_record w) = Inr r"
    and c: confirm by (auto simp: read_stored)
  have "\<exists>chs r'. AcceptMacOSRuntime (nv_mac env) (nw_fs w) (nr_workspace r) (nr_runtime r) (nr_base r) = (nw_fs w', chs, None) \<and>
      nw_record w' = NStored r' \<and> nr_state r' = ''committed'' \<and> nr_changes r' = chs" if fin: "s = NDone"
  proof -
    obtain w1 f chs w2 where a1: "appendNativeEvent env (native_event env ''commit_attempt'' [] ''pending'' 0) w = (w1, True)"
      and acc: "AcceptMacOSRuntime (nv_mac env) (nw_fs w1) (nr_workspace r) (nr_runtime r) (nr_base r) = (f, chs, None)"
      and a2: "appendNativeEvent env (native_event env ''commit'' [] ''allow'' 0) (w1\<lparr>nw_fs := f\<rparr>) = (w2, True)"
      and wr: "writeNativeRecordWithHistory env p (r\<lparr>nr_changes := chs, nr_state := ''committed''\<rparr>) w2 = (w', None)"
      using assms fin rd r(2) c
      by (auto simp: handleNativeCommit_def split: if_splits prod.splits bool.splits option.splits)
    have "nw_fs w1 = nw_fs w" "nw_fs w' = f" using nw_fs_append [OF a1] nw_fs_append [OF a2] nw_fs_write [OF wr] by simp_all
    then show ?thesis using acc write_stores [OF wr] by auto
  qed
  with r c show ?thesis by auto
qed

text \<open>What may happen to a record after the run: rolling back and committing, in any order and with any outcome.\<close>

inductive native_step :: "native_world \<Rightarrow> native_world \<Rightarrow> bool" where
  rollback: "handleNativeRollback env p w = (w', s) \<Longrightarrow> native_step w w'"
| commit: "handleNativeCommit env confirm p w = (w', s) \<Longrightarrow> native_step w w'"

text \<open>
  A committed run is final: once the record says committed, no sequence of rollbacks and commits, whatever
  fails in it, changes the tree or the record.
\<close>

theorem committed_native_run_is_final:
  assumes "native_step\<^sup>*\<^sup>* w w'" and "nw_record w = NStored r" and "nr_state r = ''committed''"
  shows "nw_fs w' = nw_fs w \<and> nw_record w' = nw_record w"
  using assms(1)
proof (induction rule: rtranclp_induct)
  case (step y z)
  then have y: "nw_record y = NStored r" using assms(2) by simp
  from step.hyps(2) have "nw_fs z = nw_fs y \<and> nw_record z = nw_record y"
    by cases (use y assms(3) in \<open>auto simp: handleNativeRollback_def handleNativeCommit_def ReadNativeRecord_def split: if_splits\<close>)
  then show ?case using step.IH by simp
qed simp

text \<open>A run that is rolled back is not committed afterwards.\<close>

lemma rolled_back_is_not_committed:
  "nw_record w = NStored r \<Longrightarrow> nr_state r \<noteq> ''succeeded'' \<Longrightarrow> handleNativeCommit env confirm p w = (w', s) \<Longrightarrow> w' = w \<and> s \<noteq> NDone"
  by (auto simp: handleNativeCommit_def ReadNativeRecord_def split: if_splits)

subsection \<open>The outcome of a run\<close>

lemma native_finish_done:
  assumes "native_finish env a rec t r w = (w', NDone)"
  shows "\<exists>r' after. nw_record w' = NStored r' \<and> mac_build (nv_mac env) (nw_fs w) (mt_view t) = Inr after \<and>
     nr_base r' = nr_base r \<and> nr_run r' = nr_run r \<and> nr_hidden r' = nr_hidden r \<and> nr_view r' = nr_view r \<and>
     nr_changes r' = Compare (nr_base r) after \<and>
     (if na_success a = ''discard'' then nr_state r' = ''discarded'' \<and> (\<exists>t'. Discard (nv_mac env) (nw_fs w) t = (nw_fs w', t', None))
      else nr_state r' = ''succeeded'' \<and> nw_fs w' = nw_fs w)"
proof -
  obtain after where af: "mac_build (nv_mac env) (nw_fs w) (mt_view t) = Inr after"
    using assms by (auto simp: native_finish_def split: sum.splits)
  let ?r = "r\<lparr>nr_changes := Compare (nr_base r) after\<rparr>"
  show ?thesis
  proof (cases "na_success a = ''discard''")
    case True
    obtain f t' where D: "Discard (nv_mac env) (nw_fs w) t = (f, t', None)"
      and wr: "writeNativeRecordWithHistory env rec (?r\<lparr>nr_state := ''discarded''\<rparr>) (noted env ''exit'' [] ''discard'' 0 (w\<lparr>nw_fs := f\<rparr>)) = (w', None)"
      using assms af True by (auto simp: native_finish_def Let_def split: prod.splits option.splits)
    show ?thesis using write_stores [OF wr] nw_fs_write [OF wr] D af True by auto
  next
    case False
    have wr: "writeNativeRecordWithHistory env rec (?r\<lparr>nr_state := ''succeeded''\<rparr>) (noted env ''exit'' [] ''review'' 0 w) = (w', None)"
      using assms af False by (auto simp: native_finish_def Let_def split: prod.splits option.splits)
    show ?thesis using write_stores [OF wr] nw_fs_write [OF wr] af False by auto
  qed
qed
lemma native_agent_done:
  assumes "native_agent env a rec t r hs w = (w', NDone)"
  shows "\<exists>w2. native_finish env a rec t (r\<lparr>nr_state := ''running''\<rparr>) w2 = (w', NDone)"
  using assms by (auto simp: native_agent_def Let_def split: prod.splits option.splits)

lemma native_protect_done:
  assumes "native_protect env a rec v t r w = (w', NDone)"
  shows "\<exists>paths w2. native_finish env a rec t (r\<lparr>nr_hidden := paths, nr_state := ''running''\<rparr>) w2 = (w', NDone)"
proof -
  obtain paths hs w1 where "native_agent env a rec t (r\<lparr>nr_hidden := paths\<rparr>) hs w1 = (w', NDone)"
    using assms by (auto simp: native_protect_def Let_def split: sum.splits prod.splits if_splits)
  from native_agent_done [OF this] show ?thesis by blast
qed

lemma handleNativeRun_done:
  assumes "handleNativeRun env a w = (w', NDone)"
  obtains rec rt hist ws v f t i base paths w2 where "native_paths env a (nw_fs w) = Inr (rec, rt, hist, ws)" and "native_policy env a = Inr v"
    and "PrepareAt (nv_mac env) (nw_fs w) ws rt = (f, Inr t)" and "mac_build (nv_mac env) f ws = Inr base"
    and "native_finish env a rec t ((native_record env a i rec rt hist ws t base)\<lparr>nr_hidden := paths, nr_state := ''running''\<rparr>) w2 = (w', NDone)"
proof -
  obtain rec rt hist ws where np: "native_paths env a (nw_fs w) = Inr (rec, rt, hist, ws)"
    using assms by (auto simp: handleNativeRun_def Let_def split: sum.splits)
  obtain v where v: "native_policy env a = Inr v" using assms np by (auto simp: handleNativeRun_def Let_def split: sum.splits)
  obtain f t where P: "PrepareAt (nv_mac env) (nw_fs w) ws rt = (f, Inr t)"
    using assms np v by (auto simp: handleNativeRun_def Let_def split: sum.splits prod.splits)
  obtain i where i: "runid_New (nv_run_stamp env) (nv_random env) = Inr i"
    using assms np v P by (auto simp: handleNativeRun_def Let_def split: sum.splits)
  obtain base where b: "mac_build (nv_mac env) f ws = Inr base"
    using assms np v P i by (auto simp: handleNativeRun_def Let_def split: sum.splits)
  obtain w2 where "native_protect env a rec v t (native_record env a i rec rt hist ws t base) w2 = (w', NDone)"
    using assms np v P i b by (auto simp: handleNativeRun_def Let_def split: prod.splits option.splits)
  from native_protect_done [OF this] that [OF np v P b] show ?thesis by blast
qed

text \<open>
  The outcome of a run is on record: when \<open>rewind native run\<close> succeeds, its record says discarded or, for
  a run that is to be reviewed, succeeded, and then the recorded changes are the difference between the
  recorded base and the view as the run leaves it, which is what a commit compares and installs.
\<close>

theorem native_run_outcome:
  assumes "handleNativeRun env a w = (w', NDone)"
  shows "\<exists>r. nw_record w' = NStored r \<and>
     (if na_success a = ''discard'' then nr_state r = ''discarded''
      else nr_state r = ''succeeded'' \<and>
        (\<exists>after. mac_build (nv_mac env) (nw_fs w') (nr_view r) = Inr after \<and> nr_changes r = Compare (nr_base r) after))"
  using assms
proof (rule handleNativeRun_done)
  fix rec rt hist ws v f t i base paths w2
  assume "native_finish env a rec t ((native_record env a i rec rt hist ws t base)\<lparr>nr_hidden := paths, nr_state := ''running''\<rparr>) w2 = (w', NDone)"
  from native_finish_done [OF this] show ?thesis by (auto simp: native_record_def split: if_splits)
qed

subsection \<open>Two defects\<close>

text \<open>
  The restoring of hidden paths follows a symbolic link that the agent left in place of a directory of the
  view: it then replaces a file outside of the view, where the agent itself may not write.
\<close>

lemma restore_follows_agent_link:
  "case restoreNativePaths mac_demo (\<lambda>_. False)
      [([''home''], NDir 493), ([''home'', ''key''], NFile 384 ''mine''), ([''rt''], NDir 448), ([''rt'', ''hidden''], NDir 448),
       ([''rt'', ''hidden'', ''d''], NDir 448), ([''rt'', ''hidden'', ''d'', ''key''], NFile 384 ''old''), ([''rt'', ''view''], NDir 448),
       ([''rt'', ''view'', ''d''], NLink 511 ''/home'')]
      [\<lparr>hd_original = ''/rt/view/d/key'', hd_hidden = ''/rt/hidden/d/key''\<rparr>] of
     (f, e) \<Rightarrow> e = None \<and> fs_get f [''home'', ''key''] = Some (NFile 384 ''old'')"
  by code_simp

definition demo_native :: native_env where
  "demo_native = \<lparr>nv_mac = mac_demo, nv_find = (\<lambda>_ _. []), nv_srt = (\<lambda>ps. sort_key length ps), nv_policy = (\<lambda>_. None), nv_stuck = (\<lambda>_. False),
     nv_stuck_back = (\<lambda>_. False), nv_random = Some ''r'', nv_stamp = ''t'', nv_run_stamp = ''0'', nv_now = 1, nv_seatbelt = True,
     nv_agent = (\<lambda>f. (fs_put [''rt'', ''view'', ''a''] (NFile 420 ''B'') f, None)),
     nv_io = (\<lambda>_. \<lparr>ni_mkdir = True, ni_temp = True, ni_write = True, ni_rename = True\<rparr>), nv_append = (\<lambda>operation. operation \<noteq> ''commit''),
     nv_order = (\<lambda>es. es), nv_history = \<lparr>io_mkdir = True, io_write = True, io_rename = True\<rparr>\<rparr>"

definition demo_native_record :: NativeRecord where
  "demo_native_record = \<lparr>nr_version = 1, nr_run = ''r'', nr_platform = ''darwin'', nr_backend = ''apfs-clone-seatbelt'', nr_workspace = ''/ws'',
     nr_runtime = ''/rt'', nr_history = [], nr_view = ''/rt/view'', nr_policy = ''/p'', nr_hidden = [], nr_command = [''sh''],
     nr_state = ''succeeded'', nr_exit = 0, nr_base = mk_manifest [file_entry ''a'' ''41''], nr_changes = [], nr_events_path = ''/e'',
     nr_events = [], nr_created = Some 0, nr_updated = None\<rparr>"

definition demo_native_world :: native_world where
  "demo_native_world = \<lparr>nw_fs = mac_edited, nw_record = NStored demo_native_record, nw_history = \<lparr>hs_path = [], hs_file = HMissing\<rparr>, nw_events = []\<rparr>"

text \<open>
  A commit is not atomic: when the event after the acceptance cannot be written, the changes are in the
  workspace while the record says succeeded, and a rollback then records that the run was rolled back.
\<close>

lemma interrupted_commit_can_be_rolled_back:
  "case handleNativeCommit demo_native True ''/r'' demo_native_world of (w1, s1) \<Rightarrow>
     s1 = NFatal NEvent \<and> fs_get (nw_fs w1) [''ws'', ''a''] = Some (NFile 420 ''B'') \<and>
     (case handleNativeRollback demo_native ''/r'' w1 of (w2, s2) \<Rightarrow>
        s2 = NDone \<and> (case nw_record w2 of NStored r \<Rightarrow> nr_state r = ''rolled_back'' | _ \<Rightarrow> False) \<and>
        fs_get (nw_fs w2) [''ws'', ''a''] = Some (NFile 420 ''B''))"
  by code_simp
subsection \<open>Witnesses\<close>

lemma sort_key_sorts: "sorts_by_length (sort_key length)"
  by (simp add: sorts_by_length_def)

definition hidden_fs :: fs where
  "hidden_fs = [([''rt'', ''hidden''], NDir 448), ([''rt'', ''hidden'', ''a''], NFile 420 ''A''), ([''rt'', ''view''], NDir 448), ([''rt''], NDir 448),
     ([''ws''], NDir 493), ([''ws'', ''a''], NFile 420 ''A'')]"

definition restored_fs :: fs where
  "restored_fs = [([''rt'', ''hidden''], NDir 448), ([''rt'', ''view'', ''a''], NFile 420 ''A''), ([''rt'', ''view''], NDir 448), ([''rt''], NDir 448),
     ([''ws''], NDir 493), ([''ws'', ''a''], NFile 420 ''A'')]"

definition deny_a :: Policy where
  "deny_a = \<lparr>pol_read = \<lparr>rd_mode = ModeEnforce, rd_deny = [''a''], rd_allow = [], rd_pii = \<lparr>pii_mode = ModeOff\<rparr>\<rparr>,
     pol_write = \<lparr>wr_mode = [], wr_scope = []\<rparr>, pol_network = \<lparr>net_mode = [], net_domains = [], net_creds = []\<rparr>,
     pol_resources = \<lparr>pids_max = [], memory_max = [], cpu_max = []\<rparr>\<rparr>"

lemma hide_demo:
  "hideNativePaths (sort_key length) mac_demo (\<lambda>_. False) mac_view (view_of ''/rt'') ''/rt'' [''/rt/view/a''] =
     (hidden_fs, Inr [\<lparr>hd_original = ''/rt/view/a'', hd_hidden = ''/rt/hidden/a''\<rparr>])"
  "restoreNativePaths mac_demo (\<lambda>_. False) hidden_fs [\<lparr>hd_original = ''/rt/view/a'', hd_hidden = ''/rt/hidden/a''\<rparr>] = (restored_fs, None)"
  "nativeDenyPaths mac_demo (\<lambda>_ _. []) deny_a mac_view (view_of ''/rt'') = Inr [''/rt/view/a'']"
  "csegs ''/rt/view/a'' = [''rt'', ''view'', ''a'']" "csegs (view_of ''/rt'') = [''rt'', ''view'']" "clean ''/rt/view/a'' = ''/rt/view/a''"
  "denied_entry (pol_read deny_a) (join_with [sep] [''a''])" "stat_dir mac_view (csegs (view_of ''/rt''))"
  by code_simp+

lemma mac_view_wf: "wf_fs mac_view"
  by (auto simp: mac_view_def wf_fs_def fs_get_def seg_ok_def plain_seg_def)

lemma hidden_no_links: "no_links hidden_fs"
  by (auto simp: no_links_def hidden_fs_def)

lemma hidden_paths_come_back_witness:
  "fs_get hidden_fs [''rt'', ''view'', ''a''] = None \<and> fs_get restored_fs [''rt'', ''view'', ''a''] = fs_get mac_view [''rt'', ''view'', ''a'']"
  using hidden_paths_come_back [OF mac_view_wf mac_no_links(2) sort_key_sorts _ _ hide_demo(1) hidden_no_links refl hide_demo(2)]
  by (simp add: hide_demo)


definition open_native :: native_env where
  "open_native = demo_native\<lparr>nv_policy := (\<lambda>_. Some deny_a), nv_append := (\<lambda>_. True)\<rparr>"

definition demo_native_args :: native_args where
  "demo_native_args = \<lparr>na_command = [''sh''], na_workspace = ''/ws'', na_runtime = ''/rt'', na_policy = ''/p'', na_record = ''/r'', na_history = [],
     na_success = ''review'', na_roots = ''/usr''\<rparr>"

definition fresh_native_world :: native_world where
  "fresh_native_world = \<lparr>nw_fs = mac_ws, nw_record = NMissing, nw_history = \<lparr>hs_path = [], hs_file = HMissing\<rparr>, nw_events = []\<rparr>"

lemma native_demo_run: "snd (handleNativeRun open_native demo_native_args fresh_native_world) = NDone"
  by code_simp

lemma native_run_outcome_witness:
  "\<exists>r. nw_record (fst (handleNativeRun open_native demo_native_args fresh_native_world)) = NStored r \<and> nr_state r = ''succeeded''"
proof -
  have "handleNativeRun open_native demo_native_args fresh_native_world =
      (fst (handleNativeRun open_native demo_native_args fresh_native_world), NDone)" using native_demo_run by (metis prod.collapse)
  from native_run_outcome [OF this] show ?thesis by (auto simp: demo_native_args_def)
qed


lemma native_commit_is_reviewed_witness:
  "\<exists>r. nw_record (fst (handleNativeCommit open_native True ''/r'' demo_native_world)) = NStored r \<and> nr_state r = ''committed''"
proof -
  have "snd (handleNativeCommit open_native True ''/r'' demo_native_world) = NDone" by code_simp
  with native_commit_is_reviewed [OF surjective_pairing, of open_native True "''/r''" demo_native_world] show ?thesis by auto
qed

lemma committed_native_run_is_final_witness:
  "nw_fs (fst (handleNativeRollback open_native ''/r'' (demo_native_world\<lparr>nw_record := NStored (demo_native_record\<lparr>nr_state := ''committed''\<rparr>)\<rparr>))) = mac_edited"
proof -
  let ?w = "demo_native_world\<lparr>nw_record := NStored (demo_native_record\<lparr>nr_state := ''committed''\<rparr>)\<rparr>"
  have "native_step ?w (fst (handleNativeRollback open_native ''/r'' ?w))" by (rule native_step.rollback [OF surjective_pairing])
  from committed_native_run_is_final [OF r_into_rtranclp [of native_step, OF this]] show ?thesis by (simp add: demo_native_world_def)
qed

text \<open>When the restoring fails, the runtime root is removed and the record keeps saying that the run is running.\<close>

lemma failed_restore_leaves_running_record:
  "case handleNativeRun (open_native\<lparr>nv_stuck_back := (\<lambda>_. True)\<rparr>) demo_native_args fresh_native_world of (w, s) \<Rightarrow>
     (case s of NFatal (NRestore e) \<Rightarrow> True | _ \<Rightarrow> False) \<and> fs_get (nw_fs w) [''rt''] = None \<and>
     (case nw_record w of NStored r \<Rightarrow> nr_state r = ''running'' | _ \<Rightarrow> False)"
  by code_simp

end
