(* ===== verification/Platform_Plans.thy ===== *)
theory Platform_Plans
  imports Release Macos_Backend
begin

text \<open>
  What the program says about other operating systems and how it confines a process on macOS:
  \<open>platform/capabilities.go\<close>, \<open>native_contract.go\<close>, \<open>macos_plan.go\<close> and \<open>windows_plan.go\<close>, which only report,
  and the Seatbelt profile of \<open>native_contract.go\<close> and \<open>native_darwin.go\<close>, a text that the sandbox of the
  host reads.  The system that runs the program and the answers of its commands are arguments.
\<close>

subsection \<open>Capabilities\<close>

record Capability =
  cb_platform :: string
  cb_backend :: string
  cb_supported :: bool
  cb_project :: bool
  cb_read :: bool
  cb_network :: bool
  cb_reasons :: "string list"

definition Probe :: "string \<Rightarrow> Capability" where
  "Probe goos =
     (if goos = ''linux'' then
        \<lparr>cb_platform = ''linux'', cb_backend = ''overlayfs-landlock-ebpf'', cb_supported = True, cb_project = True, cb_read = True, cb_network = False,
         cb_reasons = [''requires runtime capability probe for the selected kernel backend'']\<rparr>
      else if goos = ''darwin'' then
        \<lparr>cb_platform = ''darwin'', cb_backend = ''seatbelt-apfs'', cb_supported = False, cb_project = False, cb_read = False, cb_network = False,
         cb_reasons = [''read-only prerequisite probe is available'',
           ''EndpointSecurity entitlement and APFS disposable-volume rollback require manual validation'',
           ''native backend remains fail-closed until that gate passes'']\<rparr>
      else if goos = ''windows'' then
        \<lparr>cb_platform = ''windows'', cb_backend = ''native-policy-workspace'', cb_supported = False, cb_project = False, cb_read = False, cb_network = False,
         cb_reasons = [''native process/filesystem policy adapter is planned'', ''WSL2 is compatibility-only and does not protect the Windows host'']\<rparr>
      else
        \<lparr>cb_platform = goos, cb_backend = ''unsupported'', cb_supported = False, cb_project = False, cb_read = False, cb_network = False,
         cb_reasons = [''no supported transaction backend for this operating system'']\<rparr>)"

definition mac_Capabilities :: Capability where
  "mac_Capabilities =
     \<lparr>cb_platform = ''darwin'', cb_backend = ''apfs-clone-seatbelt'', cb_supported = True, cb_project = True, cb_read = True, cb_network = False,
      cb_reasons = [''filesystem transaction and Seatbelt read policy are available'',
        ''EndpointSecurity telemetry and network enforcement require the signed helper gate'']\<rparr>"

definition ValidateForRun :: "Capability \<Rightarrow> (string \<times> string list) option" where
  "ValidateForRun c = (if \<not> cb_supported c then Some (cb_platform c, cb_reasons c) else None)"

text \<open>\<open>NativeBackend\<close>, told by what it reports; the other backend refuses every \<open>Prepare\<close>.\<close>

definition NativeBackend :: "string \<Rightarrow> bool \<times> Capability" where
  "NativeBackend goos = (if goos = ''darwin'' then (True, mac_Capabilities) else (False, Probe goos))"

definition unavailable_Prepare :: "Capability \<Rightarrow> string \<times> string list" where
  "unavailable_Prepare c = (cb_platform c, cb_reasons c)"

record PlatformStatus =
  ps_platform :: string
  ps_host :: bool
  ps_target :: string
  ps_backend :: string
  ps_code :: bool
  ps_ready :: bool
  ps_manual :: bool
  ps_helper :: bool
  ps_project :: bool
  ps_read :: bool
  ps_network :: bool
  ps_reasons :: "string list"

text \<open>The reasons of a helper that is not verified are the values of \<open>Release\<close>, which \<open>show_reason\<close> prints.\<close>

definition status_rows :: "string \<Rightarrow> PlatformStatus list" where
  "status_rows goos =
     [\<lparr>ps_platform = ''linux'', ps_host = False, ps_target = ''linux/amd64, linux/arm64'', ps_backend = ''overlayfs-landlock-ebpf'',
       ps_code = True, ps_ready = (goos = ''linux''), ps_manual = False, ps_helper = False, ps_project = True, ps_read = True, ps_network = False,
       ps_reasons = [''privileged OverlayFS/eBPF/cgroup acceptance belongs in the disposable Ubuntu VM'']\<rparr>,
      \<lparr>ps_platform = ''darwin'', ps_host = False, ps_target = ''darwin/arm64'', ps_backend = ''Seatbelt + EndpointSecurity + APFS'',
       ps_code = True, ps_ready = False, ps_manual = True, ps_helper = False, ps_project = False, ps_read = False, ps_network = False,
       ps_reasons = [''signed EndpointSecurity helper and disposable APFS rollback acceptance are required'']\<rparr>,
      \<lparr>ps_platform = ''windows'', ps_host = False, ps_target = ''windows/amd64'', ps_backend = ''Job Object + minifilter + VHDX'',
       ps_code = True, ps_ready = False, ps_manual = True, ps_helper = False, ps_project = False, ps_read = False, ps_network = False,
       ps_reasons = [''signed minifilter/service and disposable VHDX rollback acceptance are required'']\<rparr>]"

definition status_row :: "crypto \<Rightarrow> helper_host \<Rightarrow> (helper_reason \<Rightarrow> string) \<Rightarrow> string \<Rightarrow> PlatformStatus \<Rightarrow> helper_error + PlatformStatus" where
  "status_row cy hh show_reason helperManifest p =
     (let r = p\<lparr>ps_host := (hh_goos hh = ps_platform p)\<rparr> in
      if blank helperManifest \<or> ps_platform r = ''linux'' then Inr r
      else if \<not> ps_host r then
        Inr (r\<lparr>ps_reasons := ps_reasons r @ [''helper verification is deferred until the target host runs the preflight'']\<rparr>)
      else and_then (VerifyNativeHelper cy hh helperManifest []) (\<lambda>v.
        Inr (r\<lparr>ps_helper := hv_verified v,
               ps_reasons := ps_reasons r @
                 (if hv_verified v then [''helper bytes and optional signature verified; privileged acceptance is still a manual gate'']
                  else map show_reason (hv_reasons v))\<rparr>)))"

fun status_loop :: "(PlatformStatus \<Rightarrow> helper_error + PlatformStatus) \<Rightarrow> PlatformStatus list \<Rightarrow> helper_error + PlatformStatus list" where
  "status_loop f [] = Inr []"
| "status_loop f (p # ps) = and_then (f p) (\<lambda>q. and_then (status_loop f ps) (\<lambda>qs. Inr (q # qs)))"

definition StatusMatrix :: "crypto \<Rightarrow> helper_host \<Rightarrow> (helper_reason \<Rightarrow> string) \<Rightarrow> string \<Rightarrow> helper_error + PlatformStatus list" where
  "StatusMatrix cy hh show_reason helperManifest = status_loop (status_row cy hh show_reason helperManifest) (status_rows (hh_goos hh))"

subsection \<open>The native contract\<close>

record NativeContract =
  nc_platform :: string
  nc_workspace :: path
  nc_read :: string
  nc_process :: string
  nc_snapshot :: string
  nc_ready :: bool
  nc_reasons :: "string list"

datatype plan_refusal = PlanPlatform string | PlanWorkspace | PlanAbs | PlanHost string | PlanStat | PlanNotDir | PlanCommand | PlanRoot | PlanDeny | PlanDir | PlanProfile

definition BuildNativeContract :: "mac_env \<Rightarrow> string \<Rightarrow> path \<Rightarrow> plan_refusal + NativeContract" where
  "BuildNativeContract env platformName workspace =
     (let p = to_lower (trim_space platformName) in
      if p \<noteq> ''darwin'' \<and> p \<noteq> ''windows'' then Inl (PlanPlatform p)
      else if blank workspace then Inl PlanWorkspace
      else (case go_abs env workspace of
        None \<Rightarrow> Inl PlanAbs
      | Some a \<Rightarrow>
          if p = ''darwin'' then
            Inr \<lparr>nc_platform = p, nc_workspace = a, nc_read = ''Seatbelt profile + EndpointSecurity'',
                 nc_process = ''EndpointSecurity child-process policy'', nc_snapshot = ''APFS clone/disposable volume'', nc_ready = False,
                 nc_reasons = [''requires signed EndpointSecurity entitlement'', ''requires disposable APFS volume acceptance test'']\<rparr>
          else
            Inr \<lparr>nc_platform = p, nc_workspace = a, nc_read = ''filesystem minifilter policy'',
                 nc_process = ''Job Object + restricted token'', nc_snapshot = ''VHDX differencing disk'', nc_ready = False,
                 nc_reasons = [''requires signed minifilter/service'', ''requires disposable VHDX acceptance test'']\<rparr>))"

definition SupportedOnHost :: "string \<Rightarrow> NativeContract \<Rightarrow> bool" where
  "SupportedOnHost goos c \<longleftrightarrow> goos = nc_platform c"

definition WindowsJobPlan :: "string list" where
  "WindowsJobPlan = [''CreateJobObject(REWIND_JOB)'', ''SetInformationJobObject(JOB_OBJECT_LIMIT_KILL_ON_JOB_CLOSE)'',
     ''AssignProcessToJobObject(REWIND_JOB)'', ''Create restricted token before CreateProcess'']"
subsection \<open>The plans\<close>

text \<open>The reasons of a plan, as values; the host: the programs it finds and the outputs of commands, or their errors.\<close>

datatype plan_reason = NotValidated | ToolMissing string | MountProbe string | DiskutilProbe string | StatProbe string | NotApfs string

record plan_host =
  ph_goos :: string
  ph_look :: "string \<Rightarrow> path option"
  ph_run :: "string \<Rightarrow> string list \<Rightarrow> string + string"

record MacOSPlan =
  mp_workspace :: path
  mp_filesystem :: string
  mp_sandbox :: path
  mp_diskutil :: path
  mp_ready :: bool
  mp_enforcement :: bool
  mp_manual :: bool
  mp_reasons :: "plan_reason list"

definition NL :: char where "NL = CHR 0x0A"

definition mountPointForPath :: "plan_host \<Rightarrow> path \<Rightarrow> string + string" where
  "mountPointForPath ph p =
     and_then (ph_run ph ''/bin/df'' [''-P'', p]) (\<lambda>out.
       let ls = split_on NL (trim_space out) in
       if length ls < 2 then Inl ''unexpected df output''
       else (let fs = str_fields (last ls) in
         if length fs < 6 then Inl ''unexpected df record'' else Inr (last fs)))"

definition disk_field :: "string \<Rightarrow> string option" where
  "disk_field line =
     (case find (\<lambda>p. prefix p (trim_space line)) [''Type (Bundle):'', ''File System Personality:''] of
        None \<Rightarrow> None
      | Some p \<Rightarrow> Some (to_lower (trim_space (trim_prefix p (trim_space line)))))"

fun first_some :: "('a \<Rightarrow> 'b option) \<Rightarrow> 'a list \<Rightarrow> 'b option" where
  "first_some f [] = None"
| "first_some f (x # xs) = (case f x of Some y \<Rightarrow> Some y | None \<Rightarrow> first_some f xs)"

definition parseDiskutilFilesystem :: "string \<Rightarrow> string" where
  "parseDiskutilFilesystem out = (case first_some disk_field (split_on NL out) of None \<Rightarrow> [] | Some v \<Rightarrow> v)"

definition plan_tools :: "plan_host \<Rightarrow> MacOSPlan \<Rightarrow> MacOSPlan" where
  "plan_tools ph pl =
     (let p1 = (case ph_look ph ''sandbox-exec'' of
            Some x \<Rightarrow> pl\<lparr>mp_sandbox := x\<rparr> | None \<Rightarrow> pl\<lparr>mp_reasons := mp_reasons pl @ [ToolMissing ''sandbox-exec'']\<rparr>) in
      case ph_look ph ''diskutil'' of
        Some x \<Rightarrow> p1\<lparr>mp_diskutil := x\<rparr> | None \<Rightarrow> p1\<lparr>mp_reasons := mp_reasons p1 @ [ToolMissing ''diskutil'']\<rparr>)"

definition plan_diskutil :: "plan_host \<Rightarrow> path \<Rightarrow> MacOSPlan \<Rightarrow> MacOSPlan" where
  "plan_diskutil ph a pl =
     (if mp_diskutil pl = [] then pl
      else (case mountPointForPath ph a of
        Inl e \<Rightarrow> pl\<lparr>mp_reasons := mp_reasons pl @ [MountProbe e]\<rparr>
      | Inr m \<Rightarrow>
     (case ph_run ph (mp_diskutil pl) [''info'', m] of
        Inl e \<Rightarrow> pl\<lparr>mp_reasons := mp_reasons pl @ [DiskutilProbe e]\<rparr>
      | Inr out \<Rightarrow> pl\<lparr>mp_filesystem := parseDiskutilFilesystem out\<rparr>)))"

definition plan_stat :: "plan_host \<Rightarrow> path \<Rightarrow> MacOSPlan \<Rightarrow> MacOSPlan" where
  "plan_stat ph a pl =
     (if mp_filesystem pl \<noteq> [] then pl
      else (case ph_run ph ''/usr/bin/stat'' [''-f'', ''%T'', a] of
        Inr out \<Rightarrow>
          (let c = trim_space out in if c = ''apfs'' \<or> c = ''hfs'' \<or> c = ''ufs'' then pl\<lparr>mp_filesystem := c\<rparr> else pl)
      | Inl e \<Rightarrow> if mp_diskutil pl = [] then pl\<lparr>mp_reasons := mp_reasons pl @ [StatProbe e]\<rparr> else pl))"

definition plan_ready :: "MacOSPlan \<Rightarrow> MacOSPlan" where
  "plan_ready pl =
     (let p = (if mp_filesystem pl \<noteq> ''apfs'' then pl\<lparr>mp_reasons := mp_reasons pl @ [NotApfs (mp_filesystem pl)]\<rparr> else pl) in
      p\<lparr>mp_ready := (mp_sandbox p \<noteq> [] \<and> mp_diskutil p \<noteq> [] \<and> mp_filesystem p = ''apfs'' \<and> length (mp_reasons p) = 1)\<rparr>)"

definition plan_dir :: "mac_env \<Rightarrow> fs \<Rightarrow> path \<Rightarrow> plan_refusal + path" where
  "plan_dir env f workspace =
     (case go_abs env workspace of
        None \<Rightarrow> Inl PlanAbs
      | Some a \<Rightarrow>
          (case stat_node f (csegs a) of None \<Rightarrow> Inl PlanStat | Some n \<Rightarrow> if is_dir n then Inr a else Inl PlanNotDir))"

definition PlanForWorkspace :: "plan_host \<Rightarrow> mac_env \<Rightarrow> fs \<Rightarrow> path \<Rightarrow> plan_refusal + MacOSPlan" where
  "PlanForWorkspace ph env f workspace =
     (if ph_goos ph \<noteq> ''darwin'' then Inl (PlanHost (ph_goos ph))
      else and_then (plan_dir env f workspace) (\<lambda>a.
        Inr (plan_ready (plan_stat ph a (plan_diskutil ph a (plan_tools ph
          \<lparr>mp_workspace = a, mp_filesystem = [], mp_sandbox = [], mp_diskutil = [], mp_ready = False, mp_enforcement = False,
           mp_manual = True, mp_reasons = [NotValidated]\<rparr>))))))"

record WindowsPlan =
  wp_workspace :: path
  wp_powershell :: path
  wp_fsutil :: path
  wp_ready :: bool
  wp_enforcement :: bool
  wp_manual :: bool
  wp_reasons :: "plan_reason list"

definition PlanForWindowsWorkspace :: "plan_host \<Rightarrow> mac_env \<Rightarrow> fs \<Rightarrow> path \<Rightarrow> plan_refusal + WindowsPlan" where
  "PlanForWindowsWorkspace ph env f workspace =
     (if ph_goos ph \<noteq> ''windows'' then Inl (PlanHost (ph_goos ph))
      else and_then (plan_dir env f workspace) (\<lambda>a.
        let (s, r1) = (case ph_look ph ''powershell.exe'' of Some x \<Rightarrow> (x, [NotValidated]) | None \<Rightarrow> ([], [NotValidated, ToolMissing ''powershell.exe'']));
            (u, r2) = (case ph_look ph ''fsutil.exe'' of Some x \<Rightarrow> (x, r1) | None \<Rightarrow> ([], r1 @ [ToolMissing ''fsutil.exe'']))
        in Inr \<lparr>wp_workspace = a, wp_powershell = s, wp_fsutil = u, wp_ready = False, wp_enforcement = False, wp_manual = True,
                wp_reasons = r2\<rparr>))"

subsection \<open>The Seatbelt profile\<close>

definition sb_quote :: "string \<Rightarrow> string" where
  "sb_quote p = concat (map (\<lambda>c. if c = CHR ''\"'' then [CHR 0x5C, CHR ''\"''] else [c])
     (concat (map (\<lambda>c. if c = CHR 0x5C then [CHR 0x5C, CHR 0x5C] else [c]) p)))"

definition sb_rule :: "string \<Rightarrow> path \<Rightarrow> string" where
  "sb_rule head p = head @ '' \"'' @ sb_quote p @ ''\"))''"

definition resolved :: "fs \<Rightarrow> path \<Rightarrow> path" where
  "resolved f a = (if stat_node f (csegs a) = None then a else case phys f (csegs a) of None \<Rightarrow> a | Some q \<Rightarrow> render_abs q)"

definition SeatbeltProfile :: "mac_env \<Rightarrow> fs \<Rightarrow> path \<Rightarrow> plan_refusal + string" where
  "SeatbeltProfile env f workspace =
     (if blank workspace then Inl PlanWorkspace
      else (case go_abs env workspace of
        None \<Rightarrow> Inl PlanAbs
      | Some a \<Rightarrow>
          let p = resolved f a in
          Inr (''(version 1)'' @ [NL] @ ''(deny default)'' @ [NL] @ ''(allow process*)'' @ [NL] @
            ''(allow file-read* (literal \"/\"))'' @ [NL] @ ''(allow file-read-metadata (subpath \"/\"))'' @ [NL] @
            sb_rule ''(allow file-read* (subpath'' p @ [NL] @ sb_rule ''(allow file-write* (subpath'' p @ [NL] @
            ''(allow file-write* (literal \"/dev/null\"))'' @ [NL])))"

definition default_read_roots :: "path list" where
  "default_read_roots = [''/usr'', ''/bin'', ''/sbin'', ''/System/Library'', ''/Library/Frameworks'', ''/private/etc'', ''/private/var/db'',
     ''/private/var/run'', ''/opt/homebrew'', ''/usr/local'', ''/dev'']"

text \<open>The loops over the read roots, which are inserted after the second line, and over the denies, which are appended.\<close>

fun root_lines :: "mac_env \<Rightarrow> fs \<Rightarrow> path set \<Rightarrow> path list \<Rightarrow> plan_refusal + string list" where
  "root_lines env f seen [] = Inr []"
| "root_lines env f seen (r # rs) =
     (if trim_space r = [] then root_lines env f seen rs
      else (case go_abs env (trim_space r) of
        None \<Rightarrow> Inl PlanRoot
      | Some a \<Rightarrow>
          let p = resolved f a in
          if p \<in> seen then root_lines env f seen rs
          else and_then (root_lines env f (insert p seen) rs) (\<lambda>ls. Inr (sb_rule ''(allow file-read* (subpath'' p # ls))))"

fun deny_lines :: "mac_env \<Rightarrow> fs \<Rightarrow> path list \<Rightarrow> plan_refusal + string list" where
  "deny_lines env f [] = Inr []"
| "deny_lines env f (d # ds) =
     (if trim_space d = [] then deny_lines env f ds
      else (case go_abs env (trim_space d) of
        None \<Rightarrow> Inl PlanDeny
      | Some a \<Rightarrow>
          and_then (deny_lines env f ds) (\<lambda>ls.
            Inr (sb_rule ''(deny file-read* (literal'' (resolved f a) # sb_rule ''(deny file-read-data (literal'' (resolved f a) # ls))))"

definition SeatbeltProfileWithRootsAndDenies :: "mac_env \<Rightarrow> fs \<Rightarrow> path \<Rightarrow> path list \<Rightarrow> path list \<Rightarrow> plan_refusal + string" where
  "SeatbeltProfileWithRootsAndDenies env f workspace roots denies =
     and_then (SeatbeltProfile env f workspace) (\<lambda>base.
       let ls = split_on NL (trim_suffix [NL] base) in
       and_then (root_lines env f {} (default_read_roots @ roots)) (\<lambda>rl.
       and_then (deny_lines env f denies) (\<lambda>dl.
         Inr (join_with [NL] (take 2 ls @ rl @ drop 2 ls @ dl) @ [NL]))))"

text \<open>The command line of the sandbox, with the profile file that was written, or that could not be.\<close>

record seatbelt_options =
  so_workspace :: path
  so_command :: string
  so_args :: "string list"
  so_dir :: path
  so_environment :: "string list option"
  so_roots :: "path list"
  so_denies :: "path list"

record seatbelt_command =
  sc_argv :: "string list"
  sc_profile :: string
  sc_dir :: path
  sc_environment :: "string list option"

definition SeatbeltCommandWithOptions :: "mac_env \<Rightarrow> fs \<Rightarrow> path option \<Rightarrow> seatbelt_options \<Rightarrow> plan_refusal + seatbelt_command" where
  "SeatbeltCommandWithOptions env f profileFile so =
     (if blank (so_command so) then Inl PlanCommand
      else and_then (SeatbeltProfileWithRootsAndDenies env f (so_workspace so) (so_roots so) (so_denies so)) (\<lambda>profile.
        case profileFile of
          None \<Rightarrow> Inl PlanProfile
        | Some pf \<Rightarrow>
            let c = \<lparr>sc_argv = [''sandbox-exec'', ''-f'', pf, so_command so] @ so_args so, sc_profile = profile, sc_dir = [],
                     sc_environment = so_environment so\<rparr> in
            if so_dir so = [] then Inr c
            else (case go_abs env (so_dir so) of None \<Rightarrow> Inl PlanDir | Some d \<Rightarrow> Inr (c\<lparr>sc_dir := d\<rparr>))))"

definition SeatbeltProfileWithRoots :: "mac_env \<Rightarrow> fs \<Rightarrow> path \<Rightarrow> path list \<Rightarrow> plan_refusal + string" where
  "SeatbeltProfileWithRoots env f workspace roots = SeatbeltProfileWithRootsAndDenies env f workspace roots []"

definition SeatbeltCommand :: "mac_env \<Rightarrow> fs \<Rightarrow> path option \<Rightarrow> path \<Rightarrow> string \<Rightarrow> string list \<Rightarrow> plan_refusal + seatbelt_command" where
  "SeatbeltCommand env f profileFile workspace command args =
     and_then (SeatbeltProfileWithRoots env f workspace []) (\<lambda>profile.
       case profileFile of
         None \<Rightarrow> Inl PlanProfile
       | Some pf \<Rightarrow> Inr \<lparr>sc_argv = [''sandbox-exec'', ''-f'', pf, command] @ args, sc_profile = profile, sc_dir = [], sc_environment = None\<rparr>)"

subsection \<open>Quoting\<close>

text \<open>How the sandbox reads a string literal: up to the first quote that no backslash precedes.\<close>

fun read_literal :: "string \<Rightarrow> (string \<times> string) option" where
  "read_literal [] = None"
| "read_literal (c # cs) =
     (if c = CHR ''\"'' then Some ([], cs)
      else if c = CHR 0x5C then
        (case cs of [] \<Rightarrow> None | d # ds \<Rightarrow> map_option (\<lambda>(p, rest). (d # p, rest)) (read_literal ds))
      else map_option (\<lambda>(p, rest). (c # p, rest)) (read_literal cs))"

lemma sb_quote_Cons:
  "sb_quote (c # p) = (if c = CHR 0x5C then [CHR 0x5C, CHR 0x5C] else if c = CHR ''\"'' then [CHR 0x5C, CHR ''\"''] else [c]) @ sb_quote p"
  by (simp add: sb_quote_def)

text \<open>
  No path breaks out of its literal: whatever characters the path of a rule has, quotes and backslashes
  included, the sandbox reads back that path and goes on after the closing quote.
\<close>

theorem seatbelt_literal_reads_back: "read_literal (sb_quote p @ CHR ''\"'' # rest) = Some (p, rest)"
proof (induction p)
  case Nil
  then show ?case by (simp add: sb_quote_def)
next
  case (Cons c p)
  then show ?case by (auto simp: sb_quote_Cons)
qed

subsection \<open>The rules of a profile\<close>

definition lines_text :: "string list \<Rightarrow> string" where
  "lines_text ls = concat (map (\<lambda>l. l @ [NL]) ls)"

lemma lines_text_simps [simp]: "lines_text [] = []" "lines_text (l # ls) = l @ NL # lines_text ls" "lines_text (xs @ ys) = lines_text xs @ lines_text ys"
  by (simp_all add: lines_text_def)

lemma join_lines: "xs \<noteq> [] \<Longrightarrow> join_with [NL] xs @ [NL] = lines_text xs"
proof (induction xs)
  case (Cons x xs)
  then show ?case by (cases xs) auto
qed simp

lemma split_lines_text: "lines_text (split_on NL s) = s @ [NL]"
proof -
  have "split_on NL s \<noteq> []" by (induction s) (auto split: list.splits)
  from join_lines [OF this] show ?thesis by simp
qed

definition read_rule :: "path \<Rightarrow> string" where "read_rule = sb_rule ''(allow file-read* (subpath''"
definition write_rule :: "path \<Rightarrow> string" where "write_rule = sb_rule ''(allow file-write* (subpath''"
definition deny_rules :: "path \<Rightarrow> string list" where
  "deny_rules p = [sb_rule ''(deny file-read* (literal'' p, sb_rule ''(deny file-read-data (literal'' p]"

definition process_rules :: "string list" where
  "process_rules = [''(allow process*)'', ''(allow file-read* (literal \"/\"))'', ''(allow file-read-metadata (subpath \"/\"))'']"

text \<open>The resolved places of a list of read roots.\<close>

definition read_places :: "mac_env \<Rightarrow> fs \<Rightarrow> path list \<Rightarrow> path set" where
  "read_places env f rs = {resolved f a | r a. r \<in> set rs \<and> go_abs env (trim_space r) = Some a}"

lemma read_places_Cons: "read_places env f rs \<subseteq> read_places env f (r # rs)"
  "go_abs env (trim_space r) = Some a \<Longrightarrow> resolved f a \<in> read_places env f (r # rs)"
  by (auto simp: read_places_def)

lemma root_lines_rules:
  "root_lines env f seen rs = Inr ls \<Longrightarrow> \<exists>ps. ls = map read_rule ps \<and> distinct ps \<and> set ps \<inter> seen = {} \<and>
     set ps \<subseteq> read_places env f rs"
proof (induction env f seen rs arbitrary: ls rule: root_lines.induct)
  case (2 env f seen r rs)
  show ?case
  proof (cases "trim_space r = []")
    case True
    then have "root_lines env f seen rs = Inr ls" using "2.prems" by simp
    from "2.IH"(1) [OF True this] obtain ps where "ls = map read_rule ps" "distinct ps" "set ps \<inter> seen = {}"
      "set ps \<subseteq> read_places env f rs" by blast
    with read_places_Cons(1) [of env f rs r] show ?thesis by (intro exI [of _ ps]) auto
  next
    case False
    obtain a where a: "go_abs env (trim_space r) = Some a" using "2.prems" False by (auto split: option.splits)
    show ?thesis
    proof (cases "resolved f a \<in> seen")
      case True
      then have "root_lines env f seen rs = Inr ls" using "2.prems" False a by (simp add: Let_def)
      from "2.IH"(2) [OF False a refl True this] obtain ps where "ls = map read_rule ps" "distinct ps" "set ps \<inter> seen = {}"
        "set ps \<subseteq> read_places env f rs" by blast
      with read_places_Cons(1) [of env f rs r] show ?thesis by (intro exI [of _ ps]) auto
    next
      case new: False
      obtain ls1 where l: "root_lines env f (insert (resolved f a) seen) rs = Inr ls1" "ls = read_rule (resolved f a) # ls1"
        using "2.prems" False a new by (auto simp: Let_def read_rule_def)
      from "2.IH"(3) [OF False a refl new l(1)] obtain ps where ps: "ls1 = map read_rule ps" "distinct ps" "set ps \<inter> insert (resolved f a) seen = {}"
        "set ps \<subseteq> read_places env f rs" by auto
      show ?thesis using ps l(2) new read_places_Cons(1) [of env f rs r] read_places_Cons(2) [OF a, of f rs] by (intro exI [of _ "resolved f a # ps"]) auto
    qed
  qed
qed simp

lemma deny_lines_rules: "deny_lines env f ds = Inr ls \<Longrightarrow> \<exists>ps. ls = concat (map deny_rules ps)"
proof (induction ds arbitrary: ls)
  case (Cons d ds)
  then show ?case
  proof (cases "trim_space d = []")
    case False
    obtain a ls1 where "deny_lines env f ds = Inr ls1" "ls = deny_rules (resolved f a) @ ls1"
      using Cons.prems False by (auto simp: deny_rules_def split: option.splits)
    moreover from this(1) obtain ps where "ls1 = concat (map deny_rules ps)" using Cons.IH by blast
    ultimately show ?thesis by (intro exI [of _ "resolved f a # ps"]) simp
  qed simp
qed (auto intro: exI [of _ "[]"])

text \<open>
  A profile denies by default and lets the process write below its workspace only: the text that is
  built by inserting lines into the split base profile is the version, the default denial, a read rule
  for each distinct root, the fixed rules, one read and one write rule for the resolved workspace, the
  null device, and rules that deny.
\<close>

theorem seatbelt_writes_only_workspace:
  assumes "SeatbeltProfileWithRootsAndDenies env f workspace roots denies = Inr prof"
  shows "\<exists>a roots' denied. go_abs env workspace = Some a \<and> distinct roots' \<and>
     set roots' \<subseteq> read_places env f (default_read_roots @ roots) \<and>
     prof = lines_text ([''(version 1)'', ''(deny default)''] @ map read_rule roots' @ process_rules @
       [read_rule (resolved f a), write_rule (resolved f a), ''(allow file-write* (literal \"/dev/null\"))''] @ concat (map deny_rules denied))"
proof -
  obtain base rl dl where b: "SeatbeltProfile env f workspace = Inr base" and r: "root_lines env f {} (default_read_roots @ roots) = Inr rl"
    and d: "deny_lines env f denies = Inr dl"
    and t: "prof = join_with [NL] (take 2 (split_on NL (trim_suffix [NL] base)) @ rl @ drop 2 (split_on NL (trim_suffix [NL] base)) @ dl) @ [NL]"
    using assms by (auto simp: SeatbeltProfileWithRootsAndDenies_def Let_def)
  obtain a where a: "go_abs env workspace = Some a" using b by (auto simp: SeatbeltProfile_def split: if_splits option.splits)
  let ?tail = "process_rules @ [read_rule (resolved f a), write_rule (resolved f a)]"
  define rest where "rest = lines_text ?tail @ ''(allow file-write* (literal \"/dev/null\"))''"
  have base: "base = ''(version 1)'' @ NL # ''(deny default)'' @ NL # rest @ [NL]"
    using b a by (simp add: SeatbeltProfile_def rest_def process_rules_def read_rule_def write_rule_def Let_def split: if_splits)
  then have "trim_suffix [NL] base = ''(version 1)'' @ NL # ''(deny default)'' @ NL # rest"
    by (simp add: trim_suffix_def suffix_def)
  moreover have n: "NL \<notin> set ''(version 1)''" "NL \<notin> set ''(deny default)''" by (simp_all add: NL_def)
  ultimately have sp: "split_on NL (trim_suffix [NL] base) = ''(version 1)'' # ''(deny default)'' # split_on NL rest"
    using split_on_append_sep [of NL "''(version 1)''"] split_on_append_sep [of NL "''(deny default)''"] split_on_id [OF n(1)] split_on_id [OF n(2)]
    by simp
  have "prof = lines_text ([''(version 1)'', ''(deny default)''] @ rl @ split_on NL rest @ dl)"
    unfolding t sp by (subst join_lines) simp_all
  also have "\<dots> = lines_text ([''(version 1)'', ''(deny default)''] @ rl @ ?tail @ [''(allow file-write* (literal \"/dev/null\"))''] @ dl)"
    by (simp add: split_lines_text rest_def)
  finally show ?thesis using root_lines_rules [OF r] deny_lines_rules [OF d] a by fastforce
qed
subsection \<open>What the reports promise\<close>

lemma status_row_facts:
  assumes "status_row cy hh sr hm p = Inr q" and "\<not> ps_helper p"
  shows "ps_platform q = ps_platform p \<and> ps_host q = (hh_goos hh = ps_platform p) \<and> ps_ready q = ps_ready p \<and> ps_manual q = ps_manual p \<and>
     (ps_helper q \<longrightarrow> ps_host q \<and> ps_platform q \<noteq> ''linux'' \<and> (\<exists>v. VerifyNativeHelper cy hh hm [] = Inr v \<and> hv_verified v))"
proof (cases "blank hm \<or> ps_platform p = ''linux'' \<or> hh_goos hh \<noteq> ps_platform p")
  case True
  then show ?thesis using assms by (cases "blank hm \<or> ps_platform p = ''linux''") (auto simp: status_row_def Let_def)
next
  case False
  then obtain v where v: "VerifyNativeHelper cy hh hm [] = Inr v"
    using assms(1) by (auto simp: status_row_def Let_def)
  have "ps_platform p \<noteq> ''linux''" "hh_goos hh = ps_platform p" "\<not> blank hm" using False by blast+
  then show ?thesis using assms v by (auto simp: status_row_def Let_def)
qed

text \<open>
  The status matrix claims no more than was checked: it has one row for each system, only the Linux row of a
  Linux host is ready to enforce, the others need a manual gate, and a helper counts as verified only
  in the row of the host and if \<open>VerifyNativeHelper\<close> accepted it.
\<close>

theorem status_matrix_is_honest:
  assumes "StatusMatrix cy hh sr hm = Inr ps"
  shows "map ps_platform ps = [''linux'', ''darwin'', ''windows''] \<and>
     (\<forall>p \<in> set ps. ps_host p = (hh_goos hh = ps_platform p) \<and> (ps_ready p \<longrightarrow> ps_platform p = ''linux'' \<and> ps_host p) \<and>
        (ps_platform p \<noteq> ''linux'' \<longrightarrow> ps_manual p) \<and>
        (ps_helper p \<longrightarrow> ps_host p \<and> ps_platform p \<noteq> ''linux'' \<and> (\<exists>v. VerifyNativeHelper cy hh hm [] = Inr v \<and> hv_verified v)))"
proof -
  let ?f = "status_row cy hh sr hm"
  obtain r1 r2 r3 where rows: "status_rows (hh_goos hh) = [r1, r2, r3]" by (simp add: status_rows_def)
  then have r: "ps_platform r1 = ''linux''" "ps_platform r2 = ''darwin''" "ps_platform r3 = ''windows''" "\<not> ps_helper r1" "\<not> ps_helper r2" "\<not> ps_helper r3"
    "ps_ready r1 = (hh_goos hh = ''linux'')" "\<not> ps_ready r2" "\<not> ps_ready r3" "ps_manual r2" "ps_manual r3"
    by (auto simp: status_rows_def)
  obtain q1 q2 q3 where q: "?f r1 = Inr q1" "?f r2 = Inr q2" "?f r3 = Inr q3" and ps: "ps = [q1, q2, q3]"
    using assms by (auto simp: StatusMatrix_def rows)
  show ?thesis
    using status_row_facts [OF q(1) r(4)] status_row_facts [OF q(2) r(5)] status_row_facts [OF q(3) r(6)] r ps by auto
qed

lemma plan_tools_facts:
  "mp_reasons pl = [NotValidated] \<Longrightarrow> mp_sandbox pl = [] \<Longrightarrow> mp_diskutil pl = [] \<Longrightarrow> mp_filesystem (plan_tools ph pl) = mp_filesystem pl \<and>
     hd (mp_reasons (plan_tools ph pl)) = NotValidated \<and> mp_reasons (plan_tools ph pl) \<noteq> [] \<and>
     (mp_sandbox (plan_tools ph pl) \<noteq> [] \<longrightarrow> ph_look ph ''sandbox-exec'' = Some (mp_sandbox (plan_tools ph pl))) \<and>
     (mp_diskutil (plan_tools ph pl) \<noteq> [] \<longrightarrow> ph_look ph ''diskutil'' = Some (mp_diskutil (plan_tools ph pl))) \<and>
     mp_enforcement (plan_tools ph pl) = mp_enforcement pl \<and> mp_manual (plan_tools ph pl) = mp_manual pl"
  by (auto simp: plan_tools_def Let_def split: option.split)

definition same_tools :: "MacOSPlan \<Rightarrow> MacOSPlan \<Rightarrow> bool" where
  "same_tools p q \<longleftrightarrow> mp_sandbox q = mp_sandbox p \<and> mp_diskutil q = mp_diskutil p \<and> mp_enforcement q = mp_enforcement p \<and> mp_manual q = mp_manual p \<and>
     (mp_reasons p \<noteq> [] \<longrightarrow> mp_reasons q \<noteq> [] \<and> hd (mp_reasons q) = hd (mp_reasons p))"

lemma same_tools_trans: "same_tools p q \<Longrightarrow> same_tools q r \<Longrightarrow> same_tools p r"
  by (auto simp: same_tools_def)

lemma plan_diskutil_same: "same_tools pl (plan_diskutil ph a pl)"
  by (auto simp: same_tools_def plan_diskutil_def split: sum.split)

lemma plan_stat_same: "same_tools pl (plan_stat ph a pl)"
  by (auto simp: same_tools_def plan_stat_def Let_def split: sum.split)

lemma plan_ready_same: "same_tools pl (plan_ready pl)"
  by (auto simp: same_tools_def plan_ready_def Let_def)

text \<open>
  A macOS plan is ready exactly if both tools were found, the file system is APFS and no probe
  failed; the only reason left is then that nothing was validated by hand, and no plan claims to
  enforce.
\<close>

theorem macos_plan_ready_iff:
  assumes "PlanForWorkspace ph env f workspace = Inr pl"
  shows "ph_goos ph = ''darwin'' \<and> \<not> mp_enforcement pl \<and> mp_manual pl \<and> hd (mp_reasons pl) = NotValidated \<and>
     (mp_ready pl \<longleftrightarrow> mp_sandbox pl \<noteq> [] \<and> mp_diskutil pl \<noteq> [] \<and> mp_filesystem pl = ''apfs'' \<and> mp_reasons pl = [NotValidated]) \<and>
     (mp_ready pl \<longrightarrow> ph_look ph ''sandbox-exec'' = Some (mp_sandbox pl) \<and> ph_look ph ''diskutil'' = Some (mp_diskutil pl))"
proof -
  obtain a where g: "ph_goos ph = ''darwin''" and "plan_dir env f workspace = Inr a"
    using assms by (auto simp: PlanForWorkspace_def split: if_splits)
  define p0 where "p0 = \<lparr>mp_workspace = a, mp_filesystem = [], mp_sandbox = [], mp_diskutil = [], mp_ready = False, mp_enforcement = False,
     mp_manual = True, mp_reasons = [NotValidated]\<rparr>"
  define p1 where "p1 = plan_tools ph p0"
  define p3 where "p3 = plan_stat ph a (plan_diskutil ph a p1)"
  have pl: "pl = plan_ready p3"
    using assms g \<open>plan_dir env f workspace = Inr a\<close> by (simp add: PlanForWorkspace_def p0_def p1_def p3_def)
  have p1: "hd (mp_reasons p1) = NotValidated" "mp_reasons p1 \<noteq> []" "\<not> mp_enforcement p1" "mp_manual p1"
    "mp_sandbox p1 \<noteq> [] \<longrightarrow> ph_look ph ''sandbox-exec'' = Some (mp_sandbox p1)" "mp_diskutil p1 \<noteq> [] \<longrightarrow> ph_look ph ''diskutil'' = Some (mp_diskutil p1)"
    using plan_tools_facts [of p0 ph] by (simp_all add: p1_def p0_def)
  have s: "same_tools p1 pl"
    unfolding pl p3_def by (intro same_tools_trans [OF same_tools_trans [OF plan_diskutil_same plan_stat_same] plan_ready_same])
  have "mp_reasons pl \<noteq> []" "hd (mp_reasons pl) = NotValidated" using s p1 by (auto simp: same_tools_def)
  then have "length (mp_reasons pl) = 1 \<longleftrightarrow> mp_reasons pl = [NotValidated]" by (cases "mp_reasons pl") auto
  moreover have "mp_ready pl = (mp_sandbox pl \<noteq> [] \<and> mp_diskutil pl \<noteq> [] \<and> mp_filesystem pl = ''apfs'' \<and> length (mp_reasons pl) = 1)"
    unfolding pl by (simp add: plan_ready_def Let_def)
  ultimately show ?thesis using g s p1 by (auto simp: same_tools_def)
qed

text \<open>A contract and a Windows plan never claim to be ready.\<close>

lemma contracts_are_not_ready:
  "BuildNativeContract env name workspace = Inr c \<Longrightarrow> \<not> nc_ready c \<and> nc_reasons c \<noteq> []"
  "PlanForWindowsWorkspace ph env f workspace = Inr w \<Longrightarrow> \<not> wp_ready w \<and> \<not> wp_enforcement w \<and> wp_manual w"
  by (auto simp: BuildNativeContract_def PlanForWindowsWorkspace_def Let_def split: if_splits option.splits prod.splits)

text \<open>The backend of a macOS host reports that runs are supported, the probe of the same host that they are not.\<close>

lemma darwin_reports_disagree: "cb_supported (snd (NativeBackend ''darwin'')) \<and> \<not> cb_supported (Probe ''darwin'')"
  by (simp add: NativeBackend_def mac_Capabilities_def Probe_def)

text \<open>
  The default read roots are not compared with the workspace: the profile of a run whose workspace is below
  \<open>/usr/local\<close> allows reading all of \<open>/usr/local\<close>, with the files that were hidden from the view.
\<close>

lemma default_root_reopens_workspace:
  "case SeatbeltProfileWithRootsAndDenies mac_demo [] ''/rt/view'' [] [] of
     Inr prof \<Rightarrow> read_rule ''/usr/local'' \<in> set (split_on NL prof) \<and> is_within ''/usr/local'' ''/usr/local/src/project''
   | Inl e \<Rightarrow> False"
  by code_simp

subsection \<open>Witnesses\<close>

lemma seatbelt_writes_only_workspace_witness:
  "\<exists>prof rest. SeatbeltProfileWithRootsAndDenies mac_demo [] ''/rt/view'' [''/srv''] [''/rt/view/a''] = Inr prof \<and>
     prof = ''(version 1)'' @ NL # ''(deny default)'' @ NL # rest"
proof -
  let ?P = "SeatbeltProfileWithRootsAndDenies mac_demo [] ''/rt/view'' [''/srv''] [''/rt/view/a'']"
  have "is_ok ?P" by code_simp
  then obtain prof where t: "?P = Inr prof" by (auto simp: is_ok_iff)
  from seatbelt_writes_only_workspace [OF this] t show ?thesis by auto
qed

lemma status_matrix_is_honest_witness:
  "\<exists>ps. StatusMatrix demo_crypto demo_host (\<lambda>_. []) ''/m'' = Inr ps \<and> map ps_platform ps = [''linux'', ''darwin'', ''windows'']"
proof -
  have "is_ok (StatusMatrix demo_crypto demo_host (\<lambda>_. []) ''/m'')" by code_simp
  then obtain ps where ps: "StatusMatrix demo_crypto demo_host (\<lambda>_. []) ''/m'' = Inr ps" by (auto simp: is_ok_iff)
  show ?thesis using status_matrix_is_honest [OF ps, THEN conjunct1] by (intro exI [of _ ps] conjI ps)
qed

definition demo_plan_host :: plan_host where
  "demo_plan_host = \<lparr>ph_goos = ''darwin'', ph_look = (\<lambda>p. Some (''/usr/bin/'' @ p)),
     ph_run = (\<lambda>c args. if c = ''/bin/df'' then Inr (''Filesystem'' @ [NL] @ ''d 1 2 3 4% /ws'')
                else Inr (''  Type (Bundle):  APFS'' @ [NL] @ ''x''))\<rparr>"

lemma macos_plan_ready_iff_witness:
  "\<exists>pl. PlanForWorkspace demo_plan_host mac_demo mac_ws ''/ws'' = Inr pl \<and> mp_ready pl \<and> mp_reasons pl = [NotValidated]"
proof -
  have "case PlanForWorkspace demo_plan_host mac_demo mac_ws ''/ws'' of Inr pl \<Rightarrow> mp_ready pl | Inl _ \<Rightarrow> False" by code_simp
  then obtain pl where "PlanForWorkspace demo_plan_host mac_demo mac_ws ''/ws'' = Inr pl" "mp_ready pl"
    by (auto split: sum.splits)
  with macos_plan_ready_iff [OF this(1)] show ?thesis by blast
qed

end
