(* ===== verification/Spec2Isabelle.thy ===== *)
theory Spec2Isabelle
  imports Acceptance Checkpoint Coordinator Evidence Sessions One_Shot Net_Broker Cgroup Review_Safety Sensor_Adapter Registry Seccomp Bundle Evidence_Transfer Review_Patch Policy_Learn Release Session_Drivers Native_Run Platform_Plans
begin

text \<open>
  RewindBPF runs a coding agent on a copy-on-write view of a workspace, limits what the agent may
  read and reach, journals what it does, and lets an operator commit or roll back the result.
  The library models the Go packages under \<open>src/internal\<close> as HOL functions with the names of
  the source, and proves what the packages promise each other and the operator.

  The parts and how they interact.

  \<^item> A run is planned (\<open>runplan/plan.go\<close>, theory \<open>Run_Plan\<close>): \<open>plan_Build\<close> resolves the
    workspace, asks the agent adapter (\<open>agent/adapter.go\<close>) for the launch, hardens the network
    policy, builds the manifest of the workspace (\<open>manifest/manifest.go\<close>, \<open>Manifest_Model\<close>),
    scans for personal data (\<open>pii/scan.go\<close>, \<open>Pii_Scan\<close>), and compiles the read policy
    (\<open>policy/policy.go\<close>, \<open>Policy_Engine\<close>; \<open>policycompile\<close>, \<open>ebpfload/read_rules.go\<close> and
    \<open>landlock\<close>, \<open>Read_Rules\<close>).
  \<^item> The coordinator (\<open>protectedrun/coordinator.go\<close>, \<open>Coordinator\<close>) mounts the overlay
    (\<open>overlay/overlay.go\<close>, \<open>Overlay_Model\<close>), starts the agent behind a gate, puts it into a process
    scope (\<open>cgroup/scope.go\<close>, \<open>Cgroup\<close>), prepares the network boundary (\<open>netpolicy\<close>, \<open>Net_Policy\<close>;
    \<open>netns/allowlist.go\<close>, \<open>Net_Broker\<close>), attaches the sensor and opens the gate.  The state of a
    run is the machine of \<open>lifecycle/lifecycle.go\<close> (\<open>Lifecycle\<close>).
  \<^item> Kernel events are decoded, chained by hashes and journalled (\<open>event\<close> and \<open>telemetry\<close>,
    \<open>Telemetry\<close>); the run record keeps a summary that the verification recomputes
    (\<open>runstore/store.go\<close> and \<open>evidence/verify.go\<close>, \<open>Evidence\<close>).
  \<^item> Afterwards the operator compares manifests (\<open>diff/diff.go\<close>, \<open>Diff_Model\<close>) and applies the
    changes (\<open>acceptance\<close>, \<open>Acceptance\<close>), or discards the layers.  Runs of several agents form a
    graph of checkpoints (\<open>checkpoint/graph.go\<close>, \<open>Checkpoint\<close>).
  \<^item> The supervisor hands out one-shot challenges and credential leases
    (\<open>supervisor/challenge.go\<close>, \<open>credentials\<close>, \<open>One_Shot\<close>), and session leases say who owns a run
    (\<open>session/store.go\<close>, \<open>Sessions\<close>).

  \<^item> The command \<open>rewind run\<close> (\<open>cmd/rewind/run.go\<close>) composes these parts: \<open>Run_Flow\<close> is its whole
    course, each refusal and exit with the state it leaves, \<open>Sensor_Adapter\<close> the adapter that reads
    the kernel ring, journals and rotates, \<open>Seccomp\<close> the system call filters of the agent as
    classic BPF programs with an interpreter for them.
  \<^item> What happens to a finished run is \<open>Review\<close> (\<open>cmd/rewind/supervisor_actions.go\<close>, \<open>commit.go\<close>): commit, rollback and recovery rewrite the run record, and \<open>History\<close>
    (\<open>internal/history\<close>) its index of runs.  \<open>Review_Patch\<close> (\<open>internal/export\<close>) exports a run as a patch
    and applies it on a branch; \<open>Policy_Learn\<close> (\<open>internal/policylearn\<close>) turns a journal into policy
    suggestions.
  \<^item> The supervisor (\<open>internal/supervisor\<close>): \<open>Supervisor\<close> is its HTTP handler over the world of stores,
    \<open>Audit_Log\<close> the log of actions, \<open>Run_Detail\<close> the projection of a record, \<open>Event_Stream\<close> what a
    follower of the journal is sent, \<open>Control_Plane\<close> (\<open>internal/controlplane\<close>) the catalogue of policy
    packages.  \<open>Review_Safety\<close> and \<open>Supervisor_Safety\<close> state what no sequence of requests can do.
  \<^item> Artifacts that leave the host: \<open>Policy_Bundle\<close> and \<open>Registry\<close> (signed policies and their store),
    \<open>Bundle\<close> and \<open>Evidence_Transfer\<close> (archives of a run, encrypted and uploaded), \<open>Release\<close> (detached
    signatures, the native helper), with \<open>Go_Base64\<close> for the encoding they share.
  \<^item> \<open>Session_Drivers\<close> has the other stores of session leases (\<open>session/sqlite.go\<close>, \<open>remote.go\<close>).
  \<^item> macOS: \<open>Macos_Backend\<close> (\<open>platform/macos_backend.go\<close>) clones a workspace, accepts or discards the
    clone; \<open>Native_Record\<close> is the record of such a run, \<open>Native_Run\<close> (\<open>cmd/rewind/native_darwin.go\<close>)
    the command with the hiding of denied paths, \<open>Platform_Plans\<close> the capability reports, the plans
    and the Seatbelt profile.

  How the model reads.  A Go struct is a record, an enumeration a datatype, a \<open>(value, error)\<close>
  result a sum with the error on the left; every early return is a branch.  A function that
  changes state takes the state and returns it.  The prelude \<open>Go_Base\<close> has the parts of
  \<open>strings\<close>, \<open>strconv\<close>, \<open>hex\<close> and \<open>sort\<close> the source uses, \<open>Go_Path\<close> the package \<open>path/filepath\<close>,
  \<open>Go_Glob\<close> the function \<open>path.Match\<close>, and \<open>Fs_Model\<close> the file system calls of package \<open>os\<close> on a
  finite map from paths to nodes.  Counters are 64-bit words.  Clocks, random bytes, the
  outcome of a host command or of a kernel call, SHA-256 and the JSON codec of a store are
  arguments; where a theorem needs something of them, it is a hypothesis of the theorem.

  Interfaces.  \<open>boundary\<close> (in \<open>Go_Path\<close>) is what the path checks of overlay, plan and acceptance
  rely on: on absolute paths, lying inside a root is a preorder whose up-sets are chains; it is
  interpreted on \<open>filepath.Rel\<close> as modelled.  \<open>one_shot\<close> and its extension \<open>one_shot_store\<close> state
  that a token is spent by being presented; they are interpreted on the challenge store and on
  the credential broker.  \<open>backend_transaction\<close> (in \<open>Macos_Backend\<close>) is the contract of the Go interface
  \<open>Transaction\<close>: a transaction is completed at most once; it is interpreted on the macOS backend.

  What the lemmas show.  Each theory proves the behaviour of its operations on every branch it
  relies on, then its main theorems.
  Codecs and stores read back what they write (\<open>Telemetry\<close>, \<open>Go_Base64\<close>, \<open>Bundle\<close>, \<open>Evidence_Transfer\<close>,
  \<open>Registry\<close>, \<open>Native_Run\<close>).  Algorithms decide their declarative meaning (\<open>Policy_Engine\<close>, \<open>Diff_Model\<close>,
  \<open>Manifest_Model\<close>, \<open>Acceptance\<close>, \<open>Seccomp\<close>).  Stores refine a simpler one or keep its invariant
  (\<open>Sessions\<close>, \<open>Session_Drivers\<close>, \<open>Control_Plane\<close>, \<open>Checkpoint\<close>).  The safety theorems follow a run:
  nothing is left running by a failed start, a discarded or lossy run is never committed, a rollback
  never touches the workspace, a denied file is not readable, and a run changes only through a
  challenge that the supervisor handed out and an action it logged.

  Loops and bounds.  Structural recursion covers loops over lists.  The glob matcher, the path cleaner,
  the white space trimmer and the JSON escaper have termination proofs.  Unmounting retries at
  most 20 times and polls at most 200 times, uploads make at most 6 attempts, symbolic links are
  followed at most 40 times: the constants of the source, or of the kernel for the last, so those
  loops are structural in the number of attempts left and no fuel is added to them.  The limits
  of the source are kept where they decide a result: 65,536 bytes of an audit line, 500 entries
  of an audit answer, 1 MiB of a journal line that is learned from, 128 and 192 MiB of an archive, the
  life time of a challenge and of a lease.  Log rotation is stated for fewer than a million
  rotations, the width of the number in the file name.  Loops that wait for the world (the lock of the session
  store, the emptying of a process scope) are \<open>poll\<close> of \<open>Go_Base\<close>, a partial function whose
  value is None when the loop never ends; the theorems say exactly when it ends.

  Not modelled.  The loaders of kernel objects (\<open>internal/ebpfload\<close> apart from its rules, and the C
  programs), the starting and killing of processes, the raw ring reader, the Windows job object
  calls and the stubs of other systems are calls of an operating system interface with no logic
  of their own; their outcomes are arguments here.  The commands that only parse flags or print,
  the dashboards and the test fixtures are left out.  Threads are not interleaved inside an
  operation: a store that takes its lock for the whole operation is one step, and the theorems on
  sequences quantify over the order of the steps.
\<close>

end
